(* ===== verification/Prelude.thy ===== *)
theory Prelude
  imports Main "HOL-Library.Finite_Map" "HOL-Library.List_Lexorder" "HOL-Library.Char_ord"
begin

text \<open>
  What the components share: time, Go maps, Go slices filtered in place, and the
  proof collections.

  \<^item> A \<open>time.Time\<close> is an unbounded integer, the nanoseconds since the zero time
    (January 1, year 1, UTC), so that \<open>IsZero\<close> is equality with \<open>0\<close>. A
    \<open>time.Duration\<close> is an integer number of nanoseconds.
  \<^item> A Go map is a finite map, \<open>('k, 'v) fmap\<close>: lookup is \<open>fmlookup\<close>, \<open>m[k] = v\<close> is
    \<open>fmupd\<close> and \<open>delete(m, k)\<close> is \<open>fmdrop\<close>. Go leaves the iteration order
    unspecified: a loop that treats every entry alike is \<open>fm_each\<close>, and a loop that
    builds a list goes through the keys in increasing order, one of the orders Go may take.
  \<^item> A Go string is its bytes: \<open>string\<close>, whose order (\<open>List_Lexorder\<close> and
    \<open>Char_ord\<close>) is Go's bytewise order.
  \<^item> A fallible operation returns \<open>error + 'a\<close>, \<open>Inl\<close> the error.
\<close>

named_theorems keeps_inv
  \<comment> \<open>an operation keeps its component's invariant\<close>
named_theorems fm_lookups
  \<comment> \<open>lookups in updated maps\<close>

type_synonym time = int
type_synonym duration = int

abbreviation second :: duration where "second \<equiv> 1000000000"
abbreviation minute :: duration where "minute \<equiv> 60000000000"
abbreviation hour :: duration where "hour \<equiv> 3600000000000"

subsection \<open>64-bit integers\<close>

text \<open>The value of an \<open>int64\<close> computation: two's complement wrap-around.\<close>

definition wrap64 :: "int \<Rightarrow> int" where
  "wrap64 x = (x + 2 ^ 63) mod 2 ^ 64 - 2 ^ 63"

lemma wrap64_id: "- (2 ^ 63) \<le> x \<Longrightarrow> x < 2 ^ 63 \<Longrightarrow> wrap64 x = x"
  by (simp add: wrap64_def)

lemma wrap64_range: "- (2 ^ 63) \<le> wrap64 x \<and> wrap64 x < 2 ^ 63"
proof -
  have "0 \<le> (x + 2 ^ 63) mod 2 ^ 64" and "(x + 2 ^ 63) mod 2 ^ 64 < (2::int) ^ 64"
    by simp_all
  then show ?thesis by (simp add: wrap64_def)
qed

subsection \<open>Go maps\<close>

text \<open>A loop over a map that rewrites (\<open>Some\<close>) or deletes (\<open>None\<close>) the entry it is at.\<close>

definition fm_each :: "('k \<Rightarrow> 'v \<Rightarrow> 'v option) \<Rightarrow> ('k, 'v) fmap \<Rightarrow> ('k, 'v) fmap" where
  "fm_each f m =
     fmmap_keys (\<lambda>k v. the (f k v)) (fmfilter (\<lambda>k. case fmlookup m k of None \<Rightarrow> False | Some v \<Rightarrow> f k v \<noteq> None) m)"

lemma fm_each_lookup [fm_lookups]: "fmlookup (fm_each f m) k = Option.bind (fmlookup m k) (f k)"
  by (auto simp: fm_each_def split: option.splits)

definition fm_list :: "('k :: linorder, 'v) fmap \<Rightarrow> ('k \<times> 'v) list" where
  "fm_list m = map (\<lambda>k. (k, the (fmlookup m k))) (sorted_list_of_fset (fmdom m))"

lemma set_fm_list: "(k, v) \<in> set (fm_list m) \<longleftrightarrow> fmlookup m k = Some v"
  by (auto simp: fm_list_def fmlookup_dom_iff image_iff)

lemma bex_fm_list: "(\<exists>x\<in>set (fm_list m). P x) \<longleftrightarrow> (\<exists>k v. fmlookup m k = Some v \<and> P (k, v))"
  by (metis set_fm_list surj_pair)

lemma sorted_fm_list: "sorted (map fst (fm_list m)) \<and> distinct (map fst (fm_list m))"
  by (simp add: fm_list_def comp_def sorted_list_of_fset.rep_eq)

definition fm_get :: "'v \<Rightarrow> ('k, 'v) fmap \<Rightarrow> 'k \<Rightarrow> 'v" where
  "fm_get zero m k = (case fmlookup m k of None \<Rightarrow> zero | Some v \<Rightarrow> v)"

lemma fm_get_upd [simp]: "fm_get z (fmupd k v m) k' = (if k = k' then v else fm_get z m k')"
  by (simp add: fm_get_def)

lemma fm_get_drop [simp]: "fm_get z (fmdrop k m) k' = (if k = k' then z else fm_get z m k')"
  by (simp add: fm_get_def)

lemma fm_get_empty [simp]: "fm_get z fmempty k = z"
  by (simp add: fm_get_def)

lemma fm_get_in: "x \<in> set (fm_get [] m k) \<Longrightarrow> \<exists>xs. fmlookup m k = Some xs \<and> x \<in> set xs"
  by (cases "fmlookup m k") (simp_all add: fm_get_def)

text \<open>Putting an entry of a snapshot back.\<close>

definition fm_put_back :: "'k \<Rightarrow> ('k, 'v) fmap \<Rightarrow> ('k, 'v) fmap \<Rightarrow> ('k, 'v) fmap" where
  "fm_put_back k old m = (case fmlookup old k of None \<Rightarrow> fmdrop k m | Some v \<Rightarrow> fmupd k v m)"

lemma fm_put_back_lookup [fm_lookups]:
  "fmlookup (fm_put_back k old m) k' = (if k' = k then fmlookup old k else fmlookup m k')"
  by (auto simp: fm_put_back_def split: option.splits)

subsection \<open>Slices\<close>

text \<open>The first element that satisfies a predicate, and its update in place.\<close>

fun update_first :: "('a \<Rightarrow> bool) \<Rightarrow> ('a \<Rightarrow> 'a) \<Rightarrow> 'a list \<Rightarrow> 'a list" where
  "update_first p f [] = []"
| "update_first p f (x # xs) = (if p x then f x # xs else x # update_first p f xs)"

fun remove_first :: "('a \<Rightarrow> bool) \<Rightarrow> 'a list \<Rightarrow> 'a list" where
  "remove_first p [] = []"
| "remove_first p (x # xs) = (if p x then xs else x # remove_first p xs)"

lemma length_update_first [simp]: "length (update_first p f xs) = length xs"
  by (induction xs) auto

lemma update_first_no: "\<not> list_ex p xs \<Longrightarrow> update_first p f xs = xs"
  by (induction xs) auto

lemma map_update_first:
  "(\<And>x. p x \<Longrightarrow> g (f x) = g x) \<Longrightarrow> map g (update_first p f xs) = map g xs"
  by (induction xs) auto

lemma set_update_first: "x \<in> set (update_first p f xs) \<Longrightarrow> x \<in> set xs \<or> (\<exists>y\<in>set xs. p y \<and> x = f y)"
  by (induction xs) (auto split: if_splits)

lemma set_remove_first: "set (remove_first p xs) \<subseteq> set xs"
  by (induction xs) auto

lemma find_update_first:
  "(\<And>x. p x \<Longrightarrow> p (f x)) \<Longrightarrow> find p (update_first p f xs) = map_option f (find p xs)"
  by (induction xs) auto

lemma find_Some_iff': "find p xs = Some x \<Longrightarrow> p x \<and> x \<in> set xs"
  by (auto simp: find_Some_iff in_set_conv_nth)

lemma in_map_filter_iff: "y \<in> set (List.map_filter f xs) \<longleftrightarrow> (\<exists>x\<in>set xs. f x = Some y)"
  by (induction xs) (auto simp: List.map_filter_simps split: option.splits)

lemma bex_image_eq: "f ` A = g ` B \<Longrightarrow> (\<exists>x\<in>A. P (f x)) \<longleftrightarrow> (\<exists>y\<in>B. P (g y))"
proof -
  assume "f ` A = g ` B"
  then have "(\<exists>z\<in>f ` A. P z) \<longleftrightarrow> (\<exists>z\<in>g ` B. P z)" by simp
  then show ?thesis by simp
qed

lemma mem_image_replace:
  "a \<noteq> b \<Longrightarrow> q \<in> (\<lambda>p. if p = a then b else p) ` A \<longleftrightarrow> (if q = b then a \<in> A \<or> b \<in> A else q \<noteq> a \<and> q \<in> A)"
  by (auto simp: image_iff)

lemma ball_imageI: "(\<And>p. p \<in> A \<Longrightarrow> P (f p)) \<Longrightarrow> \<forall>x\<in>f ` A. P x"
  by blast

lemma filter_length_mono: "(\<And>x. x \<in> set xs \<Longrightarrow> P x \<Longrightarrow> Q x) \<Longrightarrow> length (filter P xs) \<le> length (filter Q xs)"
  by (induction xs) (auto simp: le_SucI)

lemma filter_length_eq: "length (filter p xs) = length xs \<longleftrightarrow> filter p xs = xs"
proof
  assume "length (filter p xs) = length xs"
  then show "filter p xs = xs"
    by (metis filter_True length_filter_less less_irrefl)
qed simp

subsection \<open>Errors\<close>

text \<open>A check that fails with an error, what follows one that did not, and one for each element of a list.\<close>

definition require :: "bool \<Rightarrow> 'e \<Rightarrow> 'e + unit" where
  "require b e = (if b then Inr () else Inl e)"

definition and_then :: "'e + 'a \<Rightarrow> ('a \<Rightarrow> 'e + 'b) \<Rightarrow> 'e + 'b" where
  "and_then x f = (case x of Inl e \<Rightarrow> Inl e | Inr a \<Rightarrow> f a)"

fun for_each :: "('a \<Rightarrow> 'e + 'b) \<Rightarrow> 'a list \<Rightarrow> 'e + 'b list" where
  "for_each f [] = Inr []"
| "for_each f (x # xs) = and_then (f x) (\<lambda>y. and_then (for_each f xs) (\<lambda>ys. Inr (y # ys)))"

lemma and_then_simps [simp]: "and_then (Inl e) f = Inl e" "and_then (Inr a) f = f a"
  by (simp_all add: and_then_def)

lemma require_Inr [simp]: "require b e = Inr u \<longleftrightarrow> b"
  by (simp add: require_def)

lemma and_then_Inr: "and_then x f = Inr b \<longleftrightarrow> (\<exists>a. x = Inr a \<and> f a = Inr b)"
  by (cases x) simp_all

lemma for_each_Inr: "for_each f xs = Inr ys \<longleftrightarrow> map f xs = map Inr ys"
  by (induction xs arbitrary: ys) (auto simp: and_then_Inr Cons_eq_map_conv)

lemma for_each_set: "for_each f xs = Inr ys \<Longrightarrow> y \<in> set ys \<Longrightarrow> \<exists>x\<in>set xs. f x = Inr y"
  by (induction xs arbitrary: ys) (auto simp: and_then_Inr)

end
