(* ===== verification/GoStrings.thy ===== *)
theory GoStrings
  imports Prelude
begin

text \<open>
  The functions of Go's \<open>strings\<close>, \<open>slices\<close> and \<open>path\<close> packages the program calls, on
  byte strings. \<open>trim_space\<close> trims every Unicode white space, in its UTF-8 bytes;
  \<open>to_lower\<close> and \<open>equal_fold\<close> change ASCII letters only.
\<close>

subsection \<open>Prefixes, suffixes, membership\<close>

fun has_prefix :: "string \<Rightarrow> string \<Rightarrow> bool" where
  "has_prefix s [] = True"
| "has_prefix [] (p # ps) = False"
| "has_prefix (c # cs) (p # ps) = (c = p \<and> has_prefix cs ps)"

definition has_suffix :: "string \<Rightarrow> string \<Rightarrow> bool" where
  "has_suffix s p = has_prefix (rev s) (rev p)"

fun contains :: "string \<Rightarrow> string \<Rightarrow> bool" where
  "contains [] p = (p = [])"
| "contains (c # cs) p = (has_prefix (c # cs) p \<or> contains cs p)"

definition contains_any :: "string \<Rightarrow> string \<Rightarrow> bool" where
  "contains_any s chars = list_ex (\<lambda>c. List.member chars c) s"

definition trim_suffix :: "string \<Rightarrow> string \<Rightarrow> string" where
  "trim_suffix s p = (if has_suffix s p then take (length s - length p) s else s)"

definition cut_prefix :: "string \<Rightarrow> string \<Rightarrow> string option" where
  "cut_prefix s p = (if has_prefix s p then Some (drop (length p) s) else None)"

lemma has_prefix_iff: "has_prefix s p \<longleftrightarrow> (\<exists>t. s = p @ t)"
  by (induction s p rule: has_prefix.induct) auto

lemma has_prefix_append [simp]: "has_prefix (p @ s) p"
  by (simp add: has_prefix_iff)

lemma has_prefix_refl [simp]: "has_prefix s s"
  by (simp add: has_prefix_iff)

lemma has_prefix_trans: "has_prefix s q \<Longrightarrow> has_prefix q p \<Longrightarrow> has_prefix s p"
  by (auto simp: has_prefix_iff)

lemma has_prefix_length: "has_prefix s p \<Longrightarrow> length p \<le> length s"
  by (auto simp: has_prefix_iff)

lemma contains_any_iff: "contains_any s cs \<longleftrightarrow> (\<exists>c\<in>set s. c \<in> set cs)"
  by (auto simp: contains_any_def list_ex_iff)

lemma cut_prefix_Some: "cut_prefix s p = Some t \<longleftrightarrow> s = p @ t"
  by (auto simp: cut_prefix_def has_prefix_iff)

subsection \<open>Splitting and joining\<close>

text \<open>\<open>strings.Split\<close> at a one-byte separator; never empty.\<close>

fun split_at :: "char \<Rightarrow> string \<Rightarrow> string list" where
  "split_at c [] = [[]]"
| "split_at c (x # xs) =
     (if x = c then [] # split_at c xs
      else case split_at c xs of [] \<Rightarrow> [[x]] | s # ss \<Rightarrow> (x # s) # ss)"

fun join :: "string \<Rightarrow> string list \<Rightarrow> string" where
  "join sep [] = []"
| "join sep [s] = s"
| "join sep (s # t # ss) = s @ sep @ join sep (t # ss)"

lemma split_at_not_Nil [simp]: "split_at c s \<noteq> []"
  by (induction s) (auto split: list.splits)

lemma join_split_at: "join [c] (split_at c s) = s"
proof (induction s)
  case Nil
  then show ?case by simp
next
  case (Cons x xs)
  then show ?case
    by (cases "split_at c xs"; cases "tl (split_at c xs)") auto
qed

lemma split_at_no_sep: "c \<notin> set s \<Longrightarrow> split_at c s = [s]"
  by (induction s) auto

lemma split_at_append: "c \<notin> set s \<Longrightarrow> split_at c (s @ c # t) = s # split_at c t"
  by (induction s) auto

lemma split_at_sep: "split_at c (a @ c # b) = split_at c a @ split_at c b"
proof (induction a)
  case (Cons x a)
  then show ?case by (cases "split_at c a") auto
qed simp

lemma sep_not_in_split: "s \<in> set (split_at c t) \<Longrightarrow> c \<notin> set s"
  by (induction t arbitrary: s) (auto split: if_splits list.splits)

lemma split_at_join:
  "ss \<noteq> [] \<Longrightarrow> (\<And>s. s \<in> set ss \<Longrightarrow> c \<notin> set s) \<Longrightarrow> split_at c (join [c] ss) = ss"
proof (induction "[c]" ss rule: join.induct)
  case (3 s t ss)
  then have "split_at c (join [c] (t # ss)) = t # ss" and "c \<notin> set s" by auto
  then show ?case by (simp add: split_at_append)
qed (auto intro: split_at_no_sep)

text \<open>\<open>strings.Cut\<close> at a byte: what comes before the first one, and after it.\<close>

fun cut :: "char \<Rightarrow> string \<Rightarrow> string \<times> string \<times> bool" where
  "cut c [] = ([], [], False)"
| "cut c (x # xs) = (if x = c then ([], xs, True) else (case cut c xs of (a, b, ok) \<Rightarrow> (x # a, b, ok)))"

definition before :: "char \<Rightarrow> string \<Rightarrow> string" where
  "before c s = takeWhile (\<lambda>x. x \<noteq> c) s"

lemma cut_before: "fst (cut c s) = before c s"
  by (induction s) (auto simp: before_def split: prod.splits)

lemma before_no: "c \<notin> set s \<Longrightarrow> before c (s @ c # t) = s"
  by (induction s) (auto simp: before_def)

lemma before_all: "c \<notin> set s \<Longrightarrow> before c s = s"
  by (induction s) (auto simp: before_def)

subsection \<open>White space\<close>

text \<open>The UTF-8 bytes of the runes \<open>unicode.IsSpace\<close> accepts.\<close>

definition utf8_spaces :: "string list" where
  "utf8_spaces =
     [[CHR 0x09], [CHR 0x0A], [CHR 0x0B], [CHR 0x0C], [CHR 0x0D], [CHR 0x20],
      [CHR 0xC2, CHR 0x85], [CHR 0xC2, CHR 0xA0], [CHR 0xE1, CHR 0x9A, CHR 0x80],
      [CHR 0xE2, CHR 0x80, CHR 0x80], [CHR 0xE2, CHR 0x80, CHR 0x81], [CHR 0xE2, CHR 0x80, CHR 0x82],
      [CHR 0xE2, CHR 0x80, CHR 0x83], [CHR 0xE2, CHR 0x80, CHR 0x84], [CHR 0xE2, CHR 0x80, CHR 0x85],
      [CHR 0xE2, CHR 0x80, CHR 0x86], [CHR 0xE2, CHR 0x80, CHR 0x87], [CHR 0xE2, CHR 0x80, CHR 0x88],
      [CHR 0xE2, CHR 0x80, CHR 0x89], [CHR 0xE2, CHR 0x80, CHR 0x8A], [CHR 0xE2, CHR 0x80, CHR 0xA8],
      [CHR 0xE2, CHR 0x80, CHR 0xA9], [CHR 0xE2, CHR 0x80, CHR 0xAF], [CHR 0xE2, CHR 0x81, CHR 0x9F],
      [CHR 0xE3, CHR 0x80, CHR 0x80]]"

text \<open>Strip any of \<open>ws\<close> from the front for as long as one is there.\<close>

function strip :: "string list \<Rightarrow> string \<Rightarrow> string" where
  "strip ws s =
     (case find (\<lambda>w. w \<noteq> [] \<and> has_prefix s w) ws of
        None \<Rightarrow> s
      | Some w \<Rightarrow> strip ws (drop (length w) s))"
  by pat_completeness auto
termination
proof (relation "measure (\<lambda>(ws, s). length s)", goal_cases)
  case 1
  show ?case by simp
next
  case (2 ws s w)
  then have "w \<noteq> []" and "has_prefix s w" by (auto dest: find_Some_iff')
  then show ?case by (auto simp: has_prefix_iff)
qed

declare strip.simps [simp del]

definition trim_left :: "string \<Rightarrow> string" where
  "trim_left s = strip utf8_spaces s"

definition trim_right :: "string \<Rightarrow> string" where
  "trim_right s = rev (strip (map rev utf8_spaces) (rev s))"

definition trim_space :: "string \<Rightarrow> string" where
  "trim_space s = trim_right (trim_left s)"

definition trim_right_char :: "char \<Rightarrow> string \<Rightarrow> string" where
  "trim_right_char c s = rev (dropWhile (\<lambda>x. x = c) (rev s))"

lemma strip_suffix: "\<exists>p. s = p @ strip ws s"
proof (induction ws s rule: strip.induct)
  case (1 ws s)
  show ?case
  proof (cases "find (\<lambda>w. w \<noteq> [] \<and> has_prefix s w) ws")
    case None
    then show ?thesis by (simp add: strip.simps [of ws s])
  next
    case (Some w)
    then obtain t where s: "s = w @ t"
      by (auto dest: find_Some_iff' simp: has_prefix_iff)
    from Some have step: "strip ws s = strip ws (drop (length w) s)" by (simp add: strip.simps [of ws s])
    from "1.IH" [OF Some] obtain p where "drop (length w) s = p @ strip ws (drop (length w) s)" by blast
    with s step have "s = (w @ p) @ strip ws s" by simp
    then show ?thesis by blast
  qed
qed

lemma strip_strip: "strip ws (strip ws s) = strip ws s"
proof (induction ws s rule: strip.induct)
  case (1 ws s)
  then show ?case
    by (cases "find (\<lambda>w. w \<noteq> [] \<and> has_prefix s w) ws") (simp_all add: strip.simps [of ws s])
qed

lemma set_strip: "set (strip ws s) \<subseteq> set s"
proof -
  from strip_suffix [of s ws] obtain p where "s = p @ strip ws s" by blast
  then show ?thesis by (metis Un_upper2 set_append)
qed

lemma set_trim_space: "set (trim_space s) \<subseteq> set s"
proof -
  have "set (trim_space s) \<subseteq> set (strip utf8_spaces s)"
    using set_strip [of "map rev utf8_spaces" "rev (strip utf8_spaces s)"]
    by (simp add: trim_space_def trim_left_def trim_right_def)
  then show ?thesis using set_strip [of utf8_spaces s] by blast
qed

lemma strip_fixed_iff: "strip ws s = s \<longleftrightarrow> (\<forall>w\<in>set ws. w \<noteq> [] \<longrightarrow> \<not> has_prefix s w)"
proof (cases "find (\<lambda>w. w \<noteq> [] \<and> has_prefix s w) ws")
  case None
  then have "strip ws s = s" by (simp add: strip.simps [of ws s])
  with None show ?thesis by (auto simp: find_None_iff)
next
  case (Some w)
  then have w: "w \<noteq> []" "has_prefix s w" "w \<in> set ws" by (auto dest: find_Some_iff')
  from strip_suffix [of "drop (length w) s" ws] have "length (strip ws (drop (length w) s)) \<le> length s - length w"
    by (metis le_add2 length_append length_drop)
  moreover have "0 < length w" and "length w \<le> length s" using w by (auto dest: has_prefix_length)
  ultimately have "length (strip ws (drop (length w) s)) < length s" by linarith
  with Some have "strip ws s \<noteq> s" by (auto simp: strip.simps [of ws s])
  with w show ?thesis by auto
qed

lemma trim_space_idem: "trim_space (trim_space s) = trim_space s"
proof -
  let ?t = "strip utf8_spaces s" and ?u = "trim_space s"
  obtain x where t: "?t = ?u @ x"
  proof -
    obtain p where "rev ?t = p @ strip (map rev utf8_spaces) (rev ?t)" using strip_suffix by blast
    then have "?t = rev (strip (map rev utf8_spaces) (rev ?t)) @ rev p" by (metis rev_append rev_rev_ident)
    then show thesis by (intro that) (simp add: trim_space_def trim_left_def trim_right_def)
  qed
  have "strip utf8_spaces ?t = ?t" by (rule strip_strip)
  then have "strip utf8_spaces ?u = ?u"
    unfolding strip_fixed_iff by (metis has_prefix_iff append.assoc t)
  moreover have "strip (map rev utf8_spaces) (rev ?u) = rev ?u"
    by (simp add: trim_space_def trim_right_def strip_strip)
  moreover have "trim_space ?u = rev (strip (map rev utf8_spaces) (rev (strip utf8_spaces ?u)))"
    by (simp only: trim_space_def [of "?u"] trim_left_def trim_right_def)
  ultimately show ?thesis by (simp only: rev_rev_ident)
qed

subsection \<open>Letter case\<close>

definition lower_char :: "char \<Rightarrow> char" where
  "lower_char c = (let n = of_char c :: nat in if 65 \<le> n \<and> n \<le> 90 then char_of (n + 32) else c)"

definition to_lower :: "string \<Rightarrow> string" where
  "to_lower s = map lower_char s"

definition equal_fold :: "string \<Rightarrow> string \<Rightarrow> bool" where
  "equal_fold a b = (to_lower a = to_lower b)"

lemma equal_fold_refl [simp]: "equal_fold a a"
  by (simp add: equal_fold_def)

lemma equal_fold_sym: "equal_fold a b \<longleftrightarrow> equal_fold b a"
  by (auto simp: equal_fold_def)

subsection \<open>Numbers\<close>

text \<open>The decimal digits of a number, as \<open>strconv.Itoa\<close> and \<open>%d\<close> write them.\<close>

fun show_nat :: "nat \<Rightarrow> string" where
  "show_nat n = (if n < 10 then [char_of (48 + n)] else show_nat (n div 10) @ [char_of (48 + n mod 10)])"

declare show_nat.simps [simp del]

lemma show_nat_not_Nil [simp]: "show_nat n \<noteq> []"
  by (subst show_nat.simps) simp

lemma show_nat_inj: "show_nat m = show_nat n \<Longrightarrow> m = n"
proof (induction m arbitrary: n rule: show_nat.induct)
  case (1 m)
  have digit: "char_of (48 + a) = (char_of (48 + b) :: char) \<Longrightarrow> a < 10 \<Longrightarrow> b < 10 \<Longrightarrow> a = b" for a b :: nat
    by (auto dest: arg_cong [of _ _ "of_char :: char \<Rightarrow> nat"])
  show ?case
  proof (cases "m < 10 \<or> n < 10")
    case True
    have "m < 10 \<longleftrightarrow> n < 10"
      using "1.prems" by (subst (asm) show_nat.simps, subst (asm) (2) show_nat.simps) (auto simp: show_nat_not_Nil [THEN not_sym] split: if_splits)
    with True have small: "m < 10" "n < 10" by auto
    have "show_nat k = [char_of (48 + k)]" if "k < 10" for k using that by (subst show_nat.simps) simp
    with small "1.prems" have "char_of (48 + m) = (char_of (48 + n) :: char)" by simp
    with digit small show ?thesis by blast
  next
    case False
    have large: "show_nat k = show_nat (k div 10) @ [char_of (48 + k mod 10)]" if "\<not> k < 10" for k
      using that by (subst show_nat.simps) simp
    have m: "show_nat m = show_nat (m div 10) @ [char_of (48 + m mod 10)]" by (rule large) (use False in simp)
    have n: "show_nat n = show_nat (n div 10) @ [char_of (48 + n mod 10)]" by (rule large) (use False in simp)
    have "show_nat (m div 10) @ [char_of (48 + m mod 10)] = show_nat (n div 10) @ [char_of (48 + n mod 10)]"
      by (rule trans [OF m [symmetric] trans [OF "1.prems" n]])
    then have eq: "show_nat (m div 10) = show_nat (n div 10)" "char_of (48 + m mod 10) = (char_of (48 + n mod 10) :: char)"
      unfolding append1_eq_conv by (rule conjunct1, rule conjunct2)
    have "m div 10 = n div 10" by (rule "1.IH" [OF _ eq(1)]) (use False in simp)
    moreover have "m mod 10 = n mod 10" by (rule digit [OF eq(2)]) simp_all
    ultimately show ?thesis by (metis div_mult_mod_eq)
  qed
qed

definition show_int :: "int \<Rightarrow> string" where
  "show_int i = (if i < 0 then CHR ''-'' # show_nat (nat (- i)) else show_nat (nat i))"

text \<open>\<open>UnixNano\<close>: the nanoseconds since 1970.\<close>

definition unix_nano :: "time \<Rightarrow> int" where
  "unix_nano t = wrap64 (t - 62135596800 * second)"

end
