(* ===== verification/JsonStore.thy ===== *)
theory JsonStore
  imports Prelude
begin

text \<open>
  The contract of a store kept in a JSON file (\<open>internal/auth.Store\<close>,
  \<open>internal/projects.Store\<close>): memory holds the content of the file as last read, with
  the file's modification time; every operation first reloads when the modification
  time differs, and a change is written with a temporary file and a rename.

  The file is a parameter of every operation. \<open>Present t (Some c)\<close> holds the content
  \<open>c\<close> since \<open>t\<close>; \<open>Present t None\<close> cannot be read or does not parse. JSON
  encoding is the identity on contents (valid UTF-8 strings; nil and empty maps agree).
\<close>

datatype 'c json_file = Absent | StatError | Present time "'c option"

text \<open>
  How a save ends: it fails and the file stays, or the file is replaced; the flag says
  whether the \<open>Stat\<close> after the rename, which records the new time, succeeded.
\<close>

datatype save_outcome = SaveFails | Saved time bool

fun file_content :: "'c \<Rightarrow> 'c json_file \<Rightarrow> 'c option" where
  "file_content blank Absent = Some blank"
| "file_content blank StatError = None"
| "file_content blank (Present t c) = c"

fun file_time :: "'c json_file \<Rightarrow> time" where
  "file_time Absent = 0"
| "file_time StatError = 0"
| "file_time (Present t c) = t"

text \<open>
  Memory agrees with the file: when the recorded time is the file's, the content is
  the file's too, so skipping the reload is right.
\<close>

definition coherent_with :: "('s \<Rightarrow> 'c) \<Rightarrow> ('s \<Rightarrow> time) \<Rightarrow> 'c \<Rightarrow> 's \<Rightarrow> 'c json_file \<Rightarrow> bool" where
  "coherent_with snap mt blank s f \<longleftrightarrow>
     (case f of
        Absent \<Rightarrow> mt s = 0 \<longrightarrow> snap s = blank
      | StatError \<Rightarrow> True
      | Present t c \<Rightarrow> mt s = t \<longrightarrow> (case c of None \<Rightarrow> True | Some c' \<Rightarrow> snap s = c'))"

locale json_store =
  fixes snap :: "'s \<Rightarrow> 'c"
    and mt :: "'s \<Rightarrow> time"
    and blank :: "'c"
    and reload :: "'c json_file \<Rightarrow> 's \<Rightarrow> 's"
    and save :: "save_outcome \<Rightarrow> 's \<times> 'c json_file \<Rightarrow> bool \<times> 's \<times> 'c json_file"
  assumes reload_same: "mt s = t \<Longrightarrow> reload (Present t r) s = s"
    and reload_new: "mt s \<noteq> t \<Longrightarrow> snap (reload (Present t (Some c)) s) = c \<and> mt (reload (Present t (Some c)) s) = t"
    and reload_bad: "reload (Present t None) s = s"
    and reload_stat: "reload StatError s = s"
    and reload_gone: "mt s \<noteq> 0 \<Longrightarrow> snap (reload Absent s) = blank \<and> mt (reload Absent s) = 0"
    and reload_none: "mt s = 0 \<Longrightarrow> snap s = blank \<Longrightarrow> reload Absent s = s"
    and save_fails: "save SaveFails (s, f) = (False, s, f)"
    and save_done: "\<exists>s'. save (Saved t b) (s, f) = (True, s', Present t (Some (snap s)))
          \<and> snap s' = snap s \<and> mt s' = (if b then t else mt s)"
begin

abbreviation coherent :: "'s \<Rightarrow> 'c json_file \<Rightarrow> bool" where
  "coherent \<equiv> coherent_with snap mt blank"

lemma reload_current:
  "coherent s f \<Longrightarrow> file_content blank f = Some c \<Longrightarrow> snap (reload f s) = c"
proof (cases f)
  case Absent
  assume "coherent s f" and "file_content blank f = Some c"
  with Absent show ?thesis
    by (cases "mt s = 0") (auto simp: coherent_with_def reload_gone reload_none)
next
  case StatError
  assume "file_content blank f = Some c"
  with StatError show ?thesis by simp
next
  case (Present t c')
  assume "coherent s f" and "file_content blank f = Some c"
  with Present show ?thesis
    by (cases "mt s = t") (auto simp: coherent_with_def reload_same reload_new)
qed

lemma reload_coherent: "coherent s f \<Longrightarrow> coherent (reload f s) f"
proof (cases f)
  case Absent
  assume "coherent s f"
  with Absent show ?thesis
    by (cases "mt s = 0") (auto simp: coherent_with_def reload_gone reload_none)
next
  case StatError
  then show ?thesis by (simp add: coherent_with_def)
next
  case (Present t c)
  assume "coherent s f"
  with Present show ?thesis
    by (cases "mt s = t"; cases c) (auto simp: coherent_with_def reload_same reload_new reload_bad)
qed

lemma reload_idem: "coherent s f \<Longrightarrow> reload f (reload f s) = reload f s"
proof (cases f)
  case Absent
  assume "coherent s f"
  with Absent show ?thesis
    by (cases "mt s = 0") (auto simp: coherent_with_def reload_gone reload_none)
next
  case StatError
  then show ?thesis by (simp add: reload_stat)
next
  case (Present t c)
  then show ?thesis
    by (cases "mt s = t"; cases c) (auto simp: reload_same reload_new reload_bad)
qed

text \<open>A save that is recorded, and one that fails, both leave memory and file agreeing.\<close>

lemma save_recorded:
  assumes "save (Saved t True) (s, f) = (ok, s', f')"
  shows "ok \<and> coherent s' f' \<and> snap s' = snap s \<and> f' = Present t (Some (snap s)) \<and> reload f' s' = s'"
proof -
  from save_done [of t True s f] assms have "ok" "f' = Present t (Some (snap s))" "snap s' = snap s" "mt s' = t"
    by auto
  then show ?thesis by (simp add: coherent_with_def reload_same)
qed

lemma save_not_stale:
  assumes "save (Saved t b) (s, f) = (ok, s', f')" and "mt s \<noteq> t"
  shows "ok \<and> coherent s' f' \<and> snap (reload f' s') = snap s"
proof -
  from save_done [of t b s f] assms(1)
  have "ok" "f' = Present t (Some (snap s))" "snap s' = snap s" "mt s' = (if b then t else mt s)"
    by auto
  with assms(2) show ?thesis
    by (cases b) (auto simp: coherent_with_def reload_same reload_new)
qed

text \<open>
  Another process that writes the file under a new modification time is seen by the
  next operation.
\<close>

lemma external_write:
  "mt s \<noteq> t \<Longrightarrow> coherent s (Present t (Some c)) \<and> snap (reload (Present t (Some c)) s) = c"
  by (simp add: coherent_with_def reload_new)

text \<open>
  Once an operation has reloaded, a memory changed without a save that succeeded is no
  longer the file's, and the next reload does not notice.
\<close>

lemma unsaved_change_stays:
  assumes "mt s = t" and "mt s' = t" and "snap s' \<noteq> c"
  shows "\<not> coherent s' (Present t (Some c)) \<and> reload (Present t (Some c)) s' = s'"
  using assms by (simp add: coherent_with_def reload_same)

end

end
