(* ===== verification/Tokens.thy ===== *)
theory Tokens
  imports GoStrings JsonStore
begin

text \<open>
  \<open>internal/auth/auth.go\<close>: the bearer tokens, what they allow, and the token store.
  SHA-256 and the random source are parameters (\<open>hash_of\<close>, the plaintext or random
  bytes); the clock is an argument.
\<close>

subsection \<open>The token record\<close>

record token =
  tk_id :: string
  tk_name :: string
  tk_hash :: string
  tk_created :: time
  tk_expires :: time
  tk_project :: string
  tk_projects :: "string list"
  tk_scopes :: "string list"
  tk_owner :: string
  tk_self_improve :: bool
  tk_profile :: string
  tk_kind :: string
  tk_client :: string
  tk_run :: string
  tk_write_paths :: "string list"
  tk_refresh_hash :: string
  tk_refresh_expires :: time
  tk_last_used :: time

text \<open>
  \<open>writeFilter\<close> is runtime-only and never persisted: the records of the store are
  \<open>token\<close>, and a request works on a \<open>runtime_token\<close>, whose filter is \<open>None\<close>
  until \<open>WithWriteFilter\<close> sets one.
\<close>

record runtime_token = token +
  tk_write_filter :: "(string \<Rightarrow> bool) option"

definition live :: "token \<Rightarrow> runtime_token" where
  "live t = token.extend t \<lparr>tk_write_filter = None\<rparr>"

definition ScopeRead :: string where "ScopeRead = ''read''"
definition ScopeWrite :: string where "ScopeWrite = ''write''"
definition tokenPrefix :: string where "tokenPrefix = ''gosidian_''"
definition KindOAuth :: string where "KindOAuth = ''oauth''"
definition KindRun :: string where "KindRun = ''run''"
definition ToolProfileFull :: string where "ToolProfileFull = ''full''"
definition ToolProfileCore :: string where "ToolProfileCore = ''core''"

lemmas token_consts = ScopeRead_def ScopeWrite_def tokenPrefix_def KindOAuth_def KindRun_def
  ToolProfileFull_def ToolProfileCore_def

definition IsOAuthGrant :: "'a token_scheme \<Rightarrow> bool" where
  "IsOAuthGrant t = (tk_kind t = KindOAuth)"

definition ValidToolProfile :: "string \<Rightarrow> bool" where
  "ValidToolProfile p = (p = [] \<or> p = ToolProfileFull \<or> p = ToolProfileCore)"

definition IsCoreProfile :: "'a token_scheme \<Rightarrow> bool" where
  "IsCoreProfile t = (tk_profile t = ToolProfileCore)"

definition HasScope :: "'a token_scheme \<Rightarrow> string \<Rightarrow> bool" where
  "HasScope t sc = list_ex (\<lambda>v. v = sc) (tk_scopes t)"

definition Expired :: "'a token_scheme \<Rightarrow> time \<Rightarrow> bool" where
  "Expired t now = (tk_expires t \<noteq> 0 \<and> now > tk_expires t)"

subsection \<open>The scope of a token\<close>

definition ProjectList :: "'a token_scheme \<Rightarrow> string list" where
  "ProjectList t =
     (if tk_projects t \<noteq> [] then tk_projects t
      else if tk_project t \<noteq> [] then [tk_project t]
      else [])"

definition IsAdmin :: "'a token_scheme \<Rightarrow> bool" where
  "IsAdmin t = (ProjectList t = [])"

definition AllowsProject :: "'a token_scheme \<Rightarrow> string \<Rightarrow> bool" where
  "AllowsProject t project =
     (let list = ProjectList t in if list = [] then True else list_ex (\<lambda>p. p = project) list)"

definition AllowsPath :: "'a token_scheme \<Rightarrow> string \<Rightarrow> bool" where
  "AllowsPath t path =
     (let list = ProjectList t in
      if list = [] then True
      else list_ex (\<lambda>p. path = p \<or> has_prefix path (p @ ''/'')) list)"

definition ProjectOf :: "string \<Rightarrow> string" where
  "ProjectOf path = before (CHR ''/'') path"

text \<open>\<open>path.Clean\<close>: the segments kept so far, last first, and what is left.\<close>

fun clean_segs :: "bool \<Rightarrow> string list \<Rightarrow> string list \<Rightarrow> string list" where
  "clean_segs rooted acc [] = rev acc"
| "clean_segs rooted acc (s # ss) =
     (if s = [] \<or> s = ''.'' then clean_segs rooted acc ss
      else if s = ''..'' then
        (case acc of
           a # rest \<Rightarrow> if a \<noteq> ''..'' then clean_segs rooted rest ss
                       else clean_segs rooted (''..'' # acc) ss
         | [] \<Rightarrow> if rooted then clean_segs rooted [] ss else clean_segs rooted [''..''] ss)
      else clean_segs rooted (s # acc) ss)"

definition path_clean :: "string \<Rightarrow> string" where
  "path_clean p =
     (let rooted = has_prefix p ''/''; segs = clean_segs rooted [] (split_at (CHR ''/'') p) in
      if rooted then ''/'' @ join ''/'' segs
      else if segs = [] then ''.'' else join ''/'' segs)"

definition InWritePaths :: "'a token_scheme \<Rightarrow> string \<Rightarrow> bool" where
  "InWritePaths t p =
     (if tk_write_paths t = [] then True
      else let p = path_clean p in
        if p = ''..'' \<or> has_prefix p ''../'' \<or> has_prefix p ''/'' then False
        else list_ex (\<lambda>dir. has_prefix p dir) (tk_write_paths t))"

definition AllowsWrite :: "runtime_token \<Rightarrow> string \<Rightarrow> bool" where
  "AllowsWrite t path =
     (if \<not> HasScope t ScopeWrite \<or> \<not> AllowsPath t path \<or> \<not> InWritePaths t path then False
      else (case tk_write_filter t of None \<Rightarrow> True | Some fn \<Rightarrow> fn (ProjectOf path)))"

definition WithWriteFilter :: "runtime_token \<Rightarrow> (string \<Rightarrow> bool) \<Rightarrow> runtime_token" where
  "WithWriteFilter t fn = t\<lparr>tk_write_filter := Some fn\<rparr>"

definition ScopeLabel :: "'a token_scheme \<Rightarrow> string" where
  "ScopeLabel t =
     (let list = ProjectList t in if list = [] then ''(admin)'' else join '','' list)"

definition AdminToken :: runtime_token where
  "AdminToken =
     \<lparr>tk_id = ''admin'', tk_name = ''implicit-admin'', tk_hash = [], tk_created = 0, tk_expires = 0,
      tk_project = [], tk_projects = [], tk_scopes = [ScopeRead, ScopeWrite], tk_owner = [],
      tk_self_improve = False, tk_profile = [], tk_kind = [], tk_client = [], tk_run = [],
      tk_write_paths = [], tk_refresh_hash = [], tk_refresh_expires = 0, tk_last_used = 0,
      tk_write_filter = None\<rparr>"

lemma HasScope_iff: "HasScope t sc \<longleftrightarrow> sc \<in> set (tk_scopes t)"
  by (auto simp: HasScope_def list_ex_iff)

lemma AllowsProject_iff: "AllowsProject t q \<longleftrightarrow> ProjectList t = [] \<or> q \<in> set (ProjectList t)"
  by (auto simp: AllowsProject_def Let_def list_ex_iff)

lemma AllowsPath_iff:
  "AllowsPath t path \<longleftrightarrow> ProjectList t = [] \<or> (\<exists>p\<in>set (ProjectList t). path = p \<or> has_prefix path (p @ ''/''))"
  by (auto simp: AllowsPath_def Let_def list_ex_iff)

lemma AllowsWrite_iff:
  "AllowsWrite t path \<longleftrightarrow> HasScope t ScopeWrite \<and> AllowsPath t path \<and> InWritePaths t path
     \<and> (case tk_write_filter t of None \<Rightarrow> True | Some fn \<Rightarrow> fn (ProjectOf path))"
  by (auto simp: AllowsWrite_def)

text \<open>A path a project's name prefixes has that project as its \<open>ProjectOf\<close>.\<close>

lemma ProjectOf_prefix:
  assumes "CHR ''/'' \<notin> set p" and "path = p \<or> has_prefix path (p @ ''/'')"
  shows "ProjectOf path = p"
  using assms by (auto simp: ProjectOf_def has_prefix_iff before_all before_no)

lemma AllowsPath_ProjectOf:
  assumes "\<forall>q\<in>set (ProjectList t). CHR ''/'' \<notin> set q"
  shows "AllowsPath t path \<longleftrightarrow> ProjectList t = [] \<or> ProjectOf path \<in> set (ProjectList t)"
proof -
  have "path = p \<or> has_prefix path (p @ ''/'') \<longleftrightarrow> ProjectOf path = p" if "CHR ''/'' \<notin> set p" for p
  proof
    assume "ProjectOf path = p"
    then have "path = p @ dropWhile (\<lambda>x. x \<noteq> CHR ''/'') path"
      by (auto simp: ProjectOf_def before_def)
    then show "path = p \<or> has_prefix path (p @ ''/'')"
      by (cases "dropWhile (\<lambda>x. x \<noteq> CHR ''/'') path")
        (auto simp: has_prefix_iff dropWhile_eq_Cons_conv)
  qed (use that in \<open>rule ProjectOf_prefix\<close>)
  with assms show ?thesis by (auto simp: AllowsPath_iff)
qed

lemma AllowsPath_AllowsProject:
  assumes "AllowsPath t path" and "\<forall>p\<in>set (ProjectList t). CHR ''/'' \<notin> set p"
  shows "AllowsProject t (ProjectOf path)"
  using assms ProjectOf_prefix by (fastforce simp: AllowsPath_iff AllowsProject_iff)

end
