(* ===== verification/TokenStore.thy ===== *)
theory TokenStore
  imports Tokens
begin

text \<open>
  \<open>internal/auth/auth.go\<close>, the \<open>Store\<close>: minting, looking up, rotating and revoking
  tokens, and following a project's rename and deletion. Every operation maps the pair
  of the store and its file to its result and the new pair.
\<close>

record token_store =
  ts_tokens :: "token list"
  ts_mtime :: time

type_synonym token_sys = "token_store \<times> token list json_file"

datatype auth_error =
    NameRequired
  | ScopeRequired
  | UnknownScope string
  | InvalidProjectName string
  | InvalidWritePath string
  | WritePathOutside string string
  | RunNeedsExpiry
  | ReadRunWritePaths
  | RunNeedsProject
  | NoTokensYet
  | TokenNotFound string
  | RefreshRotated
  | InvalidProfile string
  | MissingToken
  | InvalidToken
  | TokenExpired
  | AuthSaveFailed

subsection \<open>The file\<close>

definition tok_load :: "token list json_file \<Rightarrow> token_store \<Rightarrow> token_store" where
  "tok_load f s =
     (case f of
        Absent \<Rightarrow> s\<lparr>ts_tokens := [], ts_mtime := 0\<rparr>
      | StatError \<Rightarrow> s
      | Present t None \<Rightarrow> s
      | Present t (Some c) \<Rightarrow> s\<lparr>ts_tokens := c, ts_mtime := t\<rparr>)"

definition tok_reload :: "token list json_file \<Rightarrow> token_store \<Rightarrow> token_store" where
  "tok_reload f s =
     (case f of
        Absent \<Rightarrow> if ts_mtime s \<noteq> 0 \<or> ts_tokens s \<noteq> [] then s\<lparr>ts_tokens := [], ts_mtime := 0\<rparr> else s
      | StatError \<Rightarrow> s
      | Present t c \<Rightarrow> if t = ts_mtime s then s else tok_load f s)"

definition tok_save :: "save_outcome \<Rightarrow> token_sys \<Rightarrow> bool \<times> token_sys" where
  "tok_save out sys =
     (case sys of (s, f) \<Rightarrow>
        (case out of
           SaveFails \<Rightarrow> (False, (s, f))
         | Saved t stat_ok \<Rightarrow>
             (True, (if stat_ok then s\<lparr>ts_mtime := t\<rparr> else s, Present t (Some (ts_tokens s))))))"

definition tok_sync :: "token_sys \<Rightarrow> token_sys" where
  "tok_sync sys = (case sys of (s, f) \<Rightarrow> (tok_reload f s, f))"

text \<open>\<open>return s.save()\<close>: the error of the save, and memory as it is.\<close>

definition tok_save_err :: "save_outcome \<Rightarrow> token_sys \<Rightarrow> (auth_error + unit) \<times> token_sys" where
  "tok_save_err out sys =
     (case tok_save out sys of (ok, sys') \<Rightarrow> (if ok then Inr () else Inl AuthSaveFailed, sys'))"

definition set_tokens :: "token list \<Rightarrow> token_sys \<Rightarrow> token_sys" where
  "set_tokens ts sys = (case sys of (s, f) \<Rightarrow> (s\<lparr>ts_tokens := ts\<rparr>, f))"

definition tokens_of :: "token_sys \<Rightarrow> token list" where
  "tokens_of sys = ts_tokens (fst sys)"

interpretation tokfile: json_store ts_tokens ts_mtime "[]" tok_reload tok_save
  by unfold_locales
    (auto simp: tok_reload_def tok_load_def tok_save_def split: json_file.splits option.splits)

subsection \<open>Arguments of a new token\<close>

definition validateCreate :: "string \<Rightarrow> string list \<Rightarrow> auth_error option" where
  "validateCreate name scopes =
     (if name = [] then Some NameRequired
      else if scopes = [] then Some ScopeRequired
      else map_option UnknownScope (find (\<lambda>sc. sc \<noteq> ScopeRead \<and> sc \<noteq> ScopeWrite) scopes))"

fun normalize_from :: "string list \<Rightarrow> string list \<Rightarrow> string list" where
  "normalize_from seen [] = []"
| "normalize_from seen (p # ps) =
     (let p = trim_space p in
      if p = [] then normalize_from seen ps
      else if p \<in> set seen then normalize_from seen ps
      else p # normalize_from (p # seen) ps)"

definition normalizeProjects :: "string list \<Rightarrow> string list" where
  "normalizeProjects ps = normalize_from [] ps"

definition bad_project :: "string \<Rightarrow> bool" where
  "bad_project p = (contains_any p [CHR ''/'', CHR 0x5C, CHR '':''] \<or> p = ''.'' \<or> p = ''..'' \<or> has_prefix p ''.'')"

definition cleanProjectList :: "string list \<Rightarrow> auth_error + string list" where
  "cleanProjectList projects =
     (let clean = normalizeProjects projects in
      case find bad_project clean of Some p \<Rightarrow> Inl (InvalidProjectName p) | None \<Rightarrow> Inr clean)"

fun clean_paths_from :: "string \<Rightarrow> string list \<Rightarrow> string list \<Rightarrow> auth_error + string list" where
  "clean_paths_from project out [] = Inr out"
| "clean_paths_from project out (p # ps) =
     (let dir = trim_suffix p ''/'';
          bad = contains dir [CHR 0x5C] \<or>
                list_ex (\<lambda>seg. seg = [] \<or> seg = ''.'' \<or> seg = ''..'') (split_at (CHR ''/'') dir);
          dir' = dir @ ''/''
      in if bad then Inl (InvalidWritePath p)
         else if \<not> has_prefix dir' (project @ ''/'') then Inl (WritePathOutside p project)
         else clean_paths_from project (if dir' \<in> set out then out else out @ [dir']) ps)"

definition cleanWritePaths :: "string \<Rightarrow> string list \<Rightarrow> auth_error + string list" where
  "cleanWritePaths project paths = clean_paths_from project [] paths"

subsection \<open>Minting\<close>

text \<open>
  \<open>mint\<close> hashes the plaintext, keeps the first project in the legacy field and the
  list only when there are several, and forgets the record when the save fails.
\<close>

definition mint_record ::
  "(string \<Rightarrow> string) \<Rightarrow> string \<Rightarrow> string \<Rightarrow> string list \<Rightarrow> string list \<Rightarrow> duration \<Rightarrow> string \<Rightarrow> time \<Rightarrow> token" where
  "mint_record hash_of plaintext name clean scopes ttl owner now =
     (let h = hash_of plaintext in
      \<lparr>tk_id = take 8 h, tk_name = name, tk_hash = h, tk_created = now,
       tk_expires = (if ttl \<noteq> 0 then now + ttl else 0),
       tk_project = (case clean of [] \<Rightarrow> [] | p # _ \<Rightarrow> p),
       tk_projects = (if length clean > 1 then clean else []),
       tk_scopes = scopes, tk_owner = owner, tk_self_improve = False, tk_profile = [],
       tk_kind = [], tk_client = [], tk_run = [], tk_write_paths = [], tk_refresh_hash = [],
       tk_refresh_expires = 0, tk_last_used = 0\<rparr>)"

definition mint ::
  "(string \<Rightarrow> string) \<Rightarrow> string \<Rightarrow> string \<Rightarrow> string list \<Rightarrow> string list \<Rightarrow> duration \<Rightarrow> string
     \<Rightarrow> (token \<Rightarrow> token) \<Rightarrow> time \<Rightarrow> save_outcome \<Rightarrow> token_sys \<Rightarrow> (auth_error + token) \<times> token_sys" where
  "mint hash_of plaintext name clean scopes ttl owner upd now out sys =
     (let tok = upd (mint_record hash_of plaintext name clean scopes ttl owner now);
          sys1 = tok_sync sys;
          sys2 = set_tokens (tokens_of sys1 @ [tok]) sys1
      in case tok_save out sys2 of
           (True, sys3) \<Rightarrow> (Inr tok, sys3)
         | (False, sys3) \<Rightarrow> (Inl AuthSaveFailed, set_tokens (butlast (tokens_of sys3)) sys3))"

definition Create ::
  "(string \<Rightarrow> string) \<Rightarrow> string \<Rightarrow> string \<Rightarrow> string list \<Rightarrow> string list \<Rightarrow> duration \<Rightarrow> string
     \<Rightarrow> time \<Rightarrow> save_outcome \<Rightarrow> token_sys \<Rightarrow> (auth_error + string \<times> token) \<times> token_sys" where
  "Create hash_of random name projects scopes ttl owner now out sys =
     (case validateCreate name scopes of
        Some e \<Rightarrow> (Inl e, sys)
      | None \<Rightarrow>
          (case cleanProjectList projects of
             Inl e \<Rightarrow> (Inl e, sys)
           | Inr clean \<Rightarrow>
               (let plaintext = tokenPrefix @ random in
                case mint hash_of plaintext name clean scopes ttl owner (\<lambda>t. t) now out sys of
                  (Inl e, sys') \<Rightarrow> (Inl e, sys')
                | (Inr tok, sys') \<Rightarrow> (Inr (plaintext, tok), sys'))))"

definition CreateGrant ::
  "(string \<Rightarrow> string) \<Rightarrow> string \<Rightarrow> string \<Rightarrow> string list \<Rightarrow> string list \<Rightarrow> duration \<Rightarrow> string \<Rightarrow> string
     \<Rightarrow> time \<Rightarrow> save_outcome \<Rightarrow> token_sys \<Rightarrow> (auth_error + token) \<times> token_sys" where
  "CreateGrant hash_of random name projects scopes ttl owner client now out sys =
     (case validateCreate name scopes of
        Some e \<Rightarrow> (Inl e, sys)
      | None \<Rightarrow>
          (case cleanProjectList projects of
             Inl e \<Rightarrow> (Inl e, sys)
           | Inr clean \<Rightarrow>
               mint hash_of (''grant:'' @ random) name clean scopes ttl owner
                 (\<lambda>t. t\<lparr>tk_kind := KindOAuth, tk_client := client\<rparr>) now out sys))"

definition CreateRun ::
  "(string \<Rightarrow> string) \<Rightarrow> string \<Rightarrow> string \<Rightarrow> string \<Rightarrow> bool \<Rightarrow> duration \<Rightarrow> string \<Rightarrow> string list
     \<Rightarrow> time \<Rightarrow> save_outcome \<Rightarrow> token_sys \<Rightarrow> (auth_error + string \<times> token) \<times> token_sys" where
  "CreateRun hash_of random name project write ttl run paths now out sys =
     (if ttl \<le> 0 then (Inl RunNeedsExpiry, sys)
      else if paths \<noteq> [] \<and> \<not> write then (Inl ReadRunWritePaths, sys)
      else
        let scopes = (if write then [ScopeRead, ScopeWrite] else [ScopeRead]) in
        case validateCreate name scopes of
          Some e \<Rightarrow> (Inl e, sys)
        | None \<Rightarrow>
            (case cleanProjectList [project] of
               Inl e \<Rightarrow> (Inl e, sys)
             | Inr clean \<Rightarrow>
                 if length clean \<noteq> 1 then (Inl RunNeedsProject, sys)
                 else
                   (case cleanWritePaths (hd clean) paths of
                      Inl e \<Rightarrow> (Inl e, sys)
                    | Inr cpaths \<Rightarrow>
                        let sys1 = tok_sync sys in
                        if tokens_of sys1 = [] then (Inl NoTokensYet, sys1)
                        else
                          let plaintext = tokenPrefix @ random;
                              kept = filter (\<lambda>t. tk_kind t \<noteq> KindRun \<or> \<not> Expired t now) (tokens_of sys1)
                          in case mint hash_of plaintext name clean scopes ttl []
                                    (\<lambda>t. t\<lparr>tk_kind := KindRun, tk_profile := ToolProfileCore, tk_run := run,
                                          tk_write_paths := cpaths\<rparr>) now out (set_tokens kept sys1) of
                               (Inl e, sys') \<Rightarrow> (Inl e, sys')
                             | (Inr tok, sys') \<Rightarrow> (Inr (plaintext, tok), sys'))))"

subsection \<open>Looking up\<close>

definition Empty :: "token_sys \<Rightarrow> bool \<times> token_sys" where
  "Empty sys = (let sys = tok_sync sys in (tokens_of sys = [], sys))"

definition List_tokens :: "token_sys \<Rightarrow> token list \<times> token_sys" where
  "List_tokens sys = (let sys = tok_sync sys in (tokens_of sys, sys))"

definition ByID :: "string \<Rightarrow> token_sys \<Rightarrow> token option \<times> token_sys" where
  "ByID i sys = (let sys = tok_sync sys in (find (\<lambda>t. tk_id t = i) (tokens_of sys), sys))"

definition ByRefreshHash :: "string \<Rightarrow> token_sys \<Rightarrow> token option \<times> token_sys" where
  "ByRefreshHash h sys =
     (let sys = tok_sync sys in
      (find (\<lambda>t. tk_refresh_hash t \<noteq> [] \<and> tk_refresh_hash t = h) (tokens_of sys), sys))"

definition lastUsedEvery :: duration where "lastUsedEvery = 5 * minute"

text \<open>
  \<open>Touch\<close>: a token used less than \<open>lastUsedEvery\<close> ago costs nothing; otherwise the
  time is written, and a save that fails is ignored.
\<close>

definition Touch :: "string \<Rightarrow> time \<Rightarrow> save_outcome \<Rightarrow> token_sys \<Rightarrow> token_sys" where
  "Touch i now out sys =
     (let fresh = (\<lambda>t. now - tk_last_used t < lastUsedEvery) in
      if (case find (\<lambda>t. tk_id t = i) (tokens_of sys) of None \<Rightarrow> False | Some t \<Rightarrow> fresh t) then sys
      else
        let sys = tok_sync sys in
        case find (\<lambda>t. tk_id t = i) (tokens_of sys) of
          None \<Rightarrow> sys
        | Some t \<Rightarrow>
            if fresh t then sys
            else snd (tok_save out
              (set_tokens (update_first (\<lambda>t. tk_id t = i) (\<lambda>t. t\<lparr>tk_last_used := now\<rparr>) (tokens_of sys)) sys)))"

definition Validate ::
  "(string \<Rightarrow> string) \<Rightarrow> string \<Rightarrow> time \<Rightarrow> save_outcome \<Rightarrow> token_sys \<Rightarrow> (auth_error + token) \<times> token_sys" where
  "Validate hash_of plaintext now out sys =
     (if plaintext = [] then (Inl MissingToken, sys)
      else
        let h = hash_of plaintext; sys = tok_sync sys in
        case find (\<lambda>t. tk_hash t = h) (tokens_of sys) of
          None \<Rightarrow> (Inl InvalidToken, sys)
        | Some t \<Rightarrow>
            if Expired t now then (Inl TokenExpired, sys)
            else (Inr t, if now - tk_last_used t \<ge> lastUsedEvery then Touch (tk_id t) now out sys else sys))"

text \<open>\<open>ExtractBearer\<close>: what follows \<open>Bearer \<close>, in any letter case.\<close>

definition ExtractBearer :: "string \<Rightarrow> string" where
  "ExtractBearer header =
     (if length header \<le> 7 \<or> \<not> equal_fold (take 7 header) ''Bearer '' then []
      else trim_space (drop 7 header))"

subsection \<open>Changing one token\<close>

definition on_token ::
  "string \<Rightarrow> (token \<Rightarrow> token) \<Rightarrow> save_outcome \<Rightarrow> token_sys \<Rightarrow> (auth_error + unit) \<times> token_sys" where
  "on_token i upd out sys =
     (let sys = tok_sync sys in
      if list_ex (\<lambda>t. tk_id t = i) (tokens_of sys)
      then tok_save_err out (set_tokens (update_first (\<lambda>t. tk_id t = i) upd (tokens_of sys)) sys)
      else (Inl (TokenNotFound i), sys))"

definition SetRefresh ::
  "string \<Rightarrow> string \<Rightarrow> time \<Rightarrow> save_outcome \<Rightarrow> token_sys \<Rightarrow> (auth_error + unit) \<times> token_sys" where
  "SetRefresh i h expires out sys =
     on_token i (\<lambda>t. t\<lparr>tk_refresh_hash := h, tk_refresh_expires := expires\<rparr>) out sys"

definition RotateRefresh ::
  "string \<Rightarrow> string \<Rightarrow> string \<Rightarrow> time \<Rightarrow> save_outcome \<Rightarrow> token_sys \<Rightarrow> (auth_error + unit) \<times> token_sys" where
  "RotateRefresh i oldHash newHash expires out sys =
     (let sys = tok_sync sys in
      case find (\<lambda>t. tk_id t = i) (tokens_of sys) of
        None \<Rightarrow> (Inl (TokenNotFound i), sys)
      | Some t \<Rightarrow>
          if tk_refresh_hash t \<noteq> oldHash then (Inl RefreshRotated, sys)
          else
            let set = (\<lambda>h e. update_first (\<lambda>t. tk_id t = i) (\<lambda>t. t\<lparr>tk_refresh_hash := h, tk_refresh_expires := e\<rparr>));
                sys' = set_tokens (set newHash expires (tokens_of sys)) sys
            in case tok_save out sys' of
                 (True, sys'') \<Rightarrow> (Inr (), sys'')
               | (False, sys'') \<Rightarrow>
                   (Inl AuthSaveFailed,
                    set_tokens (set (tk_refresh_hash t) (tk_refresh_expires t) (tokens_of sys'')) sys''))"

definition Revoke :: "string \<Rightarrow> save_outcome \<Rightarrow> token_sys \<Rightarrow> (auth_error + unit) \<times> token_sys" where
  "Revoke i out sys =
     (let sys = tok_sync sys in
      if list_ex (\<lambda>t. tk_id t = i) (tokens_of sys)
      then tok_save_err out (set_tokens (remove_first (\<lambda>t. tk_id t = i) (tokens_of sys)) sys)
      else (Inl (TokenNotFound i), sys))"

definition SetSelfImproveOptIn ::
  "string \<Rightarrow> bool \<Rightarrow> save_outcome \<Rightarrow> token_sys \<Rightarrow> (auth_error + unit) \<times> token_sys" where
  "SetSelfImproveOptIn i opt out sys = on_token i (\<lambda>t. t\<lparr>tk_self_improve := opt\<rparr>) out sys"

definition SetToolProfile ::
  "string \<Rightarrow> string \<Rightarrow> save_outcome \<Rightarrow> token_sys \<Rightarrow> (auth_error + unit) \<times> token_sys" where
  "SetToolProfile i profile out sys =
     (if \<not> ValidToolProfile profile then (Inl (InvalidProfile profile), sys)
      else on_token i (\<lambda>t. t\<lparr>tk_profile := profile\<rparr>) out sys)"

subsection \<open>Following the projects and the accounts\<close>

definition rename_write_path :: "string \<Rightarrow> string \<Rightarrow> string \<Rightarrow> string" where
  "rename_write_path from to p =
     (case cut_prefix p (from @ ''/'') of Some rest \<Rightarrow> to @ ''/'' @ rest | None \<Rightarrow> p)"

text \<open>The three updates of one token; the flag says whether it changed.\<close>

definition rename_project :: "string \<Rightarrow> string \<Rightarrow> token \<Rightarrow> token \<times> bool" where
  "rename_project from to t = (if tk_project t = from then (t\<lparr>tk_project := to\<rparr>, True) else (t, False))"

definition rename_list :: "string \<Rightarrow> string \<Rightarrow> token \<Rightarrow> token \<times> bool" where
  "rename_list from to t =
     (if List.member (tk_projects t) from
      then (t\<lparr>tk_projects := normalizeProjects (map (\<lambda>p. if p = from then to else p) (tk_projects t))\<rparr>, True)
      else (t, False))"

definition rename_paths :: "string \<Rightarrow> string \<Rightarrow> token \<Rightarrow> token \<times> bool" where
  "rename_paths from to t =
     (if list_ex (\<lambda>p. has_prefix p (from @ ''/'')) (tk_write_paths t)
      then (t\<lparr>tk_write_paths := map (rename_write_path from to) (tk_write_paths t)\<rparr>, True)
      else (t, False))"

definition rename_in_token :: "string \<Rightarrow> string \<Rightarrow> token \<Rightarrow> token \<times> bool" where
  "rename_in_token from to t =
     (case rename_project from to t of (t1, changed1) \<Rightarrow>
        (case rename_list from to t1 of (t2, changed2) \<Rightarrow>
           (case rename_paths from to t2 of (t3, changed3) \<Rightarrow> (t3, changed1 \<or> changed2 \<or> changed3))))"

definition RenameProject ::
  "string \<Rightarrow> string \<Rightarrow> save_outcome \<Rightarrow> token_sys \<Rightarrow> (nat \<times> auth_error option) \<times> token_sys" where
  "RenameProject from to out sys =
     (if from = [] \<or> to = [] \<or> from = to then ((0, None), sys)
      else
        let sys = tok_sync sys;
            rs = map (rename_in_token from to) (tokens_of sys);
            n = length (filter snd rs)
        in if n = 0 then ((0, None), sys)
           else case tok_save out (set_tokens (map fst rs) sys) of
                  (ok, sys') \<Rightarrow> ((n, if ok then None else Some AuthSaveFailed), sys'))"

datatype removal = Keep token | Narrow token | Revoked

definition remove_from_token :: "string \<Rightarrow> token \<Rightarrow> removal" where
  "remove_from_token name t =
     (let list = ProjectList t in
      if \<not> List.member list name then Keep t
      else
        let rest = filter (\<lambda>p. p \<noteq> name) list in
        case rest of
          [] \<Rightarrow> Revoked
        | p # ps \<Rightarrow> Narrow (t\<lparr>tk_project := p, tk_projects := (if ps \<noteq> [] then rest else [])\<rparr>))"

fun kept_token :: "removal \<Rightarrow> token option" where
  "kept_token (Keep t) = Some t"
| "kept_token (Narrow t) = Some t"
| "kept_token Revoked = None"

definition RemoveProject ::
  "string \<Rightarrow> save_outcome \<Rightarrow> token_sys \<Rightarrow> (nat \<times> nat \<times> auth_error option) \<times> token_sys" where
  "RemoveProject name out sys =
     (if name = [] then ((0, 0, None), sys)
      else
        let sys = tok_sync sys;
            old = tokens_of sys;
            rs = map (remove_from_token name) old;
            revoked = length (filter (\<lambda>r. r = Revoked) rs);
            narrowed = length (filter (\<lambda>r. case r of Narrow _ \<Rightarrow> True | _ \<Rightarrow> False) rs)
        in if revoked = 0 \<and> narrowed = 0 then ((0, 0, None), sys)
           else case tok_save out (set_tokens (List.map_filter kept_token rs) sys) of
                  (True, sys') \<Rightarrow> ((revoked, narrowed, None), sys')
                | (False, sys') \<Rightarrow> ((0, 0, Some AuthSaveFailed), set_tokens old sys'))"

text \<open>The loop the two revocations by owner share; a save that fails is ignored.\<close>

definition revoke_where :: "(token \<Rightarrow> bool) \<Rightarrow> save_outcome \<Rightarrow> token_sys \<Rightarrow> nat \<times> token_sys" where
  "revoke_where bad out sys =
     (let sys = tok_sync sys; removed = length (filter bad (tokens_of sys)) in
      if removed = 0 then (0, sys)
      else (removed, snd (tok_save out (set_tokens (filter (\<lambda>t. \<not> bad t) (tokens_of sys)) sys))))"

definition RevokeByOwner :: "string \<Rightarrow> save_outcome \<Rightarrow> token_sys \<Rightarrow> nat \<times> token_sys" where
  "RevokeByOwner user out sys =
     (if user = [] then (0, sys) else revoke_where (\<lambda>t. tk_owner t = user) out sys)"

definition RevokeOAuthByOwner :: "string \<Rightarrow> save_outcome \<Rightarrow> token_sys \<Rightarrow> nat \<times> token_sys" where
  "RevokeOAuthByOwner user out sys =
     (if user = [] then (0, sys) else revoke_where (\<lambda>t. tk_owner t = user \<and> tk_kind t = KindOAuth) out sys)"

definition AssignOwnerToOrphans :: "string \<Rightarrow> save_outcome \<Rightarrow> token_sys \<Rightarrow> nat \<times> token_sys" where
  "AssignOwnerToOrphans user out sys =
     (if user = [] then (0, sys)
      else
        let sys = tok_sync sys; updated = length (filter (\<lambda>t. tk_owner t = []) (tokens_of sys)) in
        if updated = 0 then (0, sys)
        else (updated,
              snd (tok_save out
                (set_tokens (map (\<lambda>t. if tk_owner t = [] then t\<lparr>tk_owner := user\<rparr> else t) (tokens_of sys)) sys))))"

end
