(* ===== verification/TokenClaims.thy ===== *)
theory TokenClaims
  imports TokenStore
begin

text \<open>
  What the token store promises: which projects a token reaches after a project is
  renamed or removed, the compare-and-swap of the refresh token, minting and validating,
  and revocation with the account.
\<close>

subsection \<open>Names as the store keeps them\<close>

lemma set_normalize_from:
  "set (normalize_from seen ps) = {q. q \<noteq> [] \<and> q \<in> trim_space ` set ps \<and> q \<notin> set seen}"
proof (induction seen ps rule: normalize_from.induct)
  case (2 seen p ps)
  then show ?case
  proof (cases "trim_space p = [] \<or> trim_space p \<in> set seen")
    case True
    show ?thesis
    proof (rule set_eqI)
      fix x
      from True 2 show "x \<in> set (normalize_from seen (p # ps)) \<longleftrightarrow> x \<in> {q. q \<noteq> [] \<and> q \<in> trim_space ` set (p # ps) \<and> q \<notin> set seen}"
        by (cases "x = trim_space p") (simp_all add: Let_def)
    qed
  next
    case False
    show ?thesis
    proof (rule set_eqI)
      fix x
      from False 2 show "x \<in> set (normalize_from seen (p # ps)) \<longleftrightarrow> x \<in> {q. q \<noteq> [] \<and> q \<in> trim_space ` set (p # ps) \<and> q \<notin> set seen}"
        by (cases "x = trim_space p") (simp_all add: Let_def)
    qed
  qed
qed simp

lemma image_empty_list: "set xs = f ` set ys \<Longrightarrow> xs = [] \<longleftrightarrow> ys = []"
  by (cases xs; cases ys) simp_all

lemma distinct_normalize_from: "distinct (normalize_from seen ps)"
  by (induction seen ps rule: normalize_from.induct) (auto simp: Let_def set_normalize_from)

lemma set_normalize: "set (normalizeProjects ps) = {q. q \<noteq> [] \<and> q \<in> trim_space ` set ps}"
  by (simp add: normalizeProjects_def set_normalize_from)

definition clean_scope :: "'a token_scheme \<Rightarrow> bool" where
  "clean_scope t = (\<forall>p\<in>set (tk_projects t). p \<noteq> [] \<and> trim_space p = p)"

lemma normalize_clean: "p \<in> set (normalizeProjects ps) \<Longrightarrow> p \<noteq> [] \<and> trim_space p = p"
  by (auto simp: set_normalize trim_space_idem)

subsection \<open>Saving\<close>

lemma tokens_set [simp]: "tokens_of (set_tokens ts sys) = ts"
  by (simp add: tokens_of_def set_tokens_def split: prod.split)

lemma set_tokens_twice [simp]: "set_tokens ts (set_tokens ts' sys) = set_tokens ts sys"
  by (simp add: set_tokens_def split: prod.split)

lemma set_tokens_same [simp]: "set_tokens (tokens_of sys) sys = sys"
  by (simp add: set_tokens_def tokens_of_def split: prod.split)

lemma tok_save_tokens: "tok_save out sys = (ok, sys') \<Longrightarrow> tokens_of sys' = tokens_of sys"
  by (cases sys; cases out) (auto simp: tok_save_def tokens_of_def)

lemma tok_save_fails [simp]: "tok_save SaveFails sys = (False, sys)"
  by (simp add: tok_save_def split: prod.split)

lemma tok_save_ok:
  "tok_save (Saved t True) sys = (ok, sys') \<Longrightarrow> ok \<and> tok_sync sys' = sys' \<and> tokens_of sys' = tokens_of sys"
  by (cases sys) (auto simp: tok_save_def tok_sync_def tok_reload_def tokens_of_def)

lemma tok_save_done: "tok_save (Saved t b) sys = (ok, sys') \<Longrightarrow> ok \<and> tokens_of sys' = tokens_of sys"
  by (cases sys) (auto simp: tok_save_def tokens_of_def)

lemma tok_sync_idem: "tok_sync (tok_sync sys) = tok_sync sys"
  by (cases sys; cases "snd sys")
    (auto simp: tok_sync_def tok_reload_def tok_load_def split: option.splits)

subsection \<open>Projects that go away\<close>

lemma remove_from_token_cases:
  assumes "clean_scope t" and "name \<noteq> []"
  shows "(case kept_token (remove_from_token name t) of
            None \<Rightarrow> \<not> IsAdmin t \<and> set (ProjectList t) = {name}
          | Some t' \<Rightarrow> clean_scope t' \<and> tk_id t' = tk_id t \<and> tk_hash t' = tk_hash t \<and> IsAdmin t' = IsAdmin t \<and>
              (\<forall>q. AllowsProject t' q \<longleftrightarrow> AllowsProject t q \<and> (IsAdmin t \<or> q \<noteq> name)))"
proof (cases "name \<in> set (ProjectList t)")
  case False
  then have "remove_from_token name t = Keep t" by (simp add: remove_from_token_def)
  then show ?thesis using assms(1) False by (auto simp: AllowsProject_iff IsAdmin_def)
next
  case True
  have names: "p \<noteq> [] \<and> (p \<in> set (tk_projects t) \<or> p = tk_project t)" if "p \<in> set (ProjectList t)" for p
    using that assms(1) by (auto simp: ProjectList_def clean_scope_def split: if_splits)
  show ?thesis
  proof (cases "filter (\<lambda>p. p \<noteq> name) (ProjectList t)")
    case Nil
    then have "\<forall>x\<in>set (ProjectList t). x = name" by (simp add: filter_empty_conv)
    with True have "set (ProjectList t) = {name}" by blast
    moreover have "remove_from_token name t = Revoked" using Nil True by (simp add: remove_from_token_def)
    moreover have "\<not> IsAdmin t" using True by (auto simp: IsAdmin_def)
    ultimately show ?thesis by simp
  next
    case (Cons p ps)
    let ?t' = "t\<lparr>tk_project := p, tk_projects := (if ps \<noteq> [] then p # ps else [])\<rparr>"
    from Cons have rest: "set (p # ps) = set (ProjectList t) - {name}" by (metis set_filter set_minus_filter_out)
    then have p: "p \<noteq> []" using names by (metis DiffD1 list.set_intros(1))
    have list: "ProjectList ?t' = p # ps" using p by (simp add: ProjectList_def)
    have "clean_scope ?t'"
    proof (cases "ps = []")
      case False
      then have "tk_projects t \<noteq> []"
        using Cons by (cases "tk_projects t") (auto simp: ProjectList_def split: if_splits)
      then have "set (p # ps) \<subseteq> set (tk_projects t)" using rest by (auto simp: ProjectList_def)
      with assms(1) show ?thesis by (auto simp: clean_scope_def)
    qed (simp add: clean_scope_def)
    moreover have "remove_from_token name t = Narrow ?t'"
      using True Cons by (simp add: remove_from_token_def)
    moreover have "\<not> IsAdmin t" and "\<not> IsAdmin ?t'" using True by (auto simp: IsAdmin_def list)
    moreover have "AllowsProject ?t' q \<longleftrightarrow> AllowsProject t q \<and> q \<noteq> name" for q
    proof -
      have "AllowsProject ?t' q \<longleftrightarrow> q \<in> set (p # ps)" by (simp add: AllowsProject_iff list)
      also have "\<dots> \<longleftrightarrow> q \<in> set (ProjectList t) \<and> q \<noteq> name" by (simp only: rest) blast
      also have "\<dots> \<longleftrightarrow> AllowsProject t q \<and> q \<noteq> name" using True by (auto simp: AllowsProject_iff)
      finally show ?thesis .
    qed
    ultimately show ?thesis by simp
  qed
qed

lemma remove_keeps:
  "remove_from_token name t \<noteq> Revoked \<Longrightarrow> (\<And>t'. remove_from_token name t \<noteq> Narrow t') \<Longrightarrow>
     remove_from_token name t = Keep t"
  by (auto simp: remove_from_token_def Let_def split: if_splits list.splits)

lemma map_filter_id: "(\<And>x. x \<in> set xs \<Longrightarrow> f x = Some x) \<Longrightarrow> List.map_filter f xs = xs"
  by (induction xs) (simp_all add: List.map_filter_simps)

lemma map_filter_map: "List.map_filter f (map g xs) = List.map_filter (\<lambda>x. f (g x)) xs"
  by (induction xs) (simp_all add: List.map_filter_simps split: option.split)

lemma RemoveProject_ok:
  assumes "RemoveProject name (Saved t b) sys = (r, sys')" and "name \<noteq> []"
  shows "tokens_of sys' = List.map_filter (\<lambda>t. kept_token (remove_from_token name t)) (tokens_of (tok_sync sys))"
proof -
  let ?old = "tokens_of (tok_sync sys)"
  let ?rs = "map (remove_from_token name) ?old"
  let ?kept = "List.map_filter (\<lambda>t. kept_token (remove_from_token name t)) ?old"
  let ?revoked = "length (filter (\<lambda>r. r = Revoked) ?rs)"
  let ?narrowed = "length (filter (\<lambda>r. case r of Narrow _ \<Rightarrow> True | _ \<Rightarrow> False) ?rs)"
  show ?thesis
  proof (cases "?revoked = 0 \<and> ?narrowed = 0")
    case True
    have "kept_token (remove_from_token name t) = Some t" if "t \<in> set ?old" for t
    proof -
      have r: "remove_from_token name t \<in> set ?rs" using that by simp
      from True have both: "(\<forall>r\<in>set ?rs. r \<noteq> Revoked) \<and> (\<forall>r\<in>set ?rs. \<not> (case r of Narrow _ \<Rightarrow> True | _ \<Rightarrow> False))"
        by (simp only: length_0_conv filter_empty_conv)
      note narrow = conjunct2 [OF both]
      from both r have "remove_from_token name t \<noteq> Revoked" by blast
      moreover have "remove_from_token name t \<noteq> Narrow t'" for t'
      proof
        assume "remove_from_token name t = Narrow t'"
        with r narrow have "\<not> (case Narrow t' of Narrow _ \<Rightarrow> True | _ \<Rightarrow> False)" by metis
        then show False by simp
      qed
      ultimately have "remove_from_token name t = Keep t" by (rule remove_keeps)
      then show ?thesis by simp
    qed
    then have "?kept = ?old" by (rule map_filter_id)
    moreover have "sys' = tok_sync sys"
      using assms True unfolding RemoveProject_def Let_def by (simp only: if_True if_False prod.inject simp_thms)
    ultimately show ?thesis by simp
  next
    case False
    obtain ok sys1 where save: "tok_save (Saved t b) (set_tokens (List.map_filter kept_token ?rs) (tok_sync sys)) = (ok, sys1)"
      by (rule prod.exhaust)
    from tok_save_done [OF this] have "ok" and toks: "tokens_of sys1 = ?kept" by (simp_all add: map_filter_map)
    have "(case tok_save (Saved t b) (set_tokens (List.map_filter kept_token ?rs) (tok_sync sys)) of
            (True, s) \<Rightarrow> ((?revoked, ?narrowed, None), s)
          | (False, s) \<Rightarrow> ((0, 0, Some AuthSaveFailed), set_tokens ?old s)) = (r, sys')"
      using assms False unfolding RemoveProject_def Let_def by (simp only: if_False)
    with save \<open>ok\<close> have "sys' = sys1" by simp
    with toks show ?thesis by simp
  qed
qed

lemma map_filter_spec: "y \<in> set (List.map_filter f xs) \<Longrightarrow> \<exists>x\<in>set xs. f x = Some y"
  by (simp add: in_map_filter_iff)

text \<open>C4: Once a project is removed and the tokens saved, no scoped token reaches the name any
  more, and no token became an administrator by losing it: every token left stands for one
  of the tokens before, of the same id and hash, that reaches the same projects except this
  one; and every token that reached another project is still there.\<close>

theorem RemoveProject_confines:
  assumes "RemoveProject name (Saved tm b) sys = (r, sys')" and "name \<noteq> []"
    and "list_all clean_scope (tokens_of (tok_sync sys))"
  shows "(t' \<in> set (tokens_of sys') \<longrightarrow>
            (AllowsProject t' name \<longleftrightarrow> IsAdmin t') \<and>
            (\<exists>t. t \<in> set (tokens_of (tok_sync sys)) \<and> tk_id t = tk_id t' \<and> tk_hash t = tk_hash t' \<and>
                 IsAdmin t = IsAdmin t' \<and> (\<forall>q. AllowsProject t' q \<longleftrightarrow> AllowsProject t q \<and> (IsAdmin t \<or> q \<noteq> name))))
    \<and> (t \<in> set (tokens_of (tok_sync sys)) \<and> q \<noteq> name \<and> AllowsProject t q \<longrightarrow>
         (\<exists>t'. t' \<in> set (tokens_of sys') \<and> tk_hash t' = tk_hash t \<and> AllowsProject t' q))"
proof -
  let ?old = "tokens_of (tok_sync sys)"
  have clean: "clean_scope t" if "t \<in> set ?old" for t using assms(3) that by (simp add: list_all_iff)
  note new = RemoveProject_ok [OF assms(1,2)]
  have fwd: "(AllowsProject t' name \<longleftrightarrow> IsAdmin t') \<and>
            (\<exists>t. t \<in> set ?old \<and> tk_id t = tk_id t' \<and> tk_hash t = tk_hash t' \<and>
                 IsAdmin t = IsAdmin t' \<and> (\<forall>q. AllowsProject t' q \<longleftrightarrow> AllowsProject t q \<and> (IsAdmin t \<or> q \<noteq> name)))"
    if "t' \<in> set (tokens_of sys')"
  proof -
    from that obtain t where t: "t \<in> set ?old" "kept_token (remove_from_token name t) = Some t'"
      unfolding new by (blast dest: map_filter_spec)
    from remove_from_token_cases [OF clean [OF t(1)] assms(2)] t
    have same: "tk_id t' = tk_id t" "tk_hash t' = tk_hash t" "IsAdmin t' = IsAdmin t"
      and reach: "\<forall>q. AllowsProject t' q \<longleftrightarrow> AllowsProject t q \<and> (IsAdmin t \<or> q \<noteq> name)" by simp_all
    have "IsAdmin t \<Longrightarrow> AllowsProject t name" by (simp add: IsAdmin_def AllowsProject_iff)
    with same reach t(1) show ?thesis by (intro conjI exI [of _ t]) auto
  qed
  have bwd: "\<exists>t'. t' \<in> set (tokens_of sys') \<and> tk_hash t' = tk_hash t \<and> AllowsProject t' q"
    if "t \<in> set ?old" "q \<noteq> name" "AllowsProject t q"
  proof (cases "kept_token (remove_from_token name t)")
    case None
    with remove_from_token_cases [OF clean [OF that(1)] assms(2)] that show ?thesis
      by (simp add: AllowsProject_iff IsAdmin_def)
  next
    case (Some t')
    with remove_from_token_cases [OF clean [OF that(1)] assms(2)] that
    have "tk_hash t' = tk_hash t" "AllowsProject t' q" by simp_all
    moreover have "t' \<in> set (tokens_of sys')" unfolding new using that(1) Some by (auto simp: in_map_filter_iff)
    ultimately show ?thesis by blast
  qed
  from fwd bwd show ?thesis by blast
qed

text \<open>When the tokens cannot be saved, removing a project changes no token, and neither a
  failed rotation nor a failed mint leaves a trace.\<close>

theorem failed_save_keeps_tokens:
  "tokens_of (snd (RemoveProject name SaveFails sys)) \<in> {tokens_of sys, tokens_of (tok_sync sys)}
   \<and> tokens_of (snd (RotateRefresh i old new e SaveFails sys)) = tokens_of (tok_sync sys)
   \<and> tokens_of (snd (mint hash_of pt name' clean scopes ttl owner upd now SaveFails sys)) = tokens_of (tok_sync sys)"
proof (intro conjI)
  show "tokens_of (snd (RemoveProject name SaveFails sys)) \<in> {tokens_of sys, tokens_of (tok_sync sys)}"
    by (simp add: RemoveProject_def Let_def)
  show "tokens_of (snd (mint hash_of pt name' clean scopes ttl owner upd now SaveFails sys)) = tokens_of (tok_sync sys)"
    by (simp add: mint_def Let_def)
  have undo: "update_first (\<lambda>t. tk_id t = i) (\<lambda>t. t\<lparr>tk_refresh_hash := tk_refresh_hash t0, tk_refresh_expires := tk_refresh_expires t0\<rparr>)
        (update_first (\<lambda>t. tk_id t = i) (\<lambda>t. t\<lparr>tk_refresh_hash := h, tk_refresh_expires := x\<rparr>) ts) = ts"
    if "find (\<lambda>t. tk_id t = i) ts = Some t0" for ts :: "token list" and t0 :: token and h x
    using that by (induction ts) (auto split: if_splits)
  show "tokens_of (snd (RotateRefresh i old new e SaveFails sys)) = tokens_of (tok_sync sys)"
    by (auto simp: RotateRefresh_def Let_def undo split: option.split)
qed

subsection \<open>Rotating a refresh token\<close>

lemma rotate_ok:
  assumes "RotateRefresh i old new e out sys = (Inr (), sys')"
  shows "\<exists>t. find (\<lambda>t. tk_id t = i) (tokens_of (tok_sync sys)) = Some t \<and> tk_refresh_hash t = old \<and>
     find (\<lambda>t. tk_id t = i) (tokens_of sys') = Some (t\<lparr>tk_refresh_hash := new, tk_refresh_expires := e\<rparr>)"
proof -
  let ?upd = "update_first (\<lambda>t. tk_id t = i) (\<lambda>t. t\<lparr>tk_refresh_hash := new, tk_refresh_expires := e\<rparr>) (tokens_of (tok_sync sys))"
  from assms obtain t where t: "find (\<lambda>t. tk_id t = i) (tokens_of (tok_sync sys)) = Some t" "tk_refresh_hash t = old"
    by (auto simp: RotateRefresh_def Let_def split: option.splits if_splits)
  obtain ok s where save: "tok_save out (set_tokens ?upd (tok_sync sys)) = (ok, s)" by (rule prod.exhaust)
  with assms t have "sys' = s" by (auto simp: RotateRefresh_def Let_def split: bool.splits)
  with tok_save_tokens [OF save] have "tokens_of sys' = ?upd" by simp
  moreover have "find (\<lambda>t. tk_id t = i) ?upd = Some (t\<lparr>tk_refresh_hash := new, tk_refresh_expires := e\<rparr>)"
    using t(1) by (subst find_update_first) simp_all
  ultimately show ?thesis using t by auto
qed

text \<open>A refresh token is exchanged at most once: after a rotation of the hash \<open>old\<close> that was
  saved, another rotation of the same hash, with whatever new hash, fails as already
  rotated and changes nothing, while a rotation of the new hash is accepted.\<close>

theorem rotation_once:
  assumes "RotateRefresh i old new e (Saved tm True) sys = (Inr (), sys')" and "old \<noteq> new"
  shows "RotateRefresh i old new' e' out sys' = (Inl RefreshRotated, sys')
    \<and> fst (RotateRefresh i new new' e' (Saved tm' b) sys') = Inr ()"
proof -
  obtain t where find: "find (\<lambda>t. tk_id t = i) (tokens_of sys') = Some (t\<lparr>tk_refresh_hash := new, tk_refresh_expires := e\<rparr>)"
    using rotate_ok [OF assms(1)] by blast
  have "tok_sync sys' = sys'"
  proof -
    obtain ok s upd where "tok_save (Saved tm True) upd = (ok, s)" "sys' = s"
      using assms(1) by (auto simp: RotateRefresh_def Let_def split: option.splits if_splits prod.splits bool.splits)
    then show ?thesis using tok_save_ok by blast
  qed
  moreover obtain ok s where save: "tok_save (Saved tm' b)
       (set_tokens (update_first (\<lambda>t. tk_id t = i) (\<lambda>t. t\<lparr>tk_refresh_hash := new', tk_refresh_expires := e'\<rparr>) (tokens_of sys')) sys') = (ok, s)"
    by (rule prod.exhaust)
  moreover have "ok" using tok_save_done [OF save] by blast
  ultimately show ?thesis using find assms(2) by (simp add: RotateRefresh_def)
qed

subsection \<open>Minting, validating, revoking\<close>

lemma mint_ok:
  assumes "mint hash_of pt name clean scopes ttl owner upd now (Saved tm True) sys = (r, sys')"
  shows "r = Inr (upd (mint_record hash_of pt name clean scopes ttl owner now)) \<and> tok_sync sys' = sys' \<and>
     tokens_of sys' = tokens_of (tok_sync sys) @ [upd (mint_record hash_of pt name clean scopes ttl owner now)]"
proof -
  let ?tok = "upd (mint_record hash_of pt name clean scopes ttl owner now)"
  obtain ok s where save: "tok_save (Saved tm True) (set_tokens (tokens_of (tok_sync sys) @ [?tok]) (tok_sync sys)) = (ok, s)"
    by (rule prod.exhaust)
  from tok_save_ok [OF this] save assms show ?thesis by (auto simp: mint_def Let_def)
qed

lemma find_append_last: "(\<And>x. x \<in> set xs \<Longrightarrow> \<not> p x) \<Longrightarrow> p y \<Longrightarrow> find p (xs @ [y]) = Some y"
  by (induction xs) auto

text \<open>A token that was created validates: if no stored token has the hash of the new plaintext,
  then presenting the plaintext before the expiry (at any time without one) gives the token
  back, with the scopes and owner asked for and the projects of the cleaned list.\<close>

theorem created_token_validates:
  assumes "Create hash_of random name projects scopes ttl owner now (Saved tm True) sys = (Inr (pt, tok), sys')"
    and "hash_of pt \<notin> tk_hash ` set (tokens_of (tok_sync sys))"
    and "ttl = 0 \<or> now' \<le> now + ttl"
  shows "fst (Validate hash_of pt now' out sys') = Inr tok
    \<and> pt = tokenPrefix @ random \<and> tk_scopes tok = scopes \<and> tk_owner tok = owner
    \<and> cleanProjectList projects = Inr (ProjectList tok)"
proof -
  from assms(1) obtain clean where clean: "cleanProjectList projects = Inr clean" and pt: "pt = tokenPrefix @ random"
    and mint: "mint hash_of pt name clean scopes ttl owner (\<lambda>t. t) now (Saved tm True) sys = (Inr tok, sys')"
    by (auto simp: Create_def Let_def split: option.splits sum.splits prod.splits)
  from mint_ok [OF mint] have tok: "tok = mint_record hash_of pt name clean scopes ttl owner now"
    and sync: "tok_sync sys' = sys'" and toks: "tokens_of sys' = tokens_of (tok_sync sys) @ [tok]" by auto
  have "tk_hash tok = hash_of pt" by (simp add: tok mint_record_def Let_def)
  then have "find (\<lambda>t. tk_hash t = hash_of pt) (tokens_of sys') = Some tok"
    unfolding toks using assms(2) by (intro find_append_last) (auto simp: image_iff)
  moreover have "\<not> Expired tok now'"
    using assms(3) by (auto simp: tok Expired_def mint_record_def Let_def)
  moreover have "pt \<noteq> []" by (simp add: pt tokenPrefix_def)
  moreover have "ProjectList tok = clean"
  proof -
    have "p \<noteq> []" if "p \<in> set clean" for p
    proof -
      from clean have "clean = normalizeProjects projects"
        by (auto simp: cleanProjectList_def Let_def split: option.splits)
      with that show ?thesis using normalize_clean by blast
    qed
    then show ?thesis
      by (cases clean) (auto simp: tok ProjectList_def mint_record_def Let_def Suc_lessI length_0_conv split: list.splits)
  qed
  ultimately show ?thesis
    using clean pt sync by (simp add: Validate_def Let_def) (simp add: tok mint_record_def Let_def)
qed

lemma revoke_where_ok:
  assumes "revoke_where bad (Saved tm True) sys = (n, sys')"
  shows "tok_sync sys' = sys' \<and> tokens_of sys' = filter (\<lambda>t. \<not> bad t) (tokens_of (tok_sync sys))
     \<and> n + length (tokens_of sys') = length (tokens_of (tok_sync sys))"
proof (cases "filter bad (tokens_of (tok_sync sys)) = []")
  case True
  then have "filter (\<lambda>t. \<not> bad t) (tokens_of (tok_sync sys)) = tokens_of (tok_sync sys)"
    by (auto simp: filter_empty_conv intro: filter_True)
  with True assms show ?thesis by (auto simp: revoke_where_def Let_def tok_sync_idem)
next
  case False
  obtain ok s where save: "tok_save (Saved tm True)
      (set_tokens (filter (\<lambda>t. \<not> bad t) (tokens_of (tok_sync sys))) (tok_sync sys)) = (ok, s)"
    by (rule prod.exhaust)
  have "length (filter bad xs) + length (filter (\<lambda>t. \<not> bad t) xs) = length xs" for xs
    by (induction xs) auto
  with tok_save_ok [OF save] save False assms show ?thesis by (auto simp: revoke_where_def Let_def)
qed

text \<open>Revoking with the account ends its credentials: after \<open>RevokeByOwner\<close> was saved, no
  presented secret ever validates as a token of that account, in any of the later
  validations of the same store, and nobody else's token was dropped.\<close>

theorem revoked_owner_rejected:
  assumes "RevokeByOwner user (Saved tm True) sys = (n, sys')" and "user \<noteq> []"
  shows "(fst (Validate hash_of pt now out sys') = Inr tok \<longrightarrow> tk_owner tok \<noteq> user)
    \<and> filter (\<lambda>t. tk_owner t \<noteq> user) (tokens_of (tok_sync sys)) = tokens_of sys'"
proof -
  from assms have "revoke_where (\<lambda>t. tk_owner t = user) (Saved tm True) sys = (n, sys')"
    by (simp add: RevokeByOwner_def)
  from revoke_where_ok [OF this] have sync: "tok_sync sys' = sys'"
    and toks: "tokens_of sys' = filter (\<lambda>t. tk_owner t \<noteq> user) (tokens_of (tok_sync sys))" by blast+
  have "tk_owner tok \<noteq> user" if "fst (Validate hash_of pt now out sys') = Inr tok"
  proof -
    from that have "find (\<lambda>t. tk_hash t = hash_of pt) (tokens_of sys') = Some tok"
      by (auto simp: Validate_def Let_def sync split: if_splits option.splits)
    then have "tok \<in> set (tokens_of sys')" by (auto dest: find_Some_iff')
    then show ?thesis by (simp add: toks)
  qed
  with toks show ?thesis by simp
qed

lemma clean_paths_prefix:
  "clean_paths_from project acc ps = Inr ds \<Longrightarrow>
     (\<And>d. d \<in> set acc \<Longrightarrow> has_prefix d (project @ ''/'')) \<Longrightarrow> d \<in> set ds \<Longrightarrow> has_prefix d (project @ ''/'')"
  by (induction project acc ps rule: clean_paths_from.induct) (auto simp: Let_def split: if_splits)

lemma clean_paths_set:
  "clean_paths_from project acc ps = Inr ds \<Longrightarrow> set ds = set acc \<union> (\<lambda>p. trim_suffix p ''/'' @ ''/'') ` set ps"
proof (induction ps arbitrary: acc)
  case (Cons p ps)
  let ?dir = "trim_suffix p ''/'' @ ''/''"
  have "clean_paths_from project (if ?dir \<in> set acc then acc else acc @ [?dir]) ps = Inr ds"
    using Cons.prems by (simp add: Let_def split: if_splits)
  from Cons.IH [OF this] show ?case by (auto split: if_splits)
qed simp

lemma bad_project_slash: "\<not> bad_project p \<Longrightarrow> CHR ''/'' \<notin> set p"
  by (auto simp: bad_project_def contains_any_iff)

text \<open>C8: The token of a run is confined: it is scoped to one project (never an administrator's), it expires, it uses the
  core tools, and it writes exactly the paths of that project that, cleaned, lie in one of the write folders asked for (all
  of the project when none was), and none without the write permission.\<close>

theorem run_token_confined:
  assumes "CreateRun hash_of random name project write ttl run paths now (Saved tm b) sys = (Inr (pt, tok), sys')"
  shows "ProjectList tok = [trim_space project]
    \<and> (AllowsWrite (live tok) path \<longleftrightarrow> write \<and> ProjectOf path = trim_space project \<and>
        (paths = [] \<or> list_ex (\<lambda>d. has_prefix (path_clean path) (trim_suffix d ''/'' @ ''/'')) paths))
    \<and> list_all (\<lambda>d. has_prefix (trim_suffix d ''/'' @ ''/'') (trim_space project @ ''/'')) paths
    \<and> \<not> IsAdmin tok \<and> IsCoreProfile tok \<and> tk_run tok = run \<and> tk_expires tok = now + ttl \<and> 0 < ttl"
proof -
  let ?scopes = "if write then [ScopeRead, ScopeWrite] else [ScopeRead]"
  let ?kept = "set_tokens (filter (\<lambda>t. tk_kind t \<noteq> KindRun \<or> \<not> Expired t now) (tokens_of (tok_sync sys))) (tok_sync sys)"
  from assms obtain clean cpaths where ttl: "0 < ttl" and clean: "cleanProjectList [project] = Inr clean"
    and len: "length clean = 1" and cpaths: "cleanWritePaths (hd clean) paths = Inr cpaths"
    and mint: "mint hash_of pt name clean ?scopes ttl []
          (\<lambda>t. t\<lparr>tk_kind := KindRun, tk_profile := ToolProfileCore, tk_run := run, tk_write_paths := cpaths\<rparr>)
          now (Saved tm b) ?kept = (Inr tok, sys')"
    by (auto simp: CreateRun_def Let_def split: if_splits option.splits sum.splits prod.splits)
  from len obtain p where p: "clean = [p]" by (cases clean) auto
  from clean have norm: "clean = normalizeProjects [project]" and ok: "\<not> bad_project p"
    by (auto simp: cleanProjectList_def Let_def p find_None_iff split: option.splits)
  have "p \<in> set (normalizeProjects [project])" unfolding norm [symmetric] p by simp
  then have pt: "p = trim_space project" "p \<noteq> []" by (auto simp: set_normalize)
  have tok: "tok = (mint_record hash_of pt name clean ?scopes ttl [] now)
      \<lparr>tk_kind := KindRun, tk_profile := ToolProfileCore, tk_run := run, tk_write_paths := cpaths\<rparr>"
    using mint by (auto simp: mint_def Let_def split: prod.splits bool.splits)
  have list: "ProjectList tok = [p]" "ProjectList (live tok) = [p]"
    using pt(2) by (simp_all add: tok p mint_record_def Let_def ProjectList_def live_def token.defs)
  have scope: "HasScope (live tok) ScopeWrite \<longleftrightarrow> write" "tk_write_filter (live tok) = None" "tk_write_paths (live tok) = cpaths"
    by (simp_all add: tok mint_record_def Let_def HasScope_iff live_def token.defs token_consts)
  have folders: "set cpaths = (\<lambda>d. trim_suffix d ''/'' @ ''/'') ` set paths"
    using clean_paths_set [of p "[]" paths cpaths] cpaths by (simp add: cleanWritePaths_def p)
  have inside: "has_prefix d (p @ ''/'')" if "d \<in> set cpaths" for d
    using clean_paths_prefix [of p "[]" paths cpaths d] cpaths that by (simp add: cleanWritePaths_def p)
  have proper: "c \<noteq> ''..'' \<and> \<not> has_prefix c ''../'' \<and> \<not> has_prefix c ''/''" if "has_prefix c (p @ ''/'')" for c
    using that ok pt(2) bad_project_slash [OF ok] by (cases p) (auto simp: has_prefix_iff bad_project_def)
  have "InWritePaths (live tok) path \<longleftrightarrow> cpaths = [] \<or> list_ex (has_prefix (path_clean path)) cpaths"
    using proper [OF has_prefix_trans [OF _ inside]] by (auto simp: InWritePaths_def scope Let_def list_ex_iff)
  also have "\<dots> \<longleftrightarrow> paths = [] \<or> list_ex (\<lambda>d. has_prefix (path_clean path) (trim_suffix d ''/'' @ ''/'')) paths"
    using folders by (auto simp: list_ex_iff)
  finally have writes: "AllowsWrite (live tok) path \<longleftrightarrow> write \<and> ProjectOf path = p \<and>
      (paths = [] \<or> list_ex (\<lambda>d. has_prefix (path_clean path) (trim_suffix d ''/'' @ ''/'')) paths)"
    using AllowsPath_ProjectOf [of "live tok" path] bad_project_slash [OF ok] scope by (auto simp: AllowsWrite_iff list)
  have "list_all (\<lambda>d. has_prefix (trim_suffix d ''/'' @ ''/'') (p @ ''/'')) paths"
    using folders inside by (auto simp: list_all_iff)
  moreover have "IsCoreProfile tok" "tk_run tok = run" "tk_expires tok = now + ttl"
    using ttl by (simp_all add: tok IsCoreProfile_def mint_record_def Let_def)
  ultimately show ?thesis using list pt(1) ttl writes by (simp add: IsAdmin_def)
qed

subsection \<open>Renaming a project\<close>

lemma rename_in_token_fields:
  "tk_hash (fst (rename_in_token from to t)) = tk_hash t"
  "tk_project (fst (rename_in_token from to t)) = (if tk_project t = from then to else tk_project t)"
  "tk_projects (fst (rename_in_token from to t)) =
     (if from \<in> set (tk_projects t) then normalizeProjects (map (\<lambda>p. if p = from then to else p) (tk_projects t))
      else tk_projects t)"
  by (auto simp: rename_in_token_def rename_project_def rename_list_def rename_paths_def split: prod.splits if_splits)

lemma rename_in_token_scope:
  fixes "from" "to" :: string
  assumes clean: "clean_scope t" and names: "from \<noteq> to" "from \<noteq> []" "to \<noteq> []" "trim_space to = to" "trim_space from = from"
  shows "set (ProjectList (fst (rename_in_token from to t))) = (\<lambda>p. if p = from then to else p) ` set (ProjectList t)
    \<and> tk_hash (fst (rename_in_token from to t)) = tk_hash t"
proof -
  let ?r = "fst (rename_in_token from to t)"
  let ?f = "\<lambda>p. if p = from then to else p"
  have hash: "tk_hash ?r = tk_hash t" and project: "tk_project ?r = ?f (tk_project t)"
    by (simp_all only: rename_in_token_fields)
  have mapped: "?f ` set (tk_projects t) = {q. q \<noteq> [] \<and> q \<in> trim_space ` set (map ?f (tk_projects t))}"
  proof -
    have "?f p \<noteq> [] \<and> trim_space (?f p) = ?f p" if "p \<in> set (tk_projects t)" for p
      using that clean names by (auto simp: clean_scope_def)
    then have fixed: "\<forall>x \<in> ?f ` set (tk_projects t). x \<noteq> [] \<and> trim_space x = x" by (rule ball_imageI)
    then have "trim_space ` ?f ` set (tk_projects t) = (\<lambda>x. x) ` ?f ` set (tk_projects t)" by (intro image_cong) simp_all
    then have "trim_space ` set (map ?f (tk_projects t)) = ?f ` set (tk_projects t)" by (simp only: set_map image_ident)
    with fixed show ?thesis by blast
  qed
  have projects: "set (tk_projects ?r) = ?f ` set (tk_projects t)"
  proof (cases "from \<in> set (tk_projects t)")
    case True
    then have "tk_projects ?r = normalizeProjects (map ?f (tk_projects t))"
      by (simp only: rename_in_token_fields if_True)
    then show ?thesis unfolding mapped by (simp only: set_normalize)
  next
    case False
    then have "tk_projects ?r = tk_projects t" by (simp only: rename_in_token_fields if_False)
    moreover have "?f ` set (tk_projects t) = set (tk_projects t)" using False by (force simp: image_iff)
    ultimately show ?thesis by simp
  qed
  then have empty: "tk_projects ?r = [] \<longleftrightarrow> tk_projects t = []" by (rule image_empty_list)
  show ?thesis
    using hash project projects empty names(2,3) by (auto simp: ProjectList_def)
qed

lemma rename_untouched:
  assumes "\<not> snd (rename_in_token from to t)"
  shows "fst (rename_in_token from to t) = t"
proof -
  obtain t1 c1 where 1: "rename_project from to t = (t1, c1)" by (rule prod.exhaust)
  obtain t2 c2 where 2: "rename_list from to t1 = (t2, c2)" by (rule prod.exhaust)
  obtain t3 c3 where 3: "rename_paths from to t2 = (t3, c3)" by (rule prod.exhaust)
  from assms have no: "\<not> c1" "\<not> c2" "\<not> c3" by (simp_all add: rename_in_token_def 1 2 3)
  have "t1 = t" using 1 no(1) by (simp add: rename_project_def split: if_splits)
  moreover have "t2 = t1" using 2 no(2) by (simp add: rename_list_def split: if_splits)
  moreover have "t3 = t2" using 3 no(3) by (simp add: rename_paths_def split: if_splits)
  moreover have "fst (rename_in_token from to t) = t3" by (simp add: rename_in_token_def 1 2 3)
  ultimately show ?thesis by simp
qed

lemma AllowsProject_renamed:
  assumes "set (ProjectList t') = (\<lambda>p. if p = from then to else p) ` set (ProjectList t)" and "from \<noteq> to"
  shows "IsAdmin t' = IsAdmin t
    \<and> (AllowsProject t' q \<longleftrightarrow> IsAdmin t \<or>
         (if q = to then AllowsProject t from \<or> AllowsProject t to else q \<noteq> from \<and> AllowsProject t q))"
proof -
  have empty: "ProjectList t' = [] \<longleftrightarrow> ProjectList t = []" by (rule image_empty_list [OF assms(1)])
  moreover have "q \<in> set (ProjectList t') \<longleftrightarrow>
      (if q = to then from \<in> set (ProjectList t) \<or> to \<in> set (ProjectList t) else q \<noteq> from \<and> q \<in> set (ProjectList t))"
    unfolding assms(1) by (rule mem_image_replace [OF assms(2)])
  ultimately show ?thesis by (auto simp: AllowsProject_iff IsAdmin_def)
qed

text \<open>A token follows its project through a rename: after \<open>RenameProject\<close> was saved, the token in
  each place of the store reaches the new name exactly when it reached the old or the new
  one, no longer reaches the old name unless it is an administrator, reaches every other
  project as before, and is an administrator exactly when it was one.\<close>

theorem RenameProject_follows:
  fixes "from" "to" :: string
  assumes "RenameProject from to (Saved tm b) sys = (r, sys')"
    and "list_all clean_scope (tokens_of (tok_sync sys))"
    and "from \<noteq> to" and "from \<noteq> []" and "to \<noteq> []" and "trim_space to = to" and "trim_space from = from"
    and "k < length (tokens_of (tok_sync sys))"
  shows "length (tokens_of sys') = length (tokens_of (tok_sync sys))
    \<and> tk_hash (tokens_of sys' ! k) = tk_hash (tokens_of (tok_sync sys) ! k)
    \<and> IsAdmin (tokens_of sys' ! k) = IsAdmin (tokens_of (tok_sync sys) ! k)
    \<and> (AllowsProject (tokens_of sys' ! k) q \<longleftrightarrow> IsAdmin (tokens_of (tok_sync sys) ! k) \<or>
         (if q = to then AllowsProject (tokens_of (tok_sync sys) ! k) from \<or> AllowsProject (tokens_of (tok_sync sys) ! k) to
          else q \<noteq> from \<and> AllowsProject (tokens_of (tok_sync sys) ! k) q))"
proof -
  let ?old = "tokens_of (tok_sync sys)" and ?g = "\<lambda>t. fst (rename_in_token from to t)"
  have toks: "tokens_of sys' = map ?g ?old"
  proof (cases "length (filter snd (map (rename_in_token from to) ?old)) = 0")
    case True
    have "?g t = t" if "t \<in> set ?old" for t
    proof -
      have "\<forall>x\<in>set (map (rename_in_token from to) ?old). \<not> snd x"
        using True by (simp only: length_0_conv filter_empty_conv)
      with that have "\<not> snd (rename_in_token from to t)" by simp
      then show ?thesis by (rule rename_untouched)
    qed
    then have "map ?g ?old = ?old" by (simp add: map_idI)
    moreover have "sys' = tok_sync sys"
    proof -
      have "\<not> (from = [] \<or> to = [] \<or> from = to)" using assms(3-5) by blast
      with assms(1) True show ?thesis
        unfolding RenameProject_def Let_def by (simp only: if_True if_False prod.inject simp_thms)
    qed
    ultimately show ?thesis by simp
  next
    case False
    obtain ok s where save: "tok_save (Saved tm b)
        (set_tokens (map fst (map (rename_in_token from to) ?old)) (tok_sync sys)) = (ok, s)"
      by (rule prod.exhaust)
    have "(case tok_save (Saved tm b) (set_tokens (map fst (map (rename_in_token from to) ?old)) (tok_sync sys)) of
        (ok, s) \<Rightarrow> ((length (filter snd (map (rename_in_token from to) ?old)), if ok then None else Some AuthSaveFailed), s)) = (r, sys')"
    proof -
      have "\<not> (from = [] \<or> to = [] \<or> from = to)" using assms(3-5) by blast
      with assms(1) False show ?thesis unfolding RenameProject_def Let_def by (simp only: if_False)
    qed
    with save have "sys' = s" by simp
    with tok_save_done [OF save] show ?thesis by (simp add: comp_def)
  qed
  have "clean_scope (?old ! k)" using assms(2,8) by (simp add: list_all_length)
  note scope = rename_in_token_scope [OF this assms(3-7)]
  have "tokens_of sys' ! k = ?g (?old ! k)" using assms(8) by (simp add: toks)
  with AllowsProject_renamed [OF conjunct1 [OF scope] assms(3), of q] conjunct2 [OF scope]
  show ?thesis by (simp only: toks length_map simp_thms)
qed

subsection \<open>The properties on a small store\<close>

text \<open>A token of two projects and a run's token of one, in a file not read yet.\<close>

definition sample_token :: "string \<Rightarrow> string list \<Rightarrow> token" where
  "sample_token h ps = (mint_record (\<lambda>pt. pt) h ''n'' ps [ScopeRead, ScopeWrite] 0 ''u'' 1)\<lparr>tk_refresh_hash := ''r0''\<rparr>"

definition sample_tokens :: token_sys where
  "sample_tokens =
     (\<lparr>ts_tokens = [], ts_mtime = 0\<rparr>, Present 3 (Some [sample_token ''h1'' [''x'', ''y''], sample_token ''h2'' [''x'']]))"

lemma sample_sync:
  "tokens_of (tok_sync sample_tokens) = [sample_token ''h1'' [''x'', ''y''], sample_token ''h2'' [''x'']]"
  by (simp add: sample_tokens_def tok_sync_def tok_reload_def tok_load_def tokens_of_def)

lemma trim_ascii: "trim_space ''x'' = ''x''" "trim_space ''y'' = ''y''" "trim_space ''z'' = ''z''"
proof -
  have "strip utf8_spaces [c] = [c] \<and> strip (map rev utf8_spaces) [c] = [c]" if "c \<in> {CHR ''x'', CHR ''y'', CHR ''z''}" for c
    using that unfolding strip_fixed_iff by (auto simp: utf8_spaces_def)
  then show "trim_space ''x'' = ''x''" "trim_space ''y'' = ''y''" "trim_space ''z'' = ''z''"
    by (simp_all add: trim_space_def trim_left_def trim_right_def)
qed

lemma sample_clean: "list_all clean_scope (tokens_of (tok_sync sample_tokens))"
  unfolding sample_sync by (simp add: sample_token_def mint_record_def Let_def clean_scope_def trim_ascii)

lemma sample_projects: "ProjectList (sample_token h (p # q # ps)) = p # q # ps" "p \<noteq> [] \<Longrightarrow> ProjectList (sample_token h [p]) = [p]"
  by (simp_all add: sample_token_def mint_record_def Let_def ProjectList_def)

lemma RemoveProject_confines_witness:
  "(\<exists>t'. t' \<in> set (tokens_of (snd (RemoveProject ''x'' (Saved 4 True) sample_tokens))) \<and> AllowsProject t' ''y'')
   \<and> \<not> (\<exists>t'. t' \<in> set (tokens_of (snd (RemoveProject ''x'' (Saved 4 True) sample_tokens))) \<and> AllowsProject t' ''x'' \<and> \<not> IsAdmin t')"
proof -
  let ?run = "RemoveProject ''x'' (Saved 4 True) sample_tokens"
  have run: "?run = (fst ?run, snd ?run)" by simp
  note claim = RemoveProject_confines [OF run _ sample_clean]
  have "AllowsProject (sample_token ''h1'' [''x'', ''y'']) ''y''"
    and "sample_token ''h1'' [''x'', ''y''] \<in> set (tokens_of (tok_sync sample_tokens))" and "''y'' \<noteq> ''x''" and "''x'' \<noteq> []"
    by (simp_all add: AllowsProject_iff sample_projects sample_sync)
  with claim [of _ "sample_token ''h1'' [''x'', ''y'']" "''y''"] show ?thesis by blast
qed

lemma rotation_once_witness:
  "fst (RotateRefresh ''h1'' ''r0'' ''r2'' 9 (Saved 6 True)
      (snd (RotateRefresh ''h1'' ''r0'' ''r1'' 9 (Saved 5 True) sample_tokens))) = Inl RefreshRotated"
proof -
  let ?run = "RotateRefresh ''h1'' ''r0'' ''r1'' 9 (Saved 5 True) sample_tokens"
  have "fst ?run = Inr ()"
    unfolding RotateRefresh_def Let_def sample_sync
    by (simp add: sample_token_def mint_record_def Let_def tok_save_def split: prod.split)
  then have "?run = (Inr (), snd ?run)" by (simp add: prod_eq_iff)
  from rotation_once [OF this, of "''r2''" 9 "Saved 6 True"] show ?thesis by simp
qed

lemma created_token_validates_witness:
  "fst (Validate (\<lambda>pt. pt) ''gosidian_abc'' 7 SaveFails
      (snd (Create (\<lambda>pt. pt) ''abc'' ''n'' [''z''] [ScopeRead] 0 ''u'' 5 (Saved 6 True) sample_tokens)))
     = Inr (mint_record (\<lambda>pt. pt) ''gosidian_abc'' ''n'' [''z''] [ScopeRead] 0 ''u'' 5)"
proof -
  let ?tok = "mint_record (\<lambda>pt. pt) ''gosidian_abc'' ''n'' [''z''] [ScopeRead] 0 ''u'' 5"
  let ?run = "Create (\<lambda>pt. pt) ''abc'' ''n'' [''z''] [ScopeRead] 0 ''u'' 5 (Saved 6 True) sample_tokens"
  have "fst ?run = Inr (''gosidian_abc'', ?tok)"
    by (simp add: Create_def validateCreate_def cleanProjectList_def normalizeProjects_def Let_def trim_ascii
        bad_project_def contains_any_def tokenPrefix_def token_consts mint_def tok_save_def split: prod.split)
  then have run: "?run = (Inr (''gosidian_abc'', ?tok), snd ?run)" by (simp add: prod_eq_iff)
  have "''gosidian_abc'' \<notin> tk_hash ` set (tokens_of (tok_sync sample_tokens))"
    by (simp add: sample_sync sample_token_def mint_record_def Let_def)
  with created_token_validates [OF run, of 7 SaveFails] show ?thesis by simp
qed

lemma revoked_owner_rejected_witness:
  "tokens_of (snd (RevokeByOwner ''u'' (Saved 5 True) sample_tokens)) = []"
  using revoked_owner_rejected [of "''u''" 5 sample_tokens, OF prod.collapse [symmetric]]
  by (simp add: sample_sync sample_token_def mint_record_def Let_def)

lemma run_token_confined_witness:
  "\<not> IsAdmin (mint_record (\<lambda>pt. pt) ''gosidian_abc'' ''n'' [''z''] [ScopeRead] 8 [] 5
       \<lparr>tk_kind := KindRun, tk_profile := ToolProfileCore, tk_run := ''r''\<rparr>)"
proof -
  let ?tok = "mint_record (\<lambda>pt. pt) ''gosidian_abc'' ''n'' [''z''] [ScopeRead] 8 [] 5
       \<lparr>tk_kind := KindRun, tk_profile := ToolProfileCore, tk_run := ''r''\<rparr>"
  let ?run = "CreateRun (\<lambda>pt. pt) ''abc'' ''n'' ''z'' False 8 ''r'' [] 5 (Saved 6 True) sample_tokens"
  have "fst ?run = Inr (''gosidian_abc'', ?tok)"
    by (simp add: CreateRun_def validateCreate_def cleanProjectList_def normalizeProjects_def Let_def trim_ascii
        bad_project_def contains_any_def tokenPrefix_def token_consts mint_def tok_save_def cleanWritePaths_def
        sample_sync mint_record_def split: prod.split)
  then have run: "?run = (Inr (''gosidian_abc'', ?tok), snd ?run)" by (simp add: prod_eq_iff)
  from run_token_confined [OF run, of "''z/a''"] show ?thesis by blast
qed

lemma RenameProject_follows_witness:
  "AllowsProject (tokens_of (snd (RenameProject ''x'' ''z'' (Saved 5 True) sample_tokens)) ! 1) ''z''
   \<and> \<not> AllowsProject (tokens_of (snd (RenameProject ''x'' ''z'' (Saved 5 True) sample_tokens)) ! 1) ''x''"
proof -
  have "tokens_of (tok_sync sample_tokens) ! 1 = sample_token ''h2'' [''x'']"
    and "AllowsProject (sample_token ''h2'' [''x'']) ''x''" and "\<not> IsAdmin (sample_token ''h2'' [''x''])"
    and "1 < length (tokens_of (tok_sync sample_tokens))"
    by (simp_all add: sample_sync AllowsProject_iff sample_projects IsAdmin_def)
  moreover note RenameProject_follows [OF prod.collapse [symmetric] sample_clean, of "''x''" "''z''" 1 5 True "''z''"]
    RenameProject_follows [OF prod.collapse [symmetric] sample_clean, of "''x''" "''z''" 1 5 True "''x''"]
  ultimately show ?thesis by (simp add: trim_ascii)
qed

end
