(* ===== verification/Authz.thy ===== *)
theory Authz
  imports Tokens
begin

text \<open>
  \<open>internal/authz\<close>: the level an account has on a project (\<open>authz.go\<close>), with the
  role's own questions of \<open>internal/webauth/webauth.go\<close>, and the narrowing of a token
  to what its account may do (\<open>token.go\<close>).
\<close>

subsection \<open>Roles\<close>

type_synonym role = string

definition RoleOwner :: role where "RoleOwner = ''owner''"
definition RoleMember :: role where "RoleMember = ''member''"
definition RoleGuest :: role where "RoleGuest = ''guest''"

lemmas role_consts = RoleOwner_def RoleMember_def RoleGuest_def

definition role_valid :: "role \<Rightarrow> bool" where
  "role_valid r = (r = RoleOwner \<or> r = RoleMember \<or> r = RoleGuest)"

definition role_can_admin :: "role \<Rightarrow> bool" where
  "role_can_admin r = (r = RoleOwner)"

definition role_can_write :: "role \<Rightarrow> bool" where
  "role_can_write r = (r = RoleOwner \<or> r = RoleMember)"

subsection \<open>Levels\<close>

datatype level = LevelNone | LevelRead | LevelWrite | LevelAdmin

text \<open>The number \<open>iota\<close> gives a level.\<close>

fun level_ord :: "level \<Rightarrow> nat" where
  "level_ord LevelNone = 0"
| "level_ord LevelRead = 1"
| "level_ord LevelWrite = 2"
| "level_ord LevelAdmin = 3"

instantiation level :: linorder
begin

definition less_eq_level :: "level \<Rightarrow> level \<Rightarrow> bool" where
  "less_eq_level a b = (level_ord a \<le> level_ord b)"

definition less_level :: "level \<Rightarrow> level \<Rightarrow> bool" where
  "less_level a b = (level_ord a < level_ord b)"

instance
proof
  fix x y :: level
  show "x \<le> y \<Longrightarrow> y \<le> x \<Longrightarrow> x = y"
    by (cases x; cases y) (simp_all add: less_eq_level_def)
qed (auto simp: less_eq_level_def less_level_def)

end

lemmas level_order = less_eq_level_def less_level_def

lemma LevelNone_least [simp]: "LevelNone \<le> l"
  by (simp add: less_eq_level_def)

lemma LevelAdmin_greatest [simp]: "l \<le> LevelAdmin"
  by (cases l) (simp_all add: less_eq_level_def)

lemma admin_le_iff [simp]: "LevelAdmin \<le> l \<longleftrightarrow> l = LevelAdmin"
  by (cases l) (simp_all add: less_eq_level_def)

lemma not_less_none [simp]: "\<not> l < LevelNone"
  by (simp add: less_level_def)

lemma le_none_iff [simp]: "l \<le> LevelNone \<longleftrightarrow> l = LevelNone"
  by (cases l) (simp_all add: less_eq_level_def)

lemma read_le_iff: "LevelRead \<le> l \<longleftrightarrow> l \<noteq> LevelNone"
  by (cases l) (simp_all add: less_eq_level_def)

fun level_string :: "level \<Rightarrow> string" where
  "level_string LevelRead = ''read''"
| "level_string LevelWrite = ''write''"
| "level_string LevelAdmin = ''admin''"
| "level_string LevelNone = ''none''"

definition ParseLevel :: "string \<Rightarrow> level" where
  "ParseLevel s =
     (if s = ''read'' then LevelRead else if s = ''write'' then LevelWrite
      else if s = ''admin'' then LevelAdmin else LevelNone)"

lemma ParseLevel_string: "ParseLevel (level_string l) = l"
  by (cases l) (simp_all add: ParseLevel_def)

definition VisibilityPublic :: string where "VisibilityPublic = ''public''"
definition VisibilityInternal :: string where "VisibilityInternal = ''internal''"
definition VisibilityPrivate :: string where "VisibilityPrivate = ''private''"

lemmas visibility_consts = VisibilityPublic_def VisibilityInternal_def VisibilityPrivate_def

subsection \<open>The decision\<close>

record principal =
  UserID :: string
  Role :: role
  Restricted :: bool

record grant_source =
  gs_level :: level
  gs_via :: string

text \<open>The lookups of a request; \<open>None\<close> is a nil function.\<close>

record access_config =
  cfg_visibility :: "(string \<Rightarrow> string) option"
  cfg_grants :: "(string \<Rightarrow> string \<Rightarrow> grant_source list) option"

definition CanWrite :: "principal \<Rightarrow> bool" where
  "CanWrite p = role_can_write (Role p)"

definition CanAdmin :: "principal \<Rightarrow> bool" where
  "CanAdmin p = role_can_admin (Role p)"

definition CanSeeAllProjects :: "principal \<Rightarrow> bool" where
  "CanSeeAllProjects p = (Role p = RoleOwner \<or> Role p = RoleMember)"

text \<open>The loop over the grants: it raises the level and collects the reasons.\<close>

fun add_grants :: "grant_source list \<Rightarrow> level \<times> string list \<Rightarrow> level \<times> string list" where
  "add_grants [] acc = acc"
| "add_grants (g # gs) (lvl, via) =
     (if gs_level g \<le> LevelNone then add_grants gs (lvl, via)
      else add_grants gs (if gs_level g > lvl then gs_level g else lvl, via @ [gs_via g]))"

definition explain :: "principal \<Rightarrow> string \<Rightarrow> access_config \<Rightarrow> level \<times> string list" where
  "explain p project cfg =
     (if Role p = RoleOwner then (LevelAdmin, [''owner''])
      else
        let vis = (case cfg_visibility cfg of None \<Rightarrow> VisibilityPrivate | Some f \<Rightarrow> f project);
            base =
              (if Restricted p then (LevelNone, [])
               else if vis = VisibilityPublic then (LevelRead, [''public''])
               else if vis = VisibilityInternal \<and> Role p = RoleMember then (LevelRead, [''internal''])
               else (LevelNone, []));
            (lvl, via) =
              (case cfg_grants cfg of
                 None \<Rightarrow> base
               | Some grants \<Rightarrow>
                   if (Role p = RoleMember \<or> Role p = RoleGuest) \<and> UserID p \<noteq> []
                   then add_grants (grants (UserID p) project) base
                   else base)
        in (if Role p = RoleGuest \<and> lvl > LevelRead then LevelRead else lvl, via))"

definition level_of :: "principal \<Rightarrow> string \<Rightarrow> access_config \<Rightarrow> level" where
  "level_of p project cfg = fst (explain p project cfg)"

definition CanAccessProject :: "principal \<Rightarrow> string \<Rightarrow> access_config \<Rightarrow> bool" where
  "CanAccessProject p project cfg = (level_of p project cfg \<ge> LevelRead)"

definition CanWriteProject :: "principal \<Rightarrow> string \<Rightarrow> access_config \<Rightarrow> bool" where
  "CanWriteProject p project cfg = (level_of p project cfg \<ge> LevelWrite)"

definition CanAdminProject :: "principal \<Rightarrow> string \<Rightarrow> access_config \<Rightarrow> bool" where
  "CanAdminProject p project cfg = (level_of p project cfg \<ge> LevelAdmin)"

subsection \<open>What the decision promises\<close>

text \<open>
  The abstract rule: the highest of what the visibility gives and of the grants, capped
  by what the role can have.
\<close>

definition role_ceiling :: "role \<Rightarrow> level" where
  "role_ceiling r = (if r = RoleOwner \<or> r = RoleMember then LevelAdmin else LevelRead)"

definition visibility_level :: "principal \<Rightarrow> string \<Rightarrow> level" where
  "visibility_level p vis =
     (if Restricted p then LevelNone
      else if vis = VisibilityPublic then LevelRead
      else if vis = VisibilityInternal \<and> Role p = RoleMember then LevelRead
      else LevelNone)"

definition config_visibility :: "access_config \<Rightarrow> string \<Rightarrow> string" where
  "config_visibility cfg project = (case cfg_visibility cfg of None \<Rightarrow> VisibilityPrivate | Some f \<Rightarrow> f project)"

definition config_grants :: "principal \<Rightarrow> access_config \<Rightarrow> string \<Rightarrow> grant_source list" where
  "config_grants p cfg project =
     (case cfg_grants cfg of
        None \<Rightarrow> []
      | Some g \<Rightarrow> if (Role p = RoleMember \<or> Role p = RoleGuest) \<and> UserID p \<noteq> [] then g (UserID p) project else [])"

definition spec_level :: "principal \<Rightarrow> string \<Rightarrow> access_config \<Rightarrow> level" where
  "spec_level p project cfg =
     (if Role p = RoleOwner then LevelAdmin
      else min (role_ceiling (Role p))
             (foldr max (map gs_level (config_grants p cfg project)) (visibility_level p (config_visibility cfg project))))"

lemma add_grants_level:
  "fst (add_grants gs (l, via)) = foldr max (map gs_level gs) l"
proof (induction gs arbitrary: l via)
  case Nil
  then show ?case by simp
next
  case (Cons g gs)
  have fold_max: "foldr max xs (max a b) = max a (foldr max xs b)" for xs :: "level list" and a b
    by (induction xs) (auto simp: max.left_commute)
  have m: "(if l < gs_level g then gs_level g else l) = max (gs_level g) l"
    by (auto simp: max_def)
  show ?case
    using Cons.IH fold_max [of "map gs_level gs" "gs_level g" l]
    by (cases "gs_level g = LevelNone") (auto simp: m)
qed

lemma add_grants_via:
  "snd (add_grants gs (l, via)) = via @ map gs_via (filter (\<lambda>g. gs_level g \<noteq> LevelNone) gs)"
  by (induction gs arbitrary: l via) auto

lemma fold_max_none_iff:
  "foldr max xs (l :: level) = LevelNone \<longleftrightarrow> l = LevelNone \<and> (\<forall>x\<in>set xs. x = LevelNone)"
  by (induction xs) (auto simp: max_def)

lemma foldr_max_mono_init: "(a::level) \<le> b \<Longrightarrow> foldr max xs a \<le> foldr max xs b"
  by (induction xs) (auto simp: max.coboundedI2)

lemma add_grants_eq:
  "add_grants gs (l, via) =
     (foldr max (map gs_level gs) l, via @ map gs_via (filter (\<lambda>g. gs_level g \<noteq> LevelNone) gs))"
  by (rule prod_eqI) (simp_all add: add_grants_level add_grants_via)

text \<open>The reason the visibility gives, and the decision over the spec's ingredients.\<close>

definition visibility_via :: "principal \<Rightarrow> string \<Rightarrow> string list" where
  "visibility_via p vis =
     (if Restricted p then []
      else if vis = VisibilityPublic then [''public'']
      else if vis = VisibilityInternal \<and> Role p = RoleMember then [''internal'']
      else [])"

lemma visibility_via_iff: "visibility_via p vis = [] \<longleftrightarrow> visibility_level p vis = LevelNone"
  by (simp add: visibility_via_def visibility_level_def)

lemma explain_base:
  "(if Restricted p then (LevelNone, [])
    else if vis = VisibilityPublic then (LevelRead, [''public''])
    else if vis = VisibilityInternal \<and> Role p = RoleMember then (LevelRead, [''internal''])
    else (LevelNone, [])) = (visibility_level p vis, visibility_via p vis)"
  by (simp add: visibility_level_def visibility_via_def)

lemma explain_eq:
  assumes "Role p \<noteq> RoleOwner"
  shows "explain p project cfg =
      (let gs = config_grants p cfg project; vis = config_visibility cfg project;
           l = foldr max (map gs_level gs) (visibility_level p vis)
       in (if Role p = RoleGuest \<and> l > LevelRead then LevelRead else l,
           visibility_via p vis @ map gs_via (filter (\<lambda>g. gs_level g \<noteq> LevelNone) gs)))"
  using assms
  by (auto simp: explain_def explain_base config_grants_def add_grants_eq Let_def
      config_visibility_def [symmetric] split: option.splits)

lemma visibility_level_le: "visibility_level p vis \<le> LevelRead"
  by (simp add: visibility_level_def)

lemma unknown_role_no_grants: "\<not> role_valid (Role p) \<Longrightarrow> config_grants p cfg project = []"
  by (auto simp: config_grants_def role_valid_def split: option.splits)

lemma level_of_spec: "level_of p project cfg = spec_level p project cfg"
proof (cases "Role p = RoleOwner")
  case True
  then show ?thesis by (simp add: level_of_def explain_def spec_level_def)
next
  case False
  let ?l = "foldr max (map gs_level (config_grants p cfg project))
              (visibility_level p (config_visibility cfg project))"
  have lv: "level_of p project cfg = (if Role p = RoleGuest \<and> ?l > LevelRead then LevelRead else ?l)"
    by (simp add: level_of_def explain_eq [OF False] Let_def)
  show ?thesis
  proof (cases "role_valid (Role p)")
    case True
    with False lv show ?thesis
      by (auto simp: spec_level_def role_ceiling_def role_valid_def role_consts min_def)
  next
    case unknown: False
    then have "?l \<le> LevelRead"
      by (simp add: unknown_role_no_grants visibility_level_le)
    with False unknown lv show ?thesis
      by (auto simp: spec_level_def role_ceiling_def role_valid_def min_def)
  qed
qed


subsection \<open>The contract of an access configuration\<close>

text \<open>
  What the projects store promises the decision: with a store in a good state both
  lookups are there, a visibility is one of the three values, and a grant it reports has
  a level. The surfaces (REST, SSE, MCP) all build their configuration this way.
\<close>

locale access_provider =
  fixes config :: "'s \<Rightarrow> access_config"
    and ok :: "'s \<Rightarrow> bool"
  assumes visibility_known: "ok s \<Longrightarrow> config_visibility (config s) q \<in> {VisibilityPublic, VisibilityInternal, VisibilityPrivate}"
    and grants_real: "ok s \<Longrightarrow> g \<in> set (config_grants p (config s) q) \<Longrightarrow> gs_level g \<noteq> LevelNone"
begin

lemma fold_grants_none_iff:
  assumes "ok s"
  shows "foldr max (map gs_level (config_grants p (config s) q)) l = LevelNone
           \<longleftrightarrow> l = LevelNone \<and> config_grants p (config s) q = []"
  using grants_real [OF assms, of _ p q]
  by (auto simp: fold_max_none_iff)

lemma access_iff:
  assumes "ok s" and "Role p \<noteq> RoleOwner"
  shows "CanAccessProject p q (config s) \<longleftrightarrow>
           config_grants p (config s) q \<noteq> [] \<or>
           \<not> Restricted p \<and> (config_visibility (config s) q = VisibilityPublic \<or>
             config_visibility (config s) q = VisibilityInternal \<and> Role p = RoleMember)"
proof -
  let ?l = "foldr max (map gs_level (config_grants p (config s) q)) (visibility_level p (config_visibility (config s) q))"
  have ceil: "role_ceiling (Role p) \<noteq> LevelNone" by (simp add: role_ceiling_def)
  have "CanAccessProject p q (config s) \<longleftrightarrow> ?l \<noteq> LevelNone"
    using assms(2) ceil
    by (auto simp: CanAccessProject_def level_of_spec spec_level_def read_le_iff min_def)
  also have "\<dots> \<longleftrightarrow> config_grants p (config s) q \<noteq> [] \<or> visibility_level p (config_visibility (config s) q) \<noteq> LevelNone"
    by (auto simp: fold_grants_none_iff [OF assms(1)])
  also have "visibility_level p (config_visibility (config s) q) \<noteq> LevelNone \<longleftrightarrow>
      \<not> Restricted p \<and> (config_visibility (config s) q = VisibilityPublic \<or>
        config_visibility (config s) q = VisibilityInternal \<and> Role p = RoleMember)"
    by (simp add: visibility_level_def)
  finally show ?thesis .
qed

lemma private_needs_grant:
  assumes "ok s" and "Role p \<noteq> RoleOwner" and "config_visibility (config s) q = VisibilityPrivate"
  shows "CanAccessProject p q (config s) \<longleftrightarrow> config_grants p (config s) q \<noteq> []"
  using access_iff [OF assms(1,2), of q] assms(3) by (auto simp: visibility_consts)

lemma reasons_iff_access:
  assumes "ok s"
  shows "snd (explain p q (config s)) \<noteq> [] \<longleftrightarrow> CanAccessProject p q (config s)"
proof (cases "Role p = RoleOwner")
  case True
  then show ?thesis
    by (simp add: explain_def CanAccessProject_def level_of_def)
next
  case False
  have "filter (\<lambda>g. gs_level g \<noteq> LevelNone) (config_grants p (config s) q) = config_grants p (config s) q"
    using grants_real [OF assms] by (simp add: filter_id_conv)
  then show ?thesis
    using access_iff [OF assms False, of q]
    by (auto simp: explain_eq [OF False] Let_def visibility_via_def)
qed

end

text \<open>Writing never comes from the visibility: it takes a grant, and a role that may write.\<close>

lemma write_level_iff:
  assumes "Role p \<noteq> RoleOwner"
  shows "CanWriteProject p q cfg \<longleftrightarrow>
           Role p = RoleMember \<and> (\<exists>g\<in>set (config_grants p cfg q). gs_level g \<ge> LevelWrite)"
proof -
  have fold: "LevelWrite \<le> foldr max xs l \<longleftrightarrow> LevelWrite \<le> l \<or> (\<exists>x\<in>set xs. LevelWrite \<le> x)"
    for xs and l :: level
    by (induction xs) (auto simp: le_max_iff_disj)
  have vis: "\<not> LevelWrite \<le> visibility_level p v" for v
    by (simp add: visibility_level_def less_eq_level_def)
  have "\<not> LevelWrite \<le> LevelRead" by (simp add: less_eq_level_def)
  moreover have "\<not> role_valid (Role p) \<Longrightarrow> config_grants p cfg q = []" by (rule unknown_role_no_grants)
  ultimately show ?thesis
    using assms vis
    by (auto simp: CanWriteProject_def level_of_spec spec_level_def fold role_ceiling_def
        role_valid_def)
qed

subsection \<open>Narrowing a token to its account\<close>

datatype narrow_error = ErrNoAccess | ProjectsFailed string

definition withoutScope :: "string list \<Rightarrow> string \<Rightarrow> string list" where
  "withoutScope scopes dropped = filter (\<lambda>sc. sc \<noteq> dropped) scopes"

definition NarrowToken ::
  "runtime_token \<Rightarrow> principal \<Rightarrow> access_config \<Rightarrow> string + string list \<Rightarrow> narrow_error + runtime_token" where
  "NarrowToken tok p cfg projects =
     (if Role p = RoleOwner then Inr tok
      else
        case (if ProjectList tok = [] then projects else Inr (ProjectList tok)) of
          Inl e \<Rightarrow> Inl (ProjectsFailed e)
        | Inr candidates \<Rightarrow>
            let readable = filter (\<lambda>name. CanAccessProject p name cfg) candidates;
                writable = remdups (filter (\<lambda>name. CanWriteProject p name cfg) readable);
                eff = tok\<lparr>tk_project := [], tk_projects := readable\<rparr>
            in if readable = [] then Inl ErrNoAccess
               else if writable = [] then Inr (eff\<lparr>tk_scopes := withoutScope (tk_scopes tok) ScopeWrite\<rparr>)
               else if length writable < length readable
                    then Inr (WithWriteFilter eff (\<lambda>project. List.member writable project))
               else Inr eff)"


text \<open>The projects a token is narrowed from: its own, or every project when it has none.\<close>

definition candidates_of :: "runtime_token \<Rightarrow> string + string list \<Rightarrow> string list" where
  "candidates_of tok projects =
     (if ProjectList tok \<noteq> [] then ProjectList tok
      else case projects of Inl _ \<Rightarrow> [] | Inr names \<Rightarrow> names)"

lemma write_implies_access: "CanWriteProject p q cfg \<Longrightarrow> CanAccessProject p q cfg"
  by (auto simp: CanWriteProject_def CanAccessProject_def less_eq_level_def)

lemma remdups_filter_full:
  assumes "\<not> length (remdups (filter P xs)) < length xs" and "x \<in> set xs"
  shows "P x"
proof -
  have "length (remdups (filter P xs)) \<le> length (filter P xs)" by (rule length_remdups_leq)
  with assms(1) length_filter_le [of P xs] have "length (filter P xs) = length xs"
    by linarith
  with assms(2) show ?thesis by (simp add: filter_length_eq filter_id_conv)
qed

text \<open>
  A narrowed token: it reads exactly the candidates its account reads, writes exactly
  those its account writes (if it had the write scope), and is never an admin token.
\<close>

lemma NarrowToken_cases:
  assumes "NarrowToken tok p cfg projects = Inr t" and "Role p \<noteq> RoleOwner"
  shows "\<exists>readable. readable = filter (\<lambda>q. CanAccessProject p q cfg) (candidates_of tok projects) \<and>
     readable \<noteq> [] \<and> ProjectList t = readable \<and> tk_write_paths t = tk_write_paths tok \<and>
     (let writable = filter (\<lambda>q. CanWriteProject p q cfg) readable in
       writable = [] \<and> \<not> HasScope t ScopeWrite
       \<or> writable \<noteq> [] \<and> tk_scopes t = tk_scopes tok
          \<and> (tk_write_filter t = Some (\<lambda>q. q \<in> set writable)
             \<or> tk_write_filter t = tk_write_filter tok \<and> (\<forall>q\<in>set readable. CanWriteProject p q cfg)))"
proof -
  let ?cands = "candidates_of tok projects"
  let ?readable = "filter (\<lambda>q. CanAccessProject p q cfg) ?cands"
  let ?writable = "filter (\<lambda>q. CanWriteProject p q cfg) ?readable"
  let ?eff = "tok\<lparr>tk_project := [], tk_projects := ?readable\<rparr>"
  have run: "NarrowToken tok p cfg projects = Inr t \<Longrightarrow>
     ?readable \<noteq> [] \<and>
     t = (if ?writable = [] then ?eff\<lparr>tk_scopes := withoutScope (tk_scopes tok) ScopeWrite\<rparr>
          else if length (remdups ?writable) < length ?readable
               then WithWriteFilter ?eff (\<lambda>q. List.member (remdups ?writable) q)
          else ?eff)"
    using assms(2)
    by (cases "ProjectList tok = []"; cases projects)
      (simp_all add: NarrowToken_def candidates_of_def Let_def split: if_splits)
  from run [OF assms(1)] have ne: "?readable \<noteq> []"
    and t: "t = (if ?writable = [] then ?eff\<lparr>tk_scopes := withoutScope (tk_scopes tok) ScopeWrite\<rparr>
          else if length (remdups ?writable) < length ?readable
               then WithWriteFilter ?eff (\<lambda>q. List.member (remdups ?writable) q)
          else ?eff)" by blast+
  have pl: "ProjectList t = ?readable" and wp: "tk_write_paths t = tk_write_paths tok"
    using ne by (simp_all add: t ProjectList_def WithWriteFilter_def)
  consider (none) "?writable = []" | (some) "?writable \<noteq> []" "length (remdups ?writable) < length ?readable"
    | (all) "?writable \<noteq> []" "\<not> length (remdups ?writable) < length ?readable" by blast
  then have "?writable = [] \<and> \<not> HasScope t ScopeWrite
       \<or> ?writable \<noteq> [] \<and> tk_scopes t = tk_scopes tok
          \<and> (tk_write_filter t = Some (\<lambda>q. q \<in> set ?writable)
             \<or> tk_write_filter t = tk_write_filter tok \<and> (\<forall>q\<in>set ?readable. CanWriteProject p q cfg))"
  proof cases
    case none
    then show ?thesis by (simp add: t HasScope_iff withoutScope_def)
  next
    case some
    then show ?thesis by (simp add: t WithWriteFilter_def fun_eq_iff)
  next
    case all
    from remdups_filter_full [OF all(2)] have "\<forall>q\<in>set ?readable. CanWriteProject p q cfg" by blast
    with all show ?thesis by (simp add: t)
  qed
  with ne pl wp show ?thesis by (simp add: Let_def)
qed

lemma InWritePaths_cong: "tk_write_paths t = tk_write_paths t' \<Longrightarrow> InWritePaths t q = InWritePaths t' q"
  by (simp add: InWritePaths_def)

lemma narrow_exact:
  assumes narrow: "NarrowToken tok p cfg projects = Inr t" and role: "Role p \<noteq> RoleOwner"
    and slash: "\<forall>q\<in>set (candidates_of tok projects). CHR ''/'' \<notin> set q"
    and nofilter: "tk_write_filter tok = None"
  shows "\<not> IsAdmin t"
    and "AllowsPath t path \<longleftrightarrow>
           ProjectOf path \<in> set (candidates_of tok projects) \<and> CanAccessProject p (ProjectOf path) cfg"
    and "AllowsWrite t path \<longleftrightarrow>
           HasScope tok ScopeWrite \<and> InWritePaths tok path \<and>
           ProjectOf path \<in> set (candidates_of tok projects) \<and> CanWriteProject p (ProjectOf path) cfg"
proof -
  let ?readable = "filter (\<lambda>q. CanAccessProject p q cfg) (candidates_of tok projects)"
  let ?writable = "filter (\<lambda>q. CanWriteProject p q cfg) ?readable"
  from NarrowToken_cases [OF narrow role]
  have rd: "?readable \<noteq> []" "ProjectList t = ?readable" "tk_write_paths t = tk_write_paths tok"
    and wr: "?writable = [] \<and> \<not> HasScope t ScopeWrite
       \<or> ?writable \<noteq> [] \<and> tk_scopes t = tk_scopes tok
          \<and> (tk_write_filter t = Some (\<lambda>q. q \<in> set ?writable)
             \<or> tk_write_filter t = tk_write_filter tok \<and> (\<forall>q\<in>set ?readable. CanWriteProject p q cfg))"
    by (auto simp: Let_def)
  show "\<not> IsAdmin t" using rd by (simp add: IsAdmin_def)
  have "\<forall>q\<in>set (ProjectList t). CHR ''/'' \<notin> set q" using slash rd by auto
  from AllowsPath_ProjectOf [OF this] rd
  show path: "AllowsPath t path \<longleftrightarrow>
           ProjectOf path \<in> set (candidates_of tok projects) \<and> CanAccessProject p (ProjectOf path) cfg"
    for path by auto
  from wr show "AllowsWrite t path \<longleftrightarrow>
           HasScope tok ScopeWrite \<and> InWritePaths tok path \<and>
           ProjectOf path \<in> set (candidates_of tok projects) \<and> CanWriteProject p (ProjectOf path) cfg"
  proof (elim disjE conjE)
    assume "?writable = []" and "\<not> HasScope t ScopeWrite"
    then show ?thesis
      by (auto simp: AllowsWrite_iff filter_empty_conv dest: write_implies_access)
  next
    assume "tk_scopes t = tk_scopes tok" and "tk_write_filter t = Some (\<lambda>q. q \<in> set ?writable)"
    then show ?thesis
      using InWritePaths_cong [OF rd(3)]
      by (auto simp: AllowsWrite_iff path HasScope_iff dest: write_implies_access)
  next
    assume "tk_scopes t = tk_scopes tok" and "tk_write_filter t = tk_write_filter tok"
      and "\<forall>q\<in>set ?readable. CanWriteProject p q cfg"
    then show ?thesis
      using InWritePaths_cong [OF rd(3)] nofilter
      by (auto simp: AllowsWrite_iff path HasScope_iff dest: write_implies_access)
  qed
qed

subsection \<open>The decision and the narrowing, as properties\<close>

text \<open>C1: The level an account has on a project is the highest of what the visibility gives it and of
  its grants, capped by what its role can have: the owner administers everything, a guest
  at most reads, a role that is not one of the three gets no grant, and a restricted
  account gets nothing from the visibility.\<close>

theorem level_is_capped_maximum: "level_of p project cfg = spec_level p project cfg"
  by (rule level_of_spec)

text \<open>C3: An owner's token comes back as it is. For another account, a token whose project names hold no slash and that
  has no write filter of its own is narrowed to one that is never an administrator's, reads exactly the projects the token
  covers and the account reads, and writes exactly what the token could write in the projects it covers and the account
  writes; it is refused only when the account reads none of them, or the projects cannot be listed.\<close>

theorem NarrowToken_exact:
  assumes "list_all (\<lambda>q. CHR ''/'' \<notin> set q) (candidates_of tok projects)" and "tk_write_filter tok = None"
  shows "if Role p = RoleOwner then NarrowToken tok p cfg projects = Inr tok
    else case NarrowToken tok p cfg projects of
      Inl ErrNoAccess \<Rightarrow> \<not> list_ex (\<lambda>q. CanAccessProject p q cfg) (candidates_of tok projects)
    | Inl (ProjectsFailed e) \<Rightarrow> ProjectList tok = [] \<and> projects = Inl e
    | Inr t \<Rightarrow> \<not> IsAdmin t
        \<and> (AllowsPath t path \<longleftrightarrow>
             ProjectOf path \<in> set (candidates_of tok projects) \<and> CanAccessProject p (ProjectOf path) cfg)
        \<and> (AllowsWrite t path \<longleftrightarrow>
             HasScope tok ScopeWrite \<and> InWritePaths tok path \<and>
             ProjectOf path \<in> set (candidates_of tok projects) \<and> CanWriteProject p (ProjectOf path) cfg)"
proof (cases "Role p = RoleOwner")
  case True
  then show ?thesis by (simp add: NarrowToken_def)
next
  case False
  have slash: "\<forall>q\<in>set (candidates_of tok projects). CHR ''/'' \<notin> set q" using assms(1) by (simp add: list_all_iff)
  show ?thesis
  proof (cases "NarrowToken tok p cfg projects")
    case (Inl e)
    with False show ?thesis
      by (cases e; cases projects) (auto simp: NarrowToken_def candidates_of_def Let_def list_ex_iff filter_empty_conv split: if_splits)
  next
    case (Inr t)
    with False narrow_exact [OF Inr False slash assms(2)] show ?thesis by simp
  qed
qed

text \<open>A member that reads \<open>x\<close> and writes \<open>y\<close>.\<close>

definition sample_config :: access_config where
  "sample_config =
     \<lparr>cfg_visibility = None,
      cfg_grants = Some (\<lambda>u q. if q = ''x'' then [\<lparr>gs_level = LevelRead, gs_via = ''r''\<rparr>]
                             else if q = ''y'' then [\<lparr>gs_level = LevelWrite, gs_via = ''w''\<rparr>] else [])\<rparr>"

lemma NarrowToken_exact_witness:
  "\<not> IsAdmin (projr (NarrowToken AdminToken \<lparr>UserID = ''u'', Role = RoleMember, Restricted = False\<rparr>
      sample_config (Inr [''x'', ''y'', ''z''])))"
proof -
  let ?p = "\<lparr>UserID = ''u'', Role = RoleMember, Restricted = False\<rparr>"
  let ?run = "NarrowToken AdminToken ?p sample_config (Inr [''x'', ''y'', ''z''])"
  have "CanAccessProject ?p ''x'' sample_config"
    by (simp add: CanAccessProject_def level_of_def explain_def sample_config_def role_consts visibility_consts level_order)
  then have "\<exists>t. ?run = Inr t"
    by (auto simp: NarrowToken_def AdminToken_def ProjectList_def role_consts Let_def)
  then have run: "?run = Inr (projr ?run)" by auto
  have cands: "candidates_of AdminToken (Inr [''x'', ''y'', ''z'']) = [''x'', ''y'', ''z'']"
    by (simp add: candidates_of_def AdminToken_def ProjectList_def)
  have "list_all (\<lambda>q. CHR ''/'' \<notin> set q) (candidates_of AdminToken (Inr [''x'', ''y'', ''z'']))"
    "tk_write_filter AdminToken = None"
    by (simp_all add: cands) (simp add: AdminToken_def)
  from NarrowToken_exact [OF this, of ?p sample_config "''x/a''"] show ?thesis
    by (subst (asm) run) (simp add: role_consts)
qed

end
