(* ===== verification/Projects.thy ===== *)
theory Projects
  imports Authz JsonStore
begin

text \<open>
  \<open>internal/projects/store.go\<close>: the per-project settings, the visibility and the
  member grants, in one JSON file. Every operation maps the pair of the store and its
  file to its result and the new pair.
\<close>

subsection \<open>The state\<close>

definition ValidVisibility :: "string \<Rightarrow> bool" where
  "ValidVisibility s = (s = VisibilityPublic \<or> s = VisibilityInternal \<or> s = VisibilityPrivate)"

record flags =
  SkipGitSync :: bool
  HiddenFromMCP :: bool
  Visibility :: string
  Public :: bool
  UseGlobals :: bool
  UseAnchors :: bool
  UseTagVocabulary :: bool
  LeanReadBootstrap :: bool
  AllowLocalMirror :: bool
  UsePipelines :: bool
  UseIN :: bool
  TrackINInGit :: bool
  PipelineTags :: bool
  Since :: int

definition no_flags :: flags where
  "no_flags = \<lparr>SkipGitSync = False, HiddenFromMCP = False, Visibility = [], Public = False,
     UseGlobals = False, UseAnchors = False, UseTagVocabulary = False, LeanReadBootstrap = False,
     AllowLocalMirror = False, UsePipelines = False, UseIN = False, TrackINInGit = False,
     PipelineTags = False, Since = 0\<rparr>"

definition GrantRead :: string where "GrantRead = ''read''"
definition GrantWrite :: string where "GrantWrite = ''write''"
definition GrantAdmin :: string where "GrantAdmin = ''admin''"

lemmas grant_consts = GrantRead_def GrantWrite_def GrantAdmin_def

definition ValidLevel :: "string \<Rightarrow> bool" where
  "ValidLevel s = (s = GrantRead \<or> s = GrantWrite \<or> s = GrantAdmin)"

record member =
  pm_user :: string
  pm_level :: string

record team =
  tm_id :: string
  tm_name :: string
  tm_description :: string
  tm_users :: "string list"
  tm_grants :: "(string, string) fmap"
  tm_created :: time

text \<open>What the file holds (\<open>storeFile\<close>), and what memory adds to it (\<open>Store\<close>).\<close>

record proj_file =
  ps_data :: "(string, flags) fmap"
  ps_members :: "(string, member list) fmap"
  ps_teams :: "(string, team) fmap"
  ps_member_scope :: string
  ps_default_visibility :: string
  ps_personal_off :: bool
  ps_access_model :: nat

record proj_store = proj_file +
  ps_mtime :: time
  ps_reserved :: "string list"
  ps_checked :: time

type_synonym proj_sys = "proj_store \<times> proj_file json_file"

datatype proj_error =
    InvalidName
  | InvalidVisibility string
  | InvalidMember string string
  | InvalidLevel string
  | UserRequired
  | TeamNotFound
  | TeamNameRequired
  | TeamNameTooLong
  | TeamNameBadChar
  | TeamNameTaken string
  | NoFreeTeamId
  | ProjSaveFailed

definition accessModelVersion :: nat where "accessModelVersion = 2"
definition MemberScopeMembers :: string where "MemberScopeMembers = ''members''"
definition staleCheckEvery :: duration where "staleCheckEvery = second"

subsection \<open>The file\<close>

definition empty_file :: proj_file where
  "empty_file = \<lparr>ps_data = fmempty, ps_members = fmempty, ps_teams = fmempty, ps_member_scope = [],
     ps_default_visibility = [], ps_personal_off = False, ps_access_model = 0\<rparr>"

definition proj_content :: "proj_store \<Rightarrow> proj_file" where
  "proj_content s =
     \<lparr>ps_data = ps_data s, ps_members = ps_members s, ps_teams = ps_teams s,
      ps_member_scope = ps_member_scope s, ps_default_visibility = ps_default_visibility s,
      ps_personal_off = ps_personal_off s, ps_access_model = ps_access_model s\<rparr>"

definition proj_install :: "proj_file \<Rightarrow> proj_store \<Rightarrow> proj_store" where
  "proj_install c s =
     s\<lparr>ps_data := ps_data c, ps_members := ps_members c, ps_teams := ps_teams c,
       ps_member_scope := ps_member_scope c, ps_default_visibility := ps_default_visibility c,
       ps_personal_off := ps_personal_off c, ps_access_model := ps_access_model c\<rparr>"

definition proj_reset :: "proj_store \<Rightarrow> proj_store" where
  "proj_reset s = (proj_install empty_file s)\<lparr>ps_mtime := 0\<rparr>"

definition proj_load :: "proj_file json_file \<Rightarrow> proj_store \<Rightarrow> proj_store" where
  "proj_load f s =
     (case f of
        Absent \<Rightarrow> proj_reset s
      | StatError \<Rightarrow> s
      | Present t None \<Rightarrow> s
      | Present t (Some c) \<Rightarrow> (proj_install c s)\<lparr>ps_mtime := t\<rparr>)"

definition proj_reload :: "proj_file json_file \<Rightarrow> proj_store \<Rightarrow> proj_store" where
  "proj_reload f s =
     (case f of
        Absent \<Rightarrow>
          if ps_mtime s \<noteq> 0 \<or> ps_data s \<noteq> fmempty \<or> ps_members s \<noteq> fmempty \<or> ps_teams s \<noteq> fmempty
             \<or> ps_member_scope s \<noteq> [] \<or> ps_default_visibility s \<noteq> [] \<or> ps_access_model s \<noteq> 0
          then proj_reset s else s
      | StatError \<Rightarrow> s
      | Present t c \<Rightarrow> if t = ps_mtime s then s else proj_load f s)"

text \<open>\<open>Open\<close>: a zero store, then \<open>load\<close>.\<close>

definition proj_open :: "proj_file json_file \<Rightarrow> proj_sys" where
  "proj_open f =
     (proj_load f \<lparr>ps_data = fmempty, ps_members = fmempty, ps_teams = fmempty, ps_member_scope = [],
        ps_default_visibility = [], ps_personal_off = False, ps_access_model = 0,
        ps_mtime = 0, ps_reserved = [], ps_checked = 0\<rparr>, f)"

text \<open>The access lookups check the file at most once per \<open>staleCheckEvery\<close>.\<close>

definition proj_reload_for_read :: "time \<Rightarrow> proj_sys \<Rightarrow> proj_sys" where
  "proj_reload_for_read now sys =
     (case sys of (s, f) \<Rightarrow>
        if now - ps_checked s < staleCheckEvery then (s, f)
        else (proj_reload f (s\<lparr>ps_checked := now\<rparr>), f))"

definition proj_save :: "save_outcome \<Rightarrow> proj_sys \<Rightarrow> bool \<times> proj_sys" where
  "proj_save out sys =
     (case sys of (s, f) \<Rightarrow>
        (case out of
           SaveFails \<Rightarrow> (False, (s, f))
         | Saved t stat_ok \<Rightarrow>
             (True, (if stat_ok then s\<lparr>ps_mtime := t\<rparr> else s, Present t (Some (proj_content s))))))"

definition proj_sync :: "proj_sys \<Rightarrow> proj_sys" where
  "proj_sync sys = (case sys of (s, f) \<Rightarrow> (proj_reload f s, f))"

definition proj_save_err :: "save_outcome \<Rightarrow> proj_sys \<Rightarrow> (proj_error + unit) \<times> proj_sys" where
  "proj_save_err out sys =
     (case proj_save out sys of (ok, sys') \<Rightarrow> (if ok then Inr () else Inl ProjSaveFailed, sys'))"

text \<open>Change memory, then \<open>return s.save()\<close>.\<close>

definition proj_update :: "(proj_store \<Rightarrow> proj_store) \<Rightarrow> save_outcome \<Rightarrow> proj_sys \<Rightarrow> (proj_error + unit) \<times> proj_sys" where
  "proj_update f out sys = proj_save_err out (f (fst sys), snd sys)"

lemmas proj_file_defs = proj_content_def proj_install_def proj_reset_def proj_load_def proj_reload_def
  proj_save_def empty_file_def

interpretation projfile: json_store proj_content ps_mtime empty_file proj_reload proj_save
  by unfold_locales (auto simp: proj_file_defs split: json_file.splits option.splits)

subsection \<open>Flags\<close>

definition bad_name :: "string \<Rightarrow> bool" where
  "bad_name name = (name = [] \<or> contains_any name [CHR ''/'', CHR 0x5C])"

definition put_flags :: "string \<Rightarrow> flags \<Rightarrow> proj_store \<Rightarrow> proj_store" where
  "put_flags name f s =
     s\<lparr>ps_data := (if f = no_flags then fmdrop name (ps_data s) else fmupd name f (ps_data s))\<rparr>"

definition Get :: "string \<Rightarrow> proj_sys \<Rightarrow> flags \<times> proj_sys" where
  "Get name sys = (let sys = proj_sync sys in (fm_get no_flags (ps_data (fst sys)) name, sys))"

definition Set_flags :: "string \<Rightarrow> flags \<Rightarrow> save_outcome \<Rightarrow> proj_sys \<Rightarrow> (proj_error + unit) \<times> proj_sys" where
  "Set_flags name f out sys =
     (if bad_name name then (Inl InvalidName, sys)
      else if Visibility f \<noteq> [] \<and> \<not> ValidVisibility (Visibility f)
           then (Inl (InvalidVisibility (Visibility f)), sys)
      else proj_update (put_flags name f) out (proj_sync sys))"

definition drop_grants :: "string \<Rightarrow> team \<Rightarrow> team" where
  "drop_grants name t = t\<lparr>tm_grants := fmdrop name (tm_grants t)\<rparr>"

definition delete_mem :: "string \<Rightarrow> proj_store \<Rightarrow> proj_store" where
  "delete_mem name s =
     s\<lparr>ps_data := fmdrop name (ps_data s), ps_members := fmdrop name (ps_members s),
       ps_teams := fmmap (drop_grants name) (ps_teams s)\<rparr>"

definition Delete :: "string \<Rightarrow> save_outcome \<Rightarrow> proj_sys \<Rightarrow> (proj_error + unit) \<times> proj_sys" where
  "Delete name out sys =
     (let sys = proj_sync sys; s = fst sys;
          changed = fmlookup (ps_data s) name \<noteq> None \<or> fmlookup (ps_members s) name \<noteq> None
                    \<or> (\<exists>id |\<in>| fmdom (ps_teams s).
                          case fmlookup (ps_teams s) id of None \<Rightarrow> False | Some t \<Rightarrow> fmlookup (tm_grants t) name \<noteq> None)
      in if \<not> changed then (Inr (), sys) else proj_update (delete_mem name) out sys)"

text \<open>
  \<open>Rename\<close> moves the entry and the grants, and puts the maps back when the save
  fails. The last write of \<open>Since\<close> also creates the entry of a project without one.
\<close>

definition rename_grants :: "string \<Rightarrow> string \<Rightarrow> team \<Rightarrow> team" where
  "rename_grants old new t =
     (case fmlookup (tm_grants t) old of
        None \<Rightarrow> t\<lparr>tm_grants := fmdrop new (tm_grants t)\<rparr>
      | Some lvl \<Rightarrow> t\<lparr>tm_grants := fmupd new lvl (fmdrop old (fmdrop new (tm_grants t)))\<rparr>)"

definition rename_entry :: "string \<Rightarrow> string \<Rightarrow> (string, 'v) fmap \<Rightarrow> (string, 'v) fmap" where
  "rename_entry old new m =
     (case fmlookup m old of
        None \<Rightarrow> fmdrop new m
      | Some v \<Rightarrow> fmupd new v (fmdrop old (fmdrop new m)))"

definition rename_mem :: "string \<Rightarrow> string \<Rightarrow> time \<Rightarrow> proj_store \<Rightarrow> proj_store" where
  "rename_mem old new now s =
     (let data = rename_entry old new (ps_data s) in
      s\<lparr>ps_data := fmupd new ((fm_get no_flags data new)\<lparr>Since := now\<rparr>) data,
        ps_members := rename_entry old new (ps_members s),
        ps_teams := fmmap (rename_grants old new) (ps_teams s)\<rparr>)"

definition restore_team :: "(string, team) fmap \<Rightarrow> string \<Rightarrow> team \<Rightarrow> team" where
  "restore_team old i t = (case fmlookup old i of None \<Rightarrow> t | Some t0 \<Rightarrow> t\<lparr>tm_grants := tm_grants t0\<rparr>)"

text \<open>The closure \<open>snapshotLocked\<close> returns, for the snapshot \<open>old\<close> of memory.\<close>

definition restore_snapshot :: "string list \<Rightarrow> proj_store \<Rightarrow> proj_store \<Rightarrow> proj_store" where
  "restore_snapshot names old s =
     s\<lparr>ps_data := fold (\<lambda>n. fm_put_back n (ps_data old)) names (ps_data s),
       ps_members := fold (\<lambda>n. fm_put_back n (ps_members old)) names (ps_members s),
       ps_teams := fmmap_keys (restore_team (ps_teams old)) (ps_teams s)\<rparr>"

definition Rename :: "string \<Rightarrow> string \<Rightarrow> time \<Rightarrow> save_outcome \<Rightarrow> proj_sys \<Rightarrow> (proj_error + unit) \<times> proj_sys" where
  "Rename old new now out sys =
     (if bad_name new then (Inl InvalidName, sys)
      else
        let sys = proj_sync sys; s = fst sys in
        case proj_save out (rename_mem old new now s, snd sys) of
          (True, sys') \<Rightarrow> (Inr (), sys')
        | (False, (s', f')) \<Rightarrow> (Inl ProjSaveFailed, (restore_snapshot [old, new] s s', f')))"

subsection \<open>Listings\<close>

definition All :: "proj_sys \<Rightarrow> (string \<times> flags) list \<times> proj_sys" where
  "All sys = (let sys = proj_sync sys in (fm_list (ps_data (fst sys)), sys))"

definition SkipNamesForGit :: "proj_sys \<Rightarrow> string list \<times> proj_sys" where
  "SkipNamesForGit sys =
     (let sys = proj_sync sys in
      (map fst (filter (\<lambda>(n, f). SkipGitSync f) (fm_list (ps_data (fst sys)))), sys))"

definition INFoldersForGit :: "proj_sys \<Rightarrow> (string list \<times> string list) \<times> proj_sys" where
  "INFoldersForGit sys =
     (let sys = proj_sync sys; es = fm_list (ps_data (fst sys)) in
      ((map fst (filter (\<lambda>(n, f). UseIN f \<and> \<not> TrackINInGit f) es),
        map fst (filter (\<lambda>(n, f). UseIN f \<and> TrackINInGit f) es)), sys))"

definition INNames :: "proj_sys \<Rightarrow> string list \<times> proj_sys" where
  "INNames sys = (case INFoldersForGit sys of ((ignored, tracked), sys') \<Rightarrow> (sort (ignored @ tracked), sys'))"

subsection \<open>Visibility\<close>

definition default_visibility_locked :: "proj_store \<Rightarrow> string" where
  "default_visibility_locked s =
     (if ValidVisibility (ps_default_visibility s) then ps_default_visibility s else VisibilityPrivate)"

definition visibility_locked :: "proj_store \<Rightarrow> string \<Rightarrow> string" where
  "visibility_locked s name =
     (let f = fm_get no_flags (ps_data s) name in
      if Visibility f \<noteq> [] then Visibility f
      else if Public f then VisibilityPublic
      else default_visibility_locked s)"

definition Visibility_of :: "string \<Rightarrow> time \<Rightarrow> proj_sys \<Rightarrow> string \<times> proj_sys" where
  "Visibility_of name now sys = (let sys = proj_reload_for_read now sys in (visibility_locked (fst sys) name, sys))"

definition DefaultVisibility :: "proj_sys \<Rightarrow> string \<times> proj_sys" where
  "DefaultVisibility sys = (let sys = proj_sync sys in (default_visibility_locked (fst sys), sys))"

definition SetDefaultVisibility :: "string \<Rightarrow> save_outcome \<Rightarrow> proj_sys \<Rightarrow> (proj_error + unit) \<times> proj_sys" where
  "SetDefaultVisibility v out sys =
     (if \<not> ValidVisibility v then (Inl (InvalidVisibility v), sys)
      else proj_update (\<lambda>s. s\<lparr>ps_default_visibility := (if v = VisibilityPrivate then [] else v)\<rparr>) out (proj_sync sys))"

definition SetReservedNames :: "string list \<Rightarrow> proj_sys \<Rightarrow> proj_sys" where
  "SetReservedNames names sys = ((fst sys)\<lparr>ps_reserved := filter (\<lambda>n. n \<noteq> []) names\<rparr>, snd sys)"

definition Reserved :: "proj_sys \<Rightarrow> string \<Rightarrow> bool" where
  "Reserved sys name = list_ex (\<lambda>n. equal_fold n name) (ps_reserved (fst sys))"

definition PersonalProjectsEnabled :: "proj_sys \<Rightarrow> bool \<times> proj_sys" where
  "PersonalProjectsEnabled sys = (let sys = proj_sync sys in (\<not> ps_personal_off (fst sys), sys))"

definition SetPersonalProjects :: "bool \<Rightarrow> save_outcome \<Rightarrow> proj_sys \<Rightarrow> (proj_error + unit) \<times> proj_sys" where
  "SetPersonalProjects on out sys =
     (let sys = proj_sync sys in
      if ps_personal_off (fst sys) = (\<not> on) then (Inr (), sys)
      else proj_update (\<lambda>s. s\<lparr>ps_personal_off := \<not> on\<rparr>) out sys)"
end
