(* ===== verification/Members.thy ===== *)
theory Members
  imports Projects
begin

text \<open>
  The rest of \<open>internal/projects/store.go\<close>: the opt-in lookups, the member grants and
  the migration from the public flag and the global member scope to visibilities and
  grants (\<open>MigrateAccessModel\<close>).
\<close>

subsection \<open>The opt-ins\<close>

definition UsesGlobals :: "string \<Rightarrow> proj_sys \<Rightarrow> bool \<times> proj_sys" where
  "UsesGlobals name sys = (case Get name sys of (f, sys') \<Rightarrow> (UseGlobals f, sys'))"

definition UsesAnchors :: "string \<Rightarrow> proj_sys \<Rightarrow> bool \<times> proj_sys" where
  "UsesAnchors name sys = (case Get name sys of (f, sys') \<Rightarrow> (UseAnchors f, sys'))"

definition UsesTagVocabulary :: "string \<Rightarrow> proj_sys \<Rightarrow> bool \<times> proj_sys" where
  "UsesTagVocabulary name sys = (case Get name sys of (f, sys') \<Rightarrow> (UseTagVocabulary f, sys'))"

definition UsesLeanReadBootstrap :: "string \<Rightarrow> proj_sys \<Rightarrow> bool \<times> proj_sys" where
  "UsesLeanReadBootstrap name sys = (case Get name sys of (f, sys') \<Rightarrow> (LeanReadBootstrap f, sys'))"

definition AllowsLocalMirror :: "string \<Rightarrow> proj_sys \<Rightarrow> bool \<times> proj_sys" where
  "AllowsLocalMirror name sys = (case Get name sys of (f, sys') \<Rightarrow> (AllowLocalMirror f, sys'))"

definition UsesPipelines :: "string \<Rightarrow> proj_sys \<Rightarrow> bool \<times> proj_sys" where
  "UsesPipelines name sys = (case Get name sys of (f, sys') \<Rightarrow> (UsePipelines f, sys'))"

definition PipelineTags_of :: "string \<Rightarrow> proj_sys \<Rightarrow> bool \<times> proj_sys" where
  "PipelineTags_of name sys = (case Get name sys of (f, sys') \<Rightarrow> (PipelineTags f, sys'))"

definition UsesIN :: "string \<Rightarrow> proj_sys \<Rightarrow> bool \<times> proj_sys" where
  "UsesIN name sys = (case Get name sys of (f, sys') \<Rightarrow> (UseIN f, sys'))"

subsection \<open>Member grants\<close>

definition members_locked :: "proj_store \<Rightarrow> string \<Rightarrow> member list" where
  "members_locked s project = fm_get [] (ps_members s) project"

definition memberLevelLocked :: "proj_store \<Rightarrow> string \<Rightarrow> string \<Rightarrow> string option" where
  "memberLevelLocked s project userID =
     map_option pm_level (find (\<lambda>m. pm_user m = userID) (members_locked s project))"

definition MemberLevel :: "string \<Rightarrow> string \<Rightarrow> time \<Rightarrow> proj_sys \<Rightarrow> string option \<times> proj_sys" where
  "MemberLevel project userID now sys =
     (let sys = proj_reload_for_read now sys in (memberLevelLocked (fst sys) project userID, sys))"

definition MembersOf :: "string \<Rightarrow> proj_sys \<Rightarrow> member list \<times> proj_sys" where
  "MembersOf project sys =
     (let sys = proj_sync sys in (sort_key pm_user (members_locked (fst sys) project), sys))"

definition MembersCount :: "string \<Rightarrow> proj_sys \<Rightarrow> nat \<times> proj_sys" where
  "MembersCount project sys = (let sys = proj_sync sys in (length (members_locked (fst sys) project), sys))"

definition put_member :: "string \<Rightarrow> string \<Rightarrow> member list \<Rightarrow> member list" where
  "put_member userID lvl ms =
     (if list_ex (\<lambda>m. pm_user m = userID) ms
      then update_first (\<lambda>m. pm_user m = userID) (\<lambda>m. m\<lparr>pm_level := lvl\<rparr>) ms
      else ms @ [\<lparr>pm_user = userID, pm_level = lvl\<rparr>])"

definition setMemberLocked :: "string \<Rightarrow> string \<Rightarrow> string \<Rightarrow> proj_store \<Rightarrow> proj_store" where
  "setMemberLocked project userID lvl s =
     s\<lparr>ps_members := fmupd project (put_member userID lvl (members_locked s project)) (ps_members s)\<rparr>"

definition SetMember :: "string \<Rightarrow> string \<Rightarrow> string \<Rightarrow> save_outcome \<Rightarrow> proj_sys \<Rightarrow> (proj_error + unit) \<times> proj_sys" where
  "SetMember project userID lvl out sys =
     (if bad_name project then (Inl InvalidName, sys)
      else if userID = [] then (Inl UserRequired, sys)
      else if \<not> ValidLevel lvl then (Inl (InvalidLevel lvl), sys)
      else proj_update (setMemberLocked project userID lvl) out (proj_sync sys))"

definition without_user :: "string \<Rightarrow> member list \<Rightarrow> member list" where
  "without_user userID ms = filter (\<lambda>m. pm_user m \<noteq> userID) ms"

definition put_members :: "string \<Rightarrow> member list \<Rightarrow> proj_store \<Rightarrow> proj_store" where
  "put_members project ms s =
     s\<lparr>ps_members := (if ms = [] then fmdrop project (ps_members s) else fmupd project ms (ps_members s))\<rparr>"

definition RemoveMember :: "string \<Rightarrow> string \<Rightarrow> save_outcome \<Rightarrow> proj_sys \<Rightarrow> (proj_error + unit) \<times> proj_sys" where
  "RemoveMember project userID out sys =
     (let sys = proj_sync sys;
          ms = members_locked (fst sys) project;
          kept = without_user userID ms
      in if length kept = length ms then (Inr (), sys)
         else proj_update (put_members project kept) out sys)"

definition without_team_user :: "string \<Rightarrow> team \<Rightarrow> team" where
  "without_team_user userID t = t\<lparr>tm_users := filter (\<lambda>u. u \<noteq> userID) (tm_users t)\<rparr>"

definition has_user :: "string \<Rightarrow> proj_store \<Rightarrow> bool" where
  "has_user userID s =
     (list_ex (\<lambda>(i, t). userID \<in> set (tm_users t)) (fm_list (ps_teams s)) \<or>
      list_ex (\<lambda>(q, ms). list_ex (\<lambda>m. pm_user m = userID) ms) (fm_list (ps_members s)))"

definition remove_user_mem :: "string \<Rightarrow> proj_store \<Rightarrow> proj_store" where
  "remove_user_mem userID s =
     s\<lparr>ps_teams := fmmap (without_team_user userID) (ps_teams s),
       ps_members := fm_each (\<lambda>q ms. if without_user userID ms = [] then None else Some (without_user userID ms)) (ps_members s)\<rparr>"

text \<open>Without the user, memory is rewritten all the same (an empty list is dropped), and not saved.\<close>

definition RemoveUserEverywhere :: "string \<Rightarrow> save_outcome \<Rightarrow> proj_sys \<Rightarrow> (proj_error + unit) \<times> proj_sys" where
  "RemoveUserEverywhere userID out sys =
     (let sys = proj_sync sys; s = fst sys in
      if \<not> has_user userID s then (Inr (), (remove_user_mem userID s, snd sys))
      else proj_update (remove_user_mem userID) out sys)"

subsection \<open>The migration\<close>

record migration_report =
  Applied :: bool
  LegacyMembersMode :: bool
  ProjectsMigrated :: nat
  GrantsSeeded :: nat
  ReportDefaultVisibility :: string
  OwnerOnly :: "string list"

text \<open>The visibility a project gets; the flag says whether it is reserved to the owner.\<close>

definition migrated_flags :: "bool \<Rightarrow> bool \<Rightarrow> bool \<Rightarrow> flags \<Rightarrow> flags \<times> bool" where
  "migrated_flags reserved legacy fresh f =
     (if Visibility f \<noteq> [] then (f\<lparr>Public := False\<rparr>, False)
      else if Public f then (f\<lparr>Visibility := VisibilityPublic, Public := False\<rparr>, False)
      else if reserved then (f\<lparr>Visibility := VisibilityPrivate, Public := False\<rparr>, True)
      else if legacy \<or> fresh then (f\<lparr>Visibility := VisibilityPrivate, Public := False\<rparr>, False)
      else (f\<lparr>Visibility := VisibilityInternal, Public := False\<rparr>, False))"

fun migrate_flags ::
  "string list \<Rightarrow> bool \<Rightarrow> bool \<Rightarrow> string list \<Rightarrow> (string, flags) fmap \<Rightarrow> (string, flags) fmap \<times> string list" where
  "migrate_flags ownerOnly legacy fresh [] data = (data, [])"
| "migrate_flags ownerOnly legacy fresh (n # ns) data =
     (case migrated_flags (n \<in> set ownerOnly) legacy fresh (fm_get no_flags data n) of
        (f, no_seed) \<Rightarrow>
          (case migrate_flags ownerOnly legacy fresh ns (fmupd n f data) of
             (data', noSeed) \<Rightarrow> (data', if no_seed then n # noSeed else noSeed)))"

fun seed_user :: "string \<Rightarrow> string list \<Rightarrow> proj_store \<Rightarrow> proj_store \<times> nat" where
  "seed_user u [] s = (s, 0)"
| "seed_user u (n # ns) s =
     (case memberLevelLocked s n u of
        Some lvl \<Rightarrow>
          if lvl \<noteq> GrantRead then seed_user u ns s
          else (case seed_user u ns (setMemberLocked n u GrantWrite s) of (s', k) \<Rightarrow> (s', Suc k))
      | None \<Rightarrow> (case seed_user u ns (setMemberLocked n u GrantWrite s) of (s', k) \<Rightarrow> (s', Suc k)))"

fun seed_users :: "string list \<Rightarrow> string list \<Rightarrow> proj_store \<Rightarrow> proj_store \<times> nat" where
  "seed_users [] ns s = (s, 0)"
| "seed_users (u # us) ns s =
     (if u = [] then seed_users us ns s
      else case seed_user u ns s of (s', k) \<Rightarrow>
             (case seed_users us ns s' of (s'', k') \<Rightarrow> (s'', k + k')))"

definition migration_names :: "string list \<Rightarrow> proj_store \<Rightarrow> string list" where
  "migration_names vaultProjects s =
     sorted_list_of_fset
       (fset_of_list (filter (\<lambda>n. n \<noteq> []) vaultProjects) |\<union>| fmdom (ps_data s) |\<union>| fmdom (ps_members s))"

definition migrate_mem ::
  "string list \<Rightarrow> string list \<Rightarrow> string list \<Rightarrow> proj_store \<Rightarrow> migration_report \<times> proj_store" where
  "migrate_mem vaultProjects seedUsers ownerOnly s =
     (let legacy = (ps_member_scope s = MemberScopeMembers);
          fresh = (ps_mtime s = 0 \<and> seedUsers = []);
          names = migration_names vaultProjects s;
          (data, noSeed) = migrate_flags ownerOnly legacy fresh names (ps_data s);
          s1 = s\<lparr>ps_data := data\<rparr>;
          (s2, seeded) = (if legacy then (s1, 0)
                          else seed_users seedUsers (filter (\<lambda>n. n \<notin> set noSeed) names) s1);
          s3 = s2\<lparr>ps_default_visibility := (if legacy \<or> fresh then [] else VisibilityInternal)\<rparr>
      in (\<lparr>Applied = True, LegacyMembersMode = legacy, ProjectsMigrated = length names,
            GrantsSeeded = seeded, ReportDefaultVisibility = default_visibility_locked s3, OwnerOnly = noSeed\<rparr>,
          s3\<lparr>ps_member_scope := [], ps_access_model := accessModelVersion\<rparr>))"

definition MigrateAccessModel ::
  "string list \<Rightarrow> string list \<Rightarrow> string list \<Rightarrow> save_outcome \<Rightarrow> proj_sys
     \<Rightarrow> (migration_report \<times> (proj_error + unit)) \<times> proj_sys" where
  "MigrateAccessModel vaultProjects seedUsers ownerOnly out sys =
     (let sys = proj_sync sys; s = fst sys in
      if accessModelVersion \<le> ps_access_model s
      then ((\<lparr>Applied = False, LegacyMembersMode = False, ProjectsMigrated = 0, GrantsSeeded = 0,
              ReportDefaultVisibility = default_visibility_locked s, OwnerOnly = []\<rparr>, Inr ()), sys)
      else
        case migrate_mem vaultProjects seedUsers ownerOnly s of
          (rep, s') \<Rightarrow>
            (case proj_save_err out (s', snd sys) of (r, sys') \<Rightarrow> ((rep, r), sys')))"

end
