(* ===== verification/Teams.thy ===== *)
theory Teams
  imports Members
begin

text \<open>
  \<open>internal/projects/teams.go\<close>: teams group accounts so that one grant per project
  covers all of them. A new id is drawn at random until it is free: the draws are an
  argument, and a list of draws that are all taken gives \<open>NoFreeTeamId\<close> (the code
  draws on).
\<close>

record team_grant =
  tg_team :: string
  tg_name :: string
  tg_level :: string

definition maxTeamNameLen :: nat where "maxTeamNameLen = 64"

definition normalizeTeamName :: "string \<Rightarrow> proj_error + string" where
  "normalizeTeamName name =
     (let name = trim_space name in
      if name = [] then Inl TeamNameRequired
      else if length name > maxTeamNameLen then Inl TeamNameTooLong
      else if contains_any name [CHR ''/'', CHR 0x5C, CHR 0x0A, CHR 0x0D, CHR 0x09] then Inl TeamNameBadChar
      else Inr name)"

definition teamNameTakenLocked :: "proj_store \<Rightarrow> string \<Rightarrow> string \<Rightarrow> bool" where
  "teamNameTakenLocked s name exceptID =
     list_ex (\<lambda>(i, t). i \<noteq> exceptID \<and> equal_fold (tm_name t) name) (fm_list (ps_teams s))"

fun newTeamID :: "proj_store \<Rightarrow> string list \<Rightarrow> string option" where
  "newTeamID s [] = None"
| "newTeamID s (d # ds) = (if fmlookup (ps_teams s) d = None then Some d else newTeamID s ds)"

definition Teams :: "proj_sys \<Rightarrow> team list \<times> proj_sys" where
  "Teams sys =
     (let sys = proj_sync sys in
      (sort_key (\<lambda>t. to_lower (tm_name t)) (map snd (fm_list (ps_teams (fst sys)))), sys))"

definition Team :: "string \<Rightarrow> proj_sys \<Rightarrow> team option \<times> proj_sys" where
  "Team tid sys = (let sys = proj_sync sys in (fmlookup (ps_teams (fst sys)) tid, sys))"

definition put_team :: "string \<Rightarrow> team \<Rightarrow> proj_store \<Rightarrow> proj_store" where
  "put_team tid t s = s\<lparr>ps_teams := fmupd tid t (ps_teams s)\<rparr>"

text \<open>Change memory, save, and return a value on success.\<close>

definition proj_update_with ::
  "'r \<Rightarrow> (proj_store \<Rightarrow> proj_store) \<Rightarrow> save_outcome \<Rightarrow> proj_sys \<Rightarrow> (proj_error + 'r) \<times> proj_sys" where
  "proj_update_with r f out sys =
     (case proj_update f out sys of
        (Inl e, sys') \<Rightarrow> (Inl e, sys')
      | (Inr u, sys') \<Rightarrow> (Inr r, sys'))"

definition CreateTeam ::
  "string \<Rightarrow> string \<Rightarrow> string list \<Rightarrow> time \<Rightarrow> save_outcome \<Rightarrow> proj_sys \<Rightarrow> (proj_error + team) \<times> proj_sys" where
  "CreateTeam name description draws now out sys =
     (case normalizeTeamName name of
        Inl e \<Rightarrow> (Inl e, sys)
      | Inr name \<Rightarrow>
          let sys = proj_sync sys; s = fst sys in
          if teamNameTakenLocked s name [] then (Inl (TeamNameTaken name), sys)
          else case newTeamID s draws of
                 None \<Rightarrow> (Inl NoFreeTeamId, sys)
               | Some tid \<Rightarrow>
                   let t = \<lparr>tm_id = tid, tm_name = name, tm_description = trim_space description,
                            tm_users = [], tm_grants = fmempty, tm_created = now\<rparr>
                   in proj_update_with t (put_team tid t) out sys)"

definition UpdateTeam ::
  "string \<Rightarrow> string option \<Rightarrow> string option \<Rightarrow> save_outcome \<Rightarrow> proj_sys \<Rightarrow> (proj_error + team) \<times> proj_sys" where
  "UpdateTeam tid name description out sys =
     (let sys = proj_sync sys; s = fst sys in
      case fmlookup (ps_teams s) tid of
        None \<Rightarrow> (Inl TeamNotFound, sys)
      | Some t \<Rightarrow>
          let renamed =
                (case name of
                   None \<Rightarrow> Inr t
                 | Some nm \<Rightarrow>
                     (case normalizeTeamName nm of
                        Inl e \<Rightarrow> Inl e
                      | Inr n \<Rightarrow> if teamNameTakenLocked s n tid then Inl (TeamNameTaken n) else Inr (t\<lparr>tm_name := n\<rparr>)))
          in case renamed of
               Inl e \<Rightarrow> (Inl e, sys)
             | Inr t1 \<Rightarrow>
                 let t2 = (case description of None \<Rightarrow> t1 | Some d \<Rightarrow> t1\<lparr>tm_description := trim_space d\<rparr>)
                 in proj_update_with t2 (put_team tid t2) out sys)"

definition DeleteTeam :: "string \<Rightarrow> save_outcome \<Rightarrow> proj_sys \<Rightarrow> (proj_error + unit) \<times> proj_sys" where
  "DeleteTeam tid out sys =
     (let sys = proj_sync sys in
      if fmlookup (ps_teams (fst sys)) tid = None then (Inl TeamNotFound, sys)
      else proj_update (\<lambda>s. s\<lparr>ps_teams := fmdrop tid (ps_teams s)\<rparr>) out sys)"

definition AddTeamUser :: "string \<Rightarrow> string \<Rightarrow> save_outcome \<Rightarrow> proj_sys \<Rightarrow> (proj_error + unit) \<times> proj_sys" where
  "AddTeamUser tid userID out sys =
     (if userID = [] then (Inl UserRequired, sys)
      else
        let sys = proj_sync sys in
        case fmlookup (ps_teams (fst sys)) tid of
          None \<Rightarrow> (Inl TeamNotFound, sys)
        | Some t \<Rightarrow>
            if userID \<in> set (tm_users t) then (Inr (), sys)
            else proj_update (put_team tid (t\<lparr>tm_users := tm_users t @ [userID]\<rparr>)) out sys)"

definition RemoveTeamUser :: "string \<Rightarrow> string \<Rightarrow> save_outcome \<Rightarrow> proj_sys \<Rightarrow> (proj_error + unit) \<times> proj_sys" where
  "RemoveTeamUser tid userID out sys =
     (let sys = proj_sync sys in
      case fmlookup (ps_teams (fst sys)) tid of
        None \<Rightarrow> (Inl TeamNotFound, sys)
      | Some t \<Rightarrow>
          if length (filter (\<lambda>u. u \<noteq> userID) (tm_users t)) = length (tm_users t) then (Inr (), sys)
          else proj_update (put_team tid (without_team_user userID t)) out sys)"

definition SetTeamGrant :: "string \<Rightarrow> string \<Rightarrow> string \<Rightarrow> save_outcome \<Rightarrow> proj_sys \<Rightarrow> (proj_error + unit) \<times> proj_sys" where
  "SetTeamGrant tid project lvl out sys =
     (if bad_name project then (Inl InvalidName, sys)
      else if \<not> ValidLevel lvl then (Inl (InvalidLevel lvl), sys)
      else
        let sys = proj_sync sys in
        case fmlookup (ps_teams (fst sys)) tid of
          None \<Rightarrow> (Inl TeamNotFound, sys)
        | Some t \<Rightarrow> proj_update (put_team tid (t\<lparr>tm_grants := fmupd project lvl (tm_grants t)\<rparr>)) out sys)"

definition RemoveTeamGrant :: "string \<Rightarrow> string \<Rightarrow> save_outcome \<Rightarrow> proj_sys \<Rightarrow> (proj_error + unit) \<times> proj_sys" where
  "RemoveTeamGrant tid project out sys =
     (let sys = proj_sync sys in
      case fmlookup (ps_teams (fst sys)) tid of
        None \<Rightarrow> (Inl TeamNotFound, sys)
      | Some t \<Rightarrow>
          if fmlookup (tm_grants t) project = None then (Inr (), sys)
          else proj_update (put_team tid (drop_grants project t)) out sys)"

definition team_grants_where :: "(team \<Rightarrow> bool) \<Rightarrow> string \<Rightarrow> proj_store \<Rightarrow> team_grant list" where
  "team_grants_where p project s =
     List.map_filter
       (\<lambda>(i, t). case fmlookup (tm_grants t) project of
            None \<Rightarrow> None
          | Some lvl \<Rightarrow> if p t then Some \<lparr>tg_team = tm_id t, tg_name = tm_name t, tg_level = lvl\<rparr> else None)
       (fm_list (ps_teams s))"

definition by_team_name :: "team_grant list \<Rightarrow> team_grant list" where
  "by_team_name gs = sort_key (\<lambda>g. to_lower (tg_name g)) gs"

definition TeamGrantsOn :: "string \<Rightarrow> proj_sys \<Rightarrow> team_grant list \<times> proj_sys" where
  "TeamGrantsOn project sys =
     (let sys = proj_sync sys in (by_team_name (team_grants_where (\<lambda>t. True) project (fst sys)), sys))"

definition TeamsCount :: "string \<Rightarrow> proj_sys \<Rightarrow> nat \<times> proj_sys" where
  "TeamsCount project sys =
     (let sys = proj_sync sys in (length (team_grants_where (\<lambda>t. True) project (fst sys)), sys))"

definition teamLevelsForLocked :: "proj_store \<Rightarrow> string \<Rightarrow> string \<Rightarrow> team_grant list" where
  "teamLevelsForLocked s userID project =
     by_team_name (team_grants_where (\<lambda>t. userID \<in> set (tm_users t)) project s)"

definition TeamLevelsFor :: "string \<Rightarrow> string \<Rightarrow> time \<Rightarrow> proj_sys \<Rightarrow> team_grant list \<times> proj_sys" where
  "TeamLevelsFor userID project now sys =
     (let sys = proj_reload_for_read now sys in (teamLevelsForLocked (fst sys) userID project, sys))"

end
