(* ===== verification/ProjectAccess.thy ===== *)
theory ProjectAccess
  imports Teams
begin

text \<open>
  \<open>internal/projects/access.go\<close> and \<open>project_access.go\<close>: the configuration every surface
  asks the access decision with, and the access of one project as a value that the trash
  keeps. The lookups of a configuration reload the store at most once a second: a
  configuration is taken at one time \<open>now\<close>, and all its lookups see that reload.
\<close>

subsection \<open>The configuration\<close>

definition member_sources :: "proj_sys \<Rightarrow> time \<Rightarrow> string \<Rightarrow> string \<Rightarrow> grant_source list" where
  "member_sources sys now userID project =
     (case fst (MemberLevel project userID now sys) of
        None \<Rightarrow> []
      | Some lvl \<Rightarrow> [\<lparr>gs_level = ParseLevel lvl, gs_via = ''grant:'' @ lvl\<rparr>])"

definition team_source :: "team_grant \<Rightarrow> grant_source" where
  "team_source g = \<lparr>gs_level = ParseLevel (tg_level g), gs_via = ''team:'' @ tg_name g @ '':'' @ tg_level g\<rparr>"

definition AccessConfig :: "time \<Rightarrow> proj_sys option \<Rightarrow> access_config" where
  "AccessConfig now store =
     (case store of
        None \<Rightarrow> \<lparr>cfg_visibility = Some (\<lambda>q. VisibilityInternal), cfg_grants = None\<rparr>
      | Some sys \<Rightarrow>
          \<lparr>cfg_visibility = Some (\<lambda>q. fst (Visibility_of q now sys)),
           cfg_grants = Some (\<lambda>userID q.
             member_sources sys now userID q @
             map team_source (fst (TeamLevelsFor userID q now (snd (MemberLevel q userID now sys)))))\<rparr>)"

subsection \<open>The access of one project\<close>

record access =
  ac_flags :: flags
  ac_members :: "member list"
  ac_team_grants :: "(string, string) fmap"

definition team_grants_on :: "(string, team) fmap \<Rightarrow> string \<Rightarrow> (string, string) fmap" where
  "team_grants_on teams name =
     fmmap (\<lambda>t. the (fmlookup (tm_grants t) name))
       (fmfilter (\<lambda>i. case fmlookup teams i of None \<Rightarrow> False | Some t \<Rightarrow> fmlookup (tm_grants t) name \<noteq> None) teams)"

definition access_mem :: "proj_store \<Rightarrow> string \<Rightarrow> access" where
  "access_mem s name =
     \<lparr>ac_flags = (fm_get no_flags (ps_data s) name)\<lparr>Visibility := visibility_locked s name, Public := False\<rparr>,
      ac_members = members_locked s name,
      ac_team_grants = team_grants_on (ps_teams s) name\<rparr>"

definition Access :: "string \<Rightarrow> proj_sys \<Rightarrow> access \<times> proj_sys" where
  "Access name sys = (let sys = proj_sync sys in (access_mem (fst sys) name, sys))"

definition set_team_access :: "string \<Rightarrow> access \<Rightarrow> string \<Rightarrow> team \<Rightarrow> team" where
  "set_team_access name a i t =
     (case (fmlookup (ac_team_grants a) i, fmlookup (tm_grants t) name) of
        (None, None) \<Rightarrow> t
      | (granted, had) \<Rightarrow>
          let dropped = fmdrop name (tm_grants t) in
          t\<lparr>tm_grants :=
              (case granted of
                 None \<Rightarrow> dropped
               | Some lvl \<Rightarrow> if ValidLevel lvl then fmupd name lvl dropped else dropped)\<rparr>)"

definition set_access_mem :: "string \<Rightarrow> access \<Rightarrow> proj_store \<Rightarrow> proj_store" where
  "set_access_mem name a s =
     s\<lparr>ps_data := (if ac_flags a = no_flags then fmdrop name (ps_data s) else fmupd name (ac_flags a) (ps_data s)),
       ps_members := (if ac_members a = [] then fmdrop name (ps_members s) else fmupd name (ac_members a) (ps_members s)),
       ps_teams := fmmap_keys (set_team_access name a) (ps_teams s)\<rparr>"

definition SetAccess :: "string \<Rightarrow> access \<Rightarrow> save_outcome \<Rightarrow> proj_sys \<Rightarrow> (proj_error + unit) \<times> proj_sys" where
  "SetAccess name a out sys =
     (if bad_name name then (Inl InvalidName, sys)
      else if Visibility (ac_flags a) \<noteq> [] \<and> \<not> ValidVisibility (Visibility (ac_flags a))
           then (Inl (InvalidVisibility (Visibility (ac_flags a))), sys)
      else
        case find (\<lambda>m. pm_user m = [] \<or> \<not> ValidLevel (pm_level m)) (ac_members a) of
          Some m \<Rightarrow> (Inl (InvalidMember (pm_user m) (pm_level m)), sys)
        | None \<Rightarrow>
            let sys = proj_sync sys; s = fst sys in
            case proj_save out (set_access_mem name a s, snd sys) of
              (True, sys') \<Rightarrow> (Inr (), sys')
            | (False, (s', f')) \<Rightarrow> (Inl ProjSaveFailed, (restore_snapshot [name] s s', f')))"

text \<open>
  The configuration with one project answered from a saved access (of a store that is
  there; on a nil store the lookup of another project's grants would call a nil function).
\<close>

definition AccessConfigWith :: "string \<Rightarrow> access \<Rightarrow> time \<Rightarrow> proj_sys \<Rightarrow> access_config" where
  "AccessConfigWith name a now sys =
     (let live = AccessConfig now (Some sys);
          vis = (if Visibility (ac_flags a) = [] then VisibilityPrivate else Visibility (ac_flags a))
      in \<lparr>cfg_visibility = Some (\<lambda>q. if q = name then vis else config_visibility live q),
          cfg_grants = Some (\<lambda>userID q.
            if q \<noteq> name then (case cfg_grants live of None \<Rightarrow> [] | Some g \<Rightarrow> g userID q)
            else
              map (\<lambda>m. \<lparr>gs_level = ParseLevel (pm_level m), gs_via = ''grant:'' @ pm_level m\<rparr>)
                (filter (\<lambda>m. pm_user m = userID) (ac_members a)) @
              List.map_filter
                (\<lambda>(i, lvl). case fst (Team i sys) of
                     None \<Rightarrow> None
                   | Some t \<Rightarrow>
                       if userID \<in> set (tm_users t)
                       then Some \<lparr>gs_level = ParseLevel lvl, gs_via = ''team:'' @ tm_name t @ '':'' @ lvl\<rparr>
                       else None)
                (fm_list (ac_team_grants a)))\<rparr>)"

subsection \<open>Stores in a good state\<close>

text \<open>Every visibility set is one of the three, every grant has one of the three levels, and every
  member grant names an account.\<close>

definition good_content :: "'a proj_file_scheme \<Rightarrow> bool" where
  "good_content c \<longleftrightarrow>
     (\<forall>q f. fmlookup (ps_data c) q = Some f \<longrightarrow> Visibility f = [] \<or> ValidVisibility (Visibility f)) \<and>
     (\<forall>q ms m. fmlookup (ps_members c) q = Some ms \<longrightarrow> m \<in> set ms \<longrightarrow> pm_user m \<noteq> [] \<and> ValidLevel (pm_level m)) \<and>
     (\<forall>i t q lvl. fmlookup (ps_teams c) i = Some t \<longrightarrow> fmlookup (tm_grants t) q = Some lvl \<longrightarrow> ValidLevel lvl)"

definition good_sys :: "proj_sys \<Rightarrow> bool" where
  "good_sys sys \<longleftrightarrow>
     good_content (fst sys) \<and>
     (case snd sys of Present t (Some c) \<Rightarrow> good_content c | _ \<Rightarrow> True)"

lemma good_contentD:
  assumes "good_content c"
  shows "fmlookup (ps_data c) q = Some f \<Longrightarrow> Visibility f = [] \<or> ValidVisibility (Visibility f)"
    and "fmlookup (ps_members c) q = Some ms \<Longrightarrow> m \<in> set ms \<Longrightarrow> pm_user m \<noteq> [] \<and> ValidLevel (pm_level m)"
    and "fmlookup (ps_teams c) i = Some t \<Longrightarrow> fmlookup (tm_grants t) q = Some lvl \<Longrightarrow> ValidLevel lvl"
  using assms by (auto simp: good_content_def)

lemma good_contentI:
  assumes "\<And>q f. fmlookup (ps_data c) q = Some f \<Longrightarrow> Visibility f = [] \<or> ValidVisibility (Visibility f)"
    and "\<And>q ms m. fmlookup (ps_members c) q = Some ms \<Longrightarrow> m \<in> set ms \<Longrightarrow> pm_user m \<noteq> [] \<and> ValidLevel (pm_level m)"
    and "\<And>i t q lvl. fmlookup (ps_teams c) i = Some t \<Longrightarrow> fmlookup (tm_grants t) q = Some lvl \<Longrightarrow> ValidLevel lvl"
  shows "good_content c"
  using assms unfolding good_content_def by blast

lemma good_content_same:
  "ps_data c = ps_data c' \<Longrightarrow> ps_members c = ps_members c' \<Longrightarrow> ps_teams c = ps_teams c' \<Longrightarrow>
     good_content c = good_content c'"
  for c :: "'a proj_file_scheme" and c' :: "'b proj_file_scheme"
  by (simp add: good_content_def)

lemma good_proj_content [simp]: "good_content (proj_content s) = good_content s"
  by (rule good_content_same) (simp_all add: proj_content_def)

lemma good_empty: "good_content empty_file"
  by (simp add: good_content_def empty_file_def)

lemma good_install: "good_content c \<Longrightarrow> good_content (proj_install c s)"
  by (simp add: good_content_def proj_install_def)

lemma good_mtime [simp]: "good_content (s\<lparr>ps_mtime := t\<rparr>) = good_content s"
  by (rule good_content_same) simp_all

lemma good_checked [simp]: "good_content (s\<lparr>ps_checked := t\<rparr>) = good_content s"
  by (rule good_content_same) simp_all

lemma good_load: "good_sys (s, f) \<Longrightarrow> good_content (proj_load f s)"
  using good_install [OF good_empty]
  by (auto simp: good_sys_def proj_load_def proj_reset_def good_install split: json_file.splits option.splits)

lemma good_reload: "good_sys (s, f) \<Longrightarrow> good_content (proj_reload f s)"
proof -
  assume good: "good_sys (s, f)"
  then have "good_content s" by (simp add: good_sys_def)
  with good_load [OF good] good_install [OF good_empty] show ?thesis
    by (cases f) (auto simp: proj_reload_def proj_reset_def)
qed

lemma good_sync [keeps_inv]: "good_sys sys \<Longrightarrow> good_sys (proj_sync sys)"
  by (cases sys) (auto simp: proj_sync_def good_reload good_sys_def [of "(proj_reload _ _, _)"] good_sys_def [of "(_, _)"])

lemma good_for_read [keeps_inv]: "good_sys sys \<Longrightarrow> good_sys (proj_reload_for_read now sys)"
proof (cases sys)
  case (Pair s f)
  assume "good_sys sys"
  with Pair have "good_sys (s\<lparr>ps_checked := now\<rparr>, f)" and "good_sys (s, f)" by (simp_all add: good_sys_def)
  from good_reload [OF this(1)] this Pair show ?thesis
    by (simp add: proj_reload_for_read_def good_sys_def)
qed

lemma good_save:
  "good_sys (s, f) \<Longrightarrow> proj_save out (s, f) = (ok, sys') \<Longrightarrow> good_sys sys'"
  by (auto simp: proj_save_def good_sys_def split: save_outcome.splits)

lemma good_update:
  assumes "good_sys sys" and "\<And>s. good_content s \<Longrightarrow> good_content (g s)"
  shows "good_sys (snd (proj_update g out sys))"
proof -
  from assms have "good_sys (g (fst sys), snd sys)" by (simp add: good_sys_def)
  from good_save [OF this, of out] show ?thesis
    by (cases "proj_save out (g (fst sys), snd sys)") (simp add: proj_update_def proj_save_err_def)
qed

end
