(* ===== verification/ProjectInv.thy ===== *)
theory ProjectInv
  imports ProjectAccess
begin

text \<open>
  The projects store as a state machine: every operation keeps the store in a good state
  (valid visibilities and levels), and so its configuration meets the contract of
  \<open>access_provider\<close>.
\<close>

subsection \<open>What the changes of memory keep\<close>

lemma good_put_flags [keeps_inv]:
  "good_content s \<Longrightarrow> Visibility f = [] \<or> ValidVisibility (Visibility f) \<Longrightarrow> good_content (put_flags name f s)"
  by (rule good_contentI) (auto simp: put_flags_def dest: good_contentD split: if_splits)

lemma good_delete_mem [keeps_inv]: "good_content s \<Longrightarrow> good_content (delete_mem name s)"
  by (rule good_contentI) (auto simp: delete_mem_def drop_grants_def dest: good_contentD split: if_splits)

lemma rename_entry_lookup [fm_lookups]:
  "fmlookup (rename_entry old new m) k =
     (if k = new then fmlookup m old else if k = old then None else fmlookup m k)"
  by (auto simp: rename_entry_def split: option.splits)

lemma rename_entry_range:
  "fmlookup (rename_entry old new m) k = Some v \<Longrightarrow> \<exists>k'. fmlookup m k' = Some v"
  by (auto simp: rename_entry_def split: option.splits if_splits)

lemma rename_grants_range:
  "fmlookup (tm_grants (rename_grants old new t)) k = Some v \<Longrightarrow> \<exists>k'. fmlookup (tm_grants t) k' = Some v"
  by (auto simp: rename_grants_def split: option.splits if_splits)

lemma good_rename_mem [keeps_inv]: "good_content s \<Longrightarrow> good_content (rename_mem old new now s)"
proof -
  assume good: "good_content s"
  let ?data = "rename_entry old new (ps_data s)"
  have data: "Visibility f = [] \<or> ValidVisibility (Visibility f)" if "fmlookup ?data q = Some f" for q f
    using rename_entry_range [OF that] good_contentD(1) [OF good] by blast
  have "Visibility f = [] \<or> ValidVisibility (Visibility f)"
    if "fmlookup (ps_data (rename_mem old new now s)) q = Some f" for q f
  proof (cases "q = new")
    case True
    with that data [of new] show ?thesis
      by (cases "fmlookup ?data new") (auto simp: rename_mem_def Let_def fm_get_def no_flags_def)
  next
    case False
    with that data [of q] show ?thesis by (auto simp: rename_mem_def Let_def)
  qed
  moreover have "pm_user m \<noteq> [] \<and> ValidLevel (pm_level m)"
    if "fmlookup (ps_members (rename_mem old new now s)) q = Some ms" and "m \<in> set ms" for q ms m
    using that good_contentD(2) [OF good] by (auto simp: rename_mem_def Let_def dest!: rename_entry_range)
  moreover have "ValidLevel lvl"
    if "fmlookup (ps_teams (rename_mem old new now s)) i = Some t" and "fmlookup (tm_grants t) q = Some lvl" for i t q lvl
    using that good_contentD(3) [OF good] by (auto simp: rename_mem_def Let_def dest!: rename_grants_range)
  ultimately show ?thesis unfolding good_content_def by blast
qed

lemma fold_put_back_lookup:
  "fmlookup (fold (\<lambda>n. fm_put_back n old) ns m) k = (if k \<in> set ns then fmlookup old k else fmlookup m k)"
  by (induction ns arbitrary: m) (auto simp: fm_put_back_lookup)

text \<open>Restoring undoes a change limited to the names it was taken for.\<close>

lemma restore_snapshot_undo:
  assumes "\<And>q. q \<notin> set ns \<Longrightarrow> fmlookup (ps_data s') q = fmlookup (ps_data s) q"
    and "\<And>q. q \<notin> set ns \<Longrightarrow> fmlookup (ps_members s') q = fmlookup (ps_members s) q"
    and "ps_teams s' = fmmap_keys g (ps_teams s)" and "\<And>i t. \<exists>gs. g i t = t\<lparr>tm_grants := gs\<rparr>"
    and "s' = s\<lparr>ps_data := ps_data s', ps_members := ps_members s', ps_teams := ps_teams s'\<rparr>"
  shows "restore_snapshot ns s s' = s"
proof -
  have "fold (\<lambda>n. fm_put_back n (ps_data s)) ns (ps_data s') = ps_data s"
    by (rule fmap_ext) (simp add: fold_put_back_lookup assms(1))
  moreover have "fold (\<lambda>n. fm_put_back n (ps_members s)) ns (ps_members s') = ps_members s"
    by (rule fmap_ext) (simp add: fold_put_back_lookup assms(2))
  moreover have "fmmap_keys (restore_team (ps_teams s)) (ps_teams s') = ps_teams s"
  proof (rule fmap_ext)
    fix i
    have "restore_team (ps_teams s) i (g i t) = t" if "fmlookup (ps_teams s) i = Some t" for t
      using that assms(4) [of i t] by (auto simp: restore_team_def)
    then show "fmlookup (fmmap_keys (restore_team (ps_teams s)) (ps_teams s')) i = fmlookup (ps_teams s) i"
      by (cases "fmlookup (ps_teams s) i") (simp_all add: assms(3))
  qed
  ultimately show ?thesis
    by (subst assms(5)) (simp add: restore_snapshot_def)
qed

lemma rename_restore: "restore_snapshot [old, new] s (rename_mem old new now s) = s"
proof (rule restore_snapshot_undo)
  show "ps_teams (rename_mem old new now s) = fmmap_keys (\<lambda>i. rename_grants old new) (ps_teams s)"
    by (rule fmap_ext) (simp add: rename_mem_def Let_def)
  show "\<exists>gs. rename_grants old new t = t\<lparr>tm_grants := gs\<rparr>" for t
    by (auto simp: rename_grants_def split: option.splits)
qed (auto simp: rename_mem_def Let_def rename_entry_def split: option.splits)

lemma set_access_restore: "restore_snapshot [name] s (set_access_mem name a s) = s"
proof (rule restore_snapshot_undo)
  show "ps_teams (set_access_mem name a s) = fmmap_keys (set_team_access name a) (ps_teams s)"
    by (simp add: set_access_mem_def)
  show "\<exists>gs. set_team_access name a i t = t\<lparr>tm_grants := gs\<rparr>" for i t
  proof -
    have "\<exists>gs. t = t\<lparr>tm_grants := gs\<rparr>" by (rule exI [of _ "tm_grants t"]) simp
    then show ?thesis by (auto simp: set_team_access_def Let_def split: option.splits)
  qed
qed (auto simp: set_access_mem_def)

lemma set_team_access_range:
  "fmlookup (tm_grants (set_team_access name a i t)) q = Some lvl \<Longrightarrow>
     ValidLevel lvl \<or> fmlookup (tm_grants t) q = Some lvl"
  by (auto simp: set_team_access_def Let_def split: option.splits if_splits)

lemma good_set_access [keeps_inv]:
  assumes good: "good_content s"
    and vis: "Visibility (ac_flags a) = [] \<or> ValidVisibility (Visibility (ac_flags a))"
    and mem: "find (\<lambda>m. pm_user m = [] \<or> \<not> ValidLevel (pm_level m)) (ac_members a) = None"
  shows "good_content (set_access_mem name a s)"
proof -
  have "pm_user m \<noteq> [] \<and> ValidLevel (pm_level m)" if "m \<in> set (ac_members a)" for m
    using mem that by (auto simp: find_None_iff)
  moreover have "ValidLevel lvl"
    if "fmlookup (ps_teams (set_access_mem name a s)) i = Some t" "fmlookup (tm_grants t) q = Some lvl" for i t q lvl
    using that good_contentD(3) [OF good] by (auto simp: set_access_mem_def dest!: set_team_access_range)
  ultimately show ?thesis
    using vis good_contentD(1,2) [OF good]
    unfolding good_content_def by (auto simp: set_access_mem_def split: if_splits)
qed

lemma members_locked_valid:
  "good_content s \<Longrightarrow> m \<in> set (members_locked s q) \<Longrightarrow> pm_user m \<noteq> [] \<and> ValidLevel (pm_level m)"
  by (cases "fmlookup (ps_members s) q") (auto simp: members_locked_def fm_get_def dest: good_contentD(2))

lemma set_put_member:
  "m \<in> set (put_member u lvl ms) \<Longrightarrow> m \<in> set ms \<or> pm_level m = lvl \<and> pm_user m = u"
  by (auto simp: put_member_def dest: set_update_first split: if_splits)

lemma good_setMember [keeps_inv]:
  "good_content s \<Longrightarrow> ValidLevel lvl \<Longrightarrow> u \<noteq> [] \<Longrightarrow> good_content (setMemberLocked q u lvl s)"
  by (rule good_contentI)
    (auto simp: setMemberLocked_def dest: good_contentD members_locked_valid dest!: set_put_member split: if_splits)

lemma good_put_members [keeps_inv]:
  "good_content s \<Longrightarrow> (\<And>m. m \<in> set ms \<Longrightarrow> pm_user m \<noteq> [] \<and> ValidLevel (pm_level m)) \<Longrightarrow> good_content (put_members q ms s)"
  by (rule good_contentI) (auto simp: put_members_def dest: good_contentD split: if_splits)

lemma good_remove_user [keeps_inv]: "good_content s \<Longrightarrow> good_content (remove_user_mem u s)"
  by (rule good_contentI)
    (auto simp: remove_user_mem_def without_team_user_def without_user_def fm_lookups
      dest: good_contentD split: if_splits bind_splits)

lemma good_put_team [keeps_inv]:
  "good_content s \<Longrightarrow> (\<And>q lvl. fmlookup (tm_grants t) q = Some lvl \<Longrightarrow> ValidLevel lvl) \<Longrightarrow> good_content (put_team i t s)"
  by (rule good_contentI) (auto simp: put_team_def dest: good_contentD split: if_splits)

lemma good_drop_team [keeps_inv]: "good_content s \<Longrightarrow> good_content (s\<lparr>ps_teams := fmdrop i (ps_teams s)\<rparr>)"
  by (rule good_contentI) (auto dest: good_contentD split: if_splits)

lemma good_settings [keeps_inv]:
  "good_content s \<Longrightarrow> good_content (s\<lparr>ps_default_visibility := v\<rparr>)"
  "good_content s \<Longrightarrow> good_content (s\<lparr>ps_personal_off := b\<rparr>)"
  "good_content s \<Longrightarrow> good_content (s\<lparr>ps_reserved := ns\<rparr>)"
  by (auto simp: good_content_def)


lemma migrated_flags_good:
  "Visibility f = [] \<or> ValidVisibility (Visibility f) \<Longrightarrow> ValidVisibility (Visibility (fst (migrated_flags r l fr f)))"
  by (auto simp: migrated_flags_def ValidVisibility_def)

lemma migrate_flags_lookup:
  assumes "distinct ns"
  shows "fmlookup (fst (migrate_flags own legacy fresh ns data)) q =
     (if q \<in> set ns then Some (fst (migrated_flags (q \<in> set own) legacy fresh (fm_get no_flags data q)))
      else fmlookup data q)"
  using assms
proof (induction ns arbitrary: data)
  case (Cons n ns)
  then show ?case by (auto simp: case_prod_beta)
qed simp

lemma migrate_flags_noseed:
  assumes "distinct ns"
  shows "snd (migrate_flags own legacy fresh ns data) =
           filter (\<lambda>q. snd (migrated_flags (q \<in> set own) legacy fresh (fm_get no_flags data q))) ns"
  using assms
proof (induction ns arbitrary: data)
  case (Cons n ns)
  then have "filter (\<lambda>q. snd (migrated_flags (q \<in> set own) legacy fresh (fm_get no_flags (fmupd n f data) q))) ns
      = filter (\<lambda>q. snd (migrated_flags (q \<in> set own) legacy fresh (fm_get no_flags data q))) ns" for f
    by (intro filter_cong) auto
  with Cons show ?case by (auto simp: case_prod_beta)
qed simp

lemma good_seed_user: "good_content s \<Longrightarrow> u \<noteq> [] \<Longrightarrow> good_content (fst (seed_user u ns s))"
proof (induction ns arbitrary: s)
  case (Cons n ns)
  have "good_content (setMemberLocked n u GrantWrite s)"
    using Cons.prems by (intro good_setMember) (simp_all add: ValidLevel_def)
  with Cons show ?case by (auto simp: case_prod_beta split: option.splits)
qed simp

lemma good_seed_users: "good_content s \<Longrightarrow> good_content (fst (seed_users us ns s))"
proof (induction us arbitrary: s)
  case (Cons u us)
  with good_seed_user [OF Cons.prems, of u ns] show ?case
    by (cases "u = []") (auto simp: case_prod_beta)
qed simp

lemma distinct_migration_names: "distinct (migration_names vault s)"
  by (simp add: migration_names_def sorted_list_of_fset.rep_eq)

lemma set_migration_names:
  "q \<in> set (migration_names vault s) \<longleftrightarrow>
     q \<in> set vault \<and> q \<noteq> [] \<or> fmlookup (ps_data s) q \<noteq> None \<or> fmlookup (ps_members s) q \<noteq> None"
  by (auto simp: migration_names_def sorted_list_of_fset.rep_eq fset_of_list.rep_eq fmlookup_dom_iff)

lemma good_migrate_data:
  assumes "good_content s"
  shows "good_content (s\<lparr>ps_data := fst (migrate_flags own legacy fresh (migration_names vault s) (ps_data s))\<rparr>)"
proof (rule good_contentI)
  fix q f
  assume "fmlookup (ps_data (s\<lparr>ps_data := fst (migrate_flags own legacy fresh (migration_names vault s) (ps_data s))\<rparr>)) q = Some f"
  then have *: "(if q \<in> set (migration_names vault s)
       then Some (fst (migrated_flags (q \<in> set own) legacy fresh (fm_get no_flags (ps_data s) q)))
       else fmlookup (ps_data s) q) = Some f"
    by (simp add: migrate_flags_lookup distinct_migration_names)
  have "Visibility (fm_get no_flags (ps_data s) q) = [] \<or> ValidVisibility (Visibility (fm_get no_flags (ps_data s) q))"
    using good_contentD(1) [OF assms] by (cases "fmlookup (ps_data s) q") (auto simp: fm_get_def no_flags_def)
  from migrated_flags_good [OF this] * good_contentD(1) [OF assms]
  show "Visibility f = [] \<or> ValidVisibility (Visibility f)" by (auto split: if_splits)
qed (use assms in \<open>auto dest: good_contentD\<close>)

lemma good_migrate [keeps_inv]:
  assumes "good_content s"
  shows "good_content (snd (migrate_mem vault users own s))"
proof -
  let ?ns = "migration_names vault s"
  let ?legacy = "ps_member_scope s = MemberScopeMembers"
  let ?fresh = "ps_mtime s = 0 \<and> users = []"
  let ?s1 = "s\<lparr>ps_data := fst (migrate_flags own ?legacy ?fresh ?ns (ps_data s))\<rparr>"
  have 1: "good_content ?s1" by (rule good_migrate_data [OF assms])
  have 2: "good_content (t\<lparr>ps_default_visibility := v, ps_member_scope := x, ps_access_model := k\<rparr>)"
    if "good_content t" for t :: proj_store and v x k
    using that by (simp add: good_content_def)
  show ?thesis
    using 2 [OF 1] 2 [OF good_seed_users [OF 1]]
    by (auto simp: migrate_mem_def Let_def case_prod_beta)
qed

end
