(* ===== verification/ProjectSteps.thy ===== *)
theory ProjectSteps
  imports ProjectInv
begin

text \<open>
  The projects store under its operations and under other writers of its file: the step
  relation, its invariant by rule induction, the access contract of a reachable store, and
  what the single operations promise about who can reach a project.
\<close>

subsection \<open>Steps\<close>

inductive proj_step :: "proj_sys \<Rightarrow> proj_sys \<Rightarrow> bool" where
  sync: "proj_step sys (proj_sync sys)"
| for_read: "proj_step sys (proj_reload_for_read now sys)"
| set_flags: "proj_step sys (snd (Set_flags name f out sys))"
| delete: "proj_step sys (snd (Delete name out sys))"
| rename: "proj_step sys (snd (Rename old new now out sys))"
| default_visibility: "proj_step sys (snd (SetDefaultVisibility v out sys))"
| reserved: "proj_step sys (SetReservedNames names sys)"
| personal: "proj_step sys (snd (SetPersonalProjects on out sys))"
| set_member: "proj_step sys (snd (SetMember q u lvl out sys))"
| remove_member: "proj_step sys (snd (RemoveMember q u out sys))"
| remove_user: "proj_step sys (snd (RemoveUserEverywhere u out sys))"
| migrate: "proj_step sys (snd (MigrateAccessModel vault users own out sys))"
| create_team: "proj_step sys (snd (CreateTeam name descr draws now out sys))"
| update_team: "proj_step sys (snd (UpdateTeam tid name' descr' out sys))"
| delete_team: "proj_step sys (snd (DeleteTeam tid out sys))"
| add_team_user: "proj_step sys (snd (AddTeamUser tid u out sys))"
| remove_team_user: "proj_step sys (snd (RemoveTeamUser tid u out sys))"
| set_team_grant: "proj_step sys (snd (SetTeamGrant tid q lvl out sys))"
| remove_team_grant: "proj_step sys (snd (RemoveTeamGrant tid q out sys))"
| set_access: "proj_step sys (snd (SetAccess name a out sys))"
| external_write: "good_content c \<Longrightarrow> proj_step (s, f) (s, Present t (Some c))"
| external_damage: "f' \<in> {Absent, StatError, Present t None} \<Longrightarrow> proj_step (s, f) (s, f')"

inductive_cases proj_stepE: "proj_step sys sys'"

text \<open>One lemma per shape of operation.\<close>

lemma good_sysD: "good_sys sys \<Longrightarrow> good_content (fst sys)"
  by (simp add: good_sys_def)

lemma good_sys_mem: "good_sys sys \<Longrightarrow> good_content s \<Longrightarrow> good_sys (s, snd sys)"
  by (simp add: good_sys_def)

lemma good_update_with:
  "good_sys sys \<Longrightarrow> (\<And>s. good_content s \<Longrightarrow> good_content (g s)) \<Longrightarrow> good_sys (snd (proj_update_with r g out sys))"
proof -
  assume "good_sys sys" and "\<And>s. good_content s \<Longrightarrow> good_content (g s)"
  from good_update [OF this] have "good_sys (snd (proj_update g out sys))" .
  then show ?thesis
    by (cases "proj_update g out sys"; cases "fst (proj_update g out sys)") (simp_all add: proj_update_with_def)
qed

lemma good_save_snd: "good_sys (s, f) \<Longrightarrow> good_sys (snd (proj_save out (s, f)))"
  by (cases "proj_save out (s, f)") (auto intro: good_save)

lemma good_save_or_restore:
  assumes "good_sys sys" and "\<And>s. good_content s \<Longrightarrow> good_content (g s)"
    and "\<And>s. restore_snapshot ns s (g s) = s"
  shows "good_sys (snd (case proj_save out (g (fst sys), snd sys) of
              (True, sys') \<Rightarrow> (Inr (), sys')
            | (False, (s', f')) \<Rightarrow> (Inl e, (restore_snapshot ns (fst sys) s', f'))))"
proof (cases out)
  case SaveFails
  with assms show ?thesis by (simp add: proj_save_def)
next
  case (Saved t b)
  from assms(1,2) have "good_sys (g (fst sys), snd sys)" by (simp add: good_sys_def)
  from good_save [OF this, of out] Saved show ?thesis by (simp add: proj_save_def)
qed

lemma team_grants_valid:
  "good_sys sys \<Longrightarrow> fmlookup (ps_teams (fst sys)) tid = Some t \<Longrightarrow> fmlookup (tm_grants t) q = Some lvl \<Longrightarrow> ValidLevel lvl"
  using good_contentD(3) good_sysD by blast

lemma good_Rename: "good_sys sys \<Longrightarrow> good_sys (snd (Rename old new now out sys))"
  using good_save_or_restore [where g = "rename_mem old new now" and ns = "[old, new]" and e = ProjSaveFailed, OF good_sync]
  by (simp add: Rename_def Let_def good_rename_mem rename_restore)

lemma good_SetAccess: "good_sys sys \<Longrightarrow> good_sys (snd (SetAccess name a out sys))"
  using good_save_or_restore [where g = "set_access_mem name a" and ns = "[name]" and e = ProjSaveFailed, OF good_sync]
  by (auto simp: SetAccess_def Let_def good_set_access set_access_restore split: option.splits)

lemma good_UpdateTeam:
  assumes "good_sys sys"
  shows "good_sys (snd (UpdateTeam tid nm descr out sys))"
proof -
  have good: "good_sys (proj_sync sys)" by (rule good_sync [OF assms])
  have put: "good_sys (snd (proj_update_with t2 (put_team tid t2) out (proj_sync sys)))"
    if "fmlookup (ps_teams (fst (proj_sync sys))) tid = Some t" and "tm_grants t2 = tm_grants t" for t t2
    by (rule good_update_with [OF good], rule good_put_team)
      (use that team_grants_valid [OF good] in auto)
  show ?thesis
    using good
    by (auto simp: UpdateTeam_def Let_def split: option.splits sum.splits if_splits intro!: put)
qed

lemma good_team_op:
  assumes "good_sys sys" and "fmlookup (ps_teams (fst sys)) tid = Some t"
    and "\<And>q lvl. fmlookup (tm_grants t') q = Some lvl \<Longrightarrow> fmlookup (tm_grants t) q = Some lvl \<or> ValidLevel lvl"
  shows "good_sys (snd (proj_update (put_team tid t') out sys))"
  by (rule good_update [OF assms(1)], rule good_put_team)
    (use assms(3) team_grants_valid [OF assms(1,2)] in auto)

lemma good_Migrate: "good_sys sys \<Longrightarrow> good_sys (snd (MigrateAccessModel vault users own out sys))"
proof -
  assume "good_sys sys"
  then have good: "good_sys (proj_sync sys)" by (rule good_sync)
  let ?m = "migrate_mem vault users own (fst (proj_sync sys))"
  have "good_sys (snd ?m, snd (proj_sync sys))"
    using good by (intro good_sys_mem good_migrate) (simp_all add: good_sysD)
  from good_save_snd [OF this, of out] good show ?thesis
    by (auto simp: MigrateAccessModel_def Let_def case_prod_beta proj_save_err_def)
qed

lemma proj_step_good: "proj_step sys sys' \<Longrightarrow> good_sys sys \<Longrightarrow> good_sys sys'"
proof (induction rule: proj_step.induct)
  case (set_flags sys name f out)
  then show ?case by (auto simp: Set_flags_def intro!: good_update good_sync good_put_flags)
next
  case (delete sys name out)
  then show ?case by (auto simp: Delete_def Let_def intro!: good_update good_sync good_delete_mem)
next
  case (default_visibility sys v out)
  then show ?case by (auto simp: SetDefaultVisibility_def intro!: good_update good_sync good_settings)
next
  case (reserved sys names)
  then show ?case by (auto simp: SetReservedNames_def intro!: good_sys_mem good_settings dest: good_sysD)
next
  case (personal sys on out)
  then show ?case by (auto simp: SetPersonalProjects_def Let_def intro!: good_update good_sync good_settings)
next
  case (set_member sys q u lvl out)
  then show ?case by (auto simp: SetMember_def intro!: good_update good_sync good_setMember)
next
  case (remove_member sys q u out)
  have "good_sys (proj_sync sys)" by (rule good_sync [OF remove_member])
  from members_locked_valid [OF good_sysD [OF this]] have "pm_user m \<noteq> [] \<and> ValidLevel (pm_level m)" if "m \<in> set (without_user u (members_locked (fst (proj_sync sys)) q))" for m
    using that by (auto simp: without_user_def)
  with \<open>good_sys (proj_sync sys)\<close> show ?case
    by (auto simp: RemoveMember_def Let_def intro!: good_update good_put_members)
next
  case (remove_user sys u out)
  have "good_sys (proj_sync sys)" by (rule good_sync [OF remove_user])
  then show ?case
    by (auto simp: RemoveUserEverywhere_def Let_def intro!: good_update good_remove_user good_sys_mem dest: good_sysD)
next
  case (create_team sys name descr draws now out)
  then show ?case
    by (auto simp: CreateTeam_def Let_def intro!: good_update_with good_sync good_put_team split: sum.splits option.splits)
next
  case (delete_team sys tid out)
  then show ?case by (auto simp: DeleteTeam_def Let_def intro!: good_update good_sync good_drop_team)
next
  case (add_team_user sys tid u out)
  then have "good_sys (proj_sync sys)" by (rule good_sync)
  with add_team_user show ?case by (auto simp: AddTeamUser_def Let_def intro!: good_team_op split: option.splits)
next
  case (remove_team_user sys tid u out)
  then have "good_sys (proj_sync sys)" by (rule good_sync)
  then show ?case
    by (auto simp: RemoveTeamUser_def Let_def without_team_user_def intro!: good_team_op split: option.splits)
next
  case (set_team_grant sys tid q lvl out)
  then have "good_sys (proj_sync sys)" by (rule good_sync)
  with set_team_grant show ?case
    by (auto simp: SetTeamGrant_def Let_def intro!: good_team_op split: option.splits if_splits)
next
  case (remove_team_grant sys tid q out)
  then have "good_sys (proj_sync sys)" by (rule good_sync)
  then show ?case
    by (auto simp: RemoveTeamGrant_def Let_def drop_grants_def intro!: good_team_op split: option.splits if_splits)
next
  case (external_write c s f t)
  then show ?case by (simp add: good_sys_def)
next
  case (external_damage f' t s f)
  then show ?case by (auto simp: good_sys_def)
qed (simp_all add: good_sync good_for_read good_Rename good_SetAccess good_UpdateTeam good_Migrate)

lemma proj_reachable_good: "proj_step\<^sup>*\<^sup>* sys sys' \<Longrightarrow> good_sys sys \<Longrightarrow> good_sys sys'"
  by (induction rule: rtranclp_induct) (auto intro: proj_step_good)

lemma good_open: "(\<And>t c. f = Present t (Some c) \<Longrightarrow> good_content c) \<Longrightarrow> good_sys (proj_open f)"
  by (cases f)
    (auto simp: good_sys_def proj_open_def proj_load_def proj_reset_def good_install good_empty
      split: option.splits intro!: good_install [OF good_empty] good_contentI)

text \<open>The stores that an installation can have: opened without a file, then any steps.\<close>

definition proj_reachable :: "proj_sys \<Rightarrow> bool" where
  "proj_reachable sys = proj_step\<^sup>*\<^sup>* (proj_open Absent) sys"

lemma reachable_good: "proj_reachable sys \<Longrightarrow> good_sys sys"
  unfolding proj_reachable_def by (erule proj_reachable_good) (rule good_open, simp)

end
