(* ===== verification/ProjectClaims.thy ===== *)
theory ProjectClaims
  imports ProjectSteps
begin

text \<open>
  What the projects store promises about who reaches a project: the access decision over
  its content, and what renaming, deleting, restoring, removing an account and migrating
  do to it.
\<close>

subsection \<open>Who holds what\<close>

text \<open>An account holds a level on a project directly or through a team it is in.\<close>

definition team_holds :: "(string, team) fmap \<Rightarrow> string \<Rightarrow> string \<Rightarrow> string \<Rightarrow> bool" where
  "team_holds ts u q lvl \<longleftrightarrow>
     (\<exists>i t. fmlookup ts i = Some t \<and> u \<in> set (tm_users t) \<and> fmlookup (tm_grants t) q = Some lvl)"

definition holds :: "'a proj_file_scheme \<Rightarrow> string \<Rightarrow> string \<Rightarrow> string \<Rightarrow> bool" where
  "holds s u q lvl \<longleftrightarrow>
     (\<exists>m. find (\<lambda>m. pm_user m = u) (fm_get [] (ps_members s) q) = Some m \<and> pm_level m = lvl) \<or>
     team_holds (ps_teams s) u q lvl"

lemma team_holds_map:
  "team_holds (fmmap_keys g ts) u q lvl \<longleftrightarrow>
     (\<exists>i t. fmlookup ts i = Some t \<and> u \<in> set (tm_users (g i t)) \<and> fmlookup (tm_grants (g i t)) q = Some lvl)"
  "team_holds (fmmap h ts) u q lvl \<longleftrightarrow>
     (\<exists>i t. fmlookup ts i = Some t \<and> u \<in> set (tm_users (h t)) \<and> fmlookup (tm_grants (h t)) q = Some lvl)"
  by (auto simp: team_holds_def)

definition stored_visibility :: "'a proj_file_scheme \<Rightarrow> string \<Rightarrow> string" where
  "stored_visibility s q =
     (let f = fm_get no_flags (ps_data s) q in
      if Visibility f \<noteq> [] then Visibility f
      else if Public f then VisibilityPublic
      else if ValidVisibility (ps_default_visibility s) then ps_default_visibility s else VisibilityPrivate)"

lemma visibility_locked_stored: "visibility_locked s q = stored_visibility s q"
  by (simp add: visibility_locked_def stored_visibility_def default_visibility_locked_def Let_def)

lemma for_read_twice:
  "proj_reload_for_read now (proj_reload_for_read now sys) = proj_reload_for_read now sys"
proof (cases sys)
  case (Pair s f)
  have "ps_checked (proj_reload f (s\<lparr>ps_checked := now\<rparr>)) = now"
    by (auto simp: proj_reload_def proj_load_def proj_reset_def proj_install_def split: json_file.splits option.splits)
  with Pair show ?thesis by (simp add: proj_reload_for_read_def staleCheckEvery_def)
qed

text \<open>The memory that a request at time \<open>now\<close> is answered from.\<close>

definition read_view :: "time \<Rightarrow> proj_sys \<Rightarrow> proj_store" where
  "read_view now sys = fst (proj_reload_for_read now sys)"

lemma config_visibility_store:
  "config_visibility (AccessConfig now (Some sys)) q = stored_visibility (read_view now sys) q"
  by (simp add: config_visibility_def AccessConfig_def Visibility_of_def Let_def visibility_locked_stored read_view_def)

lemma team_levels_iff:
  "lvl \<in> tg_level ` set (teamLevelsForLocked s u q) \<longleftrightarrow>
     team_holds (ps_teams s) u q lvl"
proof -
  have "lvl \<in> tg_level ` set (teamLevelsForLocked s u q) \<longleftrightarrow>
      (\<exists>g. g \<in> set (team_grants_where (\<lambda>t. u \<in> set (tm_users t)) q s) \<and> tg_level g = lvl)"
    by (auto simp: teamLevelsForLocked_def by_team_name_def)
  also have "\<dots> \<longleftrightarrow> (\<exists>g. (\<exists>i t. fmlookup (ps_teams s) i = Some t \<and> u \<in> set (tm_users t) \<and>
        (\<exists>l. fmlookup (tm_grants t) q = Some l \<and> g = \<lparr>tg_team = tm_id t, tg_name = tm_name t, tg_level = l\<rparr>)) \<and> tg_level g = lvl)"
    unfolding team_grants_where_def in_map_filter_iff bex_fm_list
    by (rule arg_cong [where f = Ex], rule ext, rule arg_cong2 [where f = "(\<and>)"], rule arg_cong [where f = Ex], rule ext,
        rule arg_cong [where f = Ex], rule ext) (auto split: option.splits)
  finally show ?thesis unfolding team_holds_def by (metis (no_types, lifting) team_grant.select_convs(3))
qed

lemma config_grants_levels:
  assumes "role_valid (Role p)" and "Role p \<noteq> RoleOwner" and "UserID p \<noteq> []"
  shows "gs_level ` set (config_grants p (AccessConfig now (Some sys)) q) = ParseLevel ` {lvl. holds (read_view now sys) (UserID p) q lvl}"
proof -
  let ?s = "read_view now sys" and ?u = "UserID p"
  have "config_grants p (AccessConfig now (Some sys)) q =
      (case memberLevelLocked ?s q ?u of None \<Rightarrow> [] | Some lvl \<Rightarrow> [\<lparr>gs_level = ParseLevel lvl, gs_via = ''grant:'' @ lvl\<rparr>])
      @ map team_source (teamLevelsForLocked ?s ?u q)"
    using assms
    by (auto simp: config_grants_def AccessConfig_def role_valid_def member_sources_def MemberLevel_def
        TeamLevelsFor_def Let_def for_read_twice read_view_def)
  then have "gs_level ` set (config_grants p (AccessConfig now (Some sys)) q) =
      ParseLevel ` ({lvl. memberLevelLocked ?s q ?u = Some lvl} \<union> tg_level ` set (teamLevelsForLocked ?s ?u q))"
    by (cases "memberLevelLocked ?s q ?u") (auto simp: team_source_def image_image image_Un)
  also have "{lvl. memberLevelLocked ?s q ?u = Some lvl} \<union> tg_level ` set (teamLevelsForLocked ?s ?u q)
      = {lvl. holds ?s ?u q lvl}"
    by (rule set_eqI) (simp only: Un_iff mem_Collect_eq team_levels_iff, auto simp: holds_def memberLevelLocked_def members_locked_def)
  finally show ?thesis .
qed

lemma holds_valid: "good_content s \<Longrightarrow> holds s u q lvl \<Longrightarrow> ValidLevel lvl"
proof -
  assume good: "good_content s" and "holds s u q lvl"
  then consider m where "m \<in> set (fm_get [] (ps_members s) q)" "pm_level m = lvl"
    | i t where "fmlookup (ps_teams s) i = Some t" "fmlookup (tm_grants t) q = Some lvl"
    unfolding holds_def team_holds_def by (auto dest: find_Some_iff')
  then show ?thesis
    by cases (auto dest!: fm_get_in dest: good_contentD [OF good])
qed

lemma valid_level_parses: "ValidLevel lvl \<Longrightarrow> ParseLevel lvl \<noteq> LevelNone"
  by (auto simp: ValidLevel_def ParseLevel_def grant_consts)

lemma stored_visibility_valid: "good_content s \<Longrightarrow> ValidVisibility (stored_visibility s q)"
  by (cases "fmlookup (ps_data s) q")
    (auto simp: stored_visibility_def fm_get_def Let_def no_flags_def ValidVisibility_def dest: good_contentD(1))

lemma good_read_view: "good_sys sys \<Longrightarrow> good_content (read_view now sys)"
  using good_sysD [OF good_for_read] by (simp add: read_view_def)

interpretation storecfg: access_provider "\<lambda>sys. AccessConfig now (Some sys)" good_sys for now
proof
  fix sys q
  assume "good_sys sys"
  from stored_visibility_valid [OF good_read_view [OF this]]
  show "config_visibility (AccessConfig now (Some sys)) q \<in> {VisibilityPublic, VisibilityInternal, VisibilityPrivate}"
    by (simp add: config_visibility_store ValidVisibility_def)
next
  fix sys g p q
  assume good: "good_sys sys" and g: "g \<in> set (config_grants p (AccessConfig now (Some sys)) q)"
  show "gs_level g \<noteq> LevelNone"
  proof (cases "role_valid (Role p) \<and> Role p \<noteq> RoleOwner \<and> UserID p \<noteq> []")
    case True
    with g have "gs_level g \<in> ParseLevel ` {lvl. holds (read_view now sys) (UserID p) q lvl}"
      using config_grants_levels [of p now sys q] by blast
    then obtain lvl where "gs_level g = ParseLevel lvl" and "holds (read_view now sys) (UserID p) q lvl" by blast
    with valid_level_parses [OF holds_valid [OF good_read_view [OF good]]] show ?thesis by metis
  next
    case False
    with g show ?thesis
      by (auto simp: config_grants_def role_valid_def role_consts split: option.splits if_splits)
  qed
qed

lemma parse_read_iff: "ParseLevel lvl \<noteq> LevelNone \<longleftrightarrow> ValidLevel lvl"
  by (simp add: ParseLevel_def ValidLevel_def grant_consts)

lemma parse_write_iff: "LevelWrite \<le> ParseLevel lvl \<longleftrightarrow> lvl = GrantWrite \<or> lvl = GrantAdmin"
  by (simp add: ParseLevel_def grant_consts level_order)

text \<open>C2: In every store an installation can reach, an account that is not the owner reads a
  project exactly when it (a member or a guest with an id) holds a grant on it, directly or
  through a team, or the project is public, or it is internal and the account a member
  (and the account is not restricted to its grants).\<close>

theorem store_access_rule:
  assumes "proj_reachable sys" and "Role p \<noteq> RoleOwner"
  shows "CanAccessProject p q (AccessConfig now (Some sys)) \<longleftrightarrow>
     role_valid (Role p) \<and> UserID p \<noteq> [] \<and> (\<exists>lvl. holds (read_view now sys) (UserID p) q lvl) \<or>
     \<not> Restricted p \<and>
       (stored_visibility (read_view now sys) q = VisibilityPublic \<or>
        stored_visibility (read_view now sys) q = VisibilityInternal \<and> Role p = RoleMember)"
proof -
  have grants: "config_grants p (AccessConfig now (Some sys)) q \<noteq> [] \<longleftrightarrow>
      role_valid (Role p) \<and> UserID p \<noteq> [] \<and> (\<exists>lvl. holds (read_view now sys) (UserID p) q lvl)"
  proof (cases "role_valid (Role p) \<and> UserID p \<noteq> []")
    case True
    with bex_image_eq [OF config_grants_levels [of p now sys q], of "\<lambda>l. True"] assms(2)
    have "(\<exists>g. g \<in> set (config_grants p (AccessConfig now (Some sys)) q)) \<longleftrightarrow>
        (\<exists>lvl. holds (read_view now sys) (UserID p) q lvl)" by simp
    with True show ?thesis by (metis ex_in_conv set_empty)
  next
    case False
    then show ?thesis using assms(2) by (auto simp: config_grants_def role_valid_def split: option.splits)
  qed
  show ?thesis
    using storecfg.access_iff [where now = now and q = q, OF reachable_good [OF assms(1)] assms(2)]
    by (simp add: grants config_visibility_store)
qed

text \<open>Writing a project never comes from its visibility: an account that is not the owner
  writes it exactly when it is a member with an id that holds a write or admin grant on it,
  directly or through a team.\<close>

theorem store_write_rule:
  assumes "Role p \<noteq> RoleOwner"
  shows "CanWriteProject p q (AccessConfig now (Some sys)) \<longleftrightarrow>
     Role p = RoleMember \<and> UserID p \<noteq> [] \<and>
     (\<exists>lvl. holds (read_view now sys) (UserID p) q lvl \<and> (lvl = GrantWrite \<or> lvl = GrantAdmin))"
proof (cases "Role p = RoleMember \<and> UserID p \<noteq> []")
  case True
  then have "gs_level ` set (config_grants p (AccessConfig now (Some sys)) q) =
      ParseLevel ` {lvl. holds (read_view now sys) (UserID p) q lvl}"
    using assms by (intro config_grants_levels) (simp_all add: role_valid_def)
  from bex_image_eq [OF this, of "\<lambda>l. LevelWrite \<le> l"]
  have "(\<exists>g\<in>set (config_grants p (AccessConfig now (Some sys)) q). LevelWrite \<le> gs_level g) \<longleftrightarrow>
      (\<exists>lvl. holds (read_view now sys) (UserID p) q lvl \<and> LevelWrite \<le> ParseLevel lvl)"
    by simp
  with True show ?thesis by (simp add: write_level_iff [OF assms] parse_write_iff)
next
  case False
  then show ?thesis
    using assms by (auto simp: write_level_iff config_grants_def split: option.splits if_splits)
qed

subsection \<open>Renaming, deleting and restoring\<close>

lemma sync_idem: "proj_sync (proj_sync sys) = proj_sync sys"
proof (cases sys)
  case (Pair s f)
  then show ?thesis
    by (cases f) (auto simp: proj_sync_def projfile.reload_idem coherent_with_def proj_file_defs split: option.splits)
qed

lemma update_ok:
  "proj_update g out sys = (Inr u, sys') \<Longrightarrow>
     \<exists>t b. out = Saved t b \<and>
       fst sys' = (if b then (g (fst sys))\<lparr>ps_mtime := t\<rparr> else g (fst sys)) \<and>
       snd sys' = Present t (Some (proj_content (g (fst sys))))"
  by (cases out; cases sys) (auto simp: proj_update_def proj_save_err_def proj_save_def)

text \<open>Parts of the state that recording a time, or the file, does not change.\<close>

lemma holds_same:
  "ps_members s = ps_members s' \<Longrightarrow> ps_teams s = ps_teams s' \<Longrightarrow> holds s u q lvl = holds s' u q lvl"
  for s :: "'a proj_file_scheme" and s' :: "'b proj_file_scheme"
  by (simp add: holds_def)

lemma holds_mtime [simp]: "holds (s\<lparr>ps_mtime := t\<rparr>) u q lvl = holds s u q lvl"
  by (rule holds_same) simp_all

lemma visibility_mtime [simp]: "stored_visibility (s\<lparr>ps_mtime := t\<rparr>) q = stored_visibility s q"
  by (simp add: stored_visibility_def Let_def)

lemma holds_content [simp]: "holds (proj_content s) u q lvl = holds s u q lvl"
  by (rule holds_same) (simp_all add: proj_content_def)

lemma rename_grants_at:
  "fmlookup (tm_grants (rename_grants old new t)) q =
     (if q = new then fmlookup (tm_grants t) old else if q = old then None else fmlookup (tm_grants t) q)"
  by (auto simp: rename_grants_def split: option.splits)

lemma rename_grants_users [simp]: "tm_users (rename_grants old new t) = tm_users t"
  by (simp add: rename_grants_def split: option.splits)

lemma holds_rename_at:
  "holds (rename_mem old new now s) u q lvl \<longleftrightarrow> (if q = new then holds s u old lvl else q \<noteq> old \<and> holds s u q lvl)"
  by (auto simp: holds_def rename_mem_def Let_def fm_get_def rename_entry_lookup rename_grants_at team_holds_map team_holds_def [of "ps_teams s"])

text \<open>The level a team holds on a project.\<close>

definition team_level :: "'a proj_file_scheme \<Rightarrow> string \<Rightarrow> string \<Rightarrow> string option" where
  "team_level s i q = Option.bind (fmlookup (ps_teams s) i) (\<lambda>t. fmlookup (tm_grants t) q)"

text \<open>C6: A successful rename of a project moves its flags, visibility among them, its members and its team grants to the new
  name, whatever an earlier project of that name had left, and leaves nothing under the old one; every other project's
  flags, members and team grants, the teams themselves and the settings of the store stay as they were, and the file then
  holds what memory holds. So an account holds on the new name what it held on the old one, and on others what it held.\<close>

theorem Rename_moves_access:
  assumes "Rename old new now out sys = (Inr (), sys')"
  shows "let s = fst (proj_sync sys) in
    fmlookup (ps_data (fst sys')) q =
        (if q = new then Some ((fm_get no_flags (ps_data s) old)\<lparr>Since := now\<rparr>)
         else if q = old then None else fmlookup (ps_data s) q)
    \<and> fmlookup (ps_members (fst sys')) q =
        (if q = new then fmlookup (ps_members s) old else if q = old then None else fmlookup (ps_members s) q)
    \<and> team_level (fst sys') i q =
        (if q = new then team_level s i old else if q = old then None else team_level s i q)
    \<and> map_option (\<lambda>t. t\<lparr>tm_grants := fmempty\<rparr>) (fmlookup (ps_teams (fst sys')) i) =
        map_option (\<lambda>t. t\<lparr>tm_grants := fmempty\<rparr>) (fmlookup (ps_teams s) i)
    \<and> (holds (fst sys') u q lvl \<longleftrightarrow> (if q = new then holds s u old lvl else q \<noteq> old \<and> holds s u q lvl))
    \<and> stored_visibility (fst sys') new = stored_visibility s old
    \<and> (ps_member_scope (fst sys'), ps_default_visibility (fst sys'), ps_personal_off (fst sys'), ps_access_model (fst sys')) =
        (ps_member_scope s, ps_default_visibility s, ps_personal_off s, ps_access_model s)
    \<and> (\<exists>t. snd sys' = Present t (Some (proj_content (fst sys'))))"
proof -
  define s where "s = fst (proj_sync sys)"
  let ?m = "rename_mem old new now s"
  have "\<exists>t b. out = Saved t b \<and> fst sys' = (if b then ?m\<lparr>ps_mtime := t\<rparr> else ?m) \<and> snd sys' = Present t (Some (proj_content ?m))"
    using assms(1) unfolding s_def by (cases out) (auto simp: Rename_def Let_def proj_save_def split: if_splits)
  then obtain t b where s': "fst sys' = (if b then ?m\<lparr>ps_mtime := t\<rparr> else ?m)"
    and f': "snd sys' = Present t (Some (proj_content ?m))" by blast
  have same: "ps_data (fst sys') = ps_data ?m" "ps_members (fst sys') = ps_members ?m" "ps_teams (fst sys') = ps_teams ?m"
    "holds (fst sys') u q lvl = holds ?m u q lvl" "stored_visibility (fst sys') new = stored_visibility ?m new"
    "proj_content (fst sys') = proj_content ?m"
    by (simp_all add: s' proj_content_def)
  have data: "fmlookup (ps_data ?m) q =
      (if q = new then Some ((fm_get no_flags (ps_data s) old)\<lparr>Since := now\<rparr>) else if q = old then None else fmlookup (ps_data s) q)"
    by (simp add: rename_mem_def Let_def rename_entry_lookup fm_get_def)
  have members: "fmlookup (ps_members ?m) q =
      (if q = new then fmlookup (ps_members s) old else if q = old then None else fmlookup (ps_members s) q)"
    by (simp add: rename_mem_def Let_def rename_entry_lookup)
  have teams: "team_level ?m i q = (if q = new then team_level s i old else if q = old then None else team_level s i q)"
    by (cases "fmlookup (ps_teams s) i") (simp_all add: team_level_def rename_mem_def Let_def rename_grants_at)
  have kept: "map_option (\<lambda>t. t\<lparr>tm_grants := fmempty\<rparr>) (fmlookup (ps_teams ?m) i) = map_option (\<lambda>t. t\<lparr>tm_grants := fmempty\<rparr>) (fmlookup (ps_teams s) i)"
    by (cases "fmlookup (ps_teams s) i") (simp_all add: rename_mem_def Let_def rename_grants_def split: option.splits)
  have vis: "stored_visibility ?m new = stored_visibility s old"
    by (simp add: stored_visibility_def Let_def rename_mem_def rename_entry_lookup fm_get_def)
  show ?thesis unfolding Let_def s_def [symmetric] unfolding team_level_def same data members kept vis holds_rename_at f' teams [unfolded team_level_def]
    by (simp add: s' rename_mem_def Let_def)
qed

text \<open>When the file cannot be written, a rename and a restore report the failure and leave
  memory and file as the reload before them found them.\<close>

theorem failed_save_restores:
  "snd (Rename old new now SaveFails sys) \<in> {sys, proj_sync sys}
   \<and> snd (SetAccess name a SaveFails sys) \<in> {sys, proj_sync sys}
   \<and> (\<exists>e. fst (Rename old new now SaveFails sys) = Inl e) \<and> (\<exists>e. fst (SetAccess name a SaveFails sys) = Inl e)"
  by (auto simp: Rename_def SetAccess_def Let_def proj_save_def rename_restore set_access_restore split: option.splits)

lemma delete_holds:
  "holds (delete_mem name s) u q lvl \<longleftrightarrow> q \<noteq> name \<and> holds s u q lvl"
  by (auto simp: holds_def delete_mem_def team_holds_map drop_grants_def team_holds_def [of "ps_teams s"] split: if_splits)

lemma Access_lookup:
  "fmlookup (team_grants_on ts name) i = Option.bind (fmlookup ts i) (\<lambda>t. fmlookup (tm_grants t) name)"
  by (cases "fmlookup ts i") (auto simp: team_grants_on_def)

text \<open>A saved access of a store, put back on a store whose teams are those of the same store.\<close>

lemma set_access_grants:
  assumes "good_content s" and "fmlookup (ps_teams s) i = Some t"
  shows "fmlookup (tm_grants (set_team_access name (access_mem s name) i t')) q =
           (if q = name then fmlookup (tm_grants t) name else fmlookup (tm_grants t') q)"
proof (cases "fmlookup (tm_grants t) name")
  case None
  then show ?thesis
    using assms(2) by (auto simp: set_team_access_def access_mem_def Access_lookup split: option.splits)
next
  case (Some lvl)
  with good_contentD(3) [OF assms] have "ValidLevel lvl" by blast
  with Some show ?thesis
    using assms(2) by (auto simp: set_team_access_def access_mem_def Access_lookup split: option.splits)
qed

lemma set_access_users [simp]: "tm_users (set_team_access name a i t) = tm_users t"
  by (simp add: set_team_access_def Let_def split: option.splits)

lemma access_accepted:
  assumes "good_content s"
  shows "find (\<lambda>m. pm_user m = [] \<or> \<not> ValidLevel (pm_level m)) (ac_members (access_mem s name)) = None"
    and "ValidVisibility (Visibility (ac_flags (access_mem s name)))"
    and "ac_flags (access_mem s name) \<noteq> no_flags"
proof -
  show "find (\<lambda>m. pm_user m = [] \<or> \<not> ValidLevel (pm_level m)) (ac_members (access_mem s name)) = None"
    using members_locked_valid [OF assms] by (auto simp: find_None_iff access_mem_def)
  from stored_visibility_valid [OF assms, of name]
  show vis: "ValidVisibility (Visibility (ac_flags (access_mem s name)))"
    by (simp add: access_mem_def visibility_locked_stored)
  then show "ac_flags (access_mem s name) \<noteq> no_flags"
    by (auto simp: no_flags_def ValidVisibility_def visibility_consts)
qed

text \<open>Putting the access back on a store that has lost it gives back who held what.\<close>

lemma restore_access_mem:
  assumes "good_content s"
    and "fmmap g (ps_teams s) = ps_teams s'" and "\<And>t. tm_users (g t) = tm_users t"
    and "\<And>t q. q \<noteq> name \<Longrightarrow> fmlookup (tm_grants (g t)) q = fmlookup (tm_grants t) q"
    and "\<And>q. q \<noteq> name \<Longrightarrow> fmlookup (ps_members s') q = fmlookup (ps_members s) q"
  shows "holds (set_access_mem name (access_mem s name) s') u q lvl = holds s u q lvl"
proof -
  let ?r = "set_access_mem name (access_mem s name) s'"
  have members: "fm_get [] (ps_members ?r) q = fm_get [] (ps_members s) q"
    using assms(5) by (auto simp: set_access_mem_def access_mem_def members_locked_def fm_get_def)
  have "team_holds (ps_teams ?r) u q lvl = team_holds (ps_teams s) u q lvl"
  proof -
    let ?h = "\<lambda>i t. set_team_access name (access_mem s name) i (g t)"
    have "ps_teams ?r = fmmap_keys ?h (ps_teams s)"
      by (rule fmap_ext) (simp add: set_access_mem_def assms(2) [symmetric] option.map_comp comp_def)
    moreover have "fmlookup (tm_grants (?h i t)) q = fmlookup (tm_grants t) q"
      if "fmlookup (ps_teams s) i = Some t" for i t
      using set_access_grants [OF assms(1) that, of name "g t" q] assms(4) by auto
    ultimately show ?thesis
      unfolding team_holds_def [of "ps_teams s"] by (simp only: team_holds_map set_access_users assms(3)) metis
  qed
  with members show ?thesis by (simp add: holds_def)
qed

lemma sync_saved:
  "proj_sync (s\<lparr>ps_mtime := t\<rparr>, Present t c) = (s\<lparr>ps_mtime := t\<rparr>, Present t c)"
  by (simp add: proj_sync_def proj_reload_def)

lemma fmmap_id': "(\<And>i t. fmlookup m i = Some t \<Longrightarrow> g t = t) \<Longrightarrow> fmmap g m = m"
  by (rule fmap_ext) (simp add: map_option_cong [where g = "\<lambda>x. x"] option.map_ident)

lemma fmdrop_absent: "fmlookup m k = None \<Longrightarrow> fmdrop k m = m"
  by (rule fmap_ext) simp

lemma delete_unchanged:
  assumes "fmlookup (ps_data s) name = None" and "fmlookup (ps_members s) name = None"
    and "\<And>i t. fmlookup (ps_teams s) i = Some t \<Longrightarrow> fmlookup (tm_grants t) name = None"
  shows "delete_mem name s = s"
  using assms by (simp add: delete_mem_def fmdrop_absent drop_grants_def fmmap_id')

lemma fBex_dom_iff:
  "(\<exists>i |\<in>| fmdom m. case fmlookup m i of None \<Rightarrow> False | Some t \<Rightarrow> P t) \<longleftrightarrow> (\<exists>i t. fmlookup m i = Some t \<and> P t)"
  by (force simp: fmlookup_dom_iff split: option.splits)

lemma Delete_result:
  assumes "Delete name (Saved t True) sys = (r, sys1)"
  shows "r = Inr () \<and> proj_sync sys1 = sys1 \<and> (\<exists>t'. fst sys1 = (delete_mem name (fst (proj_sync sys)))\<lparr>ps_mtime := t'\<rparr>)"
proof -
  let ?s = "fst (proj_sync sys)"
  consider (same) "delete_mem name ?s = ?s" "r = Inr ()" "sys1 = proj_sync sys"
    | (changed) "proj_update (delete_mem name) (Saved t True) (proj_sync sys) = (r, sys1)"
  proof (cases "fmlookup (ps_data ?s) name \<noteq> None \<or> fmlookup (ps_members ?s) name \<noteq> None
       \<or> (\<exists>i |\<in>| fmdom (ps_teams ?s). case fmlookup (ps_teams ?s) i of None \<Rightarrow> False | Some t \<Rightarrow> fmlookup (tm_grants t) name \<noteq> None)")
    case True
    then have "proj_update (delete_mem name) (Saved t True) (proj_sync sys) = (r, sys1)"
      using assms unfolding Delete_def Let_def by (simp only: not_True_eq_False if_False)
    then show ?thesis by (rule changed)
  next
    case False
    then have "r = Inr ()" and "sys1 = proj_sync sys"
      using assms unfolding Delete_def Let_def by (simp_all only: not_False_eq_True if_True prod.inject)
    moreover have "fmlookup (tm_grants t) name = None" if "fmlookup (ps_teams ?s) i = Some t" for i t
      using False that by (auto simp: fBex_dom_iff)
    ultimately show ?thesis using False by (intro same delete_unchanged) auto
  qed
  then show ?thesis
  proof cases
    case same
    then show ?thesis by (intro conjI exI [of _ "ps_mtime ?s"]) (simp_all add: sync_idem)
  next
    case changed
    then show ?thesis
      by (cases "proj_sync sys") (auto simp: proj_update_def proj_save_err_def proj_save_def sync_saved)
  qed
qed

text \<open>C5: The trash undoes a delete: in a reachable store, deleting a project drops every grant on
  it, and setting the access that was saved before the delete gives every account the
  grants it had, on every project, and every project the visibility it had.\<close>

theorem delete_restore_roundtrip:
  assumes "proj_reachable sys" and "\<not> bad_name name"
    and "Delete name (Saved t1 True) sys = (r1, sys1)"
    and "SetAccess name (fst (Access name sys)) (Saved t2 True) sys1 = (r2, sys2)"
  shows "r1 = Inr () \<and> r2 = Inr () \<and> \<not> holds (fst sys1) u name lvl
    \<and> holds (fst sys2) u q lvl = holds (fst (proj_sync sys)) u q lvl
    \<and> stored_visibility (fst sys2) q = stored_visibility (fst (proj_sync sys)) q"
proof -
  let ?s = "fst (proj_sync sys)" and ?a = "access_mem (fst (proj_sync sys)) name"
  have good: "good_content ?s" by (rule good_sysD [OF good_sync [OF reachable_good [OF assms(1)]]])
  from Delete_result [OF assms(3)] obtain t' where r1: "r1 = Inr ()" and sync1: "proj_sync sys1 = sys1"
    and s1: "fst sys1 = (delete_mem name ?s)\<lparr>ps_mtime := t'\<rparr>" by blast
  have a: "fst (Access name sys) = ?a" by (simp add: Access_def Let_def)
  note accepted = access_accepted [OF good, of name]
  from assms(4) have set: "r2 = Inr () \<and> fst sys2 = (set_access_mem name ?a (fst sys1))\<lparr>ps_mtime := t2\<rparr>"
    using accepted assms(2) sync1
    by (cases sys1) (auto simp: a SetAccess_def sync1 Let_def proj_save_def)
  have "holds (set_access_mem name ?a (fst sys1)) u q lvl = holds ?s u q lvl"
    by (rule restore_access_mem [where g = "drop_grants name", OF good])
      (auto simp: s1 delete_mem_def drop_grants_def)
  moreover have "stored_visibility (set_access_mem name ?a (fst sys1)) q = stored_visibility ?s q"
    using accepted(2,3)
    by (auto simp: stored_visibility_def s1 delete_mem_def set_access_mem_def Let_def ValidVisibility_def
        visibility_consts access_mem_def visibility_locked_def default_visibility_locked_def)
  ultimately show ?thesis
    using set r1 by (simp add: s1 delete_holds)
qed

end
