(* ===== verification/ProjectMigration.thy ===== *)
theory ProjectMigration
  imports ProjectClaims
begin

text \<open>
  What removing an account and migrating to the grants model do to who reaches what, and
  what an operation whose save fails leaves behind.
\<close>

lemma find_filter_other:
  "(\<And>x. p x \<Longrightarrow> k x) \<Longrightarrow> find p (filter k xs) = find p xs"
  by (induction xs) auto

lemma find_without_user:
  "find (\<lambda>m. pm_user m = v) (without_user u ms) = (if v = u then None else find (\<lambda>m. pm_user m = v) ms)"
  by (auto simp: without_user_def find_None_iff intro: find_filter_other)

lemma remove_user_members:
  "fm_get [] (ps_members (remove_user_mem u s)) q = without_user u (fm_get [] (ps_members s) q)"
  by (cases "fmlookup (ps_members s) q") (auto simp: remove_user_mem_def fm_get_def fm_lookups without_user_def)

lemma holds_remove_user:
  "holds (remove_user_mem u s) v q lvl \<longleftrightarrow> v \<noteq> u \<and> holds s v q lvl"
proof -
  have "team_holds (ps_teams (remove_user_mem u s)) v q lvl \<longleftrightarrow> v \<noteq> u \<and> team_holds (ps_teams s) v q lvl"
    by (auto simp: remove_user_mem_def team_holds_map without_team_user_def team_holds_def [of "ps_teams s"])
  then show ?thesis by (auto simp: holds_def remove_user_members find_without_user)
qed

lemma update_mem:
  "\<exists>t. fst (snd (proj_update g out sys)) = (g (fst sys))\<lparr>ps_mtime := t\<rparr>"
proof (cases out)
  case SaveFails
  then show ?thesis
    by (cases sys) (auto simp: proj_update_def proj_save_err_def proj_save_def intro: exI [of _ "ps_mtime (g (fst sys))"])
next
  case (Saved t b)
  then show ?thesis
    by (cases sys; cases b) (auto simp: proj_update_def proj_save_err_def proj_save_def intro: exI [of _ "ps_mtime (g (fst sys))"])
qed

text \<open>Removing an account from every project and team takes every level it held, on every
  project, and changes nothing for the other accounts; this holds for the store in memory
  whether or not the save succeeds.\<close>

theorem removed_user_holds_nothing:
  "holds (fst (snd (RemoveUserEverywhere u out sys))) v q lvl \<longleftrightarrow>
     v \<noteq> u \<and> holds (fst (proj_sync sys)) v q lvl"
proof (cases "has_user u (fst (proj_sync sys))")
  case False
  then show ?thesis by (simp add: RemoveUserEverywhere_def Let_def holds_remove_user)
next
  case True
  obtain t where "fst (snd (proj_update (remove_user_mem u) out (proj_sync sys))) =
      (remove_user_mem u (fst (proj_sync sys)))\<lparr>ps_mtime := t\<rparr>"
    using update_mem by blast
  with True show ?thesis by (simp add: RemoveUserEverywhere_def Let_def holds_remove_user)
qed

subsection \<open>The migration\<close>

lemma holds_member: "memberLevelLocked s q u = Some lvl \<Longrightarrow> holds s u q lvl"
  by (auto simp: holds_def memberLevelLocked_def members_locked_def)

lemma find_put_member:
  "find (\<lambda>m. pm_user m = v) (put_member u lvl ms) =
     (if v = u then map_option (\<lambda>m. m\<lparr>pm_level := lvl\<rparr>)
          (case find (\<lambda>m. pm_user m = u) ms of None \<Rightarrow> Some \<lparr>pm_user = u, pm_level = lvl\<rparr> | Some m \<Rightarrow> Some m)
      else find (\<lambda>m. pm_user m = v) ms)" (is "?l = ?r")
proof -
  have upd: "find (\<lambda>m. pm_user m = v) (update_first (\<lambda>m. pm_user m = u) (\<lambda>m. m\<lparr>pm_level := lvl\<rparr>) ms) = ?r"
    if "list_ex (\<lambda>m. pm_user m = u) ms"
    using that by (induction ms) auto
  have add: "find (\<lambda>m. pm_user m = v) (ms @ [\<lparr>pm_user = u, pm_level = lvl\<rparr>]) = ?r"
    if "\<not> list_ex (\<lambda>m. pm_user m = u) ms"
    using that by (induction ms) (auto split: if_splits)
  show ?thesis unfolding put_member_def using upd add by (cases "list_ex (\<lambda>m. pm_user m = u) ms") simp_all
qed

lemma level_setMember:
  "memberLevelLocked (setMemberLocked n u lvl s) q v =
     (if q = n \<and> v = u then Some lvl else memberLevelLocked s q v)"
  by (simp add: memberLevelLocked_def setMemberLocked_def members_locked_def find_put_member split: option.split)

text \<open>What seeding does to the member grants, as a function of those before.\<close>

definition seeded_level :: "bool \<Rightarrow> string option \<Rightarrow> string option" where
  "seeded_level seed l = (if seed \<and> (l = None \<or> l = Some GrantRead) then Some GrantWrite else l)"

lemma seed_user_level:
  "memberLevelLocked (fst (seed_user u ns s)) q v =
     seeded_level (v = u \<and> q \<in> set ns) (memberLevelLocked s q v)"
proof (induction ns arbitrary: s)
  case Nil
  then show ?case by (simp add: seeded_level_def)
next
  case (Cons n ns)
  then show ?case
    by (cases "memberLevelLocked s n u")
      (auto simp: case_prod_beta level_setMember seeded_level_def grant_consts)
qed

lemma seed_users_level:
  "memberLevelLocked (fst (seed_users us ns s)) q v =
     seeded_level (v \<noteq> [] \<and> v \<in> set us \<and> q \<in> set ns) (memberLevelLocked s q v)"
proof (induction us arbitrary: s)
  case Nil
  then show ?case by (simp add: seeded_level_def)
next
  case (Cons u us)
  then show ?case by (auto simp: case_prod_beta seed_user_level seeded_level_def)
qed

lemma seed_user_data:
  "ps_data (fst (seed_user u ns s)) = ps_data s \<and> ps_teams (fst (seed_user u ns s)) = ps_teams s"
  by (induction ns arbitrary: s) (auto simp: case_prod_beta setMemberLocked_def split: option.splits)

lemma seed_users_data:
  "ps_data (fst (seed_users us ns s)) = ps_data s \<and> ps_teams (fst (seed_users us ns s)) = ps_teams s"
  by (induction us arbitrary: s) (auto simp: case_prod_beta seed_user_data)

lemma migrate_fields:
  fixes s :: proj_store
  defines "legacy \<equiv> ps_member_scope s = MemberScopeMembers"
  defines "fresh us \<equiv> ps_mtime s = 0 \<and> us = []"
  shows "OwnerOnly (fst (migrate_mem vault us own s)) =
           snd (migrate_flags own legacy (fresh us) (migration_names vault s) (ps_data s))"
    and "ps_data (snd (migrate_mem vault us own s)) =
           fst (migrate_flags own legacy (fresh us) (migration_names vault s) (ps_data s))"
    and "ps_access_model (snd (migrate_mem vault us own s)) = accessModelVersion"
    and "memberLevelLocked (snd (migrate_mem vault us own s)) q v =
           seeded_level (\<not> legacy \<and> v \<noteq> [] \<and> v \<in> set us \<and> q \<in> set (migration_names vault s)
               \<and> q \<notin> set (OwnerOnly (fst (migrate_mem vault us own s))))
             (memberLevelLocked s q v)"
proof -
  show "OwnerOnly (fst (migrate_mem vault us own s)) =
           snd (migrate_flags own legacy (fresh us) (migration_names vault s) (ps_data s))"
    by (simp add: migrate_mem_def Let_def case_prod_beta legacy_def fresh_def)
  show "ps_data (snd (migrate_mem vault us own s)) =
           fst (migrate_flags own legacy (fresh us) (migration_names vault s) (ps_data s))"
    by (simp add: migrate_mem_def Let_def case_prod_beta legacy_def fresh_def seed_users_data)
  show "ps_access_model (snd (migrate_mem vault us own s)) = accessModelVersion"
    by (simp add: migrate_mem_def Let_def case_prod_beta)
  have same: "memberLevelLocked (t\<lparr>ps_default_visibility := x, ps_member_scope := y, ps_access_model := k\<rparr>) q v =
       memberLevelLocked t q v" for t :: proj_store and x y k
    by (simp add: memberLevelLocked_def members_locked_def)
  have data: "memberLevelLocked (t\<lparr>ps_data := d\<rparr>) q v = memberLevelLocked t q v" for t :: proj_store and d
    by (simp add: memberLevelLocked_def members_locked_def)
  show "memberLevelLocked (snd (migrate_mem vault us own s)) q v =
           seeded_level (\<not> legacy \<and> v \<noteq> [] \<and> v \<in> set us \<and> q \<in> set (migration_names vault s)
               \<and> q \<notin> set (OwnerOnly (fst (migrate_mem vault us own s))))
             (memberLevelLocked s q v)"
    by (simp add: migrate_mem_def Let_def case_prod_beta legacy_def same data seed_users_level)
      (simp add: seeded_level_def data)
qed

lemma migrate_teams: "ps_teams (snd (migrate_mem vault us own s)) = ps_teams s"
  by (simp add: migrate_mem_def Let_def case_prod_beta seed_users_data)

lemma holds_level: "holds s u q lvl \<longleftrightarrow> memberLevelLocked s q u = Some lvl \<or> team_holds (ps_teams s) u q lvl"
  for s :: proj_store
  by (auto simp: holds_def memberLevelLocked_def members_locked_def split: option.splits)

text \<open>C7: The migration to grants, on a store of the old model, project by project. Every project the vault, the flags or the
  grants name gets an explicit visibility: the one it had, public if it was published, private if the configuration reserves
  it, and else private when memberships already bound (the scope \<open>members\<close>) or the installation is fresh, internal when not.
  Unless memberships bound, every account seeded that held nothing or read on such a project gets write, the projects
  reserved in this way apart, which the report lists; no other level changes, no team's grant changes, and so nobody loses
  write or admin.\<close>

theorem migration_exact:
  assumes "ps_access_model (fst (proj_sync sys)) < accessModelVersion"
    and "MigrateAccessModel vault users own out sys = ((rep, r), sys')"
  shows "let s = fst (proj_sync sys); s' = fst sys'; f = fm_get no_flags (ps_data s) q; l = memberLevelLocked s q u;
      bound = (ps_member_scope s = MemberScopeMembers); fresh = (ps_mtime s = 0 \<and> users = []);
      named = (q \<in> set (migration_names vault s)); reserved = (Visibility f = [] \<and> \<not> Public f \<and> q \<in> set own)
    in (if named
        then fm_get no_flags (ps_data s') q =
          f\<lparr>Visibility := if Visibility f \<noteq> [] then Visibility f else if Public f then VisibilityPublic
              else if reserved \<or> bound \<or> fresh then VisibilityPrivate else VisibilityInternal, Public := False\<rparr>
        else fmlookup (ps_data s') q = fmlookup (ps_data s) q)
    \<and> memberLevelLocked s' q u =
        (if \<not> bound \<and> u \<noteq> [] \<and> u \<in> set users \<and> named \<and> \<not> reserved \<and> (l = None \<or> l = Some GrantRead)
         then Some GrantWrite else l)
    \<and> team_level s' i q = team_level s i q
    \<and> (q \<in> set (OwnerOnly rep) \<longleftrightarrow> named \<and> reserved)
    \<and> (holds s u q GrantWrite \<longrightarrow> holds s' u q GrantWrite) \<and> (holds s u q GrantAdmin \<longrightarrow> holds s' u q GrantAdmin)"
proof -
  define s where "s = fst (proj_sync sys)"
  let ?m = "migrate_mem vault users own s"
  have rep: "rep = fst ?m" and mem: "\<exists>t. fst sys' = (snd ?m)\<lparr>ps_mtime := t\<rparr>"
    using assms update_mem [of "\<lambda>_. snd ?m" out "proj_sync sys"]
    by (auto simp: MigrateAccessModel_def Let_def case_prod_beta proj_update_def s_def)
  then obtain t where s': "fst sys' = (snd ?m)\<lparr>ps_mtime := t\<rparr>" by blast
  have same: "ps_data (fst sys') = ps_data (snd ?m)" "ps_teams (fst sys') = ps_teams s"
    "memberLevelLocked (fst sys') q u = memberLevelLocked (snd ?m) q u"
    by (simp_all add: s' migrate_teams memberLevelLocked_def members_locked_def)
  note names = distinct_migration_names [of vault s]
  have data: "if q \<in> set (migration_names vault s)
      then fm_get no_flags (ps_data (fst sys')) q = fst (migrated_flags (q \<in> set own) (ps_member_scope s = MemberScopeMembers)
        (ps_mtime s = 0 \<and> users = []) (fm_get no_flags (ps_data s) q))
      else fmlookup (ps_data (fst sys')) q = fmlookup (ps_data s) q"
    by (simp add: same migrate_fields(2) fm_get_def [of _ "fst (migrate_flags _ _ _ _ _)"] migrate_flags_lookup names)
  have only: "q \<in> set (OwnerOnly rep) \<longleftrightarrow> q \<in> set (migration_names vault s) \<and>
      snd (migrated_flags (q \<in> set own) (ps_member_scope s = MemberScopeMembers) (ps_mtime s = 0 \<and> users = [])
        (fm_get no_flags (ps_data s) q))"
    by (simp add: rep migrate_fields(1) migrate_flags_noseed names)
  have level: "memberLevelLocked (fst sys') q u =
      seeded_level (ps_member_scope s \<noteq> MemberScopeMembers \<and> u \<noteq> [] \<and> u \<in> set users \<and> q \<in> set (migration_names vault s)
        \<and> q \<notin> set (OwnerOnly rep)) (memberLevelLocked s q u)"
    by (simp add: same rep migrate_fields(4))
  have kept: "holds s u q lvl \<Longrightarrow> lvl \<noteq> GrantRead \<Longrightarrow> holds (fst sys') u q lvl" for lvl
    by (auto simp: holds_level level same seeded_level_def)
  show ?thesis unfolding Let_def s_def [symmetric]
  proof (intro conjI)
    show "q \<in> set (OwnerOnly rep) \<longleftrightarrow> q \<in> set (migration_names vault s) \<and> Visibility (fm_get no_flags (ps_data s) q) = [] \<and>
        \<not> Public (fm_get no_flags (ps_data s) q) \<and> q \<in> set own"
      unfolding only by (simp add: migrated_flags_def)
    show "team_level (fst sys') i q = team_level s i q" by (simp add: team_level_def same)
    show "holds s u q GrantWrite \<longrightarrow> holds (fst sys') u q GrantWrite" "holds s u q GrantAdmin \<longrightarrow> holds (fst sys') u q GrantAdmin"
      using kept by (auto simp: grant_consts)
  qed (use data in \<open>auto simp: migrated_flags_def level only seeded_level_def\<close>)
qed

text \<open>The migration runs once: after a call whose save succeeded, a second call with any
  arguments applies nothing and changes neither memory nor file.\<close>

theorem migration_idempotent:
  assumes "MigrateAccessModel vault users own (Saved t True) sys = ((rep, r), sys')"
  shows "r = Inr () \<and>
     Applied (fst (fst (MigrateAccessModel vault' users' own' out sys'))) = False \<and>
     snd (MigrateAccessModel vault' users' own' out sys') = sys'"
proof -
  have "r = Inr () \<and> proj_sync sys' = sys' \<and> accessModelVersion \<le> ps_access_model (fst sys')"
  proof (cases "accessModelVersion \<le> ps_access_model (fst (proj_sync sys))")
    case True
    with assms show ?thesis by (auto simp: MigrateAccessModel_def Let_def sync_idem)
  next
    case False
    with assms show ?thesis
      by (cases "proj_sync sys")
        (auto simp: MigrateAccessModel_def Let_def case_prod_beta proj_save_err_def proj_save_def sync_saved migrate_fields(3))
  qed
  then show ?thesis by (simp add: MigrateAccessModel_def Let_def)
qed

subsection \<open>A save that fails\<close>

text \<open>C9: Unlike a rename, a grant whose save fails stays: the caller gets the error, the account
  holds the level all the same, and so it does after every later reload of the unchanged
  file.\<close>

theorem failed_grant_in_force:
  assumes "\<not> bad_name q" and "u \<noteq> []" and "ValidLevel lvl" and "snd sys = Present t c"
  shows "fst (SetMember q u lvl SaveFails sys) = Inl ProjSaveFailed
    \<and> holds (fst (proj_sync (snd (SetMember q u lvl SaveFails sys)))) u q lvl
    \<and> snd (proj_sync (snd (SetMember q u lvl SaveFails sys))) = snd sys"
proof -
  let ?s = "fst (proj_sync sys)"
  have held: "holds (setMemberLocked q u lvl ?s) u q lvl"
    by (rule holds_member) (simp add: level_setMember)
  have "c = None \<or> ps_mtime ?s = t"
    using assms(4) by (cases sys; cases c)
      (auto simp: proj_sync_def proj_reload_def proj_load_def)
  then have "proj_reload (Present t c) (setMemberLocked q u lvl ?s) = setMemberLocked q u lvl ?s"
    by (auto simp: proj_reload_def proj_load_def setMemberLocked_def)
  moreover have "snd (proj_sync sys) = Present t c" using assms(4) by (cases sys) (simp add: proj_sync_def)
  ultimately have "proj_sync (snd (SetMember q u lvl SaveFails sys)) = (setMemberLocked q u lvl ?s, Present t c)"
    using assms
    by (simp add: SetMember_def proj_update_def proj_save_err_def proj_save_def proj_sync_def [of "(_, _)"])
  then show ?thesis
    using assms held by (simp add: SetMember_def proj_update_def proj_save_err_def proj_save_def)
qed

subsection \<open>The properties on a small store\<close>

text \<open>A project with one grant, in memory and in the file.\<close>

definition example_store :: proj_sys where
  "example_store = snd (SetMember ''x'' ''u'' ''read'' (Saved 5 True) (proj_open Absent))"

lemma example_store_eq:
  "example_store =
     (let s = (fst (proj_open Absent))\<lparr>ps_members := fmupd ''x'' [\<lparr>pm_user = ''u'', pm_level = ''read''\<rparr>] fmempty, ps_mtime := 5\<rparr>
      in (s, Present 5 (Some (proj_content s))))"
  by (simp add: example_store_def SetMember_def bad_name_def contains_any_def ValidLevel_def grant_consts
      proj_update_def proj_save_err_def proj_save_def proj_sync_def proj_open_def proj_file_defs
      setMemberLocked_def put_member_def members_locked_def)

lemma example_reachable: "proj_reachable example_store"
  unfolding proj_reachable_def example_store_def by (rule r_into_rtranclp) (rule proj_step.set_member)

lemma store_access_rule_witness:
  "CanAccessProject \<lparr>UserID = ''u'', Role = RoleGuest, Restricted = True\<rparr> ''x'' (AccessConfig 9 (Some example_store))
   \<and> \<not> CanAccessProject \<lparr>UserID = ''v'', Role = RoleMember, Restricted = False\<rparr> ''x'' (AccessConfig 9 (Some example_store))"
  using store_access_rule [OF example_reachable, of "\<lparr>UserID = ''u'', Role = RoleGuest, Restricted = True\<rparr>" "''x''" 9]
    store_access_rule [OF example_reachable, of "\<lparr>UserID = ''v'', Role = RoleMember, Restricted = False\<rparr>" "''x''" 9]
  by (simp add: role_consts role_valid_def example_store_eq read_view_def proj_reload_for_read_def staleCheckEvery_def
      proj_open_def proj_file_defs holds_def team_holds_def stored_visibility_def Let_def no_flags_def visibility_consts ValidVisibility_def)

lemma store_write_rule_witness:
  "\<not> CanWriteProject \<lparr>UserID = ''u'', Role = RoleMember, Restricted = False\<rparr> ''x'' (AccessConfig 9 (Some example_store))"
  using store_write_rule [of "\<lparr>UserID = ''u'', Role = RoleMember, Restricted = False\<rparr>" "''x''" 9 example_store]
  by (simp add: role_consts role_valid_def example_store_eq read_view_def proj_reload_for_read_def staleCheckEvery_def
      proj_open_def proj_file_defs holds_def team_holds_def grant_consts)

lemma Rename_moves_access_witness:
  "holds (fst (snd (Rename ''x'' ''y'' 7 (Saved 8 True) example_store))) ''u'' ''y'' ''read''
   \<and> \<not> holds (fst (snd (Rename ''x'' ''y'' 7 (Saved 8 True) example_store))) ''u'' ''x'' ''read''"
proof -
  have sync: "proj_sync example_store = example_store"
    by (simp add: example_store_eq Let_def proj_sync_def proj_reload_def)
  have ok: "Rename ''x'' ''y'' 7 (Saved 8 True) example_store =
      (Inr (), snd (Rename ''x'' ''y'' 7 (Saved 8 True) example_store))"
    by (simp add: Rename_def bad_name_def contains_any_def Let_def sync proj_save_def split: prod.split)
  have "holds (fst example_store) ''u'' ''x'' ''read''"
    by (simp add: example_store_eq Let_def holds_def)
  with Rename_moves_access [OF ok, where q = "''x''" and u = "''u''" and lvl = "''read''"]
    Rename_moves_access [OF ok, where q = "''y''" and u = "''u''" and lvl = "''read''"]
  show ?thesis by (simp add: sync Let_def)
qed

lemma delete_restore_roundtrip_witness:
  "holds (fst (snd (SetAccess ''x'' (fst (Access ''x'' example_store)) (Saved 9 True)
      (snd (Delete ''x'' (Saved 8 True) example_store))))) ''u'' ''x'' ''read''"
proof -
  have sync: "proj_sync example_store = example_store"
    by (simp add: example_store_eq Let_def proj_sync_def proj_reload_def)
  have "holds (fst example_store) ''u'' ''x'' ''read''"
    by (simp add: example_store_eq Let_def holds_def)
  moreover have "\<not> bad_name ''x''" by (simp add: bad_name_def contains_any_def)
  ultimately show ?thesis
    using delete_restore_roundtrip [OF example_reachable, of "''x''" 8 _ _ 9] sync
    by (metis prod.collapse)
qed

lemma migration_exact_witness:
  "memberLevelLocked (fst (snd (MigrateAccessModel [''x'', ''y''] [''u''] [''y''] (Saved 8 True) example_store))) ''x'' ''u'' =
     Some GrantWrite"
proof -
  have sync: "proj_sync example_store = example_store"
    by (simp add: example_store_eq Let_def proj_sync_def proj_reload_def)
  let ?m = "MigrateAccessModel [''x'', ''y''] [''u''] [''y''] (Saved 8 True) example_store"
  have run: "?m = ((fst (fst ?m), snd (fst ?m)), snd ?m)" by simp
  have "ps_access_model (fst (proj_sync example_store)) < accessModelVersion"
    by (simp add: sync) (simp add: example_store_eq Let_def proj_open_def proj_file_defs accessModelVersion_def)
  from migration_exact [OF this run, where q = "''x''" and u = "''u''"] show ?thesis
    by (simp add: sync set_migration_names Let_def)
      (simp add: example_store_eq Let_def proj_open_def proj_file_defs MemberScopeMembers_def memberLevelLocked_def members_locked_def fm_get_def no_flags_def grant_consts)
qed

lemma migration_idempotent_witness:
  "snd (MigrateAccessModel [] [] [] SaveFails (snd (MigrateAccessModel [''x''] [''u''] [] (Saved 8 True) example_store)))
     = snd (MigrateAccessModel [''x''] [''u''] [] (Saved 8 True) example_store)"
  using migration_idempotent [of "[''x'']" "[''u'']" "[]" 8 example_store] by (metis prod.collapse)

lemma failed_grant_in_force_witness:
  "holds (fst (proj_sync (snd (SetMember ''x'' ''v'' ''admin'' SaveFails example_store)))) ''v'' ''x'' ''admin''"
  using failed_grant_in_force [of "''x''" "''v''" "''admin''" example_store 5]
  by (simp add: bad_name_def contains_any_def ValidLevel_def grant_consts example_store_eq Let_def)

end
