(* ===== verification/RateWindow.thy ===== *)
theory RateWindow
  imports Prelude
begin

text \<open>
  Sliding windows: the contract of a limiter that lets at most a number of events per key
  through in any window of time, and \<open>internal/ratelimit/window.go\<close>, which provides it.
\<close>

subsection \<open>The events of a window\<close>

definition recent :: "duration \<Rightarrow> time \<Rightarrow> time list \<Rightarrow> time list" where
  "recent w now ts = filter (\<lambda>t. now - w < t) ts"

lemma recent_recent: "now \<le> now' \<Longrightarrow> recent w now' (recent w now ts) = recent w now' ts"
  by (induction ts) (auto simp: recent_def)

lemma recent_append [simp]: "recent w now (xs @ ys) = recent w now xs @ recent w now ys"
  by (simp add: recent_def)

lemma recent_Nil [simp]: "recent w now [] = []"
  by (simp add: recent_def)

lemma recent_same: "recent w now (recent w now ts) = recent w now ts"
  by (simp add: recent_def)

lemma recent_later:
  "recent w now xs = recent w now ys \<Longrightarrow> now \<le> now' \<Longrightarrow> recent w now' xs = recent w now' ys"
  by (metis recent_recent)

subsection \<open>The contract\<close>

text \<open>
  \<open>events s k\<close> are the events a limiter keeps for a key, oldest first. A granted
  operation is an event of each key in \<open>touches\<close>; each of them had room before. A denied
  one has a key that is full. What a step forgets is out of the window.
\<close>

locale sliding_window =
  fixes events :: "'s \<Rightarrow> 'k \<Rightarrow> time list"
    and allow :: "'op \<Rightarrow> time \<Rightarrow> 's \<Rightarrow> bool \<times> 's"
    and touches :: "'op \<Rightarrow> 'k set"
    and cap :: "'k \<Rightarrow> nat"
    and window :: duration
    and ok :: "time \<Rightarrow> 's \<Rightarrow> bool"
  assumes ok_later: "ok t s \<Longrightarrow> t \<le> t' \<Longrightarrow> ok t' s"
    and ok_step: "ok now s \<Longrightarrow> ok now (snd (allow op now s))"
    and granted: "ok now s \<Longrightarrow> fst (allow op now s) \<Longrightarrow> k \<in> touches op \<Longrightarrow>
        length (recent window now (events s k)) < cap k \<and>
        recent window now (events (snd (allow op now s)) k) = recent window now (events s k) @ recent window now [now]"
    and denied: "ok now s \<Longrightarrow> \<not> fst (allow op now s) \<Longrightarrow>
        (\<exists>k\<in>touches op. cap k \<le> length (recent window now (events s k)))"
    and unrecorded: "ok now s \<Longrightarrow> \<not> fst (allow op now s) \<or> k \<notin> touches op \<Longrightarrow>
        recent window now (events (snd (allow op now s)) k) = recent window now (events s k)"
begin

text \<open>The state after a run, and the times at which its operations were granted to a key.\<close>

fun after :: "('op \<times> time) list \<Rightarrow> 's \<Rightarrow> 's" where
  "after [] s = s"
| "after ((op, now) # ops) s = after ops (snd (allow op now s))"

fun grants :: "'k \<Rightarrow> ('op \<times> time) list \<Rightarrow> 's \<Rightarrow> time list" where
  "grants k [] s = []"
| "grants k ((op, now) # ops) s =
     (if fst (allow op now s) \<and> k \<in> touches op then [now] else []) @ grants k ops (snd (allow op now s))"

lemma run_append [simp]: "after (xs @ ys) s = after ys (after xs s)"
  by (induction xs s rule: after.induct) simp_all

lemma grants_append [simp]: "grants k (xs @ ys) s = grants k xs s @ grants k ys (after xs s)"
  by (induction xs s rule: after.induct) simp_all

lemma run_ok:
  "ok t0 s \<Longrightarrow> sorted (t0 # map snd ops) \<Longrightarrow> \<forall>u\<in>set (t0 # map snd ops). u \<le> t \<Longrightarrow> ok t (after ops s)"
proof (induction ops s arbitrary: t0 rule: after.induct)
  case (1 s)
  then show ?case by (auto intro: ok_later)
next
  case (2 op now ops s)
  have "ok now s" using 2(2,3) by (auto intro: ok_later)
  from 2(1) [OF ok_step [OF this]] 2(3,4) show ?case by simp
qed

text \<open>What the limiter knows of a window is what was granted in it.\<close>

lemma grants_events:
  assumes "sorted (t0 # map snd ops)" and "\<forall>u\<in>set (t0 # map snd ops). u \<le> now" and "ok t0 s" and "events s k = []"
  shows "recent window now (events (after ops s) k) = recent window now (grants k ops s)"
  using assms
proof (induction ops arbitrary: now rule: rev_induct)
  case Nil
  then show ?case by simp
next
  case (snoc x ops)
  obtain op t where x: "x = (op, t)" by (rule prod.exhaust)
  let ?s = "after ops s"
  have t: "t \<le> now" and before: "\<forall>u\<in>set (t0 # map snd ops). u \<le> t" and sorted: "sorted (t0 # map snd ops)"
    using snoc.prems(1,2) by (auto simp: x sorted_append)
  have IH: "recent window t (events ?s k) = recent window t (grants k ops s)"
    by (rule snoc.IH [OF sorted before snoc.prems(3,4)])
  have ok: "ok t ?s" by (rule run_ok [OF snoc.prems(3) sorted before])
  have "recent window t (events (snd (allow op t ?s)) k) = recent window t (grants k (ops @ [x]) s)"
  proof (cases "fst (allow op t ?s) \<and> k \<in> touches op")
    case True
    with granted [OF ok] IH show ?thesis by (simp add: x)
  next
    case False
    with unrecorded [OF ok, of op k] IH show ?thesis by (auto simp: x)
  qed
  then have "recent window now (events (snd (allow op t ?s)) k) = recent window now (grants k (ops @ [x]) s)"
    by (rule recent_later [OF _ t])
  then show ?case by (simp add: x)
qed

text \<open>In every window at most \<open>cap\<close> operations are granted to a key.\<close>

lemma grants_bound:
  assumes "sorted (t0 # map snd ops)" and "ok t0 s" and "events s k = []"
  shows "length (filter (\<lambda>t. T - window < t \<and> t \<le> T) (grants k ops s)) \<le> cap k"
  using assms
proof (induction ops rule: rev_induct)
  case Nil
  then show ?case by simp
next
  case (snoc x ops)
  obtain op t where x: "x = (op, t)" by (rule prod.exhaust)
  let ?s = "after ops s" and ?ts = "grants k ops s"
  have sorted: "sorted (t0 # map snd ops)" and before: "\<forall>u\<in>set (t0 # map snd ops). u \<le> t"
    using snoc.prems(1) by (auto simp: x sorted_append)
  note IH = snoc.IH [OF sorted snoc.prems(2,3)]
  show ?case
  proof (cases "fst (allow op t ?s) \<and> k \<in> touches op \<and> T - window < t \<and> t \<le> T")
    case False
    with IH show ?thesis by (auto simp: x)
  next
    case True
    have ok: "ok t ?s" by (rule run_ok [OF snoc.prems(2) sorted before])
    have "length (recent window t (events ?s k)) < cap k" using granted [OF ok] True by blast
    then have "length (recent window t ?ts) < cap k"
      using grants_events [OF sorted before snoc.prems(2,3)] by simp
    moreover have "length (filter (\<lambda>u. T - window < u \<and> u \<le> T) ?ts) \<le> length (recent window t ?ts)"
      unfolding recent_def by (rule filter_length_mono) (use True in auto)
    ultimately show ?thesis using True by (simp add: x)
  qed
qed

text \<open>An operation is denied only when a key of it has used up its window.\<close>

lemma denied_full:
  assumes "sorted (t0 # map snd ops)" and "\<forall>u\<in>set (t0 # map snd ops). u \<le> now" and "ok t0 s"
    and "\<And>k. events s k = []" and "\<not> fst (allow op now (after ops s))"
  shows "\<exists>k\<in>touches op. cap k \<le> length (filter (\<lambda>t. now - window < t) (grants k ops s))"
proof -
  obtain k where k: "k \<in> touches op" "cap k \<le> length (recent window now (events (after ops s) k))"
    using denied [OF run_ok [OF assms(3,1,2)] assms(5)] by blast
  with grants_events [OF assms(1-4)] show ?thesis by (auto simp: recent_def)
qed

end

subsection \<open>The window of the OAuth endpoints and the exports\<close>

record win =
  wn_window :: duration
  wn_max :: int
  wn_events :: "(string, time list) fmap"
  wn_last_sweep :: time

definition NewWindow :: "duration \<Rightarrow> int \<Rightarrow> time \<Rightarrow> win" where
  "NewWindow w mx now = \<lparr>wn_window = w, wn_max = mx, wn_events = fmempty, wn_last_sweep = now\<rparr>"

definition win_sweep :: "time \<Rightarrow> win \<Rightarrow> win" where
  "win_sweep now l =
     l\<lparr>wn_last_sweep := now,
       wn_events := fm_each (\<lambda>k ts. let r = recent (wn_window l) now ts in if r = [] then None else Some r) (wn_events l)\<rparr>"

definition win_Allow :: "string \<Rightarrow> time \<Rightarrow> win \<Rightarrow> bool \<times> win" where
  "win_Allow key now l =
     (let l = (if now - wn_last_sweep l \<ge> wn_window l then win_sweep now l else l);
          r = recent (wn_window l) now (fm_get [] (wn_events l) key)
      in if int (length r) \<ge> wn_max l then (False, l\<lparr>wn_events := fmupd key r (wn_events l)\<rparr>)
         else (True, l\<lparr>wn_events := fmupd key (r @ [now]) (wn_events l)\<rparr>))"

lemma win_sweep_events:
  "recent (wn_window l) now (fm_get [] (wn_events (win_sweep now l)) k) = recent (wn_window l) now (fm_get [] (wn_events l) k)"
  by (cases "fmlookup (wn_events l) k")
    (auto simp: win_sweep_def fm_get_def fm_lookups Let_def recent_same)

lemma win_sweep_config [simp]: "wn_window (win_sweep now l) = wn_window l" "wn_max (win_sweep now l) = wn_max l"
  by (simp_all add: win_sweep_def)

lemma win_Allow_iff:
  "fst (win_Allow key now l) \<longleftrightarrow> int (length (recent (wn_window l) now (fm_get [] (wn_events l) key))) < wn_max l"
  by (auto simp: win_Allow_def Let_def win_sweep_events)

lemma win_Allow_events:
  "recent (wn_window l) now (fm_get [] (wn_events (snd (win_Allow key now l))) k) =
     recent (wn_window l) now (fm_get [] (wn_events l) k) @
       (if k = key \<and> fst (win_Allow key now l) then recent (wn_window l) now [now] else [])"
  by (auto simp: win_Allow_def Let_def win_sweep_events recent_same)

lemma win_Allow_config: "wn_window (snd (win_Allow key now l)) = wn_window l \<and> wn_max (snd (win_Allow key now l)) = wn_max l"
  by (simp add: win_Allow_def Let_def)

interpretation win: sliding_window "\<lambda>l. fm_get [] (wn_events l)" win_Allow "\<lambda>key. {key}" "\<lambda>k. nat mx" w
    "\<lambda>t l. wn_window l = w \<and> wn_max l = mx" for w mx
  by unfold_locales (auto simp: win_Allow_iff win_Allow_events win_Allow_config)

text \<open>The times at which \<open>Allow\<close> returned true for a key, over a run of calls.\<close>

fun win_grants :: "string \<Rightarrow> (string \<times> time) list \<Rightarrow> win \<Rightarrow> time list" where
  "win_grants k [] l = []"
| "win_grants k ((key, now) # calls) l =
     (if fst (win_Allow key now l) \<and> k = key then [now] else []) @ win_grants k calls (snd (win_Allow key now l))"

fun win_run :: "(string \<times> time) list \<Rightarrow> win \<Rightarrow> win" where
  "win_run [] l = l"
| "win_run ((key, now) # calls) l = win_run calls (snd (win_Allow key now l))"

lemma win_grants_eq: "win_grants k calls l = win.grants k calls l"
  by (induction k calls l rule: win_grants.induct) simp_all

lemma win_run_eq: "win_run calls l = win.after calls l"
  by (induction calls l rule: win_run.induct) simp_all

text \<open>A new window, over any calls in the order of time: whatever the keys and however often
  they retry, in every window of time at most \<open>max\<close> calls of a key are allowed, and a call
  is refused only when \<open>max\<close> calls of its key were allowed inside the window before it.\<close>

theorem Window_exact:
  assumes "sorted (t0 # map snd calls)"
  shows "length (filter (\<lambda>t. T - w < t \<and> t \<le> T) (win_grants k calls (NewWindow w mx t0))) \<le> nat mx
    \<and> (list_all (\<lambda>u. u \<le> now) (t0 # map snd calls) \<longrightarrow>
         fst (win_Allow k now (win_run calls (NewWindow w mx t0))) =
           (int (length (filter (\<lambda>t. now - w < t) (win_grants k calls (NewWindow w mx t0)))) < mx))"
proof
  let ?l = "NewWindow w mx t0"
  have start: "wn_window ?l = w \<and> wn_max ?l = mx" and none: "fm_get [] (wn_events ?l) k = []"
    by (simp_all add: NewWindow_def)
  from win.grants_bound [OF assms start none]
  show "length (filter (\<lambda>t. T - w < t \<and> t \<le> T) (win_grants k calls ?l)) \<le> nat mx"
    by (simp add: win_grants_eq)
  show "list_all (\<lambda>u. u \<le> now) (t0 # map snd calls) \<longrightarrow>
         fst (win_Allow k now (win_run calls ?l)) =
           (int (length (filter (\<lambda>t. now - w < t) (win_grants k calls ?l))) < mx)"
  proof
    assume "list_all (\<lambda>u. u \<le> now) (t0 # map snd calls)"
    then have before: "\<forall>u\<in>set (t0 # map snd calls). u \<le> now" by (simp add: list_all_iff)
    have "wn_window (win.after calls ?l) = w \<and> wn_max (win.after calls ?l) = mx"
      by (rule win.run_ok [OF start assms before])
    with win.grants_events [OF assms before start none] show "fst (win_Allow k now (win_run calls ?l)) =
           (int (length (filter (\<lambda>t. now - w < t) (win_grants k calls ?l))) < mx)"
      by (simp add: win_Allow_iff win_grants_eq win_run_eq recent_def)
  qed
qed

lemma Window_exact_witness:
  "length (filter (\<lambda>t. 10 - 5 < t \<and> t \<le> 10)
      (win_grants ''k'' [(''k'', 7), (''k'', 8), (''k'', 9), (''k'', 10)] (NewWindow 5 2 0))) \<le> nat 2"
  using Window_exact [of 0 "[(''k'', 7), (''k'', 8), (''k'', 9), (''k'', 10)]" 10 5 "''k''" 2] by simp

end
