(* ===== verification/WriteLimiter.thy ===== *)
theory WriteLimiter
  imports RateWindow
begin

text \<open>
  \<open>internal/mcp/ratelimit.go\<close>: the write limiter of the MCP server, which counts a write
  against its session and against all the sessions of its token, in one minute. The
  times of a bucket are in order, as the clock the code reads does not go back.
\<close>

record write_limiter =
  wl_max :: int
  wl_hits :: "(string, time list) fmap"
  wl_last_sweep :: time

definition tokenLimitFactor :: int where "tokenLimitFactor = 5"

definition newWriteLimiter :: "int \<Rightarrow> write_limiter" where
  "newWriteLimiter mx = \<lparr>wl_max = mx, wl_hits = fmempty, wl_last_sweep = 0\<rparr>"

definition tokenMax :: "write_limiter \<Rightarrow> int" where
  "tokenMax l = wl_max l * tokenLimitFactor"

definition tokenBucket :: "string \<Rightarrow> string" where
  "tokenBucket tokenID = ''t:'' @ tokenID"

definition sessionBucket :: "string \<Rightarrow> string \<Rightarrow> string" where
  "sessionBucket tokenID session = ''s:'' @ tokenID @ ''@'' @ session"

record limiter_stats =
  st_max :: int
  st_used :: int
  st_remaining :: int
  st_oldest :: int
  st_token_max :: int
  st_token_used :: int

definition no_stats :: limiter_stats where
  "no_stats = \<lparr>st_max = 0, st_used = 0, st_remaining = 0, st_oldest = 0, st_token_max = 0, st_token_used = 0\<rparr>"

fun inWindow_from :: "int \<Rightarrow> time \<Rightarrow> time list \<Rightarrow> time \<Rightarrow> int \<times> time" where
  "inWindow_from n oldest [] cutoff = (n, oldest)"
| "inWindow_from n oldest (t # ts) cutoff =
     (if t > cutoff then inWindow_from (n + 1) (if n = 0 then t else oldest) ts cutoff
      else inWindow_from n oldest ts cutoff)"

definition inWindow :: "time list \<Rightarrow> time \<Rightarrow> int \<times> time" where
  "inWindow ts cutoff = inWindow_from 0 0 ts cutoff"

definition prune :: "time list \<Rightarrow> time \<Rightarrow> time list" where
  "prune ts cutoff = filter (\<lambda>t. t > cutoff) ts"

definition hits_of :: "write_limiter \<Rightarrow> string \<Rightarrow> time list" where
  "hits_of l k = fm_get [] (wl_hits l) k"

text \<open>\<open>Unix()\<close> of a time: the whole seconds since 1970.\<close>

definition unix_seconds :: "time \<Rightarrow> int" where
  "unix_seconds t = t div second - 62135596800"

definition Stats :: "string \<Rightarrow> string \<Rightarrow> time \<Rightarrow> write_limiter option \<Rightarrow> limiter_stats" where
  "Stats tokenID session now lim =
     (case lim of
        None \<Rightarrow> no_stats
      | Some l \<Rightarrow>
          let cutoff = now - minute;
              (used, oldest) = inWindow (hits_of l (sessionBucket tokenID session)) cutoff;
              (tokenUsed, _) = inWindow (hits_of l (tokenBucket tokenID)) cutoff;
              remaining = min (wl_max l - used) (tokenMax l - tokenUsed)
          in \<lparr>st_max = wl_max l, st_used = used, st_remaining = (if remaining < 0 then 0 else remaining),
              st_oldest = (if oldest \<noteq> 0 then unix_seconds oldest else 0),
              st_token_max = tokenMax l, st_token_used = tokenUsed\<rparr>)"

definition wl_sweep :: "time \<Rightarrow> time \<Rightarrow> write_limiter \<Rightarrow> write_limiter" where
  "wl_sweep now cutoff l =
     (if now - wl_last_sweep l < minute then l
      else l\<lparr>wl_last_sweep := now,
             wl_hits := fm_each (\<lambda>k ts. if ts = [] \<or> \<not> last ts > cutoff then None else Some ts) (wl_hits l)\<rparr>)"

record verdict =
  v_ok :: bool
  v_wait :: duration
  v_token_level :: bool

definition wl_Allow :: "string \<Rightarrow> string \<Rightarrow> time \<Rightarrow> write_limiter option \<Rightarrow> verdict \<times> write_limiter option" where
  "wl_Allow tokenID session now lim =
     (case lim of
        None \<Rightarrow> (\<lparr>v_ok = True, v_wait = 0, v_token_level = False\<rparr>, None)
      | Some l \<Rightarrow>
          if wl_max l \<le> 0 then (\<lparr>v_ok = True, v_wait = 0, v_token_level = False\<rparr>, Some l)
          else
            let cutoff = now - minute;
                l = wl_sweep now cutoff l;
                sk = sessionBucket tokenID session;
                tk = tokenBucket tokenID;
                sess = prune (hits_of l sk) cutoff;
                tok = prune (hits_of l tk) cutoff;
                l = l\<lparr>wl_hits := fmupd tk tok (fmupd sk sess (wl_hits l))\<rparr>
            in if int (length sess) \<ge> wl_max l
               then (\<lparr>v_ok = False, v_wait = hd sess + minute - now, v_token_level = False\<rparr>, Some l)
               else if int (length tok) \<ge> tokenMax l
               then (\<lparr>v_ok = False, v_wait = hd tok + minute - now, v_token_level = True\<rparr>, Some l)
               else (\<lparr>v_ok = True, v_wait = 0, v_token_level = False\<rparr>,
                     Some (l\<lparr>wl_hits := fmupd tk (tok @ [now]) (fmupd sk (sess @ [now]) (wl_hits l))\<rparr>)))"

text \<open>
  A wait rounded up to whole seconds. (The code divides in floating point, which is exact
  enough for the waits of at most a minute that the limiter gives.)
\<close>

definition retrySeconds :: "duration \<Rightarrow> int" where
  "retrySeconds wait = max 1 (- ((- wait) div second))"

subsection \<open>The two levels as one sliding window\<close>

definition wl_events :: "write_limiter option \<Rightarrow> string \<Rightarrow> time list" where
  "wl_events lim k = (case lim of None \<Rightarrow> [] | Some l \<Rightarrow> hits_of l k)"

definition wl_step :: "string \<times> string \<Rightarrow> time \<Rightarrow> write_limiter option \<Rightarrow> bool \<times> write_limiter option" where
  "wl_step op now lim = (case wl_Allow (fst op) (snd op) now lim of (v, lim') \<Rightarrow> (v_ok v, lim'))"

definition wl_touches :: "string \<times> string \<Rightarrow> string set" where
  "wl_touches op = {sessionBucket (fst op) (snd op), tokenBucket (fst op)}"

definition wl_cap :: "int \<Rightarrow> string \<Rightarrow> nat" where
  "wl_cap m k = nat (if take 2 k = ''s:'' then m else m * tokenLimitFactor)"

text \<open>A limiter that limits, whose buckets hold times up to \<open>t\<close> in order.\<close>

definition wl_ok :: "int \<Rightarrow> time \<Rightarrow> write_limiter option \<Rightarrow> bool" where
  "wl_ok m t lim \<longleftrightarrow>
     (case lim of
        None \<Rightarrow> False
      | Some l \<Rightarrow> wl_max l = m \<and> 0 < m \<and> (\<forall>k. sorted (hits_of l k) \<and> (\<forall>u\<in>set (hits_of l k). u \<le> t)))"

lemma buckets_differ: "sessionBucket i s \<noteq> tokenBucket j"
  by (simp add: sessionBucket_def tokenBucket_def)

lemma prune_recent: "prune ts (now - minute) = recent minute now ts"
  by (simp add: prune_def recent_def)

lemma sorted_last_old: "sorted ts \<Longrightarrow> ts = [] \<or> \<not> last ts > c \<Longrightarrow> filter (\<lambda>t. t > c) ts = []"
proof (cases "ts = []")
  case False
  assume "sorted ts" and "ts = [] \<or> \<not> last ts > c"
  with False have "\<forall>t\<in>set ts. t \<le> last ts" and "last ts \<le> c"
    by (auto simp: in_set_conv_nth last_conv_nth intro!: sorted_nth_mono)
  then show ?thesis by (auto simp: filter_empty_conv)
qed simp

lemma hits_sweep:
  "hits_of (wl_sweep now (now - minute) l) k = hits_of l k \<or>
   hits_of (wl_sweep now (now - minute) l) k = [] \<and> (hits_of l k = [] \<or> \<not> last (hits_of l k) > now - minute)"
  by (cases "fmlookup (wl_hits l) k") (auto simp: hits_of_def wl_sweep_def fm_get_def fm_lookups)

lemma recent_sweep:
  "sorted (hits_of l k) \<Longrightarrow> recent minute now (hits_of (wl_sweep now (now - minute) l) k) = recent minute now (hits_of l k)"
  using hits_sweep [of now l k] sorted_last_old [of "hits_of l k" "now - minute"]
  by (auto simp: recent_def)

lemma sweep_max [simp]: "wl_max (wl_sweep now c l) = wl_max l"
  by (simp add: wl_sweep_def)

text \<open>A call in terms of the pruned buckets.\<close>

lemma wl_Allow_eq:
  assumes "wl_ok m t (Some l)"
  shows "\<exists>l'. snd (wl_Allow i s now (Some l)) = Some l' \<and> wl_max l' = m \<and>
     (let sess = recent minute now (hits_of l (sessionBucket i s)); tok = recent minute now (hits_of l (tokenBucket i));
          granted = (int (length sess) < m \<and> int (length tok) < m * tokenLimitFactor)
      in v_ok (fst (wl_Allow i s now (Some l))) = granted \<and>
         (v_ok (fst (wl_Allow i s now (Some l))) \<or>
            v_token_level (fst (wl_Allow i s now (Some l))) = (int (length sess) < m) \<and>
            v_wait (fst (wl_Allow i s now (Some l))) = hd (if int (length sess) < m then tok else sess) + minute - now) \<and>
         hits_of l' (sessionBucket i s) = sess @ (if granted then [now] else []) \<and>
         hits_of l' (tokenBucket i) = tok @ (if granted then [now] else []) \<and>
         (\<forall>k. k \<noteq> sessionBucket i s \<and> k \<noteq> tokenBucket i \<longrightarrow> hits_of l' k = hits_of (wl_sweep now (now - minute) l) k))"
proof -
  have m: "wl_max l = m" "0 < m" and sorted: "\<And>k. sorted (hits_of l k)"
    using assms by (simp_all add: wl_ok_def)
  let ?l = "wl_sweep now (now - minute) l"
  let ?sess = "recent minute now (hits_of l (sessionBucket i s))" and ?tok = "recent minute now (hits_of l (tokenBucket i))"
  have r: "prune (hits_of ?l k) (now - minute) = recent minute now (hits_of l k)" for k
    unfolding prune_recent by (rule recent_sweep [OF sorted])
  have hits: "hits_of (x\<lparr>wl_hits := h\<rparr>) k = fm_get [] h k" for x h k by (simp add: hits_of_def)
  have base: "fm_get [] (wl_hits ?l) k = hits_of ?l k" for k by (simp add: hits_of_def)
  consider (session) "m \<le> int (length ?sess)" | (token) "int (length ?sess) < m" "m * tokenLimitFactor \<le> int (length ?tok)"
    | (granted) "int (length ?sess) < m" "int (length ?tok) < m * tokenLimitFactor" by linarith
  then show ?thesis
    using m buckets_differ [of i s i]
    by cases (auto simp: wl_Allow_def r Let_def tokenMax_def hits base)
qed

lemma hd_recent_in: "recent w now ts \<noteq> [] \<Longrightarrow> hd (recent w now ts) \<in> set ts \<and> now - w < hd (recent w now ts)"
  using hd_in_set [of "recent w now ts"] by (auto simp: recent_def)

lemma wl_step_ok: "wl_ok m now lim \<Longrightarrow> wl_ok m now (snd (wl_step op now lim))"
proof (cases lim)
  case None
  then show "wl_ok m now lim \<Longrightarrow> ?thesis" by (simp add: wl_ok_def)
next
  case (Some l)
  assume ok: "wl_ok m now lim"
  obtain i s where op: "op = (i, s)" by (rule prod.exhaust)
  from wl_Allow_eq [of m now l i s now] ok Some obtain l' g where l': "snd (wl_Allow i s now (Some l)) = Some l'" "wl_max l' = m"
    and sess: "hits_of l' (sessionBucket i s) = recent minute now (hits_of l (sessionBucket i s)) @ (if g then [now] else [])"
    and tok: "hits_of l' (tokenBucket i) = recent minute now (hits_of l (tokenBucket i)) @ (if g then [now] else [])"
    and other: "\<And>k. k \<noteq> sessionBucket i s \<Longrightarrow> k \<noteq> tokenBucket i \<Longrightarrow> hits_of l' k = hits_of (wl_sweep now (now - minute) l) k"
    unfolding Let_def by blast
  have old: "sorted (hits_of l k)" "\<forall>u\<in>set (hits_of l k). u \<le> now" for k using ok Some by (simp_all add: wl_ok_def)
  have "sorted (hits_of l' k) \<and> (\<forall>u\<in>set (hits_of l' k). u \<le> now)" for k
  proof -
    have rec: "sorted (recent minute now (hits_of l k) @ (if g then [now] else []))
        \<and> (\<forall>u\<in>set (recent minute now (hits_of l k) @ (if g then [now] else [])). u \<le> now)" for k
      using old [of k] by (auto simp: recent_def sorted_append intro: sorted_filter [where f = "\<lambda>x. x", simplified])
    consider "k = sessionBucket i s" | "k = tokenBucket i" | "k \<noteq> sessionBucket i s" "k \<noteq> tokenBucket i" by blast
    then show ?thesis
    proof cases
      case 3
      with other [of k] hits_sweep [of now l k] old [of k] show ?thesis by auto
    qed (use rec sess tok in simp_all)
  qed
  with l' ok Some show ?thesis by (simp add: wl_ok_def wl_step_def op case_prod_beta)
qed

lemma wl_bucket_kind [simp]: "take 2 (sessionBucket i s) = ''s:''" "take 2 (tokenBucket i) \<noteq> ''s:''"
  by (simp_all add: sessionBucket_def tokenBucket_def)

lemma wl_step_cases:
  assumes "wl_ok m now lim"
  shows "fst (wl_step op now lim) \<longleftrightarrow> (\<forall>k\<in>wl_touches op. length (recent minute now (wl_events lim k)) < wl_cap m k)"
    and "recent minute now (wl_events (snd (wl_step op now lim)) k) =
           recent minute now (wl_events lim k) @ (if fst (wl_step op now lim) \<and> k \<in> wl_touches op then [now] else [])"
proof -
  obtain i s where op: "op = (i, s)" by (rule prod.exhaust)
  from assms obtain l where lim: "lim = Some l" and m: "0 < m" by (cases lim) (auto simp: wl_ok_def)
  let ?sess = "recent minute now (hits_of l (sessionBucket i s))" and ?tok = "recent minute now (hits_of l (tokenBucket i))"
  let ?g = "int (length ?sess) < m \<and> int (length ?tok) < m * tokenLimitFactor"
  have "wl_ok m now (Some l)" using assms lim by simp
  from wl_Allow_eq [OF this, of i s now] obtain l' where l': "snd (wl_Allow i s now (Some l)) = Some l'"
    and granted: "v_ok (fst (wl_Allow i s now (Some l))) = (int (length ?sess) < m \<and> int (length ?tok) < m * tokenLimitFactor)"
    and sess: "hits_of l' (sessionBucket i s) = ?sess @ (if ?g then [now] else [])"
    and tok: "hits_of l' (tokenBucket i) = ?tok @ (if ?g then [now] else [])"
    and other: "\<forall>k. k \<noteq> sessionBucket i s \<and> k \<noteq> tokenBucket i \<longrightarrow> hits_of l' k = hits_of (wl_sweep now (now - minute) l) k"
    unfolding Let_def by (elim exE conjE) (rule that; assumption)
  have fst: "fst (wl_step op now lim) = v_ok (fst (wl_Allow i s now (Some l)))" and snd: "snd (wl_step op now lim) = Some l'"
    using l' by (simp_all add: wl_step_def op lim case_prod_beta)
  show "fst (wl_step op now lim) \<longleftrightarrow> (\<forall>k\<in>wl_touches op. length (recent minute now (wl_events lim k)) < wl_cap m k)"
  proof -
    have cap: "length ts < wl_cap m (sessionBucket i s) \<longleftrightarrow> int (length ts) < m"
      "length ts < wl_cap m (tokenBucket i) \<longleftrightarrow> int (length ts) < m * tokenLimitFactor" for ts :: "time list"
      by (simp_all add: wl_cap_def zless_nat_eq_int_zless)
    have ev: "wl_events lim k = hits_of l k" for k by (simp add: wl_events_def lim)
    have "wl_touches op = {sessionBucket i s, tokenBucket i}" by (simp add: wl_touches_def op)
    then show ?thesis unfolding fst granted by (simp add: ev cap)
  qed
  have "sorted (hits_of l k)" using assms lim by (simp add: wl_ok_def)
  note sweep = recent_sweep [OF this, of now]
  consider "k = sessionBucket i s" | "k = tokenBucket i" | "k \<noteq> sessionBucket i s" "k \<noteq> tokenBucket i" by blast
  then show "recent minute now (wl_events (snd (wl_step op now lim)) k) =
           recent minute now (wl_events lim k) @ (if fst (wl_step op now lim) \<and> k \<in> wl_touches op then [now] else [])"
  proof cases
    case 1
    then show ?thesis by (simp add: snd [unfolded op lim] fst [unfolded op lim] granted wl_events_def lim sess recent_same wl_touches_def op) (simp add: recent_def)
  next
    case 2
    then show ?thesis by (simp add: snd [unfolded op lim] fst [unfolded op lim] granted wl_events_def lim tok recent_same wl_touches_def op) (simp add: recent_def)
  next
    case 3
    then show ?thesis using sweep by (simp add: snd [unfolded op lim] wl_events_def lim other wl_touches_def op)
  qed
qed

interpretation wl: sliding_window wl_events wl_step wl_touches "wl_cap m" minute "wl_ok m" for m
proof
  show "wl_ok m t s \<Longrightarrow> t \<le> t' \<Longrightarrow> wl_ok m t' s" for t t' s
    by (cases s) (auto simp: wl_ok_def intro: order_trans)
  show "wl_ok m now s \<Longrightarrow> wl_ok m now (snd (wl_step op now s))" for now s op
    by (rule wl_step_ok)
  show "length (recent minute now (wl_events s k)) < wl_cap m k \<and>
       recent minute now (wl_events (snd (wl_step op now s)) k) = recent minute now (wl_events s k) @ recent minute now [now]"
    if "wl_ok m now s" "fst (wl_step op now s)" "k \<in> wl_touches op" for now s op k
    using that wl_step_cases [OF that(1)] by (simp add: recent_def)
  show "\<exists>k\<in>wl_touches op. wl_cap m k \<le> length (recent minute now (wl_events s k))"
    if "wl_ok m now s" "\<not> fst (wl_step op now s)" for now s op
    using that wl_step_cases(1) [OF that(1)] by (metis leI)
  show "recent minute now (wl_events (snd (wl_step op now s)) k) = recent minute now (wl_events s k)"
    if "wl_ok m now s" "\<not> fst (wl_step op now s) \<or> k \<notin> wl_touches op" for now s op k
    using that wl_step_cases(2) [OF that(1)] by auto
qed

subsection \<open>What the limiter promises\<close>

text \<open>The times of the writes granted, of those that satisfy a condition.\<close>

fun write_grants :: "(string \<times> string \<Rightarrow> bool) \<Rightarrow> ((string \<times> string) \<times> time) list \<Rightarrow> write_limiter option \<Rightarrow> time list" where
  "write_grants p [] lim = []"
| "write_grants p (((i, s), now) # ops) lim =
     (case wl_Allow i s now lim of
        (v, lim') \<Rightarrow> (if v_ok v \<and> p (i, s) then [now] else []) @ write_grants p ops lim')"

fun write_run :: "((string \<times> string) \<times> time) list \<Rightarrow> write_limiter option \<Rightarrow> write_limiter option" where
  "write_run [] lim = lim"
| "write_run (((i, s), now) # ops) lim = write_run ops (snd (wl_Allow i s now lim))"

lemma wl_step_pair: "wl_step (i, s) now lim = (v_ok (fst (wl_Allow i s now lim)), snd (wl_Allow i s now lim))"
  by (simp add: wl_step_def case_prod_beta)

lemma write_grants_eq:
  assumes "\<And>op. p op \<longleftrightarrow> k \<in> wl_touches op"
  shows "write_grants p ops lim = wl.grants k ops lim"
proof (induction ops arbitrary: lim)
  case (Cons x ops)
  obtain i s now where x: "x = ((i, s), now)" by (metis prod.exhaust)
  show ?case using Cons.IH assms by (simp add: x case_prod_beta wl_step_pair)
qed simp

lemma write_run_eq: "write_run ops lim = wl.after ops lim"
proof (induction ops arbitrary: lim)
  case (Cons x ops)
  obtain i s now where x: "x = ((i, s), now)" by (metis prod.exhaust)
  show ?case using Cons.IH by (simp add: x wl_step_pair)
qed simp

lemma new_limiter_ok: "0 < m \<Longrightarrow> wl_ok m t (Some (newWriteLimiter m))"
  by (simp add: wl_ok_def newWriteLimiter_def hits_of_def)

text \<open>C10: With a limit set, after any writes in the order of time, a write is let through exactly when fewer than \<open>maxPerMinute\<close> writes of its
  session and fewer than five times as many of its token, whatever their sessions, were let through in the minute before
  it; so in no minute more than these are let through. (A session is the bucket named after the token and the session.)\<close>

theorem write_limits:
  assumes "sorted (t0 # map snd ops)" and "list_all (\<lambda>u. u \<le> now) (t0 # map snd ops)" and "0 < m"
  shows "let lim = Some (newWriteLimiter m);
      of_session = write_grants (\<lambda>op. sessionBucket (fst op) (snd op) = sessionBucket tok sess) ops lim;
      of_token = write_grants (\<lambda>op. fst op = tok) ops lim
    in (v_ok (fst (wl_Allow tok sess now (write_run ops lim))) \<longleftrightarrow>
          int (length (filter (\<lambda>t. now - minute < t) of_session)) < m \<and>
          int (length (filter (\<lambda>t. now - minute < t) of_token)) < 5 * m)
      \<and> length (filter (\<lambda>t. T - minute < t \<and> t \<le> T) of_session) \<le> nat m
      \<and> length (filter (\<lambda>t. T - minute < t \<and> t \<le> T) of_token) \<le> nat (5 * m)"
proof -
  let ?lim = "Some (newWriteLimiter m)"
  have none: "wl_events ?lim k = []" for k by (simp add: wl_events_def newWriteLimiter_def hits_of_def)
  have start: "wl_ok m t ?lim" for t by (rule new_limiter_ok [OF assms(3)])
  have before: "\<forall>u\<in>set (t0 # map snd ops). u \<le> now" using assms(2) by (simp only: list_all_iff)
  have session: "write_grants (\<lambda>op. sessionBucket (fst op) (snd op) = sessionBucket tok sess) ops ?lim = wl.grants (sessionBucket tok sess) ops ?lim"
    by (rule write_grants_eq) (auto simp: wl_touches_def buckets_differ)
  have token: "write_grants (\<lambda>op. fst op = tok) ops ?lim = wl.grants (tokenBucket tok) ops ?lim"
    by (rule write_grants_eq) (auto simp: wl_touches_def tokenBucket_def sessionBucket_def)
  have cap: "wl_cap m (sessionBucket tok sess) = nat m" "wl_cap m (tokenBucket tok) = nat (5 * m)"
    by (simp_all add: wl_cap_def tokenLimitFactor_def mult.commute)
  have known: "recent minute now (wl_events (wl.after ops ?lim) k) = filter (\<lambda>t. now - minute < t) (wl.grants k ops ?lim)" for k
    using wl.grants_events [OF assms(1) before start none] by (simp add: recent_def)
  have "v_ok (fst (wl_Allow tok sess now (write_run ops ?lim))) \<longleftrightarrow> fst (wl_step (tok, sess) now (wl.after ops ?lim))"
    by (simp add: wl_step_def write_run_eq case_prod_beta)
  also have "\<dots> \<longleftrightarrow> (\<forall>k\<in>wl_touches (tok, sess). length (filter (\<lambda>t. now - minute < t) (wl.grants k ops ?lim)) < wl_cap m k)"
    unfolding known [symmetric] by (rule wl_step_cases(1) [OF wl.run_ok [OF start assms(1) before]])
  also have "\<dots> \<longleftrightarrow> int (length (filter (\<lambda>t. now - minute < t) (wl.grants (sessionBucket tok sess) ops ?lim))) < m \<and>
      int (length (filter (\<lambda>t. now - minute < t) (wl.grants (tokenBucket tok) ops ?lim))) < 5 * m"
    by (simp add: wl_touches_def cap zless_nat_eq_int_zless)
  finally show ?thesis
    using wl.grants_bound [OF assms(1) start none, of T "sessionBucket tok sess"]
      wl.grants_bound [OF assms(1) start none, of T "tokenBucket tok"] by (simp add: Let_def session token cap)
qed

lemma write_limits_witness:
  "\<not> v_ok (fst (wl_Allow ''a'' ''x'' 9 (write_run [((''a'', ''x''), 7), ((''a'', ''y''), 8)] (Some (newWriteLimiter 1)))))"
proof -
  let ?ops = "[((''a'', ''x''), 7), ((''a'', ''y''), 8)]"
  have "v_ok (fst (wl_Allow ''a'' ''x'' 7 (Some (newWriteLimiter 1))))"
    by (simp add: wl_Allow_def Let_def wl_sweep_def newWriteLimiter_def hits_of_def prune_def tokenMax_def tokenLimitFactor_def)
  then have "7 \<in> set (write_grants (\<lambda>op. sessionBucket (fst op) (snd op) = sessionBucket ''a'' ''x'') ?ops (Some (newWriteLimiter 1)))"
    by (simp add: case_prod_beta)
  then have "\<not> int (length (filter (\<lambda>t. 9 - minute < t)
      (write_grants (\<lambda>op. sessionBucket (fst op) (snd op) = sessionBucket ''a'' ''x'') ?ops (Some (newWriteLimiter 1))))) < 1"
    by (simp add: filter_empty_conv) force
  then show ?thesis using write_limits [of 0 ?ops 9 1 "''a''" "''x''" 9] by (simp add: Let_def)
qed

lemma sorted_recent_hd:
  assumes "sorted ts" and "ts \<noteq> []" and "\<forall>u\<in>set ts. now - w < u" and "now \<le> t"
  shows "t < hd ts + w \<longrightarrow> recent w t ts = ts" and "length (recent w (hd ts + w) ts) < length ts"
proof -
  obtain x xs where ts: "ts = x # xs" using assms(2) by (cases ts) auto
  show "t < hd ts + w \<longrightarrow> recent w t ts = ts"
    using assms(1) by (auto simp: ts recent_def intro!: filter_True)
  show "length (recent w (hd ts + w) ts) < length ts"
    by (simp add: ts recent_def less_Suc_eq_le)
qed

text \<open>A refusal tells how long to wait, exactly: the wait is positive and at most a minute; before
  it is over, the full bucket (the token's when \<open>tokenLevel\<close> is set, the session's
  otherwise) still has every write it had, so the write would be refused again; and when
  it is over one of them has left the window.\<close>

theorem refusal_wait_exact:
  assumes "wl_ok m now lim" and "wl_Allow i s now lim = (v, lim')" and "\<not> v_ok v"
    and "b = (if v_token_level v then tokenBucket i else sessionBucket i s)"
  shows "0 < v_wait v \<and> v_wait v \<le> minute
    \<and> (now \<le> t \<and> t < now + v_wait v \<longrightarrow> recent minute t (wl_events lim b) = recent minute now (wl_events lim b)
          \<and> wl_cap m b \<le> length (recent minute t (wl_events lim b)))
    \<and> length (recent minute (now + v_wait v) (wl_events lim b)) < length (recent minute now (wl_events lim b))"
proof -
  from assms(1) obtain l where lim: "lim = Some l" and m: "0 < m" by (cases lim) (auto simp: wl_ok_def)
  let ?sess = "recent minute now (hits_of l (sessionBucket i s))" and ?tok = "recent minute now (hits_of l (tokenBucket i))"
  from wl_Allow_eq [of m now l i s now] assms(1-3) lim
  have refused: "\<not> (int (length ?sess) < m \<and> int (length ?tok) < m * tokenLimitFactor)"
    and level: "v_token_level v = (int (length ?sess) < m)"
    and wait: "v_wait v = hd (if int (length ?sess) < m then ?tok else ?sess) + minute - now"
    unfolding Let_def by auto
  let ?b = "recent minute now (wl_events lim b)"
  have b: "?b = (if int (length ?sess) < m then ?tok else ?sess)"
    using assms(4) level by (simp add: wl_events_def lim)
  have cap: "wl_cap m b \<le> length ?b"
  proof -
    have "m * tokenLimitFactor \<le> int (length ?tok)" if "int (length ?sess) < m" using refused that by linarith
    then show ?thesis using level assms(4) by (simp add: b wl_cap_def nat_le_iff) (simp add: wl_events_def lim)
  qed
  have full: "?b \<noteq> []"
  proof -
    have "0 < m * tokenLimitFactor" using m by (simp add: tokenLimitFactor_def)
    with refused m show ?thesis unfolding b by (cases "int (length ?sess) < m") auto
  qed
  have old: "sorted (wl_events lim b)" "\<forall>u\<in>set (wl_events lim b). u \<le> now"
    using assms(1) lim by (simp_all add: wl_ok_def wl_events_def)
  have w: "now + v_wait v = hd ?b + minute" using wait b by simp
  have sorted: "sorted ?b" and inside: "\<forall>u\<in>set ?b. now - minute < u" "\<forall>u\<in>set ?b. u \<le> now"
    using old sorted_filter [of "\<lambda>x. x" "wl_events lim b"] by (auto simp: recent_def)
  have "hd ?b \<in> set ?b" using full by simp
  with inside have hd: "now - minute < hd ?b" "hd ?b \<le> now" by blast+
  note later = sorted_recent_hd [OF sorted full inside(1)]
  have again: "recent minute u ?b = recent minute u (wl_events lim b)" if "now \<le> u" for u
    by (rule recent_recent [OF that])
  have "now \<le> t \<and> t < now + v_wait v \<longrightarrow> recent minute t (wl_events lim b) = ?b"
    using later(1) [of t] again [of t] w by auto
  moreover have "length (recent minute (now + v_wait v) (wl_events lim b)) < length ?b"
    using later(2) [of now] again [of "now + v_wait v"] w hd by simp
  moreover have "0 < v_wait v" and "v_wait v \<le> minute" using w hd by simp_all
  ultimately show ?thesis using cap by auto
qed

lemma refusal_wait_exact_witness:
  "v_wait (fst (wl_Allow ''a'' ''x'' 9 (Some \<lparr>wl_max = 1, wl_hits = fmupd (sessionBucket ''a'' ''x'') [7] fmempty, wl_last_sweep = 9\<rparr>)))
     \<le> minute"
proof -
  let ?lim = "Some \<lparr>wl_max = 1, wl_hits = fmupd (sessionBucket ''a'' ''x'') [7] fmempty, wl_last_sweep = 9\<rparr>"
  have ok: "wl_ok 1 9 ?lim" by (simp add: wl_ok_def hits_of_def)
  have "\<not> v_ok (fst (wl_Allow ''a'' ''x'' 9 ?lim))"
    by (simp add: wl_Allow_def Let_def wl_sweep_def hits_of_def prune_def)
  from refusal_wait_exact [OF ok prod.collapse [symmetric] this refl, of 9] show ?thesis by blast
qed

end
