(* ===== verification/LoginLimiter.thy ===== *)
theory LoginLimiter
  imports RateWindow GoStrings
begin

text \<open>
  \<open>internal/api/v1/ratelimit.go\<close>: the failed logins of an address or an account in a
  window, and the address of a client behind trusted proxies. Go's \<open>net\<close> package is a
  parameter: \<open>parse_ip\<close>, \<open>parse_cidr\<close>, \<open>show_ip\<close>, \<open>is4\<close> and \<open>net_contains\<close> stand
  for \<open>ParseIP\<close>, \<open>ParseCIDR\<close>, \<open>IP.String\<close>, \<open>To4\<close> and \<open>IPNet.Contains\<close>, and
  \<open>split_host\<close> for \<open>SplitHostPort\<close>.
\<close>

subsection \<open>The limiter\<close>

record login_limits =
  LoginWindow :: duration
  LoginMaxFailures :: int

definition default_limits :: login_limits where
  "default_limits = \<lparr>LoginWindow = 15 * minute, LoginMaxFailures = 5\<rparr>"

definition SetLoginLimits :: "duration \<Rightarrow> int \<Rightarrow> login_limits \<Rightarrow> login_limits" where
  "SetLoginLimits w maxFailures c =
     (let c = (if w > 0 then c\<lparr>LoginWindow := w\<rparr> else c)
      in if maxFailures > 0 then c\<lparr>LoginMaxFailures := maxFailures\<rparr> else c)"

definition loginCleanupEvery :: int where "loginCleanupEvery = 100"

definition accountLimiterKey :: "string \<Rightarrow> string" where
  "accountLimiterKey username = ''user:'' @ username"

record login_limiter =
  ll_attempts :: "(string, time list) fmap"
  ll_hits :: int
  ll_last_sweep :: time

definition newLoginLimiter :: "time \<Rightarrow> login_limiter" where
  "newLoginLimiter now = \<lparr>ll_attempts = fmempty, ll_hits = 0, ll_last_sweep = now\<rparr>"

definition login_sweep :: "login_limits \<Rightarrow> time \<Rightarrow> login_limiter \<Rightarrow> login_limiter" where
  "login_sweep c now l =
     l\<lparr>ll_last_sweep := now,
       ll_attempts := fm_each (\<lambda>ip ts. let r = recent (LoginWindow c) now ts in if r = [] then None else Some r) (ll_attempts l)\<rparr>"

definition sweepIfDue :: "login_limits \<Rightarrow> time \<Rightarrow> login_limiter \<Rightarrow> login_limiter" where
  "sweepIfDue c now l = (if now - ll_last_sweep l < LoginWindow c then l else login_sweep c now l)"

definition allowed :: "login_limits \<Rightarrow> string \<Rightarrow> time \<Rightarrow> login_limiter \<Rightarrow> bool \<times> login_limiter" where
  "allowed c ip now l =
     (let l = sweepIfDue c now l in
      case fmlookup (ll_attempts l) ip of
        None \<Rightarrow> (True, l)
      | Some ts \<Rightarrow>
          let r = recent (LoginWindow c) now ts in
          if r = [] then (True, l\<lparr>ll_attempts := fmdrop ip (ll_attempts l)\<rparr>)
          else (int (length r) < LoginMaxFailures c, l\<lparr>ll_attempts := fmupd ip r (ll_attempts l)\<rparr>))"

definition registerFail :: "login_limits \<Rightarrow> string \<Rightarrow> time \<Rightarrow> login_limiter \<Rightarrow> login_limiter" where
  "registerFail c ip now l =
     (let l = l\<lparr>ll_attempts := fmupd ip (fm_get [] (ll_attempts l) ip @ [now]) (ll_attempts l), ll_hits := ll_hits l + 1\<rparr>
      in if ll_hits l mod loginCleanupEvery = 0 then login_sweep c now l else l)"

definition login_reset :: "string \<Rightarrow> login_limiter \<Rightarrow> login_limiter" where
  "login_reset ip l = l\<lparr>ll_attempts := fmdrop ip (ll_attempts l)\<rparr>"

subsection \<open>What it counts\<close>

datatype login_op = Ask string | Fail string | Reset string

fun login_step :: "login_limits \<Rightarrow> login_op \<Rightarrow> time \<Rightarrow> login_limiter \<Rightarrow> login_limiter" where
  "login_step c (Ask ip) now l = snd (allowed c ip now l)"
| "login_step c (Fail ip) now l = registerFail c ip now l"
| "login_step c (Reset ip) now l = login_reset ip l"

fun login_run :: "login_limits \<Rightarrow> (login_op \<times> time) list \<Rightarrow> login_limiter \<Rightarrow> login_limiter" where
  "login_run c [] l = l"
| "login_run c ((op, now) # ops) l = login_run c ops (login_step c op now l)"

text \<open>The failures of a key since its last reset.\<close>

fun failures :: "string \<Rightarrow> time list \<Rightarrow> (login_op \<times> time) list \<Rightarrow> time list" where
  "failures ip acc [] = acc"
| "failures ip acc ((op, now) # ops) =
     failures ip (if op = Fail ip then acc @ [now] else if op = Reset ip then [] else acc) ops"

abbreviation attempts_of :: "login_limiter \<Rightarrow> string \<Rightarrow> time list" where
  "attempts_of l ip \<equiv> fm_get [] (ll_attempts l) ip"

lemma login_sweep_recent:
  "recent (LoginWindow c) now (attempts_of (login_sweep c now l) ip) = recent (LoginWindow c) now (attempts_of l ip)"
  by (cases "fmlookup (ll_attempts l) ip") (auto simp: login_sweep_def fm_get_def fm_lookups Let_def recent_same)

lemma sweepIfDue_recent:
  "recent (LoginWindow c) now (attempts_of (sweepIfDue c now l) ip) = recent (LoginWindow c) now (attempts_of l ip)"
  by (simp add: sweepIfDue_def login_sweep_recent)

lemma allowed_recent:
  "recent (LoginWindow c) now (attempts_of (snd (allowed c ip' now l)) ip) = recent (LoginWindow c) now (attempts_of l ip)"
proof -
  let ?l = "sweepIfDue c now l"
  have "recent (LoginWindow c) now (attempts_of (snd (allowed c ip' now l)) ip) = recent (LoginWindow c) now (attempts_of ?l ip)"
    by (cases "fmlookup (ll_attempts ?l) ip'") (auto simp: allowed_def Let_def recent_same fm_get_def)
  then show ?thesis by (simp add: sweepIfDue_recent)
qed

lemma allowed_iff:
  "fst (allowed c ip now l) \<longleftrightarrow>
     recent (LoginWindow c) now (attempts_of l ip) = [] \<or>
     int (length (recent (LoginWindow c) now (attempts_of l ip))) < LoginMaxFailures c"
proof -
  let ?l = "sweepIfDue c now l"
  have "fst (allowed c ip now l) \<longleftrightarrow> recent (LoginWindow c) now (attempts_of ?l ip) = [] \<or>
     int (length (recent (LoginWindow c) now (attempts_of ?l ip))) < LoginMaxFailures c"
    by (cases "fmlookup (ll_attempts ?l) ip") (auto simp: allowed_def Let_def fm_get_def)
  then show ?thesis by (simp add: sweepIfDue_recent)
qed

lemma registerFail_recent:
  "recent (LoginWindow c) now (attempts_of (registerFail c ip' now l) ip) =
     recent (LoginWindow c) now (attempts_of l ip @ (if ip' = ip then [now] else []))"
  by (auto simp: registerFail_def Let_def login_sweep_recent)

lemma login_step_recent:
  "recent (LoginWindow c) now (attempts_of (login_step c op now l) ip) =
     recent (LoginWindow c) now (if op = Fail ip then attempts_of l ip @ [now] else if op = Reset ip then [] else attempts_of l ip)"
  by (cases op) (auto simp: allowed_recent registerFail_recent login_reset_def)

lemma login_run_recent:
  assumes "sorted (map snd ops)" and "\<forall>u\<in>set (map snd ops). u \<le> now"
    and "ops \<noteq> [] \<longrightarrow> recent (LoginWindow c) (snd (hd ops)) (attempts_of l ip) = recent (LoginWindow c) (snd (hd ops)) acc"
    and "ops = [] \<longrightarrow> recent (LoginWindow c) now (attempts_of l ip) = recent (LoginWindow c) now acc"
  shows "recent (LoginWindow c) now (attempts_of (login_run c ops l) ip) = recent (LoginWindow c) now (failures ip acc ops)"
  using assms
proof (induction ops arbitrary: l acc)
  case (Cons x ops)
  obtain op t where x: "x = (op, t)" by (rule prod.exhaust)
  let ?l = "login_step c op t l"
  let ?acc = "if op = Fail ip then acc @ [t] else if op = Reset ip then [] else acc"
  have "recent (LoginWindow c) t (attempts_of l ip) = recent (LoginWindow c) t acc"
    using Cons.prems(3) by (simp add: x)
  then have step: "recent (LoginWindow c) t (attempts_of ?l ip) = recent (LoginWindow c) t ?acc"
    by (simp add: login_step_recent)
  have later: "recent (LoginWindow c) u (attempts_of ?l ip) = recent (LoginWindow c) u ?acc" if "t \<le> u" for u
    by (rule recent_later [OF step that])
  have "t \<le> now" using Cons.prems(2) by (simp add: x)
  moreover have "t \<le> snd (hd ops)" if "ops \<noteq> []" using Cons.prems(1) that by (cases ops) (auto simp: x)
  ultimately have "recent (LoginWindow c) now (attempts_of (login_run c ops ?l) ip) = recent (LoginWindow c) now (failures ip ?acc ops)"
    using Cons.prems(1,2) by (intro Cons.IH) (auto simp: later)
  then show ?case by (simp add: x)
qed simp

text \<open>A login is let try exactly when its key had fewer failures than the maximum since its last
  success, in the window before: whatever other keys do, whichever sweeps have run, and
  however often it was asked.\<close>

theorem login_allowed_exact:
  assumes "sorted (map snd ops)" and "list_all (\<lambda>u. u \<le> now) (map snd ops)" and "0 < LoginMaxFailures c"
  shows "fst (allowed c ip now (login_run c ops (newLoginLimiter t0))) \<longleftrightarrow>
     int (length (filter (\<lambda>t. now - LoginWindow c < t) (failures ip [] ops))) < LoginMaxFailures c"
proof -
  have "recent (LoginWindow c) now (attempts_of (login_run c ops (newLoginLimiter t0)) ip) =
      recent (LoginWindow c) now (failures ip [] ops)"
    using assms(1,2) by (intro login_run_recent) (simp_all add: newLoginLimiter_def list_all_iff)
  with assms(3) show ?thesis by (auto simp: allowed_iff recent_def)
qed

lemma login_allowed_exact_witness:
  "\<not> fst (allowed \<lparr>LoginWindow = 50, LoginMaxFailures = 2\<rparr> ''a'' 30
       (login_run \<lparr>LoginWindow = 50, LoginMaxFailures = 2\<rparr> [(Fail ''a'', 10), (Fail ''b'', 11), (Fail ''a'', 20)] (newLoginLimiter 0)))"
  using login_allowed_exact [of "[(Fail ''a'', 10), (Fail ''b'', 11), (Fail ''a'', 20)]" 30
      "\<lparr>LoginWindow = 50, LoginMaxFailures = 2\<rparr>" "''a''" 0] by simp

subsection \<open>The address of a client\<close>

fun proxies_from ::
  "(string \<Rightarrow> 'ip option) \<Rightarrow> (string \<Rightarrow> 'net option) \<Rightarrow> ('ip \<Rightarrow> string) \<Rightarrow> ('ip \<Rightarrow> bool) \<Rightarrow> string list \<Rightarrow> string + 'net list" where
  "proxies_from parse_ip parse_cidr show_ip is4 [] = Inr []"
| "proxies_from parse_ip parse_cidr show_ip is4 (raw # raws) =
     (let raw = trim_space raw in
      if raw = [] then proxies_from parse_ip parse_cidr show_ip is4 raws
      else
        let cidr =
              (if contains raw ''/'' then Some raw
               else case parse_ip raw of
                      None \<Rightarrow> None
                    | Some ip \<Rightarrow> Some (show_ip ip @ ''/'' @ (if is4 ip then ''32'' else ''128'')))
        in case cidr of
             None \<Rightarrow> Inl raw
           | Some cd \<Rightarrow>
               (case parse_cidr cd of
                  None \<Rightarrow> Inl cd
                | Some n \<Rightarrow>
                    (case proxies_from parse_ip parse_cidr show_ip is4 raws of
                       Inl e \<Rightarrow> Inl e
                     | Inr ns \<Rightarrow> Inr (n # ns))))"

text \<open>\<open>SetTrustedProxies\<close>: the new list, or the entry that does not parse, and the list as it was.\<close>

definition SetTrustedProxies ::
  "(string \<Rightarrow> 'ip option) \<Rightarrow> (string \<Rightarrow> 'net option) \<Rightarrow> ('ip \<Rightarrow> string) \<Rightarrow> ('ip \<Rightarrow> bool) \<Rightarrow> string list
     \<Rightarrow> 'net list option \<Rightarrow> string option \<times> 'net list option" where
  "SetTrustedProxies parse_ip parse_cidr show_ip is4 cidrs nets =
     (case proxies_from parse_ip parse_cidr show_ip is4 cidrs of
        Inl e \<Rightarrow> (Some e, nets)
      | Inr ns \<Rightarrow> (None, Some ns))"

definition isTrustedProxy :: "(string \<Rightarrow> 'ip option) \<Rightarrow> ('net \<Rightarrow> 'ip \<Rightarrow> bool) \<Rightarrow> 'net list option \<Rightarrow> string \<Rightarrow> bool" where
  "isTrustedProxy parse_ip net_contains nets host =
     (case nets of
        None \<Rightarrow> False
      | Some ns \<Rightarrow>
          (case parse_ip host of
             None \<Rightarrow> False
           | Some ip \<Rightarrow> list_ex (\<lambda>n. net_contains n ip) ns))"







end
