(* ===== verification/Quota.thy ===== *)
theory Quota
  imports Prelude
begin

text \<open>
  \<open>internal/uploadquota/quota.go\<close>: the bytes an account uploads in a sliding window. Sums
  are \<open>int64\<close> sums (\<open>wrap64\<close>); the properties ask that a quota and a reservation together
  stay under \<open>2^63\<close>, as the length of a buffer in memory does.
\<close>

definition DefaultWindow :: duration where "DefaultWindow = 24 * hour"

record entry =
  en_at :: time
  en_n :: int

record quota =
  q_max :: int
  q_window :: duration
  q_used :: "(string, entry list) fmap"

definition New :: "int \<Rightarrow> duration \<Rightarrow> quota" where
  "New mx window = \<lparr>q_max = mx, q_window = (if window \<le> 0 then DefaultWindow else window), q_used = fmempty\<rparr>"

definition Enabled :: "quota option \<Rightarrow> bool" where
  "Enabled q = (case q of None \<Rightarrow> False | Some q \<Rightarrow> q_max q > 0)"

definition Max :: "quota option \<Rightarrow> int" where
  "Max q = (if \<not> Enabled q then 0 else q_max (the q))"

definition Window :: "quota option \<Rightarrow> duration" where
  "Window q = (case q of None \<Rightarrow> DefaultWindow | Some q \<Rightarrow> q_window q)"

definition Key :: "string \<Rightarrow> string \<Rightarrow> string" where
  "Key userID tokenID = (if userID \<noteq> [] then ''user:'' @ userID else ''token:'' @ tokenID)"

record refusal =
  rf_used :: int
  rf_max :: int
  rf_n :: int
  rf_window :: duration
  rf_wait :: duration

definition entries_of :: "quota \<Rightarrow> string \<Rightarrow> entry list" where
  "entries_of q key = fm_get [] (q_used q) key"

definition live_entries :: "duration \<Rightarrow> time \<Rightarrow> entry list \<Rightarrow> entry list" where
  "live_entries w now es = dropWhile (\<lambda>e. \<not> en_at e + w > now) es"

definition q_prune :: "string \<Rightarrow> time \<Rightarrow> quota \<Rightarrow> entry list \<times> quota" where
  "q_prune key now q =
     (let es = live_entries (q_window q) now (entries_of q key) in
      (es, q\<lparr>q_used := (if es = [] then fmdrop key (q_used q) else fmupd key es (q_used q))\<rparr>))"

definition sum_entries :: "entry list \<Rightarrow> int" where
  "sum_entries es = fold (\<lambda>e s. wrap64 (s + en_n e)) es 0"

fun wait_for :: "int \<Rightarrow> int \<Rightarrow> int \<Rightarrow> duration \<Rightarrow> time \<Rightarrow> int \<Rightarrow> entry list \<Rightarrow> duration" where
  "wait_for mx used n w now freed [] = 0"
| "wait_for mx used n w now freed (e # es) =
     (let freed = wrap64 (freed + en_n e) in
      if wrap64 (wrap64 (used - freed) + n) \<le> mx then en_at e + w - now
      else wait_for mx used n w now freed es)"

definition Reserve :: "string \<Rightarrow> int \<Rightarrow> time \<Rightarrow> quota option \<Rightarrow> refusal option \<times> quota option" where
  "Reserve key n now quota =
     (case quota of
        None \<Rightarrow> (None, None)
      | Some q \<Rightarrow>
          if \<not> Enabled quota \<or> n \<le> 0 then (None, quota)
          else
            case q_prune key now q of
              (es, q') \<Rightarrow>
                let used = sum_entries es in
                if wrap64 (used + n) \<le> q_max q
                then (None, Some (q'\<lparr>q_used := fmupd key (es @ [\<lparr>en_at = now, en_n = n\<rparr>]) (q_used q')\<rparr>))
                else
                  let r = \<lparr>rf_used = used, rf_max = q_max q, rf_n = n, rf_window = q_window q, rf_wait = 0\<rparr>
                  in if n > q_max q then (Some r, Some q')
                     else (Some (r\<lparr>rf_wait := wait_for (q_max q) used n (q_window q) now 0 es\<rparr>), Some q'))"

text \<open>The bytes are taken back from the latest entries; entries left empty are dropped.\<close>

fun take_back :: "int \<Rightarrow> entry list \<Rightarrow> entry list" where
  "take_back n [] = []"
| "take_back n (e # es) =
     (if n > 0
      then let take = min n (en_n e) in e\<lparr>en_n := en_n e - take\<rparr> # take_back (n - take) es
      else e # es)"

definition Refund :: "string \<Rightarrow> int \<Rightarrow> quota option \<Rightarrow> quota option" where
  "Refund key n quota =
     (case quota of
        None \<Rightarrow> None
      | Some q \<Rightarrow>
          if \<not> Enabled quota \<or> n \<le> 0 then quota
          else Some (q\<lparr>q_used := fmupd key (filter (\<lambda>e. en_n e > 0) (rev (take_back n (rev (entries_of q key))))) (q_used q)\<rparr>))"

subsection \<open>Sums without overflow\<close>

definition bytes :: "entry list \<Rightarrow> int" where
  "bytes es = sum_list (map en_n es)"

lemma bytes_simps [simp]: "bytes [] = 0" "bytes (e # es) = en_n e + bytes es" "bytes (xs @ ys) = bytes xs + bytes ys"
  "bytes (rev xs) = bytes xs"
  by (simp_all add: bytes_def rev_map [symmetric])

lemma bytes_nonneg: "list_all (\<lambda>e. 0 < en_n e) es \<Longrightarrow> 0 \<le> bytes es"
  by (induction es) auto

lemma fold_bytes:
  "list_all (\<lambda>e. 0 < en_n e) es \<Longrightarrow> 0 \<le> a \<Longrightarrow> a + bytes es < 2 ^ 63 \<Longrightarrow>
     fold (\<lambda>e s. wrap64 (s + en_n e)) es a = a + bytes es"
proof (induction es arbitrary: a)
  case (Cons e es)
  then have "0 \<le> bytes es" by (simp add: bytes_nonneg)
  with Cons.prems have "wrap64 (a + en_n e) = a + en_n e" by (intro wrap64_id) auto
  with Cons show ?case by simp
qed simp

text \<open>A quota in a good state: what each key holds is positive, in order, and within the quota.\<close>

definition quota_ok :: "time \<Rightarrow> quota \<Rightarrow> bool" where
  "quota_ok now q \<longleftrightarrow> 0 < q_max q \<and> q_max q < 2 ^ 63 \<and> 0 < q_window q \<and>
     (\<forall>k. list_all (\<lambda>e. 0 < en_n e) (entries_of q k) \<and> bytes (entries_of q k) \<le> q_max q \<and>
          sorted (map en_at (entries_of q k)) \<and> (\<forall>e\<in>set (entries_of q k). en_at e \<le> now))"

lemma quota_okD:
  assumes "quota_ok now q"
  shows "0 < q_max q" "q_max q < 2 ^ 63" "0 < q_window q" "list_all (\<lambda>e. 0 < en_n e) (entries_of q k)"
    "bytes (entries_of q k) \<le> q_max q" "sorted (map en_at (entries_of q k))" "\<forall>e\<in>set (entries_of q k). en_at e \<le> now"
  using assms by (simp_all add: quota_ok_def)

lemma live_suffix: "\<exists>ds. es = ds @ live_entries w now es \<and> (\<forall>d\<in>set ds. en_at d + w \<le> now)"
  by (rule exI [of _ "takeWhile (\<lambda>e. \<not> now < en_at e + w) es"]) (auto simp: live_entries_def dest: set_takeWhileD)

lemma live_bytes: "list_all (\<lambda>e. 0 < en_n e) es \<Longrightarrow>
   list_all (\<lambda>e. 0 < en_n e) (live_entries w now es) \<and> bytes (live_entries w now es) \<le> bytes es"
proof -
  assume pos: "list_all (\<lambda>e. 0 < en_n e) es"
  obtain ds where ds: "es = ds @ live_entries w now es" using live_suffix by blast
  with pos have "list_all (\<lambda>e. 0 < en_n e) (ds @ live_entries w now es)" by simp
  then have "list_all (\<lambda>e. 0 < en_n e) ds" "list_all (\<lambda>e. 0 < en_n e) (live_entries w now es)" by simp_all
  moreover have "bytes es = bytes ds + bytes (live_entries w now es)" by (subst ds) simp
  ultimately show ?thesis using bytes_nonneg [of ds] by simp
qed

lemma live_filter: "sorted (map en_at es) \<Longrightarrow> live_entries w now es = filter (\<lambda>e. now < en_at e + w) es"
proof (induction es)
  case (Cons e es)
  have "filter (\<lambda>e. now < en_at e + w) es = es" if "now < en_at e + w"
    using that Cons.prems by (intro filter_True) auto
  with Cons show ?case by (auto simp: live_entries_def)
qed (simp add: live_entries_def)

subsection \<open>Reserving\<close>

text \<open>What \<open>Reserve\<close> decides, without the wrap-around.\<close>

lemma live_total:
  assumes "quota_ok now q" and "now \<le> t"
  shows "sum_entries (live_entries (q_window q) t (entries_of q key)) = bytes (live_entries (q_window q) t (entries_of q key))
    \<and> 0 \<le> bytes (live_entries (q_window q) t (entries_of q key))
    \<and> bytes (live_entries (q_window q) t (entries_of q key)) \<le> q_max q"
proof -
  note ok = quota_okD [OF assms(1)]
  note live = live_bytes [OF ok(4), of "q_window q" t key]
  then have pos: "list_all (\<lambda>e. 0 < en_n e) (live_entries (q_window q) t (entries_of q key))" by blast
  have "bytes (live_entries (q_window q) t (entries_of q key)) \<le> q_max q" using live ok(5) [of key] by linarith
  with fold_bytes [OF pos, of 0] bytes_nonneg [OF pos] ok(2) show ?thesis by (simp add: sum_entries_def)
qed

lemma entries_upd: "entries_of (q\<lparr>q_used := m\<rparr>) k = fm_get [] m k" "fm_get [] (q_used q) k = entries_of q k"
  by (simp_all add: entries_of_def)

lemma Reserve_eq:
  fixes key :: string
  assumes "quota_ok now q" and "now \<le> t" and "0 < n" and "n + q_max q < 2 ^ 63"
  defines "es \<equiv> live_entries (q_window q) t (entries_of q key)"
  shows "fst (Reserve key n t (Some q)) = None \<longleftrightarrow> bytes es + n \<le> q_max q"
    and "\<exists>q'. snd (Reserve key n t (Some q)) = Some q' \<and> q_max q' = q_max q \<and> q_window q' = q_window q \<and>
           entries_of q' key = es @ (if bytes es + n \<le> q_max q then [\<lparr>en_at = t, en_n = n\<rparr>] else []) \<and>
           (\<forall>k. k \<noteq> key \<longrightarrow> entries_of q' k = entries_of q k)"
    and "\<And>r. fst (Reserve key n t (Some q)) = Some r \<Longrightarrow> n \<le> q_max q \<Longrightarrow>
           rf_wait r = wait_for (q_max q) (bytes es) n (q_window q) t 0 es"
proof -
  note ok = quota_okD [OF assms(1)]
  from live_total [OF assms(1,2), of key] have total: "sum_entries es = bytes es" "0 \<le> bytes es" "bytes es \<le> q_max q"
    by (simp_all add: es_def)
  have wrap: "wrap64 (bytes es + n) = bytes es + n" using total assms(3,4) by (intro wrap64_id) auto
  show "fst (Reserve key n t (Some q)) = None \<longleftrightarrow> bytes es + n \<le> q_max q"
    using ok(1) assms(3) by (simp add: Reserve_def Enabled_def q_prune_def Let_def es_def [symmetric] total wrap)
  show "\<exists>q'. snd (Reserve key n t (Some q)) = Some q' \<and> q_max q' = q_max q \<and> q_window q' = q_window q \<and>
           entries_of q' key = es @ (if bytes es + n \<le> q_max q then [\<lparr>en_at = t, en_n = n\<rparr>] else []) \<and>
           (\<forall>k. k \<noteq> key \<longrightarrow> entries_of q' k = entries_of q k)"
    using ok(1) assms(3)
    by (auto simp: Reserve_def Enabled_def q_prune_def Let_def es_def [symmetric] total wrap entries_upd)
  show "fst (Reserve key n t (Some q)) = Some r \<Longrightarrow> n \<le> q_max q \<Longrightarrow>
           rf_wait r = wait_for (q_max q) (bytes es) n (q_window q) t 0 es" for r
    using ok(1) assms(3)
    by (auto simp: Reserve_def Enabled_def q_prune_def Let_def es_def [symmetric] total wrap split: if_splits)
qed

lemma wait_for_spec:
  assumes "list_all (\<lambda>e. 0 < en_n e) es" and "0 \<le> f" and "f + bytes es = sm" and "sm \<le> mx" and "n \<le> mx" and "0 < n"
    and "n + mx < 2 ^ 63" and "bytes es + n > mx"
  shows "\<exists>pre e post. es = pre @ e # post \<and> wait_for mx sm n w now f es = en_at e + w - now \<and>
     bytes post + n \<le> mx \<and> mx < bytes (e # post) + n"
  using assms
proof (induction es arbitrary: f)
  case (Cons e es)
  then have pos: "0 \<le> bytes es" "0 < en_n e" by (simp_all add: bytes_nonneg)
  with Cons.prems have f: "wrap64 (f + en_n e) = f + en_n e" and r: "wrap64 (sm - (f + en_n e)) = bytes es"
    and rn: "wrap64 (bytes es + n) = bytes es + n"
    by (subst wrap64_id; auto)+
  show ?case
  proof (cases "bytes es + n \<le> mx")
    case True
    with Cons.prems show ?thesis
      by (intro exI [of _ "[]"] exI [of _ e] exI [of _ es]) (simp add: Let_def f r rn)
  next
    case False
    then have "\<exists>pre e' post. es = pre @ e' # post \<and> wait_for mx sm n w now (f + en_n e) es = en_at e' + w - now \<and>
       bytes post + n \<le> mx \<and> mx < bytes (e' # post) + n"
      using Cons.prems pos by (intro Cons.IH) auto
    then obtain pre e' post where es: "es = pre @ e' # post" and spec: "wait_for mx sm n w now (f + en_n e) es = en_at e' + w - now"
      "bytes post + n \<le> mx" "mx < bytes (e' # post) + n" by blast
    have "wait_for mx sm n w now f (e # es) = wait_for mx sm n w now (f + en_n e) es"
      using False by (simp add: Let_def f r rn)
    with es spec show ?thesis
      by (intro exI [of _ "e # pre"] exI [of _ e'] exI [of _ post]) simp
  qed
qed simp

lemma bytes_filter_le: "list_all (\<lambda>e. 0 < en_n e) es \<Longrightarrow> bytes (filter P es) \<le> bytes es"
  by (induction es) auto

lemma pos_filter: "list_all (\<lambda>e. 0 < en_n e) es \<Longrightarrow> list_all (\<lambda>e. 0 < en_n e) (filter P es)"
  by (induction es) auto

text \<open>A refused reservation that fits the quota says when it fits: the wait is positive, the same
  reservation is refused at any time before the wait is over and granted when it is over
  (nothing else happening to the account meanwhile).\<close>

theorem quota_wait_exact:
  assumes "quota_ok now q" and "0 < n" and "n \<le> q_max q" and "n + q_max q < 2 ^ 63"
    and "Reserve key n now (Some q) = (Some r, quota')"
  shows "0 < rf_wait r
    \<and> fst (Reserve key n (now + rf_wait r) (Some q)) = None
    \<and> (now \<le> t \<and> t < now + rf_wait r \<longrightarrow> fst (Reserve key n t (Some q)) \<noteq> None)"
proof -
  let ?w = "q_window q" and ?all = "entries_of q key"
  let ?es = "live_entries ?w now ?all"
  note ok = quota_okD [OF assms(1)]
  have pos: "list_all (\<lambda>e. 0 < en_n e) ?es" and total: "0 \<le> bytes ?es" "bytes ?es \<le> q_max q"
    using live_bytes [OF ok(4)] live_total [OF assms(1) order_refl, of key] by simp_all
  have refused: "\<not> bytes ?es + n \<le> q_max q"
    using Reserve_eq(1) [OF assms(1) order_refl assms(2,4), of key] assms(5) by simp
  have "rf_wait r = wait_for (q_max q) (bytes ?es) n ?w now 0 ?es"
    using Reserve_eq(3) [OF assms(1) order_refl assms(2,4), of key r] assms(3,5) by simp
  with wait_for_spec [OF pos, of 0 "bytes ?es" "q_max q" n ?w now] total assms(2-4) refused
  obtain pre e post where es: "?es = pre @ e # post" and wait: "rf_wait r = en_at e + ?w - now"
    and fits: "bytes post + n \<le> q_max q" and full: "q_max q < bytes (e # post) + n"
    by auto
  have live: "live_entries ?w u ?all = filter (\<lambda>x. u < en_at x + ?w) ?all" for u by (rule live_filter [OF ok(6)])
  have later: "live_entries ?w u ?all = filter (\<lambda>x. u < en_at x + ?w) ?es" if "now \<le> u" for u
    unfolding live [of u] live [of now] filter_filter by (rule filter_cong) (use that in auto)
  have "sorted (map en_at ?es)" unfolding live by (rule sorted_filter [OF ok(6)])
  then have order: "\<forall>x\<in>set pre. en_at x \<le> en_at e" "\<forall>x\<in>set post. en_at e \<le> en_at x"
    unfolding es by (auto simp: sorted_append)
  have "e \<in> set ?es" by (simp add: es)
  then have e_live: "now < en_at e + ?w" by (simp add: live)
  then have wait_pos: "0 < rf_wait r" by (simp add: wait)
  have pp: "list_all (\<lambda>e. 0 < en_n e) post" "list_all (\<lambda>e. 0 < en_n e) pre" "0 < en_n e" using pos by (simp_all add: es)
  have "filter (\<lambda>x. now + rf_wait r < en_at x + ?w) (pre @ [e]) = []"
    using order(1) by (auto simp: wait filter_empty_conv)
  then have "live_entries ?w (now + rf_wait r) ?all = filter (\<lambda>x. now + rf_wait r < en_at x + ?w) post"
  proof -
    have "live_entries ?w (now + rf_wait r) ?all = filter (\<lambda>x. now + rf_wait r < en_at x + ?w) ((pre @ [e]) @ post)"
      using later [of "now + rf_wait r"] wait_pos es by simp
    with \<open>filter (\<lambda>x. now + rf_wait r < en_at x + ?w) (pre @ [e]) = []\<close> show ?thesis
      unfolding filter_append [of _ "pre @ [e]" post] by simp
  qed
  then have "bytes (live_entries ?w (now + rf_wait r) ?all) + n \<le> q_max q"
    using bytes_filter_le [OF pp(1), of "\<lambda>x. now + rf_wait r < en_at x + ?w"] fits by simp
  then have granted: "fst (Reserve key n (now + rf_wait r) (Some q)) = None"
    using Reserve_eq(1) [OF assms(1) _ assms(2,4), of "now + rf_wait r" key] wait_pos by simp
  have "fst (Reserve key n t (Some q)) \<noteq> None" if "now \<le> t" "t < now + rf_wait r"
  proof -
    have "filter (\<lambda>x. t < en_at x + ?w) (e # post) = e # post"
      using that(2) order(2) by (intro filter_True) (auto simp: wait)
    then have "live_entries ?w t ?all = filter (\<lambda>x. t < en_at x + ?w) pre @ e # post"
      using later [OF that(1)] by (simp only: es filter_append)
    then have "bytes (e # post) \<le> bytes (live_entries ?w t ?all)"
      using bytes_nonneg [OF pos_filter [OF pp(2)], of "\<lambda>x. t < en_at x + ?w"] by simp
    with full have "\<not> bytes (live_entries ?w t ?all) + n \<le> q_max q" by linarith
    with Reserve_eq(1) [OF assms(1) that(1) assms(2,4), of key] show ?thesis by simp
  qed
  with wait_pos granted show ?thesis by blast
qed

subsection \<open>Runs\<close>

datatype quota_op = Take string int | Give string int

fun quota_step :: "quota_op \<Rightarrow> time \<Rightarrow> quota option \<Rightarrow> quota option" where
  "quota_step (Take key n) now q = snd (Reserve key n now q)"
| "quota_step (Give key n) now q = Refund key n q"

fun quota_run :: "(quota_op \<times> time) list \<Rightarrow> quota option \<Rightarrow> quota option" where
  "quota_run [] q = q"
| "quota_run ((op, now) # ops) q = quota_run ops (quota_step op now q)"

fun op_size :: "quota_op \<Rightarrow> int" where
  "op_size (Take key n) = n"
| "op_size (Give key n) = n"

lemma quota_ok_later: "quota_ok t q \<Longrightarrow> t \<le> t' \<Longrightarrow> quota_ok t' q"
  by (auto simp: quota_ok_def intro: order_trans)

lemma quota_ok_entries:
  assumes "quota_ok now q" and "q_max q' = q_max q" and "q_window q' = q_window q"
    and "\<And>k. entries_of q' k = entries_of q k \<or>
       list_all (\<lambda>e. 0 < en_n e) (entries_of q' k) \<and> bytes (entries_of q' k) \<le> q_max q \<and>
       sorted (map en_at (entries_of q' k)) \<and> (\<forall>e\<in>set (entries_of q' k). en_at e \<le> now)"
  shows "quota_ok now q'"
proof -
  have "list_all (\<lambda>e. 0 < en_n e) (entries_of q' k) \<and> bytes (entries_of q' k) \<le> q_max q' \<and>
       sorted (map en_at (entries_of q' k)) \<and> (\<forall>e\<in>set (entries_of q' k). en_at e \<le> now)" for k
    using assms(2) assms(4) [of k] quota_okD(4-7) [OF assms(1), of k] by auto
  then show ?thesis using quota_okD(1-3) [OF assms(1)] assms(2,3) by (simp add: quota_ok_def)
qed

lemma Reserve_ok:
  assumes "quota_ok now q" and "n + q_max q < 2 ^ 63"
  shows "\<exists>q'. snd (Reserve key n now (Some q)) = Some q' \<and> quota_ok now q' \<and> q_max q' = q_max q \<and> q_window q' = q_window q"
proof (cases "0 < n")
  case False
  then show ?thesis using assms by (simp add: Reserve_def)
next
  case True
  let ?es = "live_entries (q_window q) now (entries_of q key)"
  note ok = quota_okD [OF assms(1)]
  obtain q' where q': "snd (Reserve key n now (Some q)) = Some q'" "q_max q' = q_max q" "q_window q' = q_window q"
    and key: "entries_of q' key = ?es @ (if bytes ?es + n \<le> q_max q then [\<lparr>en_at = now, en_n = n\<rparr>] else [])"
    and other: "\<forall>k. k \<noteq> key \<longrightarrow> entries_of q' k = entries_of q k"
    using Reserve_eq(2) [OF assms(1) order_refl True assms(2), of key] by blast
  have es: "?es = filter (\<lambda>e. now < en_at e + q_window q) (entries_of q key)" by (rule live_filter [OF ok(6)])
  have "sorted (map en_at ?es)" unfolding es by (rule sorted_filter [OF ok(6)])
  moreover have "\<forall>e\<in>set ?es. en_at e \<le> now" unfolding es using ok(7) by auto
  moreover have "list_all (\<lambda>e. 0 < en_n e) ?es" and "bytes ?es \<le> q_max q"
    using live_bytes [OF ok(4)] live_total [OF assms(1) order_refl, of key] by simp_all
  ultimately have new: "list_all (\<lambda>e. 0 < en_n e) (entries_of q' key) \<and> bytes (entries_of q' key) \<le> q_max q \<and>
       sorted (map en_at (entries_of q' key)) \<and> (\<forall>e\<in>set (entries_of q' key). en_at e \<le> now)"
    using True by (simp add: key sorted_append)
  have "entries_of q' k = entries_of q k \<or>
       list_all (\<lambda>e. 0 < en_n e) (entries_of q' k) \<and> bytes (entries_of q' k) \<le> q_max q \<and>
       sorted (map en_at (entries_of q' k)) \<and> (\<forall>e\<in>set (entries_of q' k). en_at e \<le> now)" for k
    using new other by (cases "k = key") simp_all
  then have "quota_ok now q'" by (rule quota_ok_entries [OF assms(1) q'(2,3)])
  with q' show ?thesis by blast
qed

lemma take_back_spec:
  "list_all (\<lambda>e. 0 < en_n e) es \<Longrightarrow> 0 \<le> n \<Longrightarrow>
     map en_at (take_back n es) = map en_at es \<and> bytes (take_back n es) = bytes es - min n (bytes es) \<and>
     list_all (\<lambda>e. 0 \<le> en_n e) (take_back n es)"
proof (induction es arbitrary: n)
  case (Cons e es)
  have "0 \<le> n - min n (en_n e)" by simp
  with Cons.IH [OF _ this] Cons.prems bytes_nonneg [of es] show ?case
    by (auto simp: Let_def min_def list_all_iff)
qed simp

lemma filter_positive: "list_all (\<lambda>e. 0 \<le> en_n e) es \<Longrightarrow>
   list_all (\<lambda>e. 0 < en_n e) (filter (\<lambda>e. 0 < en_n e) es) \<and> bytes (filter (\<lambda>e. 0 < en_n e) es) = bytes es"
  by (induction es) auto

lemma Refund_ok:
  assumes "quota_ok now q"
  shows "\<exists>q'. Refund key n (Some q) = Some q' \<and> quota_ok now q' \<and> q_max q' = q_max q \<and> q_window q' = q_window q"
proof (cases "0 < n")
  case False
  then show ?thesis using assms by (simp add: Refund_def)
next
  case True
  note ok = quota_okD [OF assms]
  let ?taken = "rev (take_back n (rev (entries_of q key)))"
  let ?q' = "q\<lparr>q_used := fmupd key (filter (\<lambda>e. en_n e > 0) ?taken) (q_used q)\<rparr>"
  have "list_all (\<lambda>e. 0 < en_n e) (rev (entries_of q key))" using ok(4) by simp
  from take_back_spec [OF this, of n] True
  have at: "map en_at ?taken = map en_at (entries_of q key)" and nonneg: "list_all (\<lambda>e. 0 \<le> en_n e) ?taken"
    and le: "bytes ?taken \<le> bytes (entries_of q key)"
    using bytes_nonneg [OF ok(4)] by (simp_all add: rev_map [symmetric] min_def)
  have "sorted (map en_at (filter (\<lambda>e. en_n e > 0) ?taken))" by (rule sorted_filter) (simp add: at ok(6))
  moreover have "en_at e \<le> now" if "e \<in> set ?taken" for e
    using that at ok(7) by (metis (no_types, lifting) imageE image_eqI set_map)
  ultimately have "quota_ok now ?q'"
    using filter_positive [OF nonneg] le ok(5) [of key]
    by (intro quota_ok_entries [OF assms]) (auto simp: entries_upd intro: order_trans)
  moreover have "Refund key n (Some q) = Some ?q'" using True ok(1) by (simp add: Refund_def Enabled_def)
  ultimately show ?thesis by simp
qed

lemma quota_step_ok:
  "quota_ok now q \<Longrightarrow> op_size op + q_max q < 2 ^ 63 \<Longrightarrow>
     \<exists>q'. quota_step op now (Some q) = Some q' \<and> quota_ok now q' \<and> q_max q' = q_max q \<and> q_window q' = q_window q"
  using Reserve_ok Refund_ok by (cases op) auto

lemma quota_run_ok:
  assumes "sorted (t0 # map snd ops)" and "\<forall>u\<in>set (t0 # map snd ops). u \<le> t" and "quota_ok t0 q"
    and "\<forall>op\<in>set (map fst ops). op_size op + q_max q < 2 ^ 63"
  shows "\<exists>q'. quota_run ops (Some q) = Some q' \<and> quota_ok t q' \<and> q_max q' = q_max q \<and> q_window q' = q_window q"
  using assms
proof (induction ops arbitrary: t0 q)
  case Nil
  then show ?case by (auto intro: quota_ok_later)
next
  case (Cons x ops)
  obtain op now where x: "x = (op, now)" by (rule prod.exhaust)
  have "quota_ok now q" using Cons.prems(1,3) by (auto simp: x intro: quota_ok_later)
  from quota_step_ok [OF this, of op] Cons.prems(4) obtain q1 where q1: "quota_step op now (Some q) = Some q1"
    "quota_ok now q1" "q_max q1 = q_max q" "q_window q1 = q_window q" by (auto simp: x)
  with Cons.IH [of now q1] Cons.prems show ?case by (auto simp: x)
qed

lemma New_ok: "0 < mx \<Longrightarrow> mx < 2 ^ 63 \<Longrightarrow> quota_ok t (New mx w)"
  by (simp add: quota_ok_def New_def entries_of_def DefaultWindow_def)

subsection \<open>What was granted\<close>

text \<open>
  An account's ledger, from the answers alone: each reservation granted is added, and bytes given back come off the latest, so
  that of the bytes recorded the first stay (\<open>keep_first\<close>). Nothing leaves it with time.
\<close>

fun keep_first :: "int \<Rightarrow> entry list \<Rightarrow> entry list" where
  "keep_first m [] = []"
| "keep_first m (e # es) = (if m \<le> 0 then [] else e\<lparr>en_n := min m (en_n e)\<rparr> # keep_first (m - en_n e) es)"

fun ledger :: "string \<Rightarrow> (quota_op \<times> time) list \<Rightarrow> quota option \<Rightarrow> entry list \<Rightarrow> entry list" where
  "ledger key [] q es = es"
| "ledger key ((Take k n, now) # ops) q es =
     ledger key ops (quota_step (Take k n) now q)
       (if k = key \<and> 0 < n \<and> fst (Reserve k n now q) = None then es @ [\<lparr>en_at = now, en_n = n\<rparr>] else es)"
| "ledger key ((Give k n, now) # ops) q es =
     ledger key ops (quota_step (Give k n) now q) (if k = key \<and> 0 < n then keep_first (bytes es - n) es else es)"

lemma keep_first_none [simp]: "m \<le> 0 \<Longrightarrow> keep_first m es = []"
  by (cases es) simp_all

lemma keep_first_append:
  "list_all (\<lambda>e. 0 < en_n e) ds \<Longrightarrow>
     keep_first m (ds @ es) = (if bytes ds \<le> m then ds @ keep_first (m - bytes ds) es else keep_first m ds)"
proof (induction ds arbitrary: m)
  case (Cons d ds)
  then have "0 \<le> bytes ds" by (simp add: bytes_nonneg)
  with Cons show ?case by (auto simp: diff_diff_eq min_def)
qed simp

lemma keep_first_parts: "list_all (\<lambda>e. 0 < en_n e) es \<Longrightarrow> e \<in> set (keep_first m es) \<Longrightarrow> 0 < en_n e \<and> en_at e \<in> en_at ` set es"
  by (induction es arbitrary: m) (auto split: if_splits simp: min_def)

lemma take_back_none: "take_back 0 es = es"
  by (cases es) simp_all

lemma take_back_keeps:
  "list_all (\<lambda>e. 0 < en_n e) es \<Longrightarrow> 0 \<le> n \<Longrightarrow>
     filter (\<lambda>e. 0 < en_n e) (rev (take_back n (rev es))) = keep_first (bytes es - n) es"
proof (induction es arbitrary: n rule: rev_induct)
  case (snoc x xs)
  then have pos: "0 < en_n x" "list_all (\<lambda>e. 0 < en_n e) xs" "0 \<le> bytes xs" by (simp_all add: bytes_nonneg)
  have whole: "keep_first (bytes xs) xs = xs" using keep_first_append [OF pos(2), of "bytes xs" "[]"] by simp
  have all: "filter (\<lambda>e. 0 < en_n e) xs = xs" using pos(2) by (simp add: list_all_iff)
  show ?case
  proof (cases "n < en_n x")
    case True
    then have "n - min n (en_n x) = 0" "en_n x - min n (en_n x) = en_n x - n" by simp_all
    with True snoc.prems pos all whole show ?thesis
      by (cases "n = 0") (simp_all add: take_back_none keep_first_append min_def)
  next
    case False
    then have "min n (en_n x) = en_n x" by simp
    with False snoc.IH [OF pos(2), of "n - en_n x"] pos all whole show ?thesis
      by (auto simp: keep_first_append take_back_none algebra_simps)
  qed
qed simp

text \<open>A ledger holds the entries the quota keeps, after some that are out of the window.\<close>

definition ledger_of :: "duration \<Rightarrow> time \<Rightarrow> entry list \<Rightarrow> entry list \<Rightarrow> bool" where
  "ledger_of w now kept es \<longleftrightarrow>
     list_all (\<lambda>e. 0 < en_n e) es \<and> (\<exists>ds. es = ds @ kept \<and> (\<forall>d\<in>set ds. en_at d + w \<le> now))"

lemma ledger_later: "ledger_of w t kept es \<Longrightarrow> t \<le> t' \<Longrightarrow> ledger_of w t' kept es"
  unfolding ledger_of_def by fastforce

lemma ledger_live:
  assumes "ledger_of w now kept es"
  shows "filter (\<lambda>e. now < en_at e + w) es = filter (\<lambda>e. now < en_at e + w) kept"
proof -
  obtain ds where es: "es = ds @ kept" and old: "\<forall>d\<in>set ds. en_at d + w \<le> now" using assms by (auto simp: ledger_of_def)
  have "filter (\<lambda>e. now < en_at e + w) ds = []" using old by (auto simp: filter_empty_conv)
  then show ?thesis by (simp add: es)
qed

lemma ledger_take:
  assumes "quota_ok now q" and "n + q_max q < 2 ^ 63" and "ledger_of (q_window q) now (entries_of q key) es"
  shows "\<exists>q'. quota_step (Take k n) now (Some q) = Some q' \<and> ledger_of (q_window q) now (entries_of q' key)
      (if k = key \<and> 0 < n \<and> fst (Reserve k n now (Some q)) = None then es @ [\<lparr>en_at = now, en_n = n\<rparr>] else es)"
proof (cases "0 < n")
  case False
  then show ?thesis using assms(3) by (simp add: Reserve_def)
next
  case True
  let ?live = "live_entries (q_window q) now (entries_of q k)"
  from Reserve_eq(1,2) [OF assms(1) order_refl True assms(2), of k]
  obtain q' where q': "snd (Reserve k n now (Some q)) = Some q'"
    "entries_of q' k = ?live @ (if fst (Reserve k n now (Some q)) = None then [\<lparr>en_at = now, en_n = n\<rparr>] else [])"
    "\<forall>j. j \<noteq> k \<longrightarrow> entries_of q' j = entries_of q j" by auto
  from assms(3) obtain ds where es: "es = ds @ entries_of q key" "\<forall>d\<in>set ds. en_at d + q_window q \<le> now" "list_all (\<lambda>e. 0 < en_n e) es"
    by (auto simp: ledger_of_def)
  show ?thesis
  proof (cases "k = key")
    case same: True
    obtain cs where cs: "entries_of q key = cs @ ?live" "\<forall>d\<in>set cs. en_at d + q_window q \<le> now"
      using live_suffix [of "entries_of q key" "q_window q" now] same by blast
    let ?add = "if fst (Reserve k n now (Some q)) = None then [\<lparr>en_at = now, en_n = n\<rparr>] else []"
    have "es = (ds @ cs) @ ?live" using es(1) cs(1) by (metis append_assoc)
    then have "es @ ?add = (ds @ cs) @ entries_of q' key" using q'(2) same by (metis append_assoc)
    moreover have "\<forall>d\<in>set (ds @ cs). en_at d + q_window q \<le> now" using es(2) cs(2) by auto
    moreover have "list_all (\<lambda>e. 0 < en_n e) (es @ ?add)" using es(3) True by simp
    ultimately have "ledger_of (q_window q) now (entries_of q' key) (es @ ?add)" unfolding ledger_of_def by blast
    then show ?thesis using q'(1) same True by (auto split: if_splits)
  qed (use q' assms(3) in auto)
qed

lemma ledger_give:
  assumes "quota_ok now q" and "ledger_of (q_window q) now (entries_of q key) es"
  shows "\<exists>q'. quota_step (Give k n) now (Some q) = Some q' \<and> ledger_of (q_window q) now (entries_of q' key)
      (if k = key \<and> 0 < n then keep_first (bytes es - n) es else es)"
proof (cases "0 < n")
  case False
  then show ?thesis using assms(2) by (simp add: Refund_def)
next
  case True
  note ok = quota_okD [OF assms(1)]
  from assms(2) obtain ds where es: "es = ds @ entries_of q key" "\<forall>d\<in>set ds. en_at d + q_window q \<le> now" "list_all (\<lambda>e. 0 < en_n e) es"
    by (auto simp: ledger_of_def)
  then have pos: "list_all (\<lambda>e. 0 < en_n e) ds" "list_all (\<lambda>e. 0 < en_n e) (entries_of q key)" by simp_all
  obtain q' where q': "Refund k n (Some q) = Some q'"
    "\<And>j. entries_of q' j = (if j = k then keep_first (bytes (entries_of q k) - n) (entries_of q k) else entries_of q j)"
    using True ok(1) take_back_keeps [OF ok(4), of n k] by (auto simp: Refund_def Enabled_def entries_upd)
  show ?thesis
  proof (cases "k = key")
    case same: True
    have parts: "0 < en_n e \<and> en_at e \<in> en_at ` set es" if "e \<in> set (keep_first m es)" for e m
      by (rule keep_first_parts [OF es(3) that])
    have "list_all (\<lambda>e. 0 < en_n e) (keep_first m es)" for m using parts by (auto simp: list_all_iff)
    moreover have "\<exists>cs. keep_first (bytes es - n) es = cs @ entries_of q' key \<and> (\<forall>d\<in>set cs. en_at d + q_window q \<le> now)"
    proof (cases "n < bytes (entries_of q key)")
      case False
      have "\<forall>d\<in>set (keep_first m ds). en_at d + q_window q \<le> now" for m
        using keep_first_parts [OF pos(1)] es(2) by fastforce
      moreover have "keep_first (bytes es - n) es = keep_first (bytes es - n) ds"
        using False es(1) pos(1) keep_first_append [OF pos(1), of "bytes ds" "[]"]
        by (cases "n = bytes (entries_of q key)") (simp_all add: keep_first_append)
      ultimately show ?thesis using False q'(2) [of key] same by simp
    qed (use es(1,2) pos q'(2) [of key] same in \<open>simp add: keep_first_append\<close>)
    ultimately show ?thesis using q'(1) same True by (simp add: ledger_of_def)
  qed (use q' assms(2) in auto)
qed

lemma ledger_run:
  assumes "sorted (t0 # map snd ops)" and "\<forall>u\<in>set (t0 # map snd ops). u \<le> t" and "quota_ok t0 q"
    and "\<forall>op\<in>set (map fst ops). op_size op + q_max q < 2 ^ 63"
    and "ledger_of (q_window q) t0 (entries_of q key) es" and "quota_run ops (Some q) = Some q'"
  shows "ledger_of (q_window q) t (entries_of q' key) (ledger key ops (Some q) es)"
  using assms
proof (induction ops arbitrary: t0 q es)
  case Nil
  then show ?case by (auto intro: ledger_later)
next
  case (Cons x ops)
  obtain op now where x: "x = (op, now)" by (rule prod.exhaust)
  have ok: "quota_ok now q" using Cons.prems(1,3) by (auto simp: x intro: quota_ok_later)
  from quota_step_ok [OF ok, of op] Cons.prems(4) obtain q1 where q1: "quota_step op now (Some q) = Some q1"
    "quota_ok now q1" "q_max q1 = q_max q" "q_window q1 = q_window q" by (auto simp: x)
  have now: "ledger_of (q_window q) now (entries_of q key) es" using Cons.prems(1,5) by (auto simp: x intro: ledger_later)
  note IH = Cons.IH [OF _ _ q1(2), unfolded q1(3,4)]
  show ?case
  proof (cases op)
    case (Take k n)
    with ledger_take [OF ok _ now, of n k] Cons.prems(4) q1(1) have
      "ledger_of (q_window q) now (entries_of q1 key)
         (if k = key \<and> 0 < n \<and> fst (Reserve k n now (Some q)) = None then es @ [\<lparr>en_at = now, en_n = n\<rparr>] else es)"
      by (auto simp: x)
    from IH [OF _ _ _ this] Cons.prems Take q1(1) show ?thesis by (simp add: x)
  next
    case (Give k n)
    with ledger_give [OF ok now, of k n] q1(1) have
      "ledger_of (q_window q) now (entries_of q1 key) (if k = key \<and> 0 < n then keep_first (bytes es - n) es else es)"
      by auto
    from IH [OF _ _ _ this] Cons.prems Give q1(1) show ?thesis by (simp add: x)
  qed
qed

text \<open>C12: After any reservations and refunds of any accounts in the order of time, a reservation of \<open>n\<close> bytes is granted
  exactly when they fit the quota together with the bytes granted to that account inside the window and not given back;
  bytes given back are the account's latest. Those bytes are never above the quota. (There is a quota, and a size and the
  quota together stay below \<open>2 ^ 63\<close>.)\<close>

theorem quota_exact:
  assumes "sorted (t0 # map snd ops)" and "list_all (\<lambda>u. u \<le> now) (t0 # map snd ops)"
    and "0 < mx" and "mx < 2 ^ 63" and "list_all (\<lambda>op. op_size op + mx < 2 ^ 63) (map fst ops)"
    and "0 < n" and "n + mx < 2 ^ 63"
  shows "let q = Some (New mx w); window = (if w \<le> 0 then DefaultWindow else w);
      held = bytes (filter (\<lambda>e. now < en_at e + window) (ledger key ops q []))
    in held \<le> mx \<and> (fst (Reserve key n now (quota_run ops q)) = None \<longleftrightarrow> held + n \<le> mx)"
proof -
  have new: "q_max (New mx w) = mx" "q_window (New mx w) = (if w \<le> 0 then DefaultWindow else w)" by (simp_all add: New_def)
  have all: "\<forall>u\<in>set (t0 # map snd ops). u \<le> now" "\<forall>op\<in>set (map fst ops). op_size op + q_max (New mx w) < 2 ^ 63"
    using assms(2,5) by (simp_all only: list_all_iff new)
  from quota_run_ok [OF assms(1) all(1) New_ok [OF assms(3,4)] all(2)]
  obtain q where q: "quota_run ops (Some (New mx w)) = Some q" "quota_ok now q" "q_max q = mx" "q_window q = q_window (New mx w)"
    by (auto simp: new)
  note ok = quota_okD [OF q(2)]
  have "ledger_of (q_window (New mx w)) t0 (entries_of (New mx w) key) []"
    by (simp add: ledger_of_def New_def entries_of_def)
  from ledger_live [OF ledger_run [OF assms(1) all(1) New_ok [OF assms(3,4)] all(2) this q(1)]]
  have held: "filter (\<lambda>e. now < en_at e + q_window q) (ledger key ops (Some (New mx w)) []) = live_entries (q_window q) now (entries_of q key)"
    by (simp add: q(4) live_filter [OF ok(6)])
  have "bytes (live_entries (q_window q) now (entries_of q key)) \<le> mx" using live_total [OF q(2) order_refl, of key] q(3) by simp
  with Reserve_eq(1) [OF q(2) order_refl assms(6), of key] assms(7) q(3)
  show ?thesis unfolding Let_def q(1) new(2) [symmetric] q(4) [symmetric] held by simp
qed

text \<open>A reservation that was granted and refunded leaves the account as it would be without it:
  the entries still in the window, and nothing else.\<close>

theorem refund_undoes:
  assumes "quota_ok now q" and "0 < n" and "n + q_max q < 2 ^ 63" and "Reserve key n now (Some q) = (None, Some q')"
  shows "\<exists>q2. Refund key n (Some q') = Some q2 \<and>
     entries_of q2 key = filter (\<lambda>e. now < en_at e + q_window q) (entries_of q key)
     \<and> (k = key \<or> entries_of q2 k = entries_of q k)"
proof -
  let ?es = "live_entries (q_window q) now (entries_of q key)"
  note ok = quota_okD [OF assms(1)]
  from Reserve_eq [OF assms(1) order_refl assms(2,3), of key] assms(4)
  have key: "entries_of q' key = ?es @ [\<lparr>en_at = now, en_n = n\<rparr>]" and mx: "q_max q' = q_max q"
    and other: "\<forall>k. k \<noteq> key \<longrightarrow> entries_of q' k = entries_of q k" by auto
  have none: "take_back 0 xs = xs" for xs by (cases xs) simp_all
  have "list_all (\<lambda>e. 0 < en_n e) ?es" using live_bytes [OF ok(4)] by blast
  then have "filter (\<lambda>e. 0 < en_n e) ?es = ?es" by (intro filter_True) (simp add: list_all_iff)
  then have "filter (\<lambda>e. 0 < en_n e) (rev (take_back n (rev (entries_of q' key)))) = ?es"
    using assms(2) by (simp add: key none)
  then show ?thesis
    using ok(1) mx assms(2) other by (auto simp: Refund_def Enabled_def entries_upd live_filter [OF ok(6)])
qed

text \<open>A quota of ten bytes in a hundred nanoseconds, seven of them used at time one.\<close>

definition sample_quota :: quota where
  "sample_quota = \<lparr>q_max = 10, q_window = 100, q_used = fmupd ''u'' [\<lparr>en_at = 1, en_n = 7\<rparr>] fmempty\<rparr>"

lemma sample_quota_ok: "quota_ok 5 sample_quota"
  by (simp add: quota_ok_def sample_quota_def entries_of_def)

lemma quota_wait_exact_witness:
  "fst (Reserve ''u'' 5 (5 + rf_wait (the (fst (Reserve ''u'' 5 5 (Some sample_quota))))) (Some sample_quota)) = None"
proof -
  let ?r = "Reserve ''u'' 5 5 (Some sample_quota)"
  have "fst ?r \<noteq> None"
    using Reserve_eq(1) [OF sample_quota_ok, of 5 5 "''u''"]
    by (simp add: sample_quota_def entries_of_def live_entries_def)
  then have run: "?r = (Some (the (fst ?r)), snd ?r)" by (simp add: prod_eq_iff)
  from quota_wait_exact [OF sample_quota_ok _ _ _ run, of 6] show ?thesis by (simp add: sample_quota_def)
qed

lemma quota_exact_witness:
  "fst (Reserve ''u'' 6 4 (quota_run [(Take ''u'' 7, 1), (Give ''u'' 2, 3)] (Some (New 10 100)))) \<noteq> None"
proof -
  let ?ops = "[(Take ''u'' 7, 1), (Give ''u'' 2, 3)]"
  have "fst (Reserve ''u'' 7 1 (Some (New 10 100))) = None"
    by (simp add: Reserve_def Enabled_def q_prune_def New_def live_entries_def entries_of_def sum_entries_def wrap64_id)
  then have "ledger ''u'' ?ops (Some (New 10 100)) [] = [\<lparr>en_at = 1, en_n = 5\<rparr>]" by simp
  with quota_exact [of 0 ?ops 4 10 6 100 "''u''"] show ?thesis by (simp add: Let_def)
qed

lemma refund_undoes_witness:
  "\<exists>q2. Refund ''u'' 3 (snd (Reserve ''u'' 3 5 (Some sample_quota))) = Some q2 \<and> entries_of q2 ''u'' = [\<lparr>en_at = 1, en_n = 7\<rparr>]"
proof -
  let ?r = "Reserve ''u'' 3 5 (Some sample_quota)"
  have "fst ?r = None"
    using Reserve_eq(1) [OF sample_quota_ok, of 5 3 "''u''"]
    by (simp add: sample_quota_def entries_of_def live_entries_def)
  moreover obtain q' where q': "snd ?r = Some q'"
    using Reserve_ok [OF sample_quota_ok, of 3 "''u''"] by (auto simp: sample_quota_def)
  ultimately have run: "?r = (None, Some q')" by (simp add: prod_eq_iff)
  from refund_undoes [OF sample_quota_ok _ _ run, of "''u''"] q' show ?thesis
    by (auto simp: sample_quota_def entries_of_def)
qed

end
