(* ===== verification/Gate.thy ===== *)
theory Gate
  imports Prelude
begin

text \<open>
  The gate of \<open>internal/jobs/gate.go\<close>: how many calls of each resource are under way. A
  \<open>nil\<close> gate is \<open>None\<close>. The function the limits come from reads the configuration, which may
  change, so it is a function of the time and the resource. \<open>Take\<close>, which waits, is a sequence
  of attempts; the wait itself (a channel and a timer) is not modelled.
\<close>

record cached_limit =
  cl_n :: int
  cl_at :: time

record gate =
  gt_limit :: "(time \<Rightarrow> string \<Rightarrow> int) option"
  gt_used :: "(string, int) fmap"
  gt_limits :: "(string, cached_limit) fmap"

definition gateLimitTTL :: duration where "gateLimitTTL = 5 * second"

definition NewGate :: "(time \<Rightarrow> string \<Rightarrow> int) \<Rightarrow> gate" where
  "NewGate limit = \<lparr>gt_limit = Some limit, gt_used = fmempty, gt_limits = fmempty\<rparr>"

definition SetLimit :: "(time \<Rightarrow> string \<Rightarrow> int) \<Rightarrow> gate option \<Rightarrow> gate option" where
  "SetLimit limit g = map_option (\<lambda>g. g\<lparr>gt_limit := Some limit, gt_limits := fmempty\<rparr>) g"

definition places :: "gate \<Rightarrow> string \<Rightarrow> int" where
  "places g r = fm_get 0 (gt_used g) r"

definition fresh_limit :: "time \<Rightarrow> string \<Rightarrow> gate \<Rightarrow> int option" where
  "fresh_limit now r g =
     (case fmlookup (gt_limits g) r of
        Some c \<Rightarrow> if now - cl_at c < gateLimitTTL then Some (cl_n c) else None
      | None \<Rightarrow> None)"

definition limitLocked :: "time \<Rightarrow> string \<Rightarrow> gate \<Rightarrow> int \<times> gate" where
  "limitLocked now r g =
     (case fresh_limit now r g of
        Some n \<Rightarrow> (n, g)
      | None \<Rightarrow>
          let n = (case gt_limit g of Some f \<Rightarrow> max (f now r) 0 | None \<Rightarrow> 0)
          in (n, g\<lparr>gt_limits := fmupd r \<lparr>cl_n = n, cl_at = now\<rparr> (gt_limits g)\<rparr>))"

definition Limit :: "time \<Rightarrow> string \<Rightarrow> gate option \<Rightarrow> int \<times> gate option" where
  "Limit now r gate =
     (case gate of
        None \<Rightarrow> (0, None)
      | Some g \<Rightarrow> (case limitLocked now r g of (n, g') \<Rightarrow> (n, Some g')))"

fun fullLocked :: "time \<Rightarrow> string list \<Rightarrow> gate \<Rightarrow> string \<times> gate" where
  "fullLocked now [] g = ([], g)"
| "fullLocked now (r # rs) g =
     (case limitLocked now r g of
        (n, g') \<Rightarrow> if n > 0 \<and> places g' r \<ge> n then (r, g') else fullLocked now rs g')"

definition Full :: "time \<Rightarrow> string list \<Rightarrow> gate option \<Rightarrow> string \<times> gate option" where
  "Full now rs gate =
     (case gate of
        None \<Rightarrow> ([], None)
      | Some g \<Rightarrow> (case fullLocked now rs g of (r, g') \<Rightarrow> (r, Some g')))"

definition take_places :: "string list \<Rightarrow> gate \<Rightarrow> gate" where
  "take_places rs g = g\<lparr>gt_used := fold (\<lambda>r m. fmupd r (fm_get 0 m r + 1) m) rs (gt_used g)\<rparr>"

definition TryTake :: "time \<Rightarrow> string list \<Rightarrow> gate option \<Rightarrow> bool \<times> gate option" where
  "TryTake now rs gate =
     (case gate of
        None \<Rightarrow> (True, None)
      | Some g \<Rightarrow>
          if rs = [] then (True, Some g)
          else case fullLocked now rs g of
                 (r, g') \<Rightarrow> if r \<noteq> [] then (False, Some g') else (True, Some (take_places rs g')))"

text \<open>
  \<open>Take\<close> looks at the gate at the times it wakes up (a release, or the timer), until a try
  succeeds; \<open>None\<close> is its context ending while it waits.
\<close>

fun Take :: "time list \<Rightarrow> string list \<Rightarrow> gate option \<Rightarrow> bool \<times> gate option" where
  "Take [] rs gate = (gate = None \<or> rs = [], gate)"
| "Take (now # nows) rs gate =
     (case TryTake now rs gate of
        (True, gate') \<Rightarrow> (True, gate')
      | (False, gate') \<Rightarrow> Take nows rs gate')"

definition give_place :: "string \<Rightarrow> (string, int) fmap \<Rightarrow> (string, int) fmap" where
  "give_place r m =
     (let m = (if fm_get 0 m r > 0 then fmupd r (fm_get 0 m r - 1) m else m)
      in if fm_get 0 m r = 0 then fmdrop r m else m)"

definition Release :: "string list \<Rightarrow> gate option \<Rightarrow> gate option" where
  "Release rs gate = map_option (\<lambda>g. g\<lparr>gt_used := fold give_place rs (gt_used g)\<rparr>) gate"

record resource_use =
  ru_resource :: string
  ru_running :: int
  ru_limit :: int

fun uses_from :: "time \<Rightarrow> (string \<times> int) list \<Rightarrow> gate \<Rightarrow> resource_use list \<times> gate" where
  "uses_from now [] g = ([], g)"
| "uses_from now ((r, n) # us) g =
     (case limitLocked now r g of
        (l, g') \<Rightarrow> (case uses_from now us g' of (out, g'') \<Rightarrow> (\<lparr>ru_resource = r, ru_running = n, ru_limit = l\<rparr> # out, g'')))"

definition GateRunning :: "time \<Rightarrow> gate option \<Rightarrow> resource_use list \<times> gate option" where
  "GateRunning now gate =
     (case gate of
        None \<Rightarrow> ([], None)
      | Some g \<Rightarrow> (case uses_from now (fm_list (gt_used g)) g of (out, g') \<Rightarrow> (out, Some g')))"

subsection \<open>What a gate promises to those who take places\<close>

text \<open>
  The contract the claim of the queue relies on: a granted request holds one place more of each
  resource named, a refused one holds nothing, and neither touches what is held of the others.
\<close>

locale place_gate =
  fixes try_take :: "'r list \<Rightarrow> 'g \<Rightarrow> bool \<times> 'g"
    and look :: "'r list \<Rightarrow> 'g \<Rightarrow> 'r \<times> 'g"
    and held :: "'g \<Rightarrow> 'r \<Rightarrow> int"
  assumes granted: "try_take rs g = (True, g') \<Longrightarrow> held g' r = held g r + int (count_list rs r)"
    and refused: "try_take rs g = (False, g') \<Longrightarrow> held g' r = held g r"
    and looked: "look rs g = (x, g') \<Longrightarrow> held g' r = held g r"
begin

text \<open>Requests and readings made one after the other, with the resources of the requests granted.\<close>

inductive acquires :: "'g \<Rightarrow> 'r list list \<Rightarrow> 'g \<Rightarrow> bool" where
  Nothing: "acquires g [] g"
| Granted: "acquires g rss g1 \<Longrightarrow> try_take rs g1 = (True, g2) \<Longrightarrow> acquires g (rss @ [rs]) g2"
| Refused: "acquires g rss g1 \<Longrightarrow> try_take rs g1 = (False, g2) \<Longrightarrow> acquires g rss g2"
| Looked: "acquires g rss g1 \<Longrightarrow> look rs g1 = (x, g2) \<Longrightarrow> acquires g rss g2"

text \<open>What is held grows by what was granted, whatever was refused on the way.\<close>

lemma acquires_held: "acquires g rss g' \<Longrightarrow> held g' r = held g r + int (count_list (concat rss) r)"
  by (induction rule: acquires.induct) (simp_all add: granted refused looked)

lemma acquires_trans: "acquires g1 ys g2 \<Longrightarrow> acquires g xs g1 \<Longrightarrow> acquires g (xs @ ys) g2"
proof (induction rule: acquires.induct)
  case (Granted g1 rss g2 rs g3)
  then show ?case using acquires.Granted [of g "xs @ rss" g2 rs g3] by simp
qed (auto intro: acquires.intros)

end

text \<open>The limit the gate goes by: the cached one while it is fresh, and the one it reads otherwise.\<close>

definition known_limit :: "time \<Rightarrow> gate \<Rightarrow> string \<Rightarrow> int" where
  "known_limit now g r = fst (limitLocked now r g)"

definition is_full :: "time \<Rightarrow> gate \<Rightarrow> string \<Rightarrow> bool" where
  "is_full now g r \<longleftrightarrow> known_limit now g r > 0 \<and> places g r \<ge> known_limit now g r"

lemma limitLocked_known: "known_limit now (snd (limitLocked now r g)) r' = known_limit now g r'"
  by (auto simp: known_limit_def limitLocked_def fresh_limit_def Let_def gateLimitTTL_def split: option.splits)

lemma limitLocked_keeps [simp]:
  "gt_used (snd (limitLocked now r g)) = gt_used g" "gt_limit (snd (limitLocked now r g)) = gt_limit g"
  by (simp_all add: limitLocked_def Let_def split: option.splits)

lemma limitLocked_places [simp]: "places (snd (limitLocked now r g)) r' = places g r'"
  by (simp add: places_def)

lemma is_full_limitLocked: "is_full now (snd (limitLocked now r g)) r' = is_full now g r'"
  by (simp add: is_full_def limitLocked_known)

lemma fullLocked_keeps [simp]:
  "gt_used (snd (fullLocked now rs g)) = gt_used g" "gt_limit (snd (fullLocked now rs g)) = gt_limit g"
proof (induction rs arbitrary: g)
  case (Cons r rs) { case 1 show ?case by (simp add: case_prod_beta Cons) next case 2 show ?case by (simp add: case_prod_beta Cons) }
qed simp_all

lemma fullLocked_known: "known_limit now (snd (fullLocked now rs g)) r' = known_limit now g r'"
  by (induction rs arbitrary: g) (simp_all add: case_prod_beta limitLocked_known)

lemma fullLocked_places [simp]: "places (snd (fullLocked now rs g)) r = places g r"
  by (simp add: places_def)

lemma fullLocked_Cons:
  "fst (fullLocked now (r # rs) g) = (if is_full now g r then r else fst (fullLocked now rs (snd (limitLocked now r g))))"
  by (simp add: case_prod_beta is_full_def known_limit_def)

lemma fullLocked_first: "fst (fullLocked now rs g) = (case find (is_full now g) rs of None \<Rightarrow> [] | Some r \<Rightarrow> r)"
proof (induction rs arbitrary: g)
  case (Cons r rs)
  have "is_full now (snd (limitLocked now r g)) = is_full now g" by (simp add: is_full_limitLocked fun_eq_iff)
  then show ?case by (simp add: fullLocked_Cons Cons del: fullLocked.simps)
qed simp

lemma fullLocked_free: "[] \<notin> set rs \<Longrightarrow> fst (fullLocked now rs g) = [] \<longleftrightarrow> (\<forall>r\<in>set rs. \<not> is_full now g r)"
  by (auto simp: fullLocked_first find_None_iff dest: find_Some_iff' split: option.splits)

lemma take_places_held: "places (take_places rs g) r = places g r + int (count_list rs r)"
proof -
  have "fm_get 0 (fold (\<lambda>r m. fmupd r (fm_get 0 m r + 1) m) rs m) r = fm_get 0 m r + int (count_list rs r)" for m
    by (induction rs arbitrary: m) auto
  then show ?thesis by (simp add: places_def take_places_def)
qed

lemma take_places_keeps: "known_limit now (take_places rs g) r = known_limit now g r" "gt_limit (take_places rs g) = gt_limit g"
  by (simp_all add: known_limit_def limitLocked_def fresh_limit_def take_places_def Let_def split: option.splits)

lemma TryTake_Some:
  "rs \<noteq> [] \<Longrightarrow> TryTake now rs (Some g) =
     (if fst (fullLocked now rs g) \<noteq> [] then (False, Some (snd (fullLocked now rs g)))
      else (True, Some (take_places rs (snd (fullLocked now rs g)))))"
  by (simp add: TryTake_def case_prod_beta)

lemma TryTake_places:
  assumes "TryTake now rs (Some g) = (ok, gate')"
  shows "\<exists>g'. gate' = Some g' \<and> gt_limit g' = gt_limit g \<and> known_limit now g' r = known_limit now g r \<and>
           places g' r = places g r + (if ok then int (count_list rs r) else 0)"
proof (cases "rs = []")
  case True
  then show ?thesis using assms by (auto simp: TryTake_def)
next
  case False
  show ?thesis
  proof (cases "fst (fullLocked now rs g) = []")
    case True
    then show ?thesis using assms False
      by (auto simp: TryTake_Some take_places_held take_places_keeps fullLocked_known)
  next
    case full: False
    then show ?thesis using assms False by (auto simp: TryTake_Some fullLocked_known)
  qed
qed

text \<open>
  The gate of the code gives the contract; a \<open>nil\<close> gate, which counts nothing, is out of it.
\<close>

definition try_gate :: "time \<Rightarrow> string list \<Rightarrow> gate \<Rightarrow> bool \<times> gate" where
  "try_gate now rs g = (case TryTake now rs (Some g) of (ok, g') \<Rightarrow> (ok, the g'))"

definition look_gate :: "time \<Rightarrow> string list \<Rightarrow> gate \<Rightarrow> string \<times> gate" where
  "look_gate now rs g = fullLocked now rs g"

lemma try_gate_eq: "TryTake now rs (Some g) = (ok, gate') \<Longrightarrow> try_gate now rs g = (ok, the gate')"
  by (simp add: try_gate_def)

lemma try_gate_places: "try_gate now rs g = (ok, g') \<Longrightarrow> places g' r = places g r + (if ok then int (count_list rs r) else 0)"
  using TryTake_places [of now rs g ok "snd (TryTake now rs (Some g))" r] by (auto simp: try_gate_def case_prod_beta prod_eq_iff)

interpretation pg: place_gate "try_gate now" "look_gate now" places for now
  by unfold_locales (auto dest: try_gate_places [where r = "_"] simp: try_gate_places look_gate_def prod_eq_iff)

subsection \<open>The gate over time\<close>

datatype gate_op = TakeOp "string list" | GiveOp "string list" | LookOp "string list" | AskOp string

fun gate_step :: "gate_op \<Rightarrow> time \<Rightarrow> gate option \<Rightarrow> gate option" where
  "gate_step (TakeOp rs) now g = snd (TryTake now rs g)"
| "gate_step (GiveOp rs) now g = Release rs g"
| "gate_step (LookOp rs) now g = snd (Full now rs g)"
| "gate_step (AskOp r) now g = snd (Limit now r g)"

fun gate_run :: "(gate_op \<times> time) list \<Rightarrow> gate option \<Rightarrow> gate option" where
  "gate_run [] g = g"
| "gate_run ((op, now) # ops) g = gate_run ops (gate_step op now g)"

text \<open>The limits a gate remembers are those its function gave, at times that have passed.\<close>

definition limits_read :: "(time \<Rightarrow> string \<Rightarrow> int) \<Rightarrow> time \<Rightarrow> gate \<Rightarrow> bool" where
  "limits_read f t g \<longleftrightarrow> gt_limit g = Some f \<and>
     (\<forall>r c. fmlookup (gt_limits g) r = Some c \<longrightarrow> cl_at c \<le> t \<and> cl_n c = max (f (cl_at c) r) 0)"

lemma limits_read_later: "limits_read f t g \<Longrightarrow> t \<le> t' \<Longrightarrow> limits_read f t' g"
  unfolding limits_read_def by force

lemma limits_read_limit: "limits_read f t g \<Longrightarrow> limits_read f t (snd (limitLocked t r g))"
  by (auto simp: limits_read_def limitLocked_def Let_def split: option.splits)

lemma limits_read_full: "limits_read f t g \<Longrightarrow> limits_read f t (snd (fullLocked t rs g))"
  by (induction rs arbitrary: g) (simp_all add: case_prod_beta limits_read_limit)

lemma limits_read_used: "limits_read f t (g\<lparr>gt_used := u\<rparr>) = limits_read f t g"
  by (simp add: limits_read_def)

text \<open>The limit gone by is one the function gave less than five seconds ago.\<close>

lemma known_limit_recent:
  assumes "limits_read f now g"
  shows "\<exists>t. now - gateLimitTTL < t \<and> t \<le> now \<and> known_limit now g r = max (f t r) 0"
proof (cases "fresh_limit now r g")
  case None
  then have "known_limit now g r = max (f now r) 0" using assms by (simp add: known_limit_def limitLocked_def limits_read_def Let_def)
  then show ?thesis by (intro exI [of _ now]) (simp add: gateLimitTTL_def)
next
  case (Some n)
  then obtain c where c: "fmlookup (gt_limits g) r = Some c" "now - cl_at c < gateLimitTTL" "n = cl_n c"
    by (auto simp: fresh_limit_def split: option.splits if_splits)
  then show ?thesis using assms Some
    by (intro exI [of _ "cl_at c"]) (auto simp: known_limit_def limitLocked_def limits_read_def)
qed

lemma gate_step_read:
  assumes "limits_read f now g"
  shows "\<exists>g'. gate_step op now (Some g) = Some g' \<and> limits_read f now g'"
  using assms
  by (cases op) (auto simp: TryTake_def Release_def Full_def Limit_def case_prod_beta take_places_def limits_read_used
      limits_read_full limits_read_limit)

lemma gate_run_read:
  "sorted (t0 # map snd ops) \<Longrightarrow> (\<forall>u\<in>set (t0 # map snd ops). u \<le> now) \<Longrightarrow> limits_read f t0 g \<Longrightarrow>
     \<exists>g'. gate_run ops (Some g) = Some g' \<and> limits_read f now g'"
proof (induction ops arbitrary: t0 g)
  case Nil
  then show ?case using limits_read_later by auto
next
  case (Cons x ops)
  obtain op t where x: "x = (op, t)" by (rule prod.exhaust)
  have "limits_read f t g" using Cons.prems by (auto simp: x intro: limits_read_later)
  from gate_step_read [OF this, of op] obtain g1 where g1: "gate_step op t (Some g) = Some g1" "limits_read f t g1" by blast
  show ?case using Cons.IH [OF _ _ g1(2)] Cons.prems by (simp add: x g1(1))
qed

lemma New_read: "limits_read f t (NewGate f)"
  by (simp add: limits_read_def NewGate_def)

text \<open>A request is granted exactly when no resource of it is full, by a limit the configuration
  gave less than five seconds before (a limit of zero or less being none), and it takes a place of
  each resource or, refused, of none of them.\<close>

theorem TryTake_exact:
  assumes "sorted (start # map snd ops)" and "list_all (\<lambda>u. u \<le> now) (start # map snd ops)"
    and "gate_run ops (Some (NewGate f)) = Some g" and "[] \<notin> set rs"
    and "TryTake now rs (Some g) = (ok, Some g')"
  shows "\<exists>n. (\<forall>r. \<exists>t. now - gateLimitTTL < t \<and> t \<le> now \<and> n r = f t r) \<and>
           ok = list_all (\<lambda>r. n r \<le> 0 \<or> places g r < n r) rs \<and>
           (\<forall>r. places g' r = places g r + (if ok then int (count_list rs r) else 0))"
proof -
  have "\<forall>u\<in>set (start # map snd ops). u \<le> now" using assms(2) by (simp only: list_all_iff)
  from gate_run_read [OF assms(1) this New_read, of f] assms(3) have read: "limits_read f now g" by auto
  from known_limit_recent [OF this]
  obtain t where t: "\<And>r. now - gateLimitTTL < t r \<and> t r \<le> now \<and> known_limit now g r = max (f (t r) r) 0" by metis
  have full: "is_full now g r \<longleftrightarrow> \<not> (f (t r) r \<le> 0 \<or> places g r < f (t r) r)" for r
    using t [of r] by (auto simp: is_full_def)
  have "ok \<longleftrightarrow> (\<forall>r\<in>set rs. \<not> is_full now g r)"
  proof (cases "rs = []")
    case False
    then have "ok \<longleftrightarrow> fst (fullLocked now rs g) = []" using assms(5) by (simp add: TryTake_Some split: if_splits)
    then show ?thesis by (simp only: fullLocked_free [OF assms(4)])
  qed (use assms(5) in \<open>simp add: TryTake_def\<close>)
  then have "ok = list_all (\<lambda>r. f (t r) r \<le> 0 \<or> places g r < f (t r) r) rs" by (simp add: full list_all_iff)
  moreover have "places g' r = places g r + (if ok then int (count_list rs r) else 0)" for r
    using TryTake_places [OF assms(5)] by auto
  ultimately show ?thesis using t by (intro exI [of _ "\<lambda>r. f (t r) r"]) blast
qed

lemma TryTake_exact_witness:
  "\<exists>n. (\<forall>r. \<exists>t. 9 - gateLimitTTL < t \<and> t \<le> 9 \<and> n r = (\<lambda>t r. 1) t r) \<and>
     False = list_all (\<lambda>r. n r \<le> 0 \<or> places \<lparr>gt_limit = Some (\<lambda>t r. 1), gt_used = fmupd ''gpu'' 1 fmempty,
        gt_limits = fmupd ''gpu'' \<lparr>cl_n = 1, cl_at = 5\<rparr> fmempty\<rparr> r < n r) [''gpu''] \<and>
     (\<forall>r. places \<lparr>gt_limit = Some (\<lambda>t r. 1), gt_used = fmupd ''gpu'' 1 fmempty,
        gt_limits = fmupd ''gpu'' \<lparr>cl_n = 1, cl_at = 5\<rparr> fmempty\<rparr> r =
        places \<lparr>gt_limit = Some (\<lambda>t r. 1), gt_used = fmupd ''gpu'' 1 fmempty,
        gt_limits = fmupd ''gpu'' \<lparr>cl_n = 1, cl_at = 5\<rparr> fmempty\<rparr> r + (if False then int (count_list [''gpu''] r) else 0))"
  by (rule TryTake_exact [where start = 1 and ops = "[(TakeOp [''gpu''], 5)]"])
    (simp_all add: TryTake_def NewGate_def limitLocked_def fresh_limit_def places_def take_places_def Let_def gateLimitTTL_def)

text \<open>Under one limit, the places stay within it.\<close>

lemma count_list_distinct: "distinct xs \<Longrightarrow> count_list xs x = (if x \<in> set xs then 1 else 0)"
  by (induction xs) auto

lemma places_take:
  assumes "limits_read f now g" and "\<And>t. f t r = n" and "0 < n" and "r \<noteq> []" and "places g r \<le> n"
    and "distinct rs" and "[] \<notin> set rs" and "TryTake now rs (Some g) = (ok, Some g')"
  shows "places g' r \<le> n"
proof (cases "ok \<and> r \<in> set rs")
  case False
  then have "(if ok then int (count_list rs r) else 0) = 0" by (auto simp: count_list_0_iff)
  then show ?thesis using TryTake_places [OF assms(8), of r] assms(5) by auto
next
  case True
  then have "rs \<noteq> []" by auto
  have lim: "known_limit now g r = n" using known_limit_recent [OF assms(1), of r] assms(2,3) by auto
  have "fst (fullLocked now rs g) = []" using assms(8) True \<open>rs \<noteq> []\<close> by (simp add: TryTake_Some split: if_splits)
  then have "\<not> is_full now g r" using fullLocked_free [OF assms(7)] True by blast
  then have "places g r < n" using assms(3) by (simp add: is_full_def lim)
  moreover have "count_list rs r = 1" using assms(6) True by (simp add: count_list_distinct)
  ultimately show ?thesis using TryTake_places [OF assms(8), of r] True by auto
qed

lemma places_release: "0 \<le> n \<Longrightarrow> places g r \<le> n \<Longrightarrow> places (the (Release rs (Some g))) r \<le> n"
proof -
  have give: "fm_get 0 (give_place r' m) r \<le> n" if "0 \<le> n" "fm_get 0 m r \<le> n" for r' m
    using that by (simp add: give_place_def Let_def)
  assume "0 \<le> n" and "places g r \<le> n"
  then have "fm_get 0 (fold give_place rs m) r \<le> n" if "fm_get 0 m r \<le> n" for m
    using that by (induction rs arbitrary: m) (simp_all add: give)
  then show ?thesis using \<open>places g r \<le> n\<close> by (simp add: Release_def places_def)
qed

fun op_named_once :: "gate_op \<Rightarrow> bool" where
  "op_named_once (TakeOp rs) \<longleftrightarrow> distinct rs \<and> [] \<notin> set rs"
| "op_named_once _ \<longleftrightarrow> True"

lemma places_step:
  assumes "limits_read f now g" and "\<And>t. f t r = n" and "0 < n" and "r \<noteq> []" and "places g r \<le> n"
    and "op_named_once op" and "gate_step op now (Some g) = Some g'"
  shows "places g' r \<le> n"
proof (cases op)
  case (TakeOp rs)
  then show ?thesis using places_take [OF assms(1-5), of rs "fst (TryTake now rs (Some g))" g'] assms(6,7)
    by (simp add: prod_eq_iff)
next
  case (GiveOp rs)
  then show ?thesis using places_release [of n g r rs] assms(3,5,7) by simp
next
  case (LookOp rs)
  then show ?thesis using assms(5,7) by (auto simp: Full_def case_prod_beta)
next
  case (AskOp r')
  then show ?thesis using assms(5,7) by (auto simp: Limit_def case_prod_beta)
qed

lemma places_run:
  "sorted (u0 # map snd ops) \<Longrightarrow> limits_read f u0 g \<Longrightarrow> (\<And>t. f t r = n) \<Longrightarrow> 0 < n \<Longrightarrow> r \<noteq> [] \<Longrightarrow> places g r \<le> n \<Longrightarrow>
     list_all op_named_once (map fst ops) \<Longrightarrow> \<exists>g'. gate_run ops (Some g) = Some g' \<and> places g' r \<le> n"
proof (induction ops arbitrary: u0 g)
  case (Cons x ops)
  obtain op t where x: "x = (op, t)" by (rule prod.exhaust)
  have "limits_read f t g" using Cons.prems by (auto simp: x intro: limits_read_later)
  from gate_step_read [OF this, of op] obtain g1 where g1: "gate_step op t (Some g) = Some g1" "limits_read f t g1" by blast
  have "places g1 r \<le> n"
    using places_step [OF \<open>limits_read f t g\<close> Cons.prems(3-6) _ g1(1)] Cons.prems(7) by (simp add: x)
  from Cons.IH [OF _ g1(2) Cons.prems(3-5) this] Cons.prems(1,7) show ?case by (simp add: x g1(1))
qed simp

text \<open>While the configuration gives a resource one limit, no sequence of takes (each naming its
  resources once), releases and readings brings more calls of it under way than that.\<close>

theorem gate_bound:
  assumes "\<And>t. f t r = n" and "0 < n" and "r \<noteq> []"
    and "sorted (map snd ops)" and "list_all op_named_once (map fst ops)"
  shows "\<exists>g. gate_run ops (Some (NewGate f)) = Some g \<and> places g r \<le> n"
proof -
  define u0 where "u0 = (case ops of [] \<Rightarrow> 0 | (op, t) # _ \<Rightarrow> t)"
  have "sorted (u0 # map snd ops)" using assms(4) by (cases ops) (auto simp: u0_def)
  moreover have "places (NewGate f) r \<le> n" using assms(2) by (simp add: NewGate_def places_def)
  ultimately show ?thesis using assms(5) by (intro places_run [where f = f and ?u0.0 = u0]) (simp_all add: New_read assms(1-3))
qed

lemma gate_bound_witness:
  "\<exists>g. gate_run [(TakeOp [''gpu''], 1), (TakeOp [''gpu''], 2), (GiveOp [''gpu''], 3), (TakeOp [''gpu''], 4)]
      (Some (NewGate (\<lambda>t r. if r = ''gpu'' then 1 else 0))) = Some g \<and> places g ''gpu'' \<le> 1"
  by (rule gate_bound) simp_all

end
