(* ===== verification/JobStore.thy ===== *)
theory JobStore
  imports GoStrings Gate Complex_Main "HOL-Library.Product_Lexorder"
begin

text \<open>
  The jobs database of \<open>internal/jobs/store.go\<close>, \<open>tokens.go\<close> and \<open>spend.go\<close>: the runs, their
  steps, and the tokens that start a pipeline.

  The database is its three tables, lists of rows in the order they were inserted. A row of
  \<open>runs\<close> has the fields of \<open>Run\<close>, its times in milliseconds since 1970 with 0 for the zero
  time; a row of \<open>steps\<close> keeps the lists of names joined by commas. A query is a filter, a join
  and a sort of the tables; a query without \<open>ORDER BY\<close> answers in the order of the table. An
  update that fails on a constraint changes nothing, as its transaction is rolled back. Costs
  (\<open>float64\<close>) are rational numbers, without rounding.
\<close>

datatype status = NoStatus | Pending | Queued | Running | Waiting | Done | Failed | Skipped | Canceled | OtherStatus string

definition PriorityLow :: int where "PriorityLow = -1"
definition PriorityNormal :: int where "PriorityNormal = 0"
definition PriorityInteractive :: int where "PriorityInteractive = 1"

definition Terminal :: "status \<Rightarrow> bool" where
  "Terminal s \<longleftrightarrow> s = Done \<or> s = Failed \<or> s = Skipped \<or> s = Canceled"

record run =
  r_id :: string
  r_kind :: string
  r_ref :: string
  r_project :: string
  r_trigger :: string
  r_status :: status
  r_input :: string
  r_spec :: string
  r_idem :: string
  r_actor :: string
  r_callback :: string
  r_resume :: string
  r_priority :: int
  r_category :: string
  r_task :: string
  r_team :: string
  r_error :: string
  r_created :: time
  r_started :: time
  r_finished :: time

record step =
  s_run :: string
  s_name :: string
  s_deps :: "string list"
  s_status :: status
  s_attempt :: int
  s_output :: string
  s_error :: string
  s_started :: time
  s_finished :: time
  s_not_before :: time
  s_lease_until :: time
  s_wait_until :: time
  s_resources :: "string list"
  s_queued_at :: time
  s_cost :: rat
  s_tokens :: int

datatype jobs_error = ErrNotFound | ErrState string | ErrConstraint | ErrNoExecutor string | ErrDatabase

text \<open>A row of the table \<open>steps\<close>; times in milliseconds.\<close>

record step_row =
  sr_run :: string
  sr_name :: string
  sr_pos :: int
  sr_deps :: string
  sr_status :: status
  sr_attempt :: int
  sr_output :: string
  sr_error :: string
  sr_started :: int
  sr_finished :: int
  sr_not_before :: int
  sr_lease_until :: int
  sr_wait_until :: int
  sr_resources :: string
  sr_queued_at :: int
  sr_cost :: rat
  sr_tokens :: int

record run_token =
  rt_id :: string
  rt_ref :: string
  rt_name :: string
  rt_created :: time
  rt_created_by :: string
  rt_last_used :: time

record token_row =
  tr_hash :: string
  tr_token :: run_token

text \<open>The store: the tables, and the turns in which the fair claim served the projects.\<close>

record jobs =
  jd_runs :: "run list"
  jd_steps :: "step_row list"
  jd_tokens :: "token_row list"
  jd_served :: "(string, int) fmap"
  jd_turn :: int

definition open_jobs :: jobs where
  "open_jobs = \<lparr>jd_runs = [], jd_steps = [], jd_tokens = [], jd_served = fmempty, jd_turn = 0\<rparr>"

definition ms :: "time \<Rightarrow> int" where
  "ms t = (if t = 0 then 0 else t div 1000000 - 62135596800000)"

definition fromMS :: "int \<Rightarrow> time" where
  "fromMS v = (if v = 0 then 0 else (v + 62135596800000) * 1000000)"

subsection \<open>Reading rows\<close>

definition run_row :: "run \<Rightarrow> run" where
  "run_row r = r\<lparr>r_created := ms (r_created r), r_started := 0, r_finished := 0\<rparr>"

definition scanRun :: "run \<Rightarrow> run" where
  "scanRun row = row\<lparr>r_created := fromMS (r_created row), r_started := fromMS (r_started row), r_finished := fromMS (r_finished row)\<rparr>"

definition split_names :: "string \<Rightarrow> string list" where
  "split_names s = (if s = [] then [] else split_at (CHR '','') s)"

definition scanStep :: "step_row \<Rightarrow> step" where
  "scanStep row =
     \<lparr>s_run = sr_run row, s_name = sr_name row, s_deps = split_names (sr_deps row), s_status = sr_status row,
      s_attempt = sr_attempt row, s_output = sr_output row, s_error = sr_error row, s_started = fromMS (sr_started row),
      s_finished = fromMS (sr_finished row), s_not_before = fromMS (sr_not_before row),
      s_lease_until = fromMS (sr_lease_until row), s_wait_until = fromMS (sr_wait_until row),
      s_resources = split_names (sr_resources row), s_queued_at = fromMS (sr_queued_at row),
      s_cost = sr_cost row, s_tokens = sr_tokens row\<rparr>"

definition new_step_row :: "string \<Rightarrow> int \<Rightarrow> step \<Rightarrow> step_row" where
  "new_step_row runID pos st =
     \<lparr>sr_run = runID, sr_name = s_name st, sr_pos = pos, sr_deps = join '','' (s_deps st), sr_status = s_status st,
      sr_attempt = 0, sr_output = [], sr_error = [], sr_started = 0, sr_finished = 0, sr_not_before = ms (s_not_before st),
      sr_lease_until = 0, sr_wait_until = 0, sr_resources = [], sr_queued_at = 0, sr_cost = 0, sr_tokens = 0\<rparr>"

subsection \<open>Runs\<close>

definition find_run :: "(run \<Rightarrow> bool) \<Rightarrow> jobs \<Rightarrow> jobs_error + run" where
  "find_run p d = (case find p (jd_runs d) of None \<Rightarrow> Inl ErrNotFound | Some row \<Rightarrow> Inr (scanRun row))"

definition runByIdem :: "string \<Rightarrow> string \<Rightarrow> jobs \<Rightarrow> jobs_error + run" where
  "runByIdem ref key d = find_run (\<lambda>r. r_ref r = ref \<and> r_idem r = key) d"

definition Run :: "string \<Rightarrow> jobs \<Rightarrow> jobs_error + run" where
  "Run runID d = find_run (\<lambda>r. r_id r = runID) d"

fun insert_steps :: "string \<Rightarrow> int \<Rightarrow> step list \<Rightarrow> step_row list \<Rightarrow> step_row list option" where
  "insert_steps runID i [] rows = Some rows"
| "insert_steps runID i (st # sts) rows =
     (let st = (if s_status st = NoStatus then st\<lparr>s_status := Pending\<rparr> else st) in
      if list_ex (\<lambda>row. sr_run row = runID \<and> sr_name row = s_name st) rows then None
      else insert_steps runID (i + 1) sts (rows @ [new_step_row runID i st]))"

definition fill_run :: "string \<Rightarrow> time \<Rightarrow> run \<Rightarrow> run" where
  "fill_run newID now r =
     (let r = (if r_id r = [] then r\<lparr>r_id := newID\<rparr> else r);
          r = (if r_created r = 0 then r\<lparr>r_created := now\<rparr> else r)
      in if r_status r = NoStatus then r\<lparr>r_status := Queued\<rparr> else r)"

definition store_run :: "run \<Rightarrow> step list \<Rightarrow> jobs \<Rightarrow> (jobs_error + run \<times> bool) \<times> jobs" where
  "store_run r steps d =
     (if list_ex (\<lambda>row. r_id row = r_id r) (jd_runs d) then (Inl ErrConstraint, d)
      else case insert_steps (r_id r) 0 steps (jd_steps d) of
             None \<Rightarrow> (Inl ErrConstraint, d)
           | Some rows \<Rightarrow> (Inr (r, False), d\<lparr>jd_runs := jd_runs d @ [run_row r], jd_steps := rows\<rparr>))"

text \<open>The index \<open>runs_idem\<close> cannot refuse the row: the key was looked for under the same lock.\<close>

definition CreateJobRun :: "string \<Rightarrow> time \<Rightarrow> run \<Rightarrow> step list \<Rightarrow> jobs \<Rightarrow> (jobs_error + run \<times> bool) \<times> jobs" where
  "CreateJobRun newID now r steps d =
     (if r_idem r \<noteq> []
      then case runByIdem (r_ref r) (r_idem r) d of
             Inr old \<Rightarrow> (Inr (old, True), d)
           | Inl e \<Rightarrow> if e \<noteq> ErrNotFound then (Inl e, d) else store_run (fill_run newID now r) steps d
      else store_run (fill_run newID now r) steps d)"

definition Unended :: "string \<Rightarrow> jobs \<Rightarrow> int" where
  "Unended category d =
     int (length (filter (\<lambda>r. r_category r = category \<and> r_status r \<in> {Queued, Running, Waiting}) (jd_runs d)))"

definition QueuedTwins :: "string \<Rightarrow> string \<Rightarrow> string \<Rightarrow> jobs \<Rightarrow> string list" where
  "QueuedTwins ref input but d =
     map r_id (filter (\<lambda>r. r_ref r = ref \<and> r_input r = input \<and> r_status r = Queued \<and> r_id r \<noteq> but) (jd_runs d))"

record run_filter =
  rf_kind :: string
  rf_ref :: string
  rf_projects :: "string list option"
  rf_status :: status
  rf_idem_prefix :: string
  rf_limit :: int

definition CountRuns :: "string \<Rightarrow> jobs \<Rightarrow> int" where
  "CountRuns idemPrefix d =
     int (length (filter (\<lambda>r. idemPrefix \<le> r_idem r \<and> r_idem r < idemPrefix @ [CHR 0x7F]) (jd_runs d)))"

text \<open>\<open>LIKE\<close> with a pattern that is a prefix: SQLite compares the ASCII letters without their case.\<close>

definition like_prefix :: "string \<Rightarrow> string \<Rightarrow> bool" where
  "like_prefix p k = has_prefix (to_lower p) (to_lower k)"

definition run_selected :: "run_filter \<Rightarrow> run \<Rightarrow> bool" where
  "run_selected f r \<longleftrightarrow>
     (rf_kind f = [] \<or> r_kind r = rf_kind f) \<and> (rf_ref f = [] \<or> r_ref r = rf_ref f) \<and>
     (case rf_projects f of None \<Rightarrow> True | Some ps \<Rightarrow> r_project r \<in> set ps) \<and>
     (rf_status f = NoStatus \<or> r_status r = rf_status f) \<and>
     (rf_idem_prefix f = [] \<or> like_prefix (rf_idem_prefix f) (r_idem r))"

definition run_limit :: "run_filter \<Rightarrow> int" where
  "run_limit f = (let limit = (if rf_limit f \<le> 0 then 50 else rf_limit f) in if limit > 500 then 500 else limit)"

definition Runs :: "run_filter \<Rightarrow> jobs \<Rightarrow> run list" where
  "Runs f d =
     (if rf_projects f = Some [] then []
      else map scanRun (take (nat (run_limit f)) (rev (sort_key (\<lambda>r. (r_created r, r_id r)) (filter (run_selected f) (jd_runs d))))))"

subsection \<open>Steps\<close>

definition Steps :: "string \<Rightarrow> jobs \<Rightarrow> step list" where
  "Steps runID d = map scanStep (sort_key sr_pos (filter (\<lambda>row. sr_run row = runID) (jd_steps d)))"

record step_change =
  sc_name :: string
  sc_status :: status
  sc_output :: string
  sc_error :: string
  sc_not_before :: time
  sc_wait_until :: time
  sc_finished :: time
  sc_resources :: "string list option"
  sc_queued :: time

definition no_change :: "string \<Rightarrow> status \<Rightarrow> step_change" where
  "no_change name st =
     \<lparr>sc_name = name, sc_status = st, sc_output = [], sc_error = [], sc_not_before = 0, sc_wait_until = 0, sc_finished = 0,
      sc_resources = None, sc_queued = 0\<rparr>"

record run_change =
  rc_status :: status
  rc_error :: string
  rc_finished :: time

definition change_row :: "(string \<Rightarrow> rat \<times> int) \<Rightarrow> step_change \<Rightarrow> step_row \<Rightarrow> step_row" where
  "change_row cost_of c row =
     (let spent = sc_output c \<noteq> [] \<and> sc_finished c \<noteq> 0;
          (cost, tokens) = (if spent then cost_of (sc_output c) else (0, 0))
      in row\<lparr>sr_status := sc_status c,
             sr_output := (if sc_output c = [] then sr_output row else sc_output c),
             sr_error := sc_error c,
             sr_not_before := ms (sc_not_before c),
             sr_wait_until := ms (sc_wait_until c),
             sr_finished := ms (sc_finished c),
             sr_lease_until := 0,
             sr_resources := (case sc_resources c of Some rs \<Rightarrow> join '','' rs | None \<Rightarrow> sr_resources row),
             sr_queued_at := (if ms (sc_queued c) > 0 then ms (sc_queued c) else sr_queued_at row),
             sr_cost := (if spent then cost else sr_cost row),
             sr_tokens := (if spent then tokens else sr_tokens row)\<rparr>)"

definition change_step :: "(string \<Rightarrow> rat \<times> int) \<Rightarrow> string \<Rightarrow> step_change \<Rightarrow> step_row list \<Rightarrow> step_row list" where
  "change_step cost_of runID c rows =
     map (\<lambda>row. if sr_run row = runID \<and> sr_name row = sc_name c \<and> sr_status row \<notin> {Done, Failed, Skipped, Canceled}
                then change_row cost_of c row else row) rows"

definition change_run :: "string \<Rightarrow> run_change \<Rightarrow> run list \<Rightarrow> run list" where
  "change_run runID rc rows =
     map (\<lambda>r. if r_id r = runID \<and> r_status r \<notin> {Done, Failed, Canceled}
              then r\<lparr>r_status := rc_status rc, r_error := rc_error rc, r_finished := ms (rc_finished rc)\<rparr> else r) rows"

definition store_apply :: "(string \<Rightarrow> rat \<times> int) \<Rightarrow> string \<Rightarrow> step_change list \<Rightarrow> run_change option \<Rightarrow> jobs \<Rightarrow> jobs" where
  "store_apply cost_of runID changes rc d =
     d\<lparr>jd_steps := fold (change_step cost_of runID) changes (jd_steps d),
       jd_runs := (case rc of Some rc \<Rightarrow> change_run runID rc (jd_runs d) | None \<Rightarrow> jd_runs d)\<rparr>"

definition recover_row :: "time \<Rightarrow> step_row \<Rightarrow> step_row" where
  "recover_row now row = row\<lparr>sr_status := Queued, sr_not_before := ms now, sr_queued_at := ms now, sr_lease_until := 0\<rparr>"

definition recoverRunning :: "time \<Rightarrow> jobs \<Rightarrow> int \<times> jobs" where
  "recoverRunning now d =
     (int (length (filter (\<lambda>row. sr_status row = Running) (jd_steps d))),
      d\<lparr>jd_steps := map (\<lambda>row. if sr_status row = Running then recover_row now row else row) (jd_steps d)\<rparr>)"

definition requeue_row :: "time \<Rightarrow> step_row \<Rightarrow> step_row" where
  "requeue_row now row =
     row\<lparr>sr_status := Queued, sr_attempt := max (sr_attempt row - 1) 0, sr_not_before := ms now, sr_queued_at := ms now,
         sr_wait_until := 0, sr_lease_until := 0\<rparr>"

definition requeueWaiting :: "string \<Rightarrow> string \<Rightarrow> time \<Rightarrow> jobs \<Rightarrow> bool \<times> jobs" where
  "requeueWaiting runID name now d =
     (let waits = (\<lambda>row. sr_run row = runID \<and> sr_name row = name \<and> sr_status row = Waiting)
      in (list_ex waits (jd_steps d),
          d\<lparr>jd_steps := map (\<lambda>row. if waits row then requeue_row now row else row) (jd_steps d)\<rparr>))"

definition expiredWaits :: "time \<Rightarrow> jobs \<Rightarrow> step list" where
  "expiredWaits now d =
     map scanStep (filter (\<lambda>row. sr_status row = Waiting \<and> sr_wait_until row > 0 \<and> sr_wait_until row \<le> ms now) (jd_steps d))"

text \<open>The steps go with their run: the foreign key deletes in cascade.\<close>

definition Prune :: "time \<Rightarrow> jobs \<Rightarrow> int \<times> jobs" where
  "Prune cutoff d =
     (let old = (\<lambda>r. r_finished r > 0 \<and> r_finished r < ms cutoff);
          gone = map r_id (filter old (jd_runs d))
      in (int (length gone),
          d\<lparr>jd_runs := filter (\<lambda>r. \<not> old r) (jd_runs d),
            jd_steps := filter (\<lambda>row. sr_run row \<notin> set gone) (jd_steps d)\<rparr>))"

end
