(* ===== verification/JobQueue.thy ===== *)
theory JobQueue
  imports JobStore
begin

text \<open>
  The queue of \<open>internal/jobs/store.go\<close>: the claim of the steps whose time has come, in the
  order of their runs or in turn among the projects, and what is asked of the queue.

  The gate reads a clock of its own; a claim happens at one instant \<open>tick\<close> of it.
\<close>

subsection \<open>The order of the queue\<close>

definition joined :: "jobs \<Rightarrow> (step_row \<times> run) list" where
  "joined d = concat (map (\<lambda>s. map (\<lambda>r. (s, r)) (filter (\<lambda>r. r_id r = sr_run s) (jd_runs d))) (jd_steps d))"

definition ready_rows :: "time \<Rightarrow> bool \<Rightarrow> jobs \<Rightarrow> (step_row \<times> run) list" where
  "ready_rows now interactive d =
     filter (\<lambda>(s, r). sr_status s = Queued \<and> sr_not_before s \<le> ms now \<and> (interactive \<longrightarrow> r_priority r \<ge> PriorityInteractive)) (joined d)"

definition queue_key :: "step_row \<times> run \<Rightarrow> int \<times> int \<times> string \<times> int" where
  "queue_key x = (case x of (s, r) \<Rightarrow> (- r_priority r, r_created r, sr_run s, sr_pos s))"

definition queue_rows :: "time \<Rightarrow> bool \<Rightarrow> jobs \<Rightarrow> (step_row \<times> run) list" where
  "queue_rows now interactive d = sort_key queue_key (ready_rows now interactive d)"

subsection \<open>Picking in order\<close>

definition skipFull :: "string list \<Rightarrow> string list \<Rightarrow> bool" where
  "skipFull resources full = list_ex (\<lambda>r. r \<in> set full) resources"

fun pick_loop :: "time \<Rightarrow> int \<Rightarrow> string list \<Rightarrow> step list \<Rightarrow> step list \<Rightarrow> gate option \<Rightarrow> step list \<times> gate option" where
  "pick_loop tick n full out [] gate = (out, gate)"
| "pick_loop tick n full out (st # sts) gate =
     (if int (length out) \<ge> n then (out, gate)
      else
        case (if skipFull (s_resources st) full then (False, gate) else TryTake tick (s_resources st) gate) of
          (ok, gate') \<Rightarrow>
            if ok then pick_loop tick n full (out @ [st]) sts gate'
            else case Full tick (s_resources st) gate' of
                   (r, gate'') \<Rightarrow> pick_loop tick n (if r \<noteq> [] then r # full else full) out sts gate'')"

definition pickInOrder :: "time \<Rightarrow> time \<Rightarrow> int \<Rightarrow> bool \<Rightarrow> gate option \<Rightarrow> jobs \<Rightarrow> step list \<times> gate option" where
  "pickInOrder tick now n interactive gate d =
     (let rows = queue_rows now interactive d;
          rows = (if gate = None then take (nat n) rows else rows)
      in pick_loop tick n [] [] (map (scanStep \<circ> fst) rows) gate)"

subsection \<open>Picking in turn among the projects\<close>

text \<open>\<open>ROW_NUMBER\<close> at most \<open>k\<close> in the partition by project and resources, over rows in the queue's order.\<close>

fun first_of_each :: "int \<Rightarrow> (step_row \<times> run) list \<Rightarrow> (step_row \<times> run) list \<Rightarrow> (step_row \<times> run) list" where
  "first_of_each k seen [] = []"
| "first_of_each k seen (x # xs) =
     (let before = filter (\<lambda>y. r_project (snd y) = r_project (snd x) \<and> sr_resources (fst y) = sr_resources (fst x)) seen
      in if int (length before) + 1 \<le> k then x # first_of_each k (seen @ [x]) xs
         else first_of_each k (seen @ [x]) xs)"

definition in_order_seen :: "'a list \<Rightarrow> 'a list" where
  "in_order_seen xs = rev (remdups (rev xs))"

type_synonym queues = "(string \<times> step list) list"

definition queues_at :: "int \<Rightarrow> (step_row \<times> run) list \<Rightarrow> queues" where
  "queues_at prio rows =
     (let here = filter (\<lambda>x. r_priority (snd x) = prio) rows
      in map (\<lambda>p. (p, map (scanStep \<circ> fst) (filter (\<lambda>x. r_project (snd x) = p) here)))
           (in_order_seen (map (r_project \<circ> snd) here)))"

definition running_of :: "jobs \<Rightarrow> string \<Rightarrow> int" where
  "running_of d p = int (length (filter (\<lambda>(s, r). sr_status s = Running \<and> r_project r = p) (joined d)))"

record fair_state =
  fs_out :: "step list"
  fs_picked :: "(string, int) fmap"
  fs_served :: "(string, int) fmap"
  fs_turn :: int
  fs_gate :: "gate option"

definition load_of :: "(string \<Rightarrow> int) \<Rightarrow> fair_state \<Rightarrow> string \<Rightarrow> int" where
  "load_of running fs p = running p + fm_get 0 (fs_picked fs) p"

fun best_of :: "(string \<Rightarrow> int) \<Rightarrow> (string \<Rightarrow> int) \<Rightarrow> string \<Rightarrow> queues \<Rightarrow> string" where
  "best_of load served best [] = best"
| "best_of load served best ((p, q) # qs) =
     (if q = [] then best_of load served best qs
      else if best = [] \<or> load p < load best \<or> (load p = load best \<and> served p < served best)
      then best_of load served p qs
      else best_of load served best qs)"

text \<open>The next step of a queue whose resources have a place; those passed over leave the queue.\<close>

fun give_next :: "time \<Rightarrow> step list \<Rightarrow> gate option \<Rightarrow> step option \<times> step list \<times> gate option" where
  "give_next tick [] gate = (None, [], gate)"
| "give_next tick (st # sts) gate =
     (case TryTake tick (s_resources st) gate of
        (ok, gate') \<Rightarrow> if ok then (Some st, sts, gate') else give_next tick sts gate')"

definition serve :: "string \<Rightarrow> step \<Rightarrow> fair_state \<Rightarrow> fair_state" where
  "serve p st fs =
     fs\<lparr>fs_out := fs_out fs @ [st], fs_picked := fmupd p (fm_get 0 (fs_picked fs) p + 1) (fs_picked fs),
        fs_turn := fs_turn fs + 1, fs_served := fmupd p (fs_turn fs + 1) (fs_served fs)\<rparr>"

abbreviation queue_of :: "string \<Rightarrow> string \<times> step list \<Rightarrow> bool" where
  "queue_of best \<equiv> \<lambda>(p, q). p = best \<and> q \<noteq> []"

definition fair_turn :: "time \<Rightarrow> string \<Rightarrow> fair_state \<Rightarrow> queues \<Rightarrow> fair_state \<times> queues" where
  "fair_turn tick best fs qs =
     (case find (queue_of best) qs of
        None \<Rightarrow> (fs, qs)
      | Some (p, q) \<Rightarrow>
          (case give_next tick q (fs_gate fs) of
             (got, left, gate) \<Rightarrow>
               ((case got of None \<Rightarrow> fs | Some st \<Rightarrow> serve best st fs)\<lparr>fs_gate := gate\<rparr>,
                update_first (queue_of best) (\<lambda>(p, _). (p, left)) qs)))"

definition waiting_steps :: "queues \<Rightarrow> nat" where
  "waiting_steps qs = sum_list (map (length \<circ> snd) qs)"

lemma give_next_shorter: "give_next tick q gate = (got, left, gate') \<Longrightarrow> q \<noteq> [] \<Longrightarrow> length left < length q"
proof (induction q arbitrary: gate)
  case (Cons st q)
  then show ?case by (cases "q = []") (auto intro: less_SucI split: prod.splits if_splits)
qed simp

lemma waiting_update:
  "find (queue_of best) qs = Some (p, q) \<Longrightarrow> length left < length q \<Longrightarrow>
     waiting_steps (update_first (queue_of best) (\<lambda>(p, _). (p, left)) qs) < waiting_steps qs"
  by (induction qs) (auto simp: waiting_steps_def split: if_splits)

lemma fair_turn_shorter:
  assumes "find (queue_of best) qs \<noteq> None"
  shows "waiting_steps (snd (fair_turn tick best fs qs)) < waiting_steps qs"
proof -
  obtain p q where f: "find (queue_of best) qs = Some (p, q)" using assms by auto
  then have "q \<noteq> []" by (auto dest: find_Some_iff')
  obtain got left gate where g: "give_next tick q (fs_gate fs) = (got, left, gate)" by (rule prod_cases3)
  show ?thesis using waiting_update [OF f give_next_shorter [OF g \<open>q \<noteq> []\<close>]] by (simp add: fair_turn_def f g)
qed

text \<open>The turns of one priority: until enough steps are taken or no project has any left.\<close>

function fair_level :: "time \<Rightarrow> int \<Rightarrow> (string \<Rightarrow> int) \<Rightarrow> fair_state \<times> queues \<Rightarrow> fair_state \<times> queues" where
  "fair_level tick n running (fs, qs) =
     (if int (length (fs_out fs)) \<ge> n then (fs, qs)
      else
        let best = best_of (load_of running fs) (fm_get 0 (fs_served fs)) [] qs in
        if best = [] \<or> find (queue_of best) qs = None then (fs, qs)
        else fair_level tick n running (fair_turn tick best fs qs))"
  by pat_completeness auto
termination
proof (relation "measure (\<lambda>(tick, n, running, fs, qs). waiting_steps qs)")
  fix tick n and running :: "string \<Rightarrow> int" and fs qs best
  assume "\<not> (best = [] \<or> find (queue_of best) qs = None)"
  then show "((tick, n, running, fair_turn tick best fs qs), tick, n, running, fs, qs) \<in> measure (\<lambda>(tick, n, running, fs, qs). waiting_steps qs)"
    using fair_turn_shorter [of best qs tick fs] by (auto simp: case_prod_beta)
qed simp

definition fair_levels :: "time \<Rightarrow> int \<Rightarrow> (string \<Rightarrow> int) \<Rightarrow> (step_row \<times> run) list \<Rightarrow> fair_state \<Rightarrow> fair_state" where
  "fair_levels tick n running rows fs =
     fold (\<lambda>prio fs. fst (fair_level tick n running (fs, queues_at prio rows))) (in_order_seen (map (r_priority \<circ> snd) rows)) fs"

definition pickFair :: "time \<Rightarrow> time \<Rightarrow> int \<Rightarrow> bool \<Rightarrow> gate option \<Rightarrow> jobs \<Rightarrow> fair_state" where
  "pickFair tick now n interactive gate d =
     fair_levels tick n (running_of d) (first_of_each (n + 2) [] (queue_rows now interactive d))
       \<lparr>fs_out = [], fs_picked = fmempty, fs_served = jd_served d, fs_turn = jd_turn d, fs_gate = gate\<rparr>"

subsection \<open>The claim\<close>

definition claimed :: "time \<Rightarrow> duration \<Rightarrow> step \<Rightarrow> step" where
  "claimed now lease st = st\<lparr>s_status := Running, s_attempt := s_attempt st + 1, s_started := now, s_lease_until := now + lease\<rparr>"

definition claim_row :: "step \<Rightarrow> step_row \<Rightarrow> step_row" where
  "claim_row st row =
     (if sr_run row = s_run st \<and> sr_name row = s_name st
      then row\<lparr>sr_status := Running, sr_attempt := s_attempt st, sr_started := ms (s_started st),
               sr_lease_until := ms (s_lease_until st), sr_error := []\<rparr>
      else row)"

definition start_run :: "time \<Rightarrow> step \<Rightarrow> run \<Rightarrow> run" where
  "start_run now st r =
     (if r_id r = s_run st \<and> r_status r \<in> {Queued, Waiting}
      then r\<lparr>r_status := Running, r_started := (if r_started r = 0 then ms now else r_started r)\<rparr> else r)"

text \<open>
  \<open>commits\<close> says whether the database took the transaction: when it did not, the places
  the steps took are given back. The turns of the fair claim are not.
\<close>

definition claim :: "time \<Rightarrow> time \<Rightarrow> int \<Rightarrow> duration \<Rightarrow> bool \<Rightarrow> bool \<Rightarrow> bool \<Rightarrow> gate option \<Rightarrow> jobs
    \<Rightarrow> (jobs_error + step list) \<times> gate option \<times> jobs" where
  "claim tick now n lease interactive fair commits gate d =
     (case (if fair
            then let fs = pickFair tick now n interactive gate d
                 in (fs_out fs, fs_gate fs, d\<lparr>jd_served := fs_served fs, jd_turn := fs_turn fs\<rparr>)
            else case pickInOrder tick now n interactive gate d of (out, gate') \<Rightarrow> (out, gate', d)) of
        (out, gate', d') \<Rightarrow>
          if \<not> commits then (Inl ErrDatabase, fold (\<lambda>st. Release (s_resources st)) out gate', d')
          else
            let out = map (claimed now lease) out
            in (Inr out, gate',
                d'\<lparr>jd_steps := fold (\<lambda>st. map (claim_row st)) out (jd_steps d'),
                   jd_runs := fold (\<lambda>st. map (start_run now st)) out (jd_runs d')\<rparr>))"

subsection \<open>What waits\<close>

record queue_row =
  qr_resources :: "string list"
  qr_queued :: int
  qr_ready :: int
  qr_oldest :: time

definition of_projects :: "string list option \<Rightarrow> step_row \<times> run \<Rightarrow> bool" where
  "of_projects projects x = (case projects of None \<Rightarrow> True | Some ps \<Rightarrow> r_project (snd x) \<in> set ps)"

definition queue_group :: "time \<Rightarrow> (step_row \<times> run) list \<Rightarrow> string \<Rightarrow> queue_row" where
  "queue_group now rows res =
     (let rows = filter (\<lambda>x. sr_resources (fst x) = res) rows;
          ready = filter (\<lambda>x. sr_not_before (fst x) \<le> ms now) rows;
          since = map (\<lambda>(s, r). max (sr_queued_at s) (max (sr_not_before s) (r_created r))) ready
      in \<lparr>qr_resources = split_names res, qr_queued = int (length rows), qr_ready = int (length ready),
          qr_oldest = (case since of [] \<Rightarrow> 0 | x # xs \<Rightarrow> fromMS (fold min xs x))\<rparr>)"

text \<open>The rows come in the order of their resources, one of those the query may answer in.\<close>

definition Queue :: "string list option \<Rightarrow> time \<Rightarrow> jobs \<Rightarrow> queue_row list" where
  "Queue projects now d =
     (if projects = Some [] then []
      else let rows = filter (\<lambda>x. sr_status (fst x) = Queued \<and> of_projects projects x) (joined d)
           in map (queue_group now rows) (sort (remdups (map (sr_resources \<circ> fst) rows))))"

definition RunningSteps :: "string list option \<Rightarrow> jobs \<Rightarrow> int" where
  "RunningSteps projects d =
     (if projects = Some [] then 0
      else int (length (filter (\<lambda>x. sr_status (fst x) = Running \<and> of_projects projects x) (joined d))))"

definition ahead_of :: "run \<Rightarrow> int \<Rightarrow> step_row \<times> run \<Rightarrow> bool" where
  "ahead_of run pos x =
     (case x of (s, r) \<Rightarrow>
        r_priority r > r_priority run \<or>
        r_priority r = r_priority run \<and>
        (r_created r < ms (r_created run) \<or>
         r_created r = ms (r_created run) \<and> (sr_run s < r_id run \<or> sr_run s = r_id run \<and> sr_pos s < pos)))"

definition Ahead :: "run \<Rightarrow> string \<Rightarrow> time \<Rightarrow> jobs \<Rightarrow> jobs_error + int" where
  "Ahead run name now d =
     (case find (\<lambda>row. sr_run row = r_id run \<and> sr_name row = name) (jd_steps d) of
        None \<Rightarrow> Inl ErrNotFound
      | Some row \<Rightarrow> Inr (int (length (filter (ahead_of run (sr_pos row)) (ready_rows now False d)))))"

end
