(* ===== verification/JobClaim.thy ===== *)
theory JobClaim
  imports JobQueue "HOL-Library.Multiset"
begin

text \<open>
  The claim of the queue: what it takes, that no step is handed out twice, and that \<open>Ahead\<close>
  counts exactly the steps that go first.
\<close>

subsection \<open>Well-formed tables\<close>

text \<open>The keys of the tables are unique, the steps have their run, and the times are past the first
  millisecond of year 1, whose \<open>ms\<close> is that of the zero time's successors.\<close>

definition tables_ok :: "jobs \<Rightarrow> bool" where
  "tables_ok d \<longleftrightarrow> distinct (map r_id (jd_runs d)) \<and>
     distinct (map (\<lambda>s. (sr_run s, sr_name s)) (jd_steps d)) \<and>
     distinct (map (\<lambda>s. (sr_run s, sr_pos s)) (jd_steps d)) \<and>
     sr_run ` set (jd_steps d) \<subseteq> r_id ` set (jd_runs d) \<and>
     (\<forall>r\<in>set (jd_runs d). r_created r \<noteq> - 62135596800000)"

lemma tables_okD:
  assumes "tables_ok d"
  shows "distinct (map r_id (jd_runs d))" "distinct (map (\<lambda>s. (sr_run s, sr_name s)) (jd_steps d))"
    "distinct (map (\<lambda>s. (sr_run s, sr_pos s)) (jd_steps d))" "sr_run ` set (jd_steps d) \<subseteq> r_id ` set (jd_runs d)"
    "r \<in> set (jd_runs d) \<Longrightarrow> r_created r \<noteq> - 62135596800000"
  using assms by (simp_all add: tables_ok_def)

lemma ms_fromMS: "v \<noteq> - 62135596800000 \<Longrightarrow> ms (fromMS v) = v"
  by (simp add: ms_def fromMS_def)

lemma filter_unique:
  "distinct (map f xs) \<Longrightarrow> filter (\<lambda>x. f x = k) xs = (case find (\<lambda>x. f x = k) xs of None \<Rightarrow> [] | Some x \<Rightarrow> [x])"
proof (induction xs)
  case (Cons x xs)
  show ?case
  proof (cases "f x = k")
    case True
    have "f y \<noteq> k" if "y \<in> set xs" for y using Cons.prems True imageI [OF that, of f] by auto
    then have "filter (\<lambda>y. f y = k) xs = []" by (simp add: filter_empty_conv)
    then show ?thesis by (simp add: True)
  next
    case False
    then show ?thesis using Cons by simp
  qed
qed simp

lemma map_fst_joined:
  assumes "distinct (map r_id (jd_runs d))"
  shows "map fst (joined d) = filter (\<lambda>s. \<exists>r\<in>set (jd_runs d). r_id r = sr_run s) (jd_steps d)"
proof -
  define h :: "step_row \<Rightarrow> (step_row \<times> run) list" where "h = (\<lambda>s. map (\<lambda>r. (s, r)) (filter (\<lambda>r. r_id r = sr_run s) (jd_runs d)))"
  have "map fst (h s) = (if \<exists>r\<in>set (jd_runs d). r_id r = sr_run s then [s] else [])" for s
    using filter_unique [OF assms, of "sr_run s"]
    by (auto simp: h_def find_None_iff dest: find_Some_iff' split: option.splits)
  then have "map fst (concat (map h ss)) = filter (\<lambda>s. \<exists>r\<in>set (jd_runs d). r_id r = sr_run s) ss" for ss
    by (induction ss) (simp_all del: ex_simps bex_simps)
  from this [of "jd_steps d"] show ?thesis by (simp add: joined_def h_def)
qed

lemma in_joined: "(s, r) \<in> set (joined d) \<longleftrightarrow> s \<in> set (jd_steps d) \<and> r \<in> set (jd_runs d) \<and> r_id r = sr_run s"
  by (auto simp: joined_def)

lemma in_ready: "(s, r) \<in> set (ready_rows now interactive d) \<longleftrightarrow> s \<in> set (jd_steps d) \<and> r \<in> set (jd_runs d) \<and>
     r_id r = sr_run s \<and> sr_status s = Queued \<and> sr_not_before s \<le> ms now \<and> (interactive \<longrightarrow> r_priority r \<ge> PriorityInteractive)"
  by (auto simp: ready_rows_def in_joined)

text \<open>Rows that are joined are told apart by what their step is.\<close>

lemma distinct_joined:
  assumes "tables_ok d" and "distinct (map f (jd_steps d))"
  shows "distinct (map (f \<circ> fst) (joined d))"
proof -
  have "map (f \<circ> fst) (joined d) = map f (filter (\<lambda>s. \<exists>r\<in>set (jd_runs d). r_id r = sr_run s) (jd_steps d))"
    using map_fst_joined [OF tables_okD(1) [OF assms(1)]] by (metis (no_types, lifting) map_map)
  then show ?thesis using assms(2) by (simp add: distinct_map_filter)
qed

lemma distinct_ready:
  assumes "tables_ok d" and "distinct (map f (jd_steps d))"
  shows "distinct (map (f \<circ> fst) (ready_rows now interactive d))"
  using distinct_joined [OF assms] by (simp add: ready_rows_def distinct_map_filter)

lemma distinct_queue_key:
  assumes "tables_ok d"
  shows "distinct (map queue_key (queue_rows now interactive d))"
proof -
  have "distinct (map ((\<lambda>s. (sr_run s, sr_pos s)) \<circ> fst) (queue_rows now interactive d))"
    using distinct_ready [OF assms tables_okD(3) [OF assms], of now interactive]
    by (simp add: queue_rows_def distinct_map)
  moreover have "map ((\<lambda>s. (sr_run s, sr_pos s)) \<circ> fst) (queue_rows now interactive d) =
      map (\<lambda>k. snd (snd k)) (map queue_key (queue_rows now interactive d))"
    by (simp add: queue_key_def case_prod_beta)
  ultimately show ?thesis by (simp add: distinct_map del: map_map)
qed

subsection \<open>Before a row of the queue\<close>

lemma take_sorted_iff:
  "sorted (map f ys) \<Longrightarrow> distinct (map f ys) \<Longrightarrow> x \<in> set ys \<Longrightarrow>
     x \<in> set (take k ys) \<longleftrightarrow> length (filter (\<lambda>y. f y < f x) ys) < k"
proof (induction ys arbitrary: k)
  case (Cons y ys)
  have less: "f y < f z" if "z \<in> set ys" for z
    using Cons.prems(1,2) that by (force simp: order_less_le)
  show ?case
  proof (cases k)
    case (Suc k')
    show ?thesis
    proof (cases "x = y")
      case True
      have "filter (\<lambda>z. f z < f y) ys = []" using less by (force simp: filter_empty_conv)
      then show ?thesis by (simp add: True Suc)
    next
      case False
      then have "x \<in> set ys" using Cons.prems(3) by simp
      with less Cons.IH [of k'] Cons.prems(1,2) False show ?thesis by (simp add: Suc)
    qed
  qed simp
qed simp

lemma pick_loop_ungated:
  "pick_loop tick n [] out sts None = (out @ take (nat (n - int (length out))) sts, None)"
proof (induction sts arbitrary: out)
  case (Cons st sts)
  show ?case
  proof (cases "int (length out) \<ge> n")
    case False
    then have "nat (n - int (length out)) = Suc (nat (n - (1 + int (length out))))" by simp
    then show ?thesis using False Cons.IH [of "out @ [st]"] by (simp add: TryTake_def skipFull_def list_ex_iff)
  qed simp
qed simp

lemma pickInOrder_ungated:
  "pickInOrder tick now n interactive None d = (map (scanStep \<circ> fst) (take (nat n) (queue_rows now interactive d)), None)"
  by (simp add: pickInOrder_def pick_loop_ungated take_map)

lemma ahead_of_key:
  assumes "tables_ok d" and "r \<in> set (jd_runs d)" and "r_id r = sr_run row"
  shows "ahead_of (scanRun r) (sr_pos row) x \<longleftrightarrow> queue_key x < queue_key (row, r)"
proof -
  have "ms (fromMS (r_created r)) = r_created r" using tables_okD(5) [OF assms(1,2)] by (rule ms_fromMS)
  then show ?thesis using assms(3) by (cases x) (auto simp: ahead_of_def queue_key_def scanRun_def less_prod_def)
qed

lemma find_unique:
  "distinct (map f xs) \<Longrightarrow> x \<in> set xs \<Longrightarrow> (\<And>y. P y \<longleftrightarrow> f y = f x) \<Longrightarrow> find P xs = Some x"
  by (induction xs) (auto simp: image_iff)

text \<open>\<open>Ahead\<close> is the place of a queued step in the queue: a claim in order of \<open>n\<close> steps takes the
  step exactly when fewer than \<open>n\<close> are ahead of it.\<close>

theorem Ahead_exact:
  assumes "tables_ok d" and "row \<in> set (jd_steps d)" and "r \<in> set (jd_runs d)" and "r_id r = sr_run row"
    and "sr_status row = Queued" and "sr_not_before row \<le> ms now"
  shows "\<exists>k. Ahead (scanRun r) (sr_name row) now d = Inr k \<and>
     (\<forall>n. list_ex (\<lambda>st. s_run st = sr_run row \<and> s_name st = sr_name row) (fst (pickInOrder tick now n False None d)) = (k < n))"
proof -
  let ?rows = "queue_rows now False d"
  define k where "k = length (filter (\<lambda>x. queue_key x < queue_key (row, r)) (ready_rows now False d))"
  have "find (\<lambda>s. sr_run s = r_id (scanRun r) \<and> sr_name s = sr_name row) (jd_steps d) = Some row"
    using assms(4) by (intro find_unique [OF tables_okD(2) [OF assms(1)] assms(2)]) (simp add: scanRun_def)
  then have ahead: "Ahead (scanRun r) (sr_name row) now d = Inr (int k)"
    using filter_cong [OF refl, of "ready_rows now False d", OF ahead_of_key [OF assms(1,3,4)]] by (simp add: Ahead_def k_def)
  have inq: "(row, r) \<in> set ?rows" using assms by (simp add: queue_rows_def in_ready)
  have k': "k = length (filter (\<lambda>x. queue_key x < queue_key (row, r)) ?rows)"
    by (simp add: k_def queue_rows_def filter_sort)
  have "list_ex (\<lambda>st. s_run st = sr_run row \<and> s_name st = sr_name row) (fst (pickInOrder tick now n False None d)) \<longleftrightarrow>
      (row, r) \<in> set (take (nat n) ?rows)" for n
  proof -
    have "x = (row, r)" if "x \<in> set ?rows" "sr_run (fst x) = sr_run row" "sr_name (fst x) = sr_name row" for x
      using distinct_ready [OF assms(1) tables_okD(2) [OF assms(1)], of now False] that inq
      by (intro inj_onD [of "(\<lambda>s. (sr_run s, sr_name s)) \<circ> fst" "set ?rows"]) (simp_all add: queue_rows_def distinct_map)
    then have "(\<exists>x\<in>set (take (nat n) ?rows). sr_run (fst x) = sr_run row \<and> sr_name (fst x) = sr_name row) \<longleftrightarrow>
        (row, r) \<in> set (take (nat n) ?rows)"
      by (metis fst_conv in_set_takeD)
    then show ?thesis by (simp add: pickInOrder_ungated list_ex_iff scanStep_def)
  qed
  moreover have "(row, r) \<in> set (take (nat n) ?rows) \<longleftrightarrow> int k < n" for n
    using take_sorted_iff [OF _ distinct_queue_key [OF assms(1)] inq, of "nat n"] by (simp add: queue_rows_def [symmetric] k' zless_nat_eq_int_zless) (simp add: queue_rows_def)
  ultimately show ?thesis using ahead by blast
qed

subsection \<open>What a claim takes\<close>

text \<open>What happened to a gate, absent or not, while resources were asked of it.\<close>

definition gate_acquires :: "time \<Rightarrow> gate option \<Rightarrow> string list list \<Rightarrow> gate option \<Rightarrow> bool" where
  "gate_acquires tick gate rss gate' \<longleftrightarrow>
     (case gate of None \<Rightarrow> gate' = None | Some g \<Rightarrow> \<exists>g'. gate' = Some g' \<and> pg.acquires tick g rss g')"

lemma gate_acquires_refl: "gate_acquires tick gate [] gate"
  by (simp add: gate_acquires_def pg.Nothing split: option.split)

lemma gate_acquires_trans:
  "gate_acquires tick g xs g1 \<Longrightarrow> gate_acquires tick g1 ys g2 \<Longrightarrow> gate_acquires tick g (xs @ ys) g2"
  by (auto simp: gate_acquires_def intro: pg.acquires_trans split: option.splits)

lemma gate_acquires_take:
  assumes "TryTake tick rs gate = (ok, gate')"
  shows "gate_acquires tick gate (if ok then [rs] else []) gate'"
proof (cases gate)
  case (Some g)
  then obtain g' where g': "gate' = Some g'" using TryTake_places [of tick rs g ok gate'] assms by blast
  then have "try_gate tick rs g = (ok, g')" using try_gate_eq assms Some by force
  then have "pg.acquires tick g (if ok then [rs] else []) g'"
    using pg.Granted [OF pg.Nothing, of tick rs g g'] pg.Refused [OF pg.Nothing, of tick rs g g'] by (cases ok) auto
  then show ?thesis by (simp add: gate_acquires_def Some g')
qed (use assms in \<open>simp add: gate_acquires_def TryTake_def\<close>)

lemma gate_acquires_look:
  assumes "Full tick rs gate = (r, gate')"
  shows "gate_acquires tick gate [] gate'"
proof (cases gate)
  case (Some g)
  then show ?thesis using assms pg.Looked [OF pg.Nothing, of tick rs g]
    by (auto simp: gate_acquires_def Full_def look_gate_def split: prod.splits)
qed (use assms in \<open>simp add: gate_acquires_def Full_def\<close>)

lemma gate_acquires_places:
  "gate_acquires tick (Some g) rss gate' \<Longrightarrow>
     \<exists>g'. gate' = Some g' \<and> (\<forall>r. places g' r = places g r + int (count_list (concat rss) r))"
  using pg.acquires_held [of tick g rss] by (auto simp: gate_acquires_def)

text \<open>What was picked, out of a list of steps: some of them, each once, with places for all.\<close>

definition picked_from :: "time \<Rightarrow> step list \<Rightarrow> gate option \<Rightarrow> step list \<Rightarrow> gate option \<Rightarrow> bool" where
  "picked_from tick sts gate new gate' \<longleftrightarrow>
     mset new \<subseteq># mset sts \<and> gate_acquires tick gate (map s_resources new) gate'"

lemma pick_loop_picks:
  "pick_loop tick n full out sts gate = (out', gate') \<Longrightarrow>
     \<exists>new. out' = out @ new \<and> int (length out') \<le> max n (int (length out)) \<and> picked_from tick sts gate new gate'"
proof (induction tick n full out sts gate rule: pick_loop.induct)
  case (1 tick n full out gate)
  then show ?case by (simp add: picked_from_def gate_acquires_refl)
next
  case (2 tick n full out st sts gate)
  show ?case
  proof (cases "int (length out) \<ge> n")
    case True
    then show ?thesis using "2.prems" by (simp add: picked_from_def gate_acquires_refl)
  next
    case room: False
    obtain ok gate1 where t: "(if skipFull (s_resources st) full then (False, gate) else TryTake tick (s_resources st) gate) = (ok, gate1)"
      by (rule prod.exhaust)
    then have got: "gate_acquires tick gate (if ok then [s_resources st] else []) gate1"
      using gate_acquires_take [of tick "s_resources st" gate ok gate1] by (auto simp: gate_acquires_refl split: if_splits)
    show ?thesis
    proof (cases ok)
      case True
      have "pick_loop tick n full (out @ [st]) sts gate1 = (out', gate')" using "2.prems" room t True by simp
      from "2.IH"(1) [OF room t [symmetric] True this] obtain new where
        new: "out' = out @ st # new" "int (length out') \<le> max n (int (length out) + 1)" "picked_from tick sts gate1 new gate'"
        by (auto simp: add.commute)
      then have "picked_from tick (st # sts) gate (st # new) gate'"
        using got True gate_acquires_trans by (fastforce simp: picked_from_def)
      then show ?thesis using new room by (intro exI [of _ "st # new"]) auto
    next
      case False
      obtain r gate2 where f: "Full tick (s_resources st) gate1 = (r, gate2)" by (rule prod.exhaust)
      have "pick_loop tick n (if r \<noteq> [] then r # full else full) out sts gate2 = (out', gate')"
        using "2.prems" room t False f by simp
      from "2.IH"(2) [OF room t [symmetric] False f [symmetric] this] obtain new where
        new: "out' = out @ new" "int (length out') \<le> max n (int (length out))" "picked_from tick sts gate2 new gate'" by auto
      have "gate_acquires tick gate [] gate2"
        using gate_acquires_trans [OF got gate_acquires_look [OF f]] False by simp
      then have "gate_acquires tick gate (map s_resources new) gate'"
        using gate_acquires_trans new(3) by (fastforce simp: picked_from_def)
      moreover have "mset new \<subseteq># mset (st # sts)"
        using new(3) by (auto simp: picked_from_def intro: subset_mset.trans)
      ultimately show ?thesis using new by (auto simp: picked_from_def)
    qed
  qed
qed

abbreviation opt_list :: "'a option \<Rightarrow> 'a list" where
  "opt_list x \<equiv> (case x of None \<Rightarrow> [] | Some y \<Rightarrow> [y])"

lemma give_next_picks:
  "give_next tick q gate = (got, left, gate') \<Longrightarrow>
     mset (opt_list got) + mset left \<subseteq># mset q \<and> gate_acquires tick gate (map s_resources (opt_list got)) gate'"
proof (induction q arbitrary: gate)
  case (Cons st q)
  obtain ok gate1 where t: "TryTake tick (s_resources st) gate = (ok, gate1)" by (rule prod.exhaust)
  show ?case
  proof (cases ok)
    case True
    then show ?thesis using Cons.prems t gate_acquires_take [OF t] by auto
  next
    case False
    then have g: "give_next tick q gate1 = (got, left, gate')" using Cons.prems t by simp
    have "gate_acquires tick gate ([] @ map s_resources (opt_list got)) gate'"
      using gate_acquires_take [OF t] False Cons.IH [OF g] by (intro gate_acquires_trans [of tick gate _ gate1]) simp_all
    then show ?thesis using Cons.IH [OF g] by (auto intro: subset_mset.trans)
  qed
qed (auto simp: gate_acquires_refl)

definition queued_steps :: "queues \<Rightarrow> step list" where
  "queued_steps qs = concat (map snd qs)"

lemma queued_steps_update:
  "find (queue_of best) qs = Some (p, q) \<Longrightarrow> xs + mset left \<subseteq># mset q \<Longrightarrow>
     xs + mset (queued_steps (update_first (queue_of best) (\<lambda>(p, _). (p, left)) qs)) \<subseteq># mset (queued_steps qs)"
proof (induction qs)
  case (Cons x qs)
  show ?case
  proof (cases "queue_of best x")
    case True
    then show ?thesis using Cons.prems by (cases x) (auto simp: queued_steps_def add.assoc [symmetric] intro: subset_mset.add_mono)
  next
    case False
    then have "xs + mset (queued_steps (update_first (queue_of best) (\<lambda>(p, _). (p, left)) qs)) \<subseteq># mset (queued_steps qs)"
      using Cons by simp
    then show ?thesis using False by (simp add: queued_steps_def add.left_commute)
  qed
qed simp

lemma fair_turn_picks:
  assumes "fair_turn tick best fs qs = (fs', qs')"
  shows "\<exists>new. fs_out fs' = fs_out fs @ new \<and> length new \<le> 1 \<and>
     mset new + mset (queued_steps qs') \<subseteq># mset (queued_steps qs) \<and>
     gate_acquires tick (fs_gate fs) (map s_resources new) (fs_gate fs')"
proof (cases "find (queue_of best) qs")
  case None
  then show ?thesis using assms by (simp add: fair_turn_def gate_acquires_refl)
next
  case (Some x)
  obtain p q where x: "x = (p, q)" by (rule prod.exhaust)
  obtain got left gate where g: "give_next tick q (fs_gate fs) = (got, left, gate)" by (rule prod_cases3)
  have fs': "fs' = (case got of None \<Rightarrow> fs | Some st \<Rightarrow> serve best st fs)\<lparr>fs_gate := gate\<rparr>"
    and qs': "qs' = update_first (queue_of best) (\<lambda>(p, _). (p, left)) qs"
    using assms by (auto simp: fair_turn_def Some x g)
  have "fs_out fs' = fs_out fs @ opt_list got" and "fs_gate fs' = gate"
    by (simp_all add: fs' serve_def split: option.split)
  moreover have "mset (opt_list got) + mset (queued_steps qs') \<subseteq># mset (queued_steps qs)"
    using give_next_picks [OF g] Some by (simp add: qs' x queued_steps_update)
  ultimately show ?thesis using give_next_picks [OF g] by (intro exI [of _ "opt_list got"]) (auto split: option.split)
qed

declare fair_level.simps [simp del]

abbreviation best_turn :: "(string \<Rightarrow> int) \<Rightarrow> fair_state \<Rightarrow> queues \<Rightarrow> string" where
  "best_turn running fs qs \<equiv> best_of (load_of running fs) (fm_get 0 (fs_served fs)) [] qs"

lemma fair_level_step:
  assumes "\<not> int (length (fs_out fs)) \<ge> n" and "\<not> (best_turn running fs qs = [] \<or> find (queue_of (best_turn running fs qs)) qs = None)"
  shows "fair_level tick n running (fs, qs) = fair_level tick n running (fair_turn tick (best_turn running fs qs) fs qs)"
  using assms by (subst fair_level.simps) (simp only: Let_def if_False)

lemma fair_level_stop:
  assumes "int (length (fs_out fs)) \<ge> n \<or> best_turn running fs qs = [] \<or> find (queue_of (best_turn running fs qs)) qs = None"
  shows "fair_level tick n running (fs, qs) = (fs, qs)"
  using assms by (auto simp: fair_level.simps Let_def)

lemma fair_level_picks:
  "fair_level tick n running (fs, qs) = (fs', qs') \<Longrightarrow>
     \<exists>new. fs_out fs' = fs_out fs @ new \<and> int (length (fs_out fs')) \<le> max n (int (length (fs_out fs))) \<and>
       picked_from tick (queued_steps qs) (fs_gate fs) new (fs_gate fs')"
proof (induction tick n running "(fs, qs)" arbitrary: fs qs fs' qs' rule: fair_level.induct)
  case (1 tick n running fs qs)
  let ?best = "best_turn running fs qs"
  show ?case
  proof (cases "int (length (fs_out fs)) \<ge> n \<or> ?best = [] \<or> find (queue_of ?best) qs = None")
    case True
    then show ?thesis using "1.prems" by (simp add: fair_level_stop picked_from_def gate_acquires_refl)
  next
    case False
    then have room: "\<not> n \<le> int (length (fs_out fs))" and best: "\<not> (?best = [] \<or> find (queue_of ?best) qs = None)"
      by auto
    obtain fs1 qs1 where t: "fair_turn tick ?best fs qs = (fs1, qs1)" by (rule prod.exhaust)
    have rec: "fair_level tick n running (fs1, qs1) = (fs', qs')"
      using "1.prems" fair_level_step [OF room best] by (simp add: t)
    from fair_turn_picks [OF t] obtain new1 where new1: "fs_out fs1 = fs_out fs @ new1" "length new1 \<le> 1"
      "mset new1 + mset (queued_steps qs1) \<subseteq># mset (queued_steps qs)"
      "gate_acquires tick (fs_gate fs) (map s_resources new1) (fs_gate fs1)" by blast
    from "1.hyps" [OF room refl best t rec]
    obtain new where new: "fs_out fs' = fs_out fs1 @ new" "int (length (fs_out fs')) \<le> max n (int (length (fs_out fs1)))"
      "picked_from tick (queued_steps qs1) (fs_gate fs1) new (fs_gate fs')" by force
    have "mset new1 + mset new \<subseteq># mset new1 + mset (queued_steps qs1)" using new(3) by (simp add: picked_from_def)
    from subset_mset.order_trans [OF this new1(3)] have "mset (new1 @ new) \<subseteq># mset (queued_steps qs)" by simp
    moreover have "gate_acquires tick (fs_gate fs) (map s_resources (new1 @ new)) (fs_gate fs')"
      using gate_acquires_trans [OF new1(4)] new(3) by (simp add: picked_from_def)
    moreover have "int (length (fs_out fs')) \<le> max n (int (length (fs_out fs)))"
      using new(2) new1(1,2) room by simp
    ultimately show ?thesis using new(1) new1(1) by (auto simp: picked_from_def)
  qed
qed

text \<open>Grouping a list by a key rearranges it.\<close>

lemma mset_groups:
  "distinct ks \<Longrightarrow> f ` set xs \<subseteq> set ks \<Longrightarrow> mset (concat (map (\<lambda>k. filter (\<lambda>x. f x = k) xs) ks)) = mset xs"
proof (induction ks arbitrary: xs)
  case (Cons k ks)
  let ?rest = "filter (\<lambda>x. f x \<noteq> k) xs"
  have "filter (\<lambda>x. f x = k') xs = filter (\<lambda>x. f x = k') ?rest" if "k' \<in> set ks" for k'
    using Cons.prems(1) that by (auto simp: intro!: filter_cong)
  then have same: "map (\<lambda>k'. filter (\<lambda>x. f x = k') xs) ks = map (\<lambda>k'. filter (\<lambda>x. f x = k') ?rest) ks" by (rule map_cong [OF refl])
  have "mset (concat (map (\<lambda>k'. filter (\<lambda>x. f x = k') ?rest) ks)) = mset ?rest"
    using Cons.prems by (intro Cons.IH) auto
  then have "mset (concat (map (\<lambda>k. filter (\<lambda>x. f x = k) xs) (k # ks))) = mset (filter (\<lambda>x. f x = k) xs) + mset ?rest"
    by (simp only: list.map concat.simps mset_append same)
  then show ?case using multiset_partition [of "mset xs" "\<lambda>x. f x = k"] by simp
qed simp

lemma set_in_order_seen [simp]: "set (in_order_seen xs) = set xs" "distinct (in_order_seen xs)"
  by (simp_all add: in_order_seen_def)

lemma queued_steps_at: "mset (queued_steps (queues_at prio rows)) = mset (map (scanStep \<circ> fst) (filter (\<lambda>x. r_priority (snd x) = prio) rows))"
proof -
  let ?here = "filter (\<lambda>x. r_priority (snd x) = prio) rows"
  have "queued_steps (queues_at prio rows) =
      map (scanStep \<circ> fst) (concat (map (\<lambda>p. filter (\<lambda>x. r_project (snd x) = p) ?here) (in_order_seen (map (r_project \<circ> snd) ?here))))"
    by (simp add: queued_steps_def queues_at_def Let_def map_concat comp_def)
  then show ?thesis using mset_groups [of "in_order_seen (map (r_project \<circ> snd) ?here)" "r_project \<circ> snd" ?here]
    by (simp add: comp_def)
qed

lemma first_of_each_sub: "mset (first_of_each k seen xs) \<subseteq># mset xs"
proof (induction xs arbitrary: seen)
  case (Cons x xs)
  have "mset xs \<subseteq># mset (x # xs)" by simp
  with Cons.IH [of "seen @ [x]"] show ?case by (auto simp: Let_def intro: subset_mset.trans)
qed simp

lemma fair_fold_picks:
  "\<exists>new. fs_out (fold (\<lambda>prio fs. fst (fair_level tick n running (fs, queues_at prio rows))) prios fs) = fs_out fs @ new \<and>
     int (length (fs_out fs @ new)) \<le> max n (int (length (fs_out fs))) \<and>
     picked_from tick (concat (map (\<lambda>prio. queued_steps (queues_at prio rows)) prios)) (fs_gate fs) new
       (fs_gate (fold (\<lambda>prio fs. fst (fair_level tick n running (fs, queues_at prio rows))) prios fs))"
proof (induction prios arbitrary: fs)
  case Nil
  show ?case by (simp add: picked_from_def gate_acquires_refl)
next
  case (Cons prio prios)
  obtain fs1 qs1 where l: "fair_level tick n running (fs, queues_at prio rows) = (fs1, qs1)" by (rule prod.exhaust)
  from fair_level_picks [OF l] obtain new1 where new1: "fs_out fs1 = fs_out fs @ new1"
    "int (length (fs_out fs1)) \<le> max n (int (length (fs_out fs)))"
    "picked_from tick (queued_steps (queues_at prio rows)) (fs_gate fs) new1 (fs_gate fs1)" by blast
  from Cons.IH [of fs1] obtain new where new:
    "fs_out (fold (\<lambda>prio fs. fst (fair_level tick n running (fs, queues_at prio rows))) prios fs1) = fs_out fs1 @ new"
    "int (length (fs_out fs1 @ new)) \<le> max n (int (length (fs_out fs1)))"
    "picked_from tick (concat (map (\<lambda>prio. queued_steps (queues_at prio rows)) prios)) (fs_gate fs1) new
       (fs_gate (fold (\<lambda>prio fs. fst (fair_level tick n running (fs, queues_at prio rows))) prios fs1))" by blast
  have "mset (new1 @ new) \<subseteq># mset (concat (map (\<lambda>prio. queued_steps (queues_at prio rows)) (prio # prios)))"
    using new1(3) new(3) by (simp add: picked_from_def subset_mset.add_mono)
  moreover have "int (length (fs_out fs @ new1 @ new)) \<le> max n (int (length (fs_out fs)))"
    using new(2) new1(1,2) by simp
  ultimately show ?case using new new1 gate_acquires_trans
    by (intro exI [of _ "new1 @ new"]) (fastforce simp: l picked_from_def)
qed

lemma pickFair_picks:
  assumes "pickFair tick now n interactive gate d = fs"
  shows "int (length (fs_out fs)) \<le> max n 0 \<and>
     picked_from tick (map (scanStep \<circ> fst) (ready_rows now interactive d)) gate (fs_out fs) (fs_gate fs)"
proof -
  let ?rows = "first_of_each (n + 2) [] (queue_rows now interactive d)"
  let ?prios = "in_order_seen (map (r_priority \<circ> snd) ?rows)"
  let ?fs0 = "\<lparr>fs_out = [], fs_picked = fmempty, fs_served = jd_served d, fs_turn = jd_turn d, fs_gate = gate\<rparr>"
  from fair_fold_picks [of tick n "running_of d" ?rows ?prios ?fs0] assms
  have picks: "int (length (fs_out fs)) \<le> max n 0"
    "picked_from tick (concat (map (\<lambda>prio. queued_steps (queues_at prio ?rows)) ?prios)) gate (fs_out fs) (fs_gate fs)"
    by (auto simp: pickFair_def fair_levels_def)
  have "mset (concat (map (\<lambda>prio. queued_steps (queues_at prio ?rows)) ks)) =
      mset (map (scanStep \<circ> fst) (concat (map (\<lambda>prio. filter (\<lambda>x. r_priority (snd x) = prio) ?rows) ks)))" for ks
    by (induction ks) (simp_all add: queued_steps_at comp_def)
  also have "mset (map (scanStep \<circ> fst) (concat (map (\<lambda>prio. filter (\<lambda>x. r_priority (snd x) = prio) ?rows) ?prios))) =
      mset (map (scanStep \<circ> fst) ?rows)"
    using mset_groups [of ?prios "r_priority \<circ> snd" ?rows] by (simp add: comp_def)
  also have "\<dots> \<subseteq># mset (map (scanStep \<circ> fst) (ready_rows now interactive d))"
    using first_of_each_sub [of "n + 2" "[]" "queue_rows now interactive d"]
    by (simp add: queue_rows_def image_mset_subseteq_mono)
  finally show ?thesis using picks by (auto simp: picked_from_def intro: subset_mset.trans)
qed

subsection \<open>The claim\<close>

definition step_key :: "step \<Rightarrow> string \<times> string" where
  "step_key st = (s_run st, s_name st)"

definition row_key :: "step_row \<Rightarrow> string \<times> string" where
  "row_key row = (sr_run row, sr_name row)"

definition due :: "time \<Rightarrow> step_row \<Rightarrow> bool" where
  "due now row \<longleftrightarrow> sr_status row = Queued \<and> sr_not_before row \<le> ms now"

definition run_row_of :: "time \<Rightarrow> duration \<Rightarrow> step_row \<Rightarrow> step_row" where
  "run_row_of now lease row =
     row\<lparr>sr_status := Running, sr_attempt := sr_attempt row + 1, sr_started := ms now, sr_lease_until := ms (now + lease), sr_error := []\<rparr>"

lemma step_key_scan [simp]: "step_key (scanStep row) = row_key row" "step_key (claimed now lease st) = step_key st"
  by (simp_all add: step_key_def row_key_def scanStep_def claimed_def)

text \<open>Both ways to pick answer steps that are due, each once, and hold places for them.\<close>

lemma picks:
  assumes "(if fair then let fs = pickFair tick now n interactive gate d in (fs_out fs, fs_gate fs, d\<lparr>jd_served := fs_served fs, jd_turn := fs_turn fs\<rparr>)
            else case pickInOrder tick now n interactive gate d of (out, gate') \<Rightarrow> (out, gate', d)) = (out, gate', d')"
  shows "int (length out) \<le> max n 0 \<and> picked_from tick (map (scanStep \<circ> fst) (ready_rows now interactive d)) gate out gate' \<and>
     jd_steps d' = jd_steps d \<and> jd_runs d' = jd_runs d"
proof (cases fair)
  case True
  then show ?thesis using assms pickFair_picks [OF refl, of tick now n interactive gate d] by (auto simp: Let_def)
next
  case False
  then obtain out1 gate1 where p: "pickInOrder tick now n interactive gate d = (out1, gate1)" and eq: "out = out1" "gate' = gate1" "d' = d"
    using assms by (auto split: prod.splits)
  let ?rows = "if gate = None then take (nat n) (queue_rows now interactive d) else queue_rows now interactive d"
  have "pick_loop tick n [] [] (map (scanStep \<circ> fst) ?rows) gate = (out1, gate1)"
    using p by (simp add: pickInOrder_def Let_def)
  from pick_loop_picks [OF this] have picked: "int (length out1) \<le> max n 0" "picked_from tick (map (scanStep \<circ> fst) ?rows) gate out1 gate1"
    by auto
  have "mset ?rows \<subseteq># mset (ready_rows now interactive d)"
    using mset_subset_eq_add_left [of "mset (take (nat n) (queue_rows now interactive d))" "mset (drop (nat n) (queue_rows now interactive d))"]
    by (simp add: queue_rows_def mset_append [symmetric] del: mset_append)
  then have "mset (map (scanStep \<circ> fst) ?rows) \<subseteq># mset (map (scanStep \<circ> fst) (ready_rows now interactive d))"
    by (simp add: image_mset_subseteq_mono)
  then show ?thesis using picked by (auto simp: picked_from_def eq intro: subset_mset.trans)
qed

lemma distinct_sub_mset:
  assumes "mset xs \<subseteq># mset ys" and "distinct ys"
  shows "distinct xs"
proof -
  obtain M where "mset ys = mset xs + M" using assms(1) by (auto simp: mset_subset_eq_exists_conv)
  moreover obtain zs where "M = mset zs" using ex_mset by metis
  ultimately have "mset ys = mset (xs @ zs)" by simp
  then show ?thesis using assms(2) mset_eq_imp_distinct_iff by (metis distinct_append)
qed

lemma picked_keys:
  assumes "tables_ok d" and "picked_from tick (map (scanStep \<circ> fst) (ready_rows now interactive d)) gate out gate'"
  shows "distinct (map step_key out)" and "st \<in> set out \<Longrightarrow> \<exists>row\<in>set (jd_steps d). st = scanStep row \<and> due now row"
proof -
  let ?sts = "map (scanStep \<circ> fst) (ready_rows now interactive d)"
  have sub: "mset out \<subseteq># mset ?sts" using assms(2) by (simp add: picked_from_def)
  have "distinct (map (row_key \<circ> fst) (ready_rows now interactive d))"
    using distinct_ready [OF assms(1) tables_okD(2) [OF assms(1)]] by (simp add: row_key_def [abs_def])
  moreover have "map step_key ?sts = map (row_key \<circ> fst) (ready_rows now interactive d)" by simp
  ultimately have "distinct (map step_key ?sts)" by metis
  moreover have "mset (map step_key out) \<subseteq># mset (map step_key ?sts)"
    using image_mset_subseteq_mono [OF sub, of step_key] by (simp only: mset_map)
  ultimately show "distinct (map step_key out)"
    using distinct_sub_mset by blast
next
  assume "st \<in> set out"
  then have "st \<in> set (map (scanStep \<circ> fst) (ready_rows now interactive d))"
    using assms(2) by (metis in_multiset_in_set mset_subset_eqD picked_from_def)
  then show "\<exists>row\<in>set (jd_steps d). st = scanStep row \<and> due now row" by (auto simp: in_ready due_def)
qed

lemma fold_map_rows: "fold (\<lambda>st. map (f st)) out rows = map (\<lambda>row. fold f out row) rows"
  by (induction out arbitrary: rows) (simp_all add: comp_def)

lemma claim_row_key: "row_key (claim_row st row) = row_key row"
  by (simp add: claim_row_def row_key_def)

lemma fold_claim_row:
  "distinct (map step_key out) \<Longrightarrow>
     fold claim_row out row = (case find (\<lambda>st. step_key st = row_key row) out of None \<Rightarrow> row | Some st \<Rightarrow> claim_row st row)"
proof (induction out arbitrary: row)
  case (Cons st out)
  show ?case
  proof (cases "step_key st = row_key row")
    case True
    then have "find (\<lambda>st'. step_key st' = row_key row) out = None"
      using Cons.prems by (simp add: find_None_iff) (metis image_eqI)
    then show ?thesis using True Cons by (simp add: claim_row_key)
  next
    case False
    then have "claim_row st row = row" by (auto simp: claim_row_def step_key_def row_key_def)
    then show ?thesis using False Cons by simp
  qed
qed simp

lemma claim_row_of:
  assumes "tables_ok d" and "row \<in> set (jd_steps d)" and "row' \<in> set (jd_steps d)" and "row_key row' = row_key row"
  shows "claim_row (claimed now lease (scanStep row')) row = run_row_of now lease row"
proof -
  have "row' = row"
    using tables_okD(2) [OF assms(1)] assms(2-4) by (auto simp: distinct_map inj_on_def row_key_def)
  then show ?thesis by (simp add: claim_row_def run_row_of_def claimed_def scanStep_def)
qed

text \<open>What a committed claim leaves in the tables.\<close>

lemma claim_spec:
  assumes "tables_ok d" and "claim tick now n lease interactive fair True gate d = (Inr out, gate', d')"
  shows "int (length out) \<le> max n 0" and "distinct (map step_key out)"
    and "\<forall>st\<in>set out. \<exists>row\<in>set (jd_steps d). st = claimed now lease (scanStep row) \<and> due now row"
    and "jd_steps d' = map (\<lambda>row. if row_key row \<in> step_key ` set out then run_row_of now lease row else row) (jd_steps d)"
    and "jd_runs d' = map (\<lambda>r. fold (start_run now) out r) (jd_runs d)"
    and "gate_acquires tick gate (map s_resources out) gate'"
proof -
  obtain out0 gate0 d0 where p: "(if fair then let fs = pickFair tick now n interactive gate d in (fs_out fs, fs_gate fs, d\<lparr>jd_served := fs_served fs, jd_turn := fs_turn fs\<rparr>)
            else case pickInOrder tick now n interactive gate d of (out, gate') \<Rightarrow> (out, gate', d)) = (out0, gate0, d0)"
    by (rule prod_cases3)
  have out: "out = map (claimed now lease) out0" and gate: "gate' = gate0"
    and d': "jd_steps d' = fold (\<lambda>st. map (claim_row st)) out (jd_steps d0)" "jd_runs d' = fold (\<lambda>st. map (start_run now st)) out (jd_runs d0)"
    using assms(2) unfolding claim_def p by (auto simp: Let_def)
  note pk = picks [OF p]
  note keys = picked_keys [OF assms(1), of tick now interactive gate out0 gate0]
  show "int (length out) \<le> max n 0" using pk by (simp add: out)
  show dist: "distinct (map step_key out)" using keys(1) pk by (simp add: out comp_def)
  show from_rows: "\<forall>st\<in>set out. \<exists>row\<in>set (jd_steps d). st = claimed now lease (scanStep row) \<and> due now row"
    using keys(2) pk by (force simp: out)
  show "jd_runs d' = map (\<lambda>r. fold (start_run now) out r) (jd_runs d)" using pk d'(2) by (simp add: fold_map_rows)
  show "gate_acquires tick gate (map s_resources out) gate'"
    using pk by (simp add: out gate picked_from_def comp_def claimed_def)
  have "fold claim_row out row = (if row_key row \<in> step_key ` set out then run_row_of now lease row else row)"
    if "row \<in> set (jd_steps d)" for row
  proof (cases "find (\<lambda>st. step_key st = row_key row) out")
    case None
    then show ?thesis by (simp add: fold_claim_row [OF dist]) (auto simp: find_None_iff)
  next
    case (Some st)
    then have st: "st \<in> set out" "step_key st = row_key row" by (auto dest: find_Some_iff')
    then obtain row' where "row' \<in> set (jd_steps d)" "st = claimed now lease (scanStep row')" using from_rows by blast
    then have "claim_row st row = run_row_of now lease row"
      using claim_row_of [OF assms(1) that, of row' now lease] st(2) by simp
    moreover have "row_key row \<in> step_key ` set out" using st by force
    ultimately show ?thesis by (simp add: fold_claim_row [OF dist] Some)
  qed
  then show "jd_steps d' = map (\<lambda>row. if row_key row \<in> step_key ` set out then run_row_of now lease row else row) (jd_steps d)"
    using pk by (simp add: d'(1) fold_map_rows)
qed

lemma row_key_rewritten:
  "(\<And>row. row \<in> set rows \<Longrightarrow> row_key (f row) = row_key row) \<Longrightarrow> map row_key (map f rows) = map row_key rows"
  by simp

lemma start_run_keeps [simp]:
  "r_id (fold (start_run now) out r) = r_id r" "r_created (fold (start_run now) out r) = r_created r"
  by (induction out arbitrary: r) (simp_all add: start_run_def)

lemma claim_tables_ok:
  assumes "tables_ok d" and "claim tick now n lease interactive fair True gate d = (Inr out, gate', d')"
  shows "tables_ok d'"
proof -
  have pos: "map (\<lambda>s. (sr_run s, sr_pos s)) (jd_steps d') = map (\<lambda>s. (sr_run s, sr_pos s)) (jd_steps d)"
    and name: "map (\<lambda>s. (sr_run s, sr_name s)) (jd_steps d') = map (\<lambda>s. (sr_run s, sr_name s)) (jd_steps d)"
    and run: "map sr_run (jd_steps d') = map sr_run (jd_steps d)"
    by (simp_all add: claim_spec(4) [OF assms] run_row_of_def)
  have "map r_id (jd_runs d') = map r_id (jd_runs d)" and created: "map r_created (jd_runs d') = map r_created (jd_runs d)"
    by (simp_all add: claim_spec(5) [OF assms])
  moreover have "sr_run ` set (jd_steps d') = sr_run ` set (jd_steps d)" by (metis run list.set_map)
  moreover have "r_created ` set (jd_runs d') = r_created ` set (jd_runs d)" by (metis created list.set_map)
  ultimately show ?thesis using assms(1) pos name unfolding tables_ok_def
    by (metis (no_types, lifting) image_iff list.set_map)
qed

text \<open>No step is handed to two workers: two claims one after the other, in order or in turn, for
  either lane, with whatever gate, take different steps, and one claim takes a step once.\<close>

theorem claim_exclusive:
  assumes "tables_ok d" and "claim tick now n lease interactive fair True gate d = (Inr out, gate', d')"
    and "claim tick2 now2 n2 lease2 interactive2 fair2 True gate2 d' = (Inr out2, gate2', d2)"
  shows "distinct (map step_key (out @ out2))"
proof -
  note first = claim_spec [OF assms(1,2)]
  note second = claim_spec [OF claim_tables_ok [OF assms(1,2)] assms(3)]
  have "step_key st \<notin> step_key ` set out" if "st \<in> set out2" for st
  proof
    assume taken: "step_key st \<in> step_key ` set out"
    from second(3) that obtain row where row: "row \<in> set (jd_steps d')" "step_key st = row_key row" "due now2 row" by force
    then obtain row0 where "row0 \<in> set (jd_steps d)" and eq: "row = (if row_key row0 \<in> step_key ` set out then run_row_of now lease row0 else row0)"
      by (auto simp: first(4))
    then have "row_key row0 = row_key row" by (simp add: run_row_of_def row_key_def)
    then have "row = run_row_of now lease row0" using eq taken row(2) by simp
    then show False using row(3) by (simp add: due_def run_row_of_def)
  qed
  then have "k \<notin> set (map step_key out2)" if "k \<in> set (map step_key out)" for k
    using that by (metis (no_types, lifting) imageE list.set_map)
  then have "set (map step_key out) \<inter> set (map step_key out2) = {}" by blast
  then show ?thesis using first(2) second(2) by (simp only: map_append distinct_append)
qed

text \<open>A claim takes at most \<open>n\<close> steps, all due; it marks exactly those running in the next
  attempt, until the end of the lease, leaves the other steps alone, and holds a place of each resource
  of each step taken.\<close>

theorem claim_takes:
  assumes "tables_ok d" and "claim tick now n lease interactive fair True (Some g) d = (Inr out, gate', d')"
  shows "int (length out) \<le> max n 0 \<and>
     list_all (\<lambda>st. list_ex (\<lambda>row. due now row \<and> st = claimed now lease (scanStep row)) (jd_steps d)) out \<and>
     jd_steps d' = map (\<lambda>row. if list_ex (\<lambda>st. step_key st = row_key row) out then run_row_of now lease row else row) (jd_steps d) \<and>
     (\<exists>g'. gate' = Some g' \<and> (\<forall>r. places g' r = places g r + int (count_list (concat (map s_resources out)) r)))"
proof -
  have "(row_key row \<in> step_key ` set out) = list_ex (\<lambda>st. step_key st = row_key row) out" for row
    by (simp add: list_ex_iff image_iff) (metis)
  moreover have "list_all (\<lambda>st. list_ex (\<lambda>row. due now row \<and> st = claimed now lease (scanStep row)) (jd_steps d)) out"
    using claim_spec(3) [OF assms] by (auto simp: list_all_iff list_ex_iff)
  ultimately show ?thesis
    using claim_spec(1,4,6) [OF assms] gate_acquires_places [of tick g "map s_resources out" gate'] by simp
qed

lemma give_place_get: "fm_get 0 (give_place r' m) r = (if r' = r \<and> fm_get 0 m r > 0 then fm_get 0 m r - 1 else fm_get 0 m r)"
  by (auto simp: give_place_def Let_def)

lemma release_places:
  "int (count_list rs r) \<le> places g r \<Longrightarrow> places (the (Release rs (Some g))) r = places g r - int (count_list rs r)"
proof -
  have "int (count_list rs r) \<le> fm_get 0 m r \<Longrightarrow> fm_get 0 (fold give_place rs m) r = fm_get 0 m r - int (count_list rs r)" for m
    by (induction rs arbitrary: m) (simp_all add: give_place_get split: if_splits)
  then show "int (count_list rs r) \<le> places g r \<Longrightarrow> ?thesis" by (simp add: places_def Release_def)
qed

lemma release_all_places:
  "int (count_list (concat (map s_resources out)) r) \<le> places g r \<Longrightarrow>
     \<exists>g'. fold (\<lambda>st. Release (s_resources st)) out (Some g) = Some g' \<and>
       places g' r = places g r - int (count_list (concat (map s_resources out)) r)"
proof (induction out arbitrary: g)
  case (Cons st out)
  obtain g1 where g1: "Release (s_resources st) (Some g) = Some g1" by (simp add: Release_def)
  have "int (count_list (s_resources st) r) \<le> places g r" using Cons.prems by simp
  from release_places [OF this] have "places g1 r = places g r - int (count_list (s_resources st) r)" by (simp add: g1)
  with Cons.IH [of g1] Cons.prems show ?case by (auto simp: g1)
qed simp

text \<open>A claim the database refuses takes nothing: the tables are as they were and every place
  its steps had taken is given back.\<close>

theorem failed_claim_gives_back:
  assumes "tables_ok d" and "\<And>r. 0 \<le> places g r"
    and "claim tick now n lease interactive fair False (Some g) d = (res, gate', d')"
  shows "res = Inl ErrDatabase \<and> jd_steps d' = jd_steps d \<and> jd_runs d' = jd_runs d \<and> jd_tokens d' = jd_tokens d \<and>
     (\<exists>g'. gate' = Some g' \<and> (\<forall>r. places g' r = places g r))"
proof -
  obtain out0 gate0 d0 where p: "(if fair then let fs = pickFair tick now n interactive (Some g) d in (fs_out fs, fs_gate fs, d\<lparr>jd_served := fs_served fs, jd_turn := fs_turn fs\<rparr>)
            else case pickInOrder tick now n interactive (Some g) d of (out, gate') \<Rightarrow> (out, gate', d)) = (out0, gate0, d0)"
    by (rule prod_cases3)
  then have "jd_tokens d0 = jd_tokens d" by (auto simp: Let_def split: if_splits prod.splits)
  moreover have res: "res = Inl ErrDatabase" "gate' = fold (\<lambda>st. Release (s_resources st)) out0 gate0" "d' = d0"
    using assms(3) unfolding claim_def p by auto
  moreover obtain g0 where g0: "gate0 = Some g0" "\<And>r. places g0 r = places g r + int (count_list (concat (map s_resources out0)) r)"
    using picks [OF p] gate_acquires_places [of tick g "map s_resources out0" gate0] by (auto simp: picked_from_def)
  moreover have "\<exists>g'. gate' = Some g' \<and> places g' r = places g r" for r
    using release_all_places [of out0 r g0] g0 assms(2) [of r] by (simp add: res)
  ultimately show ?thesis using picks [OF p] by (metis option.inject)
qed

subsection \<open>A queue of two runs\<close>

definition sample_run :: "string \<Rightarrow> string \<Rightarrow> int \<Rightarrow> int \<Rightarrow> run" where
  "sample_run rid project prio created =
     \<lparr>r_id = rid, r_kind = ''pipeline'', r_ref = ''p/x.md'', r_project = project, r_trigger = [], r_status = Queued, r_input = [],
      r_spec = [], r_idem = [], r_actor = [], r_callback = [], r_resume = [], r_priority = prio, r_category = [], r_task = [],
      r_team = [], r_error = [], r_created = created, r_started = 0, r_finished = 0\<rparr>"

definition sample_row :: "string \<Rightarrow> string \<Rightarrow> int \<Rightarrow> status \<Rightarrow> string \<Rightarrow> step_row" where
  "sample_row rid name pos st res =
     \<lparr>sr_run = rid, sr_name = name, sr_pos = pos, sr_deps = [], sr_status = st, sr_attempt = 0, sr_output = [], sr_error = [],
      sr_started = 0, sr_finished = 0, sr_not_before = 0, sr_lease_until = 0, sr_wait_until = 0, sr_resources = res,
      sr_queued_at = 0, sr_cost = 0, sr_tokens = 0\<rparr>"

definition sample_jobs :: jobs where
  "sample_jobs = open_jobs\<lparr>
     jd_runs := [sample_run ''a'' ''p'' 0 20, sample_run ''b'' ''q'' 0 10],
     jd_steps := [sample_row ''a'' ''one'' 0 Queued ''gpu'', sample_row ''a'' ''two'' 1 Queued [], sample_row ''b'' ''one'' 0 Queued ''gpu'']\<rparr>"

definition sample_gate :: gate where
  "sample_gate = NewGate (\<lambda>t r. if r = ''gpu'' then 1 else 0)"

definition epoch :: time where "epoch = 62135596800000000000"

lemmas sample_defs = sample_run_def sample_row_def sample_jobs_def open_jobs_def

lemma sample_ok: "tables_ok sample_jobs"
  by (simp add: tables_ok_def sample_defs)

lemma sample_queue: "queue_rows epoch interactive sample_jobs =
    (if interactive then [] else
     [(sample_row ''b'' ''one'' 0 Queued ''gpu'', sample_run ''b'' ''q'' 0 10), (sample_row ''a'' ''one'' 0 Queued ''gpu'', sample_run ''a'' ''p'' 0 20),
      (sample_row ''a'' ''two'' 1 Queued [], sample_run ''a'' ''p'' 0 20)])"
  by (simp add: queue_rows_def ready_rows_def joined_def sample_defs queue_key_def less_eq_prod_def ms_def epoch_def PriorityInteractive_def)

lemma Ahead_exact_witness:
  "\<exists>k. Ahead (scanRun (sample_run ''a'' ''p'' 0 20)) ''two'' epoch sample_jobs = Inr k \<and>
     (\<forall>n. list_ex (\<lambda>st. s_run st = ''a'' \<and> s_name st = ''two'') (fst (pickInOrder 5 epoch n False None sample_jobs)) = (k < n))"
  using Ahead_exact [OF sample_ok, of "sample_row ''a'' ''two'' 1 Queued []" "sample_run ''a'' ''p'' 0 20" epoch 5]
  by (simp add: sample_defs ms_def epoch_def)

text \<open>With one place for the resource, the first step of the older run goes, and the step without resources.\<close>

lemma sample_claim:
  "\<exists>gate' d'. claim 5 epoch 2 minute False False True (Some sample_gate) sample_jobs =
     (Inr [claimed epoch minute (scanStep (sample_row ''b'' ''one'' 0 Queued ''gpu'')),
           claimed epoch minute (scanStep (sample_row ''a'' ''two'' 1 Queued []))], gate', d')"
  by (simp add: claim_def pickInOrder_def sample_queue Let_def skipFull_def TryTake_def Full_def sample_gate_def NewGate_def
      limitLocked_def fresh_limit_def places_def take_places_def gateLimitTTL_def scanStep_def split_names_def sample_row_def)

lemma claim_exclusive_witness:
  "\<exists>a b. list_all (\<lambda>sts. distinct (map step_key sts)) [a @ b] \<and> length a = 2"
proof -
  obtain g d a where c: "claim 5 epoch 2 minute False False True (Some sample_gate) sample_jobs = (Inr a, g, d)" and a: "length a = 2"
    using sample_claim by fastforce
  obtain b g2 d2 where c2: "claim 6 epoch 2 minute False True True g d = (Inr b, g2, d2)"
    by (auto simp: claim_def Let_def)
  show ?thesis using claim_exclusive [OF sample_ok c c2] a by auto
qed

lemma claim_takes_witness:
  "\<exists>out g' d'. claim 5 epoch 2 minute False False True (Some sample_gate) sample_jobs = (Inr out, Some g', d') \<and>
     length out = 2 \<and> places g' ''gpu'' = 1 \<and> map sr_status (jd_steps d') = [Queued, Running, Running]"
proof -
  obtain gate' d' where c: "claim 5 epoch 2 minute False False True (Some sample_gate) sample_jobs =
     (Inr [claimed epoch minute (scanStep (sample_row ''b'' ''one'' 0 Queued ''gpu'')),
           claimed epoch minute (scanStep (sample_row ''a'' ''two'' 1 Queued []))], gate', d')"
    using sample_claim by blast
  from claim_takes [OF sample_ok c] obtain g' where g': "gate' = Some g'"
    and pl: "\<And>r. places g' r = places sample_gate r + int (count_list [''gpu''] r)"
    and st: "jd_steps d' = map (\<lambda>row. if list_ex (\<lambda>st. step_key st = row_key row)
       [claimed epoch minute (scanStep (sample_row ''b'' ''one'' 0 Queued ''gpu'')),
        claimed epoch minute (scanStep (sample_row ''a'' ''two'' 1 Queued []))] then run_row_of epoch minute row else row) (jd_steps sample_jobs)"
    by (auto simp: claimed_def scanStep_def split_names_def sample_row_def)
  have "places g' ''gpu'' = 1" using pl [of "''gpu''"] by (simp add: sample_gate_def NewGate_def places_def)
  moreover have "map sr_status (jd_steps d') = [Queued, Running, Running]"
    by (simp add: st sample_defs row_key_def run_row_of_def)
  ultimately show ?thesis using c g' by simp
qed

lemma failed_claim_gives_back_witness:
  "\<exists>res g' d'. claim 5 epoch 2 minute False False False (Some sample_gate) sample_jobs = (res, Some g', d') \<and>
     jd_steps d' = jd_steps sample_jobs \<and> places g' ''gpu'' = 0"
proof -
  obtain res gate' d' where c: "claim 5 epoch 2 minute False False False (Some sample_gate) sample_jobs = (res, gate', d')"
    by (rule prod_cases3)
  have "places sample_gate r = 0" for r by (simp add: sample_gate_def NewGate_def places_def)
  with failed_claim_gives_back [OF sample_ok _ c] c show ?thesis by auto
qed

end
