(* ===== verification/JobFair.thy ===== *)
theory JobFair
  imports JobClaim
begin

text \<open>
  The fairness of the claim in turn: while a project has steps left in the queue, no other project
  of the same priority gets more than one step ahead of it, and no lower priority gets any.
\<close>

subsection \<open>The project whose turn it is\<close>

lemma best_of_from:
  "b \<noteq> [] \<Longrightarrow> [] \<notin> fst ` set qs \<Longrightarrow> m = best_of load served b qs \<Longrightarrow>
     m \<noteq> [] \<and> (m = b \<or> (\<exists>q. (m, q) \<in> set qs \<and> q \<noteq> [])) \<and> load m \<le> load b \<and>
     (\<forall>p q. (p, q) \<in> set qs \<longrightarrow> q \<noteq> [] \<longrightarrow> load m \<le> load p)"
proof (induction load served b qs rule: best_of.induct)
  case (2 load served b p q qs)
  have p: "p \<noteq> []" and rest: "[] \<notin> fst ` set qs" using "2.prems"(2) by auto
  show ?case
  proof (cases "q = []")
    case True
    with "2.IH"(1) [OF True "2.prems"(1) rest] "2.prems"(3) show ?thesis by auto
  next
    case q: False
    show ?thesis
    proof (cases "b = [] \<or> load p < load b \<or> (load p = load b \<and> served p < served b)")
      case True
      with "2.IH"(2) [OF q True p rest] "2.prems" q show ?thesis by fastforce
    next
      case False
      with "2.IH"(3) [OF q False "2.prems"(1) rest] "2.prems" q show ?thesis by fastforce
    qed
  qed
qed simp

lemma best_of_spec:
  assumes "[] \<notin> fst ` set qs" and "m = best_of load served [] qs"
  shows "(m = [] \<and> (\<forall>p q. (p, q) \<in> set qs \<longrightarrow> q = [])) \<or>
     (m \<noteq> [] \<and> (\<exists>q. (m, q) \<in> set qs \<and> q \<noteq> []) \<and> (\<forall>p q. (p, q) \<in> set qs \<longrightarrow> q \<noteq> [] \<longrightarrow> load m \<le> load p))"
  using assms
proof (induction qs)
  case (Cons x qs)
  obtain p q where x: "x = (p, q)" by (rule prod.exhaust)
  show ?case
  proof (cases "q = []")
    case True
    with Cons show ?thesis by (auto simp: x)
  next
    case False
    have "p \<noteq> []" and "[] \<notin> fst ` set qs" using Cons.prems(1) by (auto simp: x)
    from best_of_from [OF this refl, of load served]
    have m: "m \<noteq> []" "m = p \<or> (\<exists>q. (m, q) \<in> set qs \<and> q \<noteq> [])" "load m \<le> load p"
      "\<forall>p q. (p, q) \<in> set qs \<longrightarrow> q \<noteq> [] \<longrightarrow> load m \<le> load p"
      using Cons.prems(2) False by (simp_all add: x)
    from m(2) have "\<exists>q. (m, q) \<in> set (x # qs) \<and> q \<noteq> []"
    proof
      assume "m = p"
      then show ?thesis using False x by (intro exI [of _ q]) simp
    qed auto
    with m(1,3,4) show ?thesis by (auto simp: x)
  qed
qed simp

lemma find_queue:
  "distinct (map fst qs) \<Longrightarrow> (p, q) \<in> set qs \<Longrightarrow> q \<noteq> [] \<Longrightarrow> find (queue_of p) qs = Some (p, q)"
  by (induction qs) (auto simp: image_iff)

lemma update_queue:
  "distinct (map fst qs) \<Longrightarrow> find (queue_of p) qs = Some (p, q) \<Longrightarrow>
     map_of (update_first (queue_of p) (\<lambda>(p, _). (p, left)) qs) = (map_of qs)(p \<mapsto> left) \<and>
     map fst (update_first (queue_of p) (\<lambda>(p, _). (p, left)) qs) = map fst qs"
proof (induction qs)
  case (Cons x qs)
  obtain p' q' where x: "x = (p', q')" by (rule prod.exhaust)
  show ?case
  proof (cases "p' = p \<and> q' \<noteq> []")
    case False
    then have f: "find (queue_of p) qs = Some (p, q)" using Cons.prems(2) by (auto simp: x)
    then have "(p, q) \<in> set qs" by (auto dest: find_Some_iff')
    then have "p' \<noteq> p" using Cons.prems(1) by (auto simp: x image_iff)
    with Cons f False show ?thesis by (auto simp: x fun_upd_twist)
  qed (auto simp: x)
qed simp

subsection \<open>The gate during a claim\<close>

text \<open>A step is blocked when a resource of it has no place left. What a claim takes only adds to what is blocked.\<close>

definition blocked :: "time \<Rightarrow> string list \<Rightarrow> gate option \<Rightarrow> bool" where
  "blocked tick rs gate = (case gate of None \<Rightarrow> False | Some g \<Rightarrow> list_ex (is_full tick g) rs)"

definition gate_grows :: "time \<Rightarrow> gate option \<Rightarrow> gate option \<Rightarrow> bool" where
  "gate_grows tick g g' \<longleftrightarrow> (\<forall>rs. blocked tick rs g \<longrightarrow> blocked tick rs g')"

lemma gate_grows_refl [simp]: "gate_grows tick g g"
  by (simp add: gate_grows_def)

lemma gate_grows_trans: "gate_grows tick g1 g2 \<Longrightarrow> gate_grows tick g2 g3 \<Longrightarrow> gate_grows tick g1 g3"
  by (simp add: gate_grows_def)

lemma gate_growsD: "gate_grows tick g g' \<Longrightarrow> blocked tick rs g \<Longrightarrow> blocked tick rs g'"
  by (simp add: gate_grows_def)

lemma TryTake_blocked:
  assumes "TryTake tick rs gate = (ok, gate')"
  shows "gate_grows tick gate gate'" "\<not> ok \<Longrightarrow> blocked tick rs gate'"
proof -
  have "gate_grows tick gate gate' \<and> (\<not> ok \<longrightarrow> blocked tick rs gate')"
  proof (cases gate)
    case None
    with assms show ?thesis by (auto simp: TryTake_def)
  next
    case (Some g)
    with assms have t: "TryTake tick rs (Some g) = (ok, gate')" by simp
    obtain g' where g': "gate' = Some g'" using TryTake_places [OF t] by blast
    have keeps: "known_limit tick g' r = known_limit tick g r" "places g r \<le> places g' r" for r
      using TryTake_places [OF t, of r] g' by auto
    have full: "is_full tick g r \<Longrightarrow> is_full tick g' r" for r
      using keeps(1) [of r] keeps(2) [of r] unfolding is_full_def by linarith
    have "\<exists>r\<in>set rs. is_full tick g r" if "\<not> ok"
    proof -
      have "rs \<noteq> []" using t that by (auto simp: TryTake_def)
      then have "fst (fullLocked tick rs g) \<noteq> []" using t that by (auto simp: TryTake_Some split: if_splits)
      then show ?thesis by (auto simp: fullLocked_first dest: find_Some_iff' split: option.splits)
    qed
    with full show ?thesis by (auto simp: gate_grows_def blocked_def Some g' list_ex_iff)
  qed
  then show "gate_grows tick gate gate'" "\<not> ok \<Longrightarrow> blocked tick rs gate'" by blast+
qed

lemma give_next_spec:
  assumes "give_next tick q gate = (got, left, gate')"
  shows "\<exists>refused. q = refused @ (case got of None \<Rightarrow> [] | Some st \<Rightarrow> st # left) \<and> (got = None \<longrightarrow> left = []) \<and>
     (\<forall>st\<in>set refused. blocked tick (s_resources st) gate') \<and> gate_grows tick gate gate'"
  using assms
proof (induction tick q gate rule: give_next.induct)
  case (2 tick st sts gate)
  obtain ok g where t: "TryTake tick (s_resources st) gate = (ok, g)" by (rule prod.exhaust)
  note now = TryTake_blocked [OF t]
  show ?case
  proof (cases ok)
    case True
    with 2 t now show ?thesis by (intro exI [of _ "[]"]) auto
  next
    case False
    with 2 t have "give_next tick sts g = (got, left, gate')" by simp
    from "2.IH" [OF t [symmetric] False this]
    obtain refused where r: "sts = refused @ (case got of None \<Rightarrow> [] | Some st \<Rightarrow> st # left)" "got = None \<longrightarrow> left = []"
      "\<forall>st\<in>set refused. blocked tick (s_resources st) gate'" "gate_grows tick g gate'" by blast
    have "blocked tick (s_resources st) gate'" using gate_growsD [OF r(4) now(2) [OF False]] .
    moreover have "gate_grows tick gate gate'" by (rule gate_grows_trans [OF now(1) r(4)])
    ultimately show ?thesis using r(1-3) by (intro exI [of _ "st # refused"]) simp
  qed
qed simp

subsection \<open>The turns of one priority\<close>

text \<open>
  What the turns of a priority do to its queues: every queue loses a prefix, each step of which was taken or is blocked, and
  what a project that got a step has under way is at most one more than what a project with steps left has.
\<close>

definition gone :: "time \<Rightarrow> fair_state \<Rightarrow> step \<Rightarrow> bool" where
  "gone tick fs st \<longleftrightarrow> st \<in> set (fs_out fs) \<or> blocked tick (s_resources st) (fs_gate fs)"

definition fair_run :: "time \<Rightarrow> (string \<Rightarrow> int) \<Rightarrow> int \<Rightarrow> fair_state \<Rightarrow> queues \<Rightarrow> fair_state \<Rightarrow> queues \<Rightarrow> bool" where
  "fair_run tick running n fs qs fs' qs' \<longleftrightarrow>
     (\<exists>new. fs_out fs' = fs_out fs @ new \<and>
        (\<forall>st\<in>set new. \<exists>p q. map_of qs p = Some q \<and> st \<in> set q \<and> fm_get 0 (fs_picked fs) p < fm_get 0 (fs_picked fs') p)) \<and>
     (\<forall>p. fm_get 0 (fs_picked fs) p \<le> fm_get 0 (fs_picked fs') p) \<and>
     (\<forall>p q. map_of qs p = Some q \<longrightarrow> (\<exists>tk left. map_of qs' p = Some left \<and> q = tk @ left \<and> (\<forall>st\<in>set tk. gone tick fs' st))) \<and>
     (\<forall>p p' left. fm_get 0 (fs_picked fs) p < fm_get 0 (fs_picked fs') p \<longrightarrow> map_of qs' p' = Some left \<longrightarrow> left \<noteq> [] \<longrightarrow>
        load_of running fs' p \<le> load_of running fs' p' + 1) \<and>
     (n \<le> int (length (fs_out fs')) \<or> (\<forall>p left. map_of qs' p = Some left \<longrightarrow> left = [])) \<and>
     gate_grows tick (fs_gate fs) (fs_gate fs') \<and> dom (map_of qs') = dom (map_of qs)"

lemma fair_runD:
  assumes "fair_run tick running n fs qs fs' qs'"
  shows "\<exists>new. fs_out fs' = fs_out fs @ new \<and>
        (\<forall>st\<in>set new. \<exists>p q. map_of qs p = Some q \<and> st \<in> set q \<and> fm_get 0 (fs_picked fs) p < fm_get 0 (fs_picked fs') p)"
    and "map_of qs p = Some q \<Longrightarrow> \<exists>tk left. map_of qs' p = Some left \<and> q = tk @ left \<and> (\<forall>st\<in>set tk. gone tick fs' st)"
    and "fm_get 0 (fs_picked fs) p < fm_get 0 (fs_picked fs') p \<Longrightarrow> map_of qs' p' = Some left \<Longrightarrow> left \<noteq> [] \<Longrightarrow>
        load_of running fs' p \<le> load_of running fs' p' + 1"
    and "map_of qs' p = Some left \<Longrightarrow> left \<noteq> [] \<Longrightarrow> n \<le> int (length (fs_out fs'))"
    and "gate_grows tick (fs_gate fs) (fs_gate fs')"
  using assms unfolding fair_run_def by simp_all blast

lemma fair_run_stop:
  assumes "n \<le> int (length (fs_out fs)) \<or> (\<forall>p q. map_of qs p = Some q \<longrightarrow> q = [])"
  shows "fair_run tick running n fs qs fs qs"
  using assms by (auto simp: fair_run_def)

lemma fair_run_gone: "fair_run tick running n fs qs fs' qs' \<Longrightarrow> gone tick fs st \<Longrightarrow> gone tick fs' st"
  unfolding fair_run_def gone_def by (auto dest: gate_growsD)

text \<open>A turn: the steps of the project before the one it gets, or all of them when it gets none, are blocked.\<close>

lemma fair_run_turn:
  assumes best: "map_of qs p = Some q" "q \<noteq> []"
    and least: "\<And>p' q'. map_of qs p' = Some q' \<Longrightarrow> q' \<noteq> [] \<Longrightarrow> load_of running fs p \<le> load_of running fs p'"
    and got: "give_next tick q (fs_gate fs) = (got, left, g)" and qs1: "map_of qs1 = (map_of qs)(p \<mapsto> left)"
    and fs1: "fs1 = (case got of None \<Rightarrow> fs | Some st \<Rightarrow> serve p st fs)\<lparr>fs_gate := g\<rparr>"
    and rest: "fair_run tick running n fs1 qs1 fs' qs'"
  shows "fair_run tick running n fs qs fs' qs'"
proof -
  obtain refused where refused: "q = refused @ (case got of None \<Rightarrow> [] | Some st \<Rightarrow> st # left)" "got = None \<Longrightarrow> left = []"
    "\<And>st. st \<in> set refused \<Longrightarrow> blocked tick (s_resources st) g" "gate_grows tick (fs_gate fs) g"
    using give_next_spec [OF got] by auto
  define took where "took = (case got of None \<Rightarrow> [] | Some st \<Rightarrow> [st])"
  have q: "q = (refused @ took) @ left" using refused(1,2) by (auto simp: took_def split: option.splits)
  have p1: "fm_get 0 (fs_picked fs1) p' = fm_get 0 (fs_picked fs) p' + (if p' = p then int (length took) else 0)" for p'
    by (auto simp: fs1 serve_def took_def split: option.splits)
  have few: "length took \<le> 1" by (simp add: took_def split: option.splits)
  have out1: "fs_out fs1 = fs_out fs @ took" and gate1: "fs_gate fs1 = g" by (auto simp: fs1 serve_def took_def split: option.splits)
  have mono: "fm_get 0 (fs_picked fs1) p' \<le> fm_get 0 (fs_picked fs') p'" for p' using rest by (simp add: fair_run_def)
  have grow: "fm_get 0 (fs_picked fs) p' \<le> fm_get 0 (fs_picked fs') p'" for p' using mono [of p'] p1 [of p'] by (simp split: if_splits)
  obtain new where new: "fs_out fs' = fs_out fs1 @ new"
    "\<And>st. st \<in> set new \<Longrightarrow> \<exists>p q. map_of qs1 p = Some q \<and> st \<in> set q \<and> fm_get 0 (fs_picked fs1) p < fm_get 0 (fs_picked fs') p"
    using rest by (auto simp: fair_run_def)
  have out: "fs_out fs' = fs_out fs @ took @ new" using new(1) out1 by simp
  have dom: "dom (map_of qs') = dom (map_of qs)" using rest qs1 best by (auto simp: fair_run_def)
  have news: "\<exists>p q. map_of qs p = Some q \<and> st' \<in> set q \<and> fm_get 0 (fs_picked fs) p < fm_get 0 (fs_picked fs') p" if mem: "st' \<in> set (took @ new)" for st'
  proof (cases "st' \<in> set took")
    case True
    then have "0 < length took" by (rule length_pos_if_in_set)
    moreover have "fm_get 0 (fs_picked fs) p + int (length took) \<le> fm_get 0 (fs_picked fs') p" using mono [of p] p1 [of p] by simp
    ultimately have "fm_get 0 (fs_picked fs) p < fm_get 0 (fs_picked fs') p" by linarith
    then show ?thesis using best True q by (intro exI [of _ p]) simp
  next
    case False
    then obtain p' q' where p': "map_of qs1 p' = Some q'" "st' \<in> set q'" "fm_get 0 (fs_picked fs1) p' < fm_get 0 (fs_picked fs') p'"
      using mem new(2) [of st'] by auto
    have "fm_get 0 (fs_picked fs) p' < fm_get 0 (fs_picked fs') p'" using p'(3) p1 [of p'] by (simp split: if_splits)
    then show ?thesis using p' best qs1 q
      by (cases "p' = p") (auto intro: exI [of _ p] exI [of _ p'])
  qed
  have restp: "\<exists>tk left. map_of qs' p' = Some left \<and> q' = tk @ left \<and> (\<forall>st\<in>set tk. gone tick fs' st)" if "map_of qs1 p' = Some q'" for p' q'
    using rest that unfolding fair_run_def by blast
  have first: "gone tick fs' st" if "st \<in> set (refused @ took)" for st
    by (rule fair_run_gone [OF rest]) (use that refused(3) out1 gate1 in \<open>auto simp: gone_def\<close>)
  have parts: "\<exists>tk left. map_of qs' p' = Some left \<and> q' = tk @ left \<and> (\<forall>st\<in>set tk. gone tick fs' st)" if "map_of qs p' = Some q'" for p' q'
  proof (cases "p' = p")
    case True
    obtain tk l where "map_of qs' p = Some l" "left = tk @ l" "\<forall>st\<in>set tk. gone tick fs' st"
      using restp [of p left] qs1 by auto
    then show ?thesis using that True best q first by (intro exI [of _ "(refused @ took) @ tk"] exI [of _ l]) auto
  next
    case False
    then show ?thesis using restp [of p' q'] qs1 that by simp
  qed
  have fair: "load_of running fs' p1 \<le> load_of running fs' p2 + 1"
    if "fm_get 0 (fs_picked fs) p1 < fm_get 0 (fs_picked fs') p1" "map_of qs' p2 = Some l" "l \<noteq> []" for p1 p2 l
  proof (cases "fm_get 0 (fs_picked fs1) p1 < fm_get 0 (fs_picked fs') p1")
    case True
    then show ?thesis using rest that unfolding fair_run_def by blast
  next
    case False
    then have "p1 = p" and last: "fm_get 0 (fs_picked fs') p \<le> fm_get 0 (fs_picked fs) p + 1"
      using that(1) p1 [of p1] mono [of p1] few by (auto split: if_splits)
    have "p2 \<in> dom (map_of qs)" using that(2) dom by blast
    then obtain q2 where q2: "map_of qs p2 = Some q2" by blast
    with parts [OF this] that(2,3) have "q2 \<noteq> []" by auto
    from least [OF q2 this] have "load_of running fs p \<le> load_of running fs p2" .
    moreover have "load_of running fs' p \<le> load_of running fs p + 1" using last by (simp add: load_of_def)
    moreover have "load_of running fs p2 \<le> load_of running fs' p2" using grow [of p2] by (simp add: load_of_def)
    ultimately show ?thesis using \<open>p1 = p\<close> by simp
  qed
  have "n \<le> int (length (fs_out fs')) \<or> (\<forall>p left. map_of qs' p = Some left \<longrightarrow> left = [])"
    and "gate_grows tick (fs_gate fs) (fs_gate fs')"
    using rest refused(4) gate1 gate_grows_trans by (auto simp: fair_run_def)
  then show ?thesis unfolding fair_run_def using out news parts fair grow dom by blast
qed

lemma fair_level_runs:
  "fair_level tick n running (fs, qs) = (fs', qs') \<Longrightarrow> distinct (map fst qs) \<Longrightarrow> [] \<notin> fst ` set qs \<Longrightarrow>
     fair_run tick running n fs qs fs' qs'"
proof (induction tick n running "(fs, qs)" arbitrary: fs qs fs' qs' rule: fair_level.induct)
  case (1 tick n running fs qs)
  let ?best = "best_turn running fs qs"
  note spec = best_of_spec [OF "1.prems"(3) refl, of "load_of running fs" "fm_get 0 (fs_served fs)"]
  have none: "\<forall>p q. map_of qs p = Some q \<longrightarrow> q = []" if "?best = [] \<or> find (queue_of ?best) qs = None"
    using spec
  proof
    assume "?best = [] \<and> (\<forall>p q. (p, q) \<in> set qs \<longrightarrow> q = [])"
    then show ?thesis by (auto dest: map_of_SomeD)
  next
    assume "?best \<noteq> [] \<and> (\<exists>q. (?best, q) \<in> set qs \<and> q \<noteq> []) \<and> (\<forall>p q. (p, q) \<in> set qs \<longrightarrow> q \<noteq> [] \<longrightarrow> load_of running fs ?best \<le> load_of running fs p)"
    then obtain q where "(?best, q) \<in> set qs" "q \<noteq> []" "?best \<noteq> []" by blast
    then show ?thesis using find_queue [OF "1.prems"(2), of ?best q] that by simp
  qed
  show ?case
  proof (cases "int (length (fs_out fs)) \<ge> n \<or> ?best = [] \<or> find (queue_of ?best) qs = None")
    case True
    then have "fs' = fs" "qs' = qs" using "1.prems"(1) by (simp_all add: fair_level_stop)
    then show ?thesis using True none by (auto intro: fair_run_stop)
  next
    case False
    then have room: "\<not> n \<le> int (length (fs_out fs))" and best: "\<not> (?best = [] \<or> find (queue_of ?best) qs = None)" by auto
    obtain q where q: "(?best, q) \<in> set qs" "q \<noteq> []" and least: "\<forall>p q. (p, q) \<in> set qs \<longrightarrow> q \<noteq> [] \<longrightarrow> load_of running fs ?best \<le> load_of running fs p"
      using spec best by auto
    note found = find_queue [OF "1.prems"(2) q]
    obtain got left g where got: "give_next tick q (fs_gate fs) = (got, left, g)" by (metis prod.exhaust)
    obtain fs1 qs1 where t: "fair_turn tick ?best fs qs = (fs1, qs1)" by (rule prod.exhaust)
    then have fs1: "fs1 = (case got of None \<Rightarrow> fs | Some st \<Rightarrow> serve ?best st fs)\<lparr>fs_gate := g\<rparr>"
      and qs1: "qs1 = update_first (queue_of ?best) (\<lambda>(p, _). (p, left)) qs"
      using found by (auto simp: fair_turn_def got)
    note upd = update_queue [OF "1.prems"(2) found, of left]
    have keys: "distinct (map fst qs1)" "[] \<notin> fst ` set qs1"
      using upd "1.prems"(2,3) by (simp_all add: qs1) (metis list.set_map)
    have "fair_level tick n running (fs1, qs1) = (fs', qs')"
      using "1.prems"(1) fair_level_step [OF room best] by (simp add: t)
    from "1.hyps" [OF room refl best t this keys] have rest: "fair_run tick running n fs1 qs1 fs' qs'" .
    show ?thesis
    proof (rule fair_run_turn [OF _ q(2) _ got _ fs1 rest])
      show "map_of qs ?best = Some q" using q "1.prems"(2) by simp
      show "map_of qs1 = (map_of qs)(?best \<mapsto> left)" using upd by (simp add: qs1)
      show "load_of running fs ?best \<le> load_of running fs p'" if "map_of qs p' = Some q''" "q'' \<noteq> []" for p' q''
        using least that by (auto dest: map_of_SomeD)
    qed
  qed
qed

subsection \<open>The turns of all priorities\<close>

abbreviation prio_of :: "step_row \<times> run \<Rightarrow> int" where "prio_of x \<equiv> r_priority (snd x)"
abbreviation proj_of :: "step_row \<times> run \<Rightarrow> string" where "proj_of x \<equiv> r_project (snd x)"
abbreviation scan_of :: "step_row \<times> run \<Rightarrow> step" where "scan_of x \<equiv> scanStep (fst x)"

lemma map_of_queues:
  "map_of (queues_at prio rows) p =
     (if p \<in> proj_of ` {x \<in> set rows. prio_of x = prio}
      then Some (map scan_of (filter (\<lambda>x. proj_of x = p) (filter (\<lambda>x. prio_of x = prio) rows))) else None)"
proof -
  have "map_of (map (\<lambda>p. (p, f p)) ps) p = (if p \<in> set ps then Some (f p) else None)" for ps and f :: "string \<Rightarrow> step list"
    by (induction ps) auto
  then show ?thesis by (simp add: queues_at_def Let_def comp_def)
qed

lemma queues_keys: "map fst (queues_at prio rows) = in_order_seen (map (r_project \<circ> snd) (filter (\<lambda>x. prio_of x = prio) rows))"
  by (simp add: queues_at_def Let_def comp_def)

lemma level_full: "n \<le> int (length (fs_out fs)) \<Longrightarrow> fst (fair_level tick n running (fs, qs)) = fs"
  by (simp add: fair_level_stop)

lemma levels_full:
  "n \<le> int (length (fs_out fs)) \<Longrightarrow> fold (\<lambda>prio fs. fst (fair_level tick n running (fs, queues_at prio rows))) prios fs = fs"
  by (induction prios) (simp_all add: level_full)

text \<open>A row left over by the turns of a list of priorities, in decreasing order.\<close>

definition left_over :: "time \<Rightarrow> (string \<Rightarrow> int) \<Rightarrow> int \<Rightarrow> (step_row \<times> run) list \<Rightarrow> fair_state \<Rightarrow> step list \<Rightarrow> step_row \<times> run \<Rightarrow> bool" where
  "left_over tick running n rows fs' new x \<longleftrightarrow> blocked tick (s_resources (scan_of x)) (fs_gate fs') \<or>
     n \<le> int (length (fs_out fs')) \<and>
     (\<forall>y\<in>set rows. scan_of y \<in> set new \<longrightarrow> prio_of x \<le> prio_of y \<and>
        (prio_of y = prio_of x \<longrightarrow> load_of running fs' (proj_of y) \<le> load_of running fs' (proj_of x) + 1))"

lemma levels_fair:
  assumes "sorted_wrt (>) prios" and "inj_on scan_of (set rows)"
    and "\<forall>x\<in>set rows. proj_of x \<noteq> []"
    and "fs' = fold (\<lambda>prio fs. fst (fair_level tick n running (fs, queues_at prio rows))) prios fs"
  shows "\<exists>new. fs_out fs' = fs_out fs @ new \<and> (\<forall>st\<in>set new. \<exists>y\<in>set rows. st = scan_of y \<and> prio_of y \<in> set prios) \<and>
     (\<forall>x\<in>set rows. prio_of x \<in> set prios \<longrightarrow> scan_of x \<notin> set (fs_out fs') \<longrightarrow> left_over tick running n rows fs' new x) \<and>
     gate_grows tick (fs_gate fs) (fs_gate fs')"
  using assms(1,4)
proof (induction prios arbitrary: fs)
  case (Cons lv prios)
  let ?qs = "queues_at lv rows"
  obtain fs1 qs1 where l: "fair_level tick n running (fs, ?qs) = (fs1, qs1)" by (rule prod.exhaust)
  have "set (map fst ?qs) \<subseteq> proj_of ` set rows" unfolding queues_keys by auto
  then have "[] \<notin> set (map fst ?qs)" using assms(3) by fastforce
  then have "[] \<notin> fst ` set ?qs" unfolding list.set_map .
  moreover have "distinct (map fst ?qs)" by (simp add: queues_keys)
  ultimately have keys: "distinct (map fst ?qs)" "[] \<notin> fst ` set ?qs" by blast+
  note level = fair_level_runs [OF l keys]
  have in_level: "y \<in> set rows \<and> prio_of y = lv \<and> proj_of y = p" if y: "map_of ?qs p = Some q" "scan_of y \<in> set q" "y \<in> set rows" for p q y
  proof -
    obtain z where z: "z \<in> set rows" "prio_of z = lv" "proj_of z = p" "scan_of y = scan_of z"
      using y(1,2) by (auto simp: map_of_queues split: if_splits)
    then have "y = z" using assms(2) y(3) by (auto dest: inj_onD)
    then show ?thesis using z by simp
  qed
  obtain new1 where new1: "fs_out fs1 = fs_out fs @ new1"
    "\<And>st. st \<in> set new1 \<Longrightarrow> \<exists>p q. map_of ?qs p = Some q \<and> st \<in> set q \<and> fm_get 0 (fs_picked fs) p < fm_get 0 (fs_picked fs1) p"
    using fair_runD(1) [OF level] by blast
  have from_level: "\<exists>y\<in>set rows. st = scan_of y \<and> prio_of y = lv" if "st \<in> set new1" for st
    using new1(2) [OF that] by (auto simp: map_of_queues split: if_splits)
  have fs': "fs' = fold (\<lambda>prio fs. fst (fair_level tick n running (fs, queues_at prio rows))) prios fs1" using Cons.prems(2) by (simp add: l)
  obtain new where new: "fs_out fs' = fs_out fs1 @ new" "\<And>st. st \<in> set new \<Longrightarrow> \<exists>y\<in>set rows. st = scan_of y \<and> prio_of y \<in> set prios"
    "\<And>x. x \<in> set rows \<Longrightarrow> prio_of x \<in> set prios \<Longrightarrow> scan_of x \<notin> set (fs_out fs') \<Longrightarrow> left_over tick running n rows fs' new x"
    and gate: "gate_grows tick (fs_gate fs1) (fs_gate fs')"
    using Cons.IH [OF _ fs'] Cons.prems(1) by auto
  have level_of_row: "prio_of y = lv" if "y \<in> set rows" "scan_of y \<in> set new1" for y
    using from_level [OF that(2)] that(1) assms(2) by (auto dest: inj_onD)
  have "left_over tick running n rows fs' (new1 @ new) x"
    if x: "x \<in> set rows" "prio_of x \<in> set (lv # prios)" "scan_of x \<notin> set (fs_out fs')" for x
  proof (cases "prio_of x = lv")
    case True
    let ?q = "map scan_of (filter (\<lambda>y. proj_of y = proj_of x) (filter (\<lambda>y. prio_of y = lv) rows))"
    have "map_of ?qs (proj_of x) = Some ?q" using x(1) True by (auto simp: map_of_queues)
    then obtain tk left where q: "map_of qs1 (proj_of x) = Some left" "?q = tk @ left" "\<forall>st\<in>set tk. gone tick fs1 st"
      using fair_runD(2) [OF level] by blast
    have inq: "scan_of x \<in> set ?q" using x(1) True by auto
    show ?thesis
    proof (cases "blocked tick (s_resources (scan_of x)) (fs_gate fs')")
      case blocked: True
      then show ?thesis by (simp add: left_over_def)
    next
      case free: False
    have "\<not> gone tick fs1 (scan_of x)" using x(3) new(1) free gate gate_growsD by (auto simp: gone_def)
    then have "scan_of x \<in> set left" using q inq unfolding q(2) by auto
    then have left: "left \<noteq> []" by auto
    then have full: "n \<le> int (length (fs_out fs1))" using fair_runD(4) [OF level q(1)] by simp
    then have same: "fs' = fs1" by (simp add: fs' levels_full)
    then have "new = []" using new(1) by simp
    have "load_of running fs1 (proj_of y) \<le> load_of running fs1 (proj_of x) + 1 \<and> prio_of y = lv"
      if y: "y \<in> set rows" "scan_of y \<in> set new1" for y
    proof -
      obtain p q where p: "map_of ?qs p = Some q" "scan_of y \<in> set q" "fm_get 0 (fs_picked fs) p < fm_get 0 (fs_picked fs1) p"
        using new1(2) [OF y(2)] by blast
      then have "proj_of y = p" "prio_of y = lv" using in_level y(1) by auto
      then show ?thesis using fair_runD(3) [OF level p(3) q(1) left] by simp
    qed
    then show ?thesis using True full same \<open>new = []\<close> by (auto simp: left_over_def)
    qed
  next
    case False
    then have "prio_of x \<in> set prios" using x(2) by simp
    then have lt: "prio_of x < lv" and rest: "left_over tick running n rows fs' new x" using Cons.prems(1) new(3) x by auto
    then show ?thesis using level_of_row by (fastforce simp: left_over_def)
  qed
  moreover have "\<forall>st\<in>set (new1 @ new). \<exists>y\<in>set rows. st = scan_of y \<and> prio_of y \<in> set (lv # prios)"
    using from_level new(2) by fastforce
  moreover have "gate_grows tick (fs_gate fs) (fs_gate fs')" by (rule gate_grows_trans [OF fair_runD(5) [OF level] gate])
  ultimately show ?case using new(1) new1(1) by (intro exI [of _ "new1 @ new"]) simp
qed simp

subsection \<open>The first rows of each project and set of resources\<close>

lemma first_of_each_append:
  "first_of_each k seen (xs @ ys) = first_of_each k seen xs @ first_of_each k (seen @ xs) ys"
  by (induction xs arbitrary: seen) (simp_all add: Let_def)

lemma set_first_of_each: "set (first_of_each k seen xs) \<subseteq> set xs"
  using first_of_each_sub [of k seen xs] by (metis set_mset_mono set_mset_mset)

lemma sorted_first_of_each: "sorted_wrt R xs \<Longrightarrow> sorted_wrt R (first_of_each k seen xs)"
proof (induction xs arbitrary: seen)
  case (Cons x xs)
  then show ?case using set_first_of_each [of k "seen @ [x]" xs] by (auto simp: Let_def)
qed simp

abbreviation same_part :: "step_row \<times> run \<Rightarrow> step_row \<times> run \<Rightarrow> bool" where
  "same_part x y \<equiv> proj_of y = proj_of x \<and> sr_resources (fst y) = sr_resources (fst x)"

lemma first_of_each_counts:
  "min k (int (length (filter (same_part x) (seen @ xs)))) \<le>
     int (length (filter (same_part x) seen)) + int (length (filter (same_part x) (first_of_each k seen xs)))"
proof (induction xs arbitrary: seen)
  case (Cons a xs)
  show ?case
  proof (cases "same_part x a")
    case False
    then show ?thesis using Cons [of "seen @ [a]"] by (auto simp: Let_def)
  next
    case True
    then have "same_part a = same_part x" by auto
    then show ?thesis using Cons [of "seen @ [a]"] True by (auto simp: Let_def)
  qed
qed simp

lemma first_of_each_missing:
  assumes "sorted (map queue_key rows)" and "x \<in> set rows" and "x \<notin> set (first_of_each k [] rows)"
  shows "k \<le> int (length (filter (\<lambda>y. same_part x y \<and> queue_key y \<le> queue_key x) (first_of_each k [] rows)))"
proof -
  obtain xs ys where rows: "rows = xs @ x # ys" using assms(2) by (auto simp: in_set_conv_decomp)
  let ?F = "first_of_each k [] xs"
  have F: "first_of_each k [] rows = ?F @ first_of_each k xs (x # ys)" by (simp add: rows first_of_each_append)
  have "\<not> int (length (filter (same_part x) xs)) + 1 \<le> k"
    using assms(3) by (auto simp: F Let_def split: if_splits)
  then have "k \<le> int (length (filter (same_part x) ?F))" using first_of_each_counts [of k x "[]" xs] by simp
  moreover have "\<forall>y\<in>set ?F. queue_key y \<le> queue_key x"
    using set_first_of_each [of k "[]" xs] assms(1) by (auto simp: rows sorted_append)
  then have "filter (same_part x) ?F = filter (\<lambda>y. same_part x y \<and> queue_key y \<le> queue_key x) ?F" by (intro filter_cong) auto
  ultimately show ?thesis by (simp add: F)
qed

subsection \<open>No project is left behind\<close>

lemma untaken_in:
  assumes "distinct (map f xs)" and "length ys < length xs"
  shows "\<exists>x\<in>set xs. f x \<notin> set ys"
proof (rule ccontr)
  assume "\<not> ?thesis"
  then have "set (map f xs) \<subseteq> set ys" by auto
  then have "card (set (map f xs)) \<le> card (set ys)" by (intro card_mono) simp_all
  then have "length xs \<le> card (set ys)" using distinct_card [OF assms(1)] by simp
  then show False using card_length [of ys] assms(2) by simp
qed

lemma distinct_mapI: "distinct (map f xs) \<Longrightarrow> distinct xs"
  by (simp add: distinct_map)

lemma strictly_decreasing:
  assumes "sorted (map queue_key rows)"
  shows "sorted_wrt (>) (in_order_seen (map (r_priority \<circ> snd) rows))"
proof -
  have "sorted_wrt (\<lambda>x y. queue_key x \<le> queue_key y) rows" using assms by (simp add: sorted_map)
  then have "sorted_wrt (\<lambda>x y. prio_of y \<le> prio_of x) rows"
    by (rule sorted_wrt_mono_rel [rotated]) (auto simp: queue_key_def less_eq_prod_def split: prod.splits)
  then have "sorted (rev (map (r_priority \<circ> snd) rows))" by (simp add: sorted_wrt_rev sorted_wrt_map)
  then have "sorted_wrt (<) (remdups (rev (map (r_priority \<circ> snd) rows)))"
    by (simp add: strict_sorted_iff sorted_remdups)
  then show ?thesis by (simp add: in_order_seen_def sorted_wrt_rev)
qed

text \<open>C16: A claim in turn, under the gate of the resources, leaves no project behind: a step that is due and left in the
  queue has a resource with no place left after the claim, or else the claim took all the steps it may, none of a lower
  priority, and every project that got a step of that priority has at most one step more under way, those taken included,
  than the project left waiting. (The tables are well-formed, and every due step names its project.)\<close>

theorem fair_share:
  assumes "tables_ok d" and "0 \<le> n" and "pickFair tick now n interactive gate d = fs"
    and "list_all (\<lambda>x. r_project (snd x) \<noteq> []) (ready_rows now interactive d)"
    and "x \<in> set (ready_rows now interactive d)" and "scanStep (fst x) \<notin> set (fs_out fs)"
  shows "blocked tick (s_resources (scanStep (fst x))) (fs_gate fs) \<or>
     int (length (fs_out fs)) = n \<and>
     list_all (\<lambda>y. scanStep (fst y) \<in> set (fs_out fs) \<longrightarrow> r_priority (snd x) \<le> r_priority (snd y) \<and>
        (r_priority (snd y) = r_priority (snd x) \<longrightarrow>
           load_of (running_of d) fs (r_project (snd y)) \<le> load_of (running_of d) fs (r_project (snd x)) + 1))
      (ready_rows now interactive d)"
proof -
  let ?q = "queue_rows now interactive d"
  let ?F = "first_of_each (n + 2) [] ?q"
  let ?prios = "in_order_seen (map (r_priority \<circ> snd) ?F)"
  have sorted: "sorted (map queue_key ?q)" by (simp add: queue_rows_def)
  have sortedF: "sorted (map queue_key ?F)"
    using sorted_first_of_each [of "\<lambda>x y. queue_key x \<le> queue_key y" ?q "n + 2" "[]"] sorted by (simp add: sorted_map)
  have inF: "set ?F \<subseteq> set (ready_rows now interactive d)"
    using set_first_of_each [of "n + 2" "[]" ?q] by (simp add: queue_rows_def)
  have keys: "distinct (map (step_key \<circ> scan_of) ?q)"
    using distinct_ready [OF assms(1) tables_okD(2) [OF assms(1)], of now interactive]
    by (simp add: queue_rows_def distinct_map comp_def row_key_def)
  then have "distinct (map step_key (map scan_of ?q))" by (simp only: map_map)
  from distinct_mapI [OF this] have scans: "distinct (map scan_of ?q)" .
  then have inj: "inj_on scan_of (set (ready_rows now interactive d))" by (simp add: distinct_map queue_rows_def)
  have scansF: "distinct (map scan_of ?F)"
  proof (rule distinct_sub_mset [OF _ scans])
    show "mset (map scan_of ?F) \<subseteq># mset (map scan_of ?q)"
      unfolding mset_map by (rule image_mset_subseteq_mono [OF first_of_each_sub])
  qed
  have fs: "fs = fold (\<lambda>prio fs. fst (fair_level tick n (running_of d) (fs, queues_at prio ?F))) ?prios
      \<lparr>fs_out = [], fs_picked = fmempty, fs_served = jd_served d, fs_turn = jd_turn d, fs_gate = gate\<rparr>"
    using assms(3) by (simp add: pickFair_def fair_levels_def)
  have projs: "\<forall>x\<in>set ?F. proj_of x \<noteq> []" using assms(4) inF by (auto simp: list_all_iff)
  from levels_fair [OF strictly_decreasing [OF sortedF] inj_on_subset [OF inj inF] projs fs]
  obtain new where new: "fs_out fs = new" "\<forall>st\<in>set new. \<exists>y\<in>set ?F. st = scan_of y"
    and over: "\<And>x. x \<in> set ?F \<Longrightarrow> scan_of x \<notin> set new \<Longrightarrow> left_over tick (running_of d) n ?F fs new x" by auto
  have few: "int (length new) \<le> n" using pickFair_picks [OF assms(3)] assms(2) new(1) by simp
  have "\<exists>x'\<in>set ?F. scan_of x' \<notin> set new \<and> proj_of x' = proj_of x \<and> sr_resources (fst x') = sr_resources (fst x) \<and> prio_of x \<le> prio_of x'"
  proof (cases "x \<in> set ?F")
    case True
    then show ?thesis using assms(6) new(1) by auto
  next
    case False
    let ?G = "filter (\<lambda>y. same_part x y \<and> queue_key y \<le> queue_key x) ?F"
    have "n + 2 \<le> int (length ?G)"
      using first_of_each_missing [OF sorted _ False] assms(5) by (simp add: queue_rows_def)
    moreover have "distinct (map scan_of ?G)" using scansF by (rule distinct_map_filter)
    ultimately obtain x' where "x' \<in> set ?G" "scan_of x' \<notin> set new" using untaken_in [of scan_of ?G new] few by auto
    then show ?thesis by (intro bexI [of _ x']) (auto simp: queue_key_def less_eq_prod_def split: prod.splits)
  qed
  then obtain x' where x': "x' \<in> set ?F" "scan_of x' \<notin> set new" "proj_of x' = proj_of x" "sr_resources (fst x') = sr_resources (fst x)" "prio_of x \<le> prio_of x'" by blast
  have res: "s_resources (scan_of x') = s_resources (scan_of x)" using x'(4) by (simp add: scanStep_def)
  show ?thesis
  proof (cases "blocked tick (s_resources (scan_of x)) (fs_gate fs)")
    case False
    then have lo: "left_over tick (running_of d) n ?F fs new x'" "\<not> blocked tick (s_resources (scan_of x')) (fs_gate fs)"
      using over [OF x'(1,2)] res by simp_all
    have "prio_of x \<le> prio_of y \<and> (prio_of y = prio_of x \<longrightarrow> load_of (running_of d) fs (proj_of y) \<le> load_of (running_of d) fs (proj_of x) + 1)"
      if y: "y \<in> set (ready_rows now interactive d)" "scan_of y \<in> set (fs_out fs)" for y
    proof -
      obtain z where "z \<in> set ?F" "scan_of y = scan_of z" using new y(2) by auto
      then have "y \<in> set ?F" using inj inF y(1) by (auto dest: inj_onD)
      then show ?thesis using lo x'(3,5) y(2) new(1) by (auto simp: left_over_def)
    qed
    moreover have "int (length (fs_out fs)) = n" using lo few new(1) by (simp add: left_over_def)
    ultimately show ?thesis by (simp add: list_all_iff)
  qed simp
qed

text \<open>Of two projects with nothing under way, each gets a step of the two.\<close>

definition two_projects :: jobs where
  "two_projects = open_jobs\<lparr>
     jd_runs := [sample_run ''a'' ''p'' 0 10, sample_run ''b'' ''q'' 0 20],
     jd_steps := [sample_row ''a'' ''one'' 0 Queued [], sample_row ''a'' ''two'' 1 Queued [], sample_row ''b'' ''one'' 0 Queued []]\<rparr>"

lemma two_projects_rows:
  "ready_rows epoch False two_projects =
     [(sample_row ''a'' ''one'' 0 Queued [], sample_run ''a'' ''p'' 0 10), (sample_row ''a'' ''two'' 1 Queued [], sample_run ''a'' ''p'' 0 10),
      (sample_row ''b'' ''one'' 0 Queued [], sample_run ''b'' ''q'' 0 20)]"
  by (simp add: ready_rows_def joined_def two_projects_def sample_run_def sample_row_def open_jobs_def ms_def epoch_def)

lemma two_projects_queue: "queue_rows epoch False two_projects = ready_rows epoch False two_projects"
  by (simp add: queue_rows_def two_projects_rows) (simp add: sample_run_def sample_row_def queue_key_def less_eq_prod_def)

lemma two_projects_running: "running_of two_projects p = 0"
  by (simp add: running_of_def joined_def two_projects_def sample_run_def sample_row_def open_jobs_def)

definition two_queues :: queues where
  "two_queues = [(''p'', [scanStep (sample_row ''a'' ''one'' 0 Queued []), scanStep (sample_row ''a'' ''two'' 1 Queued [])]),
     (''q'', [scanStep (sample_row ''b'' ''one'' 0 Queued [])])]"

lemma sample_fields:
  "r_project (sample_run a p k c) = p" "r_priority (sample_run a p k c) = k" "sr_resources (sample_row a n i st res) = res"
  by (simp_all add: sample_run_def sample_row_def)

lemma two_queues_eq: "queues_at 0 (first_of_each 4 [] (ready_rows epoch False two_projects)) = two_queues"
  by (simp add: two_projects_rows queues_at_def in_order_seen_def two_queues_def sample_fields)

lemma two_prios: "in_order_seen (map (r_priority \<circ> snd) (first_of_each 4 [] (ready_rows epoch False two_projects))) = [0]"
  by (simp add: two_projects_rows in_order_seen_def sample_fields)

lemma TryTake_nothing: "TryTake tick [] gate = (True, gate)"
  by (cases gate) (simp_all add: TryTake_def)

lemma two_projects_pick:
  "fs_out (pickFair 1 epoch 2 False gate two_projects) =
     [scanStep (sample_row ''a'' ''one'' 0 Queued []), scanStep (sample_row ''b'' ''one'' 0 Queued [])]"
proof -
  have "jd_served two_projects = fmempty" "jd_turn two_projects = 0" by (simp_all add: two_projects_def open_jobs_def)
  moreover have "s_resources (scanStep (sample_row a n i Queued [])) = []" for a n i
    by (simp add: scanStep_def sample_row_def split_names_def)
  ultimately show ?thesis
    by (simp add: pickFair_def two_projects_queue fair_levels_def two_prios two_queues_eq)
      (simp add: two_queues_def fair_level.simps Let_def load_of_def two_projects_running fair_turn_def TryTake_nothing serve_def)
qed

text \<open>Under a gate of one place for each resource.\<close>

lemma fair_share_witness:
  "let fs = pickFair 1 epoch 2 False (Some (NewGate (\<lambda>t r. 1))) two_projects
   in int (length (fs_out fs)) = 2 \<and> load_of (running_of two_projects) fs ''q'' \<le> load_of (running_of two_projects) fs ''p'' + 1"
proof -
  have ok: "tables_ok two_projects"
    by (simp add: tables_ok_def two_projects_def sample_run_def sample_row_def open_jobs_def)
  have projs: "list_all (\<lambda>x. r_project (snd x) \<noteq> []) (ready_rows epoch False two_projects)"
    by (simp add: two_projects_rows sample_run_def)
  have free: "\<not> blocked 1 (s_resources (scanStep (sample_row ''a'' ''two'' 1 Queued []))) gate" for gate
    by (simp add: blocked_def scanStep_def sample_row_def split_names_def split: option.splits)
  from fair_share [OF ok _ refl projs, where n = 2 and x = "(sample_row ''a'' ''two'' 1 Queued [], sample_run ''a'' ''p'' 0 10)" and tick = 1
      and gate = "Some (NewGate (\<lambda>t r. 1))"] free show ?thesis
    unfolding two_projects_pick Let_def by (simp add: two_projects_rows) (simp add: sample_run_def sample_row_def scanStep_def)
qed

end
