(* ===== verification/JobRunner.thy ===== *)
theory JobRunner
  imports JobClaim
begin

text \<open>
  The runner of \<open>internal/jobs/runner.go\<close>: what comes next in a run when one of its steps changed,
  and the calls that submit, resume, cancel and expire.

  The executor of a kind of run is a parameter: its \<open>Next\<close> is a function of the run and its
  steps, and what its \<open>Step\<close> answers (an outcome, or a panic) is an argument of \<open>finish_step\<close>.
  \<open>execs\<close> is the map of the kinds registered. The workers, channels and contexts are not modelled.
\<close>

type_synonym executor = "run \<Rightarrow> step list \<Rightarrow> step_change list \<times> run_change option"

record outcome =
  oc_status :: status
  oc_output :: string
  oc_error :: string
  oc_retry_at :: time
  oc_wait_until :: time

record options =
  op_workers :: int
  op_interactive :: int
  op_poll :: duration
  op_lease :: duration
  op_retention :: duration
  op_fair :: bool

definition NewRunner :: "options \<Rightarrow> options" where
  "NewRunner opts =
     (let opts = (if op_workers opts \<le> 0 then opts\<lparr>op_workers := 2\<rparr> else opts);
          opts = (if op_poll opts \<le> 0 then opts\<lparr>op_poll := 2 * second\<rparr> else opts)
      in if op_lease opts \<le> 0 then opts\<lparr>op_lease := 15 * minute\<rparr> else opts)"

subsection \<open>What comes next in a run\<close>

definition apply_to_step :: "step_change \<Rightarrow> step \<Rightarrow> step" where
  "apply_to_step c st =
     (if s_name st = sc_name c \<and> \<not> Terminal (s_status st)
      then st\<lparr>s_status := sc_status c, s_error := (if sc_error c \<noteq> [] then sc_error c else s_error st)\<rparr>
      else st)"

definition applied :: "step list \<Rightarrow> step_change list \<Rightarrow> step list" where
  "applied steps changes = fold (\<lambda>c. map (apply_to_step c)) changes steps"

record seen_steps =
  se_active :: bool
  se_waiting :: bool
  se_pending :: string
  se_failed :: string

definition see_step :: "step \<Rightarrow> seen_steps \<Rightarrow> seen_steps" where
  "see_step st se =
     (case s_status st of
        Queued \<Rightarrow> se\<lparr>se_active := True\<rparr>
      | Running \<Rightarrow> se\<lparr>se_active := True\<rparr>
      | Waiting \<Rightarrow> se\<lparr>se_waiting := True\<rparr>
      | Pending \<Rightarrow> if se_pending se = [] then se\<lparr>se_pending := s_name st\<rparr> else se
      | Failed \<Rightarrow> if se_failed se = [] then se\<lparr>se_failed := s_name st @ '': '' @ s_error st\<rparr> else se
      | _ \<Rightarrow> se)"

definition see_steps :: "step list \<Rightarrow> seen_steps" where
  "see_steps steps = fold see_step steps \<lparr>se_active = False, se_waiting = False, se_pending = [], se_failed = []\<rparr>"

definition derive :: "run \<Rightarrow> step list \<Rightarrow> time \<Rightarrow> run_change option" where
  "derive run steps now =
     (let se = see_steps steps in
      if se_active se
      then (if r_status run = Waiting then Some \<lparr>rc_status = Running, rc_error = [], rc_finished = 0\<rparr> else None)
      else if se_waiting se
      then (if r_status run \<noteq> Waiting then Some \<lparr>rc_status = Waiting, rc_error = [], rc_finished = 0\<rparr> else None)
      else if se_failed se \<noteq> [] then Some \<lparr>rc_status = Failed, rc_error = se_failed se, rc_finished = now\<rparr>
      else if se_pending se \<noteq> []
      then Some \<lparr>rc_status = Failed, rc_error = se_pending se @ '': it could not start'', rc_finished = now\<rparr>
      else Some \<lparr>rc_status = Done, rc_error = [], rc_finished = now\<rparr>)"

definition stamp_queued :: "time \<Rightarrow> step_change \<Rightarrow> step_change" where
  "stamp_queued now c = (if sc_status c = Queued \<and> sc_queued c = 0 then c\<lparr>sc_queued := now\<rparr> else c)"

definition cancel_change :: "string \<Rightarrow> time \<Rightarrow> step \<Rightarrow> step_change" where
  "cancel_change reason at_time st = (no_change (s_name st) Canceled)\<lparr>sc_error := reason, sc_finished := at_time\<rparr>"

definition left_behind :: "step list \<Rightarrow> run_change option \<Rightarrow> step_change list" where
  "left_behind steps rc =
     (case rc of
        None \<Rightarrow> []
      | Some c \<Rightarrow>
          if Terminal (rc_status c)
          then map (cancel_change ''the run ended'' (rc_finished c)) (filter (\<lambda>st. \<not> Terminal (s_status st)) steps)
          else [])"

text \<open>The body of \<open>advance\<close>, from the run and the steps it reads to the changes it writes.\<close>

definition decide :: "executor \<Rightarrow> time \<Rightarrow> run \<Rightarrow> step list \<Rightarrow> step_change list \<times> run_change option" where
  "decide nx now run steps =
     (case nx run steps of
        (changes, rc) \<Rightarrow>
          let changes = map (stamp_queued now) changes;
              steps = applied steps changes;
              rc = (case rc of None \<Rightarrow> derive run steps now | Some c \<Rightarrow> Some c)
          in (changes @ left_behind steps rc, rc))"

definition executor_of :: "(string, executor) fmap \<Rightarrow> string \<Rightarrow> jobs_error + executor" where
  "executor_of execs kind = (case fmlookup execs kind of None \<Rightarrow> Inl (ErrNoExecutor kind) | Some e \<Rightarrow> Inr e)"

definition Register :: "string \<Rightarrow> executor \<Rightarrow> (string, executor) fmap \<Rightarrow> (string, executor) fmap" where
  "Register kind e execs = fmupd kind e execs"

text \<open>What \<open>advance\<close> reads under the lock of the run: \<open>None\<close> when there is nothing to do.\<close>

definition read_next :: "(string, executor) fmap \<Rightarrow> time \<Rightarrow> string \<Rightarrow> jobs \<Rightarrow> jobs_error + (step_change list \<times> run_change option) option" where
  "read_next execs now runID d =
     (case Run runID d of
        Inl e \<Rightarrow> Inl e
      | Inr run \<Rightarrow>
          if Terminal (r_status run) then Inr None
          else case executor_of execs (r_kind run) of
                 Inl e \<Rightarrow> Inl e
               | Inr nx \<Rightarrow> Inr (Some (decide nx now run (Steps runID d))))"

definition advance :: "(string \<Rightarrow> rat \<times> int) \<Rightarrow> (string, executor) fmap \<Rightarrow> time \<Rightarrow> string \<Rightarrow> jobs \<Rightarrow> (jobs_error + unit) \<times> jobs" where
  "advance cost_of execs now runID d =
     (case read_next execs now runID d of
        Inl e \<Rightarrow> (Inl e, d)
      | Inr None \<Rightarrow> (Inr (), d)
      | Inr (Some (changes, rc)) \<Rightarrow> (Inr (), store_apply cost_of runID changes rc d))"

subsection \<open>The calls\<close>

definition Submit :: "(string \<Rightarrow> rat \<times> int) \<Rightarrow> (string, executor) fmap \<Rightarrow> string \<Rightarrow> time \<Rightarrow> run \<Rightarrow> step list \<Rightarrow> jobs
    \<Rightarrow> (jobs_error + run \<times> bool) \<times> jobs" where
  "Submit cost_of execs newID now run steps d =
     (case executor_of execs (r_kind run) of
        Inl e \<Rightarrow> (Inl e, d)
      | Inr nx \<Rightarrow>
          (case CreateJobRun newID now run steps d of
             (Inl e, d') \<Rightarrow> (Inl e, d')
           | (Inr (stored, existing), d') \<Rightarrow>
               if existing then (Inr (stored, True), d')
               else case advance cost_of execs now (r_id stored) d' of
                      (Inl e, d'') \<Rightarrow> (Inl e, d'')
                    | (Inr u, d'') \<Rightarrow>
                        (case Run (r_id stored) d'' of Inl e \<Rightarrow> (Inl e, d'') | Inr r \<Rightarrow> (Inr (r, False), d''))))"

definition wait_target :: "step list \<Rightarrow> string \<Rightarrow> jobs_error + step" where
  "wait_target steps name =
     (case filter (\<lambda>st. s_status st = Waiting \<and> (name = [] \<or> s_name st = name)) steps of
        [] \<Rightarrow> if steps = [] then Inl ErrNotFound else Inl (ErrState ''no step waits'')
      | [st] \<Rightarrow> Inr st
      | _ \<Rightarrow> Inl (ErrState ''more than one step waits, name one''))"

definition end_wait :: "(string \<Rightarrow> rat \<times> int) \<Rightarrow> time \<Rightarrow> string \<Rightarrow> string \<Rightarrow> status \<Rightarrow> string \<Rightarrow> string \<Rightarrow> jobs \<Rightarrow> (jobs_error + unit) \<times> jobs" where
  "end_wait cost_of now runID name st output errMsg d =
     (if st \<noteq> Done \<and> st \<noteq> Failed then (Inl (ErrState ''a wait ends done or failed''), d)
      else case wait_target (Steps runID d) name of
             Inl e \<Rightarrow> (Inl e, d)
           | Inr target \<Rightarrow>
               (Inr (), store_apply cost_of runID
                  [(no_change (s_name target) st)\<lparr>sc_output := output, sc_error := errMsg, sc_finished := now\<rparr>] None d))"

definition EndWait :: "(string \<Rightarrow> rat \<times> int) \<Rightarrow> (string, executor) fmap \<Rightarrow> time \<Rightarrow> string \<Rightarrow> string \<Rightarrow> status \<Rightarrow> string \<Rightarrow> string \<Rightarrow> jobs
    \<Rightarrow> (jobs_error + unit) \<times> jobs" where
  "EndWait cost_of execs now runID name st output errMsg d =
     (case end_wait cost_of now runID name st output errMsg d of
        (Inl e, d') \<Rightarrow> (Inl e, d')
      | (Inr u, d') \<Rightarrow> advance cost_of execs now runID d')"

definition Resume :: "(string \<Rightarrow> rat \<times> int) \<Rightarrow> (string, executor) fmap \<Rightarrow> time \<Rightarrow> string \<Rightarrow> string \<Rightarrow> string \<Rightarrow> jobs
    \<Rightarrow> (jobs_error + unit) \<times> jobs" where
  "Resume cost_of execs now runID name output d = EndWait cost_of execs now runID name Done output [] d"

definition RunAgain :: "(string \<Rightarrow> rat \<times> int) \<Rightarrow> (string, executor) fmap \<Rightarrow> time \<Rightarrow> string \<Rightarrow> string \<Rightarrow> jobs \<Rightarrow> (jobs_error + unit) \<times> jobs" where
  "RunAgain cost_of execs now runID name d =
     (case requeueWaiting runID name now d of
        (ok, d') \<Rightarrow> if \<not> ok then (Inl (ErrState ''the step does not wait''), d') else advance cost_of execs now runID d')"

definition cancel_changes :: "string \<Rightarrow> time \<Rightarrow> step list \<Rightarrow> step_change list \<times> run_change option" where
  "cancel_changes reason now steps =
     (map (cancel_change reason now) (filter (\<lambda>st. \<not> Terminal (s_status st)) steps),
      Some \<lparr>rc_status = Canceled, rc_error = reason, rc_finished = now\<rparr>)"

definition read_cancel :: "string \<Rightarrow> time \<Rightarrow> string \<Rightarrow> jobs \<Rightarrow> jobs_error + step_change list \<times> run_change option" where
  "read_cancel reason now runID d =
     (case Run runID d of
        Inl e \<Rightarrow> Inl e
      | Inr run \<Rightarrow>
          if Terminal (r_status run) then Inl (ErrState ''the run already ended'')
          else Inr (cancel_changes reason now (Steps runID d)))"

definition CancelFor :: "(string \<Rightarrow> rat \<times> int) \<Rightarrow> time \<Rightarrow> string \<Rightarrow> string \<Rightarrow> jobs \<Rightarrow> (jobs_error + unit) \<times> jobs" where
  "CancelFor cost_of now runID reason d =
     (case read_cancel reason now runID d of
        Inl e \<Rightarrow> (Inl e, d)
      | Inr (changes, rc) \<Rightarrow> (Inr (), store_apply cost_of runID changes rc d))"

definition Cancel :: "(string \<Rightarrow> rat \<times> int) \<Rightarrow> time \<Rightarrow> string \<Rightarrow> jobs \<Rightarrow> (jobs_error + unit) \<times> jobs" where
  "Cancel cost_of now runID d = CancelFor cost_of now runID ''canceled'' d"

text \<open>The end of a wait whose time is up; \<open>show_time\<close> writes a time.\<close>

definition expire_change :: "(time \<Rightarrow> string) \<Rightarrow> time \<Rightarrow> step \<Rightarrow> step_change" where
  "expire_change show_time now st =
     (no_change (s_name st) Failed)\<lparr>sc_error := ''no call resumed it before '' @ show_time (s_wait_until st), sc_finished := now\<rparr>"

definition expire_one :: "(string \<Rightarrow> rat \<times> int) \<Rightarrow> (time \<Rightarrow> string) \<Rightarrow> time \<Rightarrow> step \<Rightarrow> jobs \<Rightarrow> jobs" where
  "expire_one cost_of show_time now st d = store_apply cost_of (s_run st) [expire_change show_time now st] None d"

definition expireWaits :: "(string \<Rightarrow> rat \<times> int) \<Rightarrow> (string, executor) fmap \<Rightarrow> (time \<Rightarrow> string) \<Rightarrow> time \<Rightarrow> jobs \<Rightarrow> jobs" where
  "expireWaits cost_of execs show_time now d =
     fold (\<lambda>st d. snd (advance cost_of execs now (s_run st) (expire_one cost_of show_time now st d))) (expiredWaits now d) d"

datatype step_result = Answered outcome | Panicked string

definition safeStep :: "step_result \<Rightarrow> outcome" where
  "safeStep res =
     (case res of
        Answered oc \<Rightarrow> oc
      | Panicked p \<Rightarrow> \<lparr>oc_status = Failed, oc_output = [], oc_error = ''panic: '' @ p, oc_retry_at = 0, oc_wait_until = 0\<rparr>)"

text \<open>The change a step's outcome makes; \<open>show_status\<close> quotes a status.\<close>

definition outcome_change :: "(status \<Rightarrow> string) \<Rightarrow> time \<Rightarrow> string \<Rightarrow> outcome \<Rightarrow> step_change" where
  "outcome_change show_status now name oc =
     (let c = (no_change name (oc_status oc))\<lparr>sc_output := oc_output oc, sc_error := oc_error oc\<rparr> in
      case oc_status oc of
        Done \<Rightarrow> c\<lparr>sc_finished := now\<rparr>
      | Failed \<Rightarrow> c\<lparr>sc_finished := now\<rparr>
      | Queued \<Rightarrow> c\<lparr>sc_not_before := oc_retry_at oc, sc_queued := now\<rparr>
      | Waiting \<Rightarrow> c\<lparr>sc_wait_until := oc_wait_until oc\<rparr>
      | other \<Rightarrow> c\<lparr>sc_status := Failed, sc_error := ''the executor answered status '' @ show_status other, sc_finished := now\<rparr>)"

text \<open>
  The end of \<open>runStep\<close>: \<open>res\<close> is the error that the run's kind has no executor, or what the
  executor answered; \<open>stopping\<close> says that the server is stopping, which leaves the step running
  unless it is done.
\<close>

definition step_done :: "(status \<Rightarrow> string) \<Rightarrow> time \<Rightarrow> bool \<Rightarrow> step \<Rightarrow> string + step_result \<Rightarrow> step_change option" where
  "step_done show_status now stopping st res =
     (case res of
        Inl err \<Rightarrow> Some ((no_change (s_name st) Failed)\<lparr>sc_error := err, sc_finished := now\<rparr>)
      | Inr res \<Rightarrow>
          let oc = safeStep res in
          if stopping \<and> oc_status oc \<noteq> Done then None
          else Some (outcome_change show_status now (s_name st) oc))"

definition finish_step :: "(string \<Rightarrow> rat \<times> int) \<Rightarrow> (string, executor) fmap \<Rightarrow> (status \<Rightarrow> string) \<Rightarrow> time \<Rightarrow> bool \<Rightarrow> step \<Rightarrow> string + step_result \<Rightarrow> jobs
    \<Rightarrow> jobs" where
  "finish_step cost_of execs show_status now stopping st res d =
     (case step_done show_status now stopping st res of
        None \<Rightarrow> d
      | Some c \<Rightarrow> snd (advance cost_of execs now (s_run st) (store_apply cost_of (s_run st) [c] None d)))"

end
