(* ===== verification/JobSteps.thy ===== *)
theory JobSteps
  imports JobRunner
begin

text \<open>
  The jobs as they run: the calls and the workers interleave, each at the granularity of the lock
  of a run and of the store.

  A state is the tables and what is in flight: the decision read under the lock of a run and not
  written yet (so that the lock of the run is held exactly while there is one), and the waits read
  as expired and not ended yet, a list the runner reads without any lock. Between a read and its
  write any other operation may happen that does not need the lock: claims, new runs, pruning.
\<close>

type_synonym decision = "step_change list \<times> run_change option"

record job_sys =
  js_db :: jobs
  js_gate :: "gate option"
  js_deciding :: "(string, decision) fmap"
  js_expired :: "step list"

definition new_sys :: "gate option \<Rightarrow> job_sys" where
  "new_sys gate = \<lparr>js_db = open_jobs, js_gate = gate, js_deciding = fmempty, js_expired = []\<rparr>"

abbreviation unlocked :: "job_sys \<Rightarrow> string \<Rightarrow> bool" where
  "unlocked s runID \<equiv> fmlookup (js_deciding s) runID = None"

text \<open>A run as \<open>Submit\<close> gets it: not started, with an id no run or decision in flight has.\<close>

definition submittable :: "job_sys \<Rightarrow> run \<Rightarrow> bool" where
  "submittable s r \<longleftrightarrow> r_status r \<in> {NoStatus, Queued} \<and> unlocked s (r_id r) \<and> ms (r_created r) \<noteq> - 62135596800000"

inductive job_step :: "(string \<Rightarrow> rat \<times> int) \<Rightarrow> (string, executor) fmap \<Rightarrow> job_sys \<Rightarrow> job_sys \<Rightarrow> bool"
  for cost_of :: "string \<Rightarrow> rat \<times> int" and execs :: "(string, executor) fmap" where
  Create: "CreateJobRun newID now r steps (js_db s) = (res, d) \<Longrightarrow> submittable s (fill_run newID now r) \<Longrightarrow>
      job_step cost_of execs s (s\<lparr>js_db := d\<rparr>)"
| Claim: "claim tick now n lease interactive fair commits (js_gate s) (js_db s) = (res, gate, d) \<Longrightarrow>
      job_step cost_of execs s (s\<lparr>js_db := d, js_gate := gate\<rparr>)"
| Places: "job_step cost_of execs s (s\<lparr>js_gate := gate\<rparr>)"
| ReadNext: "unlocked s runID \<Longrightarrow> read_next execs now runID (js_db s) = Inr (Some dec) \<Longrightarrow>
      job_step cost_of execs s (s\<lparr>js_deciding := fmupd runID dec (js_deciding s)\<rparr>)"
| ReadCancel: "unlocked s runID \<Longrightarrow> read_cancel reason now runID (js_db s) = Inr dec \<Longrightarrow>
      job_step cost_of execs s (s\<lparr>js_deciding := fmupd runID dec (js_deciding s)\<rparr>)"
| Write: "fmlookup (js_deciding s) runID = Some (changes, rc) \<Longrightarrow>
      job_step cost_of execs s (s\<lparr>js_db := store_apply cost_of runID changes rc (js_db s), js_deciding := fmdrop runID (js_deciding s)\<rparr>)"
| StepDone: "unlocked s (s_run st) \<Longrightarrow> step_done show_status now stopping st res = Some c \<Longrightarrow>
      job_step cost_of execs s (s\<lparr>js_db := store_apply cost_of (s_run st) [c] None (js_db s)\<rparr>)"
| WaitEnded: "unlocked s runID \<Longrightarrow> end_wait cost_of now runID name st output errMsg (js_db s) = (res, d) \<Longrightarrow>
      job_step cost_of execs s (s\<lparr>js_db := d\<rparr>)"
| Again: "unlocked s runID \<Longrightarrow> requeueWaiting runID name now (js_db s) = (ok, d) \<Longrightarrow>
      job_step cost_of execs s (s\<lparr>js_db := d\<rparr>)"
| ReadExpired: "job_step cost_of execs s (s\<lparr>js_expired := expiredWaits now (js_db s)\<rparr>)"
| Expire: "st \<in> set (js_expired s) \<Longrightarrow> unlocked s (s_run st) \<Longrightarrow>
      job_step cost_of execs s (s\<lparr>js_db := expire_one cost_of show_time now st (js_db s)\<rparr>)"
| Pruned: "Prune cutoff (js_db s) = (n, d) \<Longrightarrow> job_step cost_of execs s (s\<lparr>js_db := d\<rparr>)"
| Restart: "recoverRunning now (js_db s) = (n, d) \<Longrightarrow>
      job_step cost_of execs s \<lparr>js_db = d\<lparr>jd_served := fmempty, jd_turn := 0\<rparr>, js_gate = gate, js_deciding = fmempty, js_expired = []\<rparr>"

inductive job_reachable :: "(string \<Rightarrow> rat \<times> int) \<Rightarrow> (string, executor) fmap \<Rightarrow> job_sys \<Rightarrow> bool"
  for cost_of :: "string \<Rightarrow> rat \<times> int" and execs :: "(string, executor) fmap" where
  Opened: "job_reachable cost_of execs (new_sys gate)"
| Next: "job_reachable cost_of execs s \<Longrightarrow> job_step cost_of execs s s' \<Longrightarrow> job_reachable cost_of execs s'"

subsection \<open>Statuses after changes\<close>

lemma Terminal_iff: "Terminal s \<longleftrightarrow> s \<in> {Done, Failed, Skipped, Canceled}"
  by (auto simp: Terminal_def)

definition final_status :: "step_change list \<Rightarrow> string \<Rightarrow> status \<Rightarrow> status" where
  "final_status cs name s = fold (\<lambda>c s. if sc_name c = name \<and> \<not> Terminal s then sc_status c else s) cs s"

lemma final_status_simps [simp]:
  "final_status [] name s = s"
  "final_status (c # cs) name s = final_status cs name (if sc_name c = name \<and> \<not> Terminal s then sc_status c else s)"
  by (simp_all add: final_status_def)

lemma final_status_append [simp]: "final_status (xs @ ys) name s = final_status ys name (final_status xs name s)"
  by (simp add: final_status_def)

lemma final_status_ended [simp]: "Terminal s \<Longrightarrow> final_status cs name s = s"
  by (induction cs) simp_all

lemma final_status_any:
  "Terminal (final_status cs name s) \<Longrightarrow> \<not> Terminal s \<Longrightarrow> \<not> Terminal s' \<Longrightarrow> Terminal (final_status cs name s')"
  by (induction cs arbitrary: s s') (auto split: if_splits)

lemma final_status_all:
  "(\<exists>c\<in>set cs. sc_name c = name) \<Longrightarrow> (\<forall>c\<in>set cs. Terminal (sc_status c)) \<Longrightarrow> Terminal (final_status cs name s)"
proof (induction cs arbitrary: s)
  case (Cons c cs)
  show ?case
  proof (cases "Terminal (if sc_name c = name \<and> \<not> Terminal s then sc_status c else s)")
    case False
    then have "sc_name c \<noteq> name" using Cons.prems(2) by (auto split: if_splits)
    then show ?thesis using Cons by simp
  qed simp
qed simp

definition change_one :: "(string \<Rightarrow> rat \<times> int) \<Rightarrow> string \<Rightarrow> step_change \<Rightarrow> step_row \<Rightarrow> step_row" where
  "change_one cost_of runID c row =
     (if sr_run row = runID \<and> sr_name row = sc_name c \<and> \<not> Terminal (sr_status row) then change_row cost_of c row else row)"

lemma change_row_fields [simp]:
  "sr_run (change_row cost_of c row) = sr_run row" "sr_name (change_row cost_of c row) = sr_name row"
  "sr_pos (change_row cost_of c row) = sr_pos row" "sr_status (change_row cost_of c row) = sc_status c"
  by (simp_all add: change_row_def Let_def case_prod_beta)

lemma change_step_map: "change_step cost_of runID c rows = map (change_one cost_of runID c) rows"
  unfolding change_step_def change_one_def Terminal_iff by (rule refl)

definition change_all :: "(string \<Rightarrow> rat \<times> int) \<Rightarrow> string \<Rightarrow> step_change list \<Rightarrow> step_row \<Rightarrow> step_row" where
  "change_all cost_of runID cs row = fold (change_one cost_of runID) cs row"

lemma change_all_fields [simp]:
  "sr_run (change_all cost_of runID cs row) = sr_run row" "sr_name (change_all cost_of runID cs row) = sr_name row"
  "sr_pos (change_all cost_of runID cs row) = sr_pos row"
  unfolding change_all_def by (induction cs arbitrary: row) (simp_all add: change_one_def)

lemma change_all_status:
  "sr_status (change_all cost_of runID cs row) =
     (if sr_run row = runID then final_status cs (sr_name row) (sr_status row) else sr_status row)"
  unfolding change_all_def by (induction cs arbitrary: row) (auto simp: change_one_def)

lemma change_all_ended: "Terminal (sr_status row) \<Longrightarrow> change_all cost_of runID cs row = row"
  unfolding change_all_def by (induction cs) (simp_all add: change_one_def)

lemma store_apply_steps: "jd_steps (store_apply cost_of runID cs rc d) = map (change_all cost_of runID cs) (jd_steps d)"
proof -
  have "fold (change_step cost_of runID) cs rows = map (change_all cost_of runID cs) rows" for rows
    using fold_map_rows [of "change_one cost_of runID" cs rows] by (simp add: change_step_map [abs_def] change_all_def [abs_def])
  then show ?thesis by (simp add: store_apply_def)
qed

definition change_one_run :: "string \<Rightarrow> run_change option \<Rightarrow> run \<Rightarrow> run" where
  "change_one_run runID rc r =
     (case rc of None \<Rightarrow> r
      | Some rc \<Rightarrow> if r_id r = runID \<and> r_status r \<notin> {Done, Failed, Canceled}
                   then r\<lparr>r_status := rc_status rc, r_error := rc_error rc, r_finished := ms (rc_finished rc)\<rparr> else r)"

lemma store_apply_runs: "jd_runs (store_apply cost_of runID cs rc d) = map (change_one_run runID rc) (jd_runs d)"
  by (simp add: store_apply_def change_run_def change_one_run_def [abs_def] split: option.split)

lemma applied_map: "applied steps cs = map (\<lambda>st. fold apply_to_step cs st) steps"
  unfolding applied_def by (rule fold_map_rows)

lemma apply_to_steps [simp]:
  "s_name (fold apply_to_step cs st) = s_name st"
  "s_status (fold apply_to_step cs st) = final_status cs (s_name st) (s_status st)"
  by (induction cs arbitrary: st) (auto simp: apply_to_step_def)

text \<open>A decision that ends its run ends every step it saw.\<close>

lemma left_behind_ends:
  assumes "Terminal (rc_status c)" and "st \<in> set steps"
  shows "Terminal (final_status (left_behind steps (Some c)) (s_name st) (s_status st))"
proof (cases "Terminal (s_status st)")
  case False
  show ?thesis
  proof (rule final_status_all)
    show "\<exists>ch\<in>set (left_behind steps (Some c)). sc_name ch = s_name st"
      using assms False by (auto simp: left_behind_def cancel_change_def no_change_def intro!: image_eqI)
    show "\<forall>ch\<in>set (left_behind steps (Some c)). Terminal (sc_status ch)"
      by (auto simp: left_behind_def cancel_change_def no_change_def Terminal_def)
  qed
qed simp

lemma decide_ends:
  assumes "decide nx now run steps = (cs, Some c)" and "Terminal (rc_status c)" and "st \<in> set steps"
  shows "Terminal (final_status cs (s_name st) (s_status st))"
proof -
  obtain cs0 rc0 where nx: "nx run steps = (cs0, rc0)" by (rule prod.exhaust)
  let ?cs = "map (stamp_queued now) cs0"
  have cs: "cs = ?cs @ left_behind (applied steps ?cs) (Some c)" using assms(1) by (auto simp: decide_def nx Let_def)
  let ?st = "fold apply_to_step ?cs st"
  have "?st \<in> set (applied steps ?cs)" using assms(3) by (simp add: applied_map)
  from left_behind_ends [OF assms(2) this] show ?thesis by (simp add: cs)
qed

lemma cancel_ends: "st \<in> set steps \<Longrightarrow> Terminal (final_status (fst (cancel_changes reason now steps)) (s_name st) (s_status st))"
proof (cases "Terminal (s_status st)")
  case False
  assume "st \<in> set steps"
  with False show ?thesis
    by (intro final_status_all) (auto simp: cancel_changes_def cancel_change_def no_change_def Terminal_def intro!: image_eqI)
qed simp

end
