(* ===== verification/JobInv.thy ===== *)
theory JobInv
  imports JobSteps
begin

text \<open>
  What every step of the jobs keeps: the keys of the tables, that a run that ended has no step left
  to run, and that what ended is final.
\<close>

subsection \<open>Tables that go on\<close>

text \<open>The rows of \<open>d'\<close> go on from those of \<open>d\<close>: none is new, an ended one is the same or gone with its
  run, and so is a run that ended.\<close>

definition steps_go_on :: "jobs \<Rightarrow> jobs \<Rightarrow> bool" where
  "steps_go_on d d' \<longleftrightarrow>
     (\<forall>row'\<in>set (jd_steps d'). \<exists>row\<in>set (jd_steps d). row_key row = row_key row' \<and> (Terminal (sr_status row) \<longrightarrow> row' = row))"

definition ended_run :: "run \<Rightarrow> bool" where
  "ended_run r \<longleftrightarrow> r_status r \<in> {Done, Failed, Canceled}"

definition keeps_ended :: "jobs \<Rightarrow> jobs \<Rightarrow> bool" where
  "keeps_ended d d' \<longleftrightarrow>
     (\<forall>row\<in>set (jd_steps d). Terminal (sr_status row) \<longrightarrow> row \<in> set (jd_steps d') \<or> sr_run row \<notin> r_id ` set (jd_runs d')) \<and>
     (\<forall>r\<in>set (jd_runs d). ended_run r \<longrightarrow> r \<in> set (jd_runs d') \<or> r_id r \<notin> r_id ` set (jd_runs d'))"

definition runs_go_on :: "jobs \<Rightarrow> jobs \<Rightarrow> bool" where
  "runs_go_on d d' \<longleftrightarrow>
     (\<forall>r'\<in>set (jd_runs d'). Terminal (r_status r') \<longrightarrow> (\<exists>r\<in>set (jd_runs d). r_id r = r_id r' \<and> Terminal (r_status r)))"

definition runs_ended :: "jobs \<Rightarrow> bool" where
  "runs_ended d \<longleftrightarrow>
     (\<forall>r\<in>set (jd_runs d). Terminal (r_status r) \<longrightarrow> (\<forall>row\<in>set (jd_steps d). sr_run row = r_id r \<longrightarrow> Terminal (sr_status row)))"

definition decision_ends :: "jobs \<Rightarrow> string \<Rightarrow> decision \<Rightarrow> bool" where
  "decision_ends d runID dec \<longleftrightarrow>
     (case snd dec of
        None \<Rightarrow> True
      | Some c \<Rightarrow> Terminal (rc_status c) \<longrightarrow>
          (\<forall>row\<in>set (jd_steps d). sr_run row = runID \<longrightarrow> Terminal (final_status (fst dec) (sr_name row) (sr_status row))))"

lemma runs_ended_go_on:
  assumes "runs_ended d" and "steps_go_on d d'" and "runs_go_on d d'"
  shows "runs_ended d'"
  unfolding runs_ended_def
proof (intro ballI impI)
  fix r' row'
  assume r': "r' \<in> set (jd_runs d')" "Terminal (r_status r')" and row': "row' \<in> set (jd_steps d')" "sr_run row' = r_id r'"
  obtain r where r: "r \<in> set (jd_runs d)" "r_id r = r_id r'" "Terminal (r_status r)" using assms(3) r' by (auto simp: runs_go_on_def)
  obtain row where row: "row \<in> set (jd_steps d)" "row_key row = row_key row'" "Terminal (sr_status row) \<longrightarrow> row' = row"
    using assms(2) row'(1) by (auto simp: steps_go_on_def)
  have "sr_run row = r_id r" using row(2) row'(2) r(2) by (simp add: row_key_def)
  then show "Terminal (sr_status row')" using assms(1) r row by (auto simp: runs_ended_def)
qed

lemma decision_ends_go_on:
  assumes "decision_ends d runID dec" and "steps_go_on d d'"
  shows "decision_ends d' runID dec"
proof (cases "snd dec")
  case (Some c)
  have "Terminal (final_status (fst dec) (sr_name row') (sr_status row'))"
    if t: "Terminal (rc_status c)" and row': "row' \<in> set (jd_steps d')" "sr_run row' = runID" for row'
  proof -
    obtain row where row: "row \<in> set (jd_steps d)" "row_key row = row_key row'" "Terminal (sr_status row) \<longrightarrow> row' = row"
      using assms(2) row'(1) by (auto simp: steps_go_on_def)
    then have "Terminal (final_status (fst dec) (sr_name row') (sr_status row))"
      using assms(1) Some t row'(2) by (force simp: decision_ends_def row_key_def)
    then show ?thesis
      using row(3) final_status_any [of "fst dec" "sr_name row'" "sr_status row" "sr_status row'"]
      by (cases "Terminal (sr_status row')"; cases "Terminal (sr_status row)") auto
  qed
  then show ?thesis by (simp add: decision_ends_def Some)
qed (simp add: decision_ends_def)

subsection \<open>Operations that rewrite rows in place\<close>

text \<open>A rewriting of the rows that keeps their keys, and leaves what ended as it is.\<close>

definition row_map :: "step_row list \<Rightarrow> (step_row \<Rightarrow> step_row) \<Rightarrow> bool" where
  "row_map rows f \<longleftrightarrow> (\<forall>row\<in>set rows. sr_run (f row) = sr_run row \<and> sr_name (f row) = sr_name row \<and> sr_pos (f row) = sr_pos row \<and>
     (Terminal (sr_status row) \<longrightarrow> f row = row))"

definition run_map :: "(run \<Rightarrow> run) \<Rightarrow> bool" where
  "run_map g \<longleftrightarrow> (\<forall>r. r_id (g r) = r_id r \<and> r_created (g r) = r_created r \<and> r_ref (g r) = r_ref r \<and> r_idem (g r) = r_idem r \<and>
     (ended_run r \<longrightarrow> g r = r))"

lemma row_map_id: "row_map rows (\<lambda>row. row)" "run_map (\<lambda>r. r)"
  by (simp_all add: row_map_def run_map_def)

lemma mapped_tables_ok:
  assumes "row_map (jd_steps d) f" and "run_map g" and "jd_steps d' = map f (jd_steps d)" and "jd_runs d' = map g (jd_runs d)" and "tables_ok d"
  shows "tables_ok d'"
proof -
  have eqs: "map (\<lambda>s. (sr_run s, sr_name s)) (jd_steps d') = map (\<lambda>s. (sr_run s, sr_name s)) (jd_steps d)"
    "map (\<lambda>s. (sr_run s, sr_pos s)) (jd_steps d') = map (\<lambda>s. (sr_run s, sr_pos s)) (jd_steps d)"
    "map r_id (jd_runs d') = map r_id (jd_runs d)"
    using assms(1-4) by (simp_all add: row_map_def run_map_def)
  have refs: "sr_run ` set (jd_steps d') = sr_run ` set (jd_steps d)" "r_id ` set (jd_runs d') = r_id ` set (jd_runs d)"
    using assms(1-4) by (simp_all add: row_map_def run_map_def image_image)
  have "\<forall>r\<in>set (jd_runs d'). r_created r \<noteq> - 62135596800000"
    using assms(2,4) tables_okD(5) [OF assms(5)] by (auto simp: run_map_def)
  then show ?thesis using tables_okD(1-4) [OF assms(5)] by (simp only: tables_ok_def eqs refs)
qed

lemma mapped_go_on:
  assumes "row_map (jd_steps d) f" and "run_map g" and "jd_steps d' = map f (jd_steps d)" and "jd_runs d' = map g (jd_runs d)"
  shows "steps_go_on d d'" "keeps_ended d d'"
proof -
  show "steps_go_on d d'" using assms(1,3) by (fastforce simp: steps_go_on_def row_map_def row_key_def)
  have "row \<in> set (jd_steps d')" if "row \<in> set (jd_steps d)" "Terminal (sr_status row)" for row
    using that assms(1,3) by (metis image_eqI list.set_map row_map_def)
  moreover have "r \<in> set (jd_runs d')" if "r \<in> set (jd_runs d)" "ended_run r" for r
    using that assms(2,4) by (metis image_eqI list.set_map run_map_def)
  ultimately show "keeps_ended d d'" by (simp add: keeps_ended_def)
qed

lemma mapped_runs_go_on:
  "run_map g \<Longrightarrow> (\<And>r. Terminal (r_status (g r)) \<Longrightarrow> Terminal (r_status r)) \<Longrightarrow> jd_runs d' = map g (jd_runs d) \<Longrightarrow> runs_go_on d d'"
proof -
  assume g: "run_map g" "\<And>r. Terminal (r_status (g r)) \<Longrightarrow> Terminal (r_status r)" and d': "jd_runs d' = map g (jd_runs d)"
  show "runs_go_on d d'"
    unfolding runs_go_on_def d'
  proof (intro ballI impI)
    fix r' assume "r' \<in> set (map g (jd_runs d))" and t: "Terminal (r_status r')"
    then obtain r where r: "r \<in> set (jd_runs d)" "r' = g r" by auto
    moreover have "r_id r' = r_id r" using g(1) r(2) by (simp add: run_map_def)
    moreover have "Terminal (r_status r)" by (rule g(2)) (use t r(2) in simp)
    ultimately show "\<exists>r\<in>set (jd_runs d). r_id r = r_id r' \<and> Terminal (r_status r)" by metis
  qed
qed

lemma change_all_map: "row_map rows (change_all cost_of runID cs)"
  by (simp add: row_map_def change_all_ended)

lemma change_run_map: "run_map (change_one_run runID rc)"
  by (auto simp: run_map_def change_one_run_def ended_run_def split: option.splits)

lemma recover_map: "row_map rows (\<lambda>row. if sr_status row = Running then recover_row now row else row)"
  by (auto simp: row_map_def recover_row_def Terminal_def)

lemma requeue_map:
  "row_map rows (\<lambda>row. if sr_run row = runID \<and> sr_name row = name \<and> sr_status row = Waiting then requeue_row now row else row)"
  by (auto simp: row_map_def requeue_row_def Terminal_def)

lemma start_runs_map: "run_map (fold (start_run now) out)"
proof -
  have "ended_run r \<Longrightarrow> fold (start_run now) out r = r" for r
    by (induction out) (auto simp: start_run_def ended_run_def)
  moreover have "r_ref (fold (start_run now) out r) = r_ref r \<and> r_idem (fold (start_run now) out r) = r_idem r" for r
    by (induction out arbitrary: r) (simp_all add: start_run_def)
  ultimately show ?thesis by (simp add: run_map_def)
qed

lemma start_runs_status: "Terminal (r_status (fold (start_run now) out r)) \<Longrightarrow> Terminal (r_status r)"
proof (induction out arbitrary: r)
  case (Cons st out)
  have "Terminal (r_status (start_run now st r))" by (rule Cons.IH) (use Cons.prems in simp)
  then show ?case by (auto simp: start_run_def Terminal_def split: if_splits)
qed simp

subsection \<open>The operations\<close>

text \<open>The runs by their idempotency keys, and what an operation on the tables keeps, whatever is in flight.\<close>

definition run_keys :: "jobs \<Rightarrow> (string \<times> string \<times> string) set" where
  "run_keys d = set (map (\<lambda>r. (r_id r, r_ref r, r_idem r)) (jd_runs d))"

definition goes_on :: "jobs \<Rightarrow> jobs \<Rightarrow> bool" where
  "goes_on d d' \<longleftrightarrow> tables_ok d' \<and> steps_go_on d d' \<and> keeps_ended d d' \<and> run_keys d' \<subseteq> run_keys d"

lemma mapped_goes_on:
  assumes "tables_ok d" and "row_map (jd_steps d) f" and "run_map g" and "jd_steps d' = map f (jd_steps d)" and "jd_runs d' = map g (jd_runs d)"
  shows "goes_on d d'"
proof -
  have "run_keys d' = run_keys d" using assms(3,5) by (simp add: run_keys_def run_map_def image_image)
  then show ?thesis
    unfolding goes_on_def using mapped_tables_ok [OF assms(2-5) assms(1)] mapped_go_on [OF assms(2-5)] by simp
qed

lemma same_goes_on:
  assumes "tables_ok d" and "jd_steps d' = jd_steps d" and "jd_runs d' = jd_runs d"
  shows "goes_on d d'" "runs_go_on d d'"
  using mapped_goes_on [OF assms(1) row_map_id, of d'] mapped_runs_go_on [OF row_map_id(2), of d' d] assms by simp_all

lemma goes_on_same:
  assumes "jd_steps d2 = jd_steps d1" and "jd_runs d2 = jd_runs d1"
  shows "goes_on d d1 \<Longrightarrow> goes_on d d2" "runs_go_on d d1 \<Longrightarrow> runs_go_on d d2"
proof -
  have "goes_on d d1 = goes_on d d2" "runs_go_on d d1 = runs_go_on d d2"
    by (simp_all only: goes_on_def tables_ok_def steps_go_on_def keeps_ended_def runs_go_on_def run_keys_def assms)
  then show "goes_on d d1 \<Longrightarrow> goes_on d d2" "runs_go_on d d1 \<Longrightarrow> runs_go_on d d2" by simp_all
qed

lemma apply_goes_on [keeps_inv]: "tables_ok d \<Longrightarrow> goes_on d (store_apply cost_of runID cs rc d)"
  by (rule mapped_goes_on [OF _ change_all_map [where cost_of = cost_of and runID = runID and cs = cs]
        change_run_map [where runID = runID and rc = rc]]) (simp_all add: store_apply_steps store_apply_runs)

lemma apply_runs_go_on: "runs_go_on d (store_apply cost_of runID cs None d)"
  by (rule mapped_runs_go_on [OF change_run_map [of runID None]]) (simp_all add: store_apply_runs change_one_run_def)

lemma recover_goes_on [keeps_inv]:
  assumes "tables_ok d" and "recoverRunning now d = (n, d')"
  shows "goes_on d d'" "runs_go_on d d'"
proof -
  have d': "jd_steps d' = map (\<lambda>row. if sr_status row = Running then recover_row now row else row) (jd_steps d)"
    "jd_runs d' = map (\<lambda>r. r) (jd_runs d)"
    using assms(2) by (auto simp: recoverRunning_def)
  show "goes_on d d'" by (rule mapped_goes_on [OF assms(1) recover_map row_map_id(2) d'])
  show "runs_go_on d d'" by (rule mapped_runs_go_on [OF row_map_id(2) _ d'(2)])
qed

lemma requeue_goes_on [keeps_inv]:
  assumes "tables_ok d" and "requeueWaiting runID name now d = (ok, d')"
  shows "goes_on d d'" "runs_go_on d d'"
proof -
  have d': "jd_steps d' = map (\<lambda>row. if sr_run row = runID \<and> sr_name row = name \<and> sr_status row = Waiting then requeue_row now row else row) (jd_steps d)"
    "jd_runs d' = map (\<lambda>r. r) (jd_runs d)"
    using assms(2) by (auto simp: requeueWaiting_def Let_def)
  show "goes_on d d'" by (rule mapped_goes_on [OF assms(1) requeue_map row_map_id(2) d'])
  show "runs_go_on d d'" by (rule mapped_runs_go_on [OF row_map_id(2) _ d'(2)])
qed

lemma claim_refused:
  assumes "claim tick now n lease interactive fair False gate d = (res, gate', d')"
  shows "jd_steps d' = jd_steps d \<and> jd_runs d' = jd_runs d"
proof -
  obtain out0 gate0 d0 where p: "(if fair then let fs = pickFair tick now n interactive gate d in (fs_out fs, fs_gate fs, d\<lparr>jd_served := fs_served fs, jd_turn := fs_turn fs\<rparr>)
            else case pickInOrder tick now n interactive gate d of (out, gate') \<Rightarrow> (out, gate', d)) = (out0, gate0, d0)"
    by (rule prod_cases3)
  then show ?thesis using picks [OF p] assms unfolding claim_def p by simp
qed

lemma claim_goes_on [keeps_inv]:
  assumes "tables_ok d" and "claim tick now n lease interactive fair commits gate d = (res, gate', d')"
  shows "goes_on d d'" "runs_go_on d d'"
proof -
  have "goes_on d d' \<and> runs_go_on d d'"
  proof (cases commits)
    case False
    then have "jd_steps d' = jd_steps d" "jd_runs d' = jd_runs d" using claim_refused assms(2) by (metis (full_types))+
    from same_goes_on [OF assms(1) this] show ?thesis by simp
  next
    case True
    obtain out where res: "res = Inr out"
      using assms(2) True unfolding claim_def by (auto simp: Let_def split: prod.splits)
    have "claim tick now n lease interactive fair True gate d = (Inr out, gate', d')" using assms(2) True res by simp
    note c = claim_spec [OF assms(1) this]
    let ?f = "\<lambda>row. if row_key row \<in> step_key ` set out then run_row_of now lease row else row"
    have "row_map (jd_steps d) ?f"
      unfolding row_map_def
    proof (intro ballI conjI impI)
      fix row assume row: "row \<in> set (jd_steps d)" "Terminal (sr_status row)"
      have "row_key row \<notin> step_key ` set out"
      proof
        assume "row_key row \<in> step_key ` set out"
        then obtain row' where row': "row' \<in> set (jd_steps d)" "row_key row' = row_key row" "due now row'" using c(3) by force
        then have "row' = row"
          using tables_okD(2) [OF assms(1)] row(1) by (auto simp: distinct_map inj_on_def row_key_def)
        then show False using row' row(2) by (auto simp: due_def Terminal_def)
      qed
      then show "?f row = row" by simp
    qed (auto simp: run_row_of_def)
    from mapped_goes_on [OF assms(1) this start_runs_map c(4,5)]
      mapped_runs_go_on [OF start_runs_map _ c(5)] start_runs_status show ?thesis by blast
  qed
  then show "goes_on d d'" "runs_go_on d d'" by simp_all
qed

lemma prune_goes_on [keeps_inv]:
  assumes "tables_ok d" and "Prune cutoff d = (n, d')"
  shows "goes_on d d'" "runs_go_on d d'"
proof -
  let ?old = "\<lambda>r. r_finished r > 0 \<and> r_finished r < ms cutoff"
  have d': "jd_runs d' = filter (\<lambda>r. \<not> ?old r) (jd_runs d)"
    "jd_steps d' = filter (\<lambda>row. sr_run row \<notin> r_id ` set (filter ?old (jd_runs d))) (jd_steps d)"
    using assms(2) by (auto simp: Prune_def Let_def)
  have gone: "r_id r \<notin> r_id ` set (jd_runs d')" if "r \<in> set (jd_runs d)" "?old r" for r
    using tables_okD(1) [OF assms(1)] that by (auto simp: d' distinct_map dest: inj_onD)
  have "sr_run row \<in> r_id ` set (jd_runs d')" if "row \<in> set (jd_steps d')" for row
  proof -
    have row: "row \<in> set (jd_steps d)" "sr_run row \<notin> r_id ` set (filter ?old (jd_runs d))" using that by (simp_all add: d'(2))
    have "sr_run row \<in> r_id ` set (jd_runs d)" using subsetD [OF tables_okD(4) [OF assms(1)] imageI [OF row(1)]] .
    then obtain r where r: "r \<in> set (jd_runs d)" "r_id r = sr_run row" by force
    have "\<not> ?old r"
    proof
      assume "?old r"
      then have "r_id r \<in> r_id ` set (filter ?old (jd_runs d))" using r(1) by (intro imageI) simp
      then show False using row(2) by (simp only: r(2))
    qed
    then have "r \<in> set (jd_runs d')" using r(1) by (simp add: d'(1))
    then show ?thesis using r(2) by (metis imageI)
  qed
  moreover have "distinct (map r_id (jd_runs d'))" "distinct (map (\<lambda>s. (sr_run s, sr_name s)) (jd_steps d'))"
    "distinct (map (\<lambda>s. (sr_run s, sr_pos s)) (jd_steps d'))"
    using tables_okD(1-3) [OF assms(1)] by (simp_all add: d' distinct_map_filter)
  moreover have "\<forall>r\<in>set (jd_runs d'). r_created r \<noteq> - 62135596800000"
    using tables_okD(5) [OF assms(1)] by (simp add: d')
  ultimately have "tables_ok d'" by (auto simp: tables_ok_def)
  moreover have "steps_go_on d d'" by (auto simp: steps_go_on_def d')
  moreover have "keeps_ended d d'"
    unfolding keeps_ended_def
  proof (intro conjI ballI impI)
    fix row assume row: "row \<in> set (jd_steps d)"
    show "row \<in> set (jd_steps d') \<or> sr_run row \<notin> r_id ` set (jd_runs d')"
    proof (cases "sr_run row \<in> r_id ` set (filter ?old (jd_runs d))")
      case True
      then obtain r where "r \<in> set (filter ?old (jd_runs d))" "sr_run row = r_id r" by blast
      then show ?thesis using gone [of r] by simp
    next
      case False
      then show ?thesis using row by (simp only: d'(2)) simp
    qed
  next
    fix r assume "r \<in> set (jd_runs d)"
    then show "r \<in> set (jd_runs d') \<or> r_id r \<notin> r_id ` set (jd_runs d')" using gone by (auto simp: d'(1))
  qed
  moreover have "run_keys d' \<subseteq> run_keys d" by (auto simp: run_keys_def d'(1))
  ultimately show "goes_on d d'" by (simp add: goes_on_def)
  show "runs_go_on d d'" by (auto simp: runs_go_on_def d')
qed

end
