(* ===== verification/JobReach.thy ===== *)
theory JobReach
  imports JobInv
begin

text \<open>
  The reachable states of the jobs: their invariant, and the properties of the runner that rest
  on it.
\<close>

subsection \<open>New runs\<close>

lemma insert_steps_new:
  "insert_steps runID i sts rows = Some rows' \<Longrightarrow>
     \<exists>new. rows' = rows @ new \<and> (\<forall>row\<in>set new. sr_run row = runID \<and> i \<le> sr_pos row) \<and>
       (distinct (map row_key rows) \<longrightarrow> distinct (map row_key rows')) \<and> distinct (map sr_pos new)"
proof (induction runID i sts rows rule: insert_steps.induct)
  case (2 runID i st sts rows)
  let ?st = "if s_status st = NoStatus then st\<lparr>s_status := Pending\<rparr> else st"
  let ?new = "new_step_row runID i ?st"
  have fresh: "\<not> list_ex (\<lambda>row. sr_run row = runID \<and> sr_name row = s_name ?st) rows"
    and rec: "insert_steps runID (i + 1) sts (rows @ [?new]) = Some rows'"
    using "2.prems" by (simp_all add: Let_def split: if_splits)
  have name: "s_name ?st = s_name st" by simp
  have key: "row_key ?new = (runID, s_name ?st)" and run: "sr_run ?new = runID" and pos: "sr_pos ?new = i"
    by (simp_all add: new_step_row_def row_key_def)
  from "2.IH" [OF refl fresh rec] obtain new where new: "rows' = rows @ ?new # new"
    "\<forall>row\<in>set new. sr_run row = runID \<and> i + 1 \<le> sr_pos row" "distinct (map sr_pos new)"
    "distinct (map row_key (rows @ [?new])) \<longrightarrow> distinct (map row_key rows')" by auto
  have "row_key ?new \<notin> row_key ` set rows"
    using fresh unfolding key name by (auto simp: list_ex_iff row_key_def)
  moreover have "i \<notin> sr_pos ` set new" using new(2) by auto
  ultimately show ?case using new run pos by (intro exI [of _ "?new # new"]) auto
qed simp

lemma store_run_ok:
  assumes "tables_ok d" and "store_run r steps d = (Inr (r', ex), d')" and "ms (r_created r) \<noteq> - 62135596800000"
  shows "\<exists>new. jd_runs d' = jd_runs d @ [run_row r] \<and> jd_steps d' = jd_steps d @ new \<and> (\<forall>row\<in>set new. sr_run row = r_id r) \<and>
     r_id r \<notin> r_id ` set (jd_runs d) \<and> tables_ok d'"
proof -
  have fresh: "r_id r \<notin> r_id ` set (jd_runs d)"
    using assms(2) by (auto simp: store_run_def list_ex_iff split: if_splits)
  then obtain rows where ins: "insert_steps (r_id r) 0 steps (jd_steps d) = Some rows"
    and d': "jd_runs d' = jd_runs d @ [run_row r]" "jd_steps d' = rows"
    using assms(2) by (auto simp: store_run_def list_ex_iff split: if_splits option.splits)
  from insert_steps_new [OF ins] obtain new where new: "rows = jd_steps d @ new" "\<forall>row\<in>set new. sr_run row = r_id r"
    "distinct (map row_key (jd_steps d)) \<longrightarrow> distinct (map row_key rows)" "distinct (map sr_pos new)" by blast
  have none: "sr_run row \<noteq> r_id r" if "row \<in> set (jd_steps d)" for row
    using tables_okD(4) [OF assms(1)] fresh that by (metis imageI subsetD)
  have "distinct (map (\<lambda>s. (sr_run s, sr_name s)) (jd_steps d'))"
    using new(3) tables_okD(2) [OF assms(1)] by (simp add: d' row_key_def [abs_def])
  moreover have "distinct (map (\<lambda>s. (sr_run s, sr_pos s)) new)"
    using new(4) by (auto simp: distinct_map inj_on_def)
  then have "distinct (map (\<lambda>s. (sr_run s, sr_pos s)) (jd_steps d'))"
    using tables_okD(3) [OF assms(1)] new(2) none by (auto simp: d' new(1))
  moreover have "sr_run ` set (jd_steps d') \<subseteq> r_id ` set (jd_runs d')"
    using tables_okD(4) [OF assms(1)] new(2) by (auto simp: d' new(1) run_row_def)
  moreover have "distinct (map r_id (jd_runs d'))" using tables_okD(1) [OF assms(1)] fresh by (auto simp: d' run_row_def)
  moreover have "\<forall>r\<in>set (jd_runs d'). r_created r \<noteq> - 62135596800000"
    using tables_okD(5) [OF assms(1)] assms(3) by (auto simp: d' run_row_def)
  ultimately have "tables_ok d'" by (simp add: tables_ok_def)
  then show ?thesis using d' new(1,2) fresh by blast
qed

lemma create_cases:
  assumes "CreateJobRun newID now r steps d = (res, d')"
  shows "d' = d \<or> (\<exists>r' ex. store_run (fill_run newID now r) steps d = (Inr (r', ex), d'))"
  using assms by (auto simp: CreateJobRun_def store_run_def split: if_splits sum.splits option.splits)

subsection \<open>The invariant\<close>

definition job_inv :: "job_sys \<Rightarrow> bool" where
  "job_inv s \<longleftrightarrow> tables_ok (js_db s) \<and> runs_ended (js_db s) \<and>
     (\<forall>runID dec. fmlookup (js_deciding s) runID = Some dec \<longrightarrow> decision_ends (js_db s) runID dec)"

lemma job_invD:
  assumes "job_inv s"
  shows "tables_ok (js_db s)" "runs_ended (js_db s)"
    "fmlookup (js_deciding s) runID = Some dec \<Longrightarrow> decision_ends (js_db s) runID dec"
  using assms unfolding job_inv_def by blast+

lemma job_invI:
  assumes "tables_ok (js_db s)" and "runs_ended (js_db s)"
    and "\<And>runID dec. fmlookup (js_deciding s) runID = Some dec \<Longrightarrow> decision_ends (js_db s) runID dec"
  shows "job_inv s"
  unfolding job_inv_def using assms by blast

lemma inv_goes_on:
  assumes "job_inv s" and "goes_on (js_db s) d" and "runs_go_on (js_db s) d"
    and "\<And>runID dec. fmlookup m runID = Some dec \<Longrightarrow> fmlookup (js_deciding s) runID = Some dec"
  shows "job_inv \<lparr>js_db = d, js_gate = gate, js_deciding = m, js_expired = ex\<rparr>"
proof (rule job_invI, goal_cases)
  case 1
  show ?case using assms(2) by (simp add: goes_on_def)
next
  case 2
  show ?case using runs_ended_go_on [OF job_invD(2) [OF assms(1)] _ assms(3)] assms(2) by (simp add: goes_on_def)
next
  case (3 runID dec)
  then have "decision_ends (js_db s) runID dec" using job_invD(3) [OF assms(1)] assms(4) by simp
  then show ?case using decision_ends_go_on assms(2) by (simp add: goes_on_def)
qed

lemma inv_db:
  assumes "job_inv s" and "goes_on (js_db s) d" and "runs_go_on (js_db s) d"
  shows "job_inv (s\<lparr>js_db := d\<rparr>)"
  using inv_goes_on [OF assms, of "js_deciding s" "js_gate s" "js_expired s"] by (cases s) simp

lemma inv_same: "job_inv s \<Longrightarrow> js_db s' = js_db s \<Longrightarrow> js_deciding s' = js_deciding s \<Longrightarrow> job_inv s'"
  by (simp add: job_inv_def)

lemma inv_decide:
  assumes "job_inv s" and "decision_ends (js_db s) runID dec"
  shows "job_inv (s\<lparr>js_deciding := fmupd runID dec (js_deciding s)\<rparr>)"
  using job_invD [OF assms(1)] assms(2) by (intro job_invI) (auto split: if_splits)

lemma Steps_row: "row \<in> set (jd_steps d) \<Longrightarrow> sr_run row = runID \<Longrightarrow> scanStep row \<in> set (Steps runID d)"
  by (auto simp: Steps_def)

lemma scan_fields [simp]: "s_name (scanStep row) = sr_name row" "s_status (scanStep row) = sr_status row" "s_run (scanStep row) = sr_run row"
  by (simp_all add: scanStep_def)

lemma read_next_ends:
  assumes "read_next execs now runID d = Inr (Some dec)"
  shows "decision_ends d runID dec"
proof -
  obtain run nx where dec: "dec = decide nx now run (Steps runID d)"
    using assms by (auto simp: read_next_def split: sum.splits if_splits)
  obtain cs rc where eq: "decide nx now run (Steps runID d) = (cs, rc)" by (rule prod.exhaust)
  show ?thesis
  proof (cases rc)
    case (Some c)
    then show ?thesis
      using decide_ends [OF eq [unfolded Some]] Steps_row [of _ d runID] by (fastforce simp: decision_ends_def dec eq)
  qed (simp add: decision_ends_def dec eq)
qed

lemma read_cancel_ends:
  assumes "read_cancel reason now runID d = Inr dec"
  shows "decision_ends d runID dec"
proof -
  have "dec = cancel_changes reason now (Steps runID d)"
    using assms by (auto simp: read_cancel_def split: sum.splits if_splits)
  then show ?thesis using cancel_ends [of _ "Steps runID d" reason now] Steps_row [of _ d runID]
    by (fastforce simp: decision_ends_def split: option.splits)
qed

lemma create_keeps [keeps_inv]:
  assumes "job_inv s" and "submittable s (fill_run newID now r)" and "CreateJobRun newID now r steps (js_db s) = (res, d)"
  shows "job_inv (s\<lparr>js_db := d\<rparr>)"
proof (cases "d = js_db s")
  case True
  then show ?thesis using assms(1) by (simp add: job_inv_def)
next
  case False
  let ?r = "fill_run newID now r"
  note inv = job_invD [OF assms(1)]
  obtain r' ex where "store_run ?r steps (js_db s) = (Inr (r', ex), d)" using create_cases [OF assms(3)] False by blast
  from store_run_ok [OF inv(1) this] assms(2) obtain new where
    d: "jd_runs d = jd_runs (js_db s) @ [run_row ?r]" "jd_steps d = jd_steps (js_db s) @ new" "\<forall>row\<in>set new. sr_run row = r_id ?r"
      "r_id ?r \<notin> r_id ` set (jd_runs (js_db s))" "tables_ok d"
    by (auto simp: submittable_def)
  have "\<not> Terminal (r_status ?r)" using assms(2) by (auto simp: submittable_def Terminal_def)
  then have "runs_ended d"
    using inv(2) d(1-4) by (fastforce simp: runs_ended_def run_row_def)
  moreover have "decision_ends d runID dec" if "fmlookup (js_deciding s) runID = Some dec" for runID dec
  proof -
    have "decision_ends (js_db s) runID dec" using inv(3) that by blast
    moreover have "runID \<noteq> r_id ?r" using assms(2) that by (auto simp: submittable_def)
    ultimately show ?thesis using d(2,3) by (auto simp: decision_ends_def split: option.splits)
  qed
  ultimately show ?thesis using d(5) by (intro job_invI) simp_all
qed

text \<open>The decision of a run, written: the run ends only with all its steps.\<close>

lemma write_keeps [keeps_inv]:
  assumes "job_inv s" and dec: "fmlookup (js_deciding s) runID = Some (cs, rc)"
  shows "job_inv (s\<lparr>js_db := store_apply cost_of runID cs rc (js_db s), js_deciding := fmdrop runID (js_deciding s)\<rparr>)"
proof -
  let ?d = "store_apply cost_of runID cs rc (js_db s)"
  have inv: "tables_ok (js_db s)" "runs_ended (js_db s)" "decision_ends (js_db s) runID (cs, rc)"
    using job_invD [OF assms(1)] dec by blast+
  note on = apply_goes_on [OF inv(1), of cost_of runID cs rc]
  have "runs_ended ?d"
    unfolding runs_ended_def
  proof (intro ballI impI)
    fix r' row'
    assume r': "r' \<in> set (jd_runs ?d)" "Terminal (r_status r')" and row': "row' \<in> set (jd_steps ?d)" "sr_run row' = r_id r'"
    obtain r where r: "r \<in> set (jd_runs (js_db s))" "r' = change_one_run runID rc r" using r'(1) by (auto simp: store_apply_runs)
    obtain row where row: "row \<in> set (jd_steps (js_db s))" "row' = change_all cost_of runID cs row" using row'(1) by (auto simp: store_apply_steps)
    have ids: "r_id r' = r_id r" "sr_run row = r_id r"
      using r(2) row(2) row'(2) by (auto simp: change_one_run_def split: option.splits)
    show "Terminal (sr_status row')"
    proof (cases "Terminal (r_status r)")
      case True
      then have "Terminal (sr_status row)" using inv(2) r(1) row(1) ids by (auto simp: runs_ended_def)
      then show ?thesis by (simp add: row(2) change_all_ended)
    next
      case False
      then obtain c where "rc = Some c" "r_id r = runID" "Terminal (rc_status c)"
        using r' r(2) by (auto simp: change_one_run_def split: option.splits if_splits)
      then show ?thesis using inv(3) row ids by (simp add: decision_ends_def change_all_status)
    qed
  qed
  moreover have "decision_ends ?d runID' dec'" if "fmlookup (fmdrop runID (js_deciding s)) runID' = Some dec'" for runID' dec'
  proof (rule decision_ends_go_on)
    show "decision_ends (js_db s) runID' dec'" using job_invD(3) [OF assms(1)] that by (simp split: if_splits)
    show "steps_go_on (js_db s) ?d" using on by (simp add: goes_on_def)
  qed
  ultimately show ?thesis using on by (intro job_invI) (simp_all add: goes_on_def)
qed

lemma end_wait_cases:
  assumes "end_wait cost_of now runID name st output errMsg d = (res, d')"
  shows "d' = d \<or> (\<exists>c. d' = store_apply cost_of runID [c] None d)"
  using assms by (auto simp: end_wait_def split: if_splits sum.splits)

lemma job_step_inv: "job_step cost_of execs s s' \<Longrightarrow> job_inv s \<Longrightarrow> job_inv s'"
proof (induction rule: job_step.induct)
  case (Create newID now r steps s res d)
  then show ?case by (intro create_keeps)
next
  case (Claim tick now n lease interactive fair commits s res gate d)
  note on = claim_goes_on [OF job_invD(1) [OF Claim(2)] Claim(1)]
  show ?case using inv_goes_on [OF Claim(2) on, of "js_deciding s" gate "js_expired s"] by (cases s) simp
next
  case (Places s gate)
  then show ?case by (rule inv_same) simp_all
next
  case (ReadNext s runID now dec)
  then show ?case by (intro inv_decide read_next_ends)
next
  case (ReadCancel s runID reason now dec)
  then show ?case by (intro inv_decide read_cancel_ends)
next
  case (Write s runID changes rc)
  then show ?case by (intro write_keeps)
next
  case (StepDone s st show_status now stopping res c)
  then show ?case by (intro inv_db apply_goes_on apply_runs_go_on job_invD(1))
next
  case (WaitEnded s runID now name st out_text errMsg res d)
  from end_wait_cases [OF WaitEnded(2)] show ?case
  proof
    assume "d = js_db s"
    then show ?thesis using WaitEnded(3) by (intro inv_same [OF WaitEnded(3)]) simp_all
  next
    assume "\<exists>c. d = store_apply cost_of runID [c] None (js_db s)"
    then show ?thesis using WaitEnded(3) by (auto intro: inv_db apply_goes_on apply_runs_go_on job_invD(1))
  qed
next
  case (Again s runID name now ok d)
  note on = requeue_goes_on [OF job_invD(1) [OF Again(3)] Again(2)]
  from inv_db [OF Again(3) on] show ?case .
next
  case (ReadExpired s now)
  then show ?case by (rule inv_same) simp_all
next
  case (Expire st s show_time now)
  then show ?case unfolding expire_one_def by (intro inv_db apply_goes_on apply_runs_go_on job_invD(1))
next
  case (Pruned cutoff s n d)
  note on = prune_goes_on [OF job_invD(1) [OF Pruned(2)] Pruned(1)]
  from inv_db [OF Pruned(2) on] show ?case .
next
  case (Restart now s n d gate)
  note on = recover_goes_on [OF job_invD(1) [OF Restart(2)] Restart(1)]
  let ?d = "d\<lparr>jd_served := fmempty, jd_turn := 0\<rparr>"
  have "goes_on (js_db s) ?d" "runs_go_on (js_db s) ?d"
    using goes_on_same [of ?d d "js_db s"] on by simp_all
  from inv_goes_on [OF Restart(2) this, of fmempty gate "[]"] show ?case by simp
qed

lemma job_reachable_inv: "job_reachable cost_of execs s \<Longrightarrow> job_inv s"
proof (induction rule: job_reachable.induct)
  case (Opened gate)
  show ?case by (rule job_invI) (simp_all add: new_sys_def open_jobs_def tables_ok_def runs_ended_def)
next
  case (Next s s')
  show ?case by (rule job_step_inv [OF Next(2,3)])
qed

subsection \<open>What a run that ended means\<close>

text \<open>In every state the jobs reach, however claims, results, resumes, cancellations, expired waits,
  prunings and restarts interleave, a run that ended has only steps that ended.\<close>

theorem run_ends_whole:
  assumes "job_reachable cost_of execs s" and "r \<in> set (jd_runs (js_db s))" and "Terminal (r_status r)"
    and "row \<in> set (jd_steps (js_db s))" and "sr_run row = r_id r"
  shows "Terminal (sr_status row)"
  using job_invD(2) [OF job_reachable_inv [OF assms(1)]] assms(2-5) by (auto simp: runs_ended_def)

lemma create_keeps_ended:
  assumes "tables_ok d" and "ms (r_created (fill_run newID now r)) \<noteq> - 62135596800000" and "CreateJobRun newID now r steps d = (res, d')"
  shows "keeps_ended d d'"
proof (cases "d' = d")
  case False
  then obtain r' ex where "store_run (fill_run newID now r) steps d = (Inr (r', ex), d')" using create_cases [OF assms(3)] by blast
  from store_run_ok [OF assms(1) this assms(2)] show ?thesis by (auto simp: keeps_ended_def)
qed (simp add: keeps_ended_def)

lemma keeps_ended_refl: "keeps_ended d d"
  by (simp add: keeps_ended_def)

lemma goes_on_keeps: "goes_on d d' \<Longrightarrow> keeps_ended d d'"
  by (simp add: goes_on_def)

lemmas keeps_rules = keeps_ended_refl goes_on_keeps [OF apply_goes_on] goes_on_keeps [OF requeue_goes_on(1)]
  goes_on_keeps [OF prune_goes_on(1)] goes_on_keeps [OF claim_goes_on(1)]

text \<open>C13: What ended is final: whatever step the jobs take, a step that ended is unchanged, late results,
  expired waits and cancellations of it included, and so is a run that ended, until pruning deletes the run.\<close>

theorem ended_is_final:
  assumes "job_reachable cost_of execs s" and "job_step cost_of execs s s'"
  shows "keeps_ended (js_db s) (js_db s')"
  using assms(2) job_invD(1) [OF job_reachable_inv [OF assms(1)]]
proof (induction rule: job_step.induct)
  case (Create newID now r steps s res d)
  then show ?case by (auto simp: submittable_def intro: create_keeps_ended)
next
  case (WaitEnded s runID now name st out_text errMsg res d)
  from end_wait_cases [OF WaitEnded(2)] WaitEnded(3) show ?case by (auto intro: keeps_rules)
next
  case (Restart now s n d gate)
  let ?d = "d\<lparr>jd_served := fmempty, jd_turn := 0\<rparr>"
  have "goes_on (js_db s) ?d" using goes_on_same(1) [of ?d d "js_db s"] recover_goes_on(1) [OF Restart(2,1)] by simp
  then show ?case by (simp add: goes_on_keeps)
qed (auto simp: expire_one_def intro: keeps_rules)

subsection \<open>One run for an idempotency key\<close>

definition keys_once :: "(string \<times> string \<times> string) set \<Rightarrow> bool" where
  "keys_once ks \<longleftrightarrow> (\<forall>a\<in>ks. \<forall>b\<in>ks. snd a = snd b \<and> snd (snd a) \<noteq> [] \<longrightarrow> a = b)"

lemma keys_onceD: "keys_once ks \<Longrightarrow> (i, ref, key) \<in> ks \<Longrightarrow> (j, ref, key) \<in> ks \<Longrightarrow> key \<noteq> [] \<Longrightarrow> i = j"
  unfolding keys_once_def by (drule bspec, assumption, drule bspec, assumption) simp

lemma keys_once_sub: "keys_once ks \<Longrightarrow> ks' \<subseteq> ks \<Longrightarrow> keys_once ks'"
  by (auto simp: keys_once_def)

lemma keys_once_new:
  assumes "keys_once ks" and "key \<noteq> [] \<Longrightarrow> (ref, key) \<notin> snd ` ks"
  shows "keys_once (insert (i, ref, key) ks)"
  using assms by (force simp: keys_once_def)

lemma find_run_None: "find_run p d = Inl e \<Longrightarrow> r \<in> set (jd_runs d) \<Longrightarrow> \<not> p r"
  by (auto simp: find_run_def find_None_iff split: option.splits)

lemma create_key:
  assumes "CreateJobRun newID now r steps d = (res, d')"
  shows "d' = d \<or> run_keys d' = insert (r_id (fill_run newID now r), r_ref r, r_idem r) (run_keys d) \<and>
     (r_idem r \<noteq> [] \<longrightarrow> (r_ref r, r_idem r) \<notin> snd ` run_keys d)"
proof (cases "d' = d")
  case False
  have fill: "r_ref (fill_run newID now r) = r_ref r" "r_idem (fill_run newID now r) = r_idem r" by (simp_all add: fill_run_def Let_def)
  from False obtain r' ex where "store_run (fill_run newID now r) steps d = (Inr (r', ex), d')" using create_cases [OF assms] by blast
  then have "jd_runs d' = jd_runs d @ [run_row (fill_run newID now r)]"
    by (auto simp: store_run_def split: if_splits option.splits)
  then have "run_keys d' = insert (r_id (fill_run newID now r), r_ref r, r_idem r) (run_keys d)"
    by (simp add: run_keys_def run_row_def fill)
  moreover have "(r_ref r, r_idem r) \<notin> snd ` run_keys d" if key: "r_idem r \<noteq> []"
  proof -
    obtain e where "runByIdem (r_ref r) (r_idem r) d = Inl e"
      using assms False key by (cases "runByIdem (r_ref r) (r_idem r) d") (simp_all add: CreateJobRun_def)
    from find_run_None [OF this [unfolded runByIdem_def]] show ?thesis unfolding run_keys_def by fastforce
  qed
  ultimately show ?thesis by simp
qed simp

lemma goes_on_keys: "goes_on d d' \<Longrightarrow> keys_once (run_keys d) \<Longrightarrow> keys_once (run_keys d')"
  by (auto simp: goes_on_def intro: keys_once_sub)

lemmas key_rules = goes_on_keys [OF apply_goes_on] goes_on_keys [OF requeue_goes_on(1)]
  goes_on_keys [OF prune_goes_on(1)] goes_on_keys [OF claim_goes_on(1)]

lemma step_keys_once:
  assumes "job_step cost_of execs s s'" and "tables_ok (js_db s)" and "keys_once (run_keys (js_db s))"
  shows "keys_once (run_keys (js_db s'))"
  using assms
proof (induction rule: job_step.induct)
  case (Create newID now r steps s res d)
  from create_key [OF Create(1)] keys_once_new [OF Create(4)] Create(4) show ?case by auto
next
  case (WaitEnded s runID now name st out_text errMsg res d)
  from end_wait_cases [OF WaitEnded(2)] WaitEnded(3,4) show ?case by (auto intro: key_rules)
next
  case (Restart now s n d gate)
  have "run_keys (d\<lparr>jd_served := fmempty, jd_turn := 0\<rparr>) = run_keys d" by (simp add: run_keys_def)
  then show ?case using goes_on_keys [OF recover_goes_on(1) [OF Restart(2,1)] Restart(3)] by simp
qed (auto simp: expire_one_def intro: key_rules)

lemma reachable_keys_once: "job_reachable cost_of execs s \<Longrightarrow> keys_once (run_keys (js_db s))"
proof (induction rule: job_reachable.induct)
  case (Opened gate)
  show ?case by (simp add: new_sys_def open_jobs_def run_keys_def keys_once_def)
next
  case (Next s s')
  show ?case using step_keys_once [OF Next(2)] job_invD(1) [OF job_reachable_inv [OF Next(1)]] Next(3) by simp
qed

text \<open>C15: A run is submitted once for its idempotency key: in every state the jobs reach, two runs of one
  pipeline with one non-empty key are the same run, and submitting that key again gives the stored run, says it was there,
  and stores nothing, whatever the new request holds.\<close>

theorem submitted_once:
  assumes "job_reachable cost_of execs s" and "r \<in> set (jd_runs (js_db s))" and "r_idem r \<noteq> []"
  shows "(\<forall>r'\<in>set (jd_runs (js_db s)). r_ref r' = r_ref r \<and> r_idem r' = r_idem r \<longrightarrow> r_id r' = r_id r) \<and>
     (\<forall>newID now q steps. r_ref q = r_ref r \<and> r_idem q = r_idem r \<longrightarrow>
        (\<exists>old. CreateJobRun newID now q steps (js_db s) = (Inr (old, True), js_db s) \<and> r_id old = r_id r))"
proof -
  have key: "(r_id x, r_ref x, r_idem x) \<in> run_keys (js_db s)" if "x \<in> set (jd_runs (js_db s))" for x
    using that by (auto simp: run_keys_def)
  have same: "r_id x = r_id r" if "x \<in> set (jd_runs (js_db s))" "r_ref x = r_ref r" "r_idem x = r_idem r" for x
    using keys_onceD [OF reachable_keys_once [OF assms(1)]] key [OF that(1)] key [OF assms(2)] that(2,3) assms(3) by simp
  have "\<exists>old. CreateJobRun newID now q steps (js_db s) = (Inr (old, True), js_db s) \<and> r_id old = r_id r"
    if q: "r_ref q = r_ref r" "r_idem q = r_idem r" for newID now q steps
  proof -
    let ?p = "\<lambda>x. r_ref x = r_ref q \<and> r_idem x = r_idem q"
    obtain x where x: "find ?p (jd_runs (js_db s)) = Some x"
      using assms(2) q by (cases "find ?p (jd_runs (js_db s))") (auto simp: find_None_iff)
    then have "x \<in> set (jd_runs (js_db s))" "?p x" by (auto simp: find_Some_iff)
    then have "r_id x = r_id r" using same q by simp
    then show ?thesis using x q assms(3) by (simp add: CreateJobRun_def runByIdem_def find_run_def scanRun_def)
  qed
  then show ?thesis using same by blast
qed

subsection \<open>A run never gets stuck\<close>

definition active :: "status \<Rightarrow> bool" where
  "active s \<longleftrightarrow> s = Queued \<or> s = Running"

lemma see_steps_fold:
  "se_active (fold see_step steps se) \<longleftrightarrow> se_active se \<or> list_ex (\<lambda>st. active (s_status st)) steps"
  "se_waiting (fold see_step steps se) \<longleftrightarrow> se_waiting se \<or> list_ex (\<lambda>st. s_status st = Waiting) steps"
  "se_failed (fold see_step steps se) \<noteq> [] \<longleftrightarrow> se_failed se \<noteq> [] \<or> list_ex (\<lambda>st. s_status st = Failed) steps"
  by (induction steps arbitrary: se) (auto simp: see_step_def active_def split: status.splits)

lemma see_steps_eqs:
  "se_active (see_steps steps) \<longleftrightarrow> list_ex (\<lambda>st. active (s_status st)) steps"
  "se_waiting (see_steps steps) \<longleftrightarrow> list_ex (\<lambda>st. s_status st = Waiting) steps"
  "se_failed (see_steps steps) \<noteq> [] \<longleftrightarrow> list_ex (\<lambda>st. s_status st = Failed) steps"
  by (simp_all add: see_steps_def see_steps_fold)

text \<open>The three ways the runner derives the status of a run.\<close>

lemma derive_cases:
  "list_ex (\<lambda>st. active (s_status st)) steps \<Longrightarrow>
     derive run steps now = (if r_status run = Waiting then Some \<lparr>rc_status = Running, rc_error = [], rc_finished = 0\<rparr> else None)"
  "\<not> list_ex (\<lambda>st. active (s_status st)) steps \<Longrightarrow> list_ex (\<lambda>st. s_status st = Waiting) steps \<Longrightarrow>
     derive run steps now = (if r_status run \<noteq> Waiting then Some \<lparr>rc_status = Waiting, rc_error = [], rc_finished = 0\<rparr> else None)"
  "\<not> list_ex (\<lambda>st. active (s_status st)) steps \<Longrightarrow> \<not> list_ex (\<lambda>st. s_status st = Waiting) steps \<Longrightarrow>
     \<exists>c. derive run steps now = Some c \<and> rc_finished c = now \<and>
       (rc_status c = Failed \<or> rc_status c = Done \<and> \<not> list_ex (\<lambda>st. s_status st = Failed) steps)"
  using see_steps_eqs [of steps] by (auto simp: derive_def Let_def)

lemma sorted_filter_map:
  "(\<And>x. x \<in> set xs \<Longrightarrow> k (f x) = k x \<and> P (f x) = P x) \<Longrightarrow> sort_key k (filter P (map f xs)) = map f (sort_key k (filter P xs))"
proof (induction xs)
  case (Cons x xs)
  have "insort_key k (f x) (map f ys) = map f (insort_key k x ys)" if "\<forall>y\<in>set ys. k (f y) = k y" for ys
    using that Cons.prems by (induction ys) auto
  then show ?case using Cons by simp
qed simp

text \<open>The steps after a change, in terms of those before.\<close>

lemma Steps_applied:
  "map (\<lambda>st. (s_name st, s_status st)) (Steps runID (store_apply cost_of runID cs rc d)) =
     map (\<lambda>st. (s_name st, final_status cs (s_name st) (s_status st))) (Steps runID d)"
  unfolding Steps_def store_apply_steps
  by (subst sorted_filter_map) (auto simp: change_all_status)

lemma statuses_applied:
  "map s_status (Steps runID (store_apply cost_of runID cs rc d)) = map (\<lambda>st. final_status cs (s_name st) (s_status st)) (Steps runID d)"
  using arg_cong [OF Steps_applied, of "map snd" runID cost_of cs rc d] by (simp add: comp_def)

lemma applied_statuses: "map s_status (applied steps cs) = map (\<lambda>st. final_status cs (s_name st) (s_status st)) steps"
  by (simp add: applied_map)

lemma list_ex_map': "list_ex P (map f xs) = list_ex (\<lambda>x. P (f x)) xs" "list_all P (map f xs) = list_all (\<lambda>x. P (f x)) xs"
  by (induction xs) simp_all

lemma find_run_map:
  "(\<And>r. r_id (g r) = r_id r) \<Longrightarrow> find (\<lambda>r. r_id r = runID) (map g rs) = map_option g (find (\<lambda>r. r_id r = runID) rs)"
  by (induction rs) auto

lemma Run_applied:
  assumes "Run runID d = Inr run"
  shows "\<exists>run'. Run runID (store_apply cost_of runID cs rc d) = Inr run' \<and>
     r_status run' = (case rc of Some c \<Rightarrow> if ended_run run then r_status run else rc_status c | None \<Rightarrow> r_status run)"
proof -
  obtain row where row: "find (\<lambda>r. r_id r = runID) (jd_runs d) = Some row" "run = scanRun row"
    using assms by (auto simp: Run_def find_run_def split: option.splits)
  then have rid: "r_id row = runID" by (auto dest: find_Some_iff')
  have g: "r_id (change_one_run runID rc r) = r_id r" for r
    by (simp add: change_one_run_def split: option.split)
  have "find (\<lambda>r. r_id r = runID) (jd_runs (store_apply cost_of runID cs rc d)) = Some (change_one_run runID rc row)"
    by (simp add: store_apply_runs find_run_map [OF g] row(1))
  then show ?thesis using rid row(2)
    by (auto simp: Run_def find_run_def scanRun_def change_one_run_def ended_run_def split: option.split)
qed

text \<open>C14: After the runner advances a run whose executor leaves the status to it, the run can go on or
  has ended: while a step is queued or running it is neither waiting nor ended; with only waits left it
  is waiting; otherwise it is done or failed, failed if a step failed, and every step of it has ended.\<close>

theorem advance_not_stuck:
  assumes "Run runID d = Inr run" and "\<not> Terminal (r_status run)" and "fmlookup execs (r_kind run) = Some nx"
    and "nx run (Steps runID d) = (cs, None)" and "advance cost_of execs now runID d = (res, d')"
  shows "res = Inr () \<and> (\<exists>run'. Run runID d' = Inr run' \<and>
     (let sts = map s_status (Steps runID d') in
      if list_ex active sts then \<not> Terminal (r_status run') \<and> r_status run' \<noteq> Waiting
      else if list_ex (\<lambda>s. s = Waiting) sts then r_status run' = Waiting
      else list_all Terminal sts \<and> r_status run' \<in> {Done, Failed} \<and> (r_status run' = Done \<longrightarrow> Failed \<notin> set sts)))"
proof -
  let ?cs = "map (stamp_queued now) cs"
  let ?steps = "applied (Steps runID d) ?cs"
  define rc where "rc = derive run ?steps now"
  have d': "res = Inr ()" "d' = store_apply cost_of runID (?cs @ left_behind ?steps rc) rc d"
    using assms by (auto simp: advance_def read_next_def executor_of_def decide_def Let_def rc_def)
  obtain run' where run': "Run runID d' = Inr run'"
    "r_status run' = (case rc of Some c \<Rightarrow> rc_status c | None \<Rightarrow> r_status run)"
    using Run_applied [OF assms(1), of cost_of "?cs @ left_behind ?steps rc" rc] assms(2)
    by (auto simp: d'(2) ended_run_def Terminal_def split: option.splits)
  let ?sts = "map s_status (Steps runID d')"
  have sts: "?sts = map (\<lambda>st. final_status (left_behind ?steps rc) (s_name st) (s_status st)) ?steps"
    unfolding d'(2) statuses_applied by (simp add: applied_map comp_def)
  have as_applied: "?sts = map s_status ?steps" if "\<And>c. rc = Some c \<Longrightarrow> \<not> Terminal (rc_status c)"
    using that by (simp add: sts left_behind_def split: option.splits)
  consider (on) "list_ex (\<lambda>st. active (s_status st)) ?steps"
    | (wait) "\<not> list_ex (\<lambda>st. active (s_status st)) ?steps" "list_ex (\<lambda>st. s_status st = Waiting) ?steps"
    | (over) "\<not> list_ex (\<lambda>st. active (s_status st)) ?steps" "\<not> list_ex (\<lambda>st. s_status st = Waiting) ?steps" by blast
  then have "if list_ex active ?sts then \<not> Terminal (r_status run') \<and> r_status run' \<noteq> Waiting
      else if list_ex (\<lambda>s. s = Waiting) ?sts then r_status run' = Waiting
      else list_all Terminal ?sts \<and> r_status run' \<in> {Done, Failed} \<and> (r_status run' = Done \<longrightarrow> Failed \<notin> set ?sts)"
  proof cases
    case on
    from derive_cases(1) [OF on, of run now]
    have rc: "rc = (if r_status run = Waiting then Some \<lparr>rc_status = Running, rc_error = [], rc_finished = 0\<rparr> else None)"
      by (simp add: rc_def)
    have "?sts = map s_status ?steps" using as_applied rc by (simp add: Terminal_def split: if_splits)
    then have "list_ex active ?sts" using on by (simp only: list_ex_map')
    then show ?thesis using rc run'(2) assms(2) by (auto simp: Terminal_def)
  next
    case wait
    from derive_cases(2) [OF wait, of run now]
    have rc: "rc = (if r_status run \<noteq> Waiting then Some \<lparr>rc_status = Waiting, rc_error = [], rc_finished = 0\<rparr> else None)"
      by (simp add: rc_def)
    have "?sts = map s_status ?steps" using as_applied rc by (simp add: Terminal_def split: if_splits)
    then have "\<not> list_ex active ?sts" "list_ex (\<lambda>s. s = Waiting) ?sts" using wait by (simp_all only: list_ex_map' not_False_eq_True)
    then show ?thesis using rc run'(2) by (auto split: if_splits)
  next
    case over
    from derive_cases(3) [OF over, of run now] obtain c where c: "rc = Some c"
      "rc_status c = Failed \<or> rc_status c = Done \<and> \<not> list_ex (\<lambda>st. s_status st = Failed) ?steps" by (auto simp: rc_def)
    then have t: "Terminal (rc_status c)" by (auto simp: Terminal_def)
    have ended: "list_all Terminal ?sts"
      using left_behind_ends [OF t] by (auto simp: sts c(1) list_all_iff)
    then have none: "\<not> list_ex active ?sts" "\<not> list_ex (\<lambda>s. s = Waiting) ?sts"
      by (auto simp: list_all_iff list_ex_iff active_def Terminal_def)
    have "Failed \<notin> set ?sts" if "rc_status c = Done"
    proof
      assume "Failed \<in> set ?sts"
      then obtain st where st: "st \<in> set ?steps" "Failed = final_status (left_behind ?steps rc) (s_name st) (s_status st)" by (auto simp: sts)
      show False
      proof (cases "Terminal (s_status st)")
        case True
        then show False using st c(2) that by (auto simp: list_ex_iff)
      next
        case False
        have "final_status cs' name s \<noteq> Failed" if "\<forall>c\<in>set cs'. sc_status c = Canceled" "s \<noteq> Failed" for cs' name s
          using that by (induction cs' arbitrary: s) auto
        moreover have "\<forall>ch\<in>set (left_behind ?steps rc). sc_status ch = Canceled"
          by (auto simp: left_behind_def cancel_change_def no_change_def split: option.splits)
        moreover have "s_status st \<noteq> Failed" using False by (auto simp: Terminal_def)
        ultimately show False using st(2) by metis
      qed
    qed
    then show ?thesis using ended none c run'(2) by auto
  qed
  then show ?thesis using d'(1) run'(1) by (auto simp: Let_def)
qed

text \<open>A run of one step that ran and is done.\<close>

definition sample_after :: jobs where
  "sample_after = open_jobs\<lparr>jd_runs := [(sample_run ''a'' ''p'' 0 20)\<lparr>r_status := Running\<rparr>], jd_steps := [sample_row ''a'' ''one'' 0 Done []]\<rparr>"

definition sample_execs :: "(string, executor) fmap" where
  "sample_execs = fmupd ''pipeline'' (\<lambda>run steps. ([], None)) fmempty"

lemma advance_not_stuck_witness:
  "\<exists>run'. Run ''a'' (snd (advance (\<lambda>_. (0, 0)) sample_execs 5 ''a'' sample_after)) = Inr run' \<and> r_status run' \<in> {Done, Failed}"
proof -
  let ?r = "advance (\<lambda>_. (0, 0)) sample_execs 5 ''a'' sample_after"
  have run: "Run ''a'' sample_after = Inr (scanRun ((sample_run ''a'' ''p'' 0 20)\<lparr>r_status := Running\<rparr>))"
    by (simp add: Run_def find_run_def sample_after_def sample_run_def open_jobs_def)
  have res: "?r = (fst ?r, snd ?r)" by simp
  have "map s_status (Steps ''a'' (snd ?r)) = [Done]"
    by (simp add: advance_def read_next_def run executor_of_def sample_execs_def scanRun_def sample_run_def Terminal_def decide_def Let_def
        statuses_applied) (simp add: Steps_def sample_after_def sample_row_def open_jobs_def scanStep_def Terminal_def)
  moreover have "fmlookup sample_execs (r_kind (scanRun ((sample_run ''a'' ''p'' 0 20)\<lparr>r_status := Running\<rparr>))) = Some (\<lambda>run steps. ([], None))"
    by (simp add: sample_execs_def scanRun_def sample_run_def)
  ultimately show ?thesis
    using advance_not_stuck [OF run _ _ refl res] by (auto simp: scanRun_def Terminal_def active_def Let_def)
qed

subsection \<open>A run, canceled, and a late result\<close>

definition demo_run :: run where
  "demo_run = sample_run ''a'' ''p'' 0 epoch"

definition demo_step :: step where
  "demo_step = scanStep (sample_row ''a'' ''one'' 0 Queued [])"

definition demo_db :: "status \<Rightarrow> string \<Rightarrow> int \<Rightarrow> status \<Rightarrow> jobs" where
  "demo_db run_st err finished st = open_jobs\<lparr>
     jd_runs := [demo_run\<lparr>r_created := 0, r_status := run_st, r_error := err, r_finished := finished\<rparr>],
     jd_steps := [(sample_row ''a'' ''one'' 0 st [])\<lparr>sr_error := err, sr_finished := finished\<rparr>]\<rparr>"

definition demo_sys :: "jobs \<Rightarrow> (string, decision) fmap \<Rightarrow> job_sys" where
  "demo_sys d m = \<lparr>js_db = d, js_gate = None, js_deciding = m, js_expired = []\<rparr>"

definition demo_cancel :: decision where
  "demo_cancel = cancel_changes ''canceled'' (epoch + 1000000) (Steps ''a'' (demo_db Queued [] 0 Queued))"

lemmas demo_defs = demo_db_def demo_run_def demo_step_def demo_sys_def sample_run_def sample_row_def open_jobs_def epoch_def

lemma demo_create: "CreateJobRun ''x'' epoch demo_run [demo_step] open_jobs = (Inr (demo_run, False), demo_db Queued [] 0 Queued)"
  by (simp add: CreateJobRun_def fill_run_def store_run_def demo_defs run_row_def new_step_row_def scanStep_def split_names_def ms_def fromMS_def)

lemma demo_reached1: "job_reachable cost_of execs (demo_sys (demo_db Queued [] 0 Queued) fmempty)"
proof -
  have "submittable (new_sys None) (fill_run ''x'' epoch demo_run)"
    by (simp add: submittable_def fill_run_def demo_defs new_sys_def ms_def)
  from job_step.Create [where s = "new_sys None", OF _ this, of "[demo_step]" "Inr (demo_run, False)" "demo_db Queued [] 0 Queued" cost_of execs]
    job_reachable.Opened [of cost_of execs None]
  show ?thesis using demo_create by (auto simp: new_sys_def demo_sys_def intro: job_reachable.Next)
qed

lemma demo_steps: "Steps ''a'' (demo_db run_st err finished st) = [scanStep ((sample_row ''a'' ''one'' 0 st [])\<lparr>sr_error := err, sr_finished := finished\<rparr>)]"
  by (simp add: Steps_def demo_defs)

lemma demo_cancel_eq: "demo_cancel =
    ([(no_change ''one'' Canceled)\<lparr>sc_error := ''canceled'', sc_finished := epoch + 1000000\<rparr>],
     Some \<lparr>rc_status = Canceled, rc_error = ''canceled'', rc_finished = epoch + 1000000\<rparr>)"
  by (simp add: demo_cancel_def demo_steps cancel_changes_def cancel_change_def scanStep_def sample_row_def Terminal_def)

lemma demo_canceled:
  "store_apply cost_of ''a'' (fst demo_cancel) (snd demo_cancel) (demo_db Queued [] 0 Queued) = demo_db Canceled ''canceled'' 1 Canceled"
  by (simp add: demo_cancel_eq store_apply_def change_step_def change_run_def change_row_def no_change_def demo_defs ms_def)

lemma demo_reached3: "job_reachable cost_of execs (demo_sys (demo_db Canceled ''canceled'' 1 Canceled) fmempty)"
proof -
  let ?d = "demo_db Queued [] 0 Queued"
  have "read_cancel ''canceled'' (epoch + 1000000) ''a'' ?d = Inr demo_cancel"
    by (simp add: read_cancel_def demo_cancel_def Run_def find_run_def) (simp add: demo_defs scanRun_def Terminal_def)
  then have "job_step cost_of execs (demo_sys ?d fmempty) (demo_sys ?d (fmupd ''a'' demo_cancel fmempty))"
    using job_step.ReadCancel [of "demo_sys ?d fmempty" "''a''" "''canceled''" "epoch + 1000000" demo_cancel] by (simp add: demo_sys_def)
  with demo_reached1 have r2: "job_reachable cost_of execs (demo_sys ?d (fmupd ''a'' demo_cancel fmempty))" by (rule job_reachable.Next)
  have "fmdrop ''a'' (fmupd ''a'' demo_cancel fmempty) = fmempty" by (rule fmap_ext) simp
  then have "job_step cost_of execs (demo_sys ?d (fmupd ''a'' demo_cancel fmempty)) (demo_sys (demo_db Canceled ''canceled'' 1 Canceled) fmempty)"
    using job_step.Write [of "demo_sys ?d (fmupd ''a'' demo_cancel fmempty)" "''a''" "fst demo_cancel" "snd demo_cancel" cost_of execs]
    by (simp add: demo_sys_def demo_canceled)
  with r2 show ?thesis by (rule job_reachable.Next)
qed

lemma run_ends_whole_witness:
  "Terminal (sr_status (hd (jd_steps (demo_db Canceled ''canceled'' 1 Canceled))))"
  by (rule run_ends_whole [OF demo_reached3, where r = "hd (jd_runs (demo_db Canceled ''canceled'' 1 Canceled))"])
    (simp_all add: demo_defs Terminal_def)

lemma ended_is_final_witness:
  "keeps_ended (demo_db Canceled ''canceled'' 1 Canceled)
     (store_apply (\<lambda>_. (0, 0)) ''a'' [(no_change ''one'' Failed)\<lparr>sc_error := ''late'', sc_finished := epoch\<rparr>] None (demo_db Canceled ''canceled'' 1 Canceled))"
proof -
  let ?s = "demo_sys (demo_db Canceled ''canceled'' 1 Canceled) fmempty"
  have "job_step (\<lambda>_. (0, 0)) sample_execs ?s (?s\<lparr>js_db := store_apply (\<lambda>_. (0, 0)) (s_run demo_step)
      [(no_change ''one'' Failed)\<lparr>sc_error := ''late'', sc_finished := epoch\<rparr>] None (js_db ?s)\<rparr>)"
    by (rule job_step.StepDone [where now = epoch and stopping = False and res = "Inl ''late''" and show_status = "\<lambda>_. []"])
      (simp_all add: demo_sys_def step_done_def demo_step_def scanStep_def sample_row_def)
  from ended_is_final [OF demo_reached3 this] show ?thesis
    by (simp add: demo_sys_def demo_step_def scanStep_def sample_row_def)
qed

text \<open>A run with a key, submitted twice.\<close>

lemma submitted_once_witness:
  "\<exists>old. CreateJobRun ''y'' 7 (demo_run\<lparr>r_id := ''b'', r_idem := ''k''\<rparr>) [demo_step]
       (snd (CreateJobRun ''x'' epoch (demo_run\<lparr>r_idem := ''k''\<rparr>) [] open_jobs)) =
     (Inr (old, True), snd (CreateJobRun ''x'' epoch (demo_run\<lparr>r_idem := ''k''\<rparr>) [] open_jobs)) \<and> r_id old = ''a''"
proof -
  let ?c = "CreateJobRun ''x'' epoch (demo_run\<lparr>r_idem := ''k''\<rparr>) [] open_jobs"
  let ?s = "(new_sys None)\<lparr>js_db := snd ?c\<rparr>"
  have c: "?c = (fst ?c, snd ?c)" by simp
  have "submittable (new_sys None) (fill_run ''x'' epoch (demo_run\<lparr>r_idem := ''k''\<rparr>))"
    by (simp add: submittable_def fill_run_def demo_defs new_sys_def ms_def)
  from job_step.Create [where s = "new_sys None", OF _ this, of "[]" "fst ?c" "snd ?c" "\<lambda>_. (0, 0)" sample_execs]
    job_reachable.Opened [of "\<lambda>_. (0, 0)" sample_execs None]
  have reached: "job_reachable (\<lambda>_. (0, 0)) sample_execs ?s" by (auto simp: new_sys_def intro: job_reachable.Next)
  have runs: "jd_runs (snd ?c) = [demo_run\<lparr>r_created := 0, r_idem := ''k''\<rparr>]"
    by (simp add: CreateJobRun_def runByIdem_def find_run_def fill_run_def store_run_def demo_defs run_row_def ms_def)
  from submitted_once [OF reached, of "demo_run\<lparr>r_created := 0, r_idem := ''k''\<rparr>"] show ?thesis
    by (simp add: runs) (simp add: demo_defs)
qed

subsection \<open>A wait that was resumed in time\<close>

text \<open>The waits that expired are read before the lock of their run is taken, and the change that ends them
  is guarded only against steps that ended.\<close>

lemma requeued_row:
  assumes "row \<in> set (jd_steps d)" and "sr_status row = Waiting" and "requeueWaiting (sr_run row) (sr_name row) now d = (ok, d')"
  shows "ok" and "requeue_row now row \<in> set (jd_steps d')"
proof -
  show "ok" using assms by (auto simp: requeueWaiting_def Let_def list_ex_iff)
  have "jd_steps d' = map (\<lambda>r. if sr_run r = sr_run row \<and> sr_name r = sr_name row \<and> sr_status r = Waiting then requeue_row now r else r) (jd_steps d)"
    using assms(3) by (auto simp: requeueWaiting_def Let_def)
  then show "requeue_row now row \<in> set (jd_steps d')" using assms(1,2) by (auto intro!: image_eqI [where x = row])
qed

text \<open>A wait whose time is up and that \<open>RunAgain\<close> requeues after the runner read it as expired is ended
  all the same: the step is back in the queue, no longer waiting, and the expiry then fails it, saying that
  no call resumed it.\<close>

theorem requeued_wait_expires:
  assumes "row \<in> set (jd_steps d)" and "sr_status row = Waiting" and "0 < sr_wait_until row" and "sr_wait_until row \<le> ms now"
    and "requeueWaiting (sr_run row) (sr_name row) now2 d = (ok, d')"
  shows "ok \<and> requeue_row now2 row \<in> set (jd_steps d') \<and>
     (\<exists>st row'. st \<in> set (expiredWaits now d) \<and> row' \<in> set (jd_steps (expire_one cost_of show_time now st d')) \<and>
        row_key row' = row_key row \<and> sr_status row' = Failed \<and>
        sr_error row' = ''no call resumed it before '' @ show_time (fromMS (sr_wait_until row)))"
proof -
  note req = requeued_row [OF assms(1,2,5)]
  let ?st = "scanStep row" and ?row = "requeue_row now2 row"
  let ?row' = "change_all cost_of (sr_run row) [expire_change show_time now ?st] ?row"
  have "?st \<in> set (expiredWaits now d)" using assms(1-4) by (auto simp: expiredWaits_def)
  moreover have "?row' \<in> set (jd_steps (expire_one cost_of show_time now ?st d'))"
    using req(2) by (simp add: expire_one_def store_apply_steps)
  moreover have "row_key ?row' = row_key row" by (simp add: row_key_def requeue_row_def)
  moreover have "sr_status ?row' = Failed" "sr_error ?row' = ''no call resumed it before '' @ show_time (fromMS (sr_wait_until row))"
    by (simp_all add: change_all_def change_one_def requeue_row_def expire_change_def no_change_def scanStep_def change_row_def Let_def Terminal_def)
  ultimately show ?thesis using req by blast
qed

definition sample_waiting :: jobs where
  "sample_waiting = open_jobs\<lparr>jd_steps := [(sample_row ''a'' ''one'' 0 Waiting [])\<lparr>sr_wait_until := 5\<rparr>]\<rparr>"

lemma requeued_wait_expires_witness:
  "\<exists>row'. row' \<in> set (jd_steps (expire_one (\<lambda>_. (0, 0)) (\<lambda>_. ''t'') (epoch + 10000000)
       (scanStep ((sample_row ''a'' ''one'' 0 Waiting [])\<lparr>sr_wait_until := 5\<rparr>)) (snd (requeueWaiting ''a'' ''one'' (epoch + 9000000) sample_waiting)))) \<and>
     sr_status row' = Failed"
proof -
  let ?row = "(sample_row ''a'' ''one'' 0 Waiting [])\<lparr>sr_wait_until := 5\<rparr>"
  have "requeueWaiting (sr_run ?row) (sr_name ?row) (epoch + 9000000) sample_waiting =
      (fst (requeueWaiting ''a'' ''one'' (epoch + 9000000) sample_waiting), snd (requeueWaiting ''a'' ''one'' (epoch + 9000000) sample_waiting))"
    by (simp add: sample_row_def)
  from requeued_wait_expires [OF _ _ _ _ this, of "epoch + 10000000" "\<lambda>_. (0, 0)" "\<lambda>_. ''t''"] show ?thesis
    by (auto simp: sample_waiting_def sample_row_def open_jobs_def epoch_def ms_def expiredWaits_def)
qed

end
