(* ===== verification/JobTokens.thy ===== *)
theory JobTokens
  imports JobReach
begin

text \<open>
  The tokens that start one pipeline from outside (\<open>internal/jobs/tokens.go\<close>), what the steps of a
  team spent (\<open>spend.go\<close>), and that a run is submitted once for its idempotency key.

  The hash of a secret is a parameter, and so are the two readings of \<open>encoding/json\<close>: an object
  as the raw values of its fields, and a finite number.
\<close>

subsection \<open>Run tokens\<close>

definition TokenPrefix :: string where "TokenPrefix = ''gosidian_run_''"

definition stored_token :: "run_token \<Rightarrow> run_token" where
  "stored_token t = t\<lparr>rt_created := ms (rt_created t), rt_last_used := ms (rt_last_used t)\<rparr>"

definition read_token :: "run_token \<Rightarrow> run_token" where
  "read_token row = row\<lparr>rt_created := fromMS (rt_created row), rt_last_used := fromMS (rt_last_used row)\<rparr>"

definition CreateToken :: "(string \<Rightarrow> string) \<Rightarrow> string \<Rightarrow> string \<Rightarrow> time \<Rightarrow> string \<Rightarrow> string \<Rightarrow> string \<Rightarrow> jobs
    \<Rightarrow> (jobs_error + run_token \<times> string) \<times> jobs" where
  "CreateToken hash_of newID random now ref name createdBy d =
     (let t = \<lparr>rt_id = newID, rt_ref = ref, rt_name = name, rt_created = now, rt_created_by = createdBy, rt_last_used = 0\<rparr>;
          secret = TokenPrefix @ random
      in if list_ex (\<lambda>row. rt_id (tr_token row) = newID \<or> tr_hash row = hash_of secret) (jd_tokens d) then (Inl ErrConstraint, d)
         else (Inr (t, secret), d\<lparr>jd_tokens := jd_tokens d @ [\<lparr>tr_hash = hash_of secret, tr_token = stored_token t\<rparr>]\<rparr>))"

definition RunTokens :: "string \<Rightarrow> jobs \<Rightarrow> run_token list" where
  "RunTokens ref d =
     map read_token (sort_key rt_created (map tr_token (filter (\<lambda>row. ref = [] \<or> rt_ref (tr_token row) = ref) (jd_tokens d))))"

definition CheckToken :: "(string \<Rightarrow> string) \<Rightarrow> time \<Rightarrow> string \<Rightarrow> jobs \<Rightarrow> (jobs_error + run_token) \<times> jobs" where
  "CheckToken hash_of now secret d =
     (if \<not> has_prefix secret TokenPrefix then (Inl ErrNotFound, d)
      else case find (\<lambda>row. tr_hash row = hash_of secret) (jd_tokens d) of
             None \<Rightarrow> (Inl ErrNotFound, d)
           | Some row \<Rightarrow>
               let t = (read_token (tr_token row))\<lparr>rt_last_used := now\<rparr>
               in (Inr t,
                   d\<lparr>jd_tokens := map (\<lambda>row. if rt_id (tr_token row) = rt_id t then row\<lparr>tr_token := (tr_token row)\<lparr>rt_last_used := ms now\<rparr>\<rparr> else row)
                                    (jd_tokens d)\<rparr>))"

definition RevokeToken :: "string \<Rightarrow> jobs \<Rightarrow> (jobs_error + unit) \<times> jobs" where
  "RevokeToken tokenID d =
     (if list_ex (\<lambda>row. rt_id (tr_token row) = tokenID) (jd_tokens d)
      then (Inr (), d\<lparr>jd_tokens := filter (\<lambda>row. rt_id (tr_token row) \<noteq> tokenID) (jd_tokens d)\<rparr>)
      else (Inl ErrNotFound, d))"

subsection \<open>What a team spent\<close>

record spend =
  sp_cost :: rat
  sp_tokens :: int
  sp_steps :: int

definition TeamSpend :: "string \<Rightarrow> string \<Rightarrow> time \<Rightarrow> jobs \<Rightarrow> spend" where
  "TeamSpend project team since d =
     (if team = [] then \<lparr>sp_cost = 0, sp_tokens = 0, sp_steps = 0\<rparr>
      else
        let rows = filter (\<lambda>(s, r). r_project r = project \<and> r_team r = team \<and> (r_finished r = 0 \<or> r_finished r \<ge> ms since) \<and>
                     sr_finished s \<ge> ms since \<and> (sr_cost s > 0 \<or> sr_tokens s > 0)) (joined d)
        in \<lparr>sp_cost = sum_list (map (sr_cost \<circ> fst) rows), sp_tokens = sum_list (map (sr_tokens \<circ> fst) rows),
            sp_steps = int (length rows)\<rparr>)"

definition amount :: "(string \<Rightarrow> rat option) \<Rightarrow> string \<Rightarrow> rat option" where
  "amount number raw =
     (if raw = [] then None
      else case number raw of None \<Rightarrow> None | Some f \<Rightarrow> if f < 0 then None else Some f)"

definition field_of :: "(string, string) fmap \<Rightarrow> string \<Rightarrow> string" where
  "field_of m k = fm_get [] m k"

definition CostOf :: "(string \<Rightarrow> (string, string) fmap option) \<Rightarrow> (string \<Rightarrow> rat option) \<Rightarrow> string \<Rightarrow> rat \<times> int" where
  "CostOf object number out =
     (let out = dropWhile (\<lambda>c. c \<in> {CHR '' '', CHR 0x09, CHR 0x0D, CHR 0x0A}) out in
      if out = [] \<or> hd out \<noteq> CHR ''{'' \<or>
         \<not> contains out (CHR 0x22 # ''cost'' @ [CHR 0x22]) \<and> \<not> contains out (CHR 0x22 # ''total_tokens'' @ [CHR 0x22])
      then (0, 0)
      else case object out of
             None \<Rightarrow> (0, 0)
           | Some obj \<Rightarrow>
               let cost = (case amount number (field_of obj ''cost'') of Some f \<Rightarrow> f | None \<Rightarrow> 0);
                   u = field_of obj ''usage''
               in (cost,
                   if u \<noteq> [] \<and> hd u = CHR ''{''
                   then (case object u of
                           None \<Rightarrow> 0
                         | Some usage \<Rightarrow>
                             (case amount number (field_of usage ''total_tokens'') of
                                Some n \<Rightarrow> if n < 2 ^ 63 then \<lfloor>n\<rfloor> else 0
                              | None \<Rightarrow> 0))
                   else 0))"

subsection \<open>A token starts its pipeline, until it is revoked\<close>

definition token_ids_distinct :: "jobs \<Rightarrow> bool" where
  "token_ids_distinct d \<longleftrightarrow> distinct (map (rt_id \<circ> tr_token) (jd_tokens d)) \<and> distinct (map tr_hash (jd_tokens d))"

text \<open>The call of a token: it is minted, used or revoked, whatever the outcome.\<close>

datatype token_call =
    MintCall string string time string string string
  | CheckCall time string
  | RevokeCall string

definition token_call :: "(string \<Rightarrow> string) \<Rightarrow> token_call \<Rightarrow> jobs \<Rightarrow> jobs" where
  "token_call hash_of c d =
     (case c of
        MintCall newID random now ref name createdBy \<Rightarrow> snd (CreateToken hash_of newID random now ref name createdBy d)
      | CheckCall now secret \<Rightarrow> snd (CheckToken hash_of now secret d)
      | RevokeCall tokenID \<Rightarrow> snd (RevokeToken tokenID d))"

lemma stamp_keeps_columns:
  "map (rt_id \<circ> tr_token) (map (\<lambda>row. if p row then row\<lparr>tr_token := (tr_token row)\<lparr>rt_last_used := v\<rparr>\<rparr> else row) rows)
     = map (rt_id \<circ> tr_token) rows"
  "map tr_hash (map (\<lambda>row. if p row then row\<lparr>tr_token := (tr_token row)\<lparr>rt_last_used := v\<rparr>\<rparr> else row) rows) = map tr_hash rows"
  "map (\<lambda>row. (tr_hash row, rt_id (tr_token row), rt_ref (tr_token row)))
       (map (\<lambda>row. if p row then row\<lparr>tr_token := (tr_token row)\<lparr>rt_last_used := v\<rparr>\<rparr> else row) rows)
     = map (\<lambda>row. (tr_hash row, rt_id (tr_token row), rt_ref (tr_token row))) rows"
  by simp_all

lemma CreateToken_distinct [keeps_inv]:
  "token_ids_distinct d \<Longrightarrow> token_ids_distinct (snd (CreateToken hash_of newID random now ref name createdBy d))"
  by (auto simp: token_ids_distinct_def CreateToken_def Let_def stored_token_def list_ex_iff)

lemma CheckToken_tokens:
  "\<exists>p v. jd_tokens (snd (CheckToken hash_of now secret d)) =
     map (\<lambda>row. if p row then row\<lparr>tr_token := (tr_token row)\<lparr>rt_last_used := v\<rparr>\<rparr> else row) (jd_tokens d)"
proof (cases "has_prefix secret TokenPrefix \<and> find (\<lambda>row. tr_hash row = hash_of secret) (jd_tokens d) \<noteq> None")
  case True
  then obtain x where x: "has_prefix secret TokenPrefix" "find (\<lambda>row. tr_hash row = hash_of secret) (jd_tokens d) = Some x" by auto
  show ?thesis
    by (rule exI [of _ "\<lambda>row. rt_id (tr_token row) = rt_id (read_token (tr_token x))"], rule exI [of _ "ms now"])
       (simp add: CheckToken_def x Let_def cong: if_cong)
next
  case False
  then have "jd_tokens (snd (CheckToken hash_of now secret d)) =
      map (\<lambda>row. if False then row\<lparr>tr_token := (tr_token row)\<lparr>rt_last_used := v\<rparr>\<rparr> else row) (jd_tokens d)" for v
    by (auto simp: CheckToken_def)
  then show ?thesis by (intro exI [of _ "\<lambda>_. False"]) simp
qed

lemma CheckToken_distinct [keeps_inv]:
  assumes "token_ids_distinct d"
  shows "token_ids_distinct (snd (CheckToken hash_of now secret d))"
proof -
  obtain p v where "jd_tokens (snd (CheckToken hash_of now secret d)) =
      map (\<lambda>row. if p row then row\<lparr>tr_token := (tr_token row)\<lparr>rt_last_used := v\<rparr>\<rparr> else row) (jd_tokens d)"
    using CheckToken_tokens by blast
  then show ?thesis using assms unfolding token_ids_distinct_def by (simp only: stamp_keeps_columns)
qed

lemma RevokeToken_distinct [keeps_inv]:
  "token_ids_distinct d \<Longrightarrow> token_ids_distinct (snd (RevokeToken tokenID d))"
  by (auto simp: token_ids_distinct_def RevokeToken_def distinct_map_filter)

lemma token_call_distinct:
  "token_ids_distinct d \<Longrightarrow> token_ids_distinct (token_call hash_of c d)"
  by (cases c) (simp_all add: token_call_def CreateToken_distinct CheckToken_distinct RevokeToken_distinct)

text \<open>The row of a token: its hash, its id and the pipeline it starts.\<close>

definition starts :: "jobs \<Rightarrow> string \<Rightarrow> string \<Rightarrow> string \<Rightarrow> bool" where
  "starts d h tokenID ref \<longleftrightarrow>
     (h, tokenID, ref) \<in> set (map (\<lambda>row. (tr_hash row, rt_id (tr_token row), rt_ref (tr_token row))) (jd_tokens d))"

lemma CheckToken_keeps:
  "starts (snd (CheckToken hash_of now secret d)) h tokenID ref = starts d h tokenID ref"
  "map tr_hash (jd_tokens (snd (CheckToken hash_of now secret d))) = map tr_hash (jd_tokens d)"
  using CheckToken_tokens [of hash_of now secret d] unfolding starts_def by (auto simp only: stamp_keeps_columns)

lemma call_keeps_starts:
  assumes "starts d h tokenID ref" "c \<noteq> RevokeCall tokenID"
  shows "starts (token_call hash_of c d) h tokenID ref"
proof (cases c)
  case (MintCall newID random now ref' name creator)
  then show ?thesis using assms by (auto simp: token_call_def CreateToken_def Let_def starts_def)
next
  case (CheckCall now secret)
  then show ?thesis using assms by (simp add: token_call_def CheckToken_keeps)
next
  case (RevokeCall x)
  obtain row where "row \<in> set (jd_tokens d)" "tr_hash row = h" "rt_id (tr_token row) = tokenID" "rt_ref (tr_token row) = ref"
    using assms(1) by (auto simp: starts_def)
  then have "row \<in> set (filter (\<lambda>row. rt_id (tr_token row) \<noteq> x) (jd_tokens d))" "tr_hash row = h" "rt_id (tr_token row) = tokenID"
    "rt_ref (tr_token row) = ref" using RevokeCall assms(2) by auto
  then have "(h, tokenID, ref) \<in> set (map (\<lambda>row. (tr_hash row, rt_id (tr_token row), rt_ref (tr_token row)))
       (filter (\<lambda>row. rt_id (tr_token row) \<noteq> x) (jd_tokens d)))" by (force simp only: set_map)
  then show ?thesis using RevokeCall assms(1) by (simp add: token_call_def RevokeToken_def starts_def)
qed

lemma calls_keep_starts:
  "starts d h tokenID ref \<Longrightarrow> RevokeCall tokenID \<notin> set cs \<Longrightarrow> starts (fold (token_call hash_of) cs d) h tokenID ref"
  by (induction cs arbitrary: d) (auto simp: call_keeps_starts)

lemma calls_keep_distinct:
  "token_ids_distinct d \<Longrightarrow> token_ids_distinct (fold (token_call hash_of) cs d)"
  by (induction cs arbitrary: d) (simp_all add: token_call_distinct)

lemma starts_checks:
  assumes "starts d (hash_of secret) tokenID ref" "token_ids_distinct d" "has_prefix secret TokenPrefix"
  shows "\<exists>t. fst (CheckToken hash_of now secret d) = Inr t \<and> rt_id t = tokenID \<and> rt_ref t = ref"
proof -
  obtain row where row: "row \<in> set (jd_tokens d)" "tr_hash row = hash_of secret" "rt_id (tr_token row) = tokenID" "rt_ref (tr_token row) = ref"
    using assms(1) by (auto simp: starts_def)
  obtain x where x: "find (\<lambda>row. tr_hash row = hash_of secret) (jd_tokens d) = Some x"
    using row(1,2) by (cases "find (\<lambda>row. tr_hash row = hash_of secret) (jd_tokens d)") (auto simp: find_None_iff)
  then have "x \<in> set (jd_tokens d)" "tr_hash x = hash_of secret" by (auto simp: find_Some_iff)
  then have "x = row" using assms(2) row(1,2) by (auto simp: token_ids_distinct_def distinct_map inj_on_def)
  then show ?thesis using x row(3,4) assms(3) by (simp add: CheckToken_def Let_def read_token_def)
qed

text \<open>No row has the hash, and none comes back while no minted secret hashes to it.\<close>

definition unknown_hash :: "jobs \<Rightarrow> string \<Rightarrow> bool" where
  "unknown_hash d h \<longleftrightarrow> h \<notin> set (map tr_hash (jd_tokens d))"

fun mints :: "(string \<Rightarrow> string) \<Rightarrow> string \<Rightarrow> token_call \<Rightarrow> bool" where
  "mints hash_of h (MintCall newID random now ref name createdBy) = (hash_of (TokenPrefix @ random) = h)"
| "mints hash_of h _ = False"

lemma call_keeps_unknown:
  assumes "unknown_hash d h" "\<not> mints hash_of h c"
  shows "unknown_hash (token_call hash_of c d) h"
proof (cases c)
  case (MintCall newID random now ref name creator)
  then show ?thesis using assms by (auto simp: token_call_def CreateToken_def Let_def unknown_hash_def)
next
  case (CheckCall now secret)
  then show ?thesis using assms by (simp add: token_call_def unknown_hash_def CheckToken_keeps del: set_map)
next
  case (RevokeCall x)
  then show ?thesis using assms by (auto simp: token_call_def RevokeToken_def unknown_hash_def)
qed


lemma calls_keep_unknown:
  "unknown_hash d h \<Longrightarrow> \<not> list_ex (mints hash_of h) cs \<Longrightarrow> unknown_hash (fold (token_call hash_of) cs d) h"
  by (induction cs arbitrary: d) (auto simp: call_keeps_unknown)

lemma unknown_not_found:
  assumes "unknown_hash d (hash_of secret)"
  shows "CheckToken hash_of now secret d = (Inl ErrNotFound, d)"
proof -
  have "find (\<lambda>row. tr_hash row = hash_of secret) (jd_tokens d) = None"
    using assms by (force simp: unknown_hash_def find_None_iff)
  then show ?thesis by (simp add: CheckToken_def)
qed

lemma revoked_unknown:
  assumes "starts d h tokenID ref" "token_ids_distinct d"
  shows "fst (RevokeToken tokenID d) = Inr () \<and> unknown_hash (snd (RevokeToken tokenID d)) h"
proof -
  obtain row where row: "row \<in> set (jd_tokens d)" "tr_hash row = h" "rt_id (tr_token row) = tokenID"
    using assms(1) by (auto simp: starts_def)
  have only: "x = row" if "x \<in> set (jd_tokens d)" "tr_hash x = h" for x
    using assms(2) row that by (auto simp: token_ids_distinct_def distinct_map inj_on_def)
  have "list_ex (\<lambda>row. rt_id (tr_token row) = tokenID) (jd_tokens d)" using row by (auto simp: list_ex_iff)
  moreover have "tr_hash x \<noteq> h" if "x \<in> set (jd_tokens d)" "rt_id (tr_token x) \<noteq> tokenID" for x
    using only [OF that(1)] that(2) row(3) by auto
  ultimately show ?thesis by (simp add: RevokeToken_def unknown_hash_def image_iff) blast
qed

lemma created_starts:
  "CreateToken hash_of newID random now ref name createdBy d = (Inr (t, secret), d') \<Longrightarrow>
     starts d' (hash_of secret) (rt_id t) ref \<and> has_prefix secret TokenPrefix \<and> rt_id t = newID \<and> rt_ref t = ref"
  by (auto simp: CreateToken_def Let_def starts_def stored_token_def split: if_splits)

text \<open>A run token starts the pipeline it was minted for, and that one only, through any calls on
  the tokens that do not revoke it; once it is revoked its secret is not found any more, through any calls that do not mint a
  secret of the same hash.\<close>

theorem run_token_until_revoked:
  assumes "token_ids_distinct d"
    and "CreateToken hash_of newID random now ref name createdBy d = (Inr (t, secret), d1)"
    and "RevokeCall (rt_id t) \<notin> set cs"
    and "\<not> list_ex (mints hash_of (hash_of secret)) cs'"
  shows "(\<exists>u. fst (CheckToken hash_of tick secret (fold (token_call hash_of) cs d1)) = Inr u \<and> rt_id u = rt_id t \<and> rt_ref u = ref) \<and>
    fst (RevokeToken (rt_id t) (fold (token_call hash_of) cs d1)) = Inr () \<and>
    fst (CheckToken hash_of tick' secret
           (fold (token_call hash_of) cs' (snd (RevokeToken (rt_id t) (fold (token_call hash_of) cs d1))))) = Inl ErrNotFound"
proof -
  have d1: "token_ids_distinct d1" using CreateToken_distinct [OF assms(1), of hash_of newID random now ref name createdBy] assms(2) by simp
  note made = created_starts [OF assms(2)]
  have s: "starts (fold (token_call hash_of) cs d1) (hash_of secret) (rt_id t) ref" using calls_keep_starts made assms(3) by blast
  note i = calls_keep_distinct [OF d1, of hash_of cs]
  note r = revoked_unknown [OF s i]
  have "unknown_hash (fold (token_call hash_of) cs' (snd (RevokeToken (rt_id t) (fold (token_call hash_of) cs d1)))) (hash_of secret)"
    by (rule calls_keep_unknown) (use r assms(4) in auto)
  then have "CheckToken hash_of tick' secret (fold (token_call hash_of) cs' (snd (RevokeToken (rt_id t) (fold (token_call hash_of) cs d1))))
      = (Inl ErrNotFound, fold (token_call hash_of) cs' (snd (RevokeToken (rt_id t) (fold (token_call hash_of) cs d1))))"
    by (rule unknown_not_found)
  then show ?thesis using starts_checks [where hash_of = hash_of and now = tick, OF s i] made r by simp
qed

lemma run_token_until_revoked_witness:
  "\<exists>u. fst (CheckToken rev 9 (TokenPrefix @ ''s'') (fold (token_call rev) [RevokeCall ''u'']
     (snd (CreateToken rev ''t'' ''s'' 5 ''p'' ''n'' ''me'' open_jobs)))) = Inr u \<and> rt_id u = ''t'' \<and> rt_ref u = ''p''"
proof -
  let ?c = "CreateToken rev ''t'' ''s'' 5 ''p'' ''n'' ''me'' open_jobs"
  let ?t = "\<lparr>rt_id = ''t'', rt_ref = ''p'', rt_name = ''n'', rt_created = 5, rt_created_by = ''me'', rt_last_used = 0\<rparr>"
  have c: "?c = (Inr (?t, TokenPrefix @ ''s''), snd ?c)" by (simp add: CreateToken_def Let_def open_jobs_def)
  have "token_ids_distinct open_jobs" by (simp add: token_ids_distinct_def open_jobs_def)
  from run_token_until_revoked [OF this c, of "[RevokeCall ''u'']" "[]" 9] show ?thesis by simp
qed

end
