(* ===== verification/PipeExpr.thy ===== *)
theory PipeExpr
  imports GoStrings Complex_Main
begin

text \<open>
  The expressions of a pipeline (\<open>internal/pipeline/expr.go\<close>): references such as
  \<open>{{ convert.markdown }}\<close>, how they are found in a string, parsed, and resolved in the values a
  step may read.

  A JSON value is a \<open>jvalue\<close>; an object is the list of its entries, in an order Go may go through
  them. The regular expressions are written out as scanners. How a number is written, and a list or
  an object as JSON, are parameters (\<open>strconv\<close> and \<open>encoding/json\<close>).
\<close>

subsection \<open>Values\<close>

datatype jvalue =
    JNull
  | JBool bool
  | JNumber rat
  | JString string
  | JList "jvalue list"
  | JObject "(string \<times> jvalue) list"

definition field :: "(string \<times> jvalue) list \<Rightarrow> string \<Rightarrow> jvalue" where
  "field entries k = (case map_of entries k of None \<Rightarrow> JNull | Some v \<Rightarrow> v)"

definition truthy :: "jvalue \<Rightarrow> bool" where
  "truthy v =
     (case v of
        JNull \<Rightarrow> False
      | JBool b \<Rightarrow> b
      | JString s \<Rightarrow> s \<noteq> [] \<and> s \<noteq> ''false''
      | JNumber n \<Rightarrow> n \<noteq> 0
      | JList vs \<Rightarrow> vs \<noteq> []
      | JObject es \<Rightarrow> es \<noteq> [])"

definition render :: "(rat \<Rightarrow> string) \<Rightarrow> (jvalue \<Rightarrow> string) \<Rightarrow> jvalue \<Rightarrow> string" where
  "render show_number to_json v =
     (case v of
        JNull \<Rightarrow> []
      | JString s \<Rightarrow> s
      | JNumber n \<Rightarrow> show_number n
      | JBool b \<Rightarrow> (if b then ''true'' else ''false'')
      | _ \<Rightarrow> to_json v)"

text \<open>A stored JSON text as the expressions see it; \<open>parse_json\<close> is \<open>json.Unmarshal\<close>.\<close>

definition decode :: "(string \<Rightarrow> jvalue option) \<Rightarrow> string \<Rightarrow> jvalue" where
  "decode parse_json raw =
     (if raw = [] then JNull else case parse_json raw of None \<Rightarrow> JNull | Some v \<Rightarrow> v)"

subsection \<open>Finding the expressions of a string\<close>

text \<open>\<open>exprRe\<close>: two braces, white space, no brace in between, white space, two braces.\<close>

definition brace :: "char \<Rightarrow> bool" where "brace c \<longleftrightarrow> c = CHR ''{'' \<or> c = CHR ''}''"

definition re_white :: "char \<Rightarrow> bool" where
  "re_white c \<longleftrightarrow> c \<in> {CHR 0x09, CHR 0x0A, CHR 0x0C, CHR 0x0D, CHR 0x20}"

definition re_trim :: "string \<Rightarrow> string" where
  "re_trim s = rev (dropWhile re_white (rev (dropWhile re_white s)))"

definition expr_at :: "string \<Rightarrow> (string \<times> string) option" where
  "expr_at s =
     (if has_prefix s ''{{''
      then let body = takeWhile (\<lambda>c. \<not> brace c) (drop 2 s); rest = dropWhile (\<lambda>c. \<not> brace c) (drop 2 s) in
           if has_prefix rest ''}}'' then Some (re_trim body, drop 2 rest) else None
      else None)"

lemma expr_at_shorter: "expr_at s = Some (e, rest) \<Longrightarrow> length rest < length s"
proof -
  assume "expr_at s = Some (e, rest)"
  then have "has_prefix s ''{{''" "rest = drop 2 (dropWhile (\<lambda>c. \<not> brace c) (drop 2 s))"
    by (auto simp: expr_at_def Let_def split: if_splits)
  moreover have "length (dropWhile (\<lambda>c. \<not> brace c) (drop 2 s)) \<le> length (drop 2 s)" by (rule length_dropWhile_le)
  ultimately show ?thesis using has_prefix_length [of s "''{{''"] by simp
qed

datatype part = Text char | Expr string

function expr_parts :: "string \<Rightarrow> part list" where
  "expr_parts [] = []"
| "expr_parts (c # cs) =
     (case expr_at (c # cs) of
        None \<Rightarrow> Text c # expr_parts cs
      | Some (e, rest) \<Rightarrow> Expr e # expr_parts rest)"
  by pat_completeness auto
termination by (relation "measure length") (auto dest: expr_at_shorter)

definition exprs_in :: "string \<Rightarrow> string list" where
  "exprs_in s = List.map_filter (\<lambda>p. case p of Text c \<Rightarrow> None | Expr e \<Rightarrow> Some e) (expr_parts s)"

text \<open>A string that is one expression and nothing else.\<close>

definition whole_expr :: "string \<Rightarrow> string option" where
  "whole_expr s = (case expr_parts s of [Expr e] \<Rightarrow> Some e | _ \<Rightarrow> None)"

subsection \<open>References\<close>

record ref =
  rf_root :: string
  rf_path :: "string list"

definition show_ref :: "ref \<Rightarrow> string" where
  "show_ref r = join ''.'' (rf_root r # rf_path r)"

datatype expr_error =
    EmptyExpr
  | NotReference string string
  | NotName string
  | UnknownName ref
  | NotIndex ref string
  | NoField ref string
  | SameKey string string string

abbreviation in_range :: "char \<Rightarrow> char \<Rightarrow> char \<Rightarrow> bool" where
  "in_range lo hi c \<equiv> lo \<le> c \<and> c \<le> hi"

definition lower_letter :: "char \<Rightarrow> bool" where "lower_letter c \<longleftrightarrow> in_range (CHR ''a'') (CHR ''z'') c"

definition letter :: "char \<Rightarrow> bool" where
  "letter c \<longleftrightarrow> lower_letter c \<or> in_range (CHR ''A'') (CHR ''Z'') c"

definition digit :: "char \<Rightarrow> bool" where
  "digit c \<longleftrightarrow> in_range (CHR ''0'') (CHR ''9'') c"

text \<open>\<open>segRe\<close>: a name or an index.\<close>

definition seg_name :: "string \<Rightarrow> bool" where
  "seg_name s \<longleftrightarrow>
     (case s of
        [] \<Rightarrow> False
      | c # cs \<Rightarrow> (letter c \<or> c = CHR ''_'') \<and> list_all (\<lambda>c. letter c \<or> digit c \<or> c = CHR ''_'' \<or> c = CHR ''-'') cs)"

definition seg_ok :: "string \<Rightarrow> bool" where
  "seg_ok s \<longleftrightarrow> seg_name s \<or> s \<noteq> [] \<and> list_all digit s"

text \<open>\<open>strconv.Atoi\<close>: a sign, decimal digits, a value that fits in 64 bits.\<close>

definition digits_value :: "string \<Rightarrow> int" where
  "digits_value s = foldl (\<lambda>n c. 10 * n + (int (of_char c) - 48)) 0 s"

definition atoi :: "string \<Rightarrow> int option" where
  "atoi s =
     (let neg = (case s of [] \<Rightarrow> False | c # _ \<Rightarrow> c = CHR ''-'');
          ds = (case s of [] \<Rightarrow> [] | c # cs \<Rightarrow> if c = CHR ''-'' \<or> c = CHR ''+'' then cs else s);
          n = (if neg then - digits_value ds else digits_value ds)
      in if ds = [] \<or> \<not> list_all digit ds \<or> n < - (2 ^ 63) \<or> n \<ge> 2 ^ 63 then None else Some n)"

definition parseRef :: "string \<Rightarrow> expr_error + ref" where
  "parseRef src =
     (let src = trim_space src in
      if src = [] then Inl EmptyExpr
      else
        let segs = split_at (CHR ''.'') src in
        case find (\<lambda>s. \<not> seg_ok s) segs of
          Some s \<Rightarrow> Inl (NotReference src s)
        | None \<Rightarrow>
            if atoi (hd segs) \<noteq> None then Inl (NotName src)
            else Inr \<lparr>rf_root = hd segs, rf_path = tl segs\<rparr>)"

subsection \<open>The references of a setting\<close>

fun parse_all :: "string list \<Rightarrow> expr_error + ref list" where
  "parse_all [] = Inr []"
| "parse_all (e # es) =
     (case parseRef e of
        Inl err \<Rightarrow> Inl err
      | Inr r \<Rightarrow> (case parse_all es of Inl err \<Rightarrow> Inl err | Inr rs \<Rightarrow> Inr (r # rs)))"

fun refsIn :: "jvalue \<Rightarrow> expr_error + ref list"
  and refsIn_list :: "jvalue list \<Rightarrow> expr_error + ref list"
  and refsIn_entries :: "(string \<times> jvalue) list \<Rightarrow> expr_error + ref list" where
  "refsIn (JString s) = parse_all (exprs_in s)"
| "refsIn (JList vs) = refsIn_list vs"
| "refsIn (JObject es) = refsIn_entries es"
| "refsIn _ = Inr []"
| "refsIn_list [] = Inr []"
| "refsIn_list (v # vs) =
     (case refsIn v of
        Inl err \<Rightarrow> Inl err
      | Inr rs \<Rightarrow> (case refsIn_list vs of Inl err \<Rightarrow> Inl err | Inr rs' \<Rightarrow> Inr (rs @ rs')))"
| "refsIn_entries [] = Inr []"
| "refsIn_entries ((k, v) # es) =
     (case parse_all (exprs_in k) of
        Inl err \<Rightarrow> Inl err
      | Inr rs \<Rightarrow>
          (case refsIn v of
             Inl err \<Rightarrow> Inl err
           | Inr rs' \<Rightarrow> (case refsIn_entries es of Inl err \<Rightarrow> Inl err | Inr rs'' \<Rightarrow> Inr (rs @ rs' @ rs''))))"

subsection \<open>Resolving\<close>

type_synonym scope = "(string, jvalue) fmap"

fun lookup_path :: "ref \<Rightarrow> string list \<Rightarrow> jvalue \<Rightarrow> expr_error + jvalue" where
  "lookup_path r [] v = Inr v"
| "lookup_path r (seg # segs) v =
     (case v of
        JObject es \<Rightarrow> lookup_path r segs (field es seg)
      | JList vs \<Rightarrow>
          (case atoi seg of
             None \<Rightarrow> Inl (NotIndex r seg)
           | Some i \<Rightarrow> if i < 0 \<or> i \<ge> int (length vs) then Inr JNull else lookup_path r segs (vs ! nat i))
      | JNull \<Rightarrow> Inr JNull
      | _ \<Rightarrow> Inl (NoField r seg))"

definition lookup :: "scope \<Rightarrow> ref \<Rightarrow> expr_error + jvalue" where
  "lookup sc r =
     (case fmlookup sc (rf_root r) of
        None \<Rightarrow> Inl (UnknownName r)
      | Some v \<Rightarrow> lookup_path r (rf_path r) v)"

definition eval_expr :: "scope \<Rightarrow> string \<Rightarrow> expr_error + jvalue" where
  "eval_expr sc e = (case parseRef e of Inl err \<Rightarrow> Inl err | Inr r \<Rightarrow> lookup sc r)"

text \<open>Each expression of a string written into it; the first error is the result.\<close>

fun write_parts :: "(jvalue \<Rightarrow> string) \<Rightarrow> scope \<Rightarrow> part list \<Rightarrow> expr_error + string" where
  "write_parts rnd sc [] = Inr []"
| "write_parts rnd sc (Text c # ps) = map_sum id (Cons c) (write_parts rnd sc ps)"
| "write_parts rnd sc (Expr e # ps) =
     (case eval_expr sc e of
        Inl err \<Rightarrow> Inl err
      | Inr v \<Rightarrow> map_sum id (\<lambda>s. rnd v @ s) (write_parts rnd sc ps))"

definition eval_string :: "(jvalue \<Rightarrow> string) \<Rightarrow> scope \<Rightarrow> string \<Rightarrow> expr_error + jvalue" where
  "eval_string rnd sc s =
     (case whole_expr s of
        Some e \<Rightarrow> eval_expr sc e
      | None \<Rightarrow> map_sum id JString (write_parts rnd sc (expr_parts s)))"

text \<open>The key of an entry, and the entries written so far with the keys they come from.\<close>

definition eval_key :: "(jvalue \<Rightarrow> string) \<Rightarrow> scope \<Rightarrow> string \<Rightarrow> expr_error + string" where
  "eval_key rnd sc k = (if contains k ''{{'' then map_sum id rnd (eval_string rnd sc k) else Inr k)"

fun eval :: "(jvalue \<Rightarrow> string) \<Rightarrow> scope \<Rightarrow> jvalue \<Rightarrow> expr_error + jvalue"
  and eval_list :: "(jvalue \<Rightarrow> string) \<Rightarrow> scope \<Rightarrow> jvalue list \<Rightarrow> expr_error + jvalue list"
  and eval_entries :: "(jvalue \<Rightarrow> string) \<Rightarrow> scope \<Rightarrow> (string \<times> string) list \<Rightarrow> (string \<times> jvalue) list \<Rightarrow> expr_error + (string \<times> jvalue) list" where
  "eval rnd sc (JString s) = eval_string rnd sc s"
| "eval rnd sc (JList vs) = map_sum id JList (eval_list rnd sc vs)"
| "eval rnd sc (JObject es) = map_sum id JObject (eval_entries rnd sc [] es)"
| "eval rnd sc v = Inr v"
| "eval_list rnd sc [] = Inr []"
| "eval_list rnd sc (v # vs) =
     (case eval rnd sc v of
        Inl err \<Rightarrow> Inl err
      | Inr w \<Rightarrow> map_sum id (Cons w) (eval_list rnd sc vs))"
| "eval_entries rnd sc seen [] = Inr []"
| "eval_entries rnd sc seen ((k, v) # es) =
     (case eval_key rnd sc k of
        Inl err \<Rightarrow> Inl err
      | Inr key \<Rightarrow>
          (case map_of seen key of
             Some prev \<Rightarrow> Inl (SameKey prev k key)
           | None \<Rightarrow>
               (case eval rnd sc v of
                  Inl err \<Rightarrow> Inl err
                | Inr w \<Rightarrow> map_sum id (Cons (key, w)) (eval_entries rnd sc ((key, k) # seen) es))))"

subsection \<open>References that resolve\<close>

text \<open>The errors left when every reference parses and names a value there is.\<close>

fun value_error :: "expr_error \<Rightarrow> bool" where
  "value_error (NotIndex r seg) = True"
| "value_error (NoField r seg) = True"
| "value_error (SameKey k k' key) = True"
| "value_error _ = False"

definition known_refs :: "scope \<Rightarrow> ref list \<Rightarrow> bool" where
  "known_refs sc rs \<longleftrightarrow> list_all (\<lambda>r. fmlookup sc (rf_root r) \<noteq> None) rs"

lemma known_refs_simps [simp]:
  "known_refs sc []" "known_refs sc (r # rs) \<longleftrightarrow> fmlookup sc (rf_root r) \<noteq> None \<and> known_refs sc rs"
  "known_refs sc (rs @ rs') \<longleftrightarrow> known_refs sc rs \<and> known_refs sc rs'"
  by (simp_all add: known_refs_def)

lemma lookup_path_error: "lookup_path r segs v = Inl err \<Longrightarrow> value_error err"
  by (induction r segs v rule: lookup_path.induct) (auto split: jvalue.splits option.splits if_splits)

lemma exprs_in_simps [simp]:
  "List.map_filter (\<lambda>p. case p of Text c \<Rightarrow> None | Expr e \<Rightarrow> Some e) (Text c # ps) =
     List.map_filter (\<lambda>p. case p of Text c \<Rightarrow> None | Expr e \<Rightarrow> Some e) ps"
  "List.map_filter (\<lambda>p. case p of Text c \<Rightarrow> None | Expr e \<Rightarrow> Some e) (Expr e # ps) =
     e # List.map_filter (\<lambda>p. case p of Text c \<Rightarrow> None | Expr e \<Rightarrow> Some e) ps"
  by (simp_all add: List.map_filter_simps)

lemma write_parts_error:
  "parse_all (List.map_filter (\<lambda>p. case p of Text c \<Rightarrow> None | Expr e \<Rightarrow> Some e) ps) = Inr rs \<Longrightarrow> known_refs sc rs \<Longrightarrow>
     write_parts rnd sc ps = Inl err \<Longrightarrow> value_error err"
proof (induction ps arbitrary: rs)
  case (Cons p ps)
  then show ?case
    by (cases p; cases "write_parts rnd sc ps")
       (auto simp: eval_expr_def lookup_def split: sum.splits option.splits dest: lookup_path_error)
qed simp

lemma eval_string_error:
  assumes "parse_all (exprs_in s) = Inr rs" and "known_refs sc rs" and "eval_string rnd sc s = Inl err"
  shows "value_error err"
proof (cases "whole_expr s")
  case None
  then have "write_parts rnd sc (expr_parts s) = Inl err"
    using assms(3) by (cases "write_parts rnd sc (expr_parts s)") (auto simp: eval_string_def)
  then show ?thesis using write_parts_error assms(1,2) unfolding exprs_in_def by blast
next
  case (Some e)
  then have "expr_parts s = [Expr e]" by (auto simp: whole_expr_def split: list.splits part.splits)
  then obtain r where "parseRef e = Inr r" "fmlookup sc (rf_root r) \<noteq> None"
    using assms(1,2) by (auto simp: exprs_in_def split: sum.splits)
  then show ?thesis using assms(3) Some by (auto simp: eval_string_def eval_expr_def lookup_def dest: lookup_path_error)
qed

lemma eval_key_error:
  assumes "parse_all (exprs_in k) = Inr rs" and "known_refs sc rs" and "eval_key rnd sc k = Inl err"
  shows "value_error err"
  using assms(3) eval_string_error [OF assms(1,2), of rnd err]
  by (cases "eval_string rnd sc k") (auto simp: eval_key_def split: if_splits)

lemma eval_error:
  "refsIn v = Inr rs \<Longrightarrow> known_refs sc rs \<Longrightarrow> eval rnd sc v = Inl err \<Longrightarrow> value_error err"
  "refsIn_list vs = Inr rs \<Longrightarrow> known_refs sc rs \<Longrightarrow> eval_list rnd sc vs = Inl err \<Longrightarrow> value_error err"
  "refsIn_entries es = Inr rs \<Longrightarrow> known_refs sc rs \<Longrightarrow> eval_entries rnd sc seen es = Inl err \<Longrightarrow> value_error err"
proof (induction v and vs and es arbitrary: rs and rs and rs seen rule: refsIn_refsIn_list_refsIn_entries.induct, goal_cases)
  case (1 s)
  then show ?case using eval_string_error by simp
next
  case (2 vs)
  then show ?case by (cases "eval_list rnd sc vs") auto
next
  case (3 es)
  then show ?case by (cases "eval_entries rnd sc [] es") auto
next
  case (8 v vs rs)
  from 8(3) obtain rs1 rs2 where rs: "refsIn v = Inr rs1" "refsIn_list vs = Inr rs2" "rs = rs1 @ rs2"
    by (auto split: sum.splits)
  show ?case
  proof (cases "eval rnd sc v")
    case (Inl e)
    then show ?thesis using 8(1) [OF rs(1)] 8(4,5) rs(3) by simp
  next
    case (Inr w)
    then show ?thesis using 8(2) [OF rs(1,2)] 8(4,5) rs(3) by (cases "eval_list rnd sc vs") auto
  qed
next
  case (10 k v es rs seen)
  from 10(3) obtain rs1 rs2 rs3 where rs: "parse_all (exprs_in k) = Inr rs1" "refsIn v = Inr rs2" "refsIn_entries es = Inr rs3"
    "rs = rs1 @ rs2 @ rs3" by (auto split: sum.splits)
  have known: "known_refs sc rs1" "known_refs sc rs2" "known_refs sc rs3" using 10(4) rs(4) by simp_all
  show ?case
  proof (cases "eval_key rnd sc k")
    case (Inl e)
    then show ?thesis using eval_key_error [OF rs(1) known(1)] 10(5) by simp
  next
    case key: (Inr key)
    show ?thesis
    proof (cases "map_of seen key")
      case None
      show ?thesis
      proof (cases "eval rnd sc v")
        case (Inl e)
        then show ?thesis using 10(1) [OF rs(1,2) known(2)] 10(5) None key by simp
      next
        case (Inr w)
        then show ?thesis using 10(2) [OF rs(1,2,3) known(3)] 10(5) None key
          by (cases "eval_entries rnd sc ((key, k) # seen) es") auto
      qed
    qed (use 10(5) key in auto)
  qed
qed auto

text \<open>A reference reads back as it is written: what \<open>parseRef\<close> accepts is shown as its text without the
  white space around it, names and indexes joined by dots, starts with something that is no index, and parses to the same
  reference again.\<close>

theorem parseRef_show:
  assumes "parseRef src = Inr r"
  shows "show_ref r = trim_space src \<and> list_all seg_ok (rf_root r # rf_path r) \<and> atoi (rf_root r) = None \<and>
    parseRef (show_ref r) = Inr r"
proof -
  let ?s = "trim_space src"
  have s: "?s \<noteq> []" "find (\<lambda>s. \<not> seg_ok s) (split_at (CHR ''.'') ?s) = None" "atoi (hd (split_at (CHR ''.'') ?s)) = None"
    "r = \<lparr>rf_root = hd (split_at (CHR ''.'') ?s), rf_path = tl (split_at (CHR ''.'') ?s)\<rparr>"
    using assms by (auto simp: parseRef_def Let_def split: if_splits option.splits)
  have segs: "rf_root r # rf_path r = split_at (CHR ''.'') ?s" by (simp add: s(4))
  have shown: "show_ref r = ?s" unfolding show_ref_def segs by (rule join_split_at)
  then have "parseRef (show_ref r) = Inr r"
    using assms by (simp add: parseRef_def trim_space_idem)
  moreover have "list_all seg_ok (rf_root r # rf_path r)" using s(2) by (auto simp: segs find_None_iff list_all_iff)
  moreover have "atoi (rf_root r) = None" using s(3,4) by simp
  ultimately show ?thesis using shown by simp
qed

lemma parseRef_show_witness:
  "show_ref \<lparr>rf_root = ''convert'', rf_path = [''markdown'', ''0'']\<rparr> = trim_space '' convert.markdown.0 ''"
proof -
  have "parseRef '' convert.markdown.0 '' = Inr \<lparr>rf_root = ''convert'', rf_path = [''markdown'', ''0'']\<rparr>" by code_simp
  from parseRef_show [OF this] show ?thesis by simp
qed

end
