(* ===== verification/Schedule.thy ===== *)
theory Schedule
  imports PipeExpr
begin

text \<open>
  The schedules of the automations and of the schedule triggers (\<open>internal/automation/schedule.go\<close>):
  how one is read and written, and the slots before and after a time.

  A zone is the function from an instant to its offset from UTC, in nanoseconds. A date is its day
  number, the days since January 1 of year 1 (a Monday), which is how \<open>time.Date\<close> normalizes a year,
  a month and a day out of range; \<open>to_lower\<close> changes ASCII letters only.
\<close>

subsection \<open>Reading and writing a schedule\<close>

record schedule =
  Weekday :: int
  Hour :: int
  Minute :: int
  Hourly :: bool

text \<open>\<open>strings.Fields\<close>: the words between white space.\<close>

function fields_from :: "string \<Rightarrow> string \<Rightarrow> string list" where
  "fields_from cur [] = (if cur = [] then [] else [rev cur])"
| "fields_from cur (c # cs) =
     (case find (\<lambda>w. has_prefix (c # cs) w) utf8_spaces of
        None \<Rightarrow> fields_from (c # cur) cs
      | Some w \<Rightarrow> (if cur = [] then [] else [rev cur]) @ fields_from [] (drop (length w - 1) cs))"
  by pat_completeness auto
termination by (relation "measure (\<lambda>(cur, s). length s)") auto

definition go_fields :: "string \<Rightarrow> string list" where "go_fields s = fields_from [] s"

definition weekdays :: "(string \<times> int) list" where
  "weekdays =
     [(''sunday'', 0), (''monday'', 1), (''tuesday'', 2), (''wednesday'', 3), (''thursday'', 4), (''friday'', 5), (''saturday'', 6),
      (''domenica'', 0), (''luned'' @ [CHR 0xC3, CHR 0xAC], 1), (''lunedi'', 1), (''marted'' @ [CHR 0xC3, CHR 0xAC], 2), (''martedi'', 2),
      (''mercoled'' @ [CHR 0xC3, CHR 0xAC], 3), (''mercoledi'', 3), (''gioved'' @ [CHR 0xC3, CHR 0xAC], 4), (''giovedi'', 4),
      (''venerd'' @ [CHR 0xC3, CHR 0xAC], 5), (''venerdi'', 5), (''sabato'', 6)]"

datatype schedule_error = NotDayAndTime | NotMinute string | NotDay string | NotTimeOfDay string

definition parse_minute :: "string \<Rightarrow> int option" where
  "parse_minute f =
     (case cut_prefix f '':'' of
        None \<Rightarrow> None
      | Some m \<Rightarrow>
          (case atoi m of
             None \<Rightarrow> None
           | Some n \<Rightarrow> if length m \<noteq> 2 \<or> n < 0 \<or> n > 59 then None else Some n))"

definition parse_clock :: "string \<Rightarrow> (int \<times> int) option" where
  "parse_clock f =
     (case cut (CHR '':'') f of
        (h, m, ok) \<Rightarrow>
          (case (atoi h, atoi m) of
             (Some hh, Some mm) \<Rightarrow> if \<not> ok \<or> hh < 0 \<or> hh > 23 \<or> mm < 0 \<or> mm > 59 then None else Some (hh, mm)
           | _ \<Rightarrow> None))"

definition ParseSchedule :: "string \<Rightarrow> schedule_error + schedule" where
  "ParseSchedule s =
     (let f = go_fields (to_lower (trim_space s)) in
      if f = [] \<or> length f > 2 then Inl NotDayAndTime
      else if f ! 0 \<in> {''hour'', ''hourly'', ''ora''}
      then let sc = \<lparr>Weekday = -1, Hour = 0, Minute = 0, Hourly = True\<rparr> in
           if length f = 2
           then case parse_minute (f ! 1) of
                  None \<Rightarrow> Inl (NotMinute (f ! 1))
                | Some n \<Rightarrow> Inr (sc\<lparr>Minute := n\<rparr>)
           else Inr sc
      else
        case (if f ! 0 \<in> {''day'', ''daily'', ''giorno''} then Some (-1) else map_of weekdays (f ! 0)) of
          None \<Rightarrow> Inl (NotDay (f ! 0))
        | Some d \<Rightarrow>
            let sc = \<lparr>Weekday = d, Hour = 9, Minute = 0, Hourly = False\<rparr> in
            if length f = 2
            then case parse_clock (f ! 1) of
                   None \<Rightarrow> Inl (NotTimeOfDay (f ! 1))
                 | Some (h, m) \<Rightarrow> Inr (sc\<lparr>Hour := h, Minute := m\<rparr>)
            else Inr sc)"

text \<open>\<open>%02d\<close> of a number of at most two digits.\<close>

definition show2 :: "int \<Rightarrow> string" where
  "show2 n = [char_of (nat (48 + n div 10)), char_of (nat (48 + n mod 10))]"

definition weekday_name :: "int \<Rightarrow> string" where
  "weekday_name d = [''sunday'', ''monday'', ''tuesday'', ''wednesday'', ''thursday'', ''friday'', ''saturday''] ! nat d"

definition schedule_string :: "schedule \<Rightarrow> string" where
  "schedule_string s =
     (if Hourly s then ''hour :'' @ show2 (Minute s)
      else (if Weekday s \<ge> 0 then weekday_name (Weekday s) else ''day'') @ '' '' @ show2 (Hour s) @ '':'' @ show2 (Minute s))"

subsection \<open>Slots\<close>

type_synonym zone = "time \<Rightarrow> int"

abbreviation day_ns :: int where "day_ns \<equiv> 86400000000000"

text \<open>\<open>time.Date\<close>: the offset is that of the local time read as UTC, or the one in force at the instant it gives.\<close>

definition date_in :: "zone \<Rightarrow> int \<Rightarrow> int \<Rightarrow> int \<Rightarrow> time" where
  "date_in loc day h m =
     (let u = day * day_ns + h * hour + m * minute; off = loc u in
      if off = 0 then u else u - loc (u - off))"

definition day_of :: "zone \<Rightarrow> time \<Rightarrow> int" where "day_of loc t = (t + loc t) div day_ns"

definition weekday_of :: "zone \<Rightarrow> time \<Rightarrow> int" where "weekday_of loc t = (day_of loc t + 1) mod 7"

definition day_fits :: "zone \<Rightarrow> schedule \<Rightarrow> time \<Rightarrow> bool" where
  "day_fits loc s t \<longleftrightarrow> Weekday s < 0 \<or> weekday_of loc t = Weekday s"

fun last_from :: "zone \<Rightarrow> schedule \<Rightarrow> time \<Rightarrow> nat \<Rightarrow> time \<Rightarrow> time" where
  "last_from loc s now 0 t = t"
| "last_from loc s now (Suc i) t =
     (if t \<le> now \<and> day_fits loc s t then t
      else last_from loc s now i (date_in loc (day_of loc t - 1) (Hour s) (Minute s)))"

definition Last :: "schedule \<Rightarrow> time \<Rightarrow> zone \<Rightarrow> time" where
  "Last s now loc =
     (if Hourly s
      then let top_of_hour = now - (now + loc now) mod hour;
               t = top_of_hour + Minute s * minute
           in if t > now then t - hour else t
      else last_from loc s now 8 (date_in loc (day_of loc now) (Hour s) (Minute s)))"

fun next_from :: "zone \<Rightarrow> schedule \<Rightarrow> time \<Rightarrow> nat \<Rightarrow> time \<Rightarrow> time" where
  "next_from loc s now 0 t = t"
| "next_from loc s now (Suc i) t =
     (if t > now \<and> day_fits loc s t then t
      else next_from loc s now i (date_in loc (day_of loc t + 1) (Hour s) (Minute s)))"

definition Next_slot :: "schedule \<Rightarrow> time \<Rightarrow> zone \<Rightarrow> time" where
  "Next_slot s now loc =
     (if Hourly s then Last s now loc + hour
      else next_from loc s now 9 (date_in loc (day_of loc now) (Hour s) (Minute s)))"

subsection \<open>A schedule reads back as it is written\<close>

definition schedule_ok :: "schedule \<Rightarrow> bool" where
  "schedule_ok s \<longleftrightarrow>
     0 \<le> Minute s \<and> Minute s \<le> 59 \<and>
     (if Hourly s then Weekday s = -1 \<and> Hour s = 0 else -1 \<le> Weekday s \<and> Weekday s \<le> 6 \<and> 0 \<le> Hour s \<and> Hour s \<le> 23)"

lemma weekdays_range: "map_of weekdays d = Some n \<Longrightarrow> 0 \<le> n \<and> n \<le> 6"
  by (drule map_of_SomeD) (auto simp: weekdays_def)

lemma parse_minute_range: "parse_minute f = Some n \<Longrightarrow> 0 \<le> n \<and> n \<le> 59"
  by (auto simp: parse_minute_def split: option.splits if_splits)

lemma parse_clock_range: "parse_clock f = Some (h, m) \<Longrightarrow> 0 \<le> h \<and> h \<le> 23 \<and> 0 \<le> m \<and> m \<le> 59"
  by (auto simp: parse_clock_def split: prod.splits option.splits if_splits)

lemma ParseSchedule_ok: "ParseSchedule src = Inr s \<Longrightarrow> schedule_ok s"
  by (auto simp: ParseSchedule_def Let_def schedule_ok_def split: if_splits option.splits
      dest: weekdays_range parse_minute_range parse_clock_range)

text \<open>Characters that neither start nor end a white space.\<close>

definition plain :: "char \<Rightarrow> bool" where
  "plain c \<longleftrightarrow> \<not> List.member (map hd utf8_spaces @ map last utf8_spaces) c"

lemma plain_iff: "plain c \<longleftrightarrow> (\<forall>w\<in>set utf8_spaces. hd w \<noteq> c \<and> last w \<noteq> c)"
  by (auto simp: plain_def)

lemma spaces_not_Nil: "w \<in> set utf8_spaces \<Longrightarrow> w \<noteq> []"
  by (auto simp: utf8_spaces_def)

lemma plain_no_space: "plain c \<Longrightarrow> find (\<lambda>w. has_prefix (c # cs) w) utf8_spaces = None"
  unfolding find_None_iff
proof
  assume c: "plain c" "\<exists>w. w \<in> set utf8_spaces \<and> has_prefix (c # cs) w"
  then obtain w where w: "w \<in> set utf8_spaces" "has_prefix (c # cs) w" by blast
  then have "hd w = c" using spaces_not_Nil [OF w(1)] by (simp add: has_prefix_iff) (metis hd_append2 list.sel(1))
  then show False using c(1) w(1) by (auto simp: plain_iff)
qed

lemma fields_word: "list_all plain w \<Longrightarrow> fields_from cur (w @ s) = fields_from (rev w @ cur) s"
  by (induction w arbitrary: cur) (simp_all add: plain_no_space)

lemma fields_space: "fields_from cur (CHR 0x20 # cs) = (if cur = [] then [] else [rev cur]) @ fields_from [] cs"
  by (simp add: utf8_spaces_def)

lemma fields_two:
  "list_all plain v \<Longrightarrow> list_all plain w \<Longrightarrow> v \<noteq> [] \<Longrightarrow> w \<noteq> [] \<Longrightarrow> go_fields (v @ '' '' @ w) = [v, w]"
  using fields_word [of v "[]" "'' '' @ w"] fields_word [of w "[]" "[]"] fields_space [of "rev v" w]
  by (simp add: go_fields_def del: fields_from.simps(2))

lemma trim_plain_word:
  assumes "s \<noteq> []" and "plain (hd s)" and "plain (last s)"
  shows "trim_space s = s"
proof -
  have "strip utf8_spaces s = s"
    unfolding strip_fixed_iff
  proof (intro ballI impI notI)
    fix w assume w: "w \<in> set utf8_spaces" "w \<noteq> []" "has_prefix s w"
    then have "hd w = hd s" by (auto simp: has_prefix_iff)
    then show False using assms(2) w(1) by (auto simp: plain_iff)
  qed
  moreover have "strip (map rev utf8_spaces) (rev s) = rev s"
    unfolding strip_fixed_iff
  proof (intro ballI impI notI)
    fix w assume w: "w \<in> set (map rev utf8_spaces)" "w \<noteq> []" "has_prefix (rev s) w"
    then obtain u where u: "u \<in> set utf8_spaces" "w = rev u" by auto
    then have "last u = last s" using w by (auto simp: has_prefix_iff hd_rev [symmetric])
    then show False using assms(3) u(1) by (auto simp: plain_iff)
  qed
  ultimately show ?thesis by (simp add: trim_space_def trim_left_def trim_right_def)
qed

text \<open>The digits.\<close>

lemma digit_cases: "0 \<le> k \<Longrightarrow> k \<le> 9 \<Longrightarrow> k = (0::int) \<or> k = 1 \<or> k = 2 \<or> k = 3 \<or> k = 4 \<or> k = 5 \<or> k = 6 \<or> k = 7 \<or> k = 8 \<or> k = 9"
  by arith

definition digit_char :: "int \<Rightarrow> char" where "digit_char k = char_of (nat (48 + k))"

lemma digit_chars: "map digit_char [0, 1, 2, 3, 4, 5, 6, 7, 8, 9] = ''0123456789''"
  by (simp add: digit_char_def char_of_def bit_0)

lemma digit_codes: "map (\<lambda>c. int (of_char c)) ''0123456789'' = [48, 49, 50, 51, 52, 53, 54, 55, 56, 57]"
  by simp

lemma digits_plain: "list_all (\<lambda>c. digit c \<and> plain c \<and> lower_char c = c \<and> c \<notin> {CHR ''-'', CHR ''+'', CHR '':''}) ''0123456789''"
  by code_simp

lemma digit_char:
  assumes "0 \<le> k" "k \<le> 9"
  shows "digit (digit_char k) \<and> plain (digit_char k) \<and> int (of_char (digit_char k)) = 48 + k \<and>
    lower_char (digit_char k) = digit_char k \<and> digit_char k \<notin> {CHR ''-'', CHR ''+'', CHR '':''}"
proof -
  let ?ks = "[0, 1, 2, 3, 4, 5, 6, 7, 8, 9] :: int list"
  have k: "k \<in> set ?ks" using digit_cases [OF assms] by simp
  then have "digit_char k \<in> set ''0123456789''" unfolding digit_chars [symmetric] by (simp only: set_map) (rule imageI)
  then have "digit (digit_char k) \<and> plain (digit_char k) \<and> lower_char (digit_char k) = digit_char k \<and>
      digit_char k \<notin> {CHR ''-'', CHR ''+'', CHR '':''}"
    using digits_plain unfolding list_all_iff by (rule bspec [rotated])
  moreover have "map (\<lambda>k. int (of_char (digit_char k))) ?ks = map (\<lambda>k. 48 + k) ?ks"
    using digit_codes unfolding digit_chars [symmetric] map_map comp_def by simp
  then have "int (of_char (digit_char k)) = 48 + k" using k by (simp only: map_eq_conv)
  ultimately show ?thesis by blast
qed

lemma show2_digits: "show2 n = [digit_char (n div 10), digit_char (n mod 10)]"
  by (simp add: show2_def digit_char_def)

lemma show2:
  assumes "0 \<le> n" "n \<le> 99"
  shows "atoi (show2 n) = Some n" "list_all plain (show2 n)" "to_lower (show2 n) = show2 n" "length (show2 n) = 2" "show2 n \<noteq> []"
    "CHR '':'' \<notin> set (show2 n)"
proof -
  have d: "0 \<le> n div 10" "n div 10 \<le> 9" "0 \<le> n mod 10" "n mod 10 \<le> 9" using assms by simp_all
  note a = digit_char [OF d(1,2)] and b = digit_char [OF d(3,4)]
  have "digits_value (show2 n) = 10 * (n div 10) + n mod 10" using a b by (simp add: digits_value_def show2_digits)
  then have "digits_value (show2 n) = n" by simp
  then show "atoi (show2 n) = Some n" using a b assms by (auto simp: atoi_def show2_digits Let_def)
  show "list_all plain (show2 n)" "to_lower (show2 n) = show2 n" "length (show2 n) = 2" "show2 n \<noteq> []" "CHR '':'' \<notin> set (show2 n)"
    using a b by (auto simp: show2_digits to_lower_def)
qed

lemma cut_at: "c \<notin> set a \<Longrightarrow> cut c (a @ c # b) = (a, b, True)"
  by (induction a) auto

lemma parse_minute_show: "0 \<le> n \<Longrightarrow> n \<le> 59 \<Longrightarrow> parse_minute ('':'' @ show2 n) = Some n"
  using show2 [of n] by (simp add: parse_minute_def cut_prefix_def)

lemma parse_clock_show:
  "0 \<le> h \<Longrightarrow> h \<le> 23 \<Longrightarrow> 0 \<le> m \<Longrightarrow> m \<le> 59 \<Longrightarrow> parse_clock (show2 h @ '':'' @ show2 m) = Some (h, m)"
  using show2 [of h] show2 [of m] cut_at [of "CHR '':''" "show2 h" "show2 m"] by (simp add: parse_clock_def)

lemma weekday_names_ok:
  "list_all (\<lambda>d. list_all plain (weekday_name d) \<and> to_lower (weekday_name d) = weekday_name d \<and> map_of weekdays (weekday_name d) = Some d \<and>
      weekday_name d \<noteq> [] \<and> weekday_name d \<notin> {''hour'', ''hourly'', ''ora'', ''day'', ''daily'', ''giorno''}) [0, 1, 2, 3, 4, 5, 6]"
  by code_simp

lemma weekday_names:
  assumes "0 \<le> d" "d \<le> 6"
  shows "list_all plain (weekday_name d) \<and> to_lower (weekday_name d) = weekday_name d \<and> map_of weekdays (weekday_name d) = Some d \<and>
    weekday_name d \<noteq> [] \<and> weekday_name d \<notin> {''hour'', ''hourly'', ''ora'', ''day'', ''daily'', ''giorno''}"
proof -
  have "d = 0 \<or> d = 1 \<or> d = 2 \<or> d = 3 \<or> d = 4 \<or> d = 5 \<or> d = 6" using assms by arith
  then have "d \<in> set [0, 1, 2, 3, 4, 5, 6]" by simp
  then show ?thesis using weekday_names_ok unfolding list_all_iff by (rule bspec [rotated])
qed

lemma to_lower_append: "to_lower (a @ b) = to_lower a @ to_lower b"
  by (simp add: to_lower_def)

lemma two_words:
  assumes "list_all plain v" "list_all plain w" "v \<noteq> []" "w \<noteq> []" "to_lower v = v" "to_lower w = w"
  shows "go_fields (to_lower (trim_space (v @ '' '' @ w))) = [v, w]"
proof -
  have "plain (hd v)" "plain (last w)" using assms(1-4) by (auto simp: list_all_iff)
  then have "trim_space (v @ '' '' @ w) = v @ '' '' @ w" using assms(3,4) by (intro trim_plain_word) auto
  moreover have "to_lower '' '' = '' ''" by code_simp
  ultimately show ?thesis using assms fields_two by (simp add: to_lower_append del: append.simps)
qed

lemma schedule_reads_back:
  assumes "schedule_ok s"
  shows "ParseSchedule (schedule_string s) = Inr s"
proof (cases "Hourly s")
  case True
  have m: "0 \<le> Minute s" "Minute s \<le> 59" using assms by (auto simp: schedule_ok_def)
  have words: "list_all plain ''hour''" "to_lower ''hour'' = ''hour''" "plain (CHR '':'')" "to_lower '':'' = '':''" by code_simp+
  have "go_fields (to_lower (trim_space (''hour'' @ '' '' @ ('':'' @ show2 (Minute s))))) = [''hour'', '':'' @ show2 (Minute s)]"
    using show2 [of "Minute s"] m words by (intro two_words) (auto simp: to_lower_append simp del: append_Cons)
  then have f: "go_fields (to_lower (trim_space (schedule_string s))) = [''hour'', '':'' @ show2 (Minute s)]"
    using True by (simp add: schedule_string_def)
  have "s = \<lparr>Weekday = -1, Hour = 0, Minute = Minute s, Hourly = True\<rparr>" using assms True by (simp add: schedule_ok_def)
  then show ?thesis using parse_minute_show [OF m] by (simp add: ParseSchedule_def f)
next
  case False
  have m: "0 \<le> Minute s" "Minute s \<le> 59" "0 \<le> Hour s" "Hour s \<le> 23" "-1 \<le> Weekday s" "Weekday s \<le> 6"
    using assms False by (auto simp: schedule_ok_def)
  let ?w = "if Weekday s \<ge> 0 then weekday_name (Weekday s) else ''day''"
  let ?t = "show2 (Hour s) @ '':'' @ show2 (Minute s)"
  have "list_all plain ''day''" "to_lower ''day'' = ''day''" "plain (CHR '':'')" "to_lower '':'' = '':''" by code_simp+
  then have w: "list_all plain ?w" "to_lower ?w = ?w" "?w \<noteq> []" "list_all plain ?t" "to_lower ?t = ?t" "?t \<noteq> []"
    using weekday_names [of "Weekday s"] show2 [of "Hour s"] show2 [of "Minute s"] m by (auto simp: to_lower_append simp del: append_Cons)
  have f: "go_fields (to_lower (trim_space (schedule_string s))) = [?w, ?t]"
    using two_words [OF w(1,4,3,6,2,5)] False by (simp add: schedule_string_def)
  have "(if ?w \<in> {''day'', ''daily'', ''giorno''} then Some (-1) else map_of weekdays ?w) = Some (Weekday s)"
    using weekday_names [of "Weekday s"] m by auto
  moreover have "?w \<notin> {''hour'', ''hourly'', ''ora''}" using weekday_names [of "Weekday s"] m by auto
  moreover have "\<lparr>Weekday = if 0 \<le> Weekday s then Weekday s else -1, Hour = Hour s, Minute = Minute s, Hourly = False\<rparr> = s"
    using False m by (cases s) auto
  ultimately show ?thesis using parse_clock_show [of "Hour s" "Minute s"] m unfolding ParseSchedule_def f by (auto simp: Let_def)
qed

text \<open>C23: A schedule is read back as it is written: what \<open>ParseSchedule\<close> accepts has a day of the week, an hour
  and a minute in range, and its text parses to the same schedule.\<close>

theorem schedule_roundtrip:
  assumes "ParseSchedule src = Inr s"
  shows "schedule_ok s \<and> ParseSchedule (schedule_string s) = Inr s"
  using ParseSchedule_ok [OF assms] schedule_reads_back by blast

lemma schedule_roundtrip_witness:
  "ParseSchedule (schedule_string \<lparr>Weekday = 1, Hour = 9, Minute = 5, Hourly = False\<rparr>) =
     Inr \<lparr>Weekday = 1, Hour = 9, Minute = 5, Hourly = False\<rparr>"
proof -
  have "ParseSchedule ''lunedi 9:05'' = Inr \<lparr>Weekday = 1, Hour = 9, Minute = 5, Hourly = False\<rparr>" by code_simp
  from schedule_roundtrip [OF this] show ?thesis by simp
qed

subsection \<open>The slots\<close>

text \<open>A slot of the schedule, in a zone of constant offset: the time of day, or of the hour, in that zone.\<close>

definition slot :: "schedule \<Rightarrow> int \<Rightarrow> time \<Rightarrow> bool" where
  "slot s off t \<longleftrightarrow>
     (if Hourly s then (t + off) mod hour = Minute s * minute
      else (t + off) mod day_ns = Hour s * hour + Minute s * minute \<and>
           (Weekday s < 0 \<or> ((t + off) div day_ns + 1) mod 7 = Weekday s))"

definition clock_of :: "schedule \<Rightarrow> int" where "clock_of s = Hour s * hour + Minute s * minute"

abbreviation at_day :: "int \<Rightarrow> schedule \<Rightarrow> int \<Rightarrow> time" where
  "at_day off s day \<equiv> date_in (\<lambda>_. off) day (Hour s) (Minute s)"

lemma date_fixed: "at_day off s day = day * day_ns + clock_of s - off"
  by (simp add: date_in_def Let_def clock_of_def)

lemma clock_range:
  assumes "schedule_ok s" "\<not> Hourly s"
  shows "0 \<le> clock_of s" "clock_of s < day_ns"
  using assms by (auto simp: schedule_ok_def clock_of_def)

lemma day_of_date:
  assumes "schedule_ok s" "\<not> Hourly s"
  shows "day_of (\<lambda>_. off) (at_day off s day) = day" "(at_day off s day + off) mod day_ns = clock_of s"
  using clock_range [OF assms] by (simp_all add: day_of_def date_fixed)

lemma slot_day:
  assumes "schedule_ok s" "\<not> Hourly s"
  shows "slot s off t \<longleftrightarrow> (\<exists>day. t = at_day off s day \<and> (Weekday s < 0 \<or> (day + 1) mod 7 = Weekday s))"
proof
  assume t: "slot s off t"
  have "t + off = (t + off) div day_ns * day_ns + (t + off) mod day_ns" by simp
  moreover have "(t + off) mod day_ns = clock_of s" using t assms(2) by (simp add: slot_def clock_of_def)
  ultimately have "t = at_day off s ((t + off) div day_ns)" unfolding date_fixed by simp
  then show "\<exists>day. t = at_day off s day \<and> (Weekday s < 0 \<or> (day + 1) mod 7 = Weekday s)"
    using t assms(2) by (auto simp: slot_def)
next
  assume "\<exists>day. t = at_day off s day \<and> (Weekday s < 0 \<or> (day + 1) mod 7 = Weekday s)"
  then obtain day where t: "t = at_day off s day" "Weekday s < 0 \<or> (day + 1) mod 7 = Weekday s" by blast
  then show "slot s off t" using day_of_date [OF assms, of off day] assms(2) by (simp add: slot_def day_of_def clock_of_def)
qed

lemma last_from_spec:
  assumes "schedule_ok s" "\<not> Hourly s" "d - int n < day" "day \<le> d"
    and "at_day off s day \<le> now" "Weekday s < 0 \<or> (day + 1) mod 7 = Weekday s"
  shows "\<exists>day'. day \<le> day' \<and> last_from (\<lambda>_. off) s now n (at_day off s d) = at_day off s day' \<and>
    at_day off s day' \<le> now \<and> (Weekday s < 0 \<or> (day' + 1) mod 7 = Weekday s) \<and>
    (\<forall>x. day' < x \<and> x \<le> d \<longrightarrow> \<not> (at_day off s x \<le> now \<and> (Weekday s < 0 \<or> (x + 1) mod 7 = Weekday s)))"
  using assms(3,4)
proof (induction n arbitrary: d)
  case 0
  then show ?case by simp
next
  case (Suc n)
  let ?t = "at_day off s d"
  have fits: "day_fits (\<lambda>_. off) s ?t \<longleftrightarrow> Weekday s < 0 \<or> (d + 1) mod 7 = Weekday s"
    using day_of_date(1) [OF assms(1,2)] by (simp add: day_fits_def weekday_of_def)
  show ?case
  proof (cases "?t \<le> now \<and> (Weekday s < 0 \<or> (d + 1) mod 7 = Weekday s)")
    case True
    then show ?thesis using fits Suc.prems(2) by (intro exI [of _ d]) simp
  next
    case False
    then have "day \<noteq> d" using assms(5,6) by auto
    then obtain day' where day': "day \<le> day'"
      "last_from (\<lambda>_. off) s now n (at_day off s (d - 1)) = at_day off s day'"
      "at_day off s day' \<le> now" "Weekday s < 0 \<or> (day' + 1) mod 7 = Weekday s"
      "\<forall>x. day' < x \<and> x \<le> d - 1 \<longrightarrow> \<not> (at_day off s x \<le> now \<and> (Weekday s < 0 \<or> (x + 1) mod 7 = Weekday s))"
      using Suc.IH [of "d - 1"] Suc.prems by auto
    have "last_from (\<lambda>_. off) s now (Suc n) ?t = last_from (\<lambda>_. off) s now n (at_day off s (d - 1))"
      unfolding last_from.simps fits day_of_date(1) [OF assms(1,2)] using False by (simp only: if_False)
    moreover have "\<forall>x. day' < x \<and> x \<le> d \<longrightarrow> \<not> (at_day off s x \<le> now \<and> (Weekday s < 0 \<or> (x + 1) mod 7 = Weekday s))"
    proof (intro allI impI)
      fix x assume "day' < x \<and> x \<le> d"
      then show "\<not> (at_day off s x \<le> now \<and> (Weekday s < 0 \<or> (x + 1) mod 7 = Weekday s))"
        using day'(5) False by (cases "x = d") auto
    qed
    ultimately show ?thesis using day'(1-4) by (intro exI [of _ day']) simp
  qed
qed

text \<open>A day of the week comes within any seven days.\<close>

lemma week_has_day:
  fixes d w :: int
  assumes "-1 \<le> w" "w \<le> 6"
  shows "\<exists>day. d - 7 < day \<and> day \<le> d \<and> (w < 0 \<or> (day + 1) mod 7 = w)"
proof (cases "w < 0")
  case False
  let ?day = "d - (d + 1 - w) mod 7"
  have "(?day + 1) mod 7 = (d + 1 - (d + 1 - w)) mod 7" by (simp add: mod_simps algebra_simps)
  then have "(?day + 1) mod 7 = w" using assms False by simp
  moreover have "0 \<le> (d + 1 - w) mod 7" "(d + 1 - w) mod 7 < 7" by simp_all
  ultimately show ?thesis by (intro exI [of _ ?day]) simp
qed (auto intro: exI [of _ d])

lemma at_day_mono: "at_day off s x \<le> at_day off s y \<longleftrightarrow> x \<le> y"
  by (simp add: date_fixed)

lemma Last_daily:
  assumes "schedule_ok s" "\<not> Hourly s"
  shows "slot s off (Last s now (\<lambda>_. off)) \<and> Last s now (\<lambda>_. off) \<le> now \<and> (\<forall>u. slot s off u \<and> u \<le> now \<longrightarrow> u \<le> Last s now (\<lambda>_. off))"
proof -
  let ?d = "day_of (\<lambda>_. off) now"
  have w: "-1 \<le> Weekday s" "Weekday s \<le> 6" using assms by (auto simp: schedule_ok_def)
  obtain day where day: "?d - 1 - 7 < day" "day \<le> ?d - 1" "Weekday s < 0 \<or> (day + 1) mod 7 = Weekday s"
    using week_has_day [OF w, of "?d - 1"] by auto
  have today: "at_day off s x \<le> now \<Longrightarrow> x \<le> ?d" "x \<le> ?d - 1 \<Longrightarrow> at_day off s x \<le> now" for x
  proof -
    have n: "now + off = ?d * day_ns + (now + off) mod day_ns" "0 \<le> (now + off) mod day_ns" "(now + off) mod day_ns < day_ns"
      by (simp_all add: day_of_def)
    note r = clock_range [OF assms]
    show "at_day off s x \<le> now \<Longrightarrow> x \<le> ?d"
    proof (rule ccontr)
      assume x: "at_day off s x \<le> now" "\<not> x \<le> ?d"
      then have "(?d + 1) * day_ns \<le> x * day_ns" by simp
      then show False using x(1) n r unfolding date_fixed by (simp add: distrib_right)
    qed
    show "x \<le> ?d - 1 \<Longrightarrow> at_day off s x \<le> now"
    proof -
      assume "x \<le> ?d - 1"
      then have "x * day_ns \<le> (?d - 1) * day_ns" by simp
      then show ?thesis using n r unfolding date_fixed by (simp add: left_diff_distrib)
    qed
  qed
  obtain day' where d': "last_from (\<lambda>_. off) s now 8 (at_day off s ?d) = at_day off s day'" "at_day off s day' \<le> now"
    "Weekday s < 0 \<or> (day' + 1) mod 7 = Weekday s"
    "\<forall>x. day' < x \<and> x \<le> ?d \<longrightarrow> \<not> (at_day off s x \<le> now \<and> (Weekday s < 0 \<or> (x + 1) mod 7 = Weekday s))"
    using last_from_spec [OF assms, of ?d 8 day off now] day today(2) by auto
  have last: "Last s now (\<lambda>_. off) = at_day off s day'" using assms(2) d'(1) by (simp add: Last_def)
  have "u \<le> at_day off s day'" if u: "slot s off u" "u \<le> now" for u
  proof -
    obtain x where x: "u = at_day off s x" "Weekday s < 0 \<or> (x + 1) mod 7 = Weekday s" using u(1) slot_day [OF assms] by blast
    have "x \<le> ?d" using today(1) u(2) x(1) by simp
    then have "x \<le> day'" using d'(4) x u(2) by force
    then show ?thesis using x(1) at_day_mono by simp
  qed
  moreover have "slot s off (at_day off s day')" using slot_day [OF assms] d'(3) by blast
  ultimately show ?thesis using last d'(2) by simp
qed

lemma Last_hourly:
  assumes "schedule_ok s" "Hourly s"
  shows "slot s off (Last s now (\<lambda>_. off)) \<and> Last s now (\<lambda>_. off) \<le> now \<and> (\<forall>u. slot s off u \<and> u \<le> now \<longrightarrow> u \<le> Last s now (\<lambda>_. off))"
proof -
  have m: "0 \<le> Minute s * minute" "Minute s * minute < hour" using assms by (auto simp: schedule_ok_def)
  let ?r = "(now + off) mod hour" and ?q = "(now + off) div hour"
  have n: "now + off = ?q * hour + ?r" "0 \<le> ?r" "?r < hour" by simp_all
  let ?k = "if Minute s * minute > ?r then ?q - 1 else ?q"
  have last: "Last s now (\<lambda>_. off) = ?k * hour + Minute s * minute - off"
  proof -
    have "now - ?r = ?q * hour - off" using n(1) by linarith
    then show ?thesis using assms(2) by (simp add: Last_def Let_def left_diff_distrib)
  qed
  have "slot s off (Last s now (\<lambda>_. off))" using assms(2) m by (simp add: slot_def last del: if_split)
  moreover have "Last s now (\<lambda>_. off) \<le> now" unfolding last using n m
  proof (cases "Minute s * minute > ?r")
    case True
    then show "(if Minute s * minute > ?r then ?q - 1 else ?q) * hour + Minute s * minute - off \<le> now"
      unfolding if_P [OF True] left_diff_distrib using n m by linarith
  next
    case False
    then show "(if Minute s * minute > ?r then ?q - 1 else ?q) * hour + Minute s * minute - off \<le> now"
      unfolding if_not_P [OF False] using n False by linarith
  qed
  moreover have "u \<le> Last s now (\<lambda>_. off)" if u: "slot s off u" "u \<le> now" for u
  proof -
    let ?j = "(u + off) div hour"
    have "(u + off) mod hour = Minute s * minute" using u(1) assms(2) by (simp add: slot_def)
    then have j: "u + off = ?j * hour + Minute s * minute" by (metis div_mult_mod_eq)
    have "?j \<le> ?k"
    proof (rule ccontr)
      assume "\<not> ?j \<le> ?k"
      then have k: "(?k + 1) * hour \<le> ?j * hour" by simp
      show False
      proof (cases "Minute s * minute > ?r")
        case True
        then show False using k j u(2) n unfolding if_P [OF True] distrib_right left_diff_distrib by linarith
      next
        case False
        then show False using k j u(2) n m unfolding if_not_P [OF False] distrib_right by linarith
      qed
    qed
    then have "?j * hour \<le> ?k * hour" by simp
    then show ?thesis using j last by linarith
  qed
  ultimately show ?thesis by blast
qed

text \<open>In a zone of constant offset \<open>Last\<close> gives the latest slot of the schedule at or before a time: the
  eight days it looks back are enough, whatever the day of the week.\<close>

theorem Last_is_latest:
  assumes "schedule_ok s"
  shows "slot s off (Last s now (\<lambda>_. off)) \<and> Last s now (\<lambda>_. off) \<le> now \<and>
    (\<forall>u. slot s off u \<and> u \<le> now \<longrightarrow> u \<le> Last s now (\<lambda>_. off))"
  using Last_daily [OF assms] Last_hourly [OF assms] by (cases "Hourly s") blast+

lemma Last_is_latest_witness:
  "slot \<lparr>Weekday = 1, Hour = 9, Minute = 5, Hourly = False\<rparr> 0 (Last \<lparr>Weekday = 1, Hour = 9, Minute = 5, Hourly = False\<rparr> 638000000000000000000 (\<lambda>_. 0))"
proof -
  have "schedule_ok \<lparr>Weekday = 1, Hour = 9, Minute = 5, Hourly = False\<rparr>" by (simp add: schedule_ok_def)
  from Last_is_latest [OF this, of 0 "638000000000000000000"] show ?thesis by simp
qed

end
