(* ===== verification/PipeSpec.thy ===== *)
theory PipeSpec
  imports Schedule "HOL-Library.FSet"
begin

text \<open>
  A pipeline as its note declares it (\<open>internal/pipeline/spec.go\<close>), and the check of its graph:
  every node comes after nodes there are, no node leads back to itself, and an expression names only
  what runs before it.

  The recursive closure \<open>visit\<close> of the check is \<open>visit\<close> here with fuel, whose end is the error
  \<open>OutOfFuel\<close>; \<open>check_returns\<close> says that it does not occur.
\<close>

subsection \<open>Data\<close>

record retry =
  re_attempts :: int
  re_backoff :: duration

record node =
  n_id :: string
  n_use :: string
  n_with :: "(string \<times> jvalue) list"
  n_after :: "string list"
  n_when :: string
  n_unless :: string
  n_each :: string
  n_retry :: retry
  n_timeout :: duration
  n_on_error :: string

record trigger =
  tg_on :: string
  tg_kinds :: "string list"
  tg_folder :: string
  tg_match :: string
  tg_batch :: bool
  tg_leave :: bool
  tg_skip :: "string list"
  tg_every :: string
  tg_schedule :: "schedule option"
  tg_status :: "string list"
  tg_pipelines :: string
  tg_resource :: string
  tg_queued :: int
  tg_waited :: duration
  tg_team :: string
  tg_roles :: "string list"
  tg_events :: "string list"
  tg_coordinator :: "bool option"

record spec =
  pl_trigger :: trigger
  pl_nodes :: "node list"
  pl_answer :: string
  pl_priority :: string
  pl_category :: string

datatype graph_error =
    UnknownAfter string string
  | AfterItself string
  | CycleAt string
  | BadExpr string expr_error
  | OnlyInEach string ref
  | NoSuchNode string ref
  | NotBefore string ref
  | OutOfFuel

definition TriggerChat :: string where "TriggerChat = ''chat''"
definition PriorityInteractiveName :: string where "PriorityInteractiveName = ''interactive''"
definition CategoryDefault :: string where "CategoryDefault = ''default''"
definition CategoryChat :: string where "CategoryChat = ''chat''"

definition CategoryOf :: "spec \<Rightarrow> string" where
  "CategoryOf s =
     (if pl_category s \<noteq> [] then pl_category s
      else if tg_on (pl_trigger s) = TriggerChat then CategoryChat
      else CategoryDefault)"

definition Interactive :: "spec \<Rightarrow> bool" where
  "Interactive s \<longleftrightarrow> pl_priority s = PriorityInteractiveName \<or> tg_on (pl_trigger s) = TriggerChat"

definition find_node :: "spec \<Rightarrow> string \<Rightarrow> node option" where
  "find_node s name = find (\<lambda>n. n_id n = name) (pl_nodes s)"

subsection \<open>The check of the graph\<close>

text \<open>The map \<open>ids\<close>: the last node of an id.\<close>

definition ids_of :: "node list \<Rightarrow> (string, node) fmap" where
  "ids_of nodes = fold (\<lambda>n. fmupd (n_id n) n) nodes fmempty"

fun check_after :: "(string, node) fmap \<Rightarrow> string \<Rightarrow> string list \<Rightarrow> graph_error + unit" where
  "check_after ids name [] = Inr ()"
| "check_after ids name (d # ds) =
     (if fmlookup ids d = None then Inl (UnknownAfter name d)
      else if d = name then Inl (AfterItself name)
      else check_after ids name ds)"

fun check_deps :: "(string, node) fmap \<Rightarrow> node list \<Rightarrow> graph_error + unit" where
  "check_deps ids [] = Inr ()"
| "check_deps ids (n # ns) =
     (case check_after ids (n_id n) (n_after n) of Inl e \<Rightarrow> Inl e | Inr _ \<Rightarrow> check_deps ids ns)"

datatype mark = Visiting | Visited

record dfs =
  df_anc :: "(string, string fset) fmap"
  df_state :: "(string, mark) fmap"

definition after_of :: "(string, node) fmap \<Rightarrow> string \<Rightarrow> string list" where
  "after_of ids name = (case fmlookup ids name of None \<Rightarrow> [] | Some n \<Rightarrow> n_after n)"

function visit :: "nat \<Rightarrow> (string, node) fmap \<Rightarrow> string \<Rightarrow> dfs \<Rightarrow> graph_error + dfs"
  and visit_deps :: "nat \<Rightarrow> (string, node) fmap \<Rightarrow> string list \<Rightarrow> string fset \<Rightarrow> dfs \<Rightarrow> graph_error + string fset \<times> dfs" where
  "visit 0 ids name g = Inl OutOfFuel"
| "visit (Suc fuel) ids name g =
     (case fmlookup (df_state g) name of
        Some Visiting \<Rightarrow> Inl (CycleAt name)
      | Some Visited \<Rightarrow> Inr g
      | None \<Rightarrow>
          (case visit_deps fuel ids (after_of ids name) {||} (g\<lparr>df_state := fmupd name Visiting (df_state g)\<rparr>) of
             Inl e \<Rightarrow> Inl e
           | Inr (a, g') \<Rightarrow> Inr (g'\<lparr>df_anc := fmupd name a (df_anc g'), df_state := fmupd name Visited (df_state g')\<rparr>)))"
| "visit_deps fuel ids [] a g = Inr (a, g)"
| "visit_deps fuel ids (d # ds) a g =
     (case visit fuel ids d g of
        Inl e \<Rightarrow> Inl e
      | Inr g' \<Rightarrow> visit_deps fuel ids ds (finsert d a |\<union>| fm_get {||} (df_anc g') d) g')"
  by pat_completeness auto
termination
  by (relation "measures [\<lambda>x. case x of Inl (fuel, ids, name, g) \<Rightarrow> 2 * fuel | Inr (fuel, ids, ds, a, g) \<Rightarrow> 2 * fuel + 1,
      \<lambda>x. case x of Inl (fuel, ids, name, g) \<Rightarrow> 0 | Inr (fuel, ids, ds, a, g) \<Rightarrow> length ds]") auto

fun visit_all :: "nat \<Rightarrow> (string, node) fmap \<Rightarrow> node list \<Rightarrow> dfs \<Rightarrow> graph_error + dfs" where
  "visit_all fuel ids [] g = Inr g"
| "visit_all fuel ids (n # ns) g =
     (case visit fuel ids (n_id n) g of Inl e \<Rightarrow> Inl e | Inr g' \<Rightarrow> visit_all fuel ids ns g')"

text \<open>The references of a node: of its settings, its conditions and its list.\<close>

fun exprs_refs :: "string list \<Rightarrow> expr_error + ref list" where
  "exprs_refs [] = Inr []"
| "exprs_refs (e # es) =
     (if e = [] then exprs_refs es
      else case refsIn (JString e) of
             Inl err \<Rightarrow> Inl err
           | Inr rs \<Rightarrow> (case exprs_refs es of Inl err \<Rightarrow> Inl err | Inr rs' \<Rightarrow> Inr (rs @ rs')))"

definition node_refs :: "node \<Rightarrow> expr_error + ref list" where
  "node_refs n =
     (case refsIn (JObject (n_with n)) of
        Inl err \<Rightarrow> Inl err
      | Inr rs \<Rightarrow>
          (case exprs_refs [n_when n, n_unless n, n_each n] of
             Inl err \<Rightarrow> Inl err
           | Inr rs' \<Rightarrow> Inr (rs @ rs')))"

definition ref_error :: "(string, node) fmap \<Rightarrow> dfs \<Rightarrow> node \<Rightarrow> ref \<Rightarrow> graph_error option" where
  "ref_error ids g n r =
     (if rf_root r \<in> {''trigger'', ''run''} then None
      else if rf_root r \<in> {''item'', ''index''} then (if n_each n = [] then Some (OnlyInEach (n_id n) r) else None)
      else if fmlookup ids (rf_root r) = None then Some (NoSuchNode (n_id n) r)
      else if rf_root r |\<notin>| fm_get {||} (df_anc g) (n_id n) then Some (NotBefore (n_id n) r)
      else None)"

fun check_refs :: "(string, node) fmap \<Rightarrow> dfs \<Rightarrow> node list \<Rightarrow> graph_error + unit" where
  "check_refs ids g [] = Inr ()"
| "check_refs ids g (n # ns) =
     (case node_refs n of
        Inl err \<Rightarrow> Inl (BadExpr (n_id n) err)
      | Inr rs \<Rightarrow>
          (case List.map_filter (ref_error ids g n) rs of
             e # _ \<Rightarrow> Inl e
           | [] \<Rightarrow> check_refs ids g ns))"

definition check_spec :: "spec \<Rightarrow> graph_error + unit" where
  "check_spec s =
     (let nodes = pl_nodes s; ids = ids_of nodes in
      case check_deps ids nodes of
        Inl e \<Rightarrow> Inl e
      | Inr _ \<Rightarrow>
          (case visit_all (length nodes + 1) ids nodes \<lparr>df_anc = fmempty, df_state = fmempty\<rparr> of
             Inl e \<Rightarrow> Inl e
           | Inr g \<Rightarrow> check_refs ids g nodes))"

end
