(* ===== verification/PipeGraph.thy ===== *)
theory PipeGraph
  imports PipeSpec
begin

text \<open>
  What the check of a pipeline's graph decides: the depth-first search returns, finds a cycle exactly
  when there is one, and the ancestors it collects are those of the transitive closure.
\<close>

subsection \<open>The relation\<close>

definition edges :: "(string, node) fmap \<Rightarrow> (string \<times> string) set" where
  "edges ids = {(x, d). d \<in> set (after_of ids x)}"

lemma edges_trancl_step: "((edges ids)\<^sup>+ `` {x}) = (\<Union>d\<in>set (after_of ids x). insert d ((edges ids)\<^sup>+ `` {d}))"
  by (auto simp: edges_def elim: converse_tranclE intro: trancl_into_trancl2)

definition dfs_ok :: "(string, node) fmap \<Rightarrow> dfs \<Rightarrow> bool" where
  "dfs_ok ids g \<longleftrightarrow>
     (\<forall>x. fmlookup (df_state g) x = Some Visited \<longrightarrow>
        (\<forall>d\<in>set (after_of ids x). fmlookup (df_state g) d = Some Visited) \<and>
        fset (fm_get {||} (df_anc g) x) = (edges ids)\<^sup>+ `` {x} \<and> (x, x) \<notin> (edges ids)\<^sup>+)"

lemma dfs_okD:
  assumes "dfs_ok ids g" and "fmlookup (df_state g) x = Some Visited"
  shows "d \<in> set (after_of ids x) \<Longrightarrow> fmlookup (df_state g) d = Some Visited"
    "fset (fm_get {||} (df_anc g) x) = (edges ids)\<^sup>+ `` {x}" "(x, x) \<notin> (edges ids)\<^sup>+"
  using assms by (auto simp: dfs_ok_def)

text \<open>What was visited leads only to what was visited.\<close>

lemma visited_closed:
  assumes "dfs_ok ids g" and "(x, y) \<in> (edges ids)\<^sup>+" and "fmlookup (df_state g) x = Some Visited"
  shows "fmlookup (df_state g) y = Some Visited"
  using assms(2,3)
proof (induction rule: trancl_induct)
  case (base y)
  then show ?case using dfs_okD(1) [OF assms(1)] by (simp add: edges_def)
next
  case (step y z)
  then show ?case using dfs_okD(1) [OF assms(1)] by (simp add: edges_def)
qed

definition grows :: "dfs \<Rightarrow> dfs \<Rightarrow> bool" where
  "grows g g' \<longleftrightarrow>
     (\<forall>x. fmlookup (df_state g) x = Some Visited \<longrightarrow> fmlookup (df_state g') x = Some Visited) \<and>
     (\<forall>x. fmlookup (df_state g') x = Some Visiting \<longleftrightarrow> fmlookup (df_state g) x = Some Visiting)"

lemma grows_refl: "grows g g"
  by (simp add: grows_def)

lemma grows_trans: "grows g g' \<Longrightarrow> grows g' g'' \<Longrightarrow> grows g g''"
  by (simp add: grows_def)

lemma grows_dom: "grows g g' \<Longrightarrow> fmdom' (df_state g) \<subseteq> fmdom' (df_state g')"
proof
  fix x assume g: "grows g g'" and "x \<in> fmdom' (df_state g)"
  then obtain m where "fmlookup (df_state g) x = Some m" by (auto simp: fmlookup_dom'_iff)
  then show "x \<in> fmdom' (df_state g')" using g by (cases m) (auto simp: grows_def fmlookup_dom'_iff)
qed

subsection \<open>A visit that succeeds\<close>

lemma finish_ok:
  assumes "dfs_ok ids g'" and "grows (g\<lparr>df_state := fmupd x Visiting (df_state g)\<rparr>) g'" and "fmlookup (df_state g) x = None"
    and "\<forall>d\<in>set (after_of ids x). fmlookup (df_state g') d = Some Visited" and "fset a = (edges ids)\<^sup>+ `` {x}"
  shows "dfs_ok ids (g'\<lparr>df_anc := fmupd x a (df_anc g'), df_state := fmupd x Visited (df_state g')\<rparr>) \<and>
    grows g (g'\<lparr>df_anc := fmupd x a (df_anc g'), df_state := fmupd x Visited (df_state g')\<rparr>)"
proof
  have x: "fmlookup (df_state g') x = Some Visiting" using assms(2) by (simp add: grows_def)
  have "(x, x) \<notin> (edges ids)\<^sup>+"
  proof
    assume "(x, x) \<in> (edges ids)\<^sup>+"
    then obtain d where d: "d \<in> set (after_of ids x)" "d = x \<or> (d, x) \<in> (edges ids)\<^sup>+"
      by (cases rule: converse_tranclE) (auto simp: edges_def)
    have "fmlookup (df_state g') d = Some Visited" using assms(4) d(1) by blast
    then have "fmlookup (df_state g') x = Some Visited" using d(2) visited_closed [OF assms(1)] by blast
    then show False using x by simp
  qed
  then show "dfs_ok ids (g'\<lparr>df_anc := fmupd x a (df_anc g'), df_state := fmupd x Visited (df_state g')\<rparr>)"
    using assms(1,4,5) unfolding dfs_ok_def by auto
  show "grows g (g'\<lparr>df_anc := fmupd x a (df_anc g'), df_state := fmupd x Visited (df_state g')\<rparr>)"
    using assms(2,3) unfolding grows_def by (auto split: if_splits)
qed

lemma visiting_ok:
  assumes "dfs_ok ids g" and "fmlookup (df_state g) name = None"
  shows "dfs_ok ids (g\<lparr>df_state := fmupd name Visiting (df_state g)\<rparr>)"
  unfolding dfs_ok_def
proof (intro allI impI)
  let ?g = "g\<lparr>df_state := fmupd name Visiting (df_state g)\<rparr>"
  fix x assume "fmlookup (df_state ?g) x = Some Visited"
  then have x: "fmlookup (df_state g) x = Some Visited" by (simp split: if_splits)
  have "fmlookup (df_state ?g) d = Some Visited" if "d \<in> set (after_of ids x)" for d
    using dfs_okD(1) [OF assms(1) x that] assms(2) by auto
  then show "(\<forall>d\<in>set (after_of ids x). fmlookup (df_state ?g) d = Some Visited) \<and>
      fset (fm_get {||} (df_anc ?g) x) = (edges ids)\<^sup>+ `` {x} \<and> (x, x) \<notin> (edges ids)\<^sup>+"
    using dfs_okD(2,3) [OF assms(1) x] by simp
qed

lemma visit_ok:
  "dfs_ok ids g \<Longrightarrow> visit fuel ids name g = Inr g' \<Longrightarrow> dfs_ok ids g' \<and> grows g g' \<and> fmlookup (df_state g') name = Some Visited"
  "dfs_ok ids g \<Longrightarrow> visit_deps fuel ids ds a g = Inr (a', g') \<Longrightarrow> dfs_ok ids g' \<and> grows g g' \<and>
     (\<forall>d\<in>set ds. fmlookup (df_state g') d = Some Visited) \<and> fset a' = fset a \<union> (\<Union>d\<in>set ds. insert d ((edges ids)\<^sup>+ `` {d}))"
proof (induction fuel ids name g and fuel ids ds a g arbitrary: g' and a' g' rule: visit_visit_deps.induct, goal_cases)
  case (2 fuel ids name g g')
  show ?case
  proof (cases "fmlookup (df_state g) name")
    case None
    let ?g = "g\<lparr>df_state := fmupd name Visiting (df_state g)\<rparr>"
    obtain a g1 where v: "visit_deps fuel ids (after_of ids name) {||} ?g = Inr (a, g1)"
      and g': "g' = g1\<lparr>df_anc := fmupd name a (df_anc g1), df_state := fmupd name Visited (df_state g1)\<rparr>"
      using 2(3) None by (auto split: sum.splits)
    note IH = 2(1) [OF None visiting_ok [OF 2(2) None] v]
    have anc: "fset a = (edges ids)\<^sup>+ `` {name}"
      using IH unfolding edges_trancl_step [of ids name] by simp
    show ?thesis using finish_ok [OF _ _ None _ anc] IH g' by simp
  next
    case (Some m)
    then show ?thesis using 2(2,3) by (cases m) (auto simp: grows_refl)
  qed
next
  case (4 fuel ids d ds a g a' g')
  obtain g1 where v: "visit fuel ids d g = Inr g1"
    and r: "visit_deps fuel ids ds (finsert d a |\<union>| fm_get {||} (df_anc g1) d) g1 = Inr (a', g')"
    using 4(4) by (auto split: sum.splits)
  note one = 4(1) [OF 4(3) v]
  note rest = 4(2) [OF v _ r]
  show ?case using one rest dfs_okD(2) [of ids g1 d] grows_trans [of g g1 g'] by (auto simp: grows_def)
qed (simp_all add: grows_refl)

subsection \<open>A visit that fails\<close>

text \<open>What is being visited leads to the node the search is at.\<close>

definition leads_to :: "(string, node) fmap \<Rightarrow> dfs \<Rightarrow> string \<Rightarrow> bool" where
  "leads_to ids g name \<longleftrightarrow> (\<forall>x. fmlookup (df_state g) x = Some Visiting \<longrightarrow> (x, name) \<in> (edges ids)\<^sup>+)"

lemma leads_to_grows: "leads_to ids g name \<Longrightarrow> grows g g' \<Longrightarrow> leads_to ids g' name"
  by (simp add: leads_to_def grows_def)

lemma leads_to_next:
  assumes "leads_to ids g name" and "d \<in> set (after_of ids name)"
  shows "leads_to ids (g\<lparr>df_state := fmupd name Visiting (df_state g)\<rparr>) d"
proof -
  have "(name, d) \<in> edges ids" using assms(2) by (simp add: edges_def)
  then show ?thesis using assms(1) by (auto simp: leads_to_def intro: trancl_into_trancl)
qed

lemma visit_error:
  "dfs_ok ids g \<Longrightarrow> leads_to ids g name \<Longrightarrow> visit fuel ids name g = Inl e \<Longrightarrow>
     e = OutOfFuel \<or> (\<exists>x. e = CycleAt x \<and> (x, x) \<in> (edges ids)\<^sup>+)"
  "dfs_ok ids g \<Longrightarrow> (\<And>d. d \<in> set ds \<Longrightarrow> leads_to ids g d) \<Longrightarrow> visit_deps fuel ids ds a g = Inl e \<Longrightarrow>
     e = OutOfFuel \<or> (\<exists>x. e = CycleAt x \<and> (x, x) \<in> (edges ids)\<^sup>+)"
proof (induction fuel ids name g and fuel ids ds a g rule: visit_visit_deps.induct, goal_cases)
  case (2 fuel ids name g)
  show ?case
  proof (cases "fmlookup (df_state g) name")
    case None
    then have "visit_deps fuel ids (after_of ids name) {||} (g\<lparr>df_state := fmupd name Visiting (df_state g)\<rparr>) = Inl e"
      using 2(4) by (auto split: sum.splits)
    from 2(1) [OF None visiting_ok [OF 2(2) None] leads_to_next [OF 2(3)] this] show ?thesis by simp
  next
    case (Some m)
    then show ?thesis using 2(3,4) by (cases m) (auto simp: leads_to_def)
  qed
next
  case (4 fuel ids d ds a g)
  show ?case
  proof (cases "visit fuel ids d g")
    case (Inl e')
    then show ?thesis using 4(1) [OF 4(3) 4(4)] 4(5) by simp
  next
    case (Inr g1)
    have on: "dfs_ok ids g1" "grows g g1" using visit_ok(1) [OF 4(3) Inr] by simp_all
    have "visit_deps fuel ids ds (finsert d a |\<union>| fm_get {||} (df_anc g1) d) g1 = Inl e" using 4(5) Inr by simp
    from 4(2) [OF Inr on(1) _ this] show ?thesis using leads_to_grows [OF 4(4) on(2)] by simp
  qed
qed simp_all

subsection \<open>The fuel is enough\<close>

definition to_visit :: "(string, node) fmap \<Rightarrow> dfs \<Rightarrow> string set" where
  "to_visit ids g = fmdom' ids - fmdom' (df_state g)"

lemma to_visit_grows: "grows g g' \<Longrightarrow> card (to_visit ids g') \<le> card (to_visit ids g)"
  unfolding to_visit_def by (rule card_mono) (use grows_dom in auto)

lemma to_visit_next:
  assumes "fmlookup (df_state g) name = None" and "name \<in> fmdom' ids"
  shows "card (to_visit ids (g\<lparr>df_state := fmupd name Visiting (df_state g)\<rparr>)) < card (to_visit ids g)"
  unfolding to_visit_def
proof (rule psubset_card_mono)
  have "name \<notin> fmdom' (df_state g)" using assms(1) by (simp add: fmlookup_dom'_iff)
  then show "fmdom' ids - fmdom' (df_state (g\<lparr>df_state := fmupd name Visiting (df_state g)\<rparr>)) \<subset> fmdom' ids - fmdom' (df_state g)"
    using assms(2) by auto
qed simp

definition closed_deps :: "(string, node) fmap \<Rightarrow> bool" where
  "closed_deps ids \<longleftrightarrow> (\<forall>x. set (after_of ids x) \<subseteq> fmdom' ids)"

lemma visit_fuel:
  "closed_deps ids \<Longrightarrow> dfs_ok ids g \<Longrightarrow> name \<in> fmdom' ids \<Longrightarrow> card (to_visit ids g) < fuel \<Longrightarrow> visit fuel ids name g \<noteq> Inl OutOfFuel"
  "closed_deps ids \<Longrightarrow> dfs_ok ids g \<Longrightarrow> set ds \<subseteq> fmdom' ids \<Longrightarrow> card (to_visit ids g) < fuel \<Longrightarrow>
     visit_deps fuel ids ds a g \<noteq> Inl OutOfFuel"
proof (induction fuel ids name g and fuel ids ds a g rule: visit_visit_deps.induct, goal_cases)
  case (2 fuel ids name g)
  show ?case
  proof (cases "fmlookup (df_state g) name")
    case None
    have "card (to_visit ids (g\<lparr>df_state := fmupd name Visiting (df_state g)\<rparr>)) < fuel" using to_visit_next [OF None 2(4)] 2(5) by simp
    moreover have "set (after_of ids name) \<subseteq> fmdom' ids" using 2(2) by (simp add: closed_deps_def)
    ultimately have "visit_deps fuel ids (after_of ids name) {||} (g\<lparr>df_state := fmupd name Visiting (df_state g)\<rparr>) \<noteq> Inl OutOfFuel"
      using 2(1) [OF None 2(2) visiting_ok [OF 2(3) None]] by blast
    then show ?thesis using None by (auto split: sum.splits)
  next
    case (Some m)
    then show ?thesis by (cases m) simp_all
  qed
next
  case (4 fuel ids d ds a g)
  have d: "d \<in> fmdom' ids" "set ds \<subseteq> fmdom' ids" using 4(5) by simp_all
  show ?case
  proof (cases "visit fuel ids d g")
    case (Inl e)
    then show ?thesis using 4(1) [OF 4(3,4) d(1) 4(6)] by simp
  next
    case (Inr g1)
    have on: "dfs_ok ids g1" "grows g g1" using visit_ok(1) [OF 4(4) Inr] by simp_all
    then have "card (to_visit ids g1) < fuel" using to_visit_grows 4(6) by (meson le_less_trans)
    from 4(2) [OF Inr 4(3) on(1) d(2) this] show ?thesis using Inr by simp
  qed
qed simp_all

subsection \<open>The whole check\<close>

lemma visit_all_ok:
  "dfs_ok ids g \<Longrightarrow> visit_all fuel ids ns g = Inr g' \<Longrightarrow>
     dfs_ok ids g' \<and> grows g g' \<and> (\<forall>n\<in>set ns. fmlookup (df_state g') (n_id n) = Some Visited)"
proof (induction ns arbitrary: g)
  case (Cons n ns)
  then obtain g1 where v: "visit fuel ids (n_id n) g = Inr g1" "visit_all fuel ids ns g1 = Inr g'" by (auto split: sum.splits)
  have on: "dfs_ok ids g1" "grows g g1" "fmlookup (df_state g1) (n_id n) = Some Visited"
    using visit_ok(1) [OF Cons.prems(1) v(1)] by simp_all
  then show ?case using Cons.IH [OF on(1) v(2)] by (auto simp: grows_def)
qed (simp add: grows_refl)

lemma visit_all_error:
  "dfs_ok ids g \<Longrightarrow> closed_deps ids \<Longrightarrow> (\<And>x. fmlookup (df_state g) x \<noteq> Some Visiting) \<Longrightarrow> n_id ` set ns \<subseteq> fmdom' ids \<Longrightarrow>
     card (fmdom' ids) < fuel \<Longrightarrow> visit_all fuel ids ns g = Inl e \<Longrightarrow> \<exists>x. e = CycleAt x \<and> (x, x) \<in> (edges ids)\<^sup>+"
proof (induction ns arbitrary: g)
  case (Cons n ns)
  have lead: "leads_to ids g (n_id n)" using Cons.prems(3) by (simp add: leads_to_def)
  have "card (to_visit ids g) \<le> card (fmdom' ids)" unfolding to_visit_def by (rule card_mono) auto
  then have fuel: "visit fuel ids (n_id n) g \<noteq> Inl OutOfFuel"
    using visit_fuel(1) [OF Cons.prems(2,1)] Cons.prems(4,5) by simp
  show ?case
  proof (cases "visit fuel ids (n_id n) g")
    case (Inl e')
    then show ?thesis using visit_error(1) [OF Cons.prems(1) lead Inl] fuel Cons.prems(6) by simp
  next
    case (Inr g1)
    have on: "dfs_ok ids g1" "grows g g1" using visit_ok(1) [OF Cons.prems(1) Inr] by simp_all
    then show ?thesis using Cons.IH [OF on(1) Cons.prems(2)] Cons.prems(3-6) Inr by (simp add: grows_def)
  qed
qed simp

lemma find_append: "find p (xs @ ys) = (case find p xs of None \<Rightarrow> find p ys | Some y \<Rightarrow> Some y)"
  by (induction xs) auto

lemma ids_of_fold: "fmlookup (fold (\<lambda>n. fmupd (n_id n) n) nodes m) x =
    (case find (\<lambda>n. n_id n = x) (rev nodes) of None \<Rightarrow> fmlookup m x | Some n \<Rightarrow> Some n)"
  by (induction nodes arbitrary: m) (auto simp: find_append split: option.splits)

lemma ids_of_lookup: "fmlookup (ids_of nodes) x = find (\<lambda>n. n_id n = x) (rev nodes)"
  by (simp add: ids_of_def ids_of_fold split: option.splits)

lemma ids_dom: "fmlookup (ids_of nodes) x = None \<longleftrightarrow> x \<notin> n_id ` set nodes"
  by (auto simp: ids_of_lookup find_None_iff)

lemma ids_dom': "fmdom' (ids_of nodes) = n_id ` set nodes"
proof (rule set_eqI)
  fix x
  show "x \<in> fmdom' (ids_of nodes) \<longleftrightarrow> x \<in> n_id ` set nodes" using ids_dom [of nodes x] by (auto simp only: fmlookup_dom'_iff not_None_eq [symmetric])
qed

lemma ids_of_Some: "fmlookup (ids_of nodes) x = Some n \<Longrightarrow> n \<in> set nodes \<and> n_id n = x"
  unfolding ids_of_lookup by (drule find_Some_iff') simp

lemma find_distinct: "distinct (map f xs) \<Longrightarrow> x \<in> set xs \<Longrightarrow> find (\<lambda>y. f y = f x) xs = Some x"
  by (induction xs) auto

lemma ids_of_node: "distinct (map n_id nodes) \<Longrightarrow> n \<in> set nodes \<Longrightarrow> fmlookup (ids_of nodes) (n_id n) = Some n"
  using find_distinct [of n_id "rev nodes" n] by (simp add: ids_of_lookup rev_map [symmetric])

definition after_rel :: "spec \<Rightarrow> (string \<times> string) set" where
  "after_rel s = {(n_id n, d) | n d. n \<in> set (pl_nodes s) \<and> d \<in> set (n_after n)}"

lemma after_rel_edges:
  assumes "distinct (map n_id (pl_nodes s))"
  shows "edges (ids_of (pl_nodes s)) = after_rel s"
proof (rule set_eqI, rule prod.induct)
  fix x d
  show "(x, d) \<in> edges (ids_of (pl_nodes s)) \<longleftrightarrow> (x, d) \<in> after_rel s"
  proof (cases "x \<in> n_id ` set (pl_nodes s)")
    case True
    then obtain n where n: "n \<in> set (pl_nodes s)" "x = n_id n" by blast
    have "m = n" if "m \<in> set (pl_nodes s)" "n_id m = n_id n" for m
      using assms n(1) that by (simp add: distinct_map inj_on_def)
    then have "(x, d) \<in> after_rel s \<longleftrightarrow> d \<in> set (n_after n)" using n unfolding after_rel_def by auto
    then show ?thesis using ids_of_node [OF assms n(1)] n(2) by (simp add: edges_def after_of_def)
  next
    case False
    then have "fmlookup (ids_of (pl_nodes s)) x = None" by (simp only: ids_dom not_False_eq_True)
    moreover have "(x, d) \<notin> after_rel s" using False unfolding after_rel_def by blast
    ultimately show ?thesis by (simp add: edges_def after_of_def)
  qed
qed

lemma check_after_iff: "check_after ids name ds = Inr () \<longleftrightarrow> (\<forall>d\<in>set ds. fmlookup ids d \<noteq> None \<and> d \<noteq> name)"
  by (induction ds) auto

lemma check_deps_iff: "check_deps ids ns = Inr () \<longleftrightarrow> (\<forall>n\<in>set ns. \<forall>d\<in>set (n_after n). fmlookup ids d \<noteq> None \<and> d \<noteq> n_id n)"
proof (induction ns)
  case (Cons n ns)
  then show ?case using check_after_iff [of ids "n_id n" "n_after n"] by (cases "check_after ids (n_id n) (n_after n)") auto
qed simp

lemma check_deps_closed:
  assumes "check_deps (ids_of nodes) nodes = Inr ()"
  shows "closed_deps (ids_of nodes)"
  unfolding closed_deps_def
proof (intro allI subsetI)
  fix x d assume "d \<in> set (after_of (ids_of nodes) x)"
  then obtain n where "fmlookup (ids_of nodes) x = Some n" "d \<in> set (n_after n)"
    by (cases "fmlookup (ids_of nodes) x") (simp_all add: after_of_def)
  moreover from this(1) have "n \<in> set nodes" by (drule_tac ids_of_Some) simp
  ultimately show "d \<in> fmdom' (ids_of nodes)" using assms by (auto simp: check_deps_iff fmlookup_dom'_iff)
qed

text \<open>A reference of node \<open>n\<close> that is there when \<open>n\<close> runs.\<close>

definition ref_allowed :: "spec \<Rightarrow> node \<Rightarrow> ref \<Rightarrow> bool" where
  "ref_allowed s n r \<longleftrightarrow>
     rf_root r \<in> {''trigger'', ''run''} \<or>
     rf_root r \<in> {''item'', ''index''} \<and> n_each n \<noteq> [] \<or>
     rf_root r \<notin> {''trigger'', ''run'', ''item'', ''index''} \<and> rf_root r \<in> n_id ` set (pl_nodes s) \<and>
       (n_id n, rf_root r) \<in> (after_rel s)\<^sup>+"

lemma ref_error_iff:
  assumes "fset (fm_get {||} (df_anc g) (n_id n)) = (after_rel s)\<^sup>+ `` {n_id n}"
  shows "ref_error (ids_of (pl_nodes s)) g n r = None \<longleftrightarrow> ref_allowed s n r"
proof -
  have "rf_root r |\<in>| fm_get {||} (df_anc g) (n_id n) \<longleftrightarrow> (n_id n, rf_root r) \<in> (after_rel s)\<^sup>+"
    using assms by auto
  moreover have "fmlookup (ids_of (pl_nodes s)) (rf_root r) = None \<longleftrightarrow> rf_root r \<notin> n_id ` set (pl_nodes s)" by (rule ids_dom)
  ultimately show ?thesis unfolding ref_error_def ref_allowed_def by auto
qed

lemma check_refs_iff:
  "check_refs ids g ns = Inr () \<longleftrightarrow> (\<forall>n\<in>set ns. \<exists>rs. node_refs n = Inr rs \<and> (\<forall>r\<in>set rs. ref_error ids g n r = None))"
proof (induction ns)
  case (Cons n ns)
  have none: "List.map_filter f rs = [] \<longleftrightarrow> (\<forall>r\<in>set rs. f r = None)" for f :: "ref \<Rightarrow> graph_error option" and rs
    by (induction rs) (auto simp: List.map_filter_simps split: option.splits)
  show ?case
  proof (cases "node_refs n")
    case (Inr rs)
    then show ?thesis using Cons.IH none [of "ref_error ids g n" rs]
      by (cases "List.map_filter (ref_error ids g n) rs") auto
  qed simp
qed simp

lemma check_refs_fuel: "check_refs ids g ns \<noteq> Inl OutOfFuel"
proof (induction ns)
  case (Cons n ns)
  have "OutOfFuel \<notin> set (List.map_filter (ref_error ids g n) rs)" for rs
    by (auto simp: in_map_filter_iff ref_error_def split: if_splits)
  then show ?case using Cons.IH by (auto split: sum.splits list.splits) (metis list.set_intros(1))
qed simp

lemma check_deps_fuel: "check_deps ids ns \<noteq> Inl OutOfFuel"
proof (induction ns)
  case (Cons n ns)
  have "check_after ids name ds \<noteq> Inl OutOfFuel" for name ds by (induction ds) auto
  then show ?case using Cons.IH by (auto split: sum.splits)
qed simp

text \<open>The search from nothing.\<close>

definition empty_dfs :: dfs where "empty_dfs = \<lparr>df_anc = fmempty, df_state = fmempty\<rparr>"

lemma empty_dfs_ok: "dfs_ok ids empty_dfs" "fmlookup (df_state empty_dfs) x = None"
  by (simp_all add: dfs_ok_def empty_dfs_def)

lemma search_error:
  assumes "check_deps (ids_of nodes) nodes = Inr ()" and "visit_all (length nodes + 1) (ids_of nodes) nodes empty_dfs = Inl e"
  shows "\<exists>x. e = CycleAt x \<and> (x, x) \<in> (edges (ids_of nodes))\<^sup>+"
proof (rule visit_all_error [OF empty_dfs_ok(1) check_deps_closed [OF assms(1)] _ _ _ assms(2)])
  show "card (fmdom' (ids_of nodes)) < length nodes + 1"
    unfolding ids_dom' using card_image_le [of "set nodes" n_id, OF finite_set] card_length [of nodes] by linarith
qed (simp_all add: empty_dfs_ok ids_dom')

text \<open>C20: The check of a pipeline's graph returns: the recursion of its depth-first search is never deeper than the
  nodes are many.\<close>

theorem check_returns: "check_spec s \<noteq> Inl OutOfFuel"
proof (cases "check_deps (ids_of (pl_nodes s)) (pl_nodes s)")
  case (Inl e)
  then show ?thesis using check_deps_fuel [of "ids_of (pl_nodes s)" "pl_nodes s"] by (simp add: check_spec_def Let_def)
next
  case (Inr u)
  show ?thesis
  proof (cases "visit_all (length (pl_nodes s) + 1) (ids_of (pl_nodes s)) (pl_nodes s) empty_dfs")
    case (Inl e)
    have "e \<noteq> OutOfFuel" using search_error [OF _ Inl] Inr by auto
    then show ?thesis using Inr Inl by (simp add: check_spec_def Let_def empty_dfs_def)
  next
    case found: (Inr g)
    then show ?thesis using Inr check_refs_fuel by (simp add: check_spec_def Let_def empty_dfs_def)
  qed
qed

lemma accepted_iff:
  assumes "distinct (map n_id (pl_nodes s))"
  shows "check_spec s = Inr () \<longleftrightarrow>
    (\<forall>n\<in>set (pl_nodes s). set (n_after n) \<subseteq> n_id ` set (pl_nodes s)) \<and> acyclic (after_rel s) \<and>
    (\<forall>n\<in>set (pl_nodes s). \<exists>rs. node_refs n = Inr rs \<and> (\<forall>r\<in>set rs. ref_allowed s n r))"
proof -
  let ?nodes = "pl_nodes s" and ?ids = "ids_of (pl_nodes s)"
  note E = after_rel_edges [OF assms]
  have known: "fmlookup ?ids d \<noteq> None \<longleftrightarrow> d \<in> n_id ` set ?nodes" for d
    unfolding ids_dom by (rule not_not)
  show ?thesis
  proof (cases "check_deps ?ids ?nodes")
    case (Inl e)
    then have "\<exists>n\<in>set ?nodes. \<exists>d\<in>set (n_after n). d \<notin> n_id ` set ?nodes \<or> d = n_id n"
      using check_deps_iff [of ?ids ?nodes] unfolding known by auto
    moreover have "\<not> acyclic (after_rel s)" if "n \<in> set ?nodes" "n_id n \<in> set (n_after n)" for n
    proof -
      have "(n_id n, n_id n) \<in> after_rel s" using that by (auto simp: after_rel_def)
      then show ?thesis by (auto simp: acyclic_def)
    qed
    ultimately show ?thesis using Inl by (auto simp: check_spec_def Let_def)
  next
    case (Inr u)
    then have deps: "check_deps ?ids ?nodes = Inr ()" by simp
    then have sub: "\<forall>n\<in>set ?nodes. set (n_after n) \<subseteq> n_id ` set ?nodes" using check_deps_iff known by blast
    show ?thesis
    proof (cases "visit_all (length ?nodes + 1) ?ids ?nodes empty_dfs")
      case (Inl e)
      then have "\<not> acyclic (after_rel s)" using search_error [OF deps Inl] E by (auto simp: acyclic_def)
      then show ?thesis using deps Inl by (simp add: check_spec_def Let_def empty_dfs_def)
    next
      case found: (Inr g)
      from visit_all_ok [OF empty_dfs_ok(1) found]
      have g: "dfs_ok ?ids g" "\<forall>n\<in>set ?nodes. fmlookup (df_state g) (n_id n) = Some Visited" by simp_all
      have "acyclic (after_rel s)"
        unfolding acyclic_def
      proof (intro allI notI)
        fix x assume x: "(x, x) \<in> (after_rel s)\<^sup>+"
        then have "x \<in> n_id ` set ?nodes" by (cases rule: converse_tranclE) (auto simp: after_rel_def)
        then show False using g x dfs_okD(3) [OF g(1)] E by auto
      qed
      moreover have "check_refs ?ids g ?nodes = Inr () \<longleftrightarrow>
          (\<forall>n\<in>set ?nodes. \<exists>rs. node_refs n = Inr rs \<and> (\<forall>r\<in>set rs. ref_allowed s n r))"
        unfolding check_refs_iff
      proof (rule ball_cong [OF refl])
        fix n assume "n \<in> set ?nodes"
        then have "fset (fm_get {||} (df_anc g) (n_id n)) = (after_rel s)\<^sup>+ `` {n_id n}" using dfs_okD(2) [OF g(1)] g(2) E by simp
        then show "(\<exists>rs. node_refs n = Inr rs \<and> (\<forall>r\<in>set rs. ref_error ?ids g n r = None)) \<longleftrightarrow>
            (\<exists>rs. node_refs n = Inr rs \<and> (\<forall>r\<in>set rs. ref_allowed s n r))" using ref_error_iff by simp
      qed
      ultimately show ?thesis using deps found sub by (simp add: check_spec_def Let_def empty_dfs_def)
    qed
  qed
qed

text \<open>C19: The check accepts exactly the pipelines whose nodes come after nodes there are, with no cycle, and
  whose expressions name the trigger, the run, the element of an each, or a node that runs before theirs through any chain
  of dependencies.\<close>

theorem check_spec_iff:
  assumes "distinct (map n_id (pl_nodes s))"
  shows "check_spec s = Inr () \<longleftrightarrow>
    (\<forall>n\<in>set (pl_nodes s). set (n_after n) \<subseteq> n_id ` set (pl_nodes s)) \<and> acyclic (after_rel s) \<and>
    (\<forall>n\<in>set (pl_nodes s). \<exists>rs. node_refs n = Inr rs \<and> (\<forall>r\<in>set rs. ref_allowed s n r))"
  by (rule accepted_iff [OF assms])

end
