(* ===== verification/PipeParse.thy ===== *)
theory PipeParse
  imports PipeGraph
begin

text \<open>
  From the decoded block of a pipeline note to a pipeline (\<open>Parse\<close>, \<open>buildNode\<close> and \<open>rawNodes\<close> of
  \<open>internal/pipeline/spec.go\<close>): the defaults it fills in, what it refuses, and that what it
  gives is well formed.

  The YAML decoder is a parameter, as are \<open>path.Match\<close> (whether a glob is one),
  \<open>time.ParseDuration\<close> and the registry of node types.
\<close>

subsection \<open>Names\<close>

text \<open>A first character, and at most \<open>n\<close> more.\<close>

definition named :: "(char \<Rightarrow> bool) \<Rightarrow> (char \<Rightarrow> bool) \<Rightarrow> nat \<Rightarrow> string \<Rightarrow> bool" where
  "named first others n s \<longleftrightarrow> (case s of [] \<Rightarrow> False | c # cs \<Rightarrow> first c \<and> list_all others cs \<and> length cs \<le> n)"

definition idRe :: "string \<Rightarrow> bool" where
  "idRe s = named lower_letter (\<lambda>c. lower_letter c \<or> digit c \<or> c = CHR ''_'') 39 s"

definition roleName :: "string \<Rightarrow> bool" where
  "roleName s = named lower_letter (\<lambda>c. lower_letter c \<or> digit c \<or> c = CHR ''-'') 31 s"

definition categoryName :: "string \<Rightarrow> bool" where
  "categoryName s = (let ok = (\<lambda>c. letter c \<or> digit c \<or> c = CHR ''_'' \<or> c = CHR ''-'') in named ok ok 63 s)"

definition reserved_roots :: "string list" where "reserved_roots = [''trigger'', ''run'', ''item'', ''index'']"

definition Triggers :: "string list" where
  "Triggers = [''manual'', ''external'', ''chat'', ''ingest'', ''schedule'', ''in'', ''commit'', ''run'', ''queue'', ''task'']"

definition runStatuses :: "string list" where "runStatuses = [''done'', ''failed'', ''canceled'']"
definition taskEvents :: "string list" where "taskEvents = [''ready'', ''children_done'', ''budget'']"
definition MaxNodes :: nat where "MaxNodes = 64"
definition MaxRetries :: int where "MaxRetries = 10"
definition DefaultTimeout :: duration where "DefaultTimeout = 5 * minute"

definition trim_prefix :: "string \<Rightarrow> string \<Rightarrow> string" where
  "trim_prefix s p = (if has_prefix s p then drop (length p) s else s)"

definition trim_both :: "char \<Rightarrow> string \<Rightarrow> string" where
  "trim_both c s = rev (dropWhile (\<lambda>x. x = c) (rev (dropWhile (\<lambda>x. x = c) s)))"

definition inRelative :: "string \<Rightarrow> string" where
  "inRelative p = (let p = trim_both (CHR ''/'') (trim_space p) in if p = ''IN'' then [] else trim_prefix p ''IN/'')"

subsection \<open>The decoded block\<close>

record raw_trigger =
  rt_on :: string
  rt_kinds :: "string list"
  rt_folder :: string
  rt_every :: string
  rt_match :: string
  rt_batch :: bool
  rt_take :: "bool option"
  rt_skip :: "string list"
  rt_status :: "string list"
  rt_pipelines :: string
  rt_resource :: string
  rt_queued :: int
  rt_waited :: string
  rt_team :: string
  rt_roles :: "string list"
  rt_events :: "string list"
  rt_coordinator :: "bool option"

record raw_node =
  rn_id :: string
  rn_use :: string
  rn_with :: "(string \<times> jvalue) list"
  rn_after :: "string list option"
  rn_when :: string
  rn_unless :: string
  rn_each :: string
  rn_retry :: "(int \<times> string) option"
  rn_timeout :: string
  rn_on_error :: string

text \<open>The node of YAML under \<open>nodes\<close>: nothing, a list (\<open>None\<close> when it does not decode), a map in its
  written order, or anything else.\<close>

datatype raw_nodes = NoRawNodes | NodeList "raw_node list option" | NodeMap "(string \<times> raw_node option) list" | OtherYaml

record raw_spec =
  rs_trigger :: raw_trigger
  rs_nodes :: raw_nodes
  rs_answer :: string
  rs_priority :: string
  rs_category :: string

text \<open>What the parser calls: the node types (\<open>None\<close>: not checked) with why one is missing, durations, globs.\<close>

record parse_env =
  pe_types :: "((string \<Rightarrow> bool) \<times> (string \<Rightarrow> string)) option"
  pe_duration :: "string \<Rightarrow> duration option"
  pe_glob :: "string \<Rightarrow> bool"

datatype trigger_error =
    IngestKinds
  | BadSchedule schedule_error
  | BadMatch string string
  | BadFolder string
  | BadStatus string
  | BadPipelines string
  | BadResource string
  | BadWaited string
  | NoQueueLimit
  | BadTeam string
  | BadRole string
  | BadEvent string
  | BadTrigger string
  | OnlyFor string string
  | BadSkip string

datatype node_error =
    BadId string
  | ReservedId
  | NoUse
  | NoType string string
  | BadOnError
  | BadTimeout string
  | BadAttempts
  | BadBackoff string
  | NotOneRef string

datatype pipe_error =
    BadYaml
  | InTrigger trigger_error
  | BadCategory string
  | BadPriority string
  | BadNodes
  | BadNode string
  | IdSays string string
  | NoNodes
  | TooManyNodes nat
  | InNode string node_error
  | IdTwice string
  | InGraph graph_error
  | BadAnswer string

subsection \<open>Triggers\<close>

text \<open>The values of a list, trimmed, each allowed, each once, in the order they come first.\<close>

fun add_once :: "(string \<Rightarrow> string) \<Rightarrow> (string \<Rightarrow> bool) \<Rightarrow> (string \<Rightarrow> 'e) \<Rightarrow> string list \<Rightarrow> string list \<Rightarrow> 'e + string list" where
  "add_once tidy ok err acc [] = Inr acc"
| "add_once tidy ok err acc (x # xs) =
     (let x = tidy x in
      if \<not> ok x then Inl (err x)
      else add_once tidy ok err (if List.member acc x then acc else acc @ [x]) xs)"

definition trigger_kinds :: "string list \<Rightarrow> string list" where
  "trigger_kinds kinds = filter (\<lambda>k. k \<noteq> []) (map (\<lambda>k. to_lower (trim_prefix (trim_space k) ''.'')) kinds)"

definition resource_named :: "string \<Rightarrow> bool" where
  "resource_named res \<longleftrightarrow> has_prefix res ''plugin:'' \<or> has_prefix res ''llm:'' \<or> has_prefix res ''res:'' \<or> has_prefix res ''cat:''"

definition base_trigger :: "raw_trigger \<Rightarrow> trigger" where
  "base_trigger r =
     \<lparr>tg_on = (if trim_space (rt_on r) = [] then ''manual'' else trim_space (rt_on r)),
      tg_kinds = trigger_kinds (rt_kinds r), tg_folder = trim_both (CHR ''/'') (trim_space (rt_folder r)),
      tg_match = trim_space (rt_match r), tg_batch = rt_batch r, tg_leave = (rt_take r = Some False), tg_skip = [],
      tg_every = trim_space (rt_every r), tg_schedule = None, tg_status = [], tg_pipelines = [], tg_resource = [],
      tg_queued = 0, tg_waited = 0, tg_team = [], tg_roles = [], tg_events = [], tg_coordinator = None\<rparr>"

definition parse_queue :: "parse_env \<Rightarrow> raw_trigger \<Rightarrow> trigger \<Rightarrow> trigger_error + trigger" where
  "parse_queue env r t =
     (let res = trim_space (rt_resource r); w = trim_space (rt_waited r) in
      and_then (require (res = [] \<or> resource_named res) (BadResource res)) (\<lambda>_.
      and_then (if w = [] then Inr 0
                else case pe_duration env w of
                       None \<Rightarrow> Inl (BadWaited w)
                     | Some d \<Rightarrow> if d < 0 then Inl (BadWaited w) else Inr d) (\<lambda>waited.
      and_then (require (rt_queued r \<ge> 0 \<and> \<not> (rt_queued r = 0 \<and> waited = 0)) NoQueueLimit) (\<lambda>_.
      Inr (t\<lparr>tg_resource := res, tg_queued := rt_queued r, tg_waited := waited\<rparr>)))))"

definition parse_run_trigger :: "parse_env \<Rightarrow> raw_trigger \<Rightarrow> trigger \<Rightarrow> trigger_error + trigger" where
  "parse_run_trigger env r t =
     and_then (add_once (\<lambda>x. to_lower (trim_space x)) (List.member runStatuses) BadStatus [] (rt_status r)) (\<lambda>sts.
     let g = trim_prefix (trim_space (rt_pipelines r)) ''/'' in
     and_then (require (pe_glob env g \<and> \<not> contains g ''..'' \<and> \<not> contains g ''{{'') (BadPipelines (rt_pipelines r))) (\<lambda>_.
     Inr (t\<lparr>tg_status := (if sts = [] then [''failed''] else sts), tg_pipelines := g\<rparr>)))"

definition parse_task_trigger :: "raw_trigger \<Rightarrow> trigger \<Rightarrow> trigger_error + trigger" where
  "parse_task_trigger r t =
     (let team = trim_space (rt_team r) in
      and_then (require (\<not> contains team ''..'' \<and> \<not> contains team ''{{'') (BadTeam team)) (\<lambda>_.
      and_then (for_each (\<lambda>ro. let ro = trim_space ro in if roleName ro then Inr ro else Inl (BadRole ro)) (rt_roles r)) (\<lambda>roles.
      and_then (add_once trim_space (List.member taskEvents) BadEvent [] (rt_events r)) (\<lambda>events.
      Inr (t\<lparr>tg_team := team, tg_roles := roles, tg_events := (if events = [] then [''ready''] else events),
             tg_coordinator := rt_coordinator r\<rparr>)))))"

definition match_ok :: "parse_env \<Rightarrow> trigger \<Rightarrow> trigger_error + unit" where
  "match_ok env t = require (tg_match t = [] \<or> pe_glob env (tg_match t)) (BadMatch (tg_on t) (tg_match t))"

text \<open>The settings of the kind of trigger it is.\<close>

definition parse_kind :: "parse_env \<Rightarrow> raw_trigger \<Rightarrow> trigger \<Rightarrow> trigger_error + trigger" where
  "parse_kind env r t =
     (if tg_on t \<in> {''manual'', ''external'', ''chat''} then Inr t
      else if tg_on t = ''ingest'' then (if tg_kinds t = [] then Inl IngestKinds else Inr t)
      else if tg_on t = ''schedule'' then
        (case ParseSchedule (tg_every t) of
           Inl e \<Rightarrow> Inl (BadSchedule e)
         | Inr sc \<Rightarrow> Inr (t\<lparr>tg_schedule := Some sc\<rparr>))
      else if tg_on t = ''in'' then
        and_then (match_ok env t) (\<lambda>_. Inr (t\<lparr>tg_folder := inRelative (tg_folder t)\<rparr>))
      else if tg_on t = ''commit'' then
        and_then (require (\<not> contains (tg_folder t) ''..'') (BadFolder (tg_folder t))) (\<lambda>_.
        and_then (match_ok env t) (\<lambda>_. Inr t))
      else if tg_on t = ''run'' then parse_run_trigger env r t
      else if tg_on t = ''queue'' then parse_queue env r t
      else if tg_on t = ''task'' then parse_task_trigger r t
      else Inl (BadTrigger (tg_on t)))"

definition parse_skip :: "string \<Rightarrow> string \<Rightarrow> trigger_error + string" where
  "parse_skip kind p =
     (let p = trim_space p in
      if kind \<noteq> ''commit'' then Inl (OnlyFor kind ''skip'')
      else if p = [] \<or> contains p ''{{'' \<or> contains p ''..'' then Inl (BadSkip p)
      else Inr p)"

definition parse_trigger :: "parse_env \<Rightarrow> raw_trigger \<Rightarrow> trigger_error + trigger" where
  "parse_trigger env r =
     and_then (parse_kind env r (base_trigger r)) (\<lambda>t.
     and_then (require (tg_on t = ''run'' \<or> rt_status r = [] \<and> trim_space (rt_pipelines r) = []) (OnlyFor (tg_on t) ''status'')) (\<lambda>_.
     and_then (require (tg_on t = ''queue'' \<or> trim_space (rt_resource r) = [] \<and> rt_queued r = 0 \<and> trim_space (rt_waited r) = [])
                (OnlyFor (tg_on t) ''resource'')) (\<lambda>_.
     and_then (require (tg_on t = ''task'' \<or> trim_space (rt_team r) = [] \<and> rt_roles r = [] \<and> rt_events r = [] \<and> rt_coordinator r = None)
                (OnlyFor (tg_on t) ''team'')) (\<lambda>_.
     and_then (require (rt_take r = None \<or> tg_on t = ''in'') (OnlyFor (tg_on t) ''take'')) (\<lambda>_.
     and_then (for_each (parse_skip (tg_on t)) (rt_skip r)) (\<lambda>skips.
     Inr (t\<lparr>tg_skip := skips\<rparr>)))))))"

subsection \<open>Nodes\<close>

definition rawNodes :: "raw_nodes \<Rightarrow> pipe_error + raw_node list" where
  "rawNodes y =
     (case y of
        NoRawNodes \<Rightarrow> Inr []
      | NodeList None \<Rightarrow> Inl BadNodes
      | NodeList (Some ns) \<Rightarrow> Inr ns
      | NodeMap es \<Rightarrow>
          for_each (\<lambda>(k, rn).
            case rn of
              None \<Rightarrow> Inl (BadNode k)
            | Some rn \<Rightarrow> if rn_id rn \<noteq> [] \<and> rn_id rn \<noteq> k then Inl (IdSays k (rn_id rn)) else Inr (rn\<lparr>rn_id := k\<rparr>)) es
      | OtherYaml \<Rightarrow> Inl BadNodes)"

definition parse_timeout :: "parse_env \<Rightarrow> string \<Rightarrow> node_error + duration" where
  "parse_timeout env s =
     (if s = [] then Inr DefaultTimeout
      else case pe_duration env s of
             None \<Rightarrow> Inl (BadTimeout s)
           | Some d \<Rightarrow> if d \<le> 0 then Inl (BadTimeout s) else Inr d)"

definition parse_retry :: "parse_env \<Rightarrow> (int \<times> string) option \<Rightarrow> node_error + retry" where
  "parse_retry env r =
     (case r of
        None \<Rightarrow> Inr \<lparr>re_attempts = 1, re_backoff = 0\<rparr>
      | Some (attempts, backoff) \<Rightarrow>
          if attempts < 1 \<or> attempts > MaxRetries then Inl BadAttempts
          else if backoff = [] then Inr \<lparr>re_attempts = attempts, re_backoff = 10 * second\<rparr>
          else case pe_duration env backoff of
                 None \<Rightarrow> Inl (BadBackoff backoff)
               | Some d \<Rightarrow> if d < 0 then Inl (BadBackoff backoff) else Inr \<lparr>re_attempts = attempts, re_backoff = d\<rparr>)"

definition one_ref :: "string \<times> string \<Rightarrow> node_error + unit" where
  "one_ref f = require (snd f = [] \<or> whole_expr (snd f) \<noteq> None) (NotOneRef (fst f))"

definition known_type :: "parse_env \<Rightarrow> string \<Rightarrow> node_error + unit" where
  "known_type env used =
     (case pe_types env of
        None \<Rightarrow> Inr ()
      | Some (known, why) \<Rightarrow> require (known used) (NoType used (why used)))"

definition buildNode :: "parse_env \<Rightarrow> raw_node \<Rightarrow> nat \<Rightarrow> raw_node list \<Rightarrow> node_error + node" where
  "buildNode env rn i all =
     (let name = trim_space (rn_id rn); used = trim_space (rn_use rn); on_error = trim_space (rn_on_error rn);
          on_error = (if on_error = [] then ''stop'' else on_error);
          after = (case rn_after rn of
                     Some ds \<Rightarrow> ds
                   | None \<Rightarrow> if i > 0 then [trim_space (rn_id (all ! (i - 1)))] else [])
      in
      and_then (require (idRe name) (BadId name)) (\<lambda>_.
      and_then (require (\<not> List.member reserved_roots name) ReservedId) (\<lambda>_.
      and_then (require (used \<noteq> []) NoUse) (\<lambda>_.
      and_then (known_type env used) (\<lambda>_.
      and_then (require (on_error \<in> {''stop'', ''continue''}) BadOnError) (\<lambda>_.
      and_then (parse_timeout env (rn_timeout rn)) (\<lambda>timeout.
      and_then (parse_retry env (rn_retry rn)) (\<lambda>ret.
      and_then (for_each one_ref [(''when'', trim_space (rn_when rn)), (''unless'', trim_space (rn_unless rn)), (''each'', trim_space (rn_each rn))]) (\<lambda>_.
      Inr \<lparr>n_id = name, n_use = used, n_with = rn_with rn, n_after = after, n_when = trim_space (rn_when rn),
           n_unless = trim_space (rn_unless rn), n_each = trim_space (rn_each rn), n_retry = ret, n_timeout = timeout,
           n_on_error = on_error\<rparr>)))))))))"

text \<open>The loop over the nodes: each built, with an id none before it has.\<close>

fun build_nodes :: "parse_env \<Rightarrow> raw_node list \<Rightarrow> nat \<Rightarrow> string list \<Rightarrow> raw_node list \<Rightarrow> pipe_error + node list" where
  "build_nodes env all i seen [] = Inr []"
| "build_nodes env all i seen (rn # rns) =
     (case buildNode env rn i all of
        Inl e \<Rightarrow> Inl (InNode (trim_space (rn_id rn)) e)
      | Inr n \<Rightarrow>
          if List.member seen (n_id n) then Inl (IdTwice (n_id n))
          else and_then (build_nodes env all (i + 1) (n_id n # seen) rns) (\<lambda>ns. Inr (n # ns)))"

subsection \<open>Pipelines\<close>

definition parse_category :: "string \<Rightarrow> pipe_error + string" where
  "parse_category c =
     (let c = trim_space c in
      if c = [] then Inr [] else if categoryName c then Inr c else Inl (BadCategory c))"

definition parse_priority :: "string \<Rightarrow> pipe_error + string" where
  "parse_priority p =
     (let p = trim_space p in
      if p \<in> {[], ''normal''} then Inr []
      else if p = PriorityInteractiveName then Inr p
      else Inl (BadPriority p))"

definition wrap_error :: "('e \<Rightarrow> pipe_error) \<Rightarrow> 'e + 'a \<Rightarrow> pipe_error + 'a" where
  "wrap_error f x = map_sum f id x"

definition parse_raw :: "parse_env \<Rightarrow> raw_spec \<Rightarrow> pipe_error + spec" where
  "parse_raw env r =
     and_then (wrap_error InTrigger (parse_trigger env (rs_trigger r))) (\<lambda>t.
     and_then (parse_category (rs_category r)) (\<lambda>cat.
     and_then (parse_priority (rs_priority r)) (\<lambda>prio.
     and_then (rawNodes (rs_nodes r)) (\<lambda>raws.
     and_then (require (raws \<noteq> []) NoNodes) (\<lambda>_.
     and_then (require (length raws \<le> MaxNodes) (TooManyNodes (length raws))) (\<lambda>_.
     and_then (build_nodes env raws 0 [] raws) (\<lambda>nodes.
     let s = \<lparr>pl_trigger = t, pl_nodes = nodes, pl_answer = trim_space (rs_answer r), pl_priority = prio, pl_category = cat\<rparr> in
     and_then (wrap_error InGraph (check_spec s)) (\<lambda>_.
     and_then (require (pl_answer s = [] \<or> find_node s (pl_answer s) \<noteq> None) (BadAnswer (pl_answer s))) (\<lambda>_.
     Inr s)))))))))"

definition Parse :: "(string \<Rightarrow> raw_spec option) \<Rightarrow> parse_env \<Rightarrow> string \<Rightarrow> pipe_error + spec" where
  "Parse yaml env src = (case yaml src of None \<Rightarrow> Inl BadYaml | Some r \<Rightarrow> parse_raw env r)"

definition Matches :: "trigger \<Rightarrow> string \<Rightarrow> string \<Rightarrow> bool" where
  "Matches t ext folder \<longleftrightarrow>
     tg_on t = ''ingest'' \<and> List.member (tg_kinds t) (to_lower (trim_prefix ext ''.'')) \<and>
     (tg_folder t = [] \<or>
      (let folder = trim_both (CHR ''/'') folder in folder = tg_folder t \<or> has_prefix folder (tg_folder t @ ''/'')))"

subsection \<open>What is parsed is well formed\<close>

definition node_ok :: "node \<Rightarrow> bool" where
  "node_ok n \<longleftrightarrow>
     idRe (n_id n) \<and> n_id n \<notin> set reserved_roots \<and> n_use n \<noteq> [] \<and> n_on_error n \<in> {''stop'', ''continue''} \<and> 0 < n_timeout n \<and>
     1 \<le> re_attempts (n_retry n) \<and> re_attempts (n_retry n) \<le> MaxRetries \<and> 0 \<le> re_backoff (n_retry n)"

definition trigger_ok :: "trigger \<Rightarrow> bool" where
  "trigger_ok t \<longleftrightarrow>
     tg_on t \<in> set Triggers \<and> set (tg_status t) \<subseteq> set runStatuses \<and> set (tg_events t) \<subseteq> set taskEvents \<and> list_all roleName (tg_roles t) \<and>
     (tg_on t = ''ingest'' \<longrightarrow> tg_kinds t \<noteq> []) \<and>
     (tg_on t = ''schedule'' \<longrightarrow> (\<exists>sc. tg_schedule t = Some sc \<and> schedule_ok sc)) \<and>
     (tg_on t = ''run'' \<longrightarrow> tg_status t \<noteq> []) \<and> (tg_on t = ''task'' \<longrightarrow> tg_events t \<noteq> []) \<and>
     (tg_on t = ''queue'' \<longrightarrow> 0 < tg_queued t \<or> 0 < tg_waited t) \<and> (tg_skip t \<noteq> [] \<longrightarrow> tg_on t = ''commit'')"

definition spec_ok :: "spec \<Rightarrow> bool" where
  "spec_ok s \<longleftrightarrow>
     trigger_ok (pl_trigger s) \<and> pl_nodes s \<noteq> [] \<and> length (pl_nodes s) \<le> MaxNodes \<and> list_all node_ok (pl_nodes s) \<and>
     distinct (map n_id (pl_nodes s)) \<and> check_spec s = Inr () \<and>
     (pl_answer s = [] \<or> pl_answer s \<in> n_id ` set (pl_nodes s)) \<and> pl_priority s \<in> {[], PriorityInteractiveName} \<and>
     (pl_category s = [] \<or> categoryName (pl_category s))"

lemma add_once_ok: "add_once tidy ok err acc xs = Inr ys \<Longrightarrow> list_all ok acc \<Longrightarrow> list_all ok ys"
  by (induction tidy ok err acc xs rule: add_once.induct) (auto simp: Let_def split: if_splits)

lemma timeout_ok: "parse_timeout env s = Inr d \<Longrightarrow> 0 < d"
  by (auto simp: parse_timeout_def DefaultTimeout_def split: if_splits option.splits)

lemma retry_ok: "parse_retry env r = Inr x \<Longrightarrow> 1 \<le> re_attempts x \<and> re_attempts x \<le> MaxRetries \<and> 0 \<le> re_backoff x"
  by (auto simp: parse_retry_def MaxRetries_def split: option.splits if_splits)

lemma buildNode_ok: "buildNode env rn i all = Inr n \<Longrightarrow> node_ok n \<and> n_id n = trim_space (rn_id rn)"
  unfolding buildNode_def Let_def and_then_Inr require_Inr
  by (elim exE conjE) (auto simp: node_ok_def dest: timeout_ok retry_ok)

lemma build_nodes_ok:
  "build_nodes env all i seen rns = Inr ns \<Longrightarrow>
     list_all node_ok ns \<and> distinct (map n_id ns) \<and> set (map n_id ns) \<inter> set seen = {} \<and> length ns = length rns"
proof (induction env all i seen rns arbitrary: ns rule: build_nodes.induct)
  case (2 env all i seen rn rns)
  then obtain n ns' where n: "buildNode env rn i all = Inr n" "n_id n \<notin> set seen"
    "build_nodes env all (i + 1) (n_id n # seen) rns = Inr ns'" "ns = n # ns'"
    by (auto simp: and_then_Inr split: sum.splits if_splits)
  then show ?case using "2.IH" [OF n(1) _ n(3)] buildNode_ok [OF n(1)] by auto
qed simp

lemma base_trigger_fields:
  "tg_status (base_trigger r) = []" "tg_events (base_trigger r) = []" "tg_roles (base_trigger r) = []" "tg_skip (base_trigger r) = []"
  by (simp_all add: base_trigger_def)

lemma waited_ok:
  "(if w = [] then Inr 0 else case pe_duration env w of None \<Rightarrow> Inl (BadWaited w) | Some d \<Rightarrow> if d < 0 then Inl (BadWaited w) else Inr d) = Inr x \<Longrightarrow>
     0 \<le> x"
  by (auto split: if_splits option.splits)

lemma parse_queue_ok:
  assumes "parse_queue env r t = Inr t'"
  shows "\<exists>res waited. t' = t\<lparr>tg_resource := res, tg_queued := rt_queued r, tg_waited := waited\<rparr> \<and> (0 < rt_queued r \<or> 0 < waited)"
proof -
  from assms obtain waited where
    w: "(if trim_space (rt_waited r) = [] then Inr 0
         else case pe_duration env (trim_space (rt_waited r)) of
                None \<Rightarrow> Inl (BadWaited (trim_space (rt_waited r)))
              | Some d \<Rightarrow> if d < 0 then Inl (BadWaited (trim_space (rt_waited r))) else Inr d) = Inr waited"
    and q: "rt_queued r \<ge> 0 \<and> \<not> (rt_queued r = 0 \<and> waited = 0)"
      "t\<lparr>tg_resource := trim_space (rt_resource r), tg_queued := rt_queued r, tg_waited := waited\<rparr> = t'"
    unfolding parse_queue_def Let_def and_then_Inr require_Inr sum.inject by (elim exE conjE) blast
  have "0 < rt_queued r \<or> 0 < waited" using waited_ok [OF w] q(1) by linarith
  then show ?thesis using q(2) by blast
qed

lemma parse_kind_ok: "parse_kind env r t = Inr t' \<Longrightarrow> tg_status t = [] \<Longrightarrow> tg_events t = [] \<Longrightarrow> tg_roles t = [] \<Longrightarrow> tg_skip t = [] \<Longrightarrow>
    trigger_ok t' \<and> tg_skip t' = []"
proof -
  assume p: "parse_kind env r t = Inr t'" "tg_status t = []" "tg_events t = []" "tg_roles t = []" "tg_skip t = []"
  consider "tg_on t \<in> {''manual'', ''external'', ''chat''}" | "tg_on t = ''ingest''" | "tg_on t = ''schedule''" | "tg_on t = ''in''"
    | "tg_on t = ''commit''" | "tg_on t = ''run''" | "tg_on t = ''queue''" | "tg_on t = ''task''"
  proof -
    have "tg_on t \<in> {''manual'', ''external'', ''chat''} \<or> tg_on t = ''ingest'' \<or> tg_on t = ''schedule'' \<or> tg_on t = ''in'' \<or>
        tg_on t = ''commit'' \<or> tg_on t = ''run'' \<or> tg_on t = ''queue'' \<or> tg_on t = ''task''"
    proof (rule ccontr)
      assume "\<not> ?thesis"
      then have "parse_kind env r t = Inl (BadTrigger (tg_on t))" unfolding parse_kind_def by (simp only: de_Morgan_disj if_False)
      then show False using p(1) by simp
    qed
    then show thesis using that by (elim disjE)
  qed
  then show ?thesis
  proof cases
    case 1
    then have "t' = t" using p(1) by (auto simp: parse_kind_def)
    then show ?thesis using 1 p(2-5) by (auto simp: trigger_ok_def Triggers_def)
  next
    case on: 2
    then have "t' = t" "tg_kinds t \<noteq> []" using p(1) by (auto simp: parse_kind_def split: if_splits)
    then show ?thesis using on p(2-5) by (auto simp: trigger_ok_def Triggers_def)
  next
    case on: 3
    then obtain sc where "ParseSchedule (tg_every t) = Inr sc" "t' = t\<lparr>tg_schedule := Some sc\<rparr>"
      using p(1) by (auto simp: parse_kind_def split: sum.splits)
    then show ?thesis using on p(2-5) ParseSchedule_ok by (auto simp: trigger_ok_def Triggers_def)
  next
    case on: 4
    then have "t' = t\<lparr>tg_folder := inRelative (tg_folder t)\<rparr>" using p(1) by (auto simp: parse_kind_def and_then_Inr)
    then show ?thesis using on p(2-5) by (auto simp: trigger_ok_def Triggers_def)
  next
    case on: 5
    then have "t' = t" using p(1) by (auto simp: parse_kind_def and_then_Inr)
    then show ?thesis using on p(2-5) by (auto simp: trigger_ok_def Triggers_def)
  next
    case on: 6
    then obtain sts g where s: "add_once (\<lambda>x. to_lower (trim_space x)) (List.member runStatuses) BadStatus [] (rt_status r) = Inr sts"
      "t' = t\<lparr>tg_status := (if sts = [] then [''failed''] else sts), tg_pipelines := g\<rparr>"
      using p(1) by (auto simp: parse_kind_def parse_run_trigger_def and_then_Inr Let_def)
    then show ?thesis using on p(2-5) add_once_ok [OF s(1)] by (auto simp: trigger_ok_def Triggers_def runStatuses_def list_all_iff)
  next
    case on: 7
    then have "parse_queue env r t = Inr t'" using p(1) by (simp add: parse_kind_def)
    from parse_queue_ok [OF this] obtain res waited where
      "t' = t\<lparr>tg_resource := res, tg_queued := rt_queued r, tg_waited := waited\<rparr>" "0 < rt_queued r \<or> 0 < waited" by blast
    then show ?thesis using on p(2-5) by (auto simp: trigger_ok_def Triggers_def)
  next
    case on: 8
    then obtain team roles events where s: "add_once trim_space (List.member taskEvents) BadEvent [] (rt_events r) = Inr events"
      "for_each (\<lambda>ro. let ro = trim_space ro in if roleName ro then Inr ro else Inl (BadRole ro)) (rt_roles r) = Inr roles"
      "t' = t\<lparr>tg_team := team, tg_roles := roles, tg_events := (if events = [] then [''ready''] else events), tg_coordinator := rt_coordinator r\<rparr>"
      using p(1) by (auto simp: parse_kind_def parse_task_trigger_def and_then_Inr Let_def)
    have "roleName ro" if "ro \<in> set roles" for ro
      using for_each_set [OF s(2) that] by (auto simp: Let_def split: if_splits)
    then show ?thesis using on p(2-5) add_once_ok [OF s(1)] s(3) by (auto simp: trigger_ok_def Triggers_def taskEvents_def list_all_iff)
  qed
qed

lemma parse_trigger_ok: "parse_trigger env r = Inr t \<Longrightarrow> trigger_ok t"
proof -
  assume "parse_trigger env r = Inr t"
  then obtain t0 skips where t: "parse_kind env r (base_trigger r) = Inr t0" "for_each (parse_skip (tg_on t0)) (rt_skip r) = Inr skips"
    "t = t0\<lparr>tg_skip := skips\<rparr>"
    by (auto simp: parse_trigger_def and_then_Inr)
  have "tg_on t0 = ''commit''" if sk: "skips \<noteq> []"
  proof -
    from sk have "hd skips \<in> set skips" by simp
    from for_each_set [OF t(2) this] show ?thesis by (auto simp: parse_skip_def Let_def split: if_splits)
  qed
  then show ?thesis using parse_kind_ok [OF t(1) base_trigger_fields] t(3) by (auto simp: trigger_ok_def)
qed

lemma wrap_error_Inr [simp]: "wrap_error f x = Inr a \<longleftrightarrow> x = Inr a"
  by (cases x) (simp_all add: wrap_error_def)

text \<open>C22: A pipeline that \<open>Parse\<close> gives is well formed: its trigger is one of the kinds, with what its kind needs;
  its nodes, at most 64, have distinct names that no root of an expression takes, 1 to 10 tries, a time limit; its graph
  passes the check; its answer names a node; its priority and its category are allowed.\<close>

theorem Parse_well_formed:
  assumes "Parse yaml env src = Inr s"
  shows "spec_ok s"
proof -
  obtain r where r: "parse_raw env r = Inr s" using assms by (auto simp: Parse_def split: option.splits)
  then obtain t cat prio raws nodes where
    t: "parse_trigger env (rs_trigger r) = Inr t" and cat: "parse_category (rs_category r) = Inr cat" and
    prio: "parse_priority (rs_priority r) = Inr prio" and raws: "raws \<noteq> []" "length raws \<le> MaxNodes" and
    nodes: "build_nodes env raws 0 [] raws = Inr nodes" and
    s: "s = \<lparr>pl_trigger = t, pl_nodes = nodes, pl_answer = trim_space (rs_answer r), pl_priority = prio, pl_category = cat\<rparr>" and
    graph: "check_spec s = Inr ()" and answer: "pl_answer s = [] \<or> find_node s (pl_answer s) \<noteq> None"
    unfolding parse_raw_def Let_def and_then_Inr require_Inr wrap_error_Inr by (elim exE conjE) auto
  have "cat = [] \<or> categoryName cat" using cat by (auto simp: parse_category_def Let_def split: if_splits)
  moreover have "prio \<in> {[], PriorityInteractiveName}" using prio by (auto simp: parse_priority_def Let_def split: if_splits)
  moreover have "pl_answer s = [] \<or> pl_answer s \<in> n_id ` set (pl_nodes s)"
  proof (cases "find_node s (pl_answer s)")
    case (Some n)
    then have "n_id n = pl_answer s \<and> n \<in> set (pl_nodes s)" unfolding find_node_def by (rule find_Some_iff')
    then show ?thesis by (metis imageI)
  qed (use answer in simp)
  ultimately show ?thesis
    using build_nodes_ok [OF nodes] raws parse_trigger_ok [OF t] graph s by (auto simp: spec_ok_def)
qed

end
