(* ===== verification/PipeNext.thy ===== *)
theory PipeNext
  imports PipeParse JobReach
begin

text \<open>
  What comes next in a run of a pipeline (\<open>Next\<close>, \<open>decide\<close> and what they call in
  \<open>internal/pipeline/engine.go\<close>): the executor the job runner asks. A node waits for those in its
  \<open>after\<close>; it is canceled when one of them did not end well, skipped when all of them were or its
  condition says so, failed when its condition cannot be evaluated, and queued otherwise.

  The engine's parameters: how a number and a JSON value are written, a text quoted (\<open>%q\<close>), the
  time of a note, how the stored spec of a run decodes, and the resources of the plugins and of the
  agents' executors.
\<close>

record provider =
  pv_name :: string
  pv_resources :: "string list"

record engine =
  eg_quote :: "string \<Rightarrow> string"
  eg_number :: "rat \<Rightarrow> string"
  eg_to_json :: "jvalue \<Rightarrow> string"
  eg_parse_json :: "string \<Rightarrow> jvalue option"
  eg_note_time :: "time \<Rightarrow> string"
  eg_public_url :: string
  eg_spec_of :: "string \<Rightarrow> string + spec"
  eg_base_types :: "string list"
  eg_contract :: "(string \<Rightarrow> string) option"
  eg_ext_resources :: "(string \<Rightarrow> string list) option"
  eg_providers :: "provider list"
  eg_executor :: "run \<Rightarrow> string list"

definition eg_render :: "engine \<Rightarrow> jvalue \<Rightarrow> string" where
  "eg_render eg = render (eg_number eg) (eg_to_json eg)"

text \<open>The text of an expression's error.\<close>

definition error_text :: "engine \<Rightarrow> expr_error \<Rightarrow> string" where
  "error_text eg e =
     (let q = eg_quote eg; ref_text = (\<lambda>t. ''{{ '' @ t @ '' }}: '') in
      case e of
        EmptyExpr \<Rightarrow> ''an empty {{ }}''
      | NotReference src s \<Rightarrow>
          ref_text src @ q s @ '' is not a name or an index (only references like node.field.0 are allowed; use a starlark node for more)''
      | NotName src \<Rightarrow> ref_text src @ ''it must start with a name''
      | UnknownName r \<Rightarrow> ref_text (show_ref r) @ ''nothing is called '' @ q (rf_root r) @ '' here''
      | NotIndex r seg \<Rightarrow> ref_text (show_ref r) @ q (show_ref r) @ '' is a list, '' @ q seg @ '' is not an index''
      | NoField r seg \<Rightarrow> ref_text (show_ref r) @ q (rf_root r) @ '' has no field '' @ q seg
      | SameKey prev k key \<Rightarrow> ''the keys '' @ q prev @ '' and '' @ q k @ '' both give '' @ q key)"

subsection \<open>What the expressions read\<close>

definition ResumeURL :: "engine \<Rightarrow> run \<Rightarrow> string" where
  "ResumeURL eg run =
     trim_right_char (CHR ''/'') (eg_public_url eg) @ ''/api/v1/runs/'' @ r_id run @ ''/resume?key='' @ r_resume run"

definition scope_step :: "engine \<Rightarrow> step \<Rightarrow> scope \<Rightarrow> scope" where
  "scope_step eg st sc =
     (if s_status st = Done \<or> s_status st = Failed then fmupd (s_name st) (decode (eg_parse_json eg) (s_output st)) sc
      else if s_status st = Skipped then fmupd (s_name st) JNull sc
      else sc)"

definition run_scope :: "engine \<Rightarrow> run \<Rightarrow> scope" where
  "run_scope eg run =
     fmupd ''run''
       (JObject [(''id'', JString (r_id run)), (''pipeline'', JString (r_ref run)), (''project'', JString (r_project run)),
          (''trigger'', JString (r_trigger run)), (''resume_url'', JString (ResumeURL eg run)), (''resume_key'', JString (r_resume run)),
          (''created'', JString (eg_note_time eg (r_created run)))])
       (fmupd ''trigger'' (decode (eg_parse_json eg) (r_input run)) fmempty)"

definition scope_of :: "engine \<Rightarrow> run \<Rightarrow> step list \<Rightarrow> scope" where
  "scope_of eg run steps = fold (scope_step eg) steps (run_scope eg run)"

subsection \<open>The resources of a node\<close>

definition provider_of :: "engine \<Rightarrow> string \<Rightarrow> provider option" where
  "provider_of eg name =
     (case eg_providers eg of
        [] \<Rightarrow> None
      | p # ps \<Rightarrow> if name = [] then Some p else find (\<lambda>p. pv_name p = name) (p # ps))"

definition provider_name :: "engine \<Rightarrow> node \<Rightarrow> scope \<Rightarrow> string" where
  "provider_name eg n sc =
     (case map_of (n_with n) ''provider'' of
        None \<Rightarrow> []
      | Some v \<Rightarrow> (case eval (eg_render eg) sc v of Inr (JString s) \<Rightarrow> s | _ \<Rightarrow> []))"

definition nodeResources :: "engine \<Rightarrow> node \<Rightarrow> scope \<Rightarrow> string list" where
  "nodeResources eg n sc =
     (if has_prefix (n_use n) ''llm.'' then
        (case provider_of eg (trim_space (provider_name eg n sc)) of
           None \<Rightarrow> []
         | Some p \<Rightarrow> (''llm:'' @ pv_name p) # map (\<lambda>r. ''res:'' @ r) (pv_resources p))
      else if List.member (eg_base_types eg) (n_use n) then []
      else case eg_ext_resources eg of None \<Rightarrow> [] | Some f \<Rightarrow> f (n_use n))"

definition agentNode :: "engine \<Rightarrow> node \<Rightarrow> bool" where
  "agentNode eg n \<longleftrightarrow>
     \<not> List.member (eg_base_types eg) (n_use n) \<and>
     (case eg_contract eg of None \<Rightarrow> False | Some f \<Rightarrow> f (n_use n) = ''agent-run/1'')"

definition resources :: "engine \<Rightarrow> run \<Rightarrow> node \<Rightarrow> scope \<Rightarrow> string list" where
  "resources eg run n sc =
     (let out = (if r_category run \<noteq> [] then [''cat:'' @ r_category run] else []);
          out = (if r_team run \<noteq> [] \<and> (agentNode eg n \<or> n_use n = ''task.run'')
                 then out @ [''team:'' @ trim_suffix (r_team run) ''.md'', ''agents''] else out)
      in out @ (if n_use n = ''task.run'' \<or> n_use n = ''task.pr'' then eg_executor eg run else nodeResources eg n sc))"

subsection \<open>One node\<close>

definition skips :: "engine \<Rightarrow> node \<Rightarrow> scope \<Rightarrow> expr_error + bool" where
  "skips eg n sc =
     and_then (if n_when n = [] then Inr False
               else and_then (eval (eg_render eg) sc (JString (n_when n))) (\<lambda>v. Inr (\<not> truthy v))) (\<lambda>skip.
     if skip then Inr True
     else if n_unless n = [] then Inr False
     else and_then (eval (eg_render eg) sc (JString (n_unless n))) (\<lambda>v. Inr (truthy v)))"

definition continues :: "spec \<Rightarrow> string \<Rightarrow> bool" where
  "continues s name = (case find_node s name of None \<Rightarrow> False | Some n \<Rightarrow> n_on_error n = ''continue'')"

text \<open>What the nodes it waits for say: \<open>byName[d].Status\<close>, the empty status for a name there is no step of.\<close>

record deps_seen =
  ds_ready :: bool
  ds_blocked :: string
  ds_skipped :: bool

definition status_of :: "(string, status) fmap \<Rightarrow> string \<Rightarrow> status" where
  "status_of by_name d = fm_get NoStatus by_name d"

definition see_dep :: "spec \<Rightarrow> (string, status) fmap \<Rightarrow> string \<Rightarrow> deps_seen \<Rightarrow> deps_seen" where
  "see_dep s by_name d ds =
     (case status_of by_name d of
        Done \<Rightarrow> ds\<lparr>ds_skipped := False\<rparr>
      | Skipped \<Rightarrow> ds
      | Failed \<Rightarrow> (if continues s d then ds\<lparr>ds_skipped := False\<rparr> else ds\<lparr>ds_skipped := False, ds_blocked := d\<rparr>)
      | Canceled \<Rightarrow> ds\<lparr>ds_blocked := d\<rparr>
      | _ \<Rightarrow> ds\<lparr>ds_ready := False\<rparr>)"

definition see_deps :: "spec \<Rightarrow> (string, status) fmap \<Rightarrow> string list \<Rightarrow> deps_seen" where
  "see_deps s by_name after = fold (see_dep s by_name) after \<lparr>ds_ready = True, ds_blocked = [], ds_skipped = (after \<noteq> [])\<rparr>"

definition decide_node :: "engine \<Rightarrow> run \<Rightarrow> spec \<Rightarrow> string \<Rightarrow> (string, status) fmap \<Rightarrow> scope \<Rightarrow> time \<Rightarrow> step_change option" where
  "decide_node eg run s name by_name sc now =
     (case find_node s name of
        None \<Rightarrow> Some ((no_change name Canceled)\<lparr>sc_error := ''not in the pipeline'', sc_finished := now\<rparr>)
      | Some n \<Rightarrow>
          let ds = see_deps s by_name (n_after n) in
          if ds_blocked ds \<noteq> []
          then Some ((no_change name Canceled)\<lparr>sc_error := ds_blocked ds @ '' did not end well'', sc_finished := now\<rparr>)
          else if \<not> ds_ready ds then None
          else if ds_skipped ds then Some ((no_change name Skipped)\<lparr>sc_finished := now\<rparr>)
          else case skips eg n sc of
                 Inl e \<Rightarrow> Some ((no_change name Failed)\<lparr>sc_error := error_text eg e, sc_finished := now\<rparr>)
               | Inr True \<Rightarrow> Some ((no_change name Skipped)\<lparr>sc_finished := now\<rparr>)
               | Inr False \<Rightarrow>
                   let rs = resources eg run n sc in
                   Some ((no_change name Queued)\<lparr>sc_resources := (if rs = [] then None else Some rs)\<rparr>))"

subsection \<open>The passes\<close>

record next_state =
  nx_by_name :: "(string, status) fmap"
  nx_scope :: scope
  nx_changes :: "step_change list"
  nx_released :: bool

text \<open>One step of a pass; the nodes decided are those with a change.\<close>

definition next_step :: "engine \<Rightarrow> run \<Rightarrow> spec \<Rightarrow> time \<Rightarrow> step \<Rightarrow> next_state \<Rightarrow> next_state" where
  "next_step eg run s now st nx =
     (if s_status st \<noteq> Pending \<or> list_ex (\<lambda>c. sc_name c = s_name st) (nx_changes nx) then nx
      else
        case decide_node eg run s (s_name st) (nx_by_name nx) (nx_scope nx) now of
          None \<Rightarrow> nx
        | Some c \<Rightarrow>
            \<lparr>nx_by_name = fmupd (s_name st) (sc_status c) (nx_by_name nx),
             nx_scope = (if sc_status c = Skipped \<or> sc_status c = Failed then fmupd (s_name st) JNull (nx_scope nx) else nx_scope nx),
             nx_changes = nx_changes nx @ [c],
             nx_released = (nx_released nx \<or> sc_status c \<noteq> Queued)\<rparr>)"

definition next_pass :: "engine \<Rightarrow> run \<Rightarrow> spec \<Rightarrow> time \<Rightarrow> step list \<Rightarrow> next_state \<Rightarrow> next_state" where
  "next_pass eg run s now steps nx = fold (next_step eg run s now) steps (nx\<lparr>nx_released := False\<rparr>)"

fun next_passes :: "nat \<Rightarrow> engine \<Rightarrow> run \<Rightarrow> spec \<Rightarrow> time \<Rightarrow> step list \<Rightarrow> next_state \<Rightarrow> next_state" where
  "next_passes 0 eg run s now steps nx = nx"
| "next_passes (Suc k) eg run s now steps nx =
     (let nx' = next_pass eg run s now steps nx in
      if nx_released nx' then next_passes k eg run s now steps nx' else nx')"

definition statuses :: "step list \<Rightarrow> (string, status) fmap" where
  "statuses steps = fold (\<lambda>st. fmupd (s_name st) (s_status st)) steps fmempty"

definition start_state :: "engine \<Rightarrow> run \<Rightarrow> step list \<Rightarrow> next_state" where
  "start_state eg run steps = \<lparr>nx_by_name = statuses steps, nx_scope = scope_of eg run steps, nx_changes = [], nx_released = False\<rparr>"

subsection \<open>The end of the run\<close>

definition firstError :: "step \<Rightarrow> step_change list \<Rightarrow> string" where
  "firstError st changes =
     (case find (\<lambda>c. sc_name c = s_name st \<and> sc_error c \<noteq> []) changes of None \<Rightarrow> s_error st | Some c \<Rightarrow> sc_error c)"

text \<open>\<open>None\<close> while a step has not ended, the first failure otherwise, empty when there is none.\<close>

fun run_failure :: "spec \<Rightarrow> (string, status) fmap \<Rightarrow> step_change list \<Rightarrow> string \<Rightarrow> step list \<Rightarrow> string option" where
  "run_failure s after changes failed [] = Some failed"
| "run_failure s after changes failed (st # sts) =
     (let x = status_of after (s_name st) in
      if \<not> Terminal x then None
      else run_failure s after changes
             (if x = Failed \<and> \<not> continues s (s_name st) \<and> failed = [] then s_name st @ '': '' @ firstError st changes else failed) sts)"

definition engine_next :: "engine \<Rightarrow> time \<Rightarrow> executor" where
  "engine_next eg now run steps =
     (case eg_spec_of eg (r_spec run) of
        Inl err \<Rightarrow> ([], Some \<lparr>rc_status = Failed, rc_error = err, rc_finished = now\<rparr>)
      | Inr s \<Rightarrow>
          let changes = nx_changes (next_passes (length steps + 1) eg run s now steps (start_state eg run steps));
              after = fold (\<lambda>c. fmupd (sc_name c) (sc_status c)) changes (statuses steps)
          in case run_failure s after changes [] steps of
               None \<Rightarrow> (changes, None)
             | Some failed \<Rightarrow>
                 if failed \<noteq> [] then (changes, Some \<lparr>rc_status = Failed, rc_error = failed, rc_finished = now\<rparr>)
                 else (changes, Some \<lparr>rc_status = Done, rc_error = [], rc_finished = now\<rparr>))"

end
