(* ===== verification/PipeRun.thy ===== *)
theory PipeRun
  imports PipeNext
begin

text \<open>
  What a call of \<open>Next\<close> leaves: every pending node has the fate its dependencies give it, whatever
  the order of the steps; the passes go on long enough; a run of a checked pipeline never stops with a
  node pending; and the expressions of a node that runs name only values there are.
\<close>

subsection \<open>What the dependencies say\<close>

definition blocks :: "spec \<Rightarrow> (string, status) fmap \<Rightarrow> string \<Rightarrow> bool" where
  "blocks s by_name d \<longleftrightarrow> status_of by_name d = Canceled \<or> status_of by_name d = Failed \<and> \<not> continues s d"

definition blocked :: "spec \<Rightarrow> (string, status) fmap \<Rightarrow> node \<Rightarrow> bool" where
  "blocked s by_name n \<longleftrightarrow> list_ex (blocks s by_name) (n_after n)"

definition ended_deps :: "(string, status) fmap \<Rightarrow> node \<Rightarrow> bool" where
  "ended_deps by_name n \<longleftrightarrow> list_all (\<lambda>d. Terminal (status_of by_name d)) (n_after n)"

definition all_skipped :: "(string, status) fmap \<Rightarrow> node \<Rightarrow> bool" where
  "all_skipped by_name n \<longleftrightarrow> n_after n \<noteq> [] \<and> list_all (\<lambda>d. status_of by_name d = Skipped) (n_after n)"

lemma see_deps_fold:
  "[] \<notin> set after \<Longrightarrow>
     (ds_ready (fold (see_dep s by_name) after ds) \<longleftrightarrow> ds_ready ds \<and> list_all (\<lambda>d. Terminal (status_of by_name d)) after) \<and>
     (ds_blocked (fold (see_dep s by_name) after ds) \<noteq> [] \<longleftrightarrow> ds_blocked ds \<noteq> [] \<or> list_ex (blocks s by_name) after) \<and>
     (ds_skipped (fold (see_dep s by_name) after ds) \<longleftrightarrow> ds_skipped ds \<and> list_all (\<lambda>d. status_of by_name d \<notin> {Done, Failed}) after)"
  by (induction after arbitrary: ds) (auto simp: see_dep_def blocks_def Terminal_def split: status.splits)

lemma see_deps_eqs:
  assumes "[] \<notin> set (n_after n)"
  shows "ds_ready (see_deps s by_name (n_after n)) \<longleftrightarrow> ended_deps by_name n"
    "ds_blocked (see_deps s by_name (n_after n)) \<noteq> [] \<longleftrightarrow> blocked s by_name n"
    "ended_deps by_name n \<Longrightarrow> \<not> blocked s by_name n \<Longrightarrow> ds_skipped (see_deps s by_name (n_after n)) \<longleftrightarrow> all_skipped by_name n"
proof -
  note f = see_deps_fold [OF assms, of s by_name "\<lparr>ds_ready = True, ds_blocked = [], ds_skipped = (n_after n \<noteq> [])\<rparr>"]
  show "ds_ready (see_deps s by_name (n_after n)) \<longleftrightarrow> ended_deps by_name n"
    "ds_blocked (see_deps s by_name (n_after n)) \<noteq> [] \<longleftrightarrow> blocked s by_name n"
    using f by (simp_all add: see_deps_def ended_deps_def blocked_def)
  assume "ended_deps by_name n" "\<not> blocked s by_name n"
  then have "status_of by_name d \<in> {Done, Failed, Skipped}" if "d \<in> set (n_after n)" for d
    using that by (auto simp: ended_deps_def blocked_def blocks_def Terminal_def list_all_iff list_ex_iff)
  then have "list_all (\<lambda>d. status_of by_name d \<notin> {Done, Failed}) (n_after n) \<longleftrightarrow> list_all (\<lambda>d. status_of by_name d = Skipped) (n_after n)"
    unfolding list_all_iff by force
  then show "ds_skipped (see_deps s by_name (n_after n)) \<longleftrightarrow> all_skipped by_name n"
    using f by (simp add: see_deps_def all_skipped_def)
qed

text \<open>The status a pending node must have after the call.\<close>

definition fate :: "spec \<Rightarrow> (string, status) fmap \<Rightarrow> node \<Rightarrow> status \<Rightarrow> bool" where
  "fate s by_name n x \<longleftrightarrow>
     (if blocked s by_name n then x = Canceled
      else if \<not> ended_deps by_name n then x = Pending
      else if all_skipped by_name n then x = Skipped
      else x \<in> {Queued, Skipped, Failed} \<and> (n_when n = [] \<and> n_unless n = [] \<longrightarrow> x = Queued))"

lemma decide_node_fate:
  assumes "find_node s name = Some n" and "[] \<notin> set (n_after n)"
  shows "case decide_node eg run s name by_name sc now of
      None \<Rightarrow> fate s by_name n Pending
    | Some c \<Rightarrow> sc_name c = name \<and> sc_status c \<noteq> Pending \<and> fate s by_name n (sc_status c)"
proof -
  consider "blocked s by_name n" | "\<not> blocked s by_name n" "\<not> ended_deps by_name n" | "\<not> (blocked s by_name n \<or> \<not> ended_deps by_name n)"
    by blast
  then show ?thesis
  proof cases
  case 1
  then have "ds_blocked (see_deps s by_name (n_after n)) \<noteq> []" using see_deps_eqs(2) [OF assms(2)] by blast
  then show ?thesis using 1 by (simp add: decide_node_def assms(1) Let_def fate_def no_change_def)
next
  case 2
  then have "ds_blocked (see_deps s by_name (n_after n)) = []" "\<not> ds_ready (see_deps s by_name (n_after n))"
    using see_deps_eqs(1,2) [OF assms(2)] by blast+
  then show ?thesis using 2 by (simp add: decide_node_def assms(1) Let_def fate_def)
next
  case False: 3
  then have ds: "ds_blocked (see_deps s by_name (n_after n)) = []" "ds_ready (see_deps s by_name (n_after n))"
    "ds_skipped (see_deps s by_name (n_after n)) \<longleftrightarrow> all_skipped by_name n"
    using see_deps_eqs(1,2) [OF assms(2)] see_deps_eqs(3) [OF assms(2)] by blast+
  have plain: "skips eg n sc = Inr False" if "n_when n = []" "n_unless n = []" using that by (simp add: skips_def)
  show ?thesis
  proof (cases "skips eg n sc")
    case (Inl e)
    then show ?thesis using False ds plain by (auto simp: decide_node_def assms(1) Let_def fate_def no_change_def)
  next
    case (Inr b)
    then show ?thesis using False ds plain by (cases b) (auto simp: decide_node_def assms(1) Let_def fate_def no_change_def)
  qed
  qed
qed

subsection \<open>Steps of the nodes of a pipeline\<close>

definition steps_of :: "spec \<Rightarrow> step list \<Rightarrow> bool" where
  "steps_of s steps \<longleftrightarrow>
     distinct (map n_id (pl_nodes s)) \<and> distinct (map s_name steps) \<and> set (map s_name steps) = set (map n_id (pl_nodes s)) \<and>
     [] \<notin> set (map n_id (pl_nodes s)) \<and> check_spec s = Inr ()"

lemma steps_of_deps:
  assumes "steps_of s steps" and "find_node s name = Some n"
  shows "n \<in> set (pl_nodes s)" "n_id n = name" "set (n_after n) \<subseteq> n_id ` set (pl_nodes s)" "[] \<notin> set (n_after n)" "acyclic (after_rel s)"
proof -
  show n: "n \<in> set (pl_nodes s)" "n_id n = name" using assms(2) unfolding find_node_def by (auto dest: find_Some_iff')
  have "distinct (map n_id (pl_nodes s))" "check_spec s = Inr ()" using assms(1) by (simp_all add: steps_of_def)
  then show "set (n_after n) \<subseteq> n_id ` set (pl_nodes s)" "acyclic (after_rel s)" using accepted_iff n(1) by blast+
  then show "[] \<notin> set (n_after n)" using assms(1) by (auto simp: steps_of_def)
qed

lemma steps_of_node:
  assumes "steps_of s steps" and "st \<in> set steps"
  shows "\<exists>n. find_node s (s_name st) = Some n"
proof -
  have "s_name st \<in> set (map n_id (pl_nodes s))" using assms by (auto simp: steps_of_def)
  then show ?thesis unfolding find_node_def by (cases "find (\<lambda>n. n_id n = s_name st) (pl_nodes s)") (auto simp: find_None_iff)
qed

text \<open>What changes only what was pending.\<close>

definition later :: "(string, status) fmap \<Rightarrow> (string, status) fmap \<Rightarrow> bool" where
  "later by_name by' \<longleftrightarrow> (\<forall>d. status_of by_name d \<noteq> Pending \<longrightarrow> status_of by' d = status_of by_name d)"

lemma fate_later:
  assumes "later by_name by'" and "fate s by_name n x" and "x \<noteq> Pending"
  shows "fate s by' n x"
proof -
  have same: "status_of by' d = status_of by_name d" if "Terminal (status_of by_name d)" for d
    using assms(1) that by (auto simp: later_def Terminal_def)
  show ?thesis
  proof (cases "blocked s by_name n")
    case True
    then obtain d where d: "d \<in> set (n_after n)" "blocks s by_name d" by (auto simp: blocked_def list_ex_iff)
    have "Terminal (status_of by_name d)" using d(2) by (auto simp: blocks_def Terminal_def)
    then have "blocks s by' d" using d(2) same by (simp add: blocks_def)
    then have "blocked s by' n" using d(1) by (auto simp: blocked_def list_ex_iff)
    then show ?thesis using assms(2) True by (simp add: fate_def)
  next
    case False
    then have ended: "ended_deps by_name n" using assms(2,3) by (auto simp: fate_def split: if_splits)
    then have eq: "status_of by' d = status_of by_name d" if "d \<in> set (n_after n)" for d
      using same that by (auto simp: ended_deps_def list_all_iff)
    then have "blocked s by' n = blocked s by_name n" "ended_deps by' n = ended_deps by_name n" "all_skipped by' n = all_skipped by_name n"
      by (auto simp: blocked_def blocks_def ended_deps_def all_skipped_def list_all_iff list_ex_iff)
    then show ?thesis using assms(2) unfolding fate_def by (auto split: if_splits)
  qed
qed

text \<open>What turns only pending nodes to queued ones.\<close>

definition calm :: "(string, status) fmap \<Rightarrow> (string, status) fmap \<Rightarrow> bool" where
  "calm by_name by' \<longleftrightarrow> (\<forall>d. status_of by' d = status_of by_name d \<or> status_of by_name d = Pending \<and> status_of by' d = Queued)"

lemma calm_trans: "calm a b \<Longrightarrow> calm b c \<Longrightarrow> calm a c"
  unfolding calm_def by (metis status.distinct)

lemma fate_calm:
  assumes "calm by_name by'" and "fate s by_name n Pending"
  shows "fate s by' n Pending"
proof -
  have eq: "blocks s by' d = blocks s by_name d" "Terminal (status_of by' d) = Terminal (status_of by_name d)" for d
    using assms(1) by (auto simp: calm_def blocks_def Terminal_def) (metis status.distinct)+
  then have "blocked s by' n = blocked s by_name n" "ended_deps by' n = ended_deps by_name n"
    by (simp_all add: blocked_def ended_deps_def list_all_iff list_ex_iff)
  moreover have "\<not> ended_deps by_name n" using assms(2) by (auto simp: fate_def split: if_splits)
  ultimately show ?thesis using assms(2) by (simp add: fate_def)
qed

subsection \<open>The passes\<close>

text \<open>What holds between two steps of the passes: one change for each node decided, pending before, with the fate its
  dependencies give it now.\<close>

definition pass_inv :: "spec \<Rightarrow> step list \<Rightarrow> next_state \<Rightarrow> bool" where
  "pass_inv s steps nx \<longleftrightarrow>
     nx_by_name nx = fold (\<lambda>c. fmupd (sc_name c) (sc_status c)) (nx_changes nx) (statuses steps) \<and>
     distinct (map sc_name (nx_changes nx)) \<and>
     (\<forall>c\<in>set (nx_changes nx). sc_status c \<noteq> Pending \<and> (\<exists>st\<in>set steps. s_name st = sc_name c \<and> s_status st = Pending) \<and>
        (\<forall>n. find_node s (sc_name c) = Some n \<longrightarrow> fate s (nx_by_name nx) n (sc_status c)))"

lemma pass_invD:
  assumes "pass_inv s steps nx"
  shows "nx_by_name nx = fold (\<lambda>c. fmupd (sc_name c) (sc_status c)) (nx_changes nx) (statuses steps)"
    "distinct (map sc_name (nx_changes nx))"
    "c \<in> set (nx_changes nx) \<Longrightarrow> sc_status c \<noteq> Pending"
    "c \<in> set (nx_changes nx) \<Longrightarrow> \<exists>st\<in>set steps. s_name st = sc_name c \<and> s_status st = Pending"
    "c \<in> set (nx_changes nx) \<Longrightarrow> find_node s (sc_name c) = Some n \<Longrightarrow> fate s (nx_by_name nx) n (sc_status c)"
  using assms unfolding pass_inv_def by blast+

lemma pass_inv_I:
  assumes "nx_by_name nx = fold (\<lambda>c. fmupd (sc_name c) (sc_status c)) (nx_changes nx) (statuses steps)"
    "distinct (map sc_name (nx_changes nx))"
    "\<And>c. c \<in> set (nx_changes nx) \<Longrightarrow> sc_status c \<noteq> Pending"
    "\<And>c. c \<in> set (nx_changes nx) \<Longrightarrow> \<exists>st\<in>set steps. s_name st = sc_name c \<and> s_status st = Pending"
    "\<And>c n. c \<in> set (nx_changes nx) \<Longrightarrow> find_node s (sc_name c) = Some n \<Longrightarrow> fate s (nx_by_name nx) n (sc_status c)"
  shows "pass_inv s steps nx"
  unfolding pass_inv_def using assms by blast

lemma find_other: "x \<notin> f ` set xs \<Longrightarrow> find (\<lambda>y. f y = x) xs = None"
  by (induction xs) auto

lemma fold_changes_lookup:
  "distinct (map sc_name cs) \<Longrightarrow> fmlookup (fold (\<lambda>c. fmupd (sc_name c) (sc_status c)) cs m) d =
     (case find (\<lambda>c. sc_name c = d) cs of None \<Rightarrow> fmlookup m d | Some c \<Rightarrow> Some (sc_status c))"
proof (induction cs arbitrary: m)
  case (Cons c cs)
  show ?case
  proof (cases "sc_name c = d")
    case True
    then have "find (\<lambda>c. sc_name c = d) cs = None" using Cons.prems find_other by auto
    then show ?thesis using Cons True by simp
  next
    case False
    then show ?thesis using Cons by (simp split: option.splits)
  qed
qed simp

lemma statuses_lookup:
  "distinct (map s_name steps) \<Longrightarrow> fmlookup (fold (\<lambda>st. fmupd (s_name st) (s_status st)) steps m) d =
     (case find (\<lambda>st. s_name st = d) steps of None \<Rightarrow> fmlookup m d | Some st \<Rightarrow> Some (s_status st))"
proof (induction steps arbitrary: m)
  case (Cons st steps)
  show ?case
  proof (cases "s_name st = d")
    case True
    then have "find (\<lambda>st. s_name st = d) steps = None" using Cons.prems find_other by auto
    then show ?thesis using Cons True by simp
  next
    case False
    then show ?thesis using Cons by (simp split: option.splits)
  qed
qed simp

lemma status_of_step: "distinct (map s_name steps) \<Longrightarrow> st \<in> set steps \<Longrightarrow> status_of (statuses steps) (s_name st) = s_status st"
  using find_distinct [of s_name steps st] by (simp add: status_of_def fm_get_def statuses_def statuses_lookup)

lemma undecided:
  assumes "pass_inv s steps nx" and "distinct (map s_name steps)" and "st \<in> set steps"
  shows "\<not> list_ex (\<lambda>c. sc_name c = s_name st) (nx_changes nx) \<Longrightarrow> status_of (nx_by_name nx) (s_name st) = s_status st"
    "s_status st \<noteq> Pending \<Longrightarrow> status_of (nx_by_name nx) (s_name st) = s_status st"
    "c \<in> set (nx_changes nx) \<Longrightarrow> status_of (nx_by_name nx) (sc_name c) = sc_status c"
proof -
  note d = pass_invD(2) [OF assms(1)]
  show u: "\<not> list_ex (\<lambda>c. sc_name c = s_name st) (nx_changes nx) \<Longrightarrow> status_of (nx_by_name nx) (s_name st) = s_status st"
  proof -
    assume "\<not> list_ex (\<lambda>c. sc_name c = s_name st) (nx_changes nx)"
    then have "find (\<lambda>c. sc_name c = s_name st) (nx_changes nx) = None" by (auto simp: find_None_iff list_ex_iff)
    then have "status_of (nx_by_name nx) (s_name st) = status_of (statuses steps) (s_name st)"
      by (simp add: status_of_def fm_get_def pass_invD(1) [OF assms(1)] fold_changes_lookup [OF d])
    then show ?thesis using status_of_step [OF assms(2,3)] by simp
  qed
  assume "s_status st \<noteq> Pending"
  moreover have "\<not> list_ex (\<lambda>c. sc_name c = s_name st) (nx_changes nx)" if st: "s_status st \<noteq> Pending"
  proof
    assume "list_ex (\<lambda>c. sc_name c = s_name st) (nx_changes nx)"
    then obtain c where c: "c \<in> set (nx_changes nx)" "sc_name c = s_name st" by (auto simp: list_ex_iff)
    then obtain st' where "st' \<in> set steps" "s_name st' = s_name st" "s_status st' = Pending" using pass_invD(4) [OF assms(1)] by metis
    moreover from this have "st' = st" using assms(2,3) by (simp add: distinct_map inj_on_def)
    ultimately show False using st by simp
  qed
  ultimately show "status_of (nx_by_name nx) (s_name st) = s_status st" using u by blast
next
  assume "c \<in> set (nx_changes nx)"
  then show "status_of (nx_by_name nx) (sc_name c) = sc_status c"
    using find_distinct [OF pass_invD(2) [OF assms(1)]]
    by (simp add: status_of_def fm_get_def pass_invD(1) [OF assms(1)] fold_changes_lookup [OF pass_invD(2) [OF assms(1)]])
qed

lemma next_step_undecided:
  assumes "s_status st = Pending" "\<not> list_ex (\<lambda>c. sc_name c = s_name st) (nx_changes nx)"
    and "decide_node eg run s (s_name st) (nx_by_name nx) (nx_scope nx) now = Some c"
  shows "nx_by_name (next_step eg run s now st nx) = fmupd (s_name st) (sc_status c) (nx_by_name nx)"
    "nx_changes (next_step eg run s now st nx) = nx_changes nx @ [c]"
    "nx_released (next_step eg run s now st nx) \<longleftrightarrow> nx_released nx \<or> sc_status c \<noteq> Queued"
  using assms by (simp_all add: next_step_def)

lemma next_step_cases:
  assumes "steps_of s steps" and "st \<in> set steps"
  obtains (same) "next_step eg run s now st nx = nx" "s_status st \<noteq> Pending \<or> list_ex (\<lambda>c. sc_name c = s_name st) (nx_changes nx)"
    | (waits) n where "next_step eg run s now st nx = nx" "find_node s (s_name st) = Some n" "fate s (nx_by_name nx) n Pending"
        "s_status st = Pending" "\<not> list_ex (\<lambda>c. sc_name c = s_name st) (nx_changes nx)"
    | (decided) n c where "find_node s (s_name st) = Some n" "s_status st = Pending" "\<not> list_ex (\<lambda>c. sc_name c = s_name st) (nx_changes nx)"
        "decide_node eg run s (s_name st) (nx_by_name nx) (nx_scope nx) now = Some c" "sc_name c = s_name st" "sc_status c \<noteq> Pending"
        "fate s (nx_by_name nx) n (sc_status c)"
proof (cases "s_status st \<noteq> Pending \<or> list_ex (\<lambda>c. sc_name c = s_name st) (nx_changes nx)")
  case True
  then show ?thesis using same by (simp add: next_step_def)
next
  case False
  obtain n where n: "find_node s (s_name st) = Some n" using steps_of_node [OF assms] by blast
  note d = decide_node_fate [where eg = eg and run = run and by_name = "nx_by_name nx" and sc = "nx_scope nx" and now = now,
      OF n steps_of_deps(4) [OF assms(1) n]]
  show ?thesis
  proof (cases "decide_node eg run s (s_name st) (nx_by_name nx) (nx_scope nx) now")
    case None
    then show ?thesis using d False n waits by (simp add: next_step_def)
  next
    case (Some c)
    then show ?thesis using d False n decided by simp
  qed
qed

lemma next_step_inv:
  assumes "steps_of s steps" and "st \<in> set steps" and "pass_inv s steps nx"
  shows "pass_inv s steps (next_step eg run s now st nx) \<and> later (nx_by_name nx) (nx_by_name (next_step eg run s now st nx))"
  using assms(1,2)
proof (cases rule: next_step_cases [where eg = eg and run = run and now = now and nx = nx])
  case (decided n c)
  note f = next_step_undecided [OF decided(2,3,4)]
  have steps: "distinct (map s_name steps)" using assms(1) by (simp add: steps_of_def)
  have pend: "status_of (nx_by_name nx) (s_name st) = Pending" using undecided(1) [OF assms(3) steps assms(2) decided(3)] decided(2) by simp
  have later: "later (nx_by_name nx) (fmupd (s_name st) (sc_status c) (nx_by_name nx))"
    using pend by (auto simp: later_def status_of_def)
  have "pass_inv s steps (next_step eg run s now st nx)"
  proof (rule pass_inv_I, unfold f(1,2))
    show "fmupd (s_name st) (sc_status c) (nx_by_name nx) =
        fold (\<lambda>c. fmupd (sc_name c) (sc_status c)) (nx_changes nx @ [c]) (statuses steps)"
      using pass_invD(1) [OF assms(3)] decided(5) by simp
    show "distinct (map sc_name (nx_changes nx @ [c]))"
      using pass_invD(2) [OF assms(3)] decided(3,5) by (auto simp: list_ex_iff)
    fix c' assume "c' \<in> set (nx_changes nx @ [c])"
    then consider "c' = c" | "c' \<in> set (nx_changes nx)" by auto
    then have "sc_status c' \<noteq> Pending \<and> (\<exists>st\<in>set steps. s_name st = sc_name c' \<and> s_status st = Pending) \<and>
        (\<forall>n. find_node s (sc_name c') = Some n \<longrightarrow> fate s (fmupd (s_name st) (sc_status c) (nx_by_name nx)) n (sc_status c'))"
    proof cases
      case 1
      then show ?thesis using decided assms(2) fate_later [OF later decided(7,6)] by auto
    next
      case 2
      have "fate s (fmupd (s_name st) (sc_status c) (nx_by_name nx)) m (sc_status c')" if m: "find_node s (sc_name c') = Some m" for m
        by (rule fate_later [OF later pass_invD(5) [OF assms(3) 2 m] pass_invD(3) [OF assms(3) 2]])
      then show ?thesis using pass_invD(3,4) [OF assms(3) 2] by blast
    qed
    then show "sc_status c' \<noteq> Pending" "\<exists>st\<in>set steps. s_name st = sc_name c' \<and> s_status st = Pending"
      "\<And>n. find_node s (sc_name c') = Some n \<Longrightarrow> fate s (fmupd (s_name st) (sc_status c) (nx_by_name nx)) n (sc_status c')"
      by blast+
  qed
  then show ?thesis using later f(1) by simp
qed (use assms(3) in \<open>simp_all add: later_def\<close>)

text \<open>A step of a pass that releases nothing turns at most one pending node to queued.\<close>

lemma next_step_calm:
  assumes "steps_of s steps" and "st \<in> set steps" and "pass_inv s steps nx" and "\<not> nx_released (next_step eg run s now st nx)"
  shows "\<not> nx_released nx" "calm (nx_by_name nx) (nx_by_name (next_step eg run s now st nx))"
    "set (nx_changes nx) \<subseteq> set (nx_changes (next_step eg run s now st nx))"
    "list_ex (\<lambda>c. sc_name c = s_name st) (nx_changes (next_step eg run s now st nx)) \<or> s_status st \<noteq> Pending \<or>
       (\<exists>n. find_node s (s_name st) = Some n \<and> fate s (nx_by_name (next_step eg run s now st nx)) n Pending)"
proof -
  have "\<not> nx_released nx \<and> calm (nx_by_name nx) (nx_by_name (next_step eg run s now st nx)) \<and>
      set (nx_changes nx) \<subseteq> set (nx_changes (next_step eg run s now st nx)) \<and>
      (list_ex (\<lambda>c. sc_name c = s_name st) (nx_changes (next_step eg run s now st nx)) \<or> s_status st \<noteq> Pending \<or>
       (\<exists>n. find_node s (s_name st) = Some n \<and> fate s (nx_by_name (next_step eg run s now st nx)) n Pending))"
    using assms(1,2)
  proof (cases rule: next_step_cases [where eg = eg and run = run and now = now and nx = nx])
    case (decided n c)
    note f = next_step_undecided [OF decided(2,3,4)]
    have "status_of (nx_by_name nx) (s_name st) = Pending"
      using undecided(1) [OF assms(3) _ assms(2) decided(3)] assms(1) decided(2) by (simp add: steps_of_def)
    moreover have "\<not> nx_released nx" "sc_status c = Queued" using assms(4) f(3) by auto
    ultimately show ?thesis unfolding f(1,2) using decided(5) by (auto simp: calm_def status_of_def)
  qed (use assms(4) in \<open>auto simp: calm_def\<close>)
  then show "\<not> nx_released nx" "calm (nx_by_name nx) (nx_by_name (next_step eg run s now st nx))"
    "set (nx_changes nx) \<subseteq> set (nx_changes (next_step eg run s now st nx))"
    "list_ex (\<lambda>c. sc_name c = s_name st) (nx_changes (next_step eg run s now st nx)) \<or> s_status st \<noteq> Pending \<or>
       (\<exists>n. find_node s (s_name st) = Some n \<and> fate s (nx_by_name (next_step eg run s now st nx)) n Pending)" by blast+
qed

text \<open>Decided, not pending, or waiting for a node that has not ended.\<close>

definition has_fate :: "spec \<Rightarrow> next_state \<Rightarrow> step \<Rightarrow> bool" where
  "has_fate s nx st \<longleftrightarrow> list_ex (\<lambda>c. sc_name c = s_name st) (nx_changes nx) \<or> s_status st \<noteq> Pending \<or>
     (\<exists>n. find_node s (s_name st) = Some n \<and> fate s (nx_by_name nx) n Pending)"

lemma has_fate_calm:
  "has_fate s nx st \<Longrightarrow> calm (nx_by_name nx) (nx_by_name nx') \<Longrightarrow> set (nx_changes nx) \<subseteq> set (nx_changes nx') \<Longrightarrow> has_fate s nx' st"
  unfolding has_fate_def by (auto simp: list_ex_iff intro: fate_calm)

lemma pass_spec:
  assumes "steps_of s steps" and "set sts \<subseteq> set steps" and "pass_inv s steps nx"
  shows "pass_inv s steps (fold (next_step eg run s now) sts nx) \<and>
    (\<not> nx_released (fold (next_step eg run s now) sts nx) \<longrightarrow>
       \<not> nx_released nx \<and> calm (nx_by_name nx) (nx_by_name (fold (next_step eg run s now) sts nx)) \<and>
       set (nx_changes nx) \<subseteq> set (nx_changes (fold (next_step eg run s now) sts nx)) \<and>
       (\<forall>st\<in>set sts. has_fate s (fold (next_step eg run s now) sts nx) st))"
  using assms(2,3)
proof (induction sts arbitrary: nx)
  case (Cons st sts)
  let ?nx = "next_step eg run s now st nx"
  have st: "st \<in> set steps" using Cons.prems(1) by simp
  have inv: "pass_inv s steps ?nx" using next_step_inv [OF assms(1) st Cons.prems(2)] by simp
  have sub: "set sts \<subseteq> set steps" using Cons.prems(1) by simp
  note IH = Cons.IH [OF sub inv]
  show ?case
  proof (intro conjI impI, goal_cases)
    case 1
    then show ?case using IH by simp
  next
    case 2
    then have rest: "\<not> nx_released ?nx" using IH by simp
    then show ?case using next_step_calm(1) [OF assms(1) st Cons.prems(2)] by blast
  next
    case 3
    then have rest: "\<not> nx_released ?nx" using IH by simp
    show ?case using calm_trans [OF next_step_calm(2) [OF assms(1) st Cons.prems(2) rest]] IH 3 by simp
  next
    case 4
    then have rest: "\<not> nx_released ?nx" using IH by simp
    show ?case using next_step_calm(3) [OF assms(1) st Cons.prems(2) rest] IH 4 by auto
  next
    case 5
    then have rest: "\<not> nx_released ?nx" using IH by simp
    have "has_fate s ?nx st" using next_step_calm(4) [OF assms(1) st Cons.prems(2) rest] by (simp add: has_fate_def)
    then show ?case using IH 5 has_fate_calm by auto
  qed
qed (simp add: calm_def)

subsection \<open>The passes are enough\<close>

lemma pass_grows:
  "length (nx_changes nx) \<le> length (nx_changes (fold (next_step eg run s now) sts nx)) \<and>
     (nx_released (fold (next_step eg run s now) sts nx) \<longrightarrow>
        nx_released nx \<or> length (nx_changes nx) < length (nx_changes (fold (next_step eg run s now) sts nx)))"
proof (induction sts arbitrary: nx)
  case (Cons st sts)
  have one: "next_step eg run s now st nx = nx \<or> length (nx_changes (next_step eg run s now st nx)) = length (nx_changes nx) + 1"
    by (auto simp: next_step_def split: option.splits)
  from one show ?case
  proof
    assume "next_step eg run s now st nx = nx"
    then show ?thesis using Cons.IH [of nx] by simp
  next
    assume "length (nx_changes (next_step eg run s now st nx)) = length (nx_changes nx) + 1"
    then show ?thesis using Cons.IH [of "next_step eg run s now st nx"] by auto
  qed
qed simp

lemma changes_fit:
  assumes "pass_inv s steps nx" and "distinct (map s_name steps)"
  shows "length (nx_changes nx) \<le> length steps"
proof -
  have "set (map sc_name (nx_changes nx)) \<subseteq> set (map s_name steps)" using pass_invD(4) [OF assms(1)] by (auto simp: image_iff) metis
  then have "card (set (map sc_name (nx_changes nx))) \<le> card (set (map s_name steps))" by (rule card_mono [OF finite_set])
  then show ?thesis using distinct_card [OF pass_invD(2) [OF assms(1)]] distinct_card [OF assms(2)] by simp
qed

lemma next_pass_spec:
  assumes "steps_of s steps" and "pass_inv s steps nx"
  shows "pass_inv s steps (next_pass eg run s now steps nx)"
    "nx_released (next_pass eg run s now steps nx) \<Longrightarrow> length (nx_changes nx) < length (nx_changes (next_pass eg run s now steps nx))"
    "\<not> nx_released (next_pass eg run s now steps nx) \<Longrightarrow> list_all (has_fate s (next_pass eg run s now steps nx)) steps"
proof -
  have inv: "pass_inv s steps (nx\<lparr>nx_released := False\<rparr>)"
    using pass_invD [OF assms(2)] by (intro pass_inv_I) simp_all
  note p = pass_spec [OF assms(1) subset_refl inv, of eg run now, folded next_pass_def]
  show "pass_inv s steps (next_pass eg run s now steps nx)" using p by blast
  show "\<not> nx_released (next_pass eg run s now steps nx) \<Longrightarrow> list_all (has_fate s (next_pass eg run s now steps nx)) steps"
    using p by (simp add: list_all_iff)
  show "nx_released (next_pass eg run s now steps nx) \<Longrightarrow> length (nx_changes nx) < length (nx_changes (next_pass eg run s now steps nx))"
    using pass_grows [of "nx\<lparr>nx_released := False\<rparr>" eg run s now steps, folded next_pass_def] by simp
qed

lemma next_passes_spec:
  "steps_of s steps \<Longrightarrow> pass_inv s steps nx \<Longrightarrow> length steps < k + length (nx_changes nx) \<Longrightarrow>
     pass_inv s steps (next_passes k eg run s now steps nx) \<and> list_all (has_fate s (next_passes k eg run s now steps nx)) steps"
proof (induction k arbitrary: nx)
  case 0
  then show ?case using changes_fit [OF 0(2)] by (simp add: steps_of_def)
next
  case (Suc k)
  note p = next_pass_spec [OF Suc.prems(1,2), of eg run now]
  show ?case
  proof (cases "nx_released (next_pass eg run s now steps nx)")
    case True
    then have "length steps < k + length (nx_changes (next_pass eg run s now steps nx))" using p(2) Suc.prems(3) by simp
    then show ?thesis using Suc.IH [OF Suc.prems(1) p(1)] True by simp
  next
    case False
    then show ?thesis using p(1,3) by simp
  qed
qed

lemma start_inv: "pass_inv s steps (start_state eg run steps)"
  by (rule pass_inv_I) (simp_all add: start_state_def)

definition next_result :: "engine \<Rightarrow> time \<Rightarrow> run \<Rightarrow> spec \<Rightarrow> step list \<Rightarrow> next_state" where
  "next_result eg now run s steps = next_passes (length steps + 1) eg run s now steps (start_state eg run steps)"

lemma next_result_spec:
  assumes "steps_of s steps"
  shows "pass_inv s steps (next_result eg now run s steps)" "list_all (has_fate s (next_result eg now run s steps)) steps"
  using next_passes_spec [OF assms start_inv, of "length steps + 1"] by (simp_all add: next_result_def)

text \<open>The statuses the runner has after the changes.\<close>

lemma final_status_one:
  "distinct (map sc_name cs) \<Longrightarrow> final_status cs name x =
     (if Terminal x then x else case find (\<lambda>c. sc_name c = name) cs of None \<Rightarrow> x | Some c \<Rightarrow> sc_status c)"
proof (induction cs arbitrary: x)
  case (Cons c cs)
  show ?case
  proof (cases "sc_name c = name \<and> \<not> Terminal x")
    case True
    then have "find (\<lambda>c. sc_name c = name) cs = None" using Cons.prems find_other by auto
    then show ?thesis using True Cons by simp
  next
    case False
    then show ?thesis using Cons by (auto split: option.splits)
  qed
qed simp

lemma applied_statuses_map:
  assumes "steps_of s steps" and "pass_inv s steps nx"
  shows "statuses (applied steps (nx_changes nx)) = nx_by_name nx"
proof (rule fmap_ext)
  fix d
  let ?cs = "nx_changes nx"
  have dist: "distinct (map s_name steps)" using assms(1) by (simp add: steps_of_def)
  have names: "map s_name (applied steps ?cs) = map s_name steps" by (simp add: applied_map)
  have l: "fmlookup (statuses (applied steps ?cs)) d = (case find (\<lambda>st. s_name st = d) (applied steps ?cs) of None \<Rightarrow> None | Some st \<Rightarrow> Some (s_status st))"
    using dist statuses_lookup [of "applied steps ?cs" fmempty d] unfolding statuses_def by (simp only: names fmempty_lookup)
  have r: "fmlookup (nx_by_name nx) d = (case find (\<lambda>c. sc_name c = d) ?cs of None \<Rightarrow> fmlookup (statuses steps) d | Some c \<Rightarrow> Some (sc_status c))"
    by (simp add: pass_invD(1) [OF assms(2)] fold_changes_lookup [OF pass_invD(2) [OF assms(2)]])
  have f: "find (\<lambda>st. s_name st = d) (applied steps ?cs) = map_option (\<lambda>st. fold apply_to_step ?cs st) (find (\<lambda>st. s_name st = d) steps)"
    unfolding applied_map by (induction steps) auto
  show "fmlookup (statuses (applied steps ?cs)) d = fmlookup (nx_by_name nx) d"
  proof (cases "find (\<lambda>st. s_name st = d) steps")
    case None
    then have "fmlookup (statuses steps) d = None" using dist by (simp add: statuses_def statuses_lookup)
    moreover have "find (\<lambda>c. sc_name c = d) ?cs = None"
      using pass_invD(4) [OF assms(2)] None unfolding find_None_iff by metis
    ultimately show ?thesis using None by (simp add: l f r)
  next
    case (Some st)
    then have st: "st \<in> set steps" "s_name st = d" by (auto dest: find_Some_iff')
    have now: "fmlookup (statuses steps) d = Some (s_status st)" using dist Some by (simp add: statuses_def statuses_lookup)
    show ?thesis
    proof (cases "find (\<lambda>c. sc_name c = d) ?cs")
      case None
      then show ?thesis using Some st by (simp add: l f r now final_status_one [OF pass_invD(2) [OF assms(2)]])
    next
      case c: (Some c)
      then have "c \<in> set ?cs" "sc_name c = d" by (auto dest: find_Some_iff')
      then obtain st' where "st' \<in> set steps" "s_name st' = d" "s_status st' = Pending" using pass_invD(4) [OF assms(2)] by metis
      then have "s_status st = Pending" using st dist by (metis distinct_map inj_onD)
      then show ?thesis using Some st c by (simp add: l f r final_status_one [OF pass_invD(2) [OF assms(2)]] Terminal_def)
    qed
  qed
qed

subsection \<open>What a call leaves\<close>

lemma engine_next_eq:
  assumes "eg_spec_of eg (r_spec run) = Inr s" and "steps_of s steps"
  shows "engine_next eg now run steps =
    (let changes = nx_changes (next_result eg now run s steps) in
     (changes,
      case run_failure s (statuses (applied steps changes)) changes [] steps of
        None \<Rightarrow> None
      | Some failed \<Rightarrow> Some \<lparr>rc_status = (if failed \<noteq> [] then Failed else Done), rc_error = failed, rc_finished = now\<rparr>))"
proof -
  note p = next_result_spec(1) [OF assms(2), of eg now run]
  have "fold (\<lambda>c. fmupd (sc_name c) (sc_status c)) (nx_changes (next_result eg now run s steps)) (statuses steps) =
      statuses (applied steps (nx_changes (next_result eg now run s steps)))"
    using applied_statuses_map [OF assms(2) p] pass_invD(1) [OF p] by simp
  then show ?thesis using assms(1) by (simp add: engine_next_def Let_def next_result_def split: option.splits)
qed

lemma fate_after_next:
  assumes "eg_spec_of eg (r_spec run) = Inr s" and "steps_of s steps" and "engine_next eg now run steps = (changes, rc)" and "st \<in> set steps"
  shows "if s_status st = Pending
    then \<exists>n. find_node s (s_name st) = Some n \<and> fate s (statuses (applied steps changes)) n (status_of (statuses (applied steps changes)) (s_name st))
    else status_of (statuses (applied steps changes)) (s_name st) = s_status st"
proof -
  let ?nx = "next_result eg now run s steps"
  note p = next_result_spec [OF assms(2), of eg now run]
  have dist: "distinct (map s_name steps)" using assms(2) by (simp add: steps_of_def)
  have "changes = nx_changes ?nx" using assms(3) by (simp add: engine_next_eq [OF assms(1,2)] Let_def)
  then have after: "statuses (applied steps changes) = nx_by_name ?nx" using applied_statuses_map [OF assms(2) p(1)] by simp
  show ?thesis
  proof (cases "s_status st = Pending")
    case False
    then show ?thesis using undecided(2) [OF p(1) dist assms(4)] after by simp
  next
    case True
    obtain n where n: "find_node s (s_name st) = Some n" using steps_of_node [OF assms(2,4)] by blast
    have "has_fate s ?nx st" using p(2) assms(4) by (simp add: list_all_iff)
    then consider (changed) c where "c \<in> set (nx_changes ?nx)" "sc_name c = s_name st"
      | (waits) "\<not> list_ex (\<lambda>c. sc_name c = s_name st) (nx_changes ?nx)" "fate s (nx_by_name ?nx) n Pending"
      using True n by (auto simp: has_fate_def list_ex_iff)
    then show ?thesis
    proof cases
      case changed
      then have "fate s (nx_by_name ?nx) n (sc_status c)" "status_of (nx_by_name ?nx) (s_name st) = sc_status c"
        using pass_invD(5) [OF p(1) changed(1)] n undecided(3) [OF p(1) dist assms(4) changed(1)] by simp_all
      then show ?thesis using True n after by simp
    next
      case waits
      then show ?thesis using undecided(1) [OF p(1) dist assms(4)] True n after by simp
    qed
  qed
qed

text \<open>C18: After a call of \<open>Next\<close> every node that was pending has the fate its dependencies give it, read after
  the call: canceled when one did not end well, still pending when one has not ended, skipped when all of them were, else
  queued, skipped or failed by its condition (queued when it has none); and no other node changed. The order in which the
  steps come does not matter, and the passes are enough.\<close>

theorem next_gives_each_its_fate:
  assumes "eg_spec_of eg (r_spec run) = Inr s" and "steps_of s steps" and "engine_next eg now run steps = (changes, rc)" and "st \<in> set steps"
  shows "if s_status st = Pending
    then \<exists>n. find_node s (s_name st) = Some n \<and> fate s (statuses (applied steps changes)) n (status_of (statuses (applied steps changes)) (s_name st))
    else status_of (statuses (applied steps changes)) (s_name st) = s_status st"
  by (rule fate_after_next [OF assms])

lemma applied_step:
  assumes "steps_of s steps" and "st \<in> set steps"
  shows "status_of (statuses (applied steps cs)) (s_name st) = s_status (fold apply_to_step cs st)"
proof -
  have names: "map s_name (applied steps cs) = map s_name steps" by (simp add: applied_map)
  then have dist: "distinct (map s_name (applied steps cs))" using assms(1) by (simp only: steps_of_def)
  have "fold apply_to_step cs st \<in> set (applied steps cs)" using assms(2) by (simp add: applied_map)
  from status_of_step [OF dist this] show ?thesis by simp
qed

lemma finite_after_rel: "finite (after_rel s)"
proof -
  have "after_rel s = (\<Union>n\<in>set (pl_nodes s). Pair (n_id n) ` set (n_after n))" by (auto simp: after_rel_def)
  then show ?thesis by simp
qed

text \<open>A node that stays pending waits for one that is under way: there is no cycle to wait in.\<close>

lemma pending_waits_for_active:
  assumes "eg_spec_of eg (r_spec run) = Inr s" and "steps_of s steps" and "engine_next eg now run steps = (changes, rc)"
    and "list_all (\<lambda>st. s_status st = Pending \<or> Terminal (s_status st)) (applied steps changes)"
  shows "list_all (\<lambda>st. Terminal (s_status st)) (applied steps changes)"
proof (rule ccontr)
  let ?after = "statuses (applied steps changes)"
  let ?P = "{x \<in> n_id ` set (pl_nodes s). status_of ?after x = Pending}"
  have step: "\<exists>st\<in>set steps. s_name st = x" if "x \<in> n_id ` set (pl_nodes s)" for x
    using assms(2) that unfolding steps_of_def by (metis image_iff list.set_map)
  have either: "status_of ?after x = Pending \<or> Terminal (status_of ?after x)" if x: "x \<in> n_id ` set (pl_nodes s)" for x
  proof -
    obtain st where st: "st \<in> set steps" "s_name st = x" using step [OF x] by blast
    then show ?thesis using assms(4) applied_step [OF assms(2) st(1), of changes] by (auto simp: applied_map list_all_iff)
  qed
  assume "\<not> list_all (\<lambda>st. Terminal (s_status st)) (applied steps changes)"
  then obtain st where st: "st \<in> set steps" "\<not> Terminal (s_status (fold apply_to_step changes st))"
    by (auto simp: applied_map list_all_iff)
  have "s_name st \<in> n_id ` set (pl_nodes s)" using assms(2) st(1) unfolding steps_of_def by (metis image_iff list.set_map)
  then have inP: "s_name st \<in> ?P" using either [of "s_name st"] st applied_step [OF assms(2) st(1), of changes] by simp
  have "acyclic (after_rel s)" using steps_of_node [OF assms(2) st(1)] steps_of_deps(5) [OF assms(2)] by blast
  then have "wf ((after_rel s)\<inverse>)" by (rule finite_acyclic_wf_converse [OF finite_after_rel])
  from wfE_min [OF this inP] obtain x where x: "x \<in> ?P" "\<And>y. (y, x) \<in> (after_rel s)\<inverse> \<Longrightarrow> y \<notin> ?P" by blast
  obtain stx where stx: "stx \<in> set steps" "s_name stx = x" using step x(1) by blast
  have now: "status_of ?after x = Pending" using x(1) by simp
  have "s_status stx = Pending"
    using fate_after_next [OF assms(1-3) stx(1)] now stx(2) by (simp split: if_splits)
  then obtain n where n: "find_node s x = Some n" "fate s ?after n Pending"
    using fate_after_next [OF assms(1-3) stx(1)] now stx(2) by auto
  then have "\<not> ended_deps ?after n" by (auto simp: fate_def split: if_splits)
  then obtain d where d: "d \<in> set (n_after n)" "\<not> Terminal (status_of ?after d)" by (auto simp: ended_deps_def list_all_iff)
  have "d \<in> n_id ` set (pl_nodes s)" "(x, d) \<in> after_rel s"
    using steps_of_deps(1-3) [OF assms(2) n(1)] d(1) by (auto simp: after_rel_def)
  then show False using x(2) [of d] either [of d] d(2) by simp
qed

subsection \<open>A run of a pipeline ends\<close>

definition run_failed :: "spec \<Rightarrow> step list \<Rightarrow> bool" where
  "run_failed s steps \<longleftrightarrow> list_ex (\<lambda>st. s_status st = Failed \<and> \<not> continues s (s_name st)) steps"

lemma run_failure_cases:
  "run_failure s after changes failed steps =
     (if list_all (\<lambda>st. Terminal (status_of after (s_name st))) steps then run_failure s after changes failed steps else None)"
  by (induction s after changes failed steps rule: run_failure.induct) (auto simp: Let_def)

lemma run_failure_ended:
  "list_all (\<lambda>st. Terminal (status_of after (s_name st))) steps \<Longrightarrow>
     \<exists>text. run_failure s after changes failed steps = Some text \<and>
       (text \<noteq> [] \<longleftrightarrow> failed \<noteq> [] \<or> list_ex (\<lambda>st. status_of after (s_name st) = Failed \<and> \<not> continues s (s_name st)) steps)"
  by (induction s after changes failed steps rule: run_failure.induct) (auto simp: Let_def)

lemma engine_next_end:
  assumes "eg_spec_of eg (r_spec run) = Inr s" and "steps_of s steps" and "engine_next eg now run steps = (changes, rc)"
  shows "if list_all (\<lambda>st. Terminal (s_status st)) (applied steps changes)
    then \<exists>text. rc = Some \<lparr>rc_status = (if run_failed s (applied steps changes) then Failed else Done), rc_error = text, rc_finished = now\<rparr>
    else rc = None"
proof -
  let ?after = "statuses (applied steps changes)"
  have names: "s_name (fold apply_to_step cs st) = s_name st" for cs st by simp
  have all: "list_all (\<lambda>st. Terminal (status_of ?after (s_name st))) steps \<longleftrightarrow> list_all (\<lambda>st. Terminal (s_status st)) (applied steps changes)"
    using applied_step [OF assms(2)] by (simp add: applied_map list_all_iff)
  have fails: "list_ex (\<lambda>st. status_of ?after (s_name st) = Failed \<and> \<not> continues s (s_name st)) steps \<longleftrightarrow> run_failed s (applied steps changes)"
    using applied_step [OF assms(2)] by (simp add: applied_map list_ex_iff run_failed_def)
  have ch: "changes = nx_changes (next_result eg now run s steps)"
    and rc: "rc = (case run_failure s ?after changes [] steps of None \<Rightarrow> None
      | Some failed \<Rightarrow> Some \<lparr>rc_status = (if failed \<noteq> [] then Failed else Done), rc_error = failed, rc_finished = now\<rparr>)"
    using assms(3) by (auto simp: engine_next_eq [OF assms(1,2)] Let_def)
  show ?thesis
  proof (cases "list_all (\<lambda>st. Terminal (s_status st)) (applied steps changes)")
    case True
    then obtain msg where "run_failure s ?after changes [] steps = Some msg" "msg \<noteq> [] \<longleftrightarrow> run_failed s (applied steps changes)"
      using run_failure_ended [of ?after steps s changes "[]"] all fails by auto
    then show ?thesis using True by (auto simp: rc)
  next
    case False
    then have "run_failure s ?after changes [] steps = None" using run_failure_cases all by metis
    then show ?thesis using False by (simp add: rc)
  qed
qed

text \<open>The statuses a stored step has.\<close>

definition known_status :: "step \<Rightarrow> bool" where
  "known_status st \<longleftrightarrow> s_status st \<in> {Pending, Queued, Running, Waiting, Done, Failed, Skipped, Canceled}"

lemma stamp_applied: "applied steps (map (stamp_queued now) cs) = applied steps cs"
proof -
  have "apply_to_step (stamp_queued now c) = apply_to_step c" for c
    by (auto simp: apply_to_step_def stamp_queued_def)
  then have "fold apply_to_step (map (stamp_queued now) cs) st = fold apply_to_step cs st" for st
    by (induction cs arbitrary: st) simp_all
  then show ?thesis by (simp add: applied_map)
qed

lemma stamp_final: "final_status (map (stamp_queued now) cs) name x = final_status cs name x"
  by (induction cs arbitrary: x) (simp_all add: stamp_queued_def)

lemma next_statuses_known:
  assumes "eg_spec_of eg (r_spec run) = Inr s" and "steps_of s steps" and "engine_next eg now run steps = (changes, rc)"
    and "list_all known_status steps"
  shows "list_all known_status (applied steps changes)"
proof -
  have "known_status (fold apply_to_step changes st)" if st: "st \<in> set steps" for st
  proof -
    note f = fate_after_next [OF assms(1-3) st, unfolded applied_step [OF assms(2) st]]
    show ?thesis
    proof (cases "s_status st = Pending")
      case True
      then show ?thesis using f by (auto simp: fate_def known_status_def split: if_splits)
    next
      case False
      then have "known_status st" "s_status (fold apply_to_step changes st) = s_status st" using f assms(4) st by (simp_all add: list_all_iff)
      then show ?thesis by (simp only: known_status_def)
    qed
  qed
  then show ?thesis by (simp add: applied_map list_all_iff)
qed

lemma same_statuses:
  assumes "map (\<lambda>st. (s_name st, s_status st)) xs = map (\<lambda>st. (s_name st, s_status st)) ys"
  shows "list_all (\<lambda>st. P (s_name st) (s_status st)) xs \<longleftrightarrow> list_all (\<lambda>st. P (s_name st) (s_status st)) ys"
    "list_ex (\<lambda>st. P (s_name st) (s_status st)) xs \<longleftrightarrow> list_ex (\<lambda>st. P (s_name st) (s_status st)) ys"
proof -
  have "list_all (\<lambda>(n, x). P n x) (map (\<lambda>st. (s_name st, s_status st)) zs) \<longleftrightarrow> list_all (\<lambda>st. P (s_name st) (s_status st)) zs"
    "list_ex (\<lambda>(n, x). P n x) (map (\<lambda>st. (s_name st, s_status st)) zs) \<longleftrightarrow> list_ex (\<lambda>st. P (s_name st) (s_status st)) zs" for zs
    by (simp_all add: list_ex_map')
  with assms show "list_all (\<lambda>st. P (s_name st) (s_status st)) xs \<longleftrightarrow> list_all (\<lambda>st. P (s_name st) (s_status st)) ys"
    "list_ex (\<lambda>st. P (s_name st) (s_status st)) xs \<longleftrightarrow> list_ex (\<lambda>st. P (s_name st) (s_status st)) ys" by metis+
qed

text \<open>C17: A run of a checked pipeline never stops half way: when the runner advances it, either a step is
  queued, running or waiting and the run goes on, or every step ended and the run did, failed exactly when a node
  failed that does not continue on error, and done otherwise.\<close>

theorem pipeline_run_ends:
  assumes "Run runID d = Inr run" and "\<not> Terminal (r_status run)"
    and "fmlookup execs (r_kind run) = Some (engine_next eg now)" and "eg_spec_of eg (r_spec run) = Inr s"
    and "steps_of s (Steps runID d)" and "list_all known_status (Steps runID d)"
    and "advance cost_of execs now runID d = (res, d')"
  shows "\<exists>run'. Run runID d' = Inr run' \<and>
    (if list_ex (\<lambda>st. s_status st \<in> {Queued, Running, Waiting}) (Steps runID d') then \<not> Terminal (r_status run')
     else list_all (\<lambda>st. Terminal (s_status st)) (Steps runID d') \<and>
          r_status run' = (if run_failed s (Steps runID d') then Failed else Done))"
proof -
  let ?steps = "Steps runID d"
  obtain changes rc where nxt: "engine_next eg now run ?steps = (changes, rc)" by (rule prod.exhaust)
  let ?sts = "applied ?steps changes"
  let ?cs = "map (stamp_queued now) changes"
  define rc' where "rc' = (case rc of None \<Rightarrow> derive run ?sts now | Some c \<Rightarrow> Some c)"
  have d': "d' = store_apply cost_of runID (?cs @ left_behind ?sts rc') rc' d"
  proof -
    have "decide (engine_next eg now) now run ?steps = (?cs @ left_behind ?sts rc', rc')"
      by (simp add: decide_def nxt Let_def rc'_def stamp_applied cong: option.case_cong)
    then show ?thesis using assms(1-3,7) by (simp add: advance_def read_next_def executor_of_def)
  qed
  obtain run' where run': "Run runID d' = Inr run'"
    "r_status run' = (case rc' of Some c \<Rightarrow> rc_status c | None \<Rightarrow> r_status run)"
    using Run_applied [OF assms(1), of cost_of "?cs @ left_behind ?sts rc'" rc'] assms(2)
    by (auto simp: d' ended_run_def Terminal_def split: option.splits)
  have after: "map (\<lambda>st. (s_name st, s_status st)) (Steps runID d') = map (\<lambda>st. (s_name st, s_status st)) ?sts" if "left_behind ?sts rc' = []"
    unfolding d' Steps_applied that by (simp add: applied_map stamp_final)
  note ending = engine_next_end [OF assms(4,5) nxt]
  show ?thesis
  proof (cases "list_all (\<lambda>st. Terminal (s_status st)) ?sts")
    case True
    then obtain msg where rc: "rc' = Some \<lparr>rc_status = (if run_failed s ?sts then Failed else Done), rc_error = msg, rc_finished = now\<rparr>"
      using ending by (auto simp: rc'_def)
    have none: "left_behind ?sts rc' = []" using True by (auto simp: left_behind_def list_all_iff split: option.splits)
    note same = same_statuses [OF after [OF none]]
    have "list_all (\<lambda>st. Terminal (s_status st)) (Steps runID d')" using same(1) [of "\<lambda>n x. Terminal x"] True by simp
    moreover have "\<not> list_ex (\<lambda>st. s_status st \<in> {Queued, Running, Waiting}) (Steps runID d')"
      using calculation by (auto simp: list_all_iff list_ex_iff Terminal_def)
    moreover have "run_failed s (Steps runID d') = run_failed s ?sts"
      using same(2) [of "\<lambda>n x. x = Failed \<and> \<not> continues s n"] by (simp add: run_failed_def)
    ultimately show ?thesis using run' rc by simp
  next
    case False
    have "\<not> list_all (\<lambda>st. s_status st = Pending \<or> Terminal (s_status st)) ?sts" using pending_waits_for_active [OF assms(4,5) nxt] False by blast
    then have moving: "list_ex (\<lambda>st. s_status st \<in> {Queued, Running, Waiting}) ?sts"
      using next_statuses_known [OF assms(4,5) nxt assms(6)] by (auto simp: list_all_iff list_ex_iff known_status_def Terminal_def)
    have rc: "rc' = derive run ?sts now" using ending False by (simp add: rc'_def)
    have not_end: "\<not> Terminal (rc_status c)" if c: "rc' = Some c" for c
    proof (cases "list_ex (\<lambda>st. active (s_status st)) ?sts")
      case True
      then show ?thesis using derive_cases(1) [OF True, of run now] rc c by (auto simp: Terminal_def split: if_splits)
    next
      case idle: False
      then have w: "list_ex (\<lambda>st. s_status st = Waiting) ?sts" using moving by (auto simp: list_ex_iff active_def)
      show ?thesis using derive_cases(2) [OF idle w, of run now] rc c by (auto simp: Terminal_def split: if_splits)
    qed
    then have none: "left_behind ?sts rc' = []" by (auto simp: left_behind_def split: option.splits)
    have "list_ex (\<lambda>st. s_status st \<in> {Queued, Running, Waiting}) (Steps runID d')"
      using same_statuses(2) [OF after [OF none], of "\<lambda>n x. x \<in> {Queued, Running, Waiting}"] moving by simp
    moreover have "\<not> Terminal (r_status run')" using run'(2) not_end assms(2) by (auto split: option.splits)
    ultimately show ?thesis using run'(1) by simp
  qed
qed

end
