(* ===== verification/PipeScope.thy ===== *)
theory PipeScope
  imports PipeRun
begin

text \<open>
  The steps of one run as they move (calls of \<open>Next\<close>, workers, cancellations), and the names its
  expressions read: a node runs only after all the nodes before it, so that every name the check let
  through is there.
\<close>

subsection \<open>The steps of a run\<close>

abbreviation under_way :: "status set" where "under_way \<equiv> {Queued, Running, Waiting}"

definition move_step :: "string \<Rightarrow> status \<Rightarrow> string \<Rightarrow> step \<Rightarrow> step" where
  "move_step name x res st = (if s_name st = name then st\<lparr>s_status := x, s_output := res\<rparr> else st)"

text \<open>A worker moves a step that is under way; a cancellation, or the end of the run, cancels what has not ended.\<close>

inductive run_moves :: "engine \<Rightarrow> run \<Rightarrow> step list \<Rightarrow> step list \<Rightarrow> bool" for eg :: engine and run :: run where
  Asked: "engine_next eg now run steps = (changes, rc) \<Longrightarrow> run_moves eg run steps (applied steps changes)"
| Worked: "st \<in> set steps \<Longrightarrow> s_status st \<in> under_way \<Longrightarrow> x \<in> under_way \<union> {Done, Failed} \<Longrightarrow>
      run_moves eg run steps (map (move_step (s_name st) x res) steps)"
| Ended: "run_moves eg run steps (applied steps (map (cancel_change reason now) (filter (\<lambda>st. \<not> Terminal (s_status st)) steps)))"

inductive run_reached :: "engine \<Rightarrow> run \<Rightarrow> spec \<Rightarrow> step list \<Rightarrow> bool" for eg :: engine and run :: run and s :: spec where
  Submitted: "steps_of s steps \<Longrightarrow> list_all (\<lambda>st. s_status st = Pending) steps \<Longrightarrow> run_reached eg run s steps"
| Moved: "run_reached eg run s steps \<Longrightarrow> run_moves eg run steps steps' \<Longrightarrow> run_reached eg run s steps'"

subsection \<open>A node runs after those before it\<close>

definition in_order :: "spec \<Rightarrow> (string, status) fmap \<Rightarrow> bool" where
  "in_order s by_name \<longleftrightarrow>
     (\<forall>n\<in>set (pl_nodes s). status_of by_name (n_id n) \<in> under_way \<union> {Done, Failed, Skipped} \<longrightarrow>
        (\<forall>d\<in>set (n_after n). status_of by_name d \<in> {Done, Failed, Skipped}))"

lemma in_orderD:
  "in_order s by_name \<Longrightarrow> n \<in> set (pl_nodes s) \<Longrightarrow> status_of by_name (n_id n) \<in> under_way \<union> {Done, Failed, Skipped} \<Longrightarrow>
     d \<in> set (n_after n) \<Longrightarrow> status_of by_name d \<in> {Done, Failed, Skipped}"
  unfolding in_order_def by blast

lemma names_of_steps:
  assumes "map s_name steps' = map s_name steps" and "steps_of s steps"
  shows "steps_of s steps'"
  using assms(2) unfolding steps_of_def assms(1) by blast

lemma steps_of_id:
  assumes "steps_of s steps" and "n \<in> set (pl_nodes s)"
  shows "\<exists>st\<in>set steps. s_name st = n_id n"
proof -
  have "n_id n \<in> set (map s_name steps)" using assms by (simp add: steps_of_def)
  then show ?thesis by auto
qed

lemma node_of_id: "steps_of s steps \<Longrightarrow> n \<in> set (pl_nodes s) \<Longrightarrow> find_node s (n_id n) = Some n"
  unfolding find_node_def by (rule find_distinct) (simp_all add: steps_of_def)

lemma dep_step:
  assumes "steps_of s steps" and "n \<in> set (pl_nodes s)" and "d \<in> set (n_after n)"
  shows "\<exists>st\<in>set steps. s_name st = d"
proof -
  have "d \<in> n_id ` set (pl_nodes s)" using steps_of_deps(3) [OF assms(1) node_of_id [OF assms(1,2)]] assms(3) by blast
  then show ?thesis using steps_of_id [OF assms(1)] by force
qed

lemma asked_in_order:
  assumes "eg_spec_of eg (r_spec run) = Inr s" and "steps_of s steps" and "in_order s (statuses steps)"
    and "engine_next eg now run steps = (changes, rc)"
  shows "in_order s (statuses (applied steps changes))"
  unfolding in_order_def
proof (intro ballI impI)
  let ?after = "statuses (applied steps changes)"
  fix n d assume n: "n \<in> set (pl_nodes s)" "status_of ?after (n_id n) \<in> under_way \<union> {Done, Failed, Skipped}" and d: "d \<in> set (n_after n)"
  have dist: "distinct (map s_name steps)" using assms(2) by (simp add: steps_of_def)
  obtain st where st: "st \<in> set steps" "s_name st = n_id n" using steps_of_id [OF assms(2) n(1)] by blast
  obtain sd where sd: "sd \<in> set steps" "s_name sd = d" using dep_step [OF assms(2) n(1) d] by blast
  note f = fate_after_next [OF assms(1,2,4)]
  show "status_of ?after d \<in> {Done, Failed, Skipped}"
  proof (cases "s_status st = Pending")
    case True
    then have "fate s ?after n (status_of ?after (n_id n))" using f [OF st(1)] st(2) node_of_id [OF assms(2) n(1)] by auto
    then have "\<not> blocked s ?after n" "ended_deps ?after n" using n(2) by (auto simp: fate_def split: if_splits)
    then show ?thesis using d by (auto simp: blocked_def blocks_def ended_deps_def Terminal_def list_all_iff list_ex_iff)
  next
    case False
    then have "status_of (statuses steps) (n_id n) \<in> under_way \<union> {Done, Failed, Skipped}"
      using f [OF st(1)] n(2) st status_of_step [OF dist st(1)] by simp
    then have old: "status_of (statuses steps) d \<in> {Done, Failed, Skipped}" using in_orderD [OF assms(3) n(1)] d by blast
    then have "s_status sd \<noteq> Pending" using status_of_step [OF dist sd(1)] sd(2) by auto
    then show ?thesis using f [OF sd(1)] sd old status_of_step [OF dist sd(1)] by simp
  qed
qed

text \<open>A rewriting of the steps that leaves what ended, and brings nothing under way that was not.\<close>

lemma mapped_in_order:
  assumes "steps_of s steps" and "in_order s (statuses steps)"
    and "\<And>st. s_name (f st) = s_name st"
    and "\<And>st. st \<in> set steps \<Longrightarrow> Terminal (s_status st) \<Longrightarrow> s_status (f st) = s_status st"
    and "\<And>st. st \<in> set steps \<Longrightarrow> s_status (f st) \<in> under_way \<union> {Done, Failed, Skipped} \<Longrightarrow> s_status st \<in> under_way \<union> {Done, Failed, Skipped}"
  shows "steps_of s (map f steps) \<and> in_order s (statuses (map f steps))"
proof
  have names: "map s_name (map f steps) = map s_name steps" using assms(3) by simp
  show new: "steps_of s (map f steps)" by (rule names_of_steps [OF names assms(1)])
  have look: "status_of (statuses (map f steps)) (s_name st) = s_status (f st)" "status_of (statuses steps) (s_name st) = s_status st"
    if "st \<in> set steps" for st
    using status_of_step [of "map f steps" "f st"] status_of_step [of steps st] that assms(1,3) new by (auto simp: steps_of_def)
  show "in_order s (statuses (map f steps))"
    unfolding in_order_def
  proof (intro ballI impI)
    fix n d assume n: "n \<in> set (pl_nodes s)" "status_of (statuses (map f steps)) (n_id n) \<in> under_way \<union> {Done, Failed, Skipped}"
      and d: "d \<in> set (n_after n)"
    obtain st where st: "st \<in> set steps" "s_name st = n_id n" using steps_of_id [OF assms(1) n(1)] by blast
    obtain sd where sd: "sd \<in> set steps" "s_name sd = d" using dep_step [OF assms(1) n(1) d] by blast
    have "s_status (f st) \<in> under_way \<union> {Done, Failed, Skipped}" using n(2) look(1) [OF st(1)] st(2) by simp
    then have "status_of (statuses steps) (n_id n) \<in> under_way \<union> {Done, Failed, Skipped}"
      using assms(5) [OF st(1)] look(2) [OF st(1)] st(2) by simp
    then have old: "s_status sd \<in> {Done, Failed, Skipped}" using in_orderD [OF assms(2) n(1) _ d] look(2) [OF sd(1)] sd(2) by simp
    then have "s_status (f sd) = s_status sd" using assms(4) [OF sd(1)] by (auto simp: Terminal_def)
    then show "status_of (statuses (map f steps)) d \<in> {Done, Failed, Skipped}" using old look(1) [OF sd(1)] sd(2) by simp
  qed
qed

lemma moves_in_order:
  assumes "run_moves eg run steps steps'" and "eg_spec_of eg (r_spec run) = Inr s" and "steps_of s steps" and "in_order s (statuses steps)"
  shows "steps_of s steps' \<and> in_order s (statuses steps')"
  using assms(1)
proof cases
  case (Asked now changes rc)
  have "map s_name (applied steps changes) = map s_name steps" by (simp add: applied_map)
  then show ?thesis using names_of_steps assms(3) asked_in_order [OF assms(2-4) Asked(2)] Asked(1) by blast
next
  case (Worked st x res)
  have dist: "distinct (map s_name steps)" using assms(3) by (simp add: steps_of_def)
  have same: "st' = st" if "st' \<in> set steps" "s_name st' = s_name st" for st'
    using dist that Worked(2) by (simp add: distinct_map inj_on_def)
  show ?thesis
    unfolding Worked(1)
  proof (rule mapped_in_order [OF assms(3,4)])
    fix st' assume "st' \<in> set steps" "Terminal (s_status st')"
    then show "s_status (move_step (s_name st) x res st') = s_status st'"
      using same [of st'] Worked(3) by (auto simp: move_step_def Terminal_def)
  next
    fix st' assume "st' \<in> set steps" "s_status (move_step (s_name st) x res st') \<in> under_way \<union> {Done, Failed, Skipped}"
    then show "s_status st' \<in> under_way \<union> {Done, Failed, Skipped}"
      using same [of st'] Worked(3) by (auto simp: move_step_def split: if_splits)
  qed (simp add: move_step_def)
next
  case (Ended reason now)
  let ?cs = "map (cancel_change reason now) (filter (\<lambda>st. \<not> Terminal (s_status st)) steps)"
  have canceled: "sc_status c = Canceled" if "c \<in> set ?cs" for c using that by (auto simp: cancel_change_def no_change_def)
  have fin: "final_status cs name y = y \<or> final_status cs name y = Canceled" if "\<forall>c\<in>set cs. sc_status c = Canceled" for cs name y
    using that by (induction cs arbitrary: y) auto
  show ?thesis
    unfolding Ended(1) applied_map
  proof (rule mapped_in_order [OF assms(3,4)])
    fix st assume "st \<in> set steps" "s_status (fold apply_to_step ?cs st) \<in> under_way \<union> {Done, Failed, Skipped}"
    then show "s_status st \<in> under_way \<union> {Done, Failed, Skipped}"
      using fin [of ?cs "s_name st" "s_status st"] canceled by auto
  qed simp_all
qed

lemma reached_in_order:
  assumes "run_reached eg run s steps" and "eg_spec_of eg (r_spec run) = Inr s"
  shows "steps_of s steps \<and> in_order s (statuses steps)"
  using assms(1)
proof (induction rule: run_reached.induct)
  case (Submitted steps)
  have "status_of (statuses steps) (n_id n) = Pending" if n: "n \<in> set (pl_nodes s)" for n
  proof -
    obtain st where "st \<in> set steps" "s_name st = n_id n" using steps_of_id [OF Submitted(1) n] by blast
    then show ?thesis using status_of_step [of steps st] Submitted by (simp add: steps_of_def list_all_iff)
  qed
  then show ?case using Submitted(1) by (simp add: in_order_def)
next
  case (Moved steps steps')
  then show ?case using moves_in_order [OF Moved(2) assms(2)] by blast
qed

subsection \<open>The names are there\<close>

lemma scope_keeps: "fmlookup sc x \<noteq> None \<Longrightarrow> fmlookup (fold (scope_step eg) steps sc) x \<noteq> None"
  by (induction steps arbitrary: sc) (auto simp: scope_step_def)

lemma scope_has_step:
  "st \<in> set steps \<Longrightarrow> s_status st \<in> {Done, Failed, Skipped} \<Longrightarrow> fmlookup (fold (scope_step eg) steps sc) (s_name st) \<noteq> None"
proof (induction steps arbitrary: sc)
  case (Cons st' steps)
  show ?case
  proof (cases "st = st'")
    case True
    have "fmlookup (scope_step eg st' sc) (s_name st) \<noteq> None" using True Cons.prems(2) by (auto simp: scope_step_def)
    then show ?thesis using scope_keeps by simp
  qed (use Cons in auto)
qed simp

lemma scope_has_run: "x \<in> {''trigger'', ''run''} \<Longrightarrow> fmlookup (scope_of eg run steps) x \<noteq> None"
  unfolding scope_of_def by (rule scope_keeps) (auto simp: run_scope_def)

lemma ancestor_ended:
  assumes "steps_of s steps" and "in_order s (statuses steps)" and "(x, y) \<in> (after_rel s)\<^sup>+"
    and "status_of (statuses steps) x \<in> under_way \<union> {Done, Failed, Skipped}"
  shows "status_of (statuses steps) y \<in> {Done, Failed, Skipped}"
  using assms(3,4)
proof (induction rule: trancl_induct)
  case (base y)
  then show ?case using in_orderD [OF assms(2)] by (auto simp: after_rel_def)
next
  case (step y z)
  then have "status_of (statuses steps) y \<in> {Done, Failed, Skipped}" by blast
  then show ?case using in_orderD [OF assms(2)] step(2) by (auto simp: after_rel_def)
qed

text \<open>What the settings of a node are evaluated in, for one element of its list when it has one.\<close>

definition node_scope :: "node \<Rightarrow> jvalue \<Rightarrow> nat \<Rightarrow> scope \<Rightarrow> scope" where
  "node_scope n item i sc =
     (if n_each n = [] then sc else fmupd ''index'' (JNumber (of_nat i)) (fmupd ''item'' item sc))"

lemma known_allowed:
  assumes "steps_of s steps" and "in_order s (statuses steps)" and "n \<in> set (pl_nodes s)" and "ref_allowed s n r"
    and "status_of (statuses steps) (n_id n) \<in> under_way \<union> {Done, Failed, Skipped}"
  shows "fmlookup (node_scope n item i (scope_of eg run steps)) (rf_root r) \<noteq> None"
proof -
  from assms(4) consider "rf_root r \<in> {''trigger'', ''run''}" | "rf_root r \<in> {''item'', ''index''}" "n_each n \<noteq> []"
    | "rf_root r \<in> n_id ` set (pl_nodes s)" "(n_id n, rf_root r) \<in> (after_rel s)\<^sup>+"
    unfolding ref_allowed_def by blast
  then show ?thesis
  proof cases
    case 1
    then show ?thesis using scope_has_run [OF 1, of eg run steps] by (auto simp: node_scope_def)
  next
    case 2
    then show ?thesis by (auto simp: node_scope_def)
  next
    case 3
    have st: "status_of (statuses steps) (rf_root r) \<in> {Done, Failed, Skipped}" by (rule ancestor_ended [OF assms(1,2) 3(2) assms(5)])
    obtain m where "m \<in> set (pl_nodes s)" "rf_root r = n_id m" using 3(1) by blast
    then obtain st where "st \<in> set steps" "s_name st = rf_root r" using steps_of_id [OF assms(1)] by metis
    moreover from this have "s_status st \<in> {Done, Failed, Skipped}"
      using st status_of_step [of steps st] assms(1) by (simp add: steps_of_def)
    ultimately have "fmlookup (scope_of eg run steps) (rf_root r) \<noteq> None"
      unfolding scope_of_def using scope_has_step by metis
    then show ?thesis by (auto simp: node_scope_def)
  qed
qed

text \<open>C21: A node that runs finds every name its settings mention: whatever the workers, the cancellations and the
  calls of \<open>Next\<close> did to a run of a checked pipeline, evaluating the settings of a node that was queued fails only on
  the values it reads, never on a name that does not parse or that nothing is called by.\<close>

theorem names_resolve:
  assumes "run_reached eg run s steps" and "eg_spec_of eg (r_spec run) = Inr s" and "st \<in> set steps"
    and "s_status st \<in> under_way \<union> {Done, Failed, Skipped}" and "find_node s (s_name st) = Some n"
    and "eval (eg_render eg) (node_scope n item i (scope_of eg run steps)) (JObject (n_with n)) = Inl err"
  shows "value_error err"
proof -
  have r: "steps_of s steps" "in_order s (statuses steps)" using reached_in_order [OF assms(1,2)] by simp_all
  note n = steps_of_deps [OF r(1) assms(5)]
  have "status_of (statuses steps) (n_id n) \<in> under_way \<union> {Done, Failed, Skipped}"
    using status_of_step [of steps st] r(1) assms(3,4) n(2) by (simp add: steps_of_def)
  note known = known_allowed [OF r n(1) _ this]
  obtain rs where rs: "node_refs n = Inr rs" "\<forall>r\<in>set rs. ref_allowed s n r"
    using accepted_iff [of s] r(1) n(1) unfolding steps_of_def by blast
  obtain rs1 rs2 where with_refs: "refsIn (JObject (n_with n)) = Inr rs1" "rs = rs1 @ rs2"
    using rs(1) by (auto simp: node_refs_def split: sum.splits)
  then have "known_refs (node_scope n item i (scope_of eg run steps)) rs1"
    using rs(2) known by (simp add: known_refs_def list_all_iff)
  from eval_error(1) [OF with_refs(1) this assms(6)] show ?thesis .
qed

end
