(* ===== verification/PipeSample.thy ===== *)
theory PipeSample
  imports PipeScope
begin

text \<open>
  A pipeline of two nodes, parsed, submitted and run: the theorems on pipelines at a concrete input.
\<close>

subsection \<open>A pipeline of two nodes\<close>

definition sample_raw :: raw_spec where
  "sample_raw =
     \<lparr>rs_trigger = \<lparr>rt_on = [], rt_kinds = [], rt_folder = [], rt_every = [], rt_match = [], rt_batch = False, rt_take = None, rt_skip = [],
        rt_status = [], rt_pipelines = [], rt_resource = [], rt_queued = 0, rt_waited = [], rt_team = [], rt_roles = [], rt_events = [],
        rt_coordinator = None\<rparr>,
      rs_nodes = NodeList (Some
        [\<lparr>rn_id = ''fetch'', rn_use = ''note.read'', rn_with = [(''path'', JString ''{{ trigger.file }}'')], rn_after = None, rn_when = [],
           rn_unless = [], rn_each = [], rn_retry = None, rn_timeout = [], rn_on_error = []\<rparr>,
         \<lparr>rn_id = ''save'', rn_use = ''note.write'', rn_with = [(''text'', JString ''{{ fetch.text }}'')], rn_after = None, rn_when = [],
           rn_unless = [], rn_each = [], rn_retry = Some (3, []), rn_timeout = [], rn_on_error = ''continue''\<rparr>]),
      rs_answer = ''save'', rs_priority = [], rs_category = []\<rparr>"

definition sample_env :: parse_env where
  "sample_env = \<lparr>pe_types = None, pe_duration = (\<lambda>_. None), pe_glob = (\<lambda>_. True)\<rparr>"

definition sample_spec :: spec where
  "sample_spec =
     \<lparr>pl_trigger = \<lparr>tg_on = ''manual'', tg_kinds = [], tg_folder = [], tg_match = [], tg_batch = False, tg_leave = False, tg_skip = [],
        tg_every = [], tg_schedule = None, tg_status = [], tg_pipelines = [], tg_resource = [], tg_queued = 0, tg_waited = 0, tg_team = [],
        tg_roles = [], tg_events = [], tg_coordinator = None\<rparr>,
      pl_nodes =
        [\<lparr>n_id = ''fetch'', n_use = ''note.read'', n_with = [(''path'', JString ''{{ trigger.file }}'')], n_after = [], n_when = [],
           n_unless = [], n_each = [], n_retry = \<lparr>re_attempts = 1, re_backoff = 0\<rparr>, n_timeout = 5 * minute, n_on_error = ''stop''\<rparr>,
         \<lparr>n_id = ''save'', n_use = ''note.write'', n_with = [(''text'', JString ''{{ fetch.text }}'')], n_after = [''fetch''], n_when = [],
           n_unless = [], n_each = [], n_retry = \<lparr>re_attempts = 3, re_backoff = 10 * second\<rparr>, n_timeout = 5 * minute, n_on_error = ''continue''\<rparr>],
      pl_answer = ''save'', pl_priority = [], pl_category = []\<rparr>"

lemma sample_parses: "Parse (\<lambda>_. Some sample_raw) sample_env ''x'' = Inr sample_spec"
  by code_simp

lemma Parse_well_formed_witness: "spec_ok sample_spec"
  by (rule Parse_well_formed [OF sample_parses])

lemma sample_ids: "map n_id (pl_nodes sample_spec) = [''fetch'', ''save'']"
  by (simp add: sample_spec_def)

lemma sample_check: "check_spec sample_spec = Inr ()"
  by code_simp

lemma check_spec_iff_witness: "acyclic (after_rel sample_spec)"
  using check_spec_iff [of sample_spec] sample_check by (simp add: sample_ids)

subsection \<open>A run of it\<close>

text \<open>The first node is done, the second one waits for it.\<close>

definition sample_engine :: engine where
  "sample_engine =
     \<lparr>eg_quote = (\<lambda>x. x), eg_number = (\<lambda>_. ''0''), eg_to_json = (\<lambda>_. []), eg_parse_json = (\<lambda>_. Some (JList [])), eg_note_time = (\<lambda>_. []),
      eg_public_url = [], eg_spec_of = (\<lambda>_. Inr sample_spec), eg_base_types = [''note.read'', ''note.write''], eg_contract = None,
      eg_ext_resources = None, eg_providers = [], eg_executor = (\<lambda>_. [])\<rparr>"

definition pipe_db :: "status \<Rightarrow> status \<Rightarrow> jobs" where
  "pipe_db x y = open_jobs\<lparr>
     jd_runs := [(sample_run ''a'' ''p'' 0 20)\<lparr>r_status := Running\<rparr>],
     jd_steps := [sample_row ''a'' ''fetch'' 0 x [], sample_row ''a'' ''save'' 1 y []]\<rparr>"

definition pipe_run :: run where
  "pipe_run = scanRun ((sample_run ''a'' ''p'' 0 20)\<lparr>r_status := Running\<rparr>)"

lemma pipe_db_run: "Run ''a'' (pipe_db x y) = Inr pipe_run"
  by (simp add: Run_def find_run_def pipe_db_def pipe_run_def sample_run_def open_jobs_def)

lemma pipe_db_steps: "Steps ''a'' (pipe_db x y) = [scanStep (sample_row ''a'' ''fetch'' 0 x []), scanStep (sample_row ''a'' ''save'' 1 y [])]"
  by (simp add: Steps_def pipe_db_def sample_row_def open_jobs_def)

lemma pipe_db_status: "map (\<lambda>st. (s_name st, s_status st)) (Steps ''a'' (pipe_db x y)) = [(''fetch'', x), (''save'', y)]"
  by (simp add: pipe_db_steps scanStep_def sample_row_def)

lemma pipe_db_steps_of: "steps_of sample_spec (Steps ''a'' (pipe_db x y))"
  by (simp add: steps_of_def sample_ids sample_check pipe_db_steps scanStep_def sample_row_def)

lemma sample_engine_spec: "eg_spec_of sample_engine x = Inr sample_spec"
  by (simp add: sample_engine_def)

lemma next_gives_each_its_fate_witness:
  "\<exists>n. find_node sample_spec ''save'' = Some n \<and>
     (let after = statuses (applied (Steps ''a'' (pipe_db Done Pending)) (fst (engine_next sample_engine 5 pipe_run (Steps ''a'' (pipe_db Done Pending)))))
      in fate sample_spec after n (status_of after ''save''))"
proof -
  let ?steps = "Steps ''a'' (pipe_db Done Pending)" and ?st = "scanStep (sample_row ''a'' ''save'' 1 Pending [])"
  have st: "?st \<in> set ?steps" by (simp add: pipe_db_steps)
  have "s_name ?st = ''save''" "s_status ?st = Pending" by (simp_all add: scanStep_def sample_row_def)
  with next_gives_each_its_fate [where now = 5 and run = pipe_run, OF sample_engine_spec pipe_db_steps_of prod.collapse [symmetric] st]
  show ?thesis by (simp add: Let_def)
qed

lemma pipeline_run_ends_witness:
  "let d = snd (advance (\<lambda>_. (0, 0)) (fmupd ''pipeline'' (engine_next sample_engine 5) fmempty) 5 ''a'' (pipe_db Failed Pending))
   in \<exists>run'. Run ''a'' d = Inr run' \<and>
        (list_ex (\<lambda>st. s_status st \<in> {Queued, Running, Waiting}) (Steps ''a'' d) \<or> r_status run' \<in> {Done, Failed})"
proof -
  have kind: "r_kind pipe_run = ''pipeline''" "\<not> Terminal (r_status pipe_run)"
    by (simp_all add: pipe_run_def scanRun_def sample_run_def Terminal_def)
  have known: "list_all known_status (Steps ''a'' (pipe_db Failed Pending))"
    by (simp add: pipe_db_steps known_status_def scanStep_def sample_row_def)
  let ?execs = "fmupd ''pipeline'' (engine_next sample_engine 5) fmempty"
  have "fmlookup ?execs (r_kind pipe_run) = Some (engine_next sample_engine 5)" by (simp add: kind(1))
  from pipeline_run_ends [where cost_of = "\<lambda>_. (0, 0)" and now = 5,
      OF pipe_db_run kind(2) this sample_engine_spec pipe_db_steps_of known prod.collapse [symmetric]]
  show ?thesis by (auto simp: Let_def split: if_splits)
qed

text \<open>The first node done with a list: the text the second one asks of it is not an index.\<close>

definition sample_asked :: "step list \<Rightarrow> step list" where
  "sample_asked steps = applied steps (fst (engine_next sample_engine 5 pipe_run steps))"

definition sample_done :: "step list" where
  "sample_done = map (move_step ''fetch'' Done ''[]'') (sample_asked (Steps ''a'' (pipe_db Pending Pending)))"

lemma sample_statuses:
  "map (\<lambda>st. (s_name st, s_status st)) (sample_asked (Steps ''a'' (pipe_db Pending Pending))) = [(''fetch'', Queued), (''save'', Pending)]"
  "map (\<lambda>st. (s_name st, s_status st)) (sample_asked sample_done) = [(''fetch'', Done), (''save'', Queued)]"
  by code_simp+

lemma sample_reached: "run_reached sample_engine pipe_run sample_spec (sample_asked sample_done)"
proof -
  let ?s = "Steps ''a'' (pipe_db Pending Pending)"
  have "run_reached sample_engine pipe_run sample_spec ?s"
    by (rule run_reached.Submitted [OF pipe_db_steps_of]) (simp add: pipe_db_steps scanStep_def sample_row_def)
  from run_reached.Moved [OF this run_moves.Asked [OF prod.collapse [symmetric]]]
  have asked: "run_reached sample_engine pipe_run sample_spec (sample_asked ?s)" by (simp add: sample_asked_def)
  obtain st where "st \<in> set (sample_asked ?s)" "s_name st = ''fetch''" "s_status st = Queued"
    using sample_statuses(1) by (auto intro: that simp: map_eq_Cons_conv)
  with run_moves.Worked [of st "sample_asked ?s" Done] have "run_moves sample_engine pipe_run (sample_asked ?s) sample_done"
    by (simp add: sample_done_def)
  from run_reached.Moved [OF run_reached.Moved [OF asked this] run_moves.Asked [OF prod.collapse [symmetric]]]
  show ?thesis by (simp add: sample_asked_def)
qed

lemma sample_reads:
  "(case find_node sample_spec ''save'' of None \<Rightarrow> False
    | Some n \<Rightarrow> eval (eg_render sample_engine) (node_scope n JNull 0 (scope_of sample_engine pipe_run (sample_asked sample_done))) (JObject (n_with n))
        = Inl (NotIndex \<lparr>rf_root = ''fetch'', rf_path = [''text'']\<rparr> ''text''))"
  by code_simp

lemma names_resolve_witness: "value_error (NotIndex \<lparr>rf_root = ''fetch'', rf_path = [''text'']\<rparr> ''text'')"
proof -
  obtain st where st: "st \<in> set (sample_asked sample_done)" "s_name st = ''save''" "s_status st = Queued"
    using sample_statuses(2) by (auto intro: that simp: map_eq_Cons_conv)
  obtain n where n: "find_node sample_spec (s_name st) = Some n"
    "eval (eg_render sample_engine) (node_scope n JNull 0 (scope_of sample_engine pipe_run (sample_asked sample_done))) (JObject (n_with n))
      = Inl (NotIndex \<lparr>rf_root = ''fetch'', rf_path = [''text'']\<rparr> ''text'')"
    using sample_reads st(2) by (auto split: option.splits)
  show ?thesis by (rule names_resolve [OF sample_reached sample_engine_spec st(1) _ n]) (simp add: st(3))
qed

end
