(* ===== verification/EventHub.thy ===== *)
theory EventHub
  imports GoStrings "HOL-Library.Sublist"
begin

text \<open>
  The event hub (\<open>internal/server/events/hub.go\<close>): publishers number an event, keep it in a ring of
  the last ones, and offer it to every subscriber, whose full queue loses its oldest event first.

  The critical sections are the steps of \<open>hub_step\<close>: a publish, which holds \<open>pubMu\<close>, takes several, and
  the other calls come in between where the locks let them. The ghost fields of \<open>hub_sys\<close> keep what
  was published and what each subscriber took. A sequence number is a natural number (2 to the 64
  publishes do not happen).
\<close>

subsection \<open>The hub\<close>

record event =
  ev_id :: string
  ev_seq :: nat
  ev_topic :: string
  ev_time :: time
  ev_data :: string

text \<open>A subscription: its topics, its channel (the events in it, whether it is closed), whether it knows its hub.\<close>

record subscription =
  sb_topics :: "string list"
  sb_queue :: "event list"
  sb_closed :: bool
  sb_hub :: bool

definition no_sub :: subscription where
  "no_sub = \<lparr>sb_topics = [], sb_queue = [], sb_closed = False, sb_hub = False\<rparr>"

text \<open>The subscriptions made are \<open>hb_made\<close>, those registered \<open>hb_subs\<close>.\<close>

record hub =
  hb_made :: "(nat, subscription) fmap"
  hb_subs :: "nat fset"
  hb_closed :: bool
  hb_buf_len :: nat
  hb_seq :: nat
  hb_ring :: "event list"
  hb_ring_cap :: nat

definition NewHub :: "int \<Rightarrow> int \<Rightarrow> hub" where
  "NewHub buf_len ring_len =
     \<lparr>hb_made = fmempty, hb_subs = {||}, hb_closed = False, hb_buf_len = (if buf_len \<le> 0 then 32 else nat buf_len),
      hb_seq = 0, hb_ring = [], hb_ring_cap = (if ring_len \<le> 0 then 256 else nat ring_len)\<rparr>"

definition sub_at :: "hub \<Rightarrow> nat \<Rightarrow> subscription" where
  "sub_at h i = fm_get no_sub (hb_made h) i"

definition on_sub :: "nat \<Rightarrow> (subscription \<Rightarrow> subscription) \<Rightarrow> hub \<Rightarrow> hub" where
  "on_sub i f h = h\<lparr>hb_made := fmupd i (f (sub_at h i)) (hb_made h)\<rparr>"

subsection \<open>Subscribing\<close>

definition Subscribe :: "nat \<Rightarrow> string list \<Rightarrow> hub \<Rightarrow> hub" where
  "Subscribe i topics h =
     (if hb_closed h
      then on_sub i (\<lambda>_. \<lparr>sb_topics = topics, sb_queue = [], sb_closed = True, sb_hub = False\<rparr>) h
      else (on_sub i (\<lambda>_. \<lparr>sb_topics = topics, sb_queue = [], sb_closed = False, sb_hub = True\<rparr>) h)\<lparr>hb_subs := finsert i (hb_subs h)\<rparr>)"

text \<open>\<open>unsubscribe\<close> takes the subscription off the map under the lock, then closes its channel; closing a
  closed channel panics (\<open>None\<close>).\<close>

definition unregister :: "nat \<Rightarrow> hub \<Rightarrow> bool \<times> hub" where
  "unregister i h = (if i |\<in>| hb_subs h then (True, h\<lparr>hb_subs := hb_subs h |-| {|i|}\<rparr>) else (False, h))"

definition close_channel :: "nat \<Rightarrow> hub \<Rightarrow> hub option" where
  "close_channel i h = (if sb_closed (sub_at h i) then None else Some (on_sub i (sb_closed_update (\<lambda>_. True)) h))"

definition unsubscribe :: "nat \<Rightarrow> hub \<Rightarrow> hub option" where
  "unsubscribe i h = (let (found, h') = unregister i h in if found then close_channel i h' else Some h')"

definition Unsubscribe :: "nat \<Rightarrow> hub \<Rightarrow> hub option" where
  "Unsubscribe i h =
     (if \<not> sb_hub (sub_at h i) then Some h
      else map_option (on_sub i (sb_hub_update (\<lambda>_. False))) (unsubscribe i h))"

fun unsubscribe_all :: "nat list \<Rightarrow> hub \<Rightarrow> hub option" where
  "unsubscribe_all [] h = Some h"
| "unsubscribe_all (i # is) h = (case unsubscribe i h of None \<Rightarrow> None | Some h' \<Rightarrow> unsubscribe_all is h')"

definition mark_closed :: "hub \<Rightarrow> hub" where "mark_closed h = h\<lparr>hb_closed := True\<rparr>"

definition Close :: "hub \<Rightarrow> hub option" where
  "Close h = unsubscribe_all (sorted_list_of_fset (hb_subs h)) (mark_closed h)"

definition SubCount :: "hub \<Rightarrow> nat" where "SubCount h = size (hb_subs h)"

subsection \<open>Publishing\<close>

definition topicIn :: "string \<Rightarrow> string list \<Rightarrow> bool" where "topicIn t topics = List.member topics t"

definition subscriptionMatches :: "subscription \<Rightarrow> string \<Rightarrow> bool" where
  "subscriptionMatches sub topic \<longleftrightarrow> sb_topics sub = [] \<or> List.member (sb_topics sub) topic"

definition next_event :: "string \<Rightarrow> time \<Rightarrow> string \<Rightarrow> hub \<Rightarrow> event \<times> hub" where
  "next_event topic now payload h =
     (let n = hb_seq h + 1 in
      (\<lparr>ev_id = show_nat n, ev_seq = n, ev_topic = topic, ev_time = now, ev_data = payload\<rparr>, h\<lparr>hb_seq := n\<rparr>))"

definition ring_push :: "event \<Rightarrow> hub \<Rightarrow> hub" where
  "ring_push ev h =
     (if length (hb_ring h) \<ge> hb_ring_cap h then h\<lparr>hb_ring := tl (hb_ring h) @ [ev]\<rparr>
      else h\<lparr>hb_ring := hb_ring h @ [ev]\<rparr>)"

text \<open>A send that does not wait: \<open>None\<close> is the panic of a send on a closed channel, \<open>False\<close> a full one.\<close>

definition send :: "nat \<Rightarrow> event \<Rightarrow> hub \<Rightarrow> (bool \<times> hub) option" where
  "send i ev h =
     (if sb_closed (sub_at h i) then None
      else if length (sb_queue (sub_at h i)) < hb_buf_len h
      then Some (True, on_sub i (sb_queue_update (\<lambda>q. q @ [ev])) h)
      else Some (False, h))"

definition drop_oldest :: "nat \<Rightarrow> hub \<Rightarrow> hub" where
  "drop_oldest i h = on_sub i (sb_queue_update tl) h"

definition deliver :: "event \<Rightarrow> nat \<Rightarrow> hub \<Rightarrow> hub option" where
  "deliver ev i h =
     (if \<not> subscriptionMatches (sub_at h i) (ev_topic ev) then Some h
      else case send i ev h of
             None \<Rightarrow> None
           | Some (True, h') \<Rightarrow> Some h'
           | Some (False, h') \<Rightarrow> map_option snd (send i ev (drop_oldest i h')))"

fun deliver_all :: "event \<Rightarrow> nat list \<Rightarrow> hub \<Rightarrow> hub option" where
  "deliver_all ev [] h = Some h"
| "deliver_all ev (i # is) h = (case deliver ev i h of None \<Rightarrow> None | Some h' \<Rightarrow> deliver_all ev is h')"

text \<open>\<open>payload\<close> is what \<open>json.Marshal\<close> gives; without one nothing is published.\<close>

definition Publish :: "string \<Rightarrow> time \<Rightarrow> string option \<Rightarrow> hub \<Rightarrow> hub option" where
  "Publish topic now payload h =
     (case payload of
        None \<Rightarrow> Some h
      | Some data \<Rightarrow>
          let (ev, h') = next_event topic now data h in
          deliver_all ev (sorted_list_of_fset (hb_subs h')) (ring_push ev h'))"

definition receive :: "nat \<Rightarrow> hub \<Rightarrow> (event \<times> hub) option" where
  "receive i h =
     (case sb_queue (sub_at h i) of
        [] \<Rightarrow> None
      | ev # q \<Rightarrow> Some (ev, on_sub i (sb_queue_update (\<lambda>_. q)) h))"

subsection \<open>Replaying\<close>

definition Seq :: "hub \<Rightarrow> nat" where "Seq h = hb_seq h"

definition ReplaySince :: "nat \<Rightarrow> string list \<Rightarrow> hub \<Rightarrow> event list \<times> bool" where
  "ReplaySince cursor topics h =
     (if cursor > hb_seq h then ([], True)
      else
        let oldest = (case hb_ring h of [] \<Rightarrow> hb_seq h + 1 | ev # _ \<Rightarrow> ev_seq ev);
            resync = (cursor < hb_seq h \<and> cursor + 1 < oldest)
        in (filter (\<lambda>ev. ev_seq ev > cursor \<and> (topics = [] \<or> topicIn (ev_topic ev) topics)) (hb_ring h), resync))"

end
