(* ===== verification/HubSteps.thy ===== *)
theory HubSteps
  imports EventHub
begin

text \<open>
  The hub under concurrent publishers, subscribers and a shutdown: \<open>hub_step\<close> is one critical
  section, \<open>hub_reachable\<close> what any interleaving of them leads to, with the invariants of it.
\<close>

subsection \<open>Frames\<close>

definition made :: "hub \<Rightarrow> nat \<Rightarrow> bool" where "made h i \<longleftrightarrow> i |\<in>| fmdom (hb_made h)"

lemma sub_at_on_sub [simp]: "sub_at (on_sub i f h) j = (if j = i then f (sub_at h i) else sub_at h j)"
  by (simp add: sub_at_def on_sub_def)

lemma on_sub_fields [simp]:
  "hb_subs (on_sub i f h) = hb_subs h" "hb_closed (on_sub i f h) = hb_closed h" "hb_buf_len (on_sub i f h) = hb_buf_len h"
  "hb_seq (on_sub i f h) = hb_seq h" "hb_ring (on_sub i f h) = hb_ring h" "hb_ring_cap (on_sub i f h) = hb_ring_cap h"
  "made (on_sub i f h) j \<longleftrightarrow> j = i \<or> made h j"
  by (auto simp: on_sub_def made_def)

lemma sub_at_other [simp]:
  "sub_at (h\<lparr>hb_subs := S\<rparr>) i = sub_at h i" "sub_at (h\<lparr>hb_closed := b\<rparr>) i = sub_at h i"
  "sub_at (h\<lparr>hb_seq := n\<rparr>) i = sub_at h i" "sub_at (h\<lparr>hb_ring := r\<rparr>) i = sub_at h i"
  "made (h\<lparr>hb_subs := S\<rparr>) i \<longleftrightarrow> made h i" "made (h\<lparr>hb_closed := b\<rparr>) i \<longleftrightarrow> made h i" "made (h\<lparr>hb_seq := n\<rparr>) i \<longleftrightarrow> made h i"
  by (simp_all add: sub_at_def made_def)

lemma ring_push_fields [simp]:
  "hb_made (ring_push ev h) = hb_made h" "hb_subs (ring_push ev h) = hb_subs h" "hb_closed (ring_push ev h) = hb_closed h"
  "hb_buf_len (ring_push ev h) = hb_buf_len h" "hb_seq (ring_push ev h) = hb_seq h" "hb_ring_cap (ring_push ev h) = hb_ring_cap h"
  "sub_at (ring_push ev h) i = sub_at h i" "made (ring_push ev h) i \<longleftrightarrow> made h i"
  by (simp_all add: ring_push_def sub_at_def made_def)

subsection \<open>Steps\<close>

text \<open>Where the publish under \<open>pubMu\<close> is: the event numbered, in the ring, offered to the subscriptions
  that are left, found full by one, or with one's oldest event dropped.\<close>

datatype publisher =
    NoPublish
  | Numbered event
  | Kept event
  | Offering event "nat fset"
  | FoundFull event nat "nat fset"
  | Dropped event nat "nat fset"

fun offering :: "publisher \<Rightarrow> bool" where
  "offering (Offering ev S) = True"
| "offering (FoundFull ev i S) = True"
| "offering (Dropped ev i S) = True"
| "offering _ = False"

text \<open>The ghost fields: the events kept in the ring so far and those offered so far; and of each
  subscription, how many events had been offered when it was made, the events it was offered, what it
  took off its channel, and how many it lost.\<close>

record hub_sys =
  hs_hub :: hub
  hs_pub :: publisher
  hs_closing :: "nat fset"
  hs_kept :: "event list"
  hs_offered :: "event list"
  hs_from :: "nat \<Rightarrow> nat"
  hs_due :: "nat \<Rightarrow> event list"
  hs_got :: "nat \<Rightarrow> event list"
  hs_lost :: "nat \<Rightarrow> nat"

definition new_hub_sys :: "int \<Rightarrow> int \<Rightarrow> hub_sys" where
  "new_hub_sys buf_len ring_len =
     \<lparr>hs_hub = NewHub buf_len ring_len, hs_pub = NoPublish, hs_closing = {||}, hs_kept = [], hs_offered = [],
      hs_from = (\<lambda>_. 0), hs_due = (\<lambda>_. []), hs_got = (\<lambda>_. []), hs_lost = (\<lambda>_. 0)\<rparr>"

definition add_due :: "event \<Rightarrow> hub \<Rightarrow> (nat \<Rightarrow> event list) \<Rightarrow> nat \<Rightarrow> event list" where
  "add_due ev h due i =
     (if i |\<in>| hb_subs h \<and> subscriptionMatches (sub_at h i) (ev_topic ev) then due i @ [ev] else due i)"

inductive hub_step :: "hub_sys \<Rightarrow> hub_sys \<Rightarrow> bool" where
  Subscribed: "\<not> offering (hs_pub s) \<Longrightarrow> \<not> made (hs_hub s) i \<Longrightarrow>
    hub_step s (s\<lparr>hs_hub := Subscribe i topics (hs_hub s), hs_from := (hs_from s)(i := length (hs_offered s))\<rparr>)"
| Unregistered: "\<not> offering (hs_pub s) \<Longrightarrow> unregister i (hs_hub s) = (True, h') \<Longrightarrow>
    hub_step s (s\<lparr>hs_hub := h', hs_closing := finsert i (hs_closing s)\<rparr>)"
| ChannelClosed: "i |\<in>| hs_closing s \<Longrightarrow> close_channel i (hs_hub s) = Some h' \<Longrightarrow>
    hub_step s (s\<lparr>hs_hub := h', hs_closing := hs_closing s |-| {|i|}\<rparr>)"
| Forgotten: "made (hs_hub s) i \<Longrightarrow> hub_step s (s\<lparr>hs_hub := on_sub i (sb_hub_update (\<lambda>_. False)) (hs_hub s)\<rparr>)"
| ShutDown: "\<not> offering (hs_pub s) \<Longrightarrow> hub_step s (s\<lparr>hs_hub := mark_closed (hs_hub s)\<rparr>)"
| PublishNumber: "hs_pub s = NoPublish \<Longrightarrow> next_event topic now payload (hs_hub s) = (ev, h') \<Longrightarrow>
    hub_step s (s\<lparr>hs_hub := h', hs_pub := Numbered ev\<rparr>)"
| PublishKeep: "hs_pub s = Numbered ev \<Longrightarrow>
    hub_step s (s\<lparr>hs_hub := ring_push ev (hs_hub s), hs_pub := Kept ev, hs_kept := hs_kept s @ [ev]\<rparr>)"
| PublishOffer: "hs_pub s = Kept ev \<Longrightarrow>
    hub_step s (s\<lparr>hs_pub := Offering ev (hb_subs (hs_hub s)), hs_offered := hs_offered s @ [ev],
      hs_due := add_due ev (hs_hub s) (hs_due s)\<rparr>)"
| OtherTopic: "hs_pub s = Offering ev S \<Longrightarrow> i |\<in>| S \<Longrightarrow> \<not> subscriptionMatches (sub_at (hs_hub s) i) (ev_topic ev) \<Longrightarrow>
    hub_step s (s\<lparr>hs_pub := Offering ev (S |-| {|i|})\<rparr>)"
| Sent: "hs_pub s = Offering ev S \<Longrightarrow> i |\<in>| S \<Longrightarrow> subscriptionMatches (sub_at (hs_hub s) i) (ev_topic ev) \<Longrightarrow>
    send i ev (hs_hub s) = Some (True, h') \<Longrightarrow>
    hub_step s (s\<lparr>hs_hub := h', hs_pub := Offering ev (S |-| {|i|})\<rparr>)"
| WasFull: "hs_pub s = Offering ev S \<Longrightarrow> i |\<in>| S \<Longrightarrow> subscriptionMatches (sub_at (hs_hub s) i) (ev_topic ev) \<Longrightarrow>
    send i ev (hs_hub s) = Some (False, h') \<Longrightarrow>
    hub_step s (s\<lparr>hs_hub := h', hs_pub := FoundFull ev i S\<rparr>)"
| OldestDropped: "hs_pub s = FoundFull ev i S \<Longrightarrow>
    hub_step s (s\<lparr>hs_hub := drop_oldest i (hs_hub s), hs_pub := Dropped ev i S,
      hs_lost := (hs_lost s)(i := hs_lost s i + (if sb_queue (sub_at (hs_hub s) i) = [] then 0 else 1))\<rparr>)"
| SentAfterDrop: "hs_pub s = Dropped ev i S \<Longrightarrow> send i ev (hs_hub s) = Some (True, h') \<Longrightarrow>
    hub_step s (s\<lparr>hs_hub := h', hs_pub := Offering ev (S |-| {|i|})\<rparr>)"
| StillFull: "hs_pub s = Dropped ev i S \<Longrightarrow> send i ev (hs_hub s) = Some (False, h') \<Longrightarrow>
    hub_step s (s\<lparr>hs_hub := h', hs_pub := Offering ev (S |-| {|i|}), hs_lost := (hs_lost s)(i := hs_lost s i + 1)\<rparr>)"
| Published: "hs_pub s = Offering ev {||} \<Longrightarrow> hub_step s (s\<lparr>hs_pub := NoPublish\<rparr>)"
| Received: "receive i (hs_hub s) = Some (ev, h') \<Longrightarrow>
    hub_step s (s\<lparr>hs_hub := h', hs_got := (hs_got s)(i := hs_got s i @ [ev])\<rparr>)"

inductive hub_reachable :: "int \<Rightarrow> int \<Rightarrow> hub_sys \<Rightarrow> bool" for buf_len ring_len where
  New: "hub_reachable buf_len ring_len (new_hub_sys buf_len ring_len)"
| Step: "hub_reachable buf_len ring_len s \<Longrightarrow> hub_step s s' \<Longrightarrow> hub_reachable buf_len ring_len s'"

subsection \<open>What was published\<close>

fun numbered_ok :: "publisher \<Rightarrow> event list \<Rightarrow> nat \<Rightarrow> bool" where
  "numbered_ok (Numbered ev) kept n \<longleftrightarrow> ev_seq ev = length kept + 1 \<and> n = length kept + 1"
| "numbered_ok _ kept n \<longleftrightarrow> n = length kept"

fun not_offered :: "publisher \<Rightarrow> event list" where
  "not_offered (Kept ev) = [ev]"
| "not_offered _ = []"

definition history_ok :: "hub_sys \<Rightarrow> bool" where
  "history_ok s \<longleftrightarrow>
     map ev_seq (hs_kept s) = map Suc [0..<length (hs_kept s)] \<and>
     numbered_ok (hs_pub s) (hs_kept s) (hb_seq (hs_hub s)) \<and>
     hb_ring_cap (hs_hub s) > 0 \<and>
     hb_ring (hs_hub s) = drop (length (hs_kept s) - hb_ring_cap (hs_hub s)) (hs_kept s) \<and>
     hs_kept s = hs_offered s @ not_offered (hs_pub s)"

lemma history_seqs: "history_ok s \<Longrightarrow> map ev_seq (hs_kept s) = map Suc [0..<length (hs_kept s)]"
  unfolding history_ok_def by (rule conjunct1)

lemma ring_push_drop:
  assumes "hb_ring h = drop (length xs - hb_ring_cap h) xs" and "hb_ring_cap h > 0"
  shows "hb_ring (ring_push ev h) = drop (length (xs @ [ev]) - hb_ring_cap h) (xs @ [ev])"
proof (cases "hb_ring_cap h \<le> length xs")
  case True
  then have len: "length (hb_ring h) = hb_ring_cap h" by (simp add: assms(1))
  have "tl (hb_ring h) = drop (Suc (length xs - hb_ring_cap h)) xs"
    unfolding assms(1) by (simp add: tl_drop drop_Suc)
  then show ?thesis using True len assms(2) by (simp add: ring_push_def Suc_diff_le)
next
  case False
  then show ?thesis using assms by (simp add: ring_push_def)
qed

lemma hub_fields [simp]:
  "hb_seq (Subscribe i topics h) = hb_seq h" "hb_ring (Subscribe i topics h) = hb_ring h"
  "hb_ring_cap (Subscribe i topics h) = hb_ring_cap h" "hb_buf_len (Subscribe i topics h) = hb_buf_len h"
  "hb_seq (mark_closed h) = hb_seq h" "hb_ring (mark_closed h) = hb_ring h" "hb_ring_cap (mark_closed h) = hb_ring_cap h"
  "hb_buf_len (mark_closed h) = hb_buf_len h" "hb_subs (mark_closed h) = hb_subs h" "sub_at (mark_closed h) j = sub_at h j" "made (mark_closed h) j \<longleftrightarrow> made h j"
  "hb_seq (drop_oldest i h) = hb_seq h" "hb_ring (drop_oldest i h) = hb_ring h" "hb_ring_cap (drop_oldest i h) = hb_ring_cap h"
  "hb_buf_len (drop_oldest i h) = hb_buf_len h" "hb_subs (drop_oldest i h) = hb_subs h"
  by (simp_all add: Subscribe_def mark_closed_def drop_oldest_def)

lemma send_cases:
  assumes "send i ev h = Some (b, h')"
  shows "\<not> sb_closed (sub_at h i)" and
    "h' = (if b then on_sub i (sb_queue_update (\<lambda>q. q @ [ev])) h else h)" and
    "b \<longleftrightarrow> length (sb_queue (sub_at h i)) < hb_buf_len h"
  using assms by (auto simp: send_def split: if_splits)

lemma unregister_True: "unregister i h = (True, h') \<longleftrightarrow> i |\<in>| hb_subs h \<and> h' = h\<lparr>hb_subs := hb_subs h |-| {|i|}\<rparr>"
  by (auto simp: unregister_def)

lemma close_channel_Some:
  "close_channel i h = Some h' \<longleftrightarrow> \<not> sb_closed (sub_at h i) \<and> h' = on_sub i (sb_closed_update (\<lambda>_. True)) h"
  by (auto simp: close_channel_def)

lemma receive_Some:
  "receive i h = Some (ev, h') \<longleftrightarrow> (\<exists>q. sb_queue (sub_at h i) = ev # q \<and> h' = on_sub i (sb_queue_update (\<lambda>_. q)) h)"
  by (auto simp: receive_def split: list.splits)

lemma next_event_eq:
  "next_event topic now payload h = (ev, h') \<longleftrightarrow>
     ev = \<lparr>ev_id = show_nat (hb_seq h + 1), ev_seq = hb_seq h + 1, ev_topic = topic, ev_time = now, ev_data = payload\<rparr> \<and>
     h' = h\<lparr>hb_seq := hb_seq h + 1\<rparr>"
  by (auto simp: next_event_def Let_def)

lemma history_new: "history_ok (new_hub_sys buf_len ring_len)"
  by (simp add: history_ok_def new_hub_sys_def NewHub_def)

lemma history_step: "hub_step s s' \<Longrightarrow> history_ok s \<Longrightarrow> history_ok s'"
proof (induction rule: hub_step.induct)
  case (PublishKeep s ev)
  then have h: "map ev_seq (hs_kept s) = map Suc [0..<length (hs_kept s)]" "ev_seq ev = length (hs_kept s) + 1"
    "hb_seq (hs_hub s) = length (hs_kept s) + 1" "hb_ring_cap (hs_hub s) > 0"
    "hb_ring (hs_hub s) = drop (length (hs_kept s) - hb_ring_cap (hs_hub s)) (hs_kept s)"
    by (auto simp: history_ok_def)
  moreover have "hs_kept s = hs_offered s" using PublishKeep by (simp add: history_ok_def)
  moreover from h have "map ev_seq (hs_kept s @ [ev]) = map Suc [0..<length (hs_kept s @ [ev])]" by simp
  ultimately show ?case using ring_push_drop [OF h(5,4), of ev] by (simp add: history_ok_def)
next
  case (Unregistered s i h')
  then show ?case by (auto simp: history_ok_def unregister_True)
next
  case (PublishNumber s topic now payload ev h')
  then show ?case by (auto simp: history_ok_def next_event_eq)
qed (auto simp: history_ok_def close_channel_Some receive_Some dest!: send_cases(2))

lemma history_reachable: "hub_reachable buf_len ring_len s \<Longrightarrow> history_ok s"
  by (induction rule: hub_reachable.induct) (blast intro: history_new history_step)+

subsection \<open>Who is offered an event\<close>

fun targets :: "publisher \<Rightarrow> nat fset" where
  "targets (Offering ev S) = S"
| "targets (FoundFull ev i S) = finsert i S"
| "targets (Dropped ev i S) = finsert i S"
| "targets _ = {||}"

fun room_made :: "publisher \<Rightarrow> hub \<Rightarrow> bool" where
  "room_made (Dropped ev i S) h \<longleftrightarrow> length (sb_queue (sub_at h i)) < hb_buf_len h"
| "room_made _ h \<longleftrightarrow> True"

definition channels_ok :: "hub_sys \<Rightarrow> bool" where
  "channels_ok s \<longleftrightarrow>
     hb_buf_len (hs_hub s) > 0 \<and>
     (\<forall>i. i |\<in>| hb_subs (hs_hub s) |\<union>| hs_closing s \<longrightarrow> made (hs_hub s) i \<and> \<not> sb_closed (sub_at (hs_hub s) i)) \<and>
     (\<forall>i. i |\<in>| hb_subs (hs_hub s) \<longrightarrow> i |\<notin>| hs_closing s) \<and>
     targets (hs_pub s) |\<subseteq>| hb_subs (hs_hub s) \<and>
     room_made (hs_pub s) (hs_hub s) \<and>
     (\<forall>i. length (sb_queue (sub_at (hs_hub s) i)) \<le> hb_buf_len (hs_hub s))"

lemma channels_new: "channels_ok (new_hub_sys buf_len ring_len)"
  by (simp add: channels_ok_def new_hub_sys_def NewHub_def sub_at_def no_sub_def made_def)

lemma not_offering_targets [simp]: "\<not> offering p \<Longrightarrow> targets p = {||}" "\<not> offering p \<Longrightarrow> room_made p h"
  by (cases p; simp)+

lemma Subscribe_sub:
  "sub_at (Subscribe i topics h) j = (if j = i then \<lparr>sb_topics = topics, sb_queue = [], sb_closed = hb_closed h, sb_hub = \<not> hb_closed h\<rparr> else sub_at h j)"
  "hb_subs (Subscribe i topics h) = (if hb_closed h then hb_subs h else finsert i (hb_subs h))"
  "made (Subscribe i topics h) j \<longleftrightarrow> j = i \<or> made h j"
  by (simp_all add: Subscribe_def)

lemma channels_step: "hub_step s s' \<Longrightarrow> channels_ok s \<Longrightarrow> channels_ok s'"
proof (induction rule: hub_step.induct)
  case (Subscribed s i topics)
  then have "i |\<notin>| hb_subs (hs_hub s) |\<union>| hs_closing s" by (auto simp: channels_ok_def)
  then show ?case using Subscribed by (auto simp: channels_ok_def Subscribe_sub)
next
  case (PublishKeep s ev)
  then show ?case by (simp add: channels_ok_def)
next
  case (PublishNumber s topic now payload ev h')
  then show ?case by (auto simp: channels_ok_def next_event_eq)
next
  case (ShutDown s)
  then show ?case by (simp add: channels_ok_def mark_closed_def)
next
  case (Unregistered s i h')
  then show ?case by (auto simp: channels_ok_def unregister_True)
next
  case (ChannelClosed i s h')
  then show ?case by (cases "hs_pub s") (auto simp: channels_ok_def close_channel_Some)
next
  case (Forgotten s i)
  then show ?case by (cases "hs_pub s") (auto simp: channels_ok_def)
next
  case (OldestDropped s ev i S)
  let ?q = "\<lambda>k. sb_queue (sub_at (hs_hub s) k)"
  have len: "length (?q k) \<le> hb_buf_len (hs_hub s)" "hb_buf_len (hs_hub s) > 0" for k
    using OldestDropped by (simp_all add: channels_ok_def)
  have "length (?q k) - Suc 0 < hb_buf_len (hs_hub s)" for k using len(1) [of k] len(2) by linarith
  with len OldestDropped show ?case by (simp add: channels_ok_def drop_oldest_def less_imp_le)
next
  case (Received i s ev h')
  let ?q = "\<lambda>k. sb_queue (sub_at (hs_hub s) k)"
  obtain q where q: "?q i = ev # q" "h' = on_sub i (sb_queue_update (\<lambda>_. q)) (hs_hub s)" using Received(1) by (auto simp: receive_Some)
  have "length (?q i) \<le> hb_buf_len (hs_hub s)" using Received(2) by (simp add: channels_ok_def)
  then have "length q < hb_buf_len (hs_hub s)" using q(1) by simp
  moreover have "room_made (hs_pub s) h'" using Received(2) calculation by (cases "hs_pub s") (auto simp: channels_ok_def q(2))
  ultimately show ?case using Received(2) by (simp add: channels_ok_def q(2) less_imp_le)
next
  case (SentAfterDrop s ev i S h')
  then show ?case using send_cases [OF SentAfterDrop(2)] by (auto simp: channels_ok_def)
next
  case (Sent s ev S i h')
  then show ?case using send_cases [OF Sent(4)] by (auto simp: channels_ok_def)
qed (auto simp: channels_ok_def dest!: send_cases(2))

lemma channels_reachable: "hub_reachable buf_len ring_len s \<Longrightarrow> channels_ok s"
  by (induction rule: hub_reachable.induct) (blast intro: channels_new channels_step)+

subsection \<open>What a subscriber gets\<close>

text \<open>The event a subscription is still to be offered.\<close>

fun pending_for :: "publisher \<Rightarrow> hub \<Rightarrow> nat \<Rightarrow> event list" where
  "pending_for (Offering ev S) h i = (if i |\<in>| S \<and> subscriptionMatches (sub_at h i) (ev_topic ev) then [ev] else [])"
| "pending_for (FoundFull ev j S) h i = (if i = j \<or> i |\<in>| S \<and> subscriptionMatches (sub_at h i) (ev_topic ev) then [ev] else [])"
| "pending_for (Dropped ev j S) h i = (if i = j \<or> i |\<in>| S \<and> subscriptionMatches (sub_at h i) (ev_topic ev) then [ev] else [])"
| "pending_for _ h i = []"

text \<open>What it was offered is what it saw go by, what is in its channel, what is still to come; and what it
  saw go by is what it took, in that order, and what it lost.\<close>

definition seen_ok :: "event list \<Rightarrow> event list \<Rightarrow> nat \<Rightarrow> event list \<Rightarrow> bool" where
  "seen_ok due got lost rest \<longleftrightarrow> (\<exists>seen. due = seen @ rest \<and> subseq got seen \<and> length seen = length got + lost)"

definition wanted :: "subscription \<Rightarrow> event \<Rightarrow> bool" where "wanted sub ev = subscriptionMatches sub (ev_topic ev)"

definition due_ok :: "hub_sys \<Rightarrow> nat \<Rightarrow> bool" where
  "due_ok s i \<longleftrightarrow>
     seen_ok (hs_due s i) (hs_got s i) (hs_lost s i) (sb_queue (sub_at (hs_hub s) i) @ pending_for (hs_pub s) (hs_hub s) i) \<and>
     hs_from s i \<le> length (hs_offered s) \<and>
     (let to_come = filter (wanted (sub_at (hs_hub s) i)) (drop (hs_from s i) (hs_offered s)) in
      if i |\<in>| hb_subs (hs_hub s) then hs_due s i = to_come else prefix (hs_due s i) to_come)"

definition untouched :: "hub_sys \<Rightarrow> nat \<Rightarrow> bool" where
  "untouched s i \<longleftrightarrow> hs_due s i = [] \<and> hs_got s i = [] \<and> hs_lost s i = 0 \<and> sb_queue (sub_at (hs_hub s) i) = []"

definition subscribers_ok :: "hub_sys \<Rightarrow> bool" where
  "subscribers_ok s \<longleftrightarrow> (\<forall>i. if made (hs_hub s) i then due_ok s i else untouched s i)"

lemma seen_ok_refl: "seen_ok xs [] 0 xs"
  by (simp add: seen_ok_def)

lemma seen_ok_more: "seen_ok due got lost rest \<Longrightarrow> seen_ok (due @ xs) got lost (rest @ xs)"
  by (auto simp: seen_ok_def)

lemma seen_ok_got:
  assumes "seen_ok due got lost (x # rest)"
  shows "seen_ok due (got @ [x]) lost rest"
proof -
  obtain seen where "due = seen @ x # rest" "subseq got seen" "length seen = length got + lost" using assms by (auto simp: seen_ok_def)
  then show ?thesis unfolding seen_ok_def by (intro exI [of _ "seen @ [x]"]) simp
qed

lemma seen_ok_lost:
  assumes "seen_ok due got lost (x # rest)"
  shows "seen_ok due got (lost + 1) rest"
proof -
  obtain seen where "due = seen @ x # rest" "subseq got seen" "length seen = length got + lost" using assms by (auto simp: seen_ok_def)
  then show ?thesis unfolding seen_ok_def by (intro exI [of _ "seen @ [x]"]) (simp add: subseq_rev_drop_many)
qed

lemma topics_only [simp]:
  "subscriptionMatches (sb_queue_update f x) = subscriptionMatches x" "subscriptionMatches (sb_closed_update b x) = subscriptionMatches x"
  "subscriptionMatches (sb_hub_update b x) = subscriptionMatches x"
  "wanted (sb_queue_update f x) = wanted x" "wanted (sb_closed_update b x) = wanted x" "wanted (sb_hub_update b x) = wanted x"
  by (auto simp: fun_eq_iff subscriptionMatches_def wanted_def)

text \<open>Nothing a subscription rests on changed.\<close>

definition same_view :: "hub_sys \<Rightarrow> hub_sys \<Rightarrow> nat \<Rightarrow> bool" where
  "same_view s s' i \<longleftrightarrow>
     hs_due s' i = hs_due s i \<and> hs_got s' i = hs_got s i \<and> hs_lost s' i = hs_lost s i \<and> hs_from s' i = hs_from s i \<and>
     hs_offered s' = hs_offered s \<and>
     sb_topics (sub_at (hs_hub s') i) = sb_topics (sub_at (hs_hub s) i) \<and>
     sb_queue (sub_at (hs_hub s') i) @ pending_for (hs_pub s') (hs_hub s') i =
       sb_queue (sub_at (hs_hub s) i) @ pending_for (hs_pub s) (hs_hub s) i \<and>
     (i |\<in>| hb_subs (hs_hub s') \<longleftrightarrow> i |\<in>| hb_subs (hs_hub s))"

lemma same_view_due:
  assumes "same_view s s' i" and "due_ok s i"
  shows "due_ok s' i"
proof -
  have "wanted (sub_at (hs_hub s') i) = wanted (sub_at (hs_hub s) i)"
    using assms(1) by (auto simp: fun_eq_iff wanted_def same_view_def subscriptionMatches_def)
  then show ?thesis using assms by (simp add: due_ok_def same_view_def Let_def)
qed

lemma subscribers_new: "subscribers_ok (new_hub_sys buf_len ring_len)"
  by (simp add: subscribers_ok_def untouched_def new_hub_sys_def NewHub_def made_def sub_at_def no_sub_def)

lemma pending_target: "pending_for p h i \<noteq> [] \<Longrightarrow> i |\<in>| targets p"
  by (cases p) (auto split: if_splits)

lemma unmade_pending: "channels_ok s \<Longrightarrow> \<not> made (hs_hub s) i \<Longrightarrow> pending_for (hs_pub s) (hs_hub s) i = []"
  using pending_target by (fastforce simp: channels_ok_def)

lemma view_keeps:
  assumes "subscribers_ok s" and "channels_ok s" and "same_view s s' i" and "made (hs_hub s') i \<longleftrightarrow> made (hs_hub s) i"
  shows "if made (hs_hub s') i then due_ok s' i else untouched s' i"
proof (cases "made (hs_hub s) i")
  case True
  then show ?thesis using assms same_view_due by (simp add: subscribers_ok_def)
next
  case False
  then have "untouched s i" "pending_for (hs_pub s) (hs_hub s) i = []"
    using assms(1) unmade_pending [OF assms(2)] by (simp_all add: subscribers_ok_def split: if_splits)
  then show ?thesis using assms(3,4) False by (simp add: untouched_def same_view_def)
qed

lemma one_changes:
  assumes "subscribers_ok s" and "channels_ok s"
    and "\<And>j. j \<noteq> i \<Longrightarrow> same_view s s' j \<and> (made (hs_hub s') j \<longleftrightarrow> made (hs_hub s) j)"
    and "made (hs_hub s') i \<Longrightarrow> due_ok s' i" and "made (hs_hub s') i"
  shows "subscribers_ok s'"
  unfolding subscribers_ok_def
proof
  fix j
  show "if made (hs_hub s') j then due_ok s' j else untouched s' j"
    using view_keeps [OF assms(1,2), of s' j] assms(3-5) by (cases "j = i") simp_all
qed

lemma none_changes:
  assumes "subscribers_ok s" and "channels_ok s"
    and "\<And>j. same_view s s' j \<and> (made (hs_hub s') j \<longleftrightarrow> made (hs_hub s) j)"
  shows "subscribers_ok s'"
  unfolding subscribers_ok_def using view_keeps [OF assms(1,2)] assms(3) by blast

lemma due_okD:
  "subscribers_ok s \<Longrightarrow> made (hs_hub s) i \<Longrightarrow> due_ok s i"
  by (metis subscribers_ok_def)

lemma pending_same:
  assumes "\<And>j. subscriptionMatches (sub_at h' j) = subscriptionMatches (sub_at h j)"
  shows "pending_for p h' i = pending_for p h i"
  by (cases p) (simp_all add: assms)

lemma subscribers_step: "hub_step s s' \<Longrightarrow> channels_ok s \<Longrightarrow> subscribers_ok s \<Longrightarrow> subscribers_ok s'"
proof (induction rule: hub_step.induct)
  case (Subscribed s i topics)
  have quiet: "pending_for (hs_pub s) h j = []" for h j using Subscribed(1) by (cases "hs_pub s") simp_all
  have "untouched s i" using Subscribed by (simp add: subscribers_ok_def split: if_splits)
  then show ?case
    using Subscribed quiet
    by (intro one_changes [OF Subscribed(4,3), of i])
      (simp_all add: same_view_def Subscribe_sub due_ok_def untouched_def seen_ok_refl Let_def)
next
  case (Unregistered s i h')
  have quiet: "pending_for (hs_pub s) h j = []" for h j using Unregistered(1) by (cases "hs_pub s") simp_all
  have i: "i |\<in>| hb_subs (hs_hub s)" "h' = (hs_hub s)\<lparr>hb_subs := hb_subs (hs_hub s) |-| {|i|}\<rparr>" "made (hs_hub s) i"
    using Unregistered(2,3) by (auto simp: unregister_True channels_ok_def)
  show ?case
    using due_okD [OF Unregistered(4) i(3)] i quiet
    by (intro one_changes [OF Unregistered(4,3), of i]) (auto simp: same_view_def due_ok_def Let_def)
next
  case (PublishOffer s ev)
  show ?case unfolding subscribers_ok_def
  proof
    fix i
    let ?s' = "s\<lparr>hs_pub := Offering ev (hb_subs (hs_hub s)), hs_offered := hs_offered s @ [ev], hs_due := add_due ev (hs_hub s) (hs_due s)\<rparr>"
    show "if made (hs_hub ?s') i then due_ok ?s' i else untouched ?s' i"
    proof (cases "made (hs_hub s) i")
      case True
      then show ?thesis
        using due_okD [OF PublishOffer(3) True] PublishOffer(1) seen_ok_more
        by (auto simp: due_ok_def add_due_def Let_def wanted_def prefix_def intro: seen_ok_more)
    next
      case False
      then have "i |\<notin>| hb_subs (hs_hub s)" "untouched s i" using PublishOffer(2,3) by (auto simp: channels_ok_def subscribers_ok_def split: if_splits)
      then show ?thesis using False by (simp add: untouched_def add_due_def)
    qed
  qed
next
  case (OldestDropped s ev i S)
  have i: "made (hs_hub s) i" using OldestDropped(1,2) by (simp add: channels_ok_def)
  have "due_ok s i" by (rule due_okD [OF OldestDropped(3) i])
  then have "due_ok (s\<lparr>hs_hub := drop_oldest i (hs_hub s), hs_pub := Dropped ev i S,
      hs_lost := (hs_lost s)(i := hs_lost s i + (if sb_queue (sub_at (hs_hub s) i) = [] then 0 else 1))\<rparr>) i"
    using OldestDropped(1) seen_ok_lost
    by (cases "sb_queue (sub_at (hs_hub s) i)") (auto simp: due_ok_def drop_oldest_def Let_def)
  then show ?case
    using OldestDropped(1) i
    by (intro one_changes [OF OldestDropped(3,2), of i]) (simp_all add: same_view_def drop_oldest_def)
next
  case (StillFull s ev i S h')
  then show ?case using send_cases(3) [OF StillFull(2)] by (simp add: channels_ok_def)
next
  case (Received i s ev h')
  then obtain q where q: "sb_queue (sub_at (hs_hub s) i) = ev # q" "h' = on_sub i (sb_queue_update (\<lambda>_. q)) (hs_hub s)" by (auto simp: receive_Some)
  then have i: "made (hs_hub s) i" using Received(3) by (auto simp: subscribers_ok_def untouched_def split: if_splits)
  have same: "pending_for (hs_pub s) h' j = pending_for (hs_pub s) (hs_hub s) j" for j by (cases "hs_pub s") (simp_all add: q(2))
  have "due_ok (s\<lparr>hs_hub := h', hs_got := (hs_got s)(i := hs_got s i @ [ev])\<rparr>) i"
    using due_okD [OF Received(3) i] q same by (auto simp: due_ok_def Let_def intro: seen_ok_got)
  then show ?case
    using q i same by (intro one_changes [OF Received(3,2), of i]) (simp_all add: same_view_def)
next
  case (Sent s ev S i h')
  have h': "h' = on_sub i (sb_queue_update (\<lambda>q. q @ [ev])) (hs_hub s)" "made (hs_hub s) i"
    using send_cases(2) [OF Sent(4)] Sent(1,2,5) by (auto simp: channels_ok_def)
  show ?case
    by (rule none_changes [OF Sent(6,5)]) (use h' Sent(1-3) in \<open>simp add: same_view_def\<close>)
next
  case (SentAfterDrop s ev i S h')
  have h': "h' = on_sub i (sb_queue_update (\<lambda>q. q @ [ev])) (hs_hub s)" "made (hs_hub s) i"
    using send_cases(2) [OF SentAfterDrop(2)] SentAfterDrop(1,3) by (auto simp: channels_ok_def)
  show ?case
    by (rule none_changes [OF SentAfterDrop(4,3)]) (use h' SentAfterDrop(1) in \<open>simp add: same_view_def\<close>)
next
  case (ChannelClosed i s h')
  have h': "h' = on_sub i (sb_closed_update (\<lambda>_. True)) (hs_hub s)" "made (hs_hub s) i"
    using ChannelClosed(1-3) by (auto simp: close_channel_Some channels_ok_def)
  then have same: "pending_for (hs_pub s) h' j = pending_for (hs_pub s) (hs_hub s) j" for j by (intro pending_same) simp
  show ?case by (rule none_changes [OF ChannelClosed(4,3)]) (use h' same in \<open>simp add: same_view_def\<close>)
next
  case (Forgotten s i)
  let ?h = "on_sub i (sb_hub_update (\<lambda>_. False)) (hs_hub s)"
  have same: "pending_for (hs_pub s) ?h j = pending_for (hs_pub s) (hs_hub s) j" for j by (intro pending_same) simp
  show ?case by (rule none_changes [OF Forgotten(3,2)]) (use Forgotten(1) same in \<open>simp add: same_view_def\<close>)
next
  case (ShutDown s)
  have same: "pending_for (hs_pub s) (mark_closed (hs_hub s)) j = pending_for (hs_pub s) (hs_hub s) j" for j by (intro pending_same) simp
  show ?case by (rule none_changes [OF ShutDown(3,2)]) (use same in \<open>simp add: same_view_def\<close>)
next
  case (PublishNumber s topic now payload ev h')
  show ?case by (rule none_changes [OF PublishNumber(4,3)]) (use PublishNumber(1,2) in \<open>simp add: same_view_def next_event_eq\<close>)
next
  case (PublishKeep s ev)
  show ?case by (rule none_changes [OF PublishKeep(3,2)]) (use PublishKeep(1) in \<open>simp add: same_view_def\<close>)
next
  case (OtherTopic s ev S i)
  show ?case by (rule none_changes [OF OtherTopic(5,4)]) (use OtherTopic(1-3) in \<open>auto simp: same_view_def\<close>)
next
  case (WasFull s ev S i h')
  have "h' = hs_hub s" using send_cases(2) [OF WasFull(4)] by simp
  then show ?case by (intro none_changes [OF WasFull(6,5)]) (use WasFull(1-3) in \<open>simp add: same_view_def\<close>)
next
  case (Published s ev)
  show ?case by (rule none_changes [OF Published(3,2)]) (use Published(1) in \<open>simp add: same_view_def\<close>)
qed

end
