(* ===== verification/HubClaims.thy ===== *)
theory HubClaims
  imports HubSteps
begin

text \<open>
  What the hub promises, in every state it can reach: a replay says when events are gone, a subscriber
  gets the events of its topics in order and knows nothing else, and no send or close panics.
\<close>

lemma subscribers_reachable: "hub_reachable buf_len ring_len s \<Longrightarrow> subscribers_ok s"
proof (induction rule: hub_reachable.induct)
  case (Step s s')
  then show ?case using subscribers_step channels_reachable by blast
qed (rule subscribers_new)

subsection \<open>Replaying\<close>

lemma seq_nth: "map ev_seq xs = map Suc [0..<length xs] \<Longrightarrow> i < length xs \<Longrightarrow> ev_seq (xs ! i) = Suc i"
  using nth_map [of i xs ev_seq] by simp

lemma later_than:
  assumes "map ev_seq xs = map Suc [0..<length xs]"
  shows "filter (\<lambda>ev. ev_seq ev > c) (drop k xs) = drop (max c k) xs"
proof -
  let ?m = "max c k"
  have split: "drop k xs = take (?m - k) (drop k xs) @ drop ?m xs"
    by (metis append_take_drop_id drop_drop le_add_diff_inverse2 max.cobounded2)
  have "\<not> ev_seq ev > c" if ev: "ev \<in> set (take (?m - k) (drop k xs))" for ev
  proof -
    obtain i where "i < length (take (?m - k) (drop k xs))" "take (?m - k) (drop k xs) ! i = ev" using ev by (metis in_set_conv_nth)
    then show ?thesis using seq_nth [OF assms, of "k + i"] by auto
  qed
  moreover have "ev_seq ev > c" if ev: "ev \<in> set (drop ?m xs)" for ev
  proof -
    obtain i where i: "i < length (drop ?m xs)" "drop ?m xs ! i = ev" using ev by (metis in_set_conv_nth)
    then have "?m \<le> length xs" by (metis length_drop less_imp_le zero_less_diff not_less_zero linorder_not_le diff_is_0_eq)
    then have "?m + i < length xs" "ev = xs ! (?m + i)" using i nth_drop [of ?m xs i] by simp_all
    then show ?thesis using seq_nth [OF assms, of "?m + i"] by simp
  qed
  ultimately show ?thesis by (subst split) (simp add: filter_id_conv)
qed

definition asked_for :: "string list \<Rightarrow> event \<Rightarrow> bool" where
  "asked_for topics ev \<longleftrightarrow> topics = [] \<or> topicIn (ev_topic ev) topics"

lemma replay_eq:
  assumes "history_ok s" and "ReplaySince cursor topics (hs_hub s) = (out, resync)" and "cursor \<le> hb_seq (hs_hub s)"
  shows "out = filter (asked_for topics) (drop (max cursor (length (hs_kept s) - hb_ring_cap (hs_hub s))) (hs_kept s))" (is ?out)
    and "resync \<longleftrightarrow> cursor < length (hs_kept s) - hb_ring_cap (hs_hub s) \<or> hs_kept s = [] \<and> cursor < hb_seq (hs_hub s)" (is ?resync)
proof -
  let ?k = "length (hs_kept s) - hb_ring_cap (hs_hub s)"
  have h: "map ev_seq (hs_kept s) = map Suc [0..<length (hs_kept s)]" "hb_ring (hs_hub s) = drop ?k (hs_kept s)" "hb_ring_cap (hs_hub s) > 0"
    "numbered_ok (hs_pub s) (hs_kept s) (hb_seq (hs_hub s))"
    using assms(1) unfolding history_ok_def by blast+
  have "length (hs_kept s) \<le> hb_seq (hs_hub s)" using h(4) by (cases "hs_pub s") simp_all
  have "out = filter (\<lambda>ev. ev_seq ev > cursor \<and> asked_for topics ev) (hb_ring (hs_hub s))"
    using assms(2,3) by (auto simp: ReplaySince_def Let_def asked_for_def)
  also have "\<dots> = filter (asked_for topics) (filter (\<lambda>ev. ev_seq ev > cursor) (drop ?k (hs_kept s)))"
    by (simp add: h(2) conj_commute)
  finally show ?out unfolding later_than [OF h(1)] .
  show ?resync
  proof (cases "hs_kept s = []")
    case True
    then show ?thesis using assms(2,3) h(2) by (auto simp: ReplaySince_def Let_def)
  next
    case False
    then have "?k < length (hs_kept s)" using h(3) by simp
    then have "hb_ring (hs_hub s) = hs_kept s ! ?k # drop (Suc ?k) (hs_kept s)" "ev_seq (hs_kept s ! ?k) = Suc ?k"
      using h(2) seq_nth [OF h(1)] by (simp_all add: Cons_nth_drop_Suc)
    then show ?thesis using assms(2,3) False \<open>length (hs_kept s) \<le> hb_seq (hs_hub s)\<close> by (auto simp: ReplaySince_def Let_def)
  qed
qed

text \<open>C25: A replay says when events are gone: with a cursor not ahead of the hub, it gives the kept events after the
  cursor, in order, of the topics asked for, all of them unless it says resync; and it says resync exactly when an event
  after the cursor has left the ring, when the cursor is ahead of the hub, or when the very first event is on its way.\<close>

theorem replay_tells_gaps:
  assumes "hub_reachable buf_len ring_len s" and "ReplaySince cursor topics (hs_hub s) = (out, resync)"
  shows "if cursor > Seq (hs_hub s) then out = [] \<and> resync
    else (if cursor < length (hs_kept s) - hb_ring_cap (hs_hub s)
          then resync \<and> out = filter (asked_for topics) (hb_ring (hs_hub s))
          else out = filter (asked_for topics) (drop cursor (hs_kept s)) \<and> (resync \<longleftrightarrow> hs_kept s = [] \<and> cursor < Seq (hs_hub s)))"
proof (cases "cursor > Seq (hs_hub s)")
  case True
  then show ?thesis using assms(2) by (simp add: ReplaySince_def Seq_def)
next
  case False
  have h: "history_ok s" by (rule history_reachable [OF assms(1)])
  note replay_eq [OF h assms(2)]
  moreover have "hb_ring (hs_hub s) = drop (length (hs_kept s) - hb_ring_cap (hs_hub s)) (hs_kept s)" using h by (simp add: history_ok_def)
  ultimately show ?thesis using False by (auto simp: Seq_def max_def)
qed

subsection \<open>Delivery\<close>

text \<open>C26: A subscriber gets the events of its topics, in the order they were published: between publishes, of those since
  it subscribed, the ones in its channel are the last ones, at most as many as the channel holds; what it took is a part of
  those before, in order; and what it did not take is exactly what was dropped from its full channel.\<close>

theorem subscriber_gets_in_order:
  assumes "hub_reachable buf_len ring_len s" and "hs_pub s = NoPublish" and "i |\<in>| hb_subs (hs_hub s)"
  shows "\<exists>seen. filter (wanted (sub_at (hs_hub s) i)) (drop (hs_from s i) (hs_kept s)) = seen @ sb_queue (sub_at (hs_hub s) i) \<and>
    subseq (hs_got s i) seen \<and> length seen = length (hs_got s i) + hs_lost s i \<and>
    length (sb_queue (sub_at (hs_hub s) i)) \<le> hb_buf_len (hs_hub s)"
proof -
  have c: "channels_ok s" and h: "history_ok s" by (rule channels_reachable [OF assms(1)], rule history_reachable [OF assms(1)])
  then have "made (hs_hub s) i" "hs_kept s = hs_offered s" using assms(2,3) by (auto simp: channels_ok_def history_ok_def)
  moreover from this have "due_ok s i" using due_okD [OF subscribers_reachable [OF assms(1)]] by simp
  ultimately have "seen_ok (filter (wanted (sub_at (hs_hub s) i)) (drop (hs_from s i) (hs_kept s))) (hs_got s i) (hs_lost s i) (sb_queue (sub_at (hs_hub s) i))"
    using assms(2,3) by (metis (no_types, lifting) due_ok_def append_Nil2 pending_for.simps(4))
  moreover have "length (sb_queue (sub_at (hs_hub s) i)) \<le> hb_buf_len (hs_hub s)" using c by (simp add: channels_ok_def)
  ultimately show ?thesis by (auto simp: seen_ok_def)
qed

text \<open>C27: The hub never panics: whatever publishes, subscriptions, departures and a shutdown come together, a send goes to
  an open channel, after the oldest event is dropped there is room for the new one, and a channel is closed once.\<close>

theorem hub_never_panics:
  assumes "hub_reachable buf_len ring_len s"
  shows "(if i |\<in>| targets (hs_pub s) then send i ev (hs_hub s) \<noteq> None else True) \<and>
    (case hs_pub s of Dropped ev j S \<Rightarrow> \<exists>h'. send j ev (hs_hub s) = Some (True, h') | _ \<Rightarrow> True) \<and>
    (if i |\<in>| hs_closing s then close_channel i (hs_hub s) \<noteq> None else True)"
proof -
  have "channels_ok s" by (rule channels_reachable [OF assms])
  then show ?thesis by (auto simp: channels_ok_def send_def close_channel_def split: publisher.splits)
qed

subsection \<open>A publish that nothing comes into\<close>

lemma deliver_steps:
  assumes "hs_pub s = Offering ev S" and "i |\<in>| S" and "deliver ev i (hs_hub s) = Some h'"
  shows "\<exists>s'. hub_step\<^sup>*\<^sup>* s s' \<and> hs_hub s' = h' \<and> hs_pub s' = Offering ev (S |-| {|i|})"
proof (cases "subscriptionMatches (sub_at (hs_hub s) i) (ev_topic ev)")
  case False
  then have "h' = hs_hub s" using assms(3) by (simp add: deliver_def)
  then show ?thesis using OtherTopic [OF assms(1,2) False]
    by (intro exI [of _ "s\<lparr>hs_pub := Offering ev (S |-| {|i|})\<rparr>"]) (simp add: r_into_rtranclp)
next
  case True
  obtain b h1 where sent: "send i ev (hs_hub s) = Some (b, h1)" using True assms(3) by (auto simp: deliver_def split: option.splits)
  show ?thesis
  proof (cases b)
    case b: True
    then have "h' = h1" using True assms(3) sent by (simp add: deliver_def)
    then show ?thesis using hub_step.Sent [OF assms(1,2) True] sent b by (intro exI conjI) (auto intro!: r_into_rtranclp)
  next
    case full: False
    let ?s1 = "s\<lparr>hs_hub := h1, hs_pub := FoundFull ev i S\<rparr>"
    have s1: "hub_step s ?s1" using WasFull [OF assms(1,2) True] sent full by simp
    obtain s2 where s2: "hub_step ?s1 s2" "hs_pub s2 = Dropped ev i S" "hs_hub s2 = drop_oldest i h1"
      using OldestDropped [of ?s1 ev i S] by force
    obtain b' where again: "send i ev (hs_hub s2) = Some (b', h')"
      using True assms(3) sent full s2(3) by (auto simp: deliver_def split: option.splits)
    have "\<exists>s3. hub_step s2 s3 \<and> hs_hub s3 = h' \<and> hs_pub s3 = Offering ev (S |-| {|i|})"
    proof (cases b')
      case b': True
      show ?thesis using SentAfterDrop [OF s2(2)] again b' by (intro exI conjI) auto
    next
      case b': False
      show ?thesis using StillFull [OF s2(2)] again b' by (intro exI conjI) auto
    qed
    then obtain s3 where "hub_step s2 s3" "hs_hub s3 = h'" "hs_pub s3 = Offering ev (S |-| {|i|})" by blast
    moreover from this(1) have "hub_step\<^sup>*\<^sup>* s s3" using s1 s2(1) by (meson r_into_rtranclp rtranclp.rtrancl_into_rtrancl)
    ultimately show ?thesis by blast
  qed
qed

lemma deliver_all_steps:
  assumes "hs_pub s = Offering ev (fset_of_list is)" and "distinct is" and "deliver_all ev is (hs_hub s) = Some h'"
  shows "\<exists>s'. hub_step\<^sup>*\<^sup>* s s' \<and> hs_hub s' = h' \<and> hs_pub s' = Offering ev {||}"
  using assms
proof (induction "is" arbitrary: s)
  case Nil
  then show ?case by (intro exI [of _ s]) simp
next
  case (Cons i "is")
  obtain h1 where h1: "deliver ev i (hs_hub s) = Some h1" "deliver_all ev is h1 = Some h'" using Cons.prems(3) by (auto split: option.splits)
  have rest: "fset_of_list (i # is) |-| {|i|} = fset_of_list is" using Cons.prems(2) by (auto simp: fset_of_list_elem)
  obtain s1 where s1: "hub_step\<^sup>*\<^sup>* s s1" "hs_hub s1 = h1" "hs_pub s1 = Offering ev (fset_of_list is)"
    using deliver_steps [OF Cons.prems(1) _ h1(1)] unfolding rest by auto
  then show ?case using Cons.IH [OF s1(3)] Cons.prems(2) h1(2) by (metis distinct.simps(2) rtranclp_trans)
qed

lemma publish_steps:
  assumes "hs_pub s = NoPublish" and "Publish topic now (Some payload) (hs_hub s) = Some h'"
  shows "\<exists>s'. hub_step\<^sup>*\<^sup>* s s' \<and> hs_hub s' = h' \<and> hs_pub s' = NoPublish"
proof -
  obtain ev h1 where ev: "next_event topic now payload (hs_hub s) = (ev, h1)" by (rule prod.exhaust)
  then have h': "deliver_all ev (sorted_list_of_fset (hb_subs h1)) (ring_push ev h1) = Some h'" using assms(2) by (simp add: Publish_def)
  obtain s1 where s1: "hub_step s s1" "hs_pub s1 = Numbered ev" "hs_hub s1 = h1" using PublishNumber [OF assms(1) ev] by force
  obtain s2 where s2: "hub_step s1 s2" "hs_pub s2 = Kept ev" "hs_hub s2 = ring_push ev h1" using PublishKeep [OF s1(2)] s1(3) by force
  obtain s3 where s3: "hub_step s2 s3" "hs_pub s3 = Offering ev (hb_subs h1)" "hs_hub s3 = ring_push ev h1" using PublishOffer [OF s2(2)] s2(3) by force
  have "fset_of_list (sorted_list_of_fset (hb_subs h1)) = hb_subs h1" by simp
  with deliver_all_steps [of s3 ev "sorted_list_of_fset (hb_subs h1)" h'] s3(2,3) h'
  obtain s4 where s4: "hub_step\<^sup>*\<^sup>* s3 s4" "hs_hub s4 = h'" "hs_pub s4 = Offering ev {||}"
    by (auto simp: sorted_list_of_fset.rep_eq)
  then show ?thesis using Published [OF s4(3)] s1(1) s2(1) s3(1)
    by (intro exI [of _ "s4\<lparr>hs_pub := NoPublish\<rparr>"]) (auto intro: rtranclp.rtrancl_into_rtrancl converse_rtranclp_into_rtranclp)
qed

lemma reachable_steps: "hub_step\<^sup>*\<^sup>* s s' \<Longrightarrow> hub_reachable buf_len ring_len s \<Longrightarrow> hub_reachable buf_len ring_len s'"
  by (induction rule: rtranclp_induct) (auto intro: hub_reachable.Step)

lemma kept_grows: "hub_step s s' \<Longrightarrow> prefix (hs_kept s) (hs_kept s')"
  by (induction rule: hub_step.induct) simp_all

lemma kept_grows_steps: "hub_step\<^sup>*\<^sup>* s s' \<Longrightarrow> prefix (hs_kept s) (hs_kept s')"
  by (induction rule: rtranclp_induct) (auto intro: prefix_order.trans kept_grows)

text \<open>A subscription keeps its topics and where it began.\<close>

definition same_sub :: "hub_sys \<Rightarrow> hub_sys \<Rightarrow> nat \<Rightarrow> bool" where
  "same_sub s s' i \<longleftrightarrow> made (hs_hub s') i \<and> hs_from s' i = hs_from s i \<and> sb_topics (sub_at (hs_hub s') i) = sb_topics (sub_at (hs_hub s) i)"

lemma sub_stays: "hub_step s s' \<Longrightarrow> made (hs_hub s) i \<Longrightarrow> same_sub s s' i"
  by (induction rule: hub_step.induct)
    (auto simp: same_sub_def Subscribe_sub unregister_True close_channel_Some receive_Some next_event_eq drop_oldest_def
      dest!: send_cases(2))

lemma sub_stays_steps: "hub_step\<^sup>*\<^sup>* s s' \<Longrightarrow> made (hs_hub s) i \<Longrightarrow> same_sub s s' i"
proof (induction rule: rtranclp_induct)
  case (step s1 s2)
  then show ?case using sub_stays [OF step(2)] by (simp add: same_sub_def)
qed (simp add: same_sub_def)

text \<open>A subscription that lost nothing: what it took is the start of what it was to get.\<close>

lemma nothing_lost:
  assumes "hub_reachable buf_len ring_len s" and "made (hs_hub s) i" and "hs_lost s i = 0"
  shows "prefix (hs_got s i) (filter (wanted (sub_at (hs_hub s) i)) (drop (hs_from s i) (hs_kept s)))"
proof -
  have "due_ok s i" by (rule due_okD [OF subscribers_reachable [OF assms(1)] assms(2)])
  then have due: "seen_ok (hs_due s i) (hs_got s i) 0 (sb_queue (sub_at (hs_hub s) i) @ pending_for (hs_pub s) (hs_hub s) i)"
    "hs_from s i \<le> length (hs_offered s)" "prefix (hs_due s i) (filter (wanted (sub_at (hs_hub s) i)) (drop (hs_from s i) (hs_offered s)))"
    using assms(3) by (simp_all add: due_ok_def Let_def split: if_splits)
  from due(1) obtain seen where seen: "prefix seen (hs_due s i)" "subseq (hs_got s i) seen" "length seen = length (hs_got s i)"
    unfolding seen_ok_def by (metis add.right_neutral prefixI)
  have "hs_got s i = seen" using seen(2,3) by (metis subseq_same_length)
  then have "prefix (hs_got s i) (hs_due s i)" using seen(1) by simp
  moreover have "prefix (filter (wanted (sub_at (hs_hub s) i)) (drop (hs_from s i) (hs_offered s)))
      (filter (wanted (sub_at (hs_hub s) i)) (drop (hs_from s i) (hs_kept s)))"
    using history_reachable [OF assms(1)] due(2) by (auto simp: history_ok_def)
  ultimately show ?thesis using due(3) by (meson prefix_order.trans)
qed

end
