(* ===== verification/WaitChanges.thy ===== *)
theory WaitChanges
  imports HubClaims Tokens
begin

text \<open>
  The long poll of the MCP server (\<open>memory_wait_changes\<close> in \<open>internal/mcp/tools_wait.go\<close>) over the event
  hub: an agent gives the cursor its last call returned, is replayed what it missed, and waits on a
  subscription made before the replay, until an event it may see comes.

  The JSON decoder of an event's data, the token, the hidden projects and what the \<open>select\<close> of the wait
  finds at each turn are arguments.
\<close>

subsection \<open>The call\<close>

record note_payload =
  np_action :: string
  np_path :: string
  np_etag :: string
  np_source :: string

record wait_event =
  we_seq :: nat
  we_topic :: string
  we_action :: string
  we_path :: string
  we_etag :: string
  we_source :: string

definition waitDefaultTimeoutS :: int where "waitDefaultTimeoutS = 25"
definition waitMaxTimeoutS :: int where "waitMaxTimeoutS = 55"

definition wait_timeout :: "int option \<Rightarrow> int" where
  "wait_timeout asked =
     (let t = (case asked of None \<Rightarrow> waitDefaultTimeoutS | Some t \<Rightarrow> t) in
      if t < 1 then 1 else if t > waitMaxTimeoutS then waitMaxTimeoutS else t)"

definition wait_cursor :: "int option \<Rightarrow> hub \<Rightarrow> nat" where
  "wait_cursor asked h =
     (let c = (case asked of None \<Rightarrow> -1 | Some c \<Rightarrow> c) in if c \<ge> 0 then nat c else Seq h)"

definition topLevelProject :: "string \<Rightarrow> string" where
  "topLevelProject p = (if List.member p (CHR ''/'') then before (CHR ''/'') p else [])"

text \<open>One wait of a session at a time; a message without a session counts against its token.\<close>

definition waiter_key :: "string \<Rightarrow> string \<Rightarrow> string" where
  "waiter_key token_id session = ''tok:'' @ token_id @ (if session \<noteq> [] then '':'' @ session else [])"

datatype wait_error = LacksReadScope | NoHub | OutsideScope string string | HiddenProject string | WaitBusy

definition admit_wait :: "'a token_scheme \<Rightarrow> bool \<Rightarrow> (string \<Rightarrow> bool) \<Rightarrow> string \<Rightarrow> string \<Rightarrow> string fset \<Rightarrow> wait_error + string fset" where
  "admit_wait tok has_hub hidden project session waiters =
     and_then (require (HasScope tok ScopeRead) LacksReadScope) (\<lambda>_.
     and_then (require has_hub NoHub) (\<lambda>_.
     and_then (require (project = [] \<or> AllowsProject tok project) (OutsideScope project (ScopeLabel tok))) (\<lambda>_.
     and_then (require (project = [] \<or> \<not> hidden project) (HiddenProject project)) (\<lambda>_.
     let key = waiter_key (tk_id tok) session in
     and_then (require (key |\<notin>| waiters) WaitBusy) (\<lambda>_. Inr (finsert key waiters))))))"

definition wait_matches :: "(string \<Rightarrow> note_payload option) \<Rightarrow> 'a token_scheme \<Rightarrow> (string \<Rightarrow> bool) \<Rightarrow> string \<Rightarrow> event \<Rightarrow> wait_event option" where
  "wait_matches unmarshal tok hidden project ev =
     (case unmarshal (ev_data ev) of
        None \<Rightarrow> None
      | Some p \<Rightarrow>
          if np_path p = [] \<or> np_source p = ''watcher'' \<or> \<not> AllowsPath tok (np_path p) \<or>
             (project \<noteq> [] \<and> topLevelProject (np_path p) \<noteq> project) \<or> hidden (topLevelProject (np_path p))
          then None
          else Some \<lparr>we_seq = ev_seq ev, we_topic = ev_topic ev, we_action = np_action p, we_path = np_path p,
                     we_etag = np_etag p, we_source = np_source p\<rparr>)"

subsection \<open>The wait\<close>

record wait_result =
  wr_events :: "wait_event list"
  wr_cursor :: nat
  wr_resync :: bool
  wr_timed_out :: bool

definition maxSeq :: "nat \<Rightarrow> nat \<Rightarrow> nat" where "maxSeq a b = (if a > b then a else b)"

definition see_buffered :: "(event \<Rightarrow> wait_event option) \<Rightarrow> event \<Rightarrow> nat \<times> wait_event list \<Rightarrow> nat \<times> wait_event list" where
  "see_buffered m ev seen =
     ((if ev_seq ev > fst seen then ev_seq ev else fst seen),
      (case m ev of None \<Rightarrow> snd seen | Some we \<Rightarrow> snd seen @ [we]))"

text \<open>After the replay: an answer, or the last event seen.\<close>

definition after_replay :: "(event \<Rightarrow> wait_event option) \<Rightarrow> nat \<Rightarrow> event list \<times> bool \<Rightarrow> nat \<Rightarrow> wait_result + nat" where
  "after_replay m cursor replayed seq_now =
     (let (seen, out) = fold (see_buffered m) (fst replayed) (cursor, []) in
      if snd replayed then Inl \<lparr>wr_events = out, wr_cursor = maxSeq seen seq_now, wr_resync = True, wr_timed_out = False\<rparr>
      else if out \<noteq> [] then Inl \<lparr>wr_events = out, wr_cursor = seen, wr_resync = False, wr_timed_out = False\<rparr>
      else Inr seen)"

text \<open>What the handler finds: an event on its channel, nothing there (when it does not wait), the channel
  closed, the time over, the caller gone.\<close>

datatype look = Got event | NothingThere | HubClosed | TimeOver | CallerGone

fun drain_matching :: "(event \<Rightarrow> wait_event option) \<Rightarrow> nat \<Rightarrow> wait_event list \<Rightarrow> look list \<Rightarrow> wait_result option" where
  "drain_matching m seen out (Got ev # ls) =
     (if ev_seq ev \<le> seen then drain_matching m seen out ls
      else drain_matching m (ev_seq ev) (case m ev of None \<Rightarrow> out | Some we \<Rightarrow> out @ [we]) ls)"
| "drain_matching m seen out (_ # ls) = Some \<lparr>wr_events = out, wr_cursor = seen, wr_resync = False, wr_timed_out = False\<rparr>"
| "drain_matching m seen out [] = None"

fun wait_loop :: "(event \<Rightarrow> wait_event option) \<Rightarrow> nat \<Rightarrow> look list \<Rightarrow> wait_result option" where
  "wait_loop m seen (Got ev # ls) =
     (if ev_seq ev \<le> seen then wait_loop m seen ls
      else case m ev of
             None \<Rightarrow> wait_loop m (ev_seq ev) ls
           | Some we \<Rightarrow> drain_matching m (ev_seq ev) [we] ls)"
| "wait_loop m seen (TimeOver # ls) = Some \<lparr>wr_events = [], wr_cursor = seen, wr_resync = False, wr_timed_out = True\<rparr>"
| "wait_loop m seen (HubClosed # ls) = Some \<lparr>wr_events = [], wr_cursor = seen, wr_resync = False, wr_timed_out = False\<rparr>"
| "wait_loop m seen (CallerGone # ls) = Some \<lparr>wr_events = [], wr_cursor = seen, wr_resync = False, wr_timed_out = False\<rparr>"
| "wait_loop m seen (NothingThere # ls) = wait_loop m seen ls"
| "wait_loop m seen [] = None"

definition wait_answer :: "(event \<Rightarrow> wait_event option) \<Rightarrow> nat \<Rightarrow> event list \<times> bool \<Rightarrow> nat \<Rightarrow> look list \<Rightarrow> wait_result option" where
  "wait_answer m cursor replayed seq_now ls =
     (case after_replay m cursor replayed seq_now of Inl r \<Rightarrow> Some r | Inr seen \<Rightarrow> wait_loop m seen ls)"

definition wait_topics :: "string list" where "wait_topics = [''note'', ''tree'']"

subsection \<open>No gaps\<close>

fun gots :: "look list \<Rightarrow> event list" where
  "gots [] = []"
| "gots (Got ev # ls) = ev # gots ls"
| "gots (_ # ls) = gots ls"

abbreviation in_order_of :: "('a \<Rightarrow> nat) \<Rightarrow> 'a list \<Rightarrow> bool" where
  "in_order_of f \<equiv> sorted_wrt (\<lambda>x y. f x < f y)"

definition between :: "nat \<Rightarrow> nat \<Rightarrow> event \<Rightarrow> bool" where "between a b ev \<longleftrightarrow> a < ev_seq ev \<and> ev_seq ev \<le> b"

lemma between_split:
  "in_order_of ev_seq xs \<Longrightarrow> a \<le> b \<Longrightarrow> b \<le> c \<Longrightarrow> filter (between a c) xs = filter (between a b) xs @ filter (between b c) xs"
proof (induction xs)
  case (Cons x xs)
  show ?case
  proof (cases "ev_seq x \<le> b")
    case True
    then show ?thesis using Cons by (auto simp: between_def)
  next
    case False
    then have above: "b < ev_seq y" if "y \<in> set (x # xs)" for y using that Cons.prems(1) by auto
    then have "filter (between a b) (x # xs) = []" by (auto simp: filter_empty_conv between_def not_le)
    moreover have "filter (between a c) (x # xs) = filter (between b c) (x # xs)"
      by (rule filter_cong [OF refl]) (use above Cons.prems(2) in \<open>fastforce simp: between_def\<close>)
    ultimately show ?thesis by simp
  qed
qed simp

lemma prefix_between:
  assumes "in_order_of ev_seq xs" and "prefix g xs" and "g \<noteq> []"
  shows "g = filter (\<lambda>ev. ev_seq ev \<le> ev_seq (last g)) xs"
proof -
  obtain h where xs: "xs = g @ h" using assms(2) by (auto simp: prefix_def)
  have "ev_seq ev \<le> ev_seq (last g)" if ev: "ev \<in> set g" for ev
  proof -
    have "g = butlast g @ [last g]" using assms(3) by simp
    then show ?thesis using ev assms(1) unfolding xs by (metis Un_iff append_is_Nil_conv empty_iff empty_set less_imp_le order_refl set_ConsD set_append sorted_wrt_append list.set_intros(1))
  qed
  moreover have "\<not> ev_seq ev \<le> ev_seq (last g)" if "ev \<in> set h" for ev
    using assms(1,3) that last_in_set [OF assms(3)] unfolding xs sorted_wrt_append by (meson not_le)
  ultimately show ?thesis unfolding xs by simp
qed

text \<open>What a call answers after the events \<open>g\<close>: those after the last one seen that match, and the new cursor.\<close>

definition answers :: "(event \<Rightarrow> wait_event option) \<Rightarrow> nat \<Rightarrow> event list \<Rightarrow> wait_result \<Rightarrow> bool" where
  "answers m seen g res \<longleftrightarrow>
     wr_events res = List.map_filter m (filter (\<lambda>ev. ev_seq ev > seen) g) \<and>
     wr_cursor res = fold (\<lambda>ev. max (ev_seq ev)) g seen \<and> \<not> wr_resync res"

lemma map_filter_append [simp]: "List.map_filter f (xs @ ys) = List.map_filter f xs @ List.map_filter f ys"
  by (simp add: List.map_filter_def)

lemma all_later: "in_order_of ev_seq (ev # g) \<Longrightarrow> c \<le> ev_seq ev \<Longrightarrow> filter (\<lambda>e. c < ev_seq e) g = g"
  by (auto simp: filter_id_conv)

lemma drain_answers:
  "drain_matching m seen out ls = Some res \<Longrightarrow> in_order_of ev_seq (gots ls) \<Longrightarrow>
     \<exists>g. prefix g (gots ls) \<and> answers m seen g (res\<lparr>wr_events := drop (length out) (wr_events res)\<rparr>) \<and> take (length out) (wr_events res) = out"
proof (induction m seen out ls rule: drain_matching.induct)
  case (1 m seen out ev ls)
  show ?case
  proof (cases "ev_seq ev \<le> seen")
    case True
    then obtain g where "prefix g (gots ls)" "answers m seen g (res\<lparr>wr_events := drop (length out) (wr_events res)\<rparr>)" "take (length out) (wr_events res) = out"
      using 1 by auto
    then show ?thesis using True by (intro exI [of _ "ev # g"]) (auto simp: answers_def max_def)
  next
    case False
    let ?out = "case m ev of None \<Rightarrow> out | Some we \<Rightarrow> out @ [we]"
    obtain g where g: "prefix g (gots ls)" "answers m (ev_seq ev) g (res\<lparr>wr_events := drop (length ?out) (wr_events res)\<rparr>)"
      "take (length ?out) (wr_events res) = ?out" using 1 False by auto
    have "in_order_of ev_seq (ev # g)" using 1(4) g(1) by (auto simp: prefix_def sorted_wrt_append)
    then have "filter (\<lambda>e. seen < ev_seq e) g = g" "filter (\<lambda>e. ev_seq ev < ev_seq e) g = g" using False by (auto intro: all_later)
    moreover obtain rest where "wr_events res = ?out @ rest" using g(3) by (metis append_take_drop_id)
    ultimately show ?thesis using False g(1,2)
      by (intro exI [of _ "ev # g"]) (auto simp: answers_def max_def List.map_filter_simps split: option.splits)
  qed
qed (auto simp: answers_def intro!: exI [of _ "[]"])

lemma loop_answers:
  "wait_loop m seen ls = Some res \<Longrightarrow> in_order_of ev_seq (gots ls) \<Longrightarrow> \<exists>g. prefix g (gots ls) \<and> answers m seen g res"
proof (induction m seen ls rule: wait_loop.induct)
  case (1 m seen ev ls)
  show ?case
  proof (cases "ev_seq ev \<le> seen")
    case True
    then obtain g where "prefix g (gots ls)" "answers m seen g res" using 1 by auto
    then show ?thesis using True by (intro exI [of _ "ev # g"]) (auto simp: answers_def max_def)
  next
    case False
    have "\<exists>g. prefix g (gots ls) \<and> answers m (ev_seq ev) g (res\<lparr>wr_events := drop (length (List.map_filter m [ev])) (wr_events res)\<rparr>) \<and>
        take (length (List.map_filter m [ev])) (wr_events res) = List.map_filter m [ev]"
    proof (cases "m ev")
      case None
      then show ?thesis using 1 False by (auto simp: List.map_filter_simps)
    next
      case (Some we)
      then show ?thesis using drain_answers [of m "ev_seq ev" "[we]" ls res] 1(3,4) False by (auto simp: List.map_filter_simps)
    qed
    then obtain g where g: "prefix g (gots ls)"
      "answers m (ev_seq ev) g (res\<lparr>wr_events := drop (length (List.map_filter m [ev])) (wr_events res)\<rparr>)"
      "take (length (List.map_filter m [ev])) (wr_events res) = List.map_filter m [ev]" by blast
    have "in_order_of ev_seq (ev # g)" using 1(4) g(1) by (auto simp: prefix_def sorted_wrt_append)
    then have "filter (\<lambda>e. seen < ev_seq e) g = g" "filter (\<lambda>e. ev_seq ev < ev_seq e) g = g" using False by (auto intro: all_later)
    moreover obtain rest where "wr_events res = List.map_filter m [ev] @ rest" using g(3) by (metis append_take_drop_id)
    ultimately show ?thesis using False g(1,2)
      by (intro exI [of _ "ev # g"]) (auto simp: answers_def max_def List.map_filter_simps split: option.splits)
  qed
qed (auto simp: answers_def intro!: exI [of _ "[]"])

lemma fold_max:
  fixes g :: "event list"
  shows "seen \<le> fold (\<lambda>ev. max (ev_seq ev)) g seen" and
    "ev \<in> set g \<Longrightarrow> ev_seq ev \<le> fold (\<lambda>ev. max (ev_seq ev)) g seen" and
    "fold (\<lambda>ev. max (ev_seq ev)) g seen \<in> insert seen (ev_seq ` set g)"
proof (induction g arbitrary: seen)
  case (Cons x g)
  { case 1 then show ?case using Cons(1) [of "max (ev_seq x) seen"] by simp
  next case 2 then show ?case using Cons(1,2) [of "max (ev_seq x) seen"] by auto
  next case 3 then show ?case using Cons(3) [of "max (ev_seq x) seen"] by (auto simp: max_def split: if_splits) }
qed simp_all

lemma no_gap:
  assumes "in_order_of ev_seq M" and "from \<le> n" and "prefix g (filter (\<lambda>ev. from < ev_seq ev) M)"
    and "seen = fold (\<lambda>ev. max (ev_seq ev)) (filter (between cursor n) M) cursor"
    and "List.map_filter m (filter (between cursor n) M) = []" and "answers m seen g res"
  shows "wr_events res = List.map_filter m (filter (between cursor (wr_cursor res)) M) \<and> cursor \<le> wr_cursor res"
proof -
  let ?C = "fold (\<lambda>ev. max (ev_seq ev)) g seen"
  note seen = fold_max [where seen = cursor and g = "filter (between cursor n) M", folded assms(4)]
  have C: "seen \<le> ?C" by (rule fold_max)
  have quiet: "m ev = None" if "ev \<in> set M" "between cursor n ev" for ev
    using assms(5) that by (auto simp: List.map_filter_def filter_empty_conv)
  have "List.map_filter m (filter (between cursor seen) M) = []"
    using quiet seen(3) by (auto simp: List.map_filter_def filter_empty_conv between_def)
  moreover have "filter (\<lambda>ev. ev_seq ev > seen) g = filter (between seen ?C) M"
  proof (cases "g = []")
    case True
    then show ?thesis by (auto simp: filter_empty_conv between_def)
  next
    case False
    let ?c = "ev_seq (last g)"
    have "in_order_of ev_seq (filter (\<lambda>ev. from < ev_seq ev) M)" using assms(1) by (rule sorted_wrt_filter)
    from prefix_between [OF this assms(3) False]
    have g: "g = filter (\<lambda>ev. from < ev_seq ev \<and> ev_seq ev \<le> ?c) M" by (simp add: conj_commute)
    have last: "?C \<in> {seen, ?c} \<or> ?C \<le> ?c" "?c \<le> ?C"
    proof -
      show "?c \<le> ?C" using fold_max(2) [where ev = "last g" and g = g] False by simp
      have "ev_seq x \<le> ?c" if "x \<in> set g" for x using that by (subst (asm) g) simp
      then show "?C \<in> {seen, ?c} \<or> ?C \<le> ?c" using fold_max(3) [where g = g and seen = seen] by auto
    qed
    have "(seen < ev_seq ev \<and> from < ev_seq ev \<and> ev_seq ev \<le> ?c) \<longleftrightarrow> between seen ?C ev" if ev: "ev \<in> set M" for ev
    proof -
      have "from < ev_seq ev" if "seen < ev_seq ev"
      proof (rule ccontr)
        assume "\<not> from < ev_seq ev"
        then have "between cursor n ev" using that seen(1) assms(2) by (simp add: between_def)
        then have "ev_seq ev \<le> seen" using seen(2) ev by auto
        then show False using that by simp
      qed
      then show ?thesis using last by (auto simp: between_def)
    qed
    then have "filter (\<lambda>ev. seen < ev_seq ev \<and> from < ev_seq ev \<and> ev_seq ev \<le> ?c) M = filter (between seen ?C) M"
      by (intro filter_cong [OF refl])
    then show ?thesis by (subst g) (simp add: conj_commute conj_left_commute)
  qed
  ultimately show ?thesis
    using assms(6) between_split [OF assms(1) seen(1) C] seen(1) C by (simp add: answers_def)
qed

text \<open>The events of the topics waited for.\<close>

abbreviation note_events :: "event list \<Rightarrow> event list" where
  "note_events \<equiv> filter (asked_for wait_topics)"

lemma in_order_seqs: "map ev_seq xs = map Suc [0..<length xs] \<Longrightarrow> in_order_of ev_seq xs"
  using seq_nth [of xs] by (simp add: sorted_wrt_iff_nth_less)

lemma in_order_kept: "history_ok s \<Longrightarrow> in_order_of ev_seq (hs_kept s)"
  by (rule in_order_seqs [OF history_seqs])

lemma see_buffered_fold:
  "fold (see_buffered m) g (c, out) = (fold (\<lambda>ev. max (ev_seq ev)) g c, out @ List.map_filter m g)"
  by (induction g arbitrary: c out) (auto simp: see_buffered_def List.map_filter_simps max_def split: option.splits)

text \<open>What a replay gives is what was kept after the cursor and until then.\<close>

lemma replayed_between:
  assumes "history_ok s1" and "ReplaySince cursor topics (hs_hub s1) = (buffered, False)"
    and "prefix (hs_kept s1) (hs_kept s2)" and "history_ok s2"
  shows "buffered = filter (between cursor (length (hs_kept s1))) (filter (asked_for topics) (hs_kept s2))"
proof -
  note seqs = history_seqs [OF assms(1)] history_seqs [OF assms(4)]
  have "cursor \<le> hb_seq (hs_hub s1)" using assms(2) by (auto simp: ReplaySince_def Let_def split: if_splits)
  then have "buffered = filter (asked_for topics) (drop cursor (hs_kept s1))"
    using replay_eq [OF assms(1,2)] by (auto simp: max_def)
  also have "drop cursor (hs_kept s1) = filter (\<lambda>ev. ev_seq ev > cursor) (hs_kept s1)"
    using later_than [OF seqs(1), of cursor 0] by simp
  also have "\<dots> = filter (between cursor (length (hs_kept s1))) (hs_kept s2)"
  proof -
    obtain t where t: "hs_kept s2 = hs_kept s1 @ t" using assms(3) by (auto simp: prefix_def)
    have "ev_seq ev \<le> length (hs_kept s1)" if ev: "ev \<in> set (hs_kept s1)" for ev
    proof -
      have "ev_seq ev \<in> set (map Suc [0..<length (hs_kept s1)])" unfolding seqs(1) [symmetric] using ev by simp
      then show ?thesis by auto
    qed
    moreover have "drop (length (hs_kept s1)) (hs_kept s2) = t" by (simp add: t)
    then have "t = filter (\<lambda>ev. ev_seq ev > length (hs_kept s1)) (hs_kept s2)" using later_than [OF seqs(2), of "length (hs_kept s1)" 0] by simp
    then have "ev_seq ev > length (hs_kept s1)" if "ev \<in> set t" for ev
      using that by (metis (mono_tags, lifting) mem_Collect_eq set_filter)
    ultimately show ?thesis unfolding t by (auto simp: between_def filter_empty_conv not_le intro!: filter_cong)
  qed
  finally show ?thesis by (simp add: conj_commute)
qed

text \<open>C24: A wait has no gaps: the subscription made before the replay, the replay not cut short and nothing dropped from
  the subscription's channel, the answer's events are exactly the matching ones kept after the cursor up to the new cursor,
  each once, in order, whatever was published and whoever came and went meanwhile.\<close>

theorem wait_has_no_gap:
  assumes "hub_reachable buf_len ring_len s0" and "\<not> offering (hs_pub s0)" and "\<not> made (hs_hub s0) i"
    and "hub_step\<^sup>*\<^sup>* (s0\<lparr>hs_hub := Subscribe i wait_topics (hs_hub s0), hs_from := (hs_from s0)(i := length (hs_offered s0))\<rparr>) s1"
    and "ReplaySince cursor wait_topics (hs_hub s1) = (buffered, False)"
    and "hub_step\<^sup>*\<^sup>* s1 s2" and "hs_lost s2 i = 0" and "prefix (gots ls) (hs_got s2 i)"
    and "wait_answer m cursor (buffered, False) now_seq ls = Some res"
  shows "wr_events res = List.map_filter m (filter (between cursor (wr_cursor res)) (note_events (hs_kept s2))) \<and>
    cursor \<le> wr_cursor res \<and> \<not> wr_resync res"
proof -
  let ?s = "s0\<lparr>hs_hub := Subscribe i wait_topics (hs_hub s0), hs_from := (hs_from s0)(i := length (hs_offered s0))\<rparr>"
  let ?M = "note_events (hs_kept s2)" and ?n = "length (hs_kept s1)" and ?from = "length (hs_offered s0)"
  have step: "hub_step s0 ?s" by (rule Subscribed [OF assms(2,3)])
  then have r: "hub_reachable buf_len ring_len ?s" by (rule hub_reachable.Step [OF assms(1)])
  then have r2: "hub_reachable buf_len ring_len s2" and h1: "history_ok s1" and h2: "history_ok s2"
    using assms(4,6) reachable_steps history_reachable by blast+
  have "?from \<le> length (hs_kept s0)" using history_reachable [OF assms(1)] by (auto simp: history_ok_def)
  also have "\<dots> \<le> ?n" using kept_grows_steps [OF assms(4)] by (auto dest: prefix_length_le)
  finally have from_n: "?from \<le> ?n" .
  have buf: "buffered = filter (between cursor ?n) ?M" by (rule replayed_between [OF h1 assms(5) kept_grows_steps [OF assms(6)] h2])
  have sub: "same_sub ?s s2 i" using sub_stays_steps [OF rtranclp_trans [OF assms(4,6)], of i] by (simp add: Subscribe_sub)
  then have "wanted (sub_at (hs_hub s2) i) = asked_for wait_topics"
    by (auto simp: fun_eq_iff same_sub_def Subscribe_sub wanted_def subscriptionMatches_def asked_for_def topicIn_def)
  moreover have "drop ?from (hs_kept s2) = filter (\<lambda>ev. ?from < ev_seq ev) (hs_kept s2)"
    using later_than [OF history_seqs [OF h2], of ?from 0] by simp
  ultimately have got: "prefix (gots ls) (filter (\<lambda>ev. ?from < ev_seq ev) ?M)"
    using nothing_lost [OF r2 _ assms(7)] sub assms(8) by (auto simp: same_sub_def conj_commute intro: prefix_order.trans)
  have order: "in_order_of ev_seq ?M" by (rule sorted_wrt_filter [OF in_order_kept [OF h2]])
  show ?thesis
  proof (cases "after_replay m cursor (buffered, False) now_seq")
    case (Inl r)
    then have r: "r = res" "wr_events r = List.map_filter m buffered" "wr_cursor r = fold (\<lambda>ev. max (ev_seq ev)) buffered cursor" "\<not> wr_resync r"
      using assms(9) by (auto simp: wait_answer_def after_replay_def see_buffered_fold split: if_splits)
    note seen = fold_max [where seen = cursor and g = buffered, folded r(3)]
    have "filter (between cursor ?n) ?M = filter (between cursor (wr_cursor r)) ?M"
      using seen(2,3) unfolding buf by (intro filter_cong [OF refl]) (auto simp: between_def)
    then show ?thesis using r seen(1) buf by simp
  next
    case (Inr seen)
    then have quiet: "List.map_filter m buffered = []" and seen: "seen = fold (\<lambda>ev. max (ev_seq ev)) buffered cursor"
      and loop: "wait_loop m seen ls = Some res"
      using assms(9) by (auto simp: wait_answer_def after_replay_def see_buffered_fold split: if_splits)
    obtain zs where zs: "filter (\<lambda>ev. ?from < ev_seq ev) ?M = gots ls @ zs" using got by (rule prefixE)
    have "in_order_of ev_seq (gots ls @ zs)" unfolding zs [symmetric] by (rule sorted_wrt_filter [OF order])
    then have "in_order_of ev_seq (gots ls)" by (simp add: sorted_wrt_append)
    then obtain g where g: "prefix g (gots ls)" "answers m seen g res" using loop_answers [OF loop] by blast
    have "prefix g (filter (\<lambda>ev. ?from < ev_seq ev) ?M)" using g(1) got by (rule prefix_order.trans)
    from no_gap [OF order from_n this seen [unfolded buf] quiet [unfolded buf] g(2)] show ?thesis using g(2) by (simp add: answers_def)
  qed
qed

end
