(* ===== verification/HubSample.thy ===== *)
theory HubSample
  imports WaitChanges
begin

text \<open>
  A burst of notes over the hub as the server makes it, and a wait of one event: the theorems on the hub
  at a concrete input, and what a wait does not see of a burst longer than its channel.
\<close>

subsection \<open>A burst\<close>

text \<open>A note's event, the token of an administrator, and the first event of a hub that has one subscriber.\<close>

definition any_note :: "string \<Rightarrow> note_payload option" where
  "any_note data = Some \<lparr>np_action = ''update'', np_path = ''p/a.md'', np_etag = ''e'', np_source = ''mcp''\<rparr>"

definition admin_waits :: "event \<Rightarrow> wait_event option" where
  "admin_waits = wait_matches any_note AdminToken (\<lambda>_. False) []"

definition waiting_hub :: hub where "waiting_hub = Subscribe 0 wait_topics (NewHub 0 0)"

fun publish_n :: "nat \<Rightarrow> hub \<Rightarrow> hub option" where
  "publish_n 0 h = Some h"
| "publish_n (Suc k) h = (case Publish ''note'' 0 (Some []) h of None \<Rightarrow> None | Some h' \<Rightarrow> publish_n k h')"

definition burst_hub :: hub where "burst_hub = the (publish_n 33 waiting_hub)"

lemma burst_computed:
  "publish_n 33 waiting_hub \<noteq> None" "0 |\<in>| hb_subs burst_hub" "snd (ReplaySince 1 wait_topics burst_hub) = False" "Seq burst_hub = 33"
  "hb_ring_cap burst_hub = 256"
  by code_simp+

text \<open>A wait loses the start of a burst and does not say so: when 33 notes are published before the waiting call
  takes one off its channel of 32, it answers the last 32 with resync false and a cursor past all of them, and the next call
  with that cursor replays nothing and says nothing is missing, while the ring still holds the first event.\<close>

theorem burst_skipped:
  "ReplaySince 0 wait_topics waiting_hub = ([], False) \<and>
   map ev_seq (filter (\<lambda>ev. admin_waits ev \<noteq> None) (hb_ring burst_hub)) = map Suc [0..<33] \<and>
   (\<exists>res. wait_answer admin_waits 0 ([], False) 0 (map Got (sb_queue (sub_at burst_hub 0)) @ [NothingThere]) = Some res \<and>
     map we_seq (wr_events res) = map Suc [1..<33] \<and> wr_cursor res = 33 \<and> \<not> wr_resync res \<and>
     ReplaySince (wr_cursor res) wait_topics burst_hub = ([], False))"
proof -
  let ?w = "wait_answer admin_waits 0 ([], False) 0 (map Got (sb_queue (sub_at burst_hub 0)) @ [NothingThere])"
  have "case ?w of None \<Rightarrow> False
    | Some res \<Rightarrow> map we_seq (wr_events res) = map Suc [1..<33] \<and> wr_cursor res = 33 \<and> \<not> wr_resync res \<and>
       ReplaySince (wr_cursor res) wait_topics burst_hub = ([], False)"
    by code_simp
  moreover have "ReplaySince 0 wait_topics waiting_hub = ([], False)" by code_simp
  moreover have "map ev_seq (filter (\<lambda>ev. admin_waits ev \<noteq> None) (hb_ring burst_hub)) = map Suc [0..<33]" by code_simp
  ultimately show ?thesis by (auto split: option.splits)
qed

lemma publish_n_steps:
  "publish_n k (hs_hub s) = Some h \<Longrightarrow> hs_pub s = NoPublish \<Longrightarrow> \<exists>s'. hub_step\<^sup>*\<^sup>* s s' \<and> hs_hub s' = h \<and> hs_pub s' = NoPublish"
proof (induction k arbitrary: s)
  case 0
  then show ?case by (intro exI [of _ s]) simp
next
  case (Suc k)
  then obtain h1 where h1: "Publish ''note'' 0 (Some []) (hs_hub s) = Some h1" "publish_n k h1 = Some h" by (auto split: option.splits)
  obtain s1 where s1: "hub_step\<^sup>*\<^sup>* s s1" "hs_hub s1 = h1" "hs_pub s1 = NoPublish" using publish_steps [OF Suc.prems(2) h1(1)] by blast
  then show ?case using Suc.IH [of s1] h1(2) by (meson rtranclp_trans)
qed

definition one_waits :: hub_sys where
  "one_waits = (new_hub_sys 0 0)\<lparr>hs_hub := waiting_hub, hs_from := (\<lambda>_. 0)(0 := 0)\<rparr>"

lemma one_waits_step: "hub_step (new_hub_sys 0 0) one_waits"
  using Subscribed [of "new_hub_sys 0 0" 0 wait_topics]
  by (simp add: one_waits_def waiting_hub_def new_hub_sys_def made_def NewHub_def)

lemma burst_reached: "\<exists>s. hub_reachable 0 0 s \<and> hs_hub s = burst_hub \<and> hs_pub s = NoPublish"
proof -
  have one: "hub_reachable 0 0 one_waits" by (rule hub_reachable.Step [OF hub_reachable.New one_waits_step])
  have "publish_n 33 (hs_hub one_waits) = Some burst_hub" using burst_computed(1) by (simp add: burst_hub_def one_waits_def)
  from publish_n_steps [OF this] show ?thesis using reachable_steps [OF _ one] by (auto simp: one_waits_def new_hub_sys_def)
qed

lemma replay_tells_gaps_witness:
  "\<exists>s::hub_sys. hs_hub s = burst_hub \<and> hs_kept s \<noteq> [] \<and> fst (ReplaySince 1 wait_topics burst_hub) = filter (asked_for wait_topics) (drop 1 (hs_kept s))"
proof -
  obtain s where s: "hub_reachable 0 0 s" "hs_hub s = burst_hub" using burst_reached by blast
  have rep: "ReplaySince 1 wait_topics (hs_hub s) = (fst (ReplaySince 1 wait_topics burst_hub), False)"
    using burst_computed(3) s(2) by (simp add: prod_eq_iff)
  from replay_tells_gaps [OF s(1) rep] show ?thesis using s(2) burst_computed(4) by (auto split: if_splits)
qed

lemma subscriber_gets_in_order_witness:
  "\<exists>(s::hub_sys) seen. filter (wanted (sub_at burst_hub 0)) (drop (hs_from s 0) (hs_kept s)) = seen @ sb_queue (sub_at burst_hub 0) \<and> subseq (hs_got s 0) seen"
proof -
  obtain s where s: "hub_reachable 0 0 s" "hs_hub s = burst_hub" "hs_pub s = NoPublish" using burst_reached by blast
  from subscriber_gets_in_order [OF s(1,3), of 0] show ?thesis using s(2) burst_computed(2) by (intro exI [of _ s]) auto
qed

lemma hub_never_panics_witness: "\<exists>s::hub_sys. 0 |\<in>| hs_closing s \<and> close_channel 0 (hs_hub s) \<noteq> None"
proof -
  obtain s where s: "hub_reachable 0 0 s" "hs_hub s = burst_hub" "hs_pub s = NoPublish" using burst_reached by blast
  then obtain h' where h': "unregister 0 (hs_hub s) = (True, h')" using burst_computed(2) by (simp add: unregister_def)
  let ?s = "s\<lparr>hs_hub := h', hs_closing := finsert 0 (hs_closing s)\<rparr>"
  have "hub_reachable 0 0 ?s" by (rule hub_reachable.Step [OF s(1) Unregistered [OF _ h']]) (simp add: s(3))
  from hub_never_panics [OF this, of 0] have "close_channel 0 (hs_hub ?s) \<noteq> None" by (simp del: not_None_eq)
  moreover have "0 |\<in>| hs_closing ?s" by simp
  ultimately show ?thesis by blast
qed

text \<open>One event is published to the waiting subscriber, which takes it.\<close>

definition first_event :: event where
  "first_event = \<lparr>ev_id = ''1'', ev_seq = 1, ev_topic = ''note'', ev_time = 0, ev_data = []\<rparr>"

lemma wait_has_no_gap_witness:
  "\<exists>(s::hub_sys) res. wait_answer admin_waits 0 ([], False) 0 [Got first_event, NothingThere] = Some res \<and> length (wr_events res) = 1 \<and>
     wr_events res = List.map_filter admin_waits (filter (between 0 1) (note_events (hs_kept s)))"
proof -
  let ?e = first_event
  let ?h1 = "waiting_hub\<lparr>hb_seq := 1\<rparr>"
  let ?h3 = "on_sub 0 (sb_queue_update (\<lambda>q. q @ [?e])) (ring_push ?e ?h1)"
  let ?h5 = "on_sub 0 (sb_queue_update (\<lambda>_. [])) ?h3"
  let ?s1 = "one_waits\<lparr>hs_hub := ?h1, hs_pub := Numbered ?e\<rparr>"
  let ?s2 = "?s1\<lparr>hs_hub := ring_push ?e ?h1, hs_pub := Kept ?e, hs_kept := hs_kept ?s1 @ [?e]\<rparr>"
  let ?s3 = "?s2\<lparr>hs_pub := Offering ?e (hb_subs (hs_hub ?s2)), hs_offered := hs_offered ?s2 @ [?e], hs_due := add_due ?e (hs_hub ?s2) (hs_due ?s2)\<rparr>"
  let ?s4 = "?s3\<lparr>hs_hub := ?h3, hs_pub := Offering ?e (hb_subs (hs_hub ?s2) |-| {|0|})\<rparr>"
  let ?s5 = "?s4\<lparr>hs_hub := ?h5, hs_got := (hs_got ?s4)(0 := hs_got ?s4 0 @ [?e])\<rparr>"
  have one: "show_nat (Suc 0) = ''1''" by code_simp
  have "hub_step one_waits ?s1"
    by (rule PublishNumber [of _ "''note''" 0 "[]"])
      (simp_all add: one_waits_def new_hub_sys_def next_event_eq first_event_def waiting_hub_def Subscribe_def NewHub_def one)
  moreover have "hub_step ?s1 ?s2" using PublishKeep [of ?s1 ?e] by simp
  moreover have "hub_step ?s2 ?s3" using PublishOffer [of ?s2 ?e] by simp
  moreover have "hub_step ?s3 ?s4"
    using hub_step.Sent [of ?s3 ?e "hb_subs (hs_hub ?s2)" 0 ?h3]
    by (simp add: waiting_hub_def Subscribe_def NewHub_def subscriptionMatches_def wait_topics_def first_event_def send_def)
  moreover have "hub_step ?s4 ?s5"
    using Received [of 0 ?s4 ?e ?h5] by (simp add: receive_Some waiting_hub_def Subscribe_def NewHub_def)
  ultimately have steps: "hub_step\<^sup>*\<^sup>* one_waits ?s5" by (meson r_into_rtranclp rtranclp.rtrancl_into_rtrancl)
  obtain res where res: "wait_answer admin_waits 0 ([], False) 0 [Got ?e, NothingThere] = Some res" "length (wr_events res) = 1" "wr_cursor res = 1"
    by (simp add: wait_answer_def after_replay_def first_event_def admin_waits_def wait_matches_def any_note_def AllowsPath_def AdminToken_def ProjectList_def)
  have "wr_events res = List.map_filter admin_waits (filter (between 0 (wr_cursor res)) (note_events (hs_kept ?s5))) \<and> 0 \<le> wr_cursor res \<and> \<not> wr_resync res"
  proof (rule wait_has_no_gap [OF hub_reachable.New _ _ _ _ steps _ _ res(1)])
    show "hub_step\<^sup>*\<^sup>* ((new_hub_sys 0 0)\<lparr>hs_hub := Subscribe 0 wait_topics (hs_hub (new_hub_sys 0 0)),
        hs_from := (hs_from (new_hub_sys 0 0))(0 := length (hs_offered (new_hub_sys 0 0)))\<rparr>) one_waits"
      by (simp add: one_waits_def waiting_hub_def new_hub_sys_def)
  qed (simp_all add: new_hub_sys_def made_def NewHub_def one_waits_def waiting_hub_def Subscribe_def ReplaySince_def)
  with res show ?thesis by (intro exI [of _ ?s5] exI [of _ res]) simp
qed

end
