(* ===== verification/OAuthNet.thy ===== *)
theory OAuthNet
  imports GoStrings "HOL-Library.Word"
begin

text \<open>
  \<open>internal/oauth/clients.go\<close> and \<open>oauth.go\<close>: the addresses and the redirect addresses. What a
  metadata document may be fetched from (\<open>isDisallowedIP\<close>), which redirect addresses a client may
  register, and which of them a request may present.

  An address of Go's \<open>net\<close> package is its 4 or 16 bytes (\<open>nil\<close> is the empty list), and the predicates of
  \<open>net.IP\<close> are written out. The parser of addresses and \<open>net/url\<close> are parameters, in \<open>oauth_lib\<close>, with
  the hash of a secret and the PKCE transform.
\<close>

subsection \<open>Addresses\<close>

type_synonym net_ip = "8 word list"

definition to4 :: "net_ip \<Rightarrow> net_ip option" where
  "to4 ip =
     (if length ip = 4 then Some ip
      else if length ip = 16 \<and> take 12 ip = replicate 10 0 @ [0xff, 0xff] then Some (drop 12 ip)
      else None)"

definition IPv6loopback :: net_ip where "IPv6loopback = replicate 15 0 @ [1]"
definition IPv6zero :: net_ip where "IPv6zero = replicate 16 0"

definition IsLoopback :: "net_ip \<Rightarrow> bool" where
  "IsLoopback ip = (case to4 ip of Some v \<Rightarrow> v ! 0 = 127 | None \<Rightarrow> ip = IPv6loopback)"

definition IsPrivate :: "net_ip \<Rightarrow> bool" where
  "IsPrivate ip =
     (case to4 ip of
        Some v \<Rightarrow> v ! 0 = 10 \<or> v ! 0 = 172 \<and> and (v ! 1) 0xf0 = 16 \<or> v ! 0 = 192 \<and> v ! 1 = 168
      | None \<Rightarrow> length ip = 16 \<and> and (ip ! 0) 0xfe = 0xfc)"

definition IsLinkLocalUnicast :: "net_ip \<Rightarrow> bool" where
  "IsLinkLocalUnicast ip =
     (case to4 ip of
        Some v \<Rightarrow> v ! 0 = 169 \<and> v ! 1 = 254
      | None \<Rightarrow> length ip = 16 \<and> ip ! 0 = 0xfe \<and> and (ip ! 1) 0xc0 = 0x80)"

definition IsLinkLocalMulticast :: "net_ip \<Rightarrow> bool" where
  "IsLinkLocalMulticast ip =
     (case to4 ip of
        Some v \<Rightarrow> v ! 0 = 224 \<and> v ! 1 = 0 \<and> v ! 2 = 0
      | None \<Rightarrow> length ip = 16 \<and> ip ! 0 = 0xff \<and> and (ip ! 1) 0x0f = 2)"

definition IsMulticast :: "net_ip \<Rightarrow> bool" where
  "IsMulticast ip =
     (case to4 ip of Some v \<Rightarrow> and (v ! 0) 0xf0 = 0xe0 | None \<Rightarrow> length ip = 16 \<and> ip ! 0 = 0xff)"

definition IsUnspecified :: "net_ip \<Rightarrow> bool" where
  "IsUnspecified ip = (to4 ip = Some [0, 0, 0, 0] \<or> ip = IPv6zero)"

definition IsInterfaceLocalMulticast :: "net_ip \<Rightarrow> bool" where
  "IsInterfaceLocalMulticast ip = (length ip = 16 \<and> ip ! 0 = 0xff \<and> and (ip ! 1) 0x0f = 1)"

definition isDisallowedIP :: "net_ip \<Rightarrow> bool" where
  "isDisallowedIP ip =
     (if ip = [] \<or> IsLoopback ip \<or> IsPrivate ip \<or> IsLinkLocalUnicast ip \<or> IsLinkLocalMulticast ip
         \<or> IsMulticast ip \<or> IsUnspecified ip \<or> IsInterfaceLocalMulticast ip then True
      else
        case to4 ip of
          None \<Rightarrow> False
        | Some v \<Rightarrow> v ! 0 = 100 \<and> and (v ! 1) 0xc0 = 64 \<or> v ! 0 = 0 \<or> v ! 0 = 192 \<and> v ! 1 = 0 \<and> v ! 2 = 0
            \<or> v ! 0 = 198 \<and> and (v ! 1) 0xfe = 18 \<or> v ! 0 \<ge> 240)"

text \<open>The same, as a list of networks: the bits of a prefix, and how many of them count.\<close>

definition ip_value :: "net_ip \<Rightarrow> nat" where
  "ip_value ip = foldl (\<lambda>n b. n * 256 + unat b) 0 ip"

definition in_net :: "nat \<Rightarrow> nat \<Rightarrow> nat \<times> nat \<Rightarrow> bool" where
  "in_net bits n net = (n div 2 ^ (bits - snd net) = fst net)"

definition refused_v4 :: "(nat \<times> nat) list" where
  "refused_v4 =
     [(0, 8), (10, 8), (100 * 4 + 1, 10), (127, 8), (169 * 256 + 254, 16), (172 * 16 + 1, 12),
      (192 * 65536, 24), (192 * 256 + 168, 16), (198 * 128 + 9, 15), (14, 4), (15, 4)]"

definition refused_v6 :: "(nat \<times> nat) list" where
  "refused_v6 = [(0, 128), (1, 128), (126, 7), (0xfe * 4 + 2, 10), (0xff, 8)]"

definition refused :: "net_ip \<Rightarrow> bool" where
  "refused ip =
     (case to4 ip of
        Some v \<Rightarrow> list_ex (in_net 32 (ip_value v)) refused_v4
      | None \<Rightarrow> list_ex (in_net 128 (ip_value ip)) refused_v6)"

subsection \<open>Bytes\<close>

lemma byte_bound: "unat (w :: 8 word) < 256"
  using unsigned_less [of w] by simp

lemma unat_and_high:
  fixes w :: "8 word"
  shows "unat (and w (not (mask k))) = unat w div 2 ^ k * 2 ^ k"
proof -
  have "and w (not (mask k)) = push_bit k (drop_bit k w)"
    by (simp add: bit_eq_iff bit_simps) (auto)
  then have "unat (and w (not (mask k))) = take_bit 8 (push_bit k (drop_bit k (unat w)))"
    using byte_bound [of w] by (simp only: unsigned_push_bit_eq unsigned_drop_bit_eq len_num1 len_bit0) (simp add: take_bit_nat_eq_self)
  moreover have "unat w div 2 ^ k * 2 ^ k < 2 ^ 8"
    using le_less_trans [OF div_times_less_eq_dividend byte_bound [of w]] by simp
  ultimately show ?thesis
    by (simp add: push_bit_eq_mult drop_bit_eq_div take_bit_nat_eq_self)
qed

lemma byte_masks:
  fixes w :: "8 word"
  shows "unat (and w 0xf0) = unat w div 16 * 16" "unat (and w 0xfe) = unat w div 2 * 2"
    "unat (and w 0xc0) = unat w div 64 * 64"
proof -
  have m: "(0xf0 :: 8 word) = not (mask 4)" "(0xfe :: 8 word) = not (mask 1)" "(0xc0 :: 8 word) = not (mask 6)"
    by (simp_all add: mask_eq_exp_minus_1)
  show "unat (and w 0xf0) = unat w div 16 * 16" by (simp only: m unat_and_high) simp
  show "unat (and w 0xfe) = unat w div 2 * 2" by (simp only: m unat_and_high) simp
  show "unat (and w 0xc0) = unat w div 64 * 64" by (simp only: m unat_and_high) simp
qed

subsection \<open>Values\<close>

lemma foldl_value: "foldl (\<lambda>n b. n * 256 + unat (b :: 8 word)) x ys = x * 256 ^ length ys + ip_value ys"
proof (induction ys arbitrary: x)
  case (Cons y ys)
  from Cons [of "x * 256 + unat y"] Cons [of "unat y"] show ?case
    by (simp add: ip_value_def algebra_simps)
qed (simp add: ip_value_def)

lemma ip_value_Cons: "ip_value (b # bs) = unat b * 256 ^ length bs + ip_value bs"
  using foldl_value [of "unat b" bs] by (simp add: ip_value_def)

lemma ip_value_bound: "ip_value bs < 256 ^ length bs"
proof (induction bs)
  case (Cons b bs)
  have "Suc (unat b) * 256 ^ length bs \<le> 256 * 256 ^ length bs"
    by (rule mult_right_mono) (use byte_bound [of b] in simp_all)
  then have "unat b * 256 ^ length bs + 256 ^ length bs \<le> 256 ^ length (b # bs)" by (simp add: add.commute)
  with Cons show ?case by (simp only: ip_value_Cons)
qed (simp add: ip_value_def)

lemma ip_value_first: "ip_value (b # bs) div 256 ^ length bs = unat b"
  using ip_value_bound [of bs] by (simp add: ip_value_Cons)

lemma ip_value_inj: "length xs = length ys \<Longrightarrow> ip_value xs = ip_value ys \<Longrightarrow> xs = ys"
proof (induction xs ys rule: list_induct2)
  case (Cons x xs y ys)
  then have "unat x = unat y" using ip_value_first [of x xs] ip_value_first [of y ys] by simp
  with Cons show ?case by (simp add: ip_value_Cons word_unat_eq_iff)
qed simp

lemma prefix_div: "m \<le> 8 \<Longrightarrow> (x * 256 + y) div 2 ^ m = x * 2 ^ (8 - m) + y div 2 ^ m" for x y m :: nat
proof -
  assume "m \<le> 8"
  then have "(256 :: nat) = 2 ^ (8 - m) * 2 ^ m" by (simp flip: power_add)
  then have "x * 256 + y = y + x * 2 ^ (8 - m) * 2 ^ m" by (simp only: mult.assoc add.commute)
  then have "(x * 256 + y) div 2 ^ m = (y + x * 2 ^ (8 - m) * 2 ^ m) div 2 ^ m" by (rule arg_cong)
  also have "\<dots> = x * 2 ^ (8 - m) + y div 2 ^ m" by (rule div_mult_self1) simp
  finally show ?thesis .
qed

lemma v4_nets:
  fixes a b c d :: "8 word"
  defines "n \<equiv> ip_value [a, b, c, d]"
  shows "n div 2 ^ 24 = unat a" "n div 2 ^ 16 = unat a * 256 + unat b"
    "n div 2 ^ 8 = (unat a * 256 + unat b) * 256 + unat c"
    "n div 2 ^ 28 = unat a div 16" "n div 2 ^ 22 = unat a * 4 + unat b div 64"
    "n div 2 ^ 20 = unat a * 16 + unat b div 16" "n div 2 ^ 17 = unat a * 128 + unat b div 2"
proof -
  have n: "n = ((unat a * 256 + unat b) * 256 + unat c) * 256 + unat d"
    by (simp add: n_def ip_value_def)
  show 8: "n div 2 ^ 8 = (unat a * 256 + unat b) * 256 + unat c"
    using byte_bound [of d] by (simp add: n)
  have "n div 2 ^ 16 = n div 2 ^ 8 div 2 ^ 8" by (simp flip: div_mult2_eq)
  then show 16: "n div 2 ^ 16 = unat a * 256 + unat b" unfolding 8 using byte_bound [of c] by simp
  have "n div 2 ^ 24 = n div 2 ^ 16 div 2 ^ 8" by (simp flip: div_mult2_eq)
  then show 24: "n div 2 ^ 24 = unat a" unfolding 16 using byte_bound [of b] by simp
  have "n div 2 ^ 28 = n div 2 ^ 24 div 2 ^ 4" by (simp flip: div_mult2_eq)
  then show "n div 2 ^ 28 = unat a div 16" unfolding 24 by simp
  have "n div 2 ^ 22 = n div 2 ^ 16 div 2 ^ 6" by (simp flip: div_mult2_eq)
  then show "n div 2 ^ 22 = unat a * 4 + unat b div 64" unfolding 16 by (simp add: prefix_div [of 6, simplified])
  have "n div 2 ^ 20 = n div 2 ^ 16 div 2 ^ 4" by (simp flip: div_mult2_eq)
  then show "n div 2 ^ 20 = unat a * 16 + unat b div 16" unfolding 16 by (simp add: prefix_div [of 4, simplified])
  have "n div 2 ^ 17 = n div 2 ^ 16 div 2 ^ 1" by (simp flip: div_mult2_eq)
  then show "n div 2 ^ 17 = unat a * 128 + unat b div 2" unfolding 16 by (simp add: prefix_div [of 1, simplified])
qed

lemma digits_eq: "y < m \<Longrightarrow> v < m \<Longrightarrow> x * m + y = u * m + v \<longleftrightarrow> x = u \<and> y = v" for x y u v m :: nat
proof -
  assume "y < m" "v < m"
  then have "(x * m + y) div m = x" "(x * m + y) mod m = y" "(u * m + v) div m = u" "(u * m + v) mod m = v"
    by simp_all
  then show ?thesis by metis
qed

subsection \<open>The networks refused\<close>

lemma disallowed_v4: "isDisallowedIP [a, b, c, d] \<longleftrightarrow> list_ex (in_net 32 (ip_value [a, b, c, d])) refused_v4"
proof -
  have ab: "unat a * 256 + unat b = x * 256 + y \<longleftrightarrow> unat a = x \<and> unat b = y" if "y < 256" for x y
    by (rule digits_eq) (use that byte_bound in auto)
  have abc: "(unat a * 256 + unat b) * 256 + unat c = (x * 256 + y) * 256 + z \<longleftrightarrow> unat a = x \<and> unat b = y \<and> unat c = z"
    if "y < 256" "z < 256" for x y z
    using ab [of y x] that byte_bound [of c] by (subst digits_eq) auto
  have pre: "unat a * m + unat b div k = x * m + y \<longleftrightarrow> unat a = x \<and> unat b div k = y" if "y < m" "m * k = 256" for m k x y
    by (rule digits_eq) (use that byte_bound [of b] in \<open>auto simp: less_mult_imp_div_less\<close>)
  have top: "240 \<le> a \<longleftrightarrow> unat a div 16 = 15"
  proof -
    have "240 \<le> a \<longleftrightarrow> 240 \<le> unat a" by (simp add: word_le_nat_alt)
    also have "\<dots> \<longleftrightarrow> unat a div 16 = 15"
      using byte_bound [of a] div_le_mono [of 240 "unat a" 16] less_mult_imp_div_less [of "unat a" 16 16] by (cases "240 \<le> unat a") auto
    finally show ?thesis .
  qed
  have no6: "[a, b, c, d] \<noteq> IPv6zero" by (auto simp: IPv6zero_def dest: arg_cong [of _ _ length])
  have multi: "unat a = 224 \<Longrightarrow> unat a div 16 = 14" by simp
  have mul: "unat w div 16 * 16 = 16 \<longleftrightarrow> unat w div 16 = 1" "unat w div 16 * 16 = 224 \<longleftrightarrow> unat w div 16 = 14"
    "unat w div 2 * 2 = 18 \<longleftrightarrow> unat w div 2 = 9" "unat w div 64 * 64 = 64 \<longleftrightarrow> unat w div 64 = 1" for w :: "8 word"
    by auto
  show ?thesis
    using ab [of 254 169] ab [of 168 192] abc [of 0 0 192] pre [of 1 4 64 100] pre [of 1 16 16 172] pre [of 9 128 2 198] multi
    by (simp add: isDisallowedIP_def to4_def IsLoopback_def IsPrivate_def IsLinkLocalUnicast_def IsLinkLocalMulticast_def
      IsMulticast_def IsUnspecified_def IsInterfaceLocalMulticast_def refused_v4_def in_net_def v4_nets [simplified] byte_masks
      top word_unat_eq_iff no6 mul [simplified]) blast
qed


lemma v6_nets:
  assumes "ip = a # b # bs" and "length ip = 16"
  shows "ip_value ip div 2 ^ 120 = unat a" "ip_value ip div 2 ^ 121 = unat a div 2"
    "ip_value ip div 2 ^ 118 = unat a * 4 + unat b div 64"
proof -
  let ?n = "ip_value ip"
  have len: "length bs = 14" using assms by simp
  show first: "?n div 2 ^ 120 = unat a"
    using ip_value_first [of a "b # bs"] by (simp add: assms(1) len)
  have "?n div 2 ^ 121 = ?n div 2 ^ 120 div 2 ^ 1" by (simp flip: div_mult2_eq)
  then show "?n div 2 ^ 121 = unat a div 2" unfolding first by simp
  have "?n = (unat a * 256 + unat b) * 256 ^ 14 + ip_value bs"
    by (simp add: assms(1) ip_value_Cons len)
  then have two: "?n div 2 ^ 112 = unat a * 256 + unat b" using ip_value_bound [of bs] len by simp
  have "?n div 2 ^ 118 = ?n div 2 ^ 112 div 2 ^ 6" by (simp flip: div_mult2_eq)
  then show "?n div 2 ^ 118 = unat a * 4 + unat b div 64" unfolding two by (simp add: prefix_div [of 6, simplified])
qed

lemma disallowed_v6:
  assumes "length ip = 16" and "to4 ip = None"
  shows "isDisallowedIP ip \<longleftrightarrow> list_ex (in_net 128 (ip_value ip)) refused_v6"
proof -
  obtain a b bs where ip: "ip = a # b # bs"
    using assms(1) by (cases ip; cases "tl ip") auto
  have zero: "ip = IPv6zero \<longleftrightarrow> ip_value ip = 0" and one: "ip = IPv6loopback \<longleftrightarrow> ip_value ip = 1"
    using ip_value_inj [of ip IPv6zero] ip_value_inj [of ip IPv6loopback] assms(1)
    by (auto simp: IPv6zero_def IPv6loopback_def ip_value_def numeral_eq_Suc)
  have local: "unat a * 4 + unat b div 64 = 0xfe * 4 + 2 \<longleftrightarrow> unat a = 0xfe \<and> unat b div 64 = 2"
    by (rule digits_eq) (use byte_bound [of b] in \<open>auto simp: less_mult_imp_div_less\<close>)
  have mul: "unat w div 2 * 2 = 252 \<longleftrightarrow> unat w div 2 = 126" "unat w div 64 * 64 = 128 \<longleftrightarrow> unat w div 64 = 2" for w :: "8 word"
    by auto
  have "ip \<noteq> []" by (simp add: ip)
  then show ?thesis
    using assms local
    by (simp add: isDisallowedIP_def IsLoopback_def IsPrivate_def IsLinkLocalUnicast_def IsLinkLocalMulticast_def
      IsMulticast_def IsUnspecified_def IsInterfaceLocalMulticast_def refused_v6_def in_net_def zero one
      v6_nets [OF ip assms(1), simplified] byte_masks word_unat_eq_iff mul [simplified])
     (auto simp: ip byte_masks word_unat_eq_iff mul [simplified])
qed


text \<open>The fetch of a metadata document is refused exactly for the addresses of the listed networks: this host,
  the private, shared, loopback, link-local, protocol and benchmark networks, multicast and the reserved
  class of IPv4, and their IPv6 counterparts; an IPv4 address mapped into IPv6 counts as itself.\<close>

theorem disallowed_exact:
  assumes "length ip = 4 \<or> length ip = 16"
  shows "isDisallowedIP ip \<longleftrightarrow> refused ip"
proof (cases "to4 ip")
  case None
  then have "length ip = 16" using assms by (auto simp: to4_def split: if_splits)
  with None show ?thesis by (simp add: refused_def disallowed_v6)
next
  case (Some v)
  then have "length v = 4" by (auto simp: to4_def split: if_splits)
  then obtain a b c d where v: "v = [a, b, c, d]" by (auto simp: length_Suc_conv numeral_eq_Suc)
  have to4: "to4 v = Some v" by (simp add: v to4_def)
  have zero: "IsUnspecified ip \<longleftrightarrow> v = [0, 0, 0, 0]" if "to4 ip = Some v" for ip
  proof -
    have "to4 IPv6zero = None" by code_simp
    with that show ?thesis by (auto simp: IsUnspecified_def)
  qed
  have first: "\<not> IsInterfaceLocalMulticast ip" if "to4 ip = Some v" for ip
  proof
    assume "IsInterfaceLocalMulticast ip"
    then have "length ip = 16" "ip ! 0 = 0xff" by (simp_all add: IsInterfaceLocalMulticast_def)
    moreover from this have "take 12 ip = replicate 10 0 @ [0xff, 0xff]" using that by (simp add: to4_def split: if_splits)
    then have "take 12 ip ! 0 = 0" by (simp add: numeral_eq_Suc)
    ultimately show False by simp
  qed
  have "ip \<noteq> []" "v \<noteq> []" using assms v by auto
  then have "isDisallowedIP ip \<longleftrightarrow> isDisallowedIP v"
    by (simp add: isDisallowedIP_def zero [OF Some] zero [OF to4] first [OF Some] first [OF to4] Some to4 IsLoopback_def
      IsPrivate_def IsLinkLocalUnicast_def IsLinkLocalMulticast_def IsMulticast_def)
  then show ?thesis using Some by (simp add: refused_def v disallowed_v4)
qed

lemma disallowed_exact_witness:
  "isDisallowedIP [100, 64, 0, 1] \<longleftrightarrow> refused [100, 64, 0, 1]"
  using disallowed_exact [of "[100, 64, 0, 1]"] by simp

subsection \<open>Redirect addresses\<close>

record url =
  u_scheme :: string
  u_host :: string
  u_hostname :: string
  u_path :: string
  u_query :: string
  u_fragment :: string

text \<open>The library the server calls: \<open>url.Parse\<close>, \<open>URL.String\<close>, \<open>net.ParseIP\<close>, \<open>IP.String\<close>, the hexadecimal
  SHA-256 of a secret (\<open>hashHex\<close>) and the unpadded base64url SHA-256 of a PKCE verifier.\<close>

record oauth_lib =
  ol_url :: "string \<Rightarrow> url option"
  ol_show_url :: "url \<Rightarrow> string"
  ol_ip :: "string \<Rightarrow> net_ip option"
  ol_show_ip :: "net_ip \<Rightarrow> string"
  ol_hash :: "string \<Rightarrow> string"
  ol_s256 :: "string \<Rightarrow> string"

datatype redirect_error = NotAbsolute | HasFragment | HttpNotLoopback | BadScheme | HostNotAllowed

definition trim_chars :: "char list \<Rightarrow> string \<Rightarrow> string" where
  "trim_chars cs s = rev (dropWhile (List.member cs) (rev (dropWhile (List.member cs) s)))"

definition isLoopbackHost :: "oauth_lib \<Rightarrow> string \<Rightarrow> bool" where
  "isLoopbackHost lib h =
     (let host = to_lower (trim_chars ''[]'' h) in
      if host = ''localhost'' then True
      else case ol_ip lib host of Some ip \<Rightarrow> IsLoopback ip | None \<Rightarrow> False)"

definition validRedirectURI :: "oauth_lib \<Rightarrow> string \<Rightarrow> redirect_error option" where
  "validRedirectURI lib raw =
     (case ol_url lib raw of
        None \<Rightarrow> Some NotAbsolute
      | Some u \<Rightarrow>
          if u_scheme u = [] \<or> u_host u = [] then Some NotAbsolute
          else if u_fragment u \<noteq> [] then Some HasFragment
          else if u_scheme u = ''https'' then None
          else if u_scheme u = ''http'' then
            (if isLoopbackHost lib (u_hostname u) then None else Some HttpNotLoopback)
          else Some BadScheme)"

text \<open>The method of the server, with the hosts the configuration allows.\<close>

definition allowedRedirectURI :: "oauth_lib \<Rightarrow> string list \<Rightarrow> string \<Rightarrow> redirect_error option" where
  "allowedRedirectURI lib allowed raw =
     (case validRedirectURI lib raw of
        Some e \<Rightarrow> Some e
      | None \<Rightarrow>
          if allowed = [] then None
          else
            let host = to_lower (case ol_url lib raw of Some u \<Rightarrow> u_hostname u | None \<Rightarrow> []) in
            if isLoopbackHost lib host then None
            else if list_ex (\<lambda>a. equal_fold (trim_space a) host) allowed then None
            else Some HostNotAllowed)"

definition redirectMatches :: "oauth_lib \<Rightarrow> string \<Rightarrow> string \<Rightarrow> bool" where
  "redirectMatches lib registered presented =
     (if registered = presented then True
      else
        case (ol_url lib registered, ol_url lib presented) of
          (Some ru, Some pu) \<Rightarrow>
            if \<not> isLoopbackHost lib (u_hostname ru) \<or> \<not> isLoopbackHost lib (u_hostname pu) then False
            else u_scheme ru = u_scheme pu \<and> equal_fold (u_hostname ru) (u_hostname pu)
               \<and> u_path ru = u_path pu \<and> u_query ru = u_query pu
        | _ \<Rightarrow> False)"

definition limitKey :: "oauth_lib \<Rightarrow> string \<Rightarrow> string" where
  "limitKey lib ip =
     (case ol_ip lib ip of
        Some a \<Rightarrow> if to4 a = None then ol_show_ip lib (take 8 a @ replicate 8 0) @ ''/64'' else ip
      | None \<Rightarrow> ip)"

end
