(* ===== verification/OAuthClients.thy ===== *)
theory OAuthClients
  imports OAuthNet TokenStore Schedule
begin

text \<open>
  \<open>internal/oauth/clients.go\<close>: the clients of the OAuth server. The dynamically registered ones are
  kept in a bounded store with a file (\<open>client_sys\<close> is the pair), the ones that identify themselves with
  a metadata document in a cache. A fetched document is an argument, decoded or not.
\<close>

record client =
  cl_id :: string
  cl_name :: string
  cl_redirects :: "string list"
  cl_created :: time
  cl_last_used :: time
  cl_cimd :: bool

definition LoopbackOnly :: "oauth_lib \<Rightarrow> client \<Rightarrow> bool" where
  "LoopbackOnly lib c =
     (if cl_redirects c = [] then False
      else list_all (\<lambda>raw. case ol_url lib raw of None \<Rightarrow> False | Some u \<Rightarrow> isLoopbackHost lib (u_hostname u)) (cl_redirects c))"

definition matchRedirect :: "oauth_lib \<Rightarrow> client \<Rightarrow> string \<Rightarrow> string option" where
  "matchRedirect lib c presented = find (\<lambda>reg. redirectMatches lib reg presented) (cl_redirects c)"

subsection \<open>The store of registered clients\<close>

record client_store =
  cs_path :: string
  cs_max :: int
  cs_idle :: duration
  cs_clients :: "(string, client) fmap"

text \<open>The file: absent, unreadable, not JSON, empty, or a list of clients, \<open>None\<close> for a JSON null.\<close>

datatype clients_file = NoClients | UnreadableClients | BadClients | EmptyClients | Clients "client option list"

type_synonym client_sys = "client_store \<times> clients_file"

definition put_clients :: "client option list \<Rightarrow> (string, client) fmap" where
  "put_clients cs =
     foldl (\<lambda>m c. case c of None \<Rightarrow> m | Some c \<Rightarrow> if cl_id c \<noteq> [] then fmupd (cl_id c) c m else m) fmempty cs"

definition openClientStore :: "string \<Rightarrow> int \<Rightarrow> duration \<Rightarrow> clients_file \<Rightarrow> client_sys option" where
  "openClientStore path mx idle f =
     (let cs = \<lparr>cs_path = path, cs_max = mx, cs_idle = idle, cs_clients = fmempty\<rparr> in
      if path = [] then Some (cs, f)
      else
        case f of
          NoClients \<Rightarrow> Some (cs, f)
        | UnreadableClients \<Rightarrow> None
        | BadClients \<Rightarrow> None
        | EmptyClients \<Rightarrow> Some (cs, f)
        | Clients l \<Rightarrow> Some (cs\<lparr>cs_clients := put_clients l\<rparr>, f))"

text \<open>\<open>save\<close>: the clients by their creation; \<open>client_id_metadata\<close> clients are never in the store, and the
  flag is not in the file.\<close>

definition clients_listed :: "(string, client) fmap \<Rightarrow> client option list" where
  "clients_listed m = map (\<lambda>c. Some (c\<lparr>cl_cimd := False\<rparr>)) (sort_key cl_created (map snd (fm_list m)))"

definition cs_save :: "bool \<Rightarrow> client_sys \<Rightarrow> bool \<times> client_sys" where
  "cs_save written sys =
     (case sys of (cs, f) \<Rightarrow>
        if cs_path cs = [] then (True, (cs, f))
        else if \<not> written then (False, (cs, f))
        else (True, (cs, Clients (clients_listed (cs_clients cs)))))"

definition last_use :: "client \<Rightarrow> time" where
  "last_use c = (if cl_last_used c = 0 then cl_created c else cl_last_used c)"

definition evictIdle :: "time \<Rightarrow> client_store \<Rightarrow> client_store" where
  "evictIdle now cs =
     cs\<lparr>cs_clients := fm_each (\<lambda>i c. if last_use c < now - cs_idle cs then None else Some c) (cs_clients cs)\<rparr>"

text \<open>The oldest so far, \<open>[]\<close> for none, and its last use.\<close>

fun older_client :: "string fset \<Rightarrow> string \<times> time \<Rightarrow> string \<times> client \<Rightarrow> string \<times> time" where
  "older_client keep (oldest, since) (i, c) =
     (if i |\<in>| keep then (oldest, since)
      else if oldest = [] \<or> last_use c < since then (i, last_use c)
      else (oldest, since))"

definition evictLeastRecent :: "string fset \<Rightarrow> (string, client) fmap \<Rightarrow> (string, client) fmap option" where
  "evictLeastRecent keep m =
     (let oldest = fst (foldl (older_client keep) ([], 0) (fm_list m)) in
      if oldest = [] then None else Some (fmdrop oldest m))"

definition clients_count :: "(string, client) fmap \<Rightarrow> nat" where
  "clients_count m = fcard (fmdom m)"

lemma older_client_key:
  "fst (foldl (older_client keep) acc xs) = fst acc \<or>
   (\<exists>c. (fst (foldl (older_client keep) acc xs), c) \<in> set xs) \<and> fst (foldl (older_client keep) acc xs) |\<notin>| keep"
proof (induction xs arbitrary: acc)
  case (Cons x xs)
  obtain oldest since i c where [simp]: "acc = (oldest, since)" "x = (i, c)" by (cases acc; cases x) auto
  have "fst (older_client keep acc x) = fst acc \<or> fst (older_client keep acc x) = i \<and> i |\<notin>| keep" by simp
  then show ?case using Cons [of "older_client keep acc x"] by (auto simp del: older_client.simps)
qed simp

lemma evict_gone:
  assumes "evictLeastRecent keep m = Some m'"
  shows "\<exists>i. i |\<in>| fmdom m \<and> i |\<notin>| keep \<and> m' = fmdrop i m"
proof -
  let ?i = "fst (foldl (older_client keep) ([], 0) (fm_list m))"
  have "?i \<noteq> []" and m': "m' = fmdrop ?i m" using assms by (auto simp: evictLeastRecent_def Let_def split: if_splits)
  with older_client_key [of keep "([], 0)" "fm_list m"] have "\<exists>c. (?i, c) \<in> set (fm_list m)" "?i |\<notin>| keep" by simp_all
  then have "?i |\<in>| fmdom m" by (auto simp: set_fm_list intro: fmdomI)
  with \<open>?i |\<notin>| keep\<close> m' show ?thesis by blast
qed

lemma evict_smaller: "evictLeastRecent keep m = Some m' \<Longrightarrow> clients_count m = Suc (clients_count m')"
proof -
  assume "evictLeastRecent keep m = Some m'"
  then obtain i where i: "i |\<in>| fmdom m" and m': "m' = fmdrop i m" using evict_gone by blast
  from i have "fmdom m = finsert i (fmdom m |-| {|i|})" by auto
  then have "fcard (fmdom m) = Suc (fcard (fmdom m |-| {|i|}))" by (metis fcard_finsert_disjoint fminusE finsertI1)
  then show ?thesis by (simp add: clients_count_def m')
qed

text \<open>The loop of \<open>add\<close>: whether there is room at its end, and what is left.\<close>

function make_room :: "string fset \<Rightarrow> int \<Rightarrow> (string, client) fmap \<Rightarrow> bool \<times> (string, client) fmap" where
  "make_room keep mx m =
     (if int (clients_count m) < mx then (True, m)
      else case evictLeastRecent keep m of None \<Rightarrow> (False, m) | Some m' \<Rightarrow> make_room keep mx m')"
  by pat_completeness auto
termination by (relation "measure (\<lambda>(keep, mx, m). clients_count m)") (auto dest: evict_smaller)

declare make_room.simps [simp del]

datatype client_error = TooManyClients | ClientsNotSaved

text \<open>\<open>add\<close>: \<open>granted\<close> lists the clients with a live grant, and is asked only at the cap. A client whose save
  failed stays in memory.\<close>

definition clients_add ::
  "client \<Rightarrow> time \<Rightarrow> ('t \<Rightarrow> string fset \<times> 't) \<Rightarrow> bool \<Rightarrow> 't \<Rightarrow> client_sys \<Rightarrow> client_error option \<times> 't \<times> client_sys" where
  "clients_add c now granted written ts sys =
     (case sys of (cs, f) \<Rightarrow>
        let full = (\<lambda>cs. int (clients_count (cs_clients cs)) \<ge> cs_max cs);
            cs1 = (if full cs then evictIdle now cs else cs);
            (keep, ts1) = (if full cs1 then granted ts else ({||}, ts));
            (room, m) = (if full cs1 then make_room keep (cs_max cs1) (cs_clients cs1) else (True, cs_clients cs1))
        in if \<not> room then (Some TooManyClients, ts1, (cs1\<lparr>cs_clients := m\<rparr>, f))
           else
             case cs_save written (cs1\<lparr>cs_clients := fmupd (cl_id c) c m\<rparr>, f) of
               (ok, sys') \<Rightarrow> (if ok then None else Some ClientsNotSaved, ts1, sys'))"

definition clients_get :: "string \<Rightarrow> client_sys \<Rightarrow> client option" where
  "clients_get i sys = fmlookup (cs_clients (fst sys)) i"

definition clients_touch :: "string \<Rightarrow> time \<Rightarrow> bool \<Rightarrow> client_sys \<Rightarrow> client_sys" where
  "clients_touch i now written sys =
     (case sys of (cs, f) \<Rightarrow>
        case fmlookup (cs_clients cs) i of
          None \<Rightarrow> (cs, f)
        | Some c \<Rightarrow> snd (cs_save written (cs\<lparr>cs_clients := fmupd i (c\<lparr>cl_last_used := now\<rparr>) (cs_clients cs)\<rparr>, f)))"

definition grantedClients :: "time \<Rightarrow> token_sys \<Rightarrow> string fset \<times> token_sys" where
  "grantedClients now sys =
     (case List_tokens sys of (ts, sys') \<Rightarrow>
        (fset_of_list (map tk_client (filter (\<lambda>t. IsOAuthGrant t \<and> \<not> Expired t now \<and> tk_client t \<noteq> []) ts)), sys'))"

subsection \<open>Client metadata documents\<close>

datatype cimd_error =
    UrlTooLong
  | UrlNotHttps
  | FetchFailed
  | DocNotJSON
  | DocOtherId
  | DocRedirects
  | DocBadRedirect redirect_error
  | DocNotPublic

record cimd_doc =
  cd_id :: string
  cd_name :: string
  cd_redirects :: "string list"
  cd_auth_method :: string

record cimd_entry =
  ce_result :: "cimd_error + client"
  ce_exp :: time

definition cimdMinTTL :: duration where "cimdMinTTL = 5 * minute"
definition cimdMaxTTL :: duration where "cimdMaxTTL = 24 * hour"
definition cimdDefaultTTL :: duration where "cimdDefaultTTL = hour"
definition cimdErrorTTL :: duration where "cimdErrorTTL = minute"
definition cimdMaxEntries :: int where "cimdMaxEntries = 500"
definition cimdMaxURLBytes :: int where "cimdMaxURLBytes = 2048"

definition ttl_part :: "duration \<Rightarrow> string \<Rightarrow> duration" where
  "ttl_part ttl raw =
     (let part = trim_space (to_lower raw);
          ttl1 = (case cut_prefix part ''max-age='' of
                    Some v \<Rightarrow> (case atoi v of Some n \<Rightarrow> wrap64 (n * second) | None \<Rightarrow> ttl)
                  | None \<Rightarrow> ttl)
      in if part = ''no-store'' \<or> part = ''no-cache'' then cimdMinTTL else ttl1)"

definition cacheTTL :: "string \<Rightarrow> duration" where
  "cacheTTL cacheControl =
     (let ttl = foldl ttl_part cimdDefaultTTL (split_at (CHR '','') cacheControl);
          ttl1 = (if ttl < cimdMinTTL then cimdMinTTL else ttl)
      in if ttl1 > cimdMaxTTL then cimdMaxTTL else ttl1)"

definition client_name :: "string \<Rightarrow> string \<Rightarrow> string" where
  "client_name given fallback =
     (let name = trim_space given; name1 = (if name = [] then fallback else name)
      in if length name1 > 100 then take 100 name1 else name1)"

definition parseCIMD :: "oauth_lib \<Rightarrow> string \<Rightarrow> cimd_doc option \<Rightarrow> cimd_error + client" where
  "parseCIMD lib docURL body =
     (case body of
        None \<Rightarrow> Inl DocNotJSON
      | Some doc \<Rightarrow>
          if cd_id doc \<noteq> docURL then Inl DocOtherId
          else if cd_redirects doc = [] \<or> length (cd_redirects doc) > 20 then Inl DocRedirects
          else
            case find (\<lambda>r. validRedirectURI lib r \<noteq> None) (cd_redirects doc) of
              Some r \<Rightarrow> Inl (DocBadRedirect (the (validRedirectURI lib r)))
            | None \<Rightarrow>
                if cd_auth_method doc \<noteq> [] \<and> cd_auth_method doc \<noteq> ''none'' then Inl DocNotPublic
                else
                  Inr \<lparr>cl_id = docURL, cl_name = client_name (cd_name doc) docURL, cl_redirects = cd_redirects doc,
                       cl_created = 0, cl_last_used = 0, cl_cimd = True\<rparr>)"

text \<open>\<open>fetched\<close> is what the fetch gave: \<open>None\<close> for an error, or the decoded body and the \<open>Cache-Control\<close> header.\<close>

definition fetchAndParse ::
  "oauth_lib \<Rightarrow> string \<Rightarrow> (cimd_doc option \<times> string) option \<Rightarrow> (cimd_error + client) \<times> duration" where
  "fetchAndParse lib docURL fetched =
     (if int (length docURL) > cimdMaxURLBytes then (Inl UrlTooLong, cimdErrorTTL)
      else if (case ol_url lib docURL of
                 None \<Rightarrow> True
               | Some u \<Rightarrow> u_scheme u \<noteq> ''https'' \<or> u_host u = [] \<or> u_path u = [] \<or> u_path u = ''/'' \<or> u_fragment u \<noteq> [])
        then (Inl UrlNotHttps, cimdErrorTTL)
      else
        case fetched of
          None \<Rightarrow> (Inl FetchFailed, cimdErrorTTL)
        | Some (body, cacheControl) \<Rightarrow>
            (case parseCIMD lib docURL body of
               Inl e \<Rightarrow> (Inl e, cimdErrorTTL)
             | Inr c \<Rightarrow> (Inr c, cacheTTL cacheControl)))"

type_synonym cimd_cache = "(string, cimd_entry) fmap"

fun older_entry :: "string \<times> time \<Rightarrow> string \<times> cimd_entry \<Rightarrow> string \<times> time" where
  "older_entry (oldest, since) (k, e) =
     (if oldest = [] \<or> ce_exp e < since then (k, ce_exp e) else (oldest, since))"

definition cimd_evict :: "time \<Rightarrow> cimd_cache \<Rightarrow> cimd_cache" where
  "cimd_evict now m =
     (let m1 = fm_each (\<lambda>k e. if now \<ge> ce_exp e then None else Some e) m;
          oldest = fst (foldl older_entry ([], 0) (fm_list m1))
      in if int (fcard (fmdom m1)) \<ge> cimdMaxEntries \<and> oldest \<noteq> [] then fmdrop oldest m1 else m1)"

text \<open>\<open>gone\<close>: the request was cut short while the document was fetched.\<close>

definition cimd_resolve ::
  "oauth_lib \<Rightarrow> string \<Rightarrow> time \<Rightarrow> (cimd_doc option \<times> string) option \<Rightarrow> bool \<Rightarrow> cimd_cache
     \<Rightarrow> (cimd_error + client) \<times> cimd_cache" where
  "cimd_resolve lib docURL now fetched gone m =
     (let go = (case fetchAndParse lib docURL fetched of (res, ttl) \<Rightarrow>
                  if isl res \<and> gone then (res, m)
                  else
                    let m1 = (if int (fcard (fmdom m)) \<ge> cimdMaxEntries then cimd_evict now m else m)
                    in (res, fmupd docURL \<lparr>ce_result = res, ce_exp = now + ttl\<rparr> m1))
      in case fmlookup m docURL of
           Some e \<Rightarrow> if now < ce_exp e then (ce_result e, m) else go
         | None \<Rightarrow> go)"

end
