(* ===== verification/OAuthServer.thy ===== *)
theory OAuthServer
  imports OAuthClients RateWindow
begin

text \<open>
  \<open>internal/oauth\<close>: the authorization server. \<open>oauth.go\<close> has the configuration and the state,
  \<open>authorize.go\<close> the requests that wait for a consent and the decision on them, \<open>token.go\<close> the codes, the
  access tokens in memory and the rotation of the refresh tokens, which the grants of \<open>TokenStore\<close> keep.

  A handler is a function of the decoded request, the time, the random strings it draws (\<open>None\<close> when the
  source of entropy fails) and how the saves end. Each critical section under \<open>mu\<close> is a definition of its
  own, so that \<open>OAuthSteps\<close> can interleave them. The prose of an error is left out: an answer has its
  status and its code. The audit log is left out.
\<close>

subsection \<open>The configuration and the state\<close>

record oauth_config =
  oc_issuer :: string
  oc_resource_path :: string
  oc_consent_path :: string
  oc_access_ttl :: duration
  oc_refresh_ttl :: duration
  oc_code_ttl :: duration
  oc_request_ttl :: duration
  oc_client_max :: int
  oc_client_idle :: duration
  oc_clients_path :: string
  oc_redirect_hosts :: "string list"

definition ScopeOffline :: string where "ScopeOffline = ''offline_access''"
definition accessPrefix :: string where "accessPrefix = ''gsa_''"
definition refreshPrefix :: string where "refreshPrefix = ''gsr_''"
definition clientPrefix :: string where "clientPrefix = ''gsc_''"
definition maxPendingRequests :: nat where "maxPendingRequests = 1000"
definition maxCodes :: nat where "maxCodes = 1000"
definition maxAccessEntries :: nat where "maxAccessEntries = 20000"
definition sweepEvery :: int where "sweepEvery = 256"

definition withDefaults :: "oauth_config \<Rightarrow> oauth_config" where
  "withDefaults c =
     (let c = (if oc_resource_path c = [] then c\<lparr>oc_resource_path := ''/mcp''\<rparr> else c);
          c = (if oc_consent_path c = [] then c\<lparr>oc_consent_path := ''/oauth/consent''\<rparr> else c);
          c = (if oc_access_ttl c \<le> 0 then c\<lparr>oc_access_ttl := hour\<rparr> else c);
          c = (if oc_refresh_ttl c \<le> 0 then c\<lparr>oc_refresh_ttl := 30 * 24 * hour\<rparr> else c);
          c = (if oc_code_ttl c \<le> 0 then c\<lparr>oc_code_ttl := 5 * minute\<rparr> else c);
          c = (if oc_request_ttl c \<le> 0 then c\<lparr>oc_request_ttl := 10 * minute\<rparr> else c);
          c = (if oc_client_max c \<le> 0 then c\<lparr>oc_client_max := 1000\<rparr> else c);
          c = (if oc_client_idle c \<le> 0 then c\<lparr>oc_client_idle := 90 * 24 * hour\<rparr> else c)
      in c)"

datatype config_error = IssuerRequired | IssuerNotURL | IssuerHasPath | ClientsNotRead

definition parseIssuer :: "oauth_lib \<Rightarrow> string \<Rightarrow> config_error + url" where
  "parseIssuer lib raw =
     (let raw = trim_space raw in
      if raw = [] then Inl IssuerRequired
      else
        case ol_url lib raw of
          None \<Rightarrow> Inl IssuerNotURL
        | Some u \<Rightarrow>
            if u_scheme u = [] \<or> u_host u = [] \<or> u_scheme u \<noteq> ''https'' \<and> u_scheme u \<noteq> ''http'' \<or> u_query u \<noteq> []
              \<or> u_fragment u \<noteq> [] then Inl IssuerNotURL
            else if trim_chars ''/'' (u_path u) \<noteq> [] then Inl IssuerHasPath
            else Inr (u\<lparr>u_path := []\<rparr>))"

record pending_request =
  pr_id :: string
  pr_client :: client
  pr_redirect :: string
  pr_state :: string
  pr_challenge :: string
  pr_resource :: string
  pr_scopes :: "string list"
  pr_created :: time
  pr_expires :: time
  pr_from :: string

record auth_code =
  ac_client :: client
  ac_redirect :: string
  ac_challenge :: string
  ac_resource :: string
  ac_user :: string
  ac_username :: string
  ac_projects :: "string list"
  ac_scopes :: "string list"
  ac_expires :: time

record access_entry =
  ae_token :: string
  ae_exp :: time

record consumed_refresh =
  cr_token :: string
  cr_exp :: time

record oauth =
  os_cfg :: oauth_config
  os_clients :: client_sys
  os_cimd :: cimd_cache
  os_limiter :: win
  os_pending :: "(string, pending_request) fmap"
  os_codes :: "(string, auth_code) fmap"
  os_access :: "(string, access_entry) fmap"
  os_consumed :: "(string, consumed_refresh) fmap"
  os_issued :: int

definition new_oauth :: "oauth_lib \<Rightarrow> oauth_config \<Rightarrow> clients_file \<Rightarrow> time \<Rightarrow> config_error + oauth" where
  "new_oauth lib c f now =
     (let cfg = withDefaults c in
      case parseIssuer lib (oc_issuer cfg) of
        Inl e \<Rightarrow> Inl e
      | Inr iss \<Rightarrow>
          let cfg = cfg\<lparr>oc_issuer := ol_show_url lib iss\<rparr> in
          case openClientStore (oc_clients_path cfg) (oc_client_max cfg) (oc_client_idle cfg) f of
            None \<Rightarrow> Inl ClientsNotRead
          | Some clients \<Rightarrow>
              Inr \<lparr>os_cfg = cfg, os_clients = clients, os_cimd = fmempty, os_limiter = NewWindow (15 * minute) 30 now,
                   os_pending = fmempty, os_codes = fmempty, os_access = fmempty, os_consumed = fmempty, os_issued = 0\<rparr>)"

definition ResourceURL :: "oauth_config \<Rightarrow> string" where
  "ResourceURL c = oc_issuer c @ oc_resource_path c"

definition randomToken :: "string \<Rightarrow> string option \<Rightarrow> string option" where
  "randomToken prefix raw = map_option (\<lambda>r. prefix @ r) raw"

text \<open>An answer: the status and the code of an error, or what the endpoint answers.\<close>

datatype 'a answer = Fails nat string | Answers 'a

subsection \<open>Scopes, challenges, resources\<close>

fun scopes_from :: "string list \<Rightarrow> string list \<Rightarrow> string + string list" where
  "scopes_from out [] = Inr out"
| "scopes_from out (sc # scs) =
     (if sc \<noteq> ScopeRead \<and> sc \<noteq> ScopeWrite \<and> sc \<noteq> ScopeOffline then Inl sc
      else scopes_from (if List.member out sc then out else out @ [sc]) scs)"

definition parseScopes :: "string \<Rightarrow> string + string list" where
  "parseScopes raw =
     (if trim_space raw = [] then Inr [ScopeRead, ScopeWrite] else scopes_from [] (go_fields raw))"

text \<open>\<open>None\<close> when not even the read scope was granted.\<close>

definition grantedScopes :: "string list \<Rightarrow> string list \<Rightarrow> string list option" where
  "grantedScopes requested decided =
     (let out = filter (\<lambda>sc. (List.member requested sc \<or> sc = ScopeRead \<and> requested = []) \<and> List.member decided sc)
                  [ScopeRead, ScopeWrite]
      in if out = [] then None else Some (sort out))"

definition challenge_char :: "char \<Rightarrow> bool" where
  "challenge_char ch =
     (list_ex (\<lambda>(first, last). first \<le> ch \<and> ch \<le> last) (zip ''aA0'' ''zZ9'') \<or> ch \<in> set ''-_.~'')"

definition validChallenge :: "string \<Rightarrow> bool" where
  "validChallenge c = (if length c < 43 \<or> length c > 128 then False else list_all challenge_char c)"

definition verifyPKCE :: "oauth_lib \<Rightarrow> string \<Rightarrow> string \<Rightarrow> bool" where
  "verifyPKCE lib verifier challenge =
     (if length verifier < 43 \<or> length verifier > 128 then False else ol_s256 lib verifier = challenge)"

definition resourceMatches :: "oauth_lib \<Rightarrow> oauth_config \<Rightarrow> string \<Rightarrow> bool" where
  "resourceMatches lib cfg resource =
     (case (ol_url lib (ResourceURL cfg), ol_url lib resource) of
        (Some want, Some got) \<Rightarrow>
          equal_fold (u_scheme got) (u_scheme want) \<and> equal_fold (u_host got) (u_host want)
          \<and> trim_right_char (CHR ''/'') (u_path got) = trim_right_char (CHR ''/'') (u_path want)
          \<and> u_query got = [] \<and> u_fragment got = []
      | _ \<Rightarrow> False)"

definition bad_resource :: "oauth_lib \<Rightarrow> oauth_config \<Rightarrow> string \<Rightarrow> bool" where
  "bad_resource lib cfg raw = (let res = trim_space raw in res \<noteq> [] \<and> \<not> resourceMatches lib cfg res)"

subsection \<open>Registering a client\<close>

record registration_request =
  rq_redirects :: "string list"
  rq_name :: string
  rq_auth_method :: string
  rq_grant_types :: "string list"
  rq_response_types :: "string list"

definition check_registration :: "oauth_lib \<Rightarrow> string list \<Rightarrow> registration_request \<Rightarrow> (nat \<times> string) option" where
  "check_registration lib hosts req =
     (if rq_redirects req = [] then Some (400, ''invalid_redirect_uri'')
      else if length (rq_redirects req) > 10 then Some (400, ''invalid_redirect_uri'')
      else if list_ex (\<lambda>raw. allowedRedirectURI lib hosts raw \<noteq> None) (rq_redirects req) then Some (400, ''invalid_redirect_uri'')
      else if rq_auth_method req \<noteq> [] \<and> rq_auth_method req \<noteq> ''none'' then Some (400, ''invalid_client_metadata'')
      else if list_ex (\<lambda>g. g \<noteq> ''authorization_code'' \<and> g \<noteq> ''refresh_token'') (rq_grant_types req) then Some (400, ''invalid_client_metadata'')
      else if list_ex (\<lambda>rt. rt \<noteq> ''code'') (rq_response_types req) then Some (400, ''invalid_client_metadata'')
      else None)"

text \<open>\<open>from\<close> is the address as \<open>limitKey\<close> gives it; \<open>body\<close> the decoded request, \<open>None\<close> when it is not JSON.\<close>

definition handleRegister ::
  "oauth_lib \<Rightarrow> string \<Rightarrow> string \<Rightarrow> registration_request option \<Rightarrow> time \<Rightarrow> string option \<Rightarrow> bool
     \<Rightarrow> oauth \<times> token_sys \<Rightarrow> client answer \<times> oauth \<times> token_sys" where
  "handleRegister lib verb addr body now rnd written sys =
     (case sys of (s, toks) \<Rightarrow>
        if verb \<noteq> ''POST'' then (Fails 405 ''invalid_request'', s, toks)
        else
          case win_Allow (''register:'' @ addr) now (os_limiter s) of (allowed, l) \<Rightarrow>
            let s = s\<lparr>os_limiter := l\<rparr> in
            if \<not> allowed then (Fails 429 ''invalid_request'', s, toks)
            else
              case body of
                None \<Rightarrow> (Fails 400 ''invalid_client_metadata'', s, toks)
              | Some req \<Rightarrow>
                  case check_registration lib (oc_redirect_hosts (os_cfg s)) req of
                    Some (status, code) \<Rightarrow> (Fails status code, s, toks)
                  | None \<Rightarrow>
                      case randomToken clientPrefix rnd of
                        None \<Rightarrow> (Fails 500 ''server_error'', s, toks)
                      | Some i \<Rightarrow>
                          let c = \<lparr>cl_id = i, cl_name = client_name (rq_name req) ''MCP client'', cl_redirects = rq_redirects req,
                                   cl_created = now, cl_last_used = 0, cl_cimd = False\<rparr>
                          in case clients_add c now (grantedClients now) written toks (os_clients s) of
                               (err, toks', clients) \<Rightarrow>
                                 let s = s\<lparr>os_clients := clients\<rparr> in
                                 (case err of
                                    Some TooManyClients \<Rightarrow> Fails 503 ''server_error''
                                  | Some ClientsNotSaved \<Rightarrow> Fails 500 ''server_error''
                                  | None \<Rightarrow> Answers c, s, toks'))"

subsection \<open>Asking for a consent\<close>

definition sweepPending :: "time \<Rightarrow> (string, pending_request) fmap \<Rightarrow> (string, pending_request) fmap" where
  "sweepPending now m = fm_each (\<lambda>i p. if now \<ge> pr_expires p then None else Some p) m"

text \<open>The requests counted so far by address, and the address with the most.\<close>

fun count_from :: "(string, nat) fmap \<times> string \<Rightarrow> pending_request \<Rightarrow> (string, nat) fmap \<times> string" where
  "count_from (count, most) p =
     (let count = fmupd (pr_from p) (fm_get 0 count (pr_from p) + 1) count in
      (count, if most = [] \<or> fm_get 0 count (pr_from p) > fm_get 0 count most then pr_from p else most))"

fun older_request :: "string \<Rightarrow> pending_request option \<Rightarrow> pending_request \<Rightarrow> pending_request option" where
  "older_request most None p = (if pr_from p = most then Some p else None)"
| "older_request most (Some o') p = (if pr_from p = most \<and> pr_created p < pr_created o' then Some p else Some o')"

definition dropOldestPending :: "(string, pending_request) fmap \<Rightarrow> (string, pending_request) fmap" where
  "dropOldestPending m =
     (let ps = map snd (fm_list m);
          most = snd (foldl count_from (fmempty, []) ps)
      in case foldl (older_request most) None ps of None \<Rightarrow> m | Some p \<Rightarrow> fmdrop (pr_id p) m)"

text \<open>The loop at the cap, with as many turns as there are requests.\<close>

fun drop_pending :: "nat \<Rightarrow> (string, pending_request) fmap \<Rightarrow> (string, pending_request) fmap" where
  "drop_pending 0 m = m"
| "drop_pending (Suc n) m =
     (if fcard (fmdom m) \<ge> maxPendingRequests then drop_pending n (dropOldestPending m) else m)"

definition add_pending :: "time \<Rightarrow> pending_request \<Rightarrow> oauth \<Rightarrow> oauth" where
  "add_pending now p s =
     (let m = sweepPending now (os_pending s) in
      s\<lparr>os_pending := fmupd (pr_id p) p (drop_pending (fcard (fmdom m)) m)\<rparr>)"

record authorize_request =
  aq_client_id :: string
  aq_redirect :: string
  aq_state :: string
  aq_response_type :: string
  aq_challenge :: string
  aq_challenge_method :: string
  aq_scope :: string
  aq_resource :: string

datatype authorize_answer =
    Page nat string
  | BackToClient string string string
  | ToConsent string

text \<open>\<open>resolveClient\<close>: \<open>fetched\<close> and \<open>gone\<close> are those of \<open>cimd_resolve\<close>.\<close>

definition resolveClient ::
  "oauth_lib \<Rightarrow> string \<Rightarrow> time \<Rightarrow> (cimd_doc option \<times> string) option \<Rightarrow> bool \<Rightarrow> oauth \<Rightarrow> client option \<times> oauth" where
  "resolveClient lib i now fetched gone s =
     (if has_prefix i ''https://'' then
        case cimd_resolve lib i now fetched gone (os_cimd s) of
          (res, m) \<Rightarrow> (case res of Inl e \<Rightarrow> None | Inr c \<Rightarrow> Some c, s\<lparr>os_cimd := m\<rparr>)
      else (clients_get i (os_clients s), s))"

text \<open>The redirect address a request is about: the one presented, or the only one registered.\<close>

definition presented_redirect :: "client \<Rightarrow> string \<Rightarrow> string option" where
  "presented_redirect c raw =
     (let r = trim_space raw in
      if r \<noteq> [] then Some r
      else case cl_redirects c of [only] \<Rightarrow> Some only | _ \<Rightarrow> None)"

text \<open>What is checked once the client is known. An error before the redirect address is trusted is a page;
  after that it goes back to the client.\<close>

definition check_authorize ::
  "oauth_lib \<Rightarrow> oauth_config \<Rightarrow> client \<Rightarrow> authorize_request \<Rightarrow> authorize_answer + string \<times> string list \<times> string" where
  "check_authorize lib cfg c q =
     (case presented_redirect c (aq_redirect q) of
        None \<Rightarrow> Inl (Page 400 ''invalid_request'')
      | Some redirect \<Rightarrow>
          if matchRedirect lib c redirect = None then Inl (Page 400 ''invalid_request'')
          else if allowedRedirectURI lib (oc_redirect_hosts cfg) redirect \<noteq> None then Inl (Page 400 ''invalid_request'')
          else if length (aq_state q) > 1024 then Inl (Page 400 ''invalid_request'')
          else if aq_response_type q \<noteq> ''code'' then Inl (BackToClient redirect (aq_state q) ''unsupported_response_type'')
          else if aq_challenge_method q \<noteq> ''S256'' \<or> \<not> validChallenge (aq_challenge q)
            then Inl (BackToClient redirect (aq_state q) ''invalid_request'')
          else
            case parseScopes (aq_scope q) of
              Inl e \<Rightarrow> Inl (BackToClient redirect (aq_state q) ''invalid_scope'')
            | Inr scopes \<Rightarrow>
                let resource = trim_space (aq_resource q) in
                if resource \<noteq> [] \<and> \<not> resourceMatches lib cfg resource
                then Inl (BackToClient redirect (aq_state q) ''invalid_target'')
                else Inr (redirect, scopes, resource))"

definition handleAuthorize ::
  "oauth_lib \<Rightarrow> string \<Rightarrow> string \<Rightarrow> authorize_request option \<Rightarrow> time \<Rightarrow> (cimd_doc option \<times> string) option \<Rightarrow> bool
     \<Rightarrow> string option \<Rightarrow> bool \<Rightarrow> oauth \<Rightarrow> authorize_answer \<times> oauth" where
  "handleAuthorize lib verb addr form now fetched gone rnd written s =
     (if verb \<noteq> ''GET'' \<and> verb \<noteq> ''POST'' then (Page 405 [], s)
      else
        case form of
          None \<Rightarrow> (Page 400 ''invalid_request'', s)
        | Some q \<Rightarrow>
            case win_Allow (''authorize:'' @ addr) now (os_limiter s) of (allowed, l) \<Rightarrow>
              let s = s\<lparr>os_limiter := l\<rparr>; i = trim_space (aq_client_id q) in
              if \<not> allowed then (Page 429 ''invalid_request'', s)
              else if i = [] then (Page 400 ''invalid_request'', s)
              else
                case resolveClient lib i now fetched gone s of
                  (None, s) \<Rightarrow> (Page 400 ''invalid_client'', s)
                | (Some c, s) \<Rightarrow>
                    (case check_authorize lib (os_cfg s) c q of
                       Inl answer \<Rightarrow> (answer, s)
                     | Inr (redirect, scopes, resource) \<Rightarrow>
                         case randomToken ''gsreq_'' rnd of
                           None \<Rightarrow> (BackToClient redirect (aq_state q) ''server_error'', s)
                         | Some req \<Rightarrow>
                             let p = \<lparr>pr_id = req, pr_client = c, pr_redirect = redirect, pr_state = aq_state q,
                                      pr_challenge = aq_challenge q, pr_resource = resource, pr_scopes = scopes, pr_created = now,
                                      pr_expires = now + oc_request_ttl (os_cfg s), pr_from = addr\<rparr>;
                                 s = add_pending now p s
                             in (ToConsent req,
                                 if cl_cimd c then s else s\<lparr>os_clients := clients_touch (cl_id c) now written (os_clients s)\<rparr>)))"

subsection \<open>The consent\<close>

record consent_view =
  cv_request :: string
  cv_client :: string
  cv_name :: string
  cv_cimd :: bool
  cv_redirect :: string
  cv_host :: string
  cv_loopback :: bool
  cv_scopes :: "string list"
  cv_expires :: time

definition view_of :: "oauth_lib \<Rightarrow> pending_request \<Rightarrow> consent_view" where
  "view_of lib p =
     \<lparr>cv_request = pr_id p, cv_client = cl_id (pr_client p), cv_name = cl_name (pr_client p), cv_cimd = cl_cimd (pr_client p),
      cv_redirect = pr_redirect p, cv_host = (case ol_url lib (pr_redirect p) of Some u \<Rightarrow> u_host u | None \<Rightarrow> []),
      cv_loopback = LoopbackOnly lib (pr_client p), cv_scopes = pr_scopes p, cv_expires = pr_expires p\<rparr>"

datatype consent_error = NoSuchRequest | UserRequired | NoScopeGranted | NoEntropy | TooManyCodes

definition Pending :: "oauth_lib \<Rightarrow> string \<Rightarrow> time \<Rightarrow> oauth \<Rightarrow> consent_error + consent_view" where
  "Pending lib i now s =
     (case fmlookup (os_pending s) i of
        None \<Rightarrow> Inl NoSuchRequest
      | Some p \<Rightarrow> if now \<ge> pr_expires p then Inl NoSuchRequest else Inr (view_of lib p))"

definition sweepCodes :: "time \<Rightarrow> (string, auth_code) fmap \<Rightarrow> (string, auth_code) fmap" where
  "sweepCodes now m = fm_each (\<lambda>k c. if now \<ge> ac_expires c then None else Some c) m"

definition code_of :: "oauth_config \<Rightarrow> pending_request \<Rightarrow> string \<Rightarrow> string \<Rightarrow> string list \<Rightarrow> string list \<Rightarrow> time \<Rightarrow> auth_code" where
  "code_of cfg p user username projects granted now =
     \<lparr>ac_client = pr_client p, ac_redirect = pr_redirect p, ac_challenge = pr_challenge p, ac_resource = pr_resource p,
      ac_user = user, ac_username = username, ac_projects = projects, ac_scopes = granted,
      ac_expires = now + oc_code_ttl cfg\<rparr>"

text \<open>\<open>Approve\<close> answers the redirect address, the code and the state the browser is sent back with.\<close>

definition Approve ::
  "oauth_lib \<Rightarrow> string \<Rightarrow> string \<Rightarrow> string \<Rightarrow> string list \<Rightarrow> string list \<Rightarrow> time \<Rightarrow> string option \<Rightarrow> oauth
     \<Rightarrow> (consent_error + string \<times> string \<times> string) \<times> oauth" where
  "Approve lib i user username projects scopes now rnd s =
     (case fmlookup (os_pending s) i of
        None \<Rightarrow> (Inl NoSuchRequest, s)
      | Some p \<Rightarrow>
          if now \<ge> pr_expires p then (Inl NoSuchRequest, s)
          else if user = [] then (Inl UserRequired, s)
          else
            case grantedScopes (pr_scopes p) scopes of
              None \<Rightarrow> (Inl NoScopeGranted, s)
            | Some granted \<Rightarrow>
                case randomToken ''gsac_'' rnd of
                  None \<Rightarrow> (Inl NoEntropy, s)
                | Some code \<Rightarrow>
                    let s = s\<lparr>os_codes := sweepCodes now (os_codes s)\<rparr> in
                    if fcard (fmdom (os_codes s)) \<ge> maxCodes then (Inl TooManyCodes, s)
                    else
                      (Inr (pr_redirect p, code, pr_state p),
                       s\<lparr>os_codes := fmupd (ol_hash lib code) (code_of (os_cfg s) p user username projects granted now) (os_codes s),
                         os_pending := fmdrop i (os_pending s)\<rparr>))"

definition Deny :: "string \<Rightarrow> oauth \<Rightarrow> (consent_error + string \<times> string) \<times> oauth" where
  "Deny i s =
     (case fmlookup (os_pending s) i of
        None \<Rightarrow> (Inl NoSuchRequest, s)
      | Some p \<Rightarrow> (Inr (pr_redirect p, pr_state p), s\<lparr>os_pending := fmdrop i (os_pending s)\<rparr>))"

subsection \<open>Issuing tokens\<close>

definition sweepAccess :: "time \<Rightarrow> oauth \<Rightarrow> oauth" where
  "sweepAccess now s =
     s\<lparr>os_access := fm_each (\<lambda>k e. if now \<ge> ae_exp e then None else Some e) (os_access s),
       os_consumed := fm_each (\<lambda>k c. if cr_exp c \<noteq> 0 \<and> now \<ge> cr_exp c then None else Some c) (os_consumed s)\<rparr>"

text \<open>The critical sections of \<open>issueTokens\<close>: is there room, mark the old refresh token, take the mark back, and
  keep the new access token. \<open>dropAccessFor\<close> drops those of a grant.\<close>

definition issue_room :: "time \<Rightarrow> oauth \<Rightarrow> bool \<times> oauth" where
  "issue_room now s =
     (let s = s\<lparr>os_issued := os_issued s + 1\<rparr>;
          s = (if os_issued s mod sweepEvery = 0 \<or> fcard (fmdom (os_access s)) \<ge> maxAccessEntries then sweepAccess now s else s)
      in (fcard (fmdom (os_access s)) < maxAccessEntries, s))"

definition mark_consumed :: "string \<Rightarrow> token \<Rightarrow> oauth \<Rightarrow> oauth" where
  "mark_consumed h g s = s\<lparr>os_consumed := fmupd h \<lparr>cr_token = tk_id g, cr_exp = tk_refresh_expires g\<rparr> (os_consumed s)\<rparr>"

definition unmark_consumed :: "string \<Rightarrow> oauth \<Rightarrow> oauth" where
  "unmark_consumed h s = s\<lparr>os_consumed := fmdrop h (os_consumed s)\<rparr>"

definition add_access :: "string \<Rightarrow> string \<Rightarrow> time \<Rightarrow> oauth \<Rightarrow> oauth" where
  "add_access k i expires s = s\<lparr>os_access := fmupd k \<lparr>ae_token = i, ae_exp = expires\<rparr> (os_access s)\<rparr>"

definition dropAccessFor :: "string \<Rightarrow> oauth \<Rightarrow> oauth" where
  "dropAccessFor i s = s\<lparr>os_access := fm_each (\<lambda>k e. if ae_token e = i then None else Some e) (os_access s)\<rparr>"

definition capped_by_grant :: "token \<Rightarrow> time \<Rightarrow> time" where
  "capped_by_grant g t = (if tk_expires g \<noteq> 0 \<and> tk_expires g < t then tk_expires g else t)"

record token_response =
  tr_access :: string
  tr_expires_in :: int
  tr_refresh :: string
  tr_scope :: string

text \<open>\<open>int64(d.Seconds())\<close>, which cuts towards zero.\<close>

definition whole_seconds :: "duration \<Rightarrow> int" where
  "whole_seconds d = (if d < 0 then - (- d div second) else d div second)"

datatype issue_error = EntropyError | AccessFull | StoreError auth_error

text \<open>\<open>old\<close> is the hash of the refresh token presented, \<open>[]\<close> for a new grant; \<open>ra\<close> and \<open>rr\<close> are the random parts
  of the two tokens, \<open>out\<close> how the save of the token store ends.\<close>

definition issueTokens ::
  "oauth_lib \<Rightarrow> token \<Rightarrow> string \<Rightarrow> time \<Rightarrow> string option \<Rightarrow> string option \<Rightarrow> save_outcome
     \<Rightarrow> oauth \<times> token_sys \<Rightarrow> (issue_error + token_response) \<times> oauth \<times> token_sys" where
  "issueTokens lib g old now ra rr out sys =
     (case sys of (s, toks) \<Rightarrow>
        case (randomToken accessPrefix ra, randomToken refreshPrefix rr) of
          (Some access, Some refresh) \<Rightarrow>
            (let accessExp = capped_by_grant g (now + oc_access_ttl (os_cfg s));
                 refreshExp = capped_by_grant g (now + oc_refresh_ttl (os_cfg s))
             in case issue_room now s of (room, s) \<Rightarrow>
                  if \<not> room then (Inl AccessFull, s, toks)
                  else
                    let s = (if old = [] then s else mark_consumed old g s) in
                    case (if old = [] then SetRefresh (tk_id g) (ol_hash lib refresh) refreshExp out toks
                          else RotateRefresh (tk_id g) old (ol_hash lib refresh) refreshExp out toks) of
                      (Inl e, toks) \<Rightarrow>
                        (Inl (StoreError e), if old \<noteq> [] \<and> e \<noteq> RefreshRotated then unmark_consumed old s else s, toks)
                    | (Inr u, toks) \<Rightarrow>
                        (Inr \<lparr>tr_access = access, tr_expires_in = whole_seconds (accessExp - now), tr_refresh = refresh,
                              tr_scope = join '' '' (tk_scopes g @ [ScopeOffline])\<rparr>,
                         add_access (ol_hash lib access) (tk_id g) accessExp s, toks))
        | _ \<Rightarrow> (Inl EntropyError, s, toks))"

subsection \<open>The token endpoint\<close>

record token_form =
  tf_grant_type :: string
  tf_code :: string
  tf_verifier :: string
  tf_client_id :: string
  tf_redirect :: string
  tf_resource :: string
  tf_refresh :: string
  tf_scope :: string
  tf_token :: string

text \<open>The random strings a request draws, and how its saves end.\<close>

record draws =
  dr_grant :: string
  dr_access :: "string option"
  dr_refresh :: "string option"
  dr_grant_save :: save_outcome
  dr_refresh_save :: save_outcome
  dr_revoke_save :: save_outcome

text \<open>A code is looked up and deleted at once, whatever becomes of the exchange.\<close>

definition take_code :: "oauth_lib \<Rightarrow> string \<Rightarrow> oauth \<Rightarrow> auth_code option \<times> oauth" where
  "take_code lib code s =
     (let key = ol_hash lib code in (fmlookup (os_codes s) key, s\<lparr>os_codes := fmdrop key (os_codes s)\<rparr>))"

definition check_code :: "oauth_lib \<Rightarrow> oauth_config \<Rightarrow> token_form \<Rightarrow> auth_code option \<Rightarrow> time \<Rightarrow> (nat \<times> string) + auth_code" where
  "check_code lib cfg f found now =
     (case found of
        None \<Rightarrow> Inl (400, ''invalid_grant'')
      | Some ac \<Rightarrow>
          if now \<ge> ac_expires ac then Inl (400, ''invalid_grant'')
          else if cl_id (ac_client ac) \<noteq> trim_space (tf_client_id f) then Inl (400, ''invalid_grant'')
          else if tf_redirect f \<noteq> [] \<and> tf_redirect f \<noteq> ac_redirect ac then Inl (400, ''invalid_grant'')
          else if \<not> verifyPKCE lib (tf_verifier f) (ac_challenge ac) then Inl (400, ''invalid_grant'')
          else if bad_resource lib cfg (tf_resource f) then Inl (400, ''invalid_target'')
          else Inr ac)"

definition grant_name :: "auth_code \<Rightarrow> string" where
  "grant_name ac = cl_name (ac_client ac) @ [CHR 0x20, CHR 0xC2, CHR 0xB7] @ '' oauth''"

definition create_grant ::
  "oauth_lib \<Rightarrow> oauth_config \<Rightarrow> auth_code \<Rightarrow> string \<Rightarrow> time \<Rightarrow> save_outcome \<Rightarrow> token_sys \<Rightarrow> (auth_error + token) \<times> token_sys" where
  "create_grant lib cfg ac random now out toks =
     CreateGrant (ol_hash lib) random (grant_name ac) (ac_projects ac) (ac_scopes ac) (oc_refresh_ttl cfg) (ac_user ac)
       (cl_id (ac_client ac)) now out toks"

definition exchangeCode ::
  "oauth_lib \<Rightarrow> token_form \<Rightarrow> time \<Rightarrow> draws \<Rightarrow> oauth \<times> token_sys \<Rightarrow> token_response answer \<times> oauth \<times> token_sys" where
  "exchangeCode lib f now d sys =
     (case sys of (s, toks) \<Rightarrow>
        if tf_code f = [] \<or> tf_verifier f = [] \<or> trim_space (tf_client_id f) = [] then (Fails 400 ''invalid_request'', s, toks)
        else
          case take_code lib (tf_code f) s of (found, s) \<Rightarrow>
            case check_code lib (os_cfg s) f found now of
              Inl (status, code) \<Rightarrow> (Fails status code, s, toks)
            | Inr ac \<Rightarrow>
                case create_grant lib (os_cfg s) ac (dr_grant d) now (dr_grant_save d) toks of
                  (Inl e, toks) \<Rightarrow> (Fails 500 ''server_error'', s, toks)
                | (Inr g, toks) \<Rightarrow>
                    (case issueTokens lib g [] now (dr_access d) (dr_refresh d) (dr_refresh_save d) (s, toks) of
                       (Inl e, sys) \<Rightarrow> (Fails 500 ''server_error'', sys)
                     | (Inr resp, sys) \<Rightarrow> (Answers resp, sys)))"

text \<open>What is checked of the grant a refresh token belongs to.\<close>

definition check_refresh :: "oauth_lib \<Rightarrow> oauth_config \<Rightarrow> token_form \<Rightarrow> token \<Rightarrow> time \<Rightarrow> (nat \<times> string) option" where
  "check_refresh lib cfg f g now =
     (if tk_client g \<noteq> trim_space (tf_client_id f) \<or> \<not> IsOAuthGrant g \<or> Expired g now
         \<or> tk_refresh_expires g \<noteq> 0 \<and> now \<ge> tk_refresh_expires g then Some (400, ''invalid_grant'')
      else if bad_resource lib cfg (tf_resource f) then Some (400, ''invalid_target'')
      else if tf_scope f = [] then None
      else
        case parseScopes (tf_scope f) of
          Inl e \<Rightarrow> Some (400, ''invalid_scope'')
        | Inr asked \<Rightarrow>
            if list_ex (\<lambda>a. a \<noteq> ScopeOffline \<and> \<not> HasScope g a) asked then Some (400, ''invalid_scope'') else None)"

text \<open>What follows the discovery that a refresh token was used twice.\<close>

definition revoke_grant :: "string \<Rightarrow> save_outcome \<Rightarrow> oauth \<times> token_sys \<Rightarrow> oauth \<times> token_sys" where
  "revoke_grant i out sys = (case sys of (s, toks) \<Rightarrow> (dropAccessFor i s, snd (Revoke i out toks)))"

definition refreshGrant ::
  "oauth_lib \<Rightarrow> token_form \<Rightarrow> time \<Rightarrow> draws \<Rightarrow> oauth \<times> token_sys \<Rightarrow> token_response answer \<times> oauth \<times> token_sys" where
  "refreshGrant lib f now d sys =
     (case sys of (s, toks) \<Rightarrow>
        if tf_refresh f = [] \<or> trim_space (tf_client_id f) = [] then (Fails 400 ''invalid_request'', s, toks)
        else
          let h = ol_hash lib (tf_refresh f) in
          case ByRefreshHash h toks of
            (None, toks) \<Rightarrow>
              (Fails 400 ''invalid_grant'',
               case fmlookup (os_consumed s) h of
                 None \<Rightarrow> (s, toks)
               | Some c \<Rightarrow> revoke_grant (cr_token c) (dr_revoke_save d) (s, toks))
          | (Some g, toks) \<Rightarrow>
              (case check_refresh lib (os_cfg s) f g now of
                 Some (status, code) \<Rightarrow> (Fails status code, s, toks)
               | None \<Rightarrow>
                   case issueTokens lib g h now (dr_access d) (dr_refresh d) (dr_refresh_save d) (s, toks) of
                     (Inl (StoreError RefreshRotated), sys) \<Rightarrow>
                       (Fails 400 ''invalid_grant'', revoke_grant (tk_id g) (dr_revoke_save d) sys)
                   | (Inl e, sys) \<Rightarrow> (Fails 500 ''server_error'', sys)
                   | (Inr resp, sys) \<Rightarrow> (Answers resp, sys)))"

text \<open>\<open>form\<close> is \<open>None\<close> when the body is not a form of at most 16 KiB.\<close>

definition limited_post ::
  "string \<Rightarrow> string \<Rightarrow> token_form option \<Rightarrow> time \<Rightarrow> oauth \<Rightarrow> (nat \<times> string + token_form) \<times> oauth" where
  "limited_post verb addr form now s =
     (if verb \<noteq> ''POST'' then (Inl (405, ''invalid_request''), s)
      else
        case form of
          None \<Rightarrow> (Inl (400, ''invalid_request''), s)
        | Some f \<Rightarrow>
            case win_Allow (''token:'' @ addr) now (os_limiter s) of (allowed, l) \<Rightarrow>
              (if allowed then Inr f else Inl (429, ''invalid_request''), s\<lparr>os_limiter := l\<rparr>))"

definition handleToken ::
  "oauth_lib \<Rightarrow> string \<Rightarrow> string \<Rightarrow> token_form option \<Rightarrow> time \<Rightarrow> draws \<Rightarrow> oauth \<times> token_sys
     \<Rightarrow> token_response answer \<times> oauth \<times> token_sys" where
  "handleToken lib verb addr form now d sys =
     (case sys of (s, toks) \<Rightarrow>
        case limited_post verb addr form now s of
          (Inl (status, code), s) \<Rightarrow> (Fails status code, s, toks)
        | (Inr f, s) \<Rightarrow>
            if tf_grant_type f = ''authorization_code'' then exchangeCode lib f now d (s, toks)
            else if tf_grant_type f = ''refresh_token'' then refreshGrant lib f now d (s, toks)
            else (Fails 400 ''unsupported_grant_type'', s, toks))"

text \<open>\<open>handleRevoke\<close> answers 200 whether it revoked anything or not.\<close>

definition handleRevoke ::
  "oauth_lib \<Rightarrow> string \<Rightarrow> string \<Rightarrow> token_form option \<Rightarrow> time \<Rightarrow> save_outcome \<Rightarrow> oauth \<times> token_sys
     \<Rightarrow> unit answer \<times> oauth \<times> token_sys" where
  "handleRevoke lib verb addr form now out sys =
     (case sys of (s, toks) \<Rightarrow>
        case limited_post verb addr form now s of
          (Inl (status, code), s) \<Rightarrow> (Fails status code, s, toks)
        | (Inr f, s) \<Rightarrow>
            (Answers (),
             if has_prefix (tf_token f) refreshPrefix then
               (case ByRefreshHash (ol_hash lib (tf_token f)) toks of
                  (None, toks) \<Rightarrow> (s, toks)
                | (Some g, toks) \<Rightarrow>
                    if trim_space (tf_client_id f) = [] \<or> tk_client g = trim_space (tf_client_id f)
                    then revoke_grant (tk_id g) out (s, toks) else (s, toks))
             else if has_prefix (tf_token f) accessPrefix then
               (s\<lparr>os_access := fmdrop (ol_hash lib (tf_token f)) (os_access s)\<rparr>, toks)
             else (s, toks)))"

text \<open>\<open>Resolve\<close>: the grant of an access token.\<close>

definition Resolve ::
  "oauth_lib \<Rightarrow> string \<Rightarrow> time \<Rightarrow> save_outcome \<Rightarrow> oauth \<times> token_sys \<Rightarrow> token option \<times> oauth \<times> token_sys" where
  "Resolve lib plaintext now out sys =
     (case sys of (s, toks) \<Rightarrow>
        if \<not> has_prefix plaintext accessPrefix then (None, s, toks)
        else
          case fmlookup (os_access s) (ol_hash lib plaintext) of
            None \<Rightarrow> (None, s, toks)
          | Some e \<Rightarrow>
              if now \<ge> ae_exp e then (None, s, toks)
              else
                case ByID (ae_token e) toks of
                  (None, toks) \<Rightarrow> (None, s, toks)
                | (Some g, toks) \<Rightarrow>
                    if \<not> IsOAuthGrant g \<or> Expired g now then (None, s, toks)
                    else (Some g, s, Touch (tk_id g) now out toks))"

end
