(* ===== verification/OAuthTokens.thy ===== *)
theory OAuthTokens
  imports TokenClaims OAuthServer
begin

text \<open>
  What the OAuth server relies on of the token store: which tokens each operation leaves. \<open>token_op\<close> is
  every other operation of the store, by the command line, the REST API and the jobs, and \<open>derives\<close> what all
  of them keep of a grant.
\<close>

subsection \<open>Memory that the file would not change\<close>

definition settled :: "token_sys \<Rightarrow> bool" where
  "settled sys \<longleftrightarrow> tokens_of (tok_sync sys) = tokens_of sys"

lemma settled_sync [simp]: "settled (tok_sync sys)"
  by (simp add: settled_def tok_sync_idem)

lemma sync_Absent: "snd sys = Absent \<Longrightarrow> tokens_of (tok_sync sys) = []"
  by (cases sys) (auto simp: tok_sync_def tok_reload_def tok_load_def tokens_of_def)

lemma settled_set:
  assumes "tokens_of (tok_sync sys) = [] \<Longrightarrow> ts = []"
  shows "settled (set_tokens ts (tok_sync sys))"
proof (cases "snd sys")
  case Absent
  with assms sync_Absent have "ts = []" by blast
  then show ?thesis using Absent
    by (cases sys) (auto simp: settled_def tok_sync_def tok_reload_def tok_load_def tokens_of_def set_tokens_def)
next
  case StatError
  then show ?thesis
    by (cases sys) (auto simp: settled_def tok_sync_def tok_reload_def tokens_of_def set_tokens_def)
next
  case (Present t c)
  then show ?thesis
    by (cases sys; cases c) (auto simp: settled_def tok_sync_def tok_reload_def tok_load_def tokens_of_def set_tokens_def)
qed

lemma settled_saved: "tok_save (Saved t b) x = (ok, y) \<Longrightarrow> settled y"
  by (cases x) (auto simp: settled_def tok_save_def tok_sync_def tok_reload_def tok_load_def tokens_of_def)

text \<open>What a restart would read.\<close>

definition file_tokens :: "token_sys \<Rightarrow> token list" where
  "file_tokens sys = (case snd sys of Present t (Some c) \<Rightarrow> c | _ \<Rightarrow> [])"

lemma file_tokens_sync [simp]: "file_tokens (tok_sync sys) = file_tokens sys"
  by (cases sys) (simp add: file_tokens_def tok_sync_def)

lemma file_tokens_set [simp]: "file_tokens (set_tokens ts sys) = file_tokens sys"
  by (cases sys) (simp add: file_tokens_def set_tokens_def)

lemma save_file: "tok_save out x = (ok, y) \<Longrightarrow> file_tokens y = (if ok then tokens_of x else file_tokens x)"
  by (cases x; cases out) (auto simp: tok_save_def file_tokens_def tokens_of_def)

lemma save_settled:
  assumes "tok_save out (set_tokens ts (tok_sync sys)) = (ok, y)" and "\<not> ok \<Longrightarrow> tokens_of (tok_sync sys) = [] \<Longrightarrow> ts = []"
  shows "settled y \<and> tokens_of y = ts"
proof (cases out)
  case SaveFails
  then have "y = set_tokens ts (tok_sync sys)" and "\<not> ok" using assms(1) by simp_all
  with settled_set [of sys ts] assms(2) show ?thesis by simp
next
  case (Saved t b)
  with assms(1) settled_saved tok_save_tokens [OF assms(1)] show ?thesis by simp
qed

text \<open>The case of an operation that saves the list \<open>ts\<close>, whether the save succeeds or not.\<close>

lemma save_cases:
  assumes "tokens_of (tok_sync sys) = [] \<Longrightarrow> ts = []"
  obtains ok y where "tok_save out (set_tokens ts (tok_sync sys)) = (ok, y)" and "settled y" and "tokens_of y = ts"
    and "file_tokens y = (if ok then ts else file_tokens sys)"
proof -
  obtain ok y where save: "tok_save out (set_tokens ts (tok_sync sys)) = (ok, y)" by (rule prod.exhaust)
  with save_settled [OF save assms] save_file [OF save] show thesis using that [of ok y] by simp
qed

subsection \<open>The operations the OAuth server uses\<close>

lemma ByRefreshHash_eq:
  "ByRefreshHash h sys = (find (\<lambda>t. tk_refresh_hash t \<noteq> [] \<and> tk_refresh_hash t = h) (tokens_of (tok_sync sys)), tok_sync sys)"
  by (simp add: ByRefreshHash_def Let_def)

lemma ByID_eq: "ByID i sys = (find (\<lambda>t. tk_id t = i) (tokens_of (tok_sync sys)), tok_sync sys)"
  by (simp add: ByID_def Let_def)

definition with_refresh :: "string \<Rightarrow> string \<Rightarrow> time \<Rightarrow> token list \<Rightarrow> token list" where
  "with_refresh i h e = update_first (\<lambda>t. tk_id t = i) (\<lambda>t. t\<lparr>tk_refresh_hash := h, tk_refresh_expires := e\<rparr>)"

lemma with_refresh_Nil [simp]: "with_refresh i h e [] = []"
  by (simp add: with_refresh_def)

lemma with_refresh_undo:
  assumes "find (\<lambda>t. tk_id t = i) ts = Some t0"
  shows "with_refresh i (tk_refresh_hash t0) (tk_refresh_expires t0) (with_refresh i h e ts) = ts"
  using assms unfolding with_refresh_def by (induction ts) (auto split: if_splits)

lemma mint_tokens:
  assumes "mint hf pt name clean scopes ttl owner upd now out sys = (r, sys')"
  shows "settled sys' \<and>
    (case r of
       Inr t \<Rightarrow> t = upd (mint_record hf pt name clean scopes ttl owner now) \<and> tokens_of sys' = tokens_of (tok_sync sys) @ [t]
         \<and> file_tokens sys' = tokens_of sys'
     | Inl e \<Rightarrow> tokens_of sys' = tokens_of (tok_sync sys) \<and> file_tokens sys' = file_tokens sys)"
proof -
  let ?t = "upd (mint_record hf pt name clean scopes ttl owner now)"
  obtain ok y where save: "tok_save out (set_tokens (tokens_of (tok_sync sys) @ [?t]) (tok_sync sys)) = (ok, y)"
    by (rule prod.exhaust)
  show ?thesis
  proof (cases out)
    case SaveFails
    then have "y = set_tokens (tokens_of (tok_sync sys) @ [?t]) (tok_sync sys)" and "\<not> ok" using save by simp_all
    then have "r = Inl AuthSaveFailed" "sys' = tok_sync sys"
      using assms save by (simp_all add: mint_def Let_def)
    then show ?thesis by simp
  next
    case (Saved t b)
    note saved = save [unfolded Saved]
    have "ok" "settled y" and T: "tokens_of y = tokens_of (tok_sync sys) @ [?t]" "file_tokens y = tokens_of y"
      using tok_save_done [OF saved] settled_saved [OF saved] save_file [OF saved] by simp_all
    then have "r = Inr ?t" "sys' = y" using assms save by (simp_all add: mint_def Let_def)
    with \<open>settled y\<close> T show ?thesis by simp
  qed
qed

lemma CreateGrant_tokens:
  assumes "CreateGrant hf rnd name projects scopes ttl owner client now out sys = (r, sys')" and "settled sys"
  shows "settled sys' \<and>
    (case r of
       Inr g \<Rightarrow> tokens_of sys' = tokens_of sys @ [g] \<and> tk_kind g = KindOAuth \<and> tk_client g = client \<and> tk_scopes g = scopes
         \<and> tk_owner g = owner \<and> tk_refresh_hash g = [] \<and> tk_id g = take 8 (hf (''grant:'' @ rnd)) \<and> tk_expires g = (if ttl \<noteq> 0 then now + ttl else 0)
         \<and> file_tokens sys' = tokens_of sys'
     | Inl e \<Rightarrow> tokens_of sys' = tokens_of sys \<and> file_tokens sys' = file_tokens sys)"
proof (cases "validateCreate name scopes")
  case (Some e)
  then show ?thesis using assms by (auto simp: CreateGrant_def)
next
  case None
  show ?thesis
  proof (cases "cleanProjectList projects")
    case (Inl e)
    then show ?thesis using assms None by (auto simp: CreateGrant_def)
  next
    case (Inr clean)
    with None assms(1) have "mint hf (''grant:'' @ rnd) name clean scopes ttl owner
        (\<lambda>t. t\<lparr>tk_kind := KindOAuth, tk_client := client\<rparr>) now out sys = (r, sys')" by (simp add: CreateGrant_def)
    from mint_tokens [OF this] assms(2) show ?thesis
      by (auto simp: settled_def mint_record_def Let_def split: sum.splits)
  qed
qed

lemma SetRefresh_tokens:
  assumes "SetRefresh i h e out sys = (r, sys')" and "settled sys"
  shows "settled sys' \<and> tokens_of sys' = with_refresh i h e (tokens_of sys)
    \<and> file_tokens sys' = (if r = Inr () then tokens_of sys' else file_tokens sys)"
proof -
  let ?ts = "with_refresh i h e (tokens_of (tok_sync sys))"
  obtain ok y where save: "tok_save out (set_tokens ?ts (tok_sync sys)) = (ok, y)"
    and y: "settled y" "tokens_of y = ?ts" "file_tokens y = (if ok then ?ts else file_tokens sys)" by (rule save_cases [of sys ?ts out]) simp
  show ?thesis
  proof (cases "list_ex (\<lambda>t. tk_id t = i) (tokens_of (tok_sync sys))")
    case True
    then have "sys' = y" "r = (if ok then Inr () else Inl AuthSaveFailed)" using assms(1) save
      by (auto simp: SetRefresh_def on_token_def Let_def tok_save_err_def with_refresh_def)
    with y assms(2) show ?thesis by (simp add: settled_def)
  next
    case False
    then have "sys' = tok_sync sys" "?ts = tokens_of (tok_sync sys)" "r = Inl (TokenNotFound i)"
      using assms(1) by (auto simp: SetRefresh_def on_token_def with_refresh_def update_first_no)
    with assms(2) show ?thesis by (simp add: settled_def tok_sync_idem)
  qed
qed

lemma RotateRefresh_tokens:
  assumes "RotateRefresh i old new e out sys = (r, sys')" and "settled sys"
  shows "settled sys' \<and>
    (case r of
       Inr u \<Rightarrow> (\<exists>t. find (\<lambda>t. tk_id t = i) (tokens_of sys) = Some t \<and> tk_refresh_hash t = old) \<and>
         tokens_of sys' = with_refresh i new e (tokens_of sys) \<and> file_tokens sys' = tokens_of sys'
     | Inl x \<Rightarrow> tokens_of sys' = tokens_of sys \<and> file_tokens sys' = file_tokens sys)"
proof (cases "find (\<lambda>t. tk_id t = i) (tokens_of (tok_sync sys))")
  case None
  then show ?thesis using assms by (auto simp: RotateRefresh_def Let_def settled_def tok_sync_idem)
next
  case (Some t)
  show ?thesis
  proof (cases "tk_refresh_hash t = old")
    case False
    then show ?thesis using assms Some by (auto simp: RotateRefresh_def Let_def settled_def tok_sync_idem)
  next
    case True
    let ?ts = "with_refresh i new e (tokens_of (tok_sync sys))"
    obtain ok y where save: "tok_save out (set_tokens ?ts (tok_sync sys)) = (ok, y)" by (rule prod.exhaust)
    show ?thesis
    proof (cases out)
      case SaveFails
      then have y: "\<not> ok" "y = set_tokens ?ts (tok_sync sys)" using save by simp_all
      have "sys' = set_tokens (with_refresh i (tk_refresh_hash t) (tk_refresh_expires t) ?ts) (tok_sync sys)" "r = Inl AuthSaveFailed"
        using assms(1) Some True SaveFails by (auto simp: RotateRefresh_def Let_def with_refresh_def)
      then show ?thesis using assms(2) by (simp add: with_refresh_undo [OF Some]) (simp add: settled_def)
    next
      case (Saved u b)
      note saved = save [unfolded Saved]
      have y: "ok" "settled y" "tokens_of y = ?ts" "file_tokens y = ?ts"
        using tok_save_done [OF saved] settled_saved [OF saved] save_file [OF saved] by simp_all
      have "sys' = y" "r = Inr ()"
        using assms(1) Some True save y(1) by (auto simp: RotateRefresh_def Let_def with_refresh_def)
      then show ?thesis using y Some True assms(2) by (auto simp: settled_def)
    qed
  qed
qed

lemma remove_first_none: "\<not> list_ex p xs \<Longrightarrow> remove_first p xs = xs"
  by (induction xs) auto

lemma Revoke_tokens:
  assumes "Revoke i out sys = (r, sys')" and "settled sys"
  shows "settled sys' \<and> tokens_of sys' = remove_first (\<lambda>t. tk_id t = i) (tokens_of sys)
    \<and> file_tokens sys' = (if r = Inr () then tokens_of sys' else file_tokens sys)"
proof -
  let ?ts = "remove_first (\<lambda>t. tk_id t = i) (tokens_of (tok_sync sys))"
  obtain ok y where save: "tok_save out (set_tokens ?ts (tok_sync sys)) = (ok, y)"
    and y: "settled y" "tokens_of y = ?ts" "file_tokens y = (if ok then ?ts else file_tokens sys)" by (rule save_cases [of sys ?ts out]) simp
  show ?thesis
  proof (cases "list_ex (\<lambda>t. tk_id t = i) (tokens_of (tok_sync sys))")
    case True
    then have "sys' = y" "r = (if ok then Inr () else Inl AuthSaveFailed)"
      using assms(1) save by (auto simp: Revoke_def Let_def tok_save_err_def)
    with y assms(2) show ?thesis by (simp add: settled_def)
  next
    case False
    then have "sys' = tok_sync sys" "r = Inl (TokenNotFound i)" using assms(1) by (auto simp: Revoke_def Let_def)
    with False assms(2) show ?thesis by (simp add: settled_def remove_first_none tok_sync_idem)
  qed
qed

subsection \<open>The other operations of the store\<close>

text \<open>What every one of them keeps of a grant: all the server looks at, but an owner that was missing.\<close>

definition same_grant :: "token \<Rightarrow> token \<Rightarrow> bool" where
  "same_grant t t' \<longleftrightarrow>
     tk_id t' = tk_id t \<and> tk_kind t' = tk_kind t \<and> tk_client t' = tk_client t \<and> tk_scopes t' = tk_scopes t \<and>
     tk_refresh_hash t' = tk_refresh_hash t \<and> tk_refresh_expires t' = tk_refresh_expires t \<and> tk_expires t' = tk_expires t \<and>
     (tk_owner t \<noteq> [] \<longrightarrow> tk_owner t' = tk_owner t)"

lemma same_grant_refl [simp]: "same_grant t t"
  by (simp add: same_grant_def)

lemma same_grant_trans: "same_grant t u \<Longrightarrow> same_grant u v \<Longrightarrow> same_grant t v"
  by (auto simp: same_grant_def)

definition derives :: "token list \<Rightarrow> token list \<Rightarrow> bool" where
  "derives T T' \<longleftrightarrow>
     (distinct (map tk_id T) \<longrightarrow> distinct (map tk_id T')) \<and>
     (\<forall>t'\<in>set T'. (\<exists>t\<in>set T. same_grant t t') \<or>
        \<not> IsOAuthGrant t' \<and> tk_refresh_hash t' = [] \<and> tk_id t' \<notin> tk_id ` set T)"

lemma derives_subset:
  assumes "distinct (map tk_id T) \<Longrightarrow> distinct (map tk_id T')" and "set T' \<subseteq> set T"
  shows "derives T T'"
  unfolding derives_def
proof (intro conjI impI ballI disjI1)
  fix t' assume "t' \<in> set T'"
  with assms(2) have "t' \<in> set T" by blast
  with same_grant_refl [of t'] show "\<exists>t\<in>set T. same_grant t t'" by blast
qed (rule assms(1))

lemma derives_refl [simp]: "derives T T"
  by (simp add: derives_subset)

lemma derives_filter [simp]: "derives T (filter p T)"
  by (rule derives_subset) (auto simp: distinct_map_filter)

lemma distinct_remove_first: "distinct (map f xs) \<Longrightarrow> distinct (map f (remove_first p xs))"
proof (induction xs)
  case (Cons x xs)
  moreover have "f x \<notin> f ` set (remove_first p xs)" using Cons.prems set_remove_first [of p xs] by auto
  ultimately show ?case by simp
qed simp

lemma derives_remove_first [simp]: "derives T (remove_first p T)"
  by (rule derives_subset) (rule distinct_remove_first, assumption, rule set_remove_first)

lemma derives_map:
  assumes "\<And>t. same_grant t (f t)"
  shows "derives T (map f T)"
proof -
  have "tk_id (f t) = tk_id t" for t using assms [of t] by (simp add: same_grant_def)
  then show ?thesis using assms by (auto simp: derives_def comp_def)
qed

lemma derives_map_filter:
  assumes "\<And>t t'. f t = Some t' \<Longrightarrow> same_grant t t'"
  shows "derives T (List.map_filter f T)"
proof -
  have id: "tk_id t' = tk_id t" if "f t = Some t'" for t t' using assms [OF that] by (simp add: same_grant_def)
  have "distinct (map tk_id T) \<Longrightarrow> distinct (map tk_id (List.map_filter f T))"
    by (induction T) (auto simp: List.map_filter_simps in_map_filter_iff id rev_image_eqI split: option.splits dest!: id)
  moreover have "t' \<in> set (List.map_filter f T) \<Longrightarrow> \<exists>t\<in>set T. same_grant t t'" for t'
    using assms by (auto simp: in_map_filter_iff)
  ultimately show ?thesis by (simp add: derives_def)
qed

lemma derives_update_first:
  assumes "\<And>t. same_grant t (f t)"
  shows "derives T (update_first p f T)"
proof -
  have ids: "map tk_id (update_first p f T) = map tk_id T"
    using assms by (intro map_update_first) (simp add: same_grant_def)
  show ?thesis
    unfolding derives_def ids
  proof (intro conjI impI ballI disjI1)
    fix t' assume "t' \<in> set (update_first p f T)"
    then show "\<exists>t\<in>set T. same_grant t t'" using set_update_first [of t' p f T] assms same_grant_refl by metis
  qed
qed

lemma derives_append:
  assumes "tk_kind t \<noteq> KindOAuth" and "tk_refresh_hash t = []" and "tk_id t \<notin> tk_id ` set T"
  shows "derives T (filter p T @ [t])"
proof -
  have "derives T (filter p T)" by simp
  then show ?thesis using assms by (auto simp: derives_def IsOAuthGrant_def)
qed

text \<open>\<open>keeps_grants\<close>: the new store holds no grant that is not one of the old.\<close>

definition keeps_grants :: "token_sys \<Rightarrow> token_sys \<Rightarrow> bool" where
  "keeps_grants sys sys' \<longleftrightarrow>
     settled sys' \<and> derives (tokens_of sys) (tokens_of sys') \<and> file_tokens sys' \<in> {file_tokens sys, tokens_of sys'}"

lemma keeps_refl: "settled sys \<Longrightarrow> keeps_grants sys sys"
  by (simp add: keeps_grants_def)

lemma keeps_sync: "settled sys \<Longrightarrow> keeps_grants sys (tok_sync sys)"
  by (simp add: keeps_grants_def settled_def tok_sync_idem)

lemma keeps_save:
  assumes "settled sys" and "derives (tokens_of sys) ts" and "tokens_of sys = [] \<Longrightarrow> ts = []"
    and "tok_save out (set_tokens ts (tok_sync sys)) = (ok, y)"
  shows "keeps_grants sys y"
  using save_settled [OF assms(4)] save_file [OF assms(4)] assms(1-3) by (simp add: keeps_grants_def settled_def)

lemma keeps_mint:
  assumes "settled sys" and "mint hf pt name clean scopes ttl owner upd now out (set_tokens (filter p (tokens_of sys)) (tok_sync sys)) = (r, y)"
    and "tk_kind (upd (mint_record hf pt name clean scopes ttl owner now)) \<noteq> KindOAuth"
    and "tk_refresh_hash (upd (mint_record hf pt name clean scopes ttl owner now)) = []"
    and "tk_id (upd (mint_record hf pt name clean scopes ttl owner now)) \<notin> tk_id ` set (tokens_of sys)"
  shows "keeps_grants sys y"
proof -
  let ?sys = "set_tokens (filter p (tokens_of sys)) (tok_sync sys)"
  have "settled ?sys" by (rule settled_set) (use assms(1) in \<open>simp add: settled_def\<close>)
  then have "tokens_of (tok_sync ?sys) = filter p (tokens_of sys)" by (simp add: settled_def)
  then show ?thesis
    using mint_tokens [OF assms(2)] derives_append [OF assms(3-5)] by (cases r) (auto simp: keeps_grants_def)
qed

text \<open>A plaintext that gives the identifier of a token there is (the first 8 digits of its hash) is excluded.\<close>

definition new_id :: "(string \<Rightarrow> string) \<Rightarrow> string \<Rightarrow> token_sys \<Rightarrow> bool" where
  "new_id hf plaintext sys \<longleftrightarrow> take 8 (hf plaintext) \<notin> tk_id ` set (tokens_of sys)"

inductive token_op :: "(string \<Rightarrow> string) \<Rightarrow> token_sys \<Rightarrow> token_sys \<Rightarrow> bool" for hf where
  TokenCreated: "new_id hf (tokenPrefix @ rnd) sys \<Longrightarrow>
    token_op hf sys (snd (Create hf rnd name projects scopes ttl owner now out sys))"
| RunCreated: "new_id hf (tokenPrefix @ rnd) sys \<Longrightarrow>
    token_op hf sys (snd (CreateRun hf rnd name project write ttl run paths now out sys))"
| Validated: "token_op hf sys (snd (Validate hf plaintext now out sys))"
| Touched: "token_op hf sys (Touch i now out sys)"
| TokenRevoked: "token_op hf sys (snd (Revoke i out sys))"
| OwnerRevoked: "token_op hf sys (snd (RevokeByOwner user out sys))"
| OwnerGrantsRevoked: "token_op hf sys (snd (RevokeOAuthByOwner user out sys))"
| OrphansAssigned: "token_op hf sys (snd (AssignOwnerToOrphans user out sys))"
| OptedIn: "token_op hf sys (snd (SetSelfImproveOptIn i opt out sys))"
| ProfileSet: "token_op hf sys (snd (SetToolProfile i profile out sys))"
| ProjectRenamed: "token_op hf sys (snd (TokenStore.RenameProject from to out sys))"
| ProjectRemoved: "token_op hf sys (snd (TokenStore.RemoveProject name out sys))"
| Listed: "token_op hf sys (tok_sync sys)"


lemma keeps_on_token:
  assumes "settled sys" and "\<And>t. same_grant t (f t)"
  shows "keeps_grants sys (snd (on_token i f out sys))"
proof (cases "list_ex (\<lambda>t. tk_id t = i) (tokens_of (tok_sync sys))")
  case False
  then show ?thesis using keeps_sync [OF assms(1)] by (simp add: on_token_def)
next
  case True
  let ?ts = "update_first (\<lambda>t. tk_id t = i) f (tokens_of sys)"
  have T: "tokens_of (tok_sync sys) = tokens_of sys" using assms(1) by (simp add: settled_def)
  obtain ok y where save: "tok_save out (set_tokens ?ts (tok_sync sys)) = (ok, y)" by (rule prod.exhaust)
  have "keeps_grants sys y"
    by (rule keeps_save [OF assms(1) derives_update_first [OF assms(2)] _ save]) simp
  moreover have "snd (on_token i f out sys) = y" using True T save by (simp add: on_token_def tok_save_err_def)
  ultimately show ?thesis by simp
qed

lemma keeps_revoke_where: "settled sys \<Longrightarrow> keeps_grants sys (snd (revoke_where bad out sys))"
proof -
  assume s: "settled sys"
  then have T: "tokens_of (tok_sync sys) = tokens_of sys" by (simp add: settled_def)
  let ?ts = "filter (\<lambda>t. \<not> bad t) (tokens_of sys)"
  obtain ok y where save: "tok_save out (set_tokens ?ts (tok_sync sys)) = (ok, y)" by (rule prod.exhaust)
  have "keeps_grants sys y" by (rule keeps_save [OF s derives_filter _ save]) simp
  then show ?thesis using keeps_sync [OF s] save by (simp add: revoke_where_def Let_def T)
qed

lemma keeps_Touch: "settled sys \<Longrightarrow> keeps_grants sys (Touch i now out sys)"
proof -
  assume s: "settled sys"
  then have T: "tokens_of (tok_sync sys) = tokens_of sys" by (simp add: settled_def)
  let ?ts = "update_first (\<lambda>t. tk_id t = i) (\<lambda>t. t\<lparr>tk_last_used := now\<rparr>) (tokens_of sys)"
  obtain ok y where save: "tok_save out (set_tokens ?ts (tok_sync sys)) = (ok, y)" by (rule prod.exhaust)
  have "keeps_grants sys y"
    by (rule keeps_save [OF s derives_update_first _ save]) (simp_all add: same_grant_def)
  then show ?thesis using keeps_sync [OF s] keeps_refl [OF s] save
    by (auto simp: Touch_def Let_def T split: option.splits)
qed

lemma keeps_Revoke: "settled sys \<Longrightarrow> keeps_grants sys (snd (Revoke i out sys))"
  using Revoke_tokens [of i out sys "fst (Revoke i out sys)" "snd (Revoke i out sys)"]
  by (simp add: keeps_grants_def split: if_splits)

lemma rename_same_grant: "same_grant t (fst (rename_in_token from to t))"
  by (auto simp: rename_in_token_def rename_project_def rename_list_def rename_paths_def same_grant_def split: prod.splits if_splits)

lemma removed_same_grant: "kept_token (remove_from_token name t) = Some t' \<Longrightarrow> same_grant t t'"
  by (auto simp: remove_from_token_def Let_def same_grant_def split: if_splits list.splits)

lemma keeps_Create:
  assumes "settled sys" and "new_id hf (tokenPrefix @ rnd) sys"
  shows "keeps_grants sys (snd (Create hf rnd name projects scopes ttl owner now out sys))"
proof (cases "validateCreate name scopes = None \<and> (\<exists>clean. cleanProjectList projects = Inr clean)")
  case False
  then show ?thesis using keeps_refl [OF assms(1)] by (auto simp: Create_def split: option.splits sum.splits)
next
  case True
  then obtain clean where clean: "validateCreate name scopes = None" "cleanProjectList projects = Inr clean" by blast
  have T: "tokens_of (tok_sync sys) = tokens_of sys" using assms(1) by (simp add: settled_def)
  obtain r y where m: "mint hf (tokenPrefix @ rnd) name clean scopes ttl owner (\<lambda>t. t) now out sys = (r, y)" by (rule prod.exhaust)
  have "keeps_grants sys y"
    using mint_tokens [OF m] assms(2) T
      derives_append [of "mint_record hf (tokenPrefix @ rnd) name clean scopes ttl owner now" "tokens_of sys" "\<lambda>_. True"]
    by (auto simp: keeps_grants_def new_id_def mint_record_def Let_def KindOAuth_def split: sum.splits)
  then show ?thesis using m clean by (cases r) (auto simp: Create_def)
qed

lemma keeps_RenameProject: "settled sys \<Longrightarrow> keeps_grants sys (snd (TokenStore.RenameProject from to out sys))"
proof -
  assume s: "settled sys"
  then have T: "tokens_of (tok_sync sys) = tokens_of sys" by (simp add: settled_def)
  let ?ts = "map fst (map (rename_in_token from to) (tokens_of sys))"
  obtain ok y where save: "tok_save out (set_tokens ?ts (tok_sync sys)) = (ok, y)" by (rule prod.exhaust)
  have "derives (tokens_of sys) ?ts" using derives_map [OF rename_same_grant] by (simp add: comp_def)
  from keeps_save [OF s this _ save] have "keeps_grants sys y" by simp
  then show ?thesis using keeps_sync [OF s] keeps_refl [OF s] save by (simp add: TokenStore.RenameProject_def Let_def T)
qed

lemma keeps_RemoveProject: "settled sys \<Longrightarrow> keeps_grants sys (snd (TokenStore.RemoveProject name out sys))"
proof -
  assume s: "settled sys"
  then have T: "tokens_of (tok_sync sys) = tokens_of sys" by (simp add: settled_def)
  let ?ts = "List.map_filter kept_token (map (remove_from_token name) (tokens_of sys))"
  obtain ok y where save: "tok_save out (set_tokens ?ts (tok_sync sys)) = (ok, y)" by (rule prod.exhaust)
  have "derives (tokens_of sys) ?ts"
    unfolding map_filter_map by (rule derives_map_filter) (rule removed_same_grant)
  from keeps_save [OF s this _ save] have y: "keeps_grants sys y" by (simp add: List.map_filter_simps)
  show ?thesis
  proof (cases ok)
    case True
    then show ?thesis using y keeps_sync [OF s] keeps_refl [OF s] save by (simp add: TokenStore.RemoveProject_def Let_def T)
  next
    case False
    then have "out = SaveFails" using save by (cases out) (auto simp: tok_save_def split: prod.splits)
    then have "y = set_tokens ?ts (tok_sync sys)" using save by simp
    then have "set_tokens (tokens_of sys) y = tok_sync sys" by (metis T set_tokens_same set_tokens_twice)
    then show ?thesis using False keeps_sync [OF s] keeps_refl [OF s] save by (simp add: TokenStore.RemoveProject_def Let_def T)
  qed
qed


lemma keeps_CreateRun:
  assumes "settled sys" and "new_id hf (tokenPrefix @ rnd) sys"
  shows "keeps_grants sys (snd (CreateRun hf rnd name project write ttl run paths now out sys))"
proof -
  let ?res = "CreateRun hf rnd name project write ttl run paths now out sys"
  let ?scopes = "if write then [ScopeRead, ScopeWrite] else [ScopeRead]"
  let ?kept = "filter (\<lambda>t. tk_kind t \<noteq> KindRun \<or> \<not> Expired t now) (tokens_of sys)"
  have T: "tokens_of (tok_sync sys) = tokens_of sys" using assms(1) by (simp add: settled_def)
  have "snd ?res \<in> {sys, tok_sync sys} \<or>
    (\<exists>clean cpaths. snd ?res = snd (mint hf (tokenPrefix @ rnd) name clean ?scopes ttl []
       (\<lambda>t. t\<lparr>tk_kind := KindRun, tk_profile := ToolProfileCore, tk_run := run, tk_write_paths := cpaths\<rparr>)
       now out (set_tokens ?kept (tok_sync sys))))"
  proof (cases "ttl \<le> 0 \<or> paths \<noteq> [] \<and> \<not> write")
    case True
    then show ?thesis by (auto simp: CreateRun_def)
  next
    case args: False
    show ?thesis
    proof (cases "validateCreate name ?scopes")
      case (Some e)
      with args show ?thesis by (auto simp: CreateRun_def Let_def)
    next
      case None
      show ?thesis
      proof (cases "\<exists>clean cpaths. cleanProjectList [project] = Inr clean \<and> length clean = 1 \<and> cleanWritePaths (hd clean) paths = Inr cpaths")
        case True
        then obtain clean cpaths where "cleanProjectList [project] = Inr clean" "length clean = 1" "cleanWritePaths (hd clean) paths = Inr cpaths"
          by blast
        note clean = this
        obtain r y where m: "mint hf (tokenPrefix @ rnd) name clean ?scopes ttl []
          (\<lambda>t. t\<lparr>tk_kind := KindRun, tk_profile := ToolProfileCore, tk_run := run, tk_write_paths := cpaths\<rparr>)
          now out (set_tokens ?kept (tok_sync sys)) = (r, y)" by (rule prod.exhaust)
        from args have no: "(ttl \<le> 0) = False" "(paths \<noteq> [] \<and> \<not> write) = False" by simp_all
        have "snd ?res = tok_sync sys \<or> snd ?res = y"
          unfolding CreateRun_def Let_def no T
          by (cases r; cases "tokens_of sys = []") (simp_all only: clean None m if_False if_True prod.case sum.case option.case snd_conv simp_thms refl)
        with m have "snd ?res = tok_sync sys \<or> snd ?res = snd (mint hf (tokenPrefix @ rnd) name clean ?scopes ttl []
          (\<lambda>t. t\<lparr>tk_kind := KindRun, tk_profile := ToolProfileCore, tk_run := run, tk_write_paths := cpaths\<rparr>)
          now out (set_tokens ?kept (tok_sync sys)))" by (simp del: if_split)
        then show ?thesis by blast
      next
        case False
        with args None have "snd ?res = sys"
          by (cases "cleanProjectList [project]"; cases "cleanWritePaths (hd (projr (cleanProjectList [project]))) paths")
            (simp_all add: CreateRun_def Let_def)
        then show ?thesis by simp
      qed
    qed
  qed
  then show ?thesis
  proof (elim disjE exE)
    assume "snd ?res \<in> {sys, tok_sync sys}"
    then show ?thesis using keeps_refl [OF assms(1)] keeps_sync [OF assms(1)] by auto
  next
    fix clean cpaths
    let ?upd = "\<lambda>t. t\<lparr>tk_kind := KindRun, tk_profile := ToolProfileCore, tk_run := run, tk_write_paths := cpaths\<rparr>"
    let ?m = "mint hf (tokenPrefix @ rnd) name clean ?scopes ttl [] ?upd now out (set_tokens ?kept (tok_sync sys))"
    assume res: "snd ?res = snd ?m"
    have m: "?m = (fst ?m, snd ?m)" by simp
    have "keeps_grants sys (snd ?m)"
      by (rule keeps_mint [OF assms(1) m])
        (use assms(2) in \<open>auto simp: mint_record_def new_id_def Let_def KindRun_def KindOAuth_def\<close>)
    with res show ?thesis by simp
  qed
qed

lemma keeps_synced: "settled sys \<Longrightarrow> keeps_grants (tok_sync sys) sys' \<Longrightarrow> keeps_grants sys sys'"
  by (simp add: keeps_grants_def settled_def)

lemma keeps_Validate: "settled sys \<Longrightarrow> keeps_grants sys (snd (Validate hf plaintext now out sys))"
  using keeps_refl keeps_sync [of sys] keeps_synced [OF _ keeps_Touch [of "tok_sync sys"]]
  by (auto simp: Validate_def Let_def split: option.split)

theorem token_op_keeps: "token_op hf sys sys' \<Longrightarrow> settled sys \<Longrightarrow> keeps_grants sys sys'"
proof (induction rule: token_op.induct)
  case (OrphansAssigned sys user out)
  have T: "tokens_of (tok_sync sys) = tokens_of sys" using OrphansAssigned by (simp add: settled_def)
  let ?ts = "map (\<lambda>t. if tk_owner t = [] then t\<lparr>tk_owner := user\<rparr> else t) (tokens_of sys)"
  obtain ok y where save: "tok_save out (set_tokens ?ts (tok_sync sys)) = (ok, y)" by (rule prod.exhaust)
  have "derives (tokens_of sys) ?ts" by (rule derives_map) (simp add: same_grant_def)
  from keeps_save [OF OrphansAssigned this _ save] have "keeps_grants sys y" by simp
  then show ?case using keeps_sync [OF OrphansAssigned] keeps_refl [OF OrphansAssigned] save
    by (simp add: AssignOwnerToOrphans_def Let_def T)
next
  case (OptedIn sys i opt out)
  then show ?case unfolding SetSelfImproveOptIn_def by (rule keeps_on_token) (simp add: same_grant_def)
next
  case (ProfileSet sys i profile out)
  then show ?case
    using keeps_refl keeps_on_token [of sys "\<lambda>t. t\<lparr>tk_profile := profile\<rparr>" i out]
    by (simp add: SetToolProfile_def same_grant_def)
qed (simp_all add: keeps_Create keeps_CreateRun keeps_Validate keeps_Touch keeps_Revoke keeps_revoke_where keeps_refl
  keeps_RenameProject keeps_RemoveProject keeps_sync RevokeByOwner_def RevokeOAuthByOwner_def)

end
