(* ===== verification/OAuthSteps.thy ===== *)
theory OAuthSteps
  imports OAuthTokens
begin

text \<open>
  The OAuth server under concurrent requests. A request to the token endpoint is cut at the locks it takes: the
  server's own mutex, and that of the token store. \<open>oauth_step\<close> is one of these critical sections, a decision on a
  consent, any other operation of the token store, a restart, or the passing of time; \<open>oauth_reachable\<close> is what
  any interleaving of them leads to.
\<close>

subsection \<open>Requests under way\<close>

text \<open>Where a request is: a code was taken and checked; its grant was created; there was room for its access token;
  a refresh token was found, with the grant it belongs to; there was room; it was marked as consumed; the mark is
  to be taken back; the access token is to be kept; no grant has the refresh token; a grant is to be revoked, or the
  access tokens of one to be dropped.\<close>

datatype request =
    Coded string auth_code
  | Created token
  | Fresh token
  | Found token string
  | Roomy token string
  | Marked token string
  | Unmarking string
  | Adding string time
  | Missed string
  | Revoking string
  | Dropping string

text \<open>What an account decided: the request it was shown, who it is and the scopes it allowed, as \<open>Approve\<close> is called.\<close>

record consent =
  cs_request :: pending_request
  cs_user :: string
  cs_scopes :: "string list"

text \<open>The ghost fields: every code that was approved, and the decision it was approved with; the code a grant came from; the grant each refresh token was
  minted for, with its end, and the grant of each access token; the refresh tokens rotated away, those of them since
  the last start, and those whose rotation failed since; and the grants whose revocation was saved.\<close>

record oauth_sys =
  og_server :: oauth
  og_tokens :: token_sys
  og_clock :: time
  og_requests :: "nat \<Rightarrow> request option"
  og_approved :: "string \<Rightarrow> auth_code option"
  og_consents :: "string \<Rightarrow> consent option"
  og_origin :: "string \<Rightarrow> string option"
  og_minted :: "string \<Rightarrow> (string \<times> time) option"
  og_accesses :: "string \<Rightarrow> string option"
  og_retired :: "string set"
  og_watched :: "string set"
  og_failed :: "string set"
  og_gone :: "string set"

definition new_oauth_sys :: "oauth \<Rightarrow> token_sys \<Rightarrow> time \<Rightarrow> oauth_sys" where
  "new_oauth_sys o' toks now =
     \<lparr>og_server = o', og_tokens = toks, og_clock = now, og_requests = (\<lambda>_. None), og_approved = (\<lambda>_. None), og_consents = (\<lambda>_. None), og_origin = (\<lambda>_. None),
      og_minted = (\<lambda>_. None), og_accesses = (\<lambda>_. None), og_retired = {}, og_watched = {}, og_failed = {}, og_gone = {}\<rparr>"

text \<open>\<open>auth.Open\<close>, at a start of the server.\<close>

definition tok_open :: "token list json_file \<Rightarrow> token_sys option" where
  "tok_open f =
     (case f of
        Absent \<Rightarrow> Some (\<lparr>ts_tokens = [], ts_mtime = 0\<rparr>, f)
      | StatError \<Rightarrow> None
      | Present t None \<Rightarrow> None
      | Present t (Some c) \<Rightarrow> Some (\<lparr>ts_tokens = c, ts_mtime = t\<rparr>, f))"

definition refresh_end :: "oauth_sys \<Rightarrow> token \<Rightarrow> time \<Rightarrow> time" where
  "refresh_end s g now = capped_by_grant g (now + oc_refresh_ttl (os_cfg (og_server s)))"

definition access_end :: "oauth_sys \<Rightarrow> token \<Rightarrow> time \<Rightarrow> time" where
  "access_end s g now = capped_by_grant g (now + oc_access_ttl (os_cfg (og_server s)))"

abbreviation put :: "nat \<Rightarrow> request option \<Rightarrow> oauth_sys \<Rightarrow> oauth_sys" where
  "put n r s \<equiv> s\<lparr>og_requests := (og_requests s)(n := r)\<rparr>"

inductive oauth_step :: "oauth_lib \<Rightarrow> oauth_sys \<Rightarrow> oauth_sys \<Rightarrow> bool" for lib where
  Tick: "og_clock s \<le> t \<Longrightarrow> oauth_step lib s (s\<lparr>og_clock := t\<rparr>)"
| Asked: "handleAuthorize lib verb addr form now fetched gone rnd written (og_server s) = (answer, o') \<Longrightarrow>
    oauth_step lib s (s\<lparr>og_server := o'\<rparr>)"
| Registered: "handleRegister lib verb addr body now rnd written (og_server s, og_tokens s) = (result, o', toks') \<Longrightarrow>
    oauth_step lib s (s\<lparr>og_server := o', og_tokens := toks'\<rparr>)"
| Denied: "Deny i (og_server s) = (r, o') \<Longrightarrow> oauth_step lib s (s\<lparr>og_server := o'\<rparr>)"
| Approved: "Approve lib i user username projects scopes now rnd (og_server s) = (Inr (redirect, code, state), o') \<Longrightarrow>
    og_approved s (ol_hash lib code) = None \<Longrightarrow>
    oauth_step lib s (s\<lparr>og_server := o',
      og_approved := (og_approved s)(ol_hash lib code := fmlookup (os_codes o') (ol_hash lib code)),
      og_consents := (og_consents s)(ol_hash lib code :=
        map_option (\<lambda>p. \<lparr>cs_request = p, cs_user = user, cs_scopes = scopes\<rparr>) (fmlookup (os_pending (og_server s)) i))\<rparr>)"
| NotApproved: "Approve lib i user username projects scopes now rnd (og_server s) = (Inl e, o') \<Longrightarrow>
    oauth_step lib s (s\<lparr>og_server := o'\<rparr>)"
| CodeTaken: "og_requests s n = None \<Longrightarrow> take_code lib (tf_code f) (og_server s) = (found, o') \<Longrightarrow>
    check_code lib (os_cfg o') f found now = Inr ac \<Longrightarrow>
    oauth_step lib s (put n (Some (Coded (ol_hash lib (tf_code f)) ac)) (s\<lparr>og_server := o'\<rparr>))"
| CodeRefused: "take_code lib (tf_code f) (og_server s) = (found, o') \<Longrightarrow>
    check_code lib (os_cfg o') f found now = Inl e \<Longrightarrow> oauth_step lib s (s\<lparr>og_server := o'\<rparr>)"
| GrantCreated: "og_requests s n = Some (Coded c ac) \<Longrightarrow>
    create_grant lib (os_cfg (og_server s)) ac rnd now out (og_tokens s) = (Inr g, toks') \<Longrightarrow>
    og_origin s (tk_id g) = None \<Longrightarrow> tk_id g \<notin> tk_id ` set (tokens_of (og_tokens s)) \<Longrightarrow>
    oauth_step lib s (put n (Some (Created g)) (s\<lparr>og_tokens := toks', og_origin := (og_origin s)(tk_id g := Some c)\<rparr>))"
| GrantFailed: "og_requests s n = Some (Coded c ac) \<Longrightarrow>
    create_grant lib (os_cfg (og_server s)) ac rnd now out (og_tokens s) = (Inl e, toks') \<Longrightarrow>
    oauth_step lib s (put n None (s\<lparr>og_tokens := toks'\<rparr>))"
| RoomForNew: "og_requests s n = Some (Created g) \<Longrightarrow> now \<le> og_clock s \<Longrightarrow> issue_room now (og_server s) = (True, o') \<Longrightarrow>
    oauth_step lib s (put n (Some (Fresh g)) (s\<lparr>og_server := o'\<rparr>))"
| RoomForRefresh: "og_requests s n = Some (Found g h) \<Longrightarrow> now \<le> og_clock s \<Longrightarrow> issue_room now (og_server s) = (True, o') \<Longrightarrow>
    oauth_step lib s (put n (Some (Roomy g h)) (s\<lparr>og_server := o'\<rparr>))"
| NoRoom: "og_requests s n = Some r \<Longrightarrow> r \<in> {Created g, Found g h} \<Longrightarrow> now \<le> og_clock s \<Longrightarrow> issue_room now (og_server s) = (False, o') \<Longrightarrow>
    oauth_step lib s (put n None (s\<lparr>og_server := o'\<rparr>))"
| RefreshSet: "og_requests s n = Some (Fresh g) \<Longrightarrow> og_minted s h' = None \<Longrightarrow>
    SetRefresh (tk_id g) h' (refresh_end s g now) out (og_tokens s) = (Inr u, toks') \<Longrightarrow>
    oauth_step lib s (put n (Some (Adding (tk_id g) (access_end s g now)))
      (s\<lparr>og_tokens := toks', og_minted := (og_minted s)(h' := Some (tk_id g, refresh_end s g now))\<rparr>))"
| RefreshNotSet: "og_requests s n = Some (Fresh g) \<Longrightarrow> og_minted s h' = None \<Longrightarrow>
    SetRefresh (tk_id g) h' (refresh_end s g now) out (og_tokens s) = (Inl e, toks') \<Longrightarrow>
    oauth_step lib s (put n None (s\<lparr>og_tokens := toks', og_minted := (og_minted s)(h' := Some (tk_id g, refresh_end s g now))\<rparr>))"
| AccessAdded: "og_requests s n = Some (Adding i expires) \<Longrightarrow> og_accesses s k = None \<Longrightarrow>
    oauth_step lib s (put n None (s\<lparr>og_server := add_access k i expires (og_server s), og_accesses := (og_accesses s)(k := Some i)\<rparr>))"
| RefreshFound: "og_requests s n = None \<Longrightarrow> ByRefreshHash h (og_tokens s) = (Some g, toks') \<Longrightarrow>
    check_refresh lib (os_cfg (og_server s)) f g now = None \<Longrightarrow>
    oauth_step lib s (put n (Some (Found g h)) (s\<lparr>og_tokens := toks'\<rparr>))"
| RefreshRefused: "ByRefreshHash h (og_tokens s) = (Some g, toks') \<Longrightarrow>
    check_refresh lib (os_cfg (og_server s)) f g now = Some e \<Longrightarrow> oauth_step lib s (s\<lparr>og_tokens := toks'\<rparr>)"
| RefreshMissed: "og_requests s n = None \<Longrightarrow> ByRefreshHash h (og_tokens s) = (None, toks') \<Longrightarrow>
    oauth_step lib s (put n (Some (Missed h)) (s\<lparr>og_tokens := toks'\<rparr>))"
| RefreshMarked: "og_requests s n = Some (Roomy g h) \<Longrightarrow>
    oauth_step lib s (put n (Some (Marked g h)) (s\<lparr>og_server := mark_consumed h g (og_server s)\<rparr>))"
| Rotated: "og_requests s n = Some (Marked g h) \<Longrightarrow> og_minted s h' = None \<Longrightarrow>
    RotateRefresh (tk_id g) h h' (refresh_end s g now) out (og_tokens s) = (Inr u, toks') \<Longrightarrow>
    oauth_step lib s (put n (Some (Adding (tk_id g) (access_end s g now)))
      (s\<lparr>og_tokens := toks', og_minted := (og_minted s)(h' := Some (tk_id g, refresh_end s g now)),
        og_retired := insert h (og_retired s), og_watched := insert h (og_watched s)\<rparr>))"
| RotatedByOther: "og_requests s n = Some (Marked g h) \<Longrightarrow>
    RotateRefresh (tk_id g) h h' e out (og_tokens s) = (Inl RefreshRotated, toks') \<Longrightarrow>
    oauth_step lib s (put n (Some (Revoking (tk_id g))) (s\<lparr>og_tokens := toks'\<rparr>))"
| RotateFailed: "og_requests s n = Some (Marked g h) \<Longrightarrow>
    RotateRefresh (tk_id g) h h' e out (og_tokens s) = (Inl x, toks') \<Longrightarrow> x \<noteq> RefreshRotated \<Longrightarrow>
    oauth_step lib s (put n (Some (Unmarking h)) (s\<lparr>og_tokens := toks', og_failed := insert h (og_failed s)\<rparr>))"
| MarkTakenBack: "og_requests s n = Some (Unmarking h) \<Longrightarrow>
    oauth_step lib s (put n None (s\<lparr>og_server := unmark_consumed h (og_server s)\<rparr>))"
| ReuseSeen: "og_requests s n = Some (Missed h) \<Longrightarrow> fmlookup (os_consumed (og_server s)) h = Some c \<Longrightarrow>
    oauth_step lib s (put n (Some (Revoking (cr_token c))) s)"
| ReuseUnknown: "og_requests s n = Some (Missed h) \<Longrightarrow> fmlookup (os_consumed (og_server s)) h = None \<Longrightarrow>
    oauth_step lib s (put n None s)"
| RevokeAsked: "og_requests s n = None \<Longrightarrow> ByRefreshHash h (og_tokens s) = (Some g, toks') \<Longrightarrow>
    oauth_step lib s (put n (Some (Revoking (tk_id g))) (s\<lparr>og_tokens := toks'\<rparr>))"
| GrantRevoked: "og_requests s n = Some (Revoking i) \<Longrightarrow> Revoke i out (og_tokens s) = (r, toks') \<Longrightarrow>
    oauth_step lib s (put n (Some (Dropping i)) (s\<lparr>og_tokens := toks', og_gone := (if r = Inr () \<and> og_origin s i \<noteq> None then insert i (og_gone s) else og_gone s)\<rparr>))"
| AccessDropped: "og_requests s n = Some (Dropping i) \<Longrightarrow>
    oauth_step lib s (put n None (s\<lparr>og_server := dropAccessFor i (og_server s)\<rparr>))"
| AccessRevoked: "oauth_step lib s (s\<lparr>og_server := (og_server s)\<lparr>os_access := fmdrop k (os_access (og_server s))\<rparr>\<rparr>)"
| StoreChanged: "token_op (ol_hash lib) (og_tokens s) toks' \<Longrightarrow>
    (\<And>t. t \<in> set (tokens_of toks') \<Longrightarrow> tk_id t \<notin> tk_id ` set (tokens_of (og_tokens s)) \<Longrightarrow> og_origin s (tk_id t) = None) \<Longrightarrow>
    oauth_step lib s (s\<lparr>og_tokens := toks'\<rparr>)"
| Restarted: "new_oauth lib c f now = Inr o' \<Longrightarrow> os_cfg o' = os_cfg (og_server s) \<Longrightarrow>
    tok_open (snd (og_tokens s)) = Some toks' \<Longrightarrow>
    oauth_step lib s (s\<lparr>og_server := o', og_tokens := toks', og_requests := (\<lambda>_. None), og_watched := {}, og_failed := {}\<rparr>)"

inductive oauth_reachable :: "oauth_lib \<Rightarrow> oauth_sys \<Rightarrow> bool" for lib where
  Started: "new_oauth lib c f now = Inr o' \<Longrightarrow> tok_open f' = Some toks \<Longrightarrow> distinct (map tk_id (tokens_of toks)) \<Longrightarrow>
    (\<And>t. t \<in> set (tokens_of toks) \<Longrightarrow> \<not> IsOAuthGrant t \<and> tk_refresh_hash t = []) \<Longrightarrow> oauth_reachable lib (new_oauth_sys o' toks now)"
| Step: "oauth_reachable lib s \<Longrightarrow> oauth_step lib s s' \<Longrightarrow> oauth_reachable lib s'"

subsection \<open>What each operation changes of the server\<close>

lemma new_oauth_empty:
  assumes "new_oauth lib c f now = Inr o'"
  shows "os_pending o' = fmempty" "os_codes o' = fmempty" "os_access o' = fmempty" "os_consumed o' = fmempty"
  using assms by (auto simp: new_oauth_def Let_def split: sum.splits option.splits)

lemma resolveClient_frame:
  "snd (resolveClient lib i now fetched gone s) = s\<lparr>os_cimd := os_cimd (snd (resolveClient lib i now fetched gone s))\<rparr>"
  by (simp add: resolveClient_def split: prod.split)


subsection \<open>The invariants\<close>

text \<open>What is checked of a request before it waits for a consent, and what a code has from it.\<close>

definition redirect_ok :: "oauth_lib \<Rightarrow> oauth_config \<Rightarrow> client \<Rightarrow> string \<Rightarrow> string \<Rightarrow> bool" where
  "redirect_ok lib cfg c redirect challenge \<longleftrightarrow>
     (\<exists>reg\<in>set (cl_redirects c). redirectMatches lib reg redirect) \<and>
     allowedRedirectURI lib (oc_redirect_hosts cfg) redirect = None \<and> validChallenge challenge"

text \<open>The scopes a decision gives: those of the two that were asked for, read when none was, and that the account allowed.\<close>

definition consented :: "consent \<Rightarrow> string set" where
  "consented k =
     {sc \<in> {ScopeRead, ScopeWrite}. sc \<in> set (cs_scopes k) \<and>
        (sc \<in> set (pr_scopes (cs_request k)) \<or> sc = ScopeRead \<and> pr_scopes (cs_request k) = [])}"

definition approved_by :: "oauth_lib \<Rightarrow> oauth_config \<Rightarrow> consent \<Rightarrow> auth_code \<Rightarrow> bool" where
  "approved_by lib cfg k ac \<longleftrightarrow>
     ac_user ac = cs_user k \<and> cs_user k \<noteq> [] \<and> ac_client ac = pr_client (cs_request k) \<and>
     ac_scopes ac \<noteq> [] \<and> set (ac_scopes ac) = consented k \<and>
     redirect_ok lib cfg (pr_client (cs_request k)) (pr_redirect (cs_request k)) (pr_challenge (cs_request k))"

definition consents_ok :: "oauth_lib \<Rightarrow> oauth_sys \<Rightarrow> bool" where
  "consents_ok lib s \<longleftrightarrow>
     (\<forall>i p. fmlookup (os_pending (og_server s)) i = Some p \<longrightarrow>
        redirect_ok lib (os_cfg (og_server s)) (pr_client p) (pr_redirect p) (pr_challenge p)) \<and>
     (\<forall>c ac. og_approved s c = Some ac \<longrightarrow>
        (\<exists>k. og_consents s c = Some k \<and> approved_by lib (os_cfg (og_server s)) k ac))"

text \<open>An approved code is in the map, or with one request, or one grant came from it, or it is lost.\<close>

definition codes_ok :: "oauth_sys \<Rightarrow> bool" where
  "codes_ok s \<longleftrightarrow>
     (\<forall>c ac. fmlookup (os_codes (og_server s)) c = Some ac \<longrightarrow> og_approved s c = Some ac) \<and>
     (\<forall>n c ac. og_requests s n = Some (Coded c ac) \<longrightarrow>
        og_approved s c = Some ac \<and> fmlookup (os_codes (og_server s)) c = None \<and> (\<forall>i. og_origin s i \<noteq> Some c) \<and>
        (\<forall>m ac'. og_requests s m = Some (Coded c ac') \<longrightarrow> m = n)) \<and>
     (\<forall>i c. og_origin s i = Some c \<longrightarrow>
        og_approved s c \<noteq> None \<and> fmlookup (os_codes (og_server s)) c = None \<and> (\<forall>j. og_origin s j = Some c \<longrightarrow> j = i))"

definition grant_ok :: "oauth_sys \<Rightarrow> token \<Rightarrow> bool" where
  "grant_ok s t \<longleftrightarrow>
     IsOAuthGrant t \<and> tk_id t \<notin> og_gone s \<and>
     (\<exists>c ac. og_origin s (tk_id t) = Some c \<and> og_approved s c = Some ac \<and>
        tk_owner t = ac_user ac \<and> tk_client t = cl_id (ac_client ac) \<and> tk_scopes t = ac_scopes ac) \<and>
     (tk_refresh_hash t \<noteq> [] \<longrightarrow>
        og_minted s (tk_refresh_hash t) = Some (tk_id t, tk_refresh_expires t) \<and> tk_refresh_hash t \<notin> og_retired s)"

definition list_ok :: "oauth_sys \<Rightarrow> token list \<Rightarrow> bool" where
  "list_ok s ts \<longleftrightarrow>
     distinct (map tk_id ts) \<and>
     (\<forall>t\<in>set ts. IsOAuthGrant t \<or> tk_refresh_hash t \<noteq> [] \<or> og_origin s (tk_id t) \<noteq> None \<longrightarrow> grant_ok s t)"

definition tokens_ok :: "oauth_sys \<Rightarrow> bool" where
  "tokens_ok s \<longleftrightarrow>
     settled (og_tokens s) \<and> list_ok s (tokens_of (og_tokens s)) \<and> list_ok s (file_tokens (og_tokens s)) \<and>
     (\<forall>h i e. og_minted s h = Some (i, e) \<longrightarrow> og_origin s i \<noteq> None) \<and>
     (\<forall>i\<in>og_gone s. og_origin s i \<noteq> None) \<and> (\<forall>h\<in>og_retired s. h \<noteq> [] \<and> og_minted s h \<noteq> None)"

fun request_ok :: "oauth_sys \<Rightarrow> request \<Rightarrow> bool" where
  "request_ok s (Created g) \<longleftrightarrow> og_origin s (tk_id g) \<noteq> None"
| "request_ok s (Fresh g) \<longleftrightarrow> og_origin s (tk_id g) \<noteq> None"
| "request_ok s (Found g h) \<longleftrightarrow> h \<noteq> [] \<and> og_minted s h = Some (tk_id g, tk_refresh_expires g)"
| "request_ok s (Roomy g h) \<longleftrightarrow> h \<noteq> [] \<and> og_minted s h = Some (tk_id g, tk_refresh_expires g)"
| "request_ok s (Marked g h) \<longleftrightarrow> h \<noteq> [] \<and> og_minted s h = Some (tk_id g, tk_refresh_expires g)"
| "request_ok s (Adding i e) \<longleftrightarrow> og_origin s i \<noteq> None"
| "request_ok s _ \<longleftrightarrow> True"

definition server_ok :: "oauth_sys \<Rightarrow> bool" where
  "server_ok s \<longleftrightarrow>
     (\<forall>n r. og_requests s n = Some r \<longrightarrow> request_ok s r) \<and>
     (\<forall>k e. fmlookup (os_access (og_server s)) k = Some e \<longrightarrow> og_accesses s k = Some (ae_token e)) \<and>
     (\<forall>k i. og_accesses s k = Some i \<longrightarrow> og_origin s i \<noteq> None) \<and>
     (\<forall>h c. fmlookup (os_consumed (og_server s)) h = Some c \<longrightarrow> og_minted s h = Some (cr_token c, cr_exp c))"

text \<open>A refresh token that was presented is remembered until its end, unless its rotation failed once.\<close>

definition remembered :: "oauth_sys \<Rightarrow> string \<Rightarrow> bool" where
  "remembered s h \<longleftrightarrow>
     h \<in> og_failed s \<or> fmlookup (os_consumed (og_server s)) h \<noteq> None \<or>
     (\<exists>i e. og_minted s h = Some (i, e) \<and> e \<noteq> 0 \<and> e \<le> og_clock s)"

definition watch_ok :: "oauth_sys \<Rightarrow> bool" where
  "watch_ok s \<longleftrightarrow>
     (\<forall>h\<in>og_watched s. h \<in> og_retired s \<and> remembered s h) \<and>
     (\<forall>n g h. og_requests s n = Some (Marked g h) \<longrightarrow> remembered s h) \<and>
     (\<forall>n h. og_requests s n = Some (Unmarking h) \<longrightarrow> h \<in> og_failed s)"

end
