(* ===== verification/OAuthInv.thy ===== *)
theory OAuthInv
  imports OAuthSteps
begin

subsection \<open>What each operation changes of the server\<close>

definition fm_within :: "('k, 'v) fmap \<Rightarrow> ('k, 'v) fmap \<Rightarrow> bool" where
  "fm_within m m' \<longleftrightarrow> (\<forall>k v. fmlookup m k = Some v \<longrightarrow> fmlookup m' k = Some v)"

lemma fm_within_refl [simp]: "fm_within m m"
  by (simp add: fm_within_def)

lemma fm_within_trans: "fm_within m m' \<Longrightarrow> fm_within m' m'' \<Longrightarrow> fm_within m m''"
  by (simp add: fm_within_def)

lemma fm_within_drop [simp]: "fm_within (fmdrop k m) m"
  by (simp add: fm_within_def)

lemma fm_within_each: "(\<And>k v w. f k v = Some w \<Longrightarrow> w = v) \<Longrightarrow> fm_within (fm_each f m) m"
  by (auto simp: fm_within_def fm_each_lookup bind_eq_Some_conv)

lemma fm_withinD: "fm_within m m' \<Longrightarrow> fmlookup m k = Some v \<Longrightarrow> fmlookup m' k = Some v"
  by (simp add: fm_within_def)

lemma fm_within_None: "fm_within m m' \<Longrightarrow> fmlookup m' k = None \<Longrightarrow> fmlookup m k = None"
  by (metis fm_withinD not_None_eq)

lemma sweeps_within [simp]:
  "fm_within (sweepPending now m) m" "fm_within (sweepCodes now c) c"
  "fm_within (os_access (sweepAccess now s)) (os_access s)" "fm_within (os_consumed (sweepAccess now s)) (os_consumed s)"
  "fm_within (os_access (dropAccessFor i s)) (os_access s)"
  by (auto simp: sweepPending_def sweepCodes_def sweepAccess_def dropAccessFor_def intro!: fm_within_each split: if_splits)

lemma dropOldest_within: "fm_within (dropOldestPending m) m"
  by (simp add: dropOldestPending_def Let_def split: option.split)

lemma drop_pending_within: "fm_within (drop_pending n m) m"
proof (induction n arbitrary: m)
  case (Suc n)
  then show ?case using fm_within_trans [OF Suc dropOldest_within] by simp
qed simp

lemma check_authorize_ok:
  "check_authorize lib cfg c q = Inr (redirect, scopes, resource) \<Longrightarrow> redirect_ok lib cfg c redirect (aq_challenge q)"
  by (auto simp: check_authorize_def redirect_ok_def matchRedirect_def Let_def find_None_iff
    split: option.splits if_splits sum.splits)

lemma resolve_frame:
  assumes "resolveClient lib i now fetched gone s = (c, s')"
  shows "os_cfg s' = os_cfg s \<and> os_codes s' = os_codes s \<and> os_access s' = os_access s \<and> os_consumed s' = os_consumed s
    \<and> os_pending s' = os_pending s"
  using assms by (auto simp: resolveClient_def split: prod.splits if_splits)

lemma authorize_frame:
  assumes "handleAuthorize lib verb addr form now fetched gone rnd written s = (answer, s')"
  shows "os_cfg s' = os_cfg s \<and> os_codes s' = os_codes s \<and> os_access s' = os_access s \<and> os_consumed s' = os_consumed s"
    and "fmlookup (os_pending s') i = Some p \<Longrightarrow>
      fmlookup (os_pending s) i = Some p \<or> redirect_ok lib (os_cfg s) (pr_client p) (pr_redirect p) (pr_challenge p)"
proof -
  have "(os_cfg s' = os_cfg s \<and> os_codes s' = os_codes s \<and> os_access s' = os_access s \<and> os_consumed s' = os_consumed s) \<and>
    (fmlookup (os_pending s') i = Some p \<longrightarrow>
      fmlookup (os_pending s) i = Some p \<or> redirect_ok lib (os_cfg s) (pr_client p) (pr_redirect p) (pr_challenge p))"
  proof (cases "\<exists>q c s1 r. form = Some q \<and> resolveClient lib (trim_space (aq_client_id q)) now fetched gone
      (s\<lparr>os_limiter := snd (win_Allow (''authorize:'' @ addr) now (os_limiter s))\<rparr>) = (Some c, s1) \<and> check_authorize lib (os_cfg s1) c q = Inr r")
    case False
    then show ?thesis using assms
      by (auto simp: handleAuthorize_def Let_def split: if_splits option.splits prod.splits sum.splits dest!: resolve_frame)
  next
    case True
    then obtain q c s1 redirect scopes resource where q: "form = Some q"
      and r: "resolveClient lib (trim_space (aq_client_id q)) now fetched gone
        (s\<lparr>os_limiter := snd (win_Allow (''authorize:'' @ addr) now (os_limiter s))\<rparr>) = (Some c, s1)"
      and k: "check_authorize lib (os_cfg s1) c q = Inr (redirect, scopes, resource)" by auto
    note f = resolve_frame [OF r]
    have ok: "redirect_ok lib (os_cfg s) c redirect (aq_challenge q)" using check_authorize_ok [OF k] f by simp
    note w = fm_within_trans [OF drop_pending_within [of "fcard (fmdom (sweepPending now (os_pending s)))" "sweepPending now (os_pending s)"] sweeps_within(1)]
    show ?thesis
      using assms q r k f ok fm_withinD [OF w]
      by (auto simp: handleAuthorize_def Let_def add_pending_def split: if_splits option.splits prod.splits)
  qed
  then show "os_cfg s' = os_cfg s \<and> os_codes s' = os_codes s \<and> os_access s' = os_access s \<and> os_consumed s' = os_consumed s"
    "fmlookup (os_pending s') i = Some p \<Longrightarrow>
      fmlookup (os_pending s) i = Some p \<or> redirect_ok lib (os_cfg s) (pr_client p) (pr_redirect p) (pr_challenge p)"
    by blast+
qed

lemma clients_add_tokens:
  assumes "clients_add c now granted written ts sys = (e, ts', sys')"
  shows "ts' = ts \<or> ts' = snd (granted ts)"
  using assms by (auto simp: clients_add_def Let_def split: prod.splits if_splits)

lemma register_frame:
  assumes "handleRegister lib verb addr body now rnd written (s, toks) = (result, s', toks')"
  shows "os_cfg s' = os_cfg s \<and> os_codes s' = os_codes s \<and> os_access s' = os_access s \<and> os_consumed s' = os_consumed s
    \<and> os_pending s' = os_pending s \<and> toks' \<in> {toks, tok_sync toks}"
  using assms
  by (auto simp: handleRegister_def Let_def grantedClients_def List_tokens_def split: if_splits option.splits prod.splits
    dest!: clients_add_tokens)

lemma approve_frame:
  assumes "Approve lib i user username projects scopes now rnd s = (r, s')"
  shows "os_cfg s' = os_cfg s \<and> os_access s' = os_access s \<and> os_consumed s' = os_consumed s \<and> fm_within (os_pending s') (os_pending s)"
    and "r = Inl e \<Longrightarrow> fm_within (os_codes s') (os_codes s)"
    and "r = Inr (redirect, code, state) \<Longrightarrow>
      (\<exists>p granted. fmlookup (os_pending s) i = Some p \<and> grantedScopes (pr_scopes p) scopes = Some granted \<and> user \<noteq> [] \<and>
        os_codes s' = fmupd (ol_hash lib code) (code_of (os_cfg s) p user username projects granted now) (sweepCodes now (os_codes s)))"
  using assms sweeps_within(2) [of now "os_codes s"]
  by (auto simp: Approve_def Let_def split: if_splits option.splits)

lemma issue_room_frame:
  assumes "issue_room now s = (b, s')"
  shows "os_cfg s' = os_cfg s \<and> os_codes s' = os_codes s \<and> os_pending s' = os_pending s \<and>
    fm_within (os_access s') (os_access s) \<and> fm_within (os_consumed s') (os_consumed s)"
    and "fmlookup (os_consumed s) h = Some c \<Longrightarrow> fmlookup (os_consumed s') h = Some c \<or> cr_exp c \<noteq> 0 \<and> now \<ge> cr_exp c"
  using assms sweeps_within(3,4)
  by (auto simp: issue_room_def Let_def sweepAccess_def fm_each_lookup split: if_splits)


lemma grantedScopes_ok:
  "grantedScopes req dec = Some out \<Longrightarrow> out \<noteq> [] \<and>
     set out = {sc \<in> {ScopeRead, ScopeWrite}. sc \<in> set dec \<and> (sc \<in> set req \<or> sc = ScopeRead \<and> req = [])}"
  by (auto simp: grantedScopes_def Let_def split: if_splits)

lemma take_code_frame:
  assumes "take_code lib code s = (found, s')"
  shows "found = fmlookup (os_codes s) (ol_hash lib code)" "s' = s\<lparr>os_codes := fmdrop (ol_hash lib code) (os_codes s)\<rparr>"
  using assms by (auto simp: take_code_def Let_def)

lemma check_code_found: "check_code lib cfg f found now = Inr ac \<Longrightarrow> found = Some ac"
  by (auto simp: check_code_def split: option.splits if_splits)

lemma server_fields [simp]:
  "os_cfg (mark_consumed h g s) = os_cfg s" "os_codes (mark_consumed h g s) = os_codes s" "os_access (mark_consumed h g s) = os_access s" "os_pending (mark_consumed h g s) = os_pending s"
  "os_cfg (unmark_consumed h s) = os_cfg s" "os_codes (unmark_consumed h s) = os_codes s" "os_access (unmark_consumed h s) = os_access s" "os_pending (unmark_consumed h s) = os_pending s"
  "os_cfg (add_access k i e s) = os_cfg s" "os_codes (add_access k i e s) = os_codes s" "os_consumed (add_access k i e s) = os_consumed s" "os_pending (add_access k i e s) = os_pending s"
  "os_cfg (dropAccessFor i s) = os_cfg s" "os_codes (dropAccessFor i s) = os_codes s" "os_consumed (dropAccessFor i s) = os_consumed s" "os_pending (dropAccessFor i s) = os_pending s"
  by (simp_all add: mark_consumed_def unmark_consumed_def add_access_def dropAccessFor_def)

lemma deny_frame: "Deny i s = (r, s') \<Longrightarrow> s' = s \<or> s' = s\<lparr>os_pending := fmdrop i (os_pending s)\<rparr>"
  by (auto simp: Deny_def split: option.splits)

subsection \<open>Consents\<close>

text \<open>A step that keeps the configuration and the approved codes, and adds no request that was not checked.\<close>

lemma consents_same:
  assumes "consents_ok lib s" and "os_cfg (og_server s') = os_cfg (og_server s)" and "og_approved s' = og_approved s" and "og_consents s' = og_consents s"
    and "\<And>i p. fmlookup (os_pending (og_server s')) i = Some p \<Longrightarrow> fmlookup (os_pending (og_server s)) i = Some p \<or>
      redirect_ok lib (os_cfg (og_server s)) (pr_client p) (pr_redirect p) (pr_challenge p)"
  shows "consents_ok lib s'"
  using assms unfolding consents_ok_def by metis

lemma consents_within:
  assumes "consents_ok lib s" and "os_cfg (og_server s') = os_cfg (og_server s)" and "og_approved s' = og_approved s" and "og_consents s' = og_consents s"
    and "fm_within (os_pending (og_server s')) (os_pending (og_server s))"
  shows "consents_ok lib s'"
  using assms(1-4) by (rule consents_same) (use assms(5) in \<open>simp add: fm_within_def\<close>)

lemma consents_step: "oauth_step lib s s' \<Longrightarrow> consents_ok lib s \<Longrightarrow> consents_ok lib s'"
proof (induction rule: oauth_step.induct)
  case (Asked verb addr form now fetched gone rnd written s answer o')
  show ?case by (rule consents_same [OF Asked(2)]) (use authorize_frame [OF Asked(1)] in simp_all)
next
  case (Registered verb addr body now rnd written s result o' toks')
  show ?case by (rule consents_within [OF Registered(2)]) (use register_frame [OF Registered(1)] in simp_all)
next
  case (Denied i s r o')
  show ?case by (rule consents_within [OF Denied(2)]) (use deny_frame [OF Denied(1)] in auto)
next
  case (Approved i user username projects scopes now rnd s redirect code state o')
  note f = approve_frame [OF Approved(1)]
  obtain p granted where p: "fmlookup (os_pending (og_server s)) i = Some p" "grantedScopes (pr_scopes p) scopes = Some granted" "user \<noteq> []"
    "os_codes o' = fmupd (ol_hash lib code) (code_of (os_cfg (og_server s)) p user username projects granted now)
      (sweepCodes now (os_codes (og_server s)))" using f(3) by blast
  have ok: "redirect_ok lib (os_cfg (og_server s)) (pr_client p) (pr_redirect p) (pr_challenge p)"
    using Approved(3) p(1) by (simp add: consents_ok_def)
  from f(1) have "os_cfg o' = os_cfg (og_server s)" and w: "fm_within (os_pending o') (os_pending (og_server s))" by simp_all
  then show ?case
    using Approved(3) p grantedScopes_ok [OF p(2)] ok fm_withinD [OF w]
    by (auto simp: consents_ok_def approved_by_def consented_def code_of_def)
next
  case (NotApproved i user username projects scopes now rnd s e o')
  show ?case by (rule consents_within [OF NotApproved(2)]) (use approve_frame(1) [OF NotApproved(1)] in simp_all)
next
  case (CodeTaken s n f found o' now ac)
  show ?case by (rule consents_within [OF CodeTaken(4)]) (use take_code_frame [OF CodeTaken(2)] in simp_all)
next
  case (CodeRefused f s found o' now e)
  show ?case by (rule consents_within [OF CodeRefused(3)]) (use take_code_frame [OF CodeRefused(1)] in simp_all)
next
  case (RoomForNew s n g now o')
  show ?case by (rule consents_within [OF RoomForNew(4)]) (use issue_room_frame(1) [OF RoomForNew(3)] in simp_all)
next
  case (RoomForRefresh s n g h now o')
  show ?case by (rule consents_within [OF RoomForRefresh(4)]) (use issue_room_frame(1) [OF RoomForRefresh(3)] in simp_all)
next
  case (NoRoom s n r g h now o')
  show ?case by (rule consents_within [OF NoRoom(5)]) (use issue_room_frame(1) [OF NoRoom(4)] in simp_all)
next
  case (Restarted c f now o' s toks')
  show ?case by (rule consents_within [OF Restarted(4)]) (use new_oauth_empty [OF Restarted(1)] Restarted(2) in \<open>simp_all add: fm_within_def\<close>)
qed (auto elim!: consents_within)

end
