(* ===== verification/OAuthReach.thy ===== *)
theory OAuthReach
  imports OAuthInv
begin

subsection \<open>Codes\<close>

lemma codes_same:
  assumes "codes_ok s" and "og_approved s' = og_approved s" and "og_origin s' = og_origin s"
    and "fm_within (os_codes (og_server s')) (os_codes (og_server s))"
    and "\<And>n c ac. og_requests s' n = Some (Coded c ac) \<Longrightarrow> og_requests s n = Some (Coded c ac)"
  shows "codes_ok s'"
  unfolding codes_ok_def assms(2,3)
proof (intro conjI allI impI)
  fix c ac assume "fmlookup (os_codes (og_server s')) c = Some ac"
  from fm_withinD [OF assms(4) this] show "og_approved s c = Some ac" using assms(1) by (simp add: codes_ok_def)
next
  fix n c ac assume "og_requests s' n = Some (Coded c ac)"
  note old = assms(5) [OF this]
  show "og_approved s c = Some ac" using old assms(1) by (simp add: codes_ok_def)
  show "fmlookup (os_codes (og_server s')) c = None"
    by (rule fm_within_None [OF assms(4)]) (use old assms(1) in \<open>simp add: codes_ok_def\<close>)
  show "og_origin s i \<noteq> Some c" for i using old assms(1) by (simp add: codes_ok_def)
  show "m = n" if "og_requests s' m = Some (Coded c ac')" for m ac'
    using assms(5) [OF that] old assms(1) unfolding codes_ok_def by blast
next
  fix i c assume "og_origin s i = Some c"
  with assms(1) show "og_approved s c \<noteq> None" "\<And>j. og_origin s j = Some c \<Longrightarrow> j = i" by (auto simp: codes_ok_def)
  show "fmlookup (os_codes (og_server s')) c = None"
    by (rule fm_within_None [OF assms(4)]) (use assms(1) \<open>og_origin s i = Some c\<close> in \<open>auto simp: codes_ok_def\<close>)
qed

lemma codes_step: "oauth_step lib s s' \<Longrightarrow> codes_ok s \<Longrightarrow> codes_ok s'"
proof (induction rule: oauth_step.induct)
  case (Asked verb addr form now fetched gone rnd written s answer o')
  show ?case by (rule codes_same [OF Asked(2)]) (use authorize_frame(1) [OF Asked(1)] in simp_all)
next
  case (Registered verb addr body now rnd written s result o' toks')
  show ?case by (rule codes_same [OF Registered(2)]) (use register_frame [OF Registered(1)] in simp_all)
next
  case (Denied i s r o')
  show ?case by (rule codes_same [OF Denied(2)]) (use deny_frame [OF Denied(1)] in auto)
next
  case (Approved i user username projects scopes now rnd s redirect code state o')
  let ?k = "ol_hash lib code"
  obtain p granted where codes: "os_codes o' = fmupd ?k (code_of (os_cfg (og_server s)) p user username projects granted now)
      (sweepCodes now (os_codes (og_server s)))" using approve_frame(3) [OF Approved(1)] by blast
  let ?ac = "code_of (os_cfg (og_server s)) p user username projects granted now"
  note old = fm_withinD [OF sweeps_within(2) [of now "os_codes (og_server s)"]]
  note none = fm_within_None [OF sweeps_within(2) [of now "os_codes (og_server s)"]]
  have fresh: "og_approved s ?k = None" by fact
  have "\<And>c ac. fmlookup (os_codes (og_server s)) c = Some ac \<Longrightarrow> og_approved s c = Some ac"
    "\<And>n c ac. og_requests s n = Some (Coded c ac) \<Longrightarrow> og_approved s c = Some ac \<and> fmlookup (os_codes (og_server s)) c = None \<and>
        (\<forall>i. og_origin s i \<noteq> Some c) \<and> (\<forall>m ac'. og_requests s m = Some (Coded c ac') \<longrightarrow> m = n)"
    "\<And>i c. og_origin s i = Some c \<Longrightarrow> og_approved s c \<noteq> None \<and> fmlookup (os_codes (og_server s)) c = None \<and> (\<forall>j. og_origin s j = Some c \<longrightarrow> j = i)"
    using Approved(3) by (auto simp: codes_ok_def)
  note ok = this
  show ?case
    unfolding codes_ok_def
  proof (intro conjI allI impI, goal_cases)
    case (1 c ac)
    then show ?case using ok(1) [OF old] codes by (auto split: if_splits)
  next
    case (2 n c ac)
    with ok(2) [of n c ac] fresh have "c \<noteq> ?k" by auto
    with 2 ok(2) [of n c ac] show ?case by simp
  next
    case (3 n c ac)
    with ok(2) [of n c ac] fresh have "c \<noteq> ?k" by auto
    with 3 ok(2) [of n c ac] none show ?case by (simp add: codes)
  next
    case (4 n c ac i)
    with ok(2) [of n c ac] show ?case by simp
  next
    case (5 n c ac m ac')
    with ok(2) [of n c ac] show ?case by simp
  next
    case (6 i c)
    with ok(3) [of i c] codes show ?case by simp
  next
    case (7 i c)
    with ok(3) [of i c] fresh have "c \<noteq> ?k" by auto
    with 7 ok(3) [of i c] none show ?case by (simp add: codes)
  next
    case (8 i c j)
    with ok(3) [of i c] show ?case by simp
  qed
next
  case (NotApproved i user username projects scopes now rnd s e o')
  show ?case by (rule codes_same [OF NotApproved(2)]) (use approve_frame(2) [OF NotApproved(1)] in simp_all)
next
  case (CodeTaken s n f found o' now ac)
  let ?k = "ol_hash lib (tf_code f)"
  have found: "fmlookup (os_codes (og_server s)) ?k = Some ac" and o': "o' = (og_server s)\<lparr>os_codes := fmdrop ?k (os_codes (og_server s))\<rparr>"
    using take_code_frame [OF CodeTaken(2)] check_code_found [OF CodeTaken(3)] by simp_all
  have none: "og_requests s m \<noteq> Some (Coded ?k ac')" "og_origin s i \<noteq> Some ?k" for m ac' i
    using CodeTaken(4) found by (auto simp: codes_ok_def)
  have "og_approved s ?k = Some ac" using CodeTaken(4) found by (auto simp: codes_ok_def)
  then show ?case
    using CodeTaken(1,4) none unfolding codes_ok_def o' by (auto split: if_splits)
next
  case (CodeRefused f s found o' now e)
  show ?case by (rule codes_same [OF CodeRefused(3)]) (use take_code_frame [OF CodeRefused(1)] in simp_all)
next
  case (GrantCreated s n c ac rnd now out g toks')
  then show ?case unfolding codes_ok_def by (auto split: if_splits)
next
  case (RoomForNew s n g now o')
  show ?case by (rule codes_same [OF RoomForNew(4)]) (use issue_room_frame(1) [OF RoomForNew(3)] in \<open>auto split: if_splits\<close>)
next
  case (RoomForRefresh s n g h now o')
  show ?case by (rule codes_same [OF RoomForRefresh(4)]) (use issue_room_frame(1) [OF RoomForRefresh(3)] in \<open>auto split: if_splits\<close>)
next
  case (NoRoom s n r g h now o')
  show ?case by (rule codes_same [OF NoRoom(5)]) (use issue_room_frame(1) [OF NoRoom(4)] in \<open>auto split: if_splits\<close>)
next
  case (Restarted c f now o' s toks')
  show ?case by (rule codes_same [OF Restarted(4)]) (use new_oauth_empty [OF Restarted(1)] in \<open>simp_all add: fm_within_def\<close>)
qed (erule codes_same; auto split: if_splits)+


subsection \<open>Grants\<close>

text \<open>The ghost maps only grow.\<close>

definition grown :: "oauth_sys \<Rightarrow> oauth_sys \<Rightarrow> bool" where
  "grown s s' \<longleftrightarrow>
     (\<forall>c ac. og_approved s c = Some ac \<longrightarrow> og_approved s' c = Some ac) \<and>
     (\<forall>i c. og_origin s i = Some c \<longrightarrow> og_origin s' i = Some c) \<and>
     (\<forall>h m. og_minted s h = Some m \<longrightarrow> og_minted s' h = Some m)"

lemma grown_same: "og_approved s' = og_approved s \<Longrightarrow> og_origin s' = og_origin s \<Longrightarrow> og_minted s' = og_minted s \<Longrightarrow> grown s s'"
  by (simp add: grown_def)

lemma grant_ok_grown:
  assumes "grant_ok s t" and "grown s s'" and "tk_id t \<in> og_gone s' \<Longrightarrow> tk_id t \<in> og_gone s"
    and "tk_refresh_hash t \<in> og_retired s' \<Longrightarrow> tk_refresh_hash t \<noteq> [] \<Longrightarrow> tk_refresh_hash t \<in> og_retired s"
  shows "grant_ok s' t"
proof -
  from assms(1) obtain c ac where o: "og_origin s (tk_id t) = Some c" "og_approved s c = Some ac" "tk_owner t = ac_user ac"
    "tk_client t = cl_id (ac_client ac)" "tk_scopes t = ac_scopes ac" by (auto simp: grant_ok_def)
  then have "og_origin s' (tk_id t) = Some c" "og_approved s' c = Some ac" using assms(2) by (simp_all add: grown_def)
  with o assms show ?thesis unfolding grant_ok_def grown_def by metis
qed

lemma list_ok_grown:
  assumes "list_ok s ts" and "grown s s'"
    and "\<And>t. t \<in> set ts \<Longrightarrow> og_origin s' (tk_id t) \<noteq> None \<Longrightarrow> og_origin s (tk_id t) \<noteq> None"
    and "\<And>t. t \<in> set ts \<Longrightarrow> tk_id t \<in> og_gone s' \<Longrightarrow> tk_id t \<in> og_gone s"
    and "\<And>t. t \<in> set ts \<Longrightarrow> tk_refresh_hash t \<noteq> [] \<Longrightarrow> tk_refresh_hash t \<in> og_retired s' \<Longrightarrow> tk_refresh_hash t \<in> og_retired s"
  shows "list_ok s' ts"
  using assms(1,3) grant_ok_grown [OF _ assms(2)] assms(4,5) unfolding list_ok_def by metis

text \<open>A step that leaves the tokens, in memory and in the file, and no ghost of theirs.\<close>

lemma tokens_equal:
  assumes "tokens_ok s" and "settled (og_tokens s')" and "tokens_of (og_tokens s') = tokens_of (og_tokens s)"
    and "file_tokens (og_tokens s') = file_tokens (og_tokens s)" and "og_approved s' = og_approved s"
    and "og_origin s' = og_origin s" and "og_minted s' = og_minted s" and "og_retired s' = og_retired s" and "og_gone s' = og_gone s"
  shows "tokens_ok s'"
proof -
  have ok: "list_ok s' ts" if "list_ok s ts" for ts
    by (rule list_ok_grown [OF that grown_same]) (simp_all add: assms(5-9))
  with assms(1) show ?thesis by (simp add: tokens_ok_def assms(2-9))
qed

lemma tokens_same:
  assumes "tokens_ok s" and "og_tokens s' \<in> {og_tokens s, tok_sync (og_tokens s)}" and "og_approved s' = og_approved s"
    and "og_origin s' = og_origin s" and "og_minted s' = og_minted s" and "og_retired s' = og_retired s" and "og_gone s' = og_gone s"
  shows "tokens_ok s'"
proof (rule tokens_equal [OF assms(1) _ _ _ assms(3-7)])
  show "settled (og_tokens s')" "tokens_of (og_tokens s') = tokens_of (og_tokens s)" "file_tokens (og_tokens s') = file_tokens (og_tokens s)"
    using assms(1,2) by (auto simp: tokens_ok_def settled_def tok_sync_idem)
qed

lemma with_refresh_ids [simp]: "map tk_id (with_refresh i h e ts) = map tk_id ts"
  by (simp add: with_refresh_def map_update_first)

lemma with_refresh_in:
  assumes "t' \<in> set (with_refresh i h e ts)" and "distinct (map tk_id ts)"
  shows "\<exists>t\<in>set ts. t' = (if tk_id t = i then t\<lparr>tk_refresh_hash := h, tk_refresh_expires := e\<rparr> else t)"
  using assms
proof (induction ts)
  case (Cons x xs)
  have step: "with_refresh i h e (x # xs) =
    (if tk_id x = i then x\<lparr>tk_refresh_hash := h, tk_refresh_expires := e\<rparr> # xs else x # with_refresh i h e xs)"
    by (simp add: with_refresh_def)
  show ?case
  proof (cases "tk_id x = i")
    case True
    with Cons.prems have "t' = x\<lparr>tk_refresh_hash := h, tk_refresh_expires := e\<rparr> \<or> t' \<in> set xs \<and> tk_id t' \<noteq> i"
      by (auto simp: with_refresh_def image_iff)
    with True show ?thesis by auto
  next
    case False
    then have "t' = x \<or> t' \<in> set (with_refresh i h e xs)" using Cons.prems(1) step by simp
    then show ?thesis
    proof
      assume "t' \<in> set (with_refresh i h e xs)"
      with Cons obtain t where "t \<in> set xs" "t' = (if tk_id t = i then t\<lparr>tk_refresh_hash := h, tk_refresh_expires := e\<rparr> else t)" by auto
      then show ?thesis by (intro bexI [of _ t]) simp_all
    qed (use False in simp)
  qed
qed simp

text \<open>A new refresh token of the grant \<open>i\<close>; \<open>R\<close> are the ones it makes useless.\<close>

lemma list_ok_refresh:
  assumes ok: "list_ok s ts" and i: "og_origin s i \<noteq> None" and fresh: "og_minted s h = None" and ret: "h \<notin> og_retired s"
    and s': "og_approved s' = og_approved s" "og_origin s' = og_origin s" "og_minted s' = (og_minted s)(h := Some (i, e))"
      "og_gone s' = og_gone s" "og_retired s' = og_retired s \<union> R" "h \<notin> R"
    and R: "\<And>t. t \<in> set ts \<Longrightarrow> tk_refresh_hash t \<in> R \<Longrightarrow> tk_refresh_hash t \<noteq> [] \<Longrightarrow> tk_id t = i"
  shows "list_ok s' (with_refresh i h e ts)"
  unfolding list_ok_def
proof (intro conjI ballI impI)
  show "distinct (map tk_id (with_refresh i h e ts))" using ok by (simp add: list_ok_def)
  fix t' assume t': "t' \<in> set (with_refresh i h e ts)"
    and cond: "IsOAuthGrant t' \<or> tk_refresh_hash t' \<noteq> [] \<or> og_origin s' (tk_id t') \<noteq> None"
  from with_refresh_in [OF t'] ok obtain t where t: "t \<in> set ts"
    "t' = (if tk_id t = i then t\<lparr>tk_refresh_hash := h, tk_refresh_expires := e\<rparr> else t)" by (auto simp: list_ok_def)
  have grown: "grown s s'" using fresh by (auto simp: grown_def s')
  show "grant_ok s' t'"
  proof (cases "tk_id t = i")
    case True
    then have "grant_ok s t" using ok t(1) i by (simp add: list_ok_def)
    then show ?thesis using True t(2) ret s'(6) by (auto simp: grant_ok_def s'(1-5) IsOAuthGrant_def)
  next
    case False
    then have "t' = t" using t(2) by simp
    then have "grant_ok s t" using ok t(1) cond by (simp add: list_ok_def s'(2))
    moreover have "tk_refresh_hash t \<in> og_retired s" if "tk_refresh_hash t \<in> og_retired s'" "tk_refresh_hash t \<noteq> []"
      using that False R [OF t(1)] by (auto simp: s'(5))
    ultimately show ?thesis using grant_ok_grown [OF _ grown] \<open>t' = t\<close> by (simp add: s'(4))
  qed
qed

lemma same_grant_ok:
  assumes "grant_ok s t" and "same_grant t t'" and "consents_ok lib s"
  shows "grant_ok s t'"
proof -
  obtain c ac where c: "og_origin s (tk_id t) = Some c" "og_approved s c = Some ac" "tk_owner t = ac_user ac"
    "tk_client t = cl_id (ac_client ac)" "tk_scopes t = ac_scopes ac" using assms(1) by (auto simp: grant_ok_def)
  with assms(3) have "tk_owner t \<noteq> []" by (fastforce simp: consents_ok_def approved_by_def)
  with assms(1,2) show ?thesis by (simp add: grant_ok_def same_grant_def IsOAuthGrant_def)
qed

lemma list_ok_derives:
  assumes "list_ok s ts" and "derives ts ts'" and "consents_ok lib s"
    and "\<And>t. t \<in> set ts' \<Longrightarrow> tk_id t \<notin> tk_id ` set ts \<Longrightarrow> og_origin s (tk_id t) = None"
  shows "list_ok s ts'"
  unfolding list_ok_def
proof (intro conjI ballI impI)
  show "distinct (map tk_id ts')" using assms(1,2) by (simp add: list_ok_def derives_def)
  fix t' assume t': "t' \<in> set ts'" and cond: "IsOAuthGrant t' \<or> tk_refresh_hash t' \<noteq> [] \<or> og_origin s (tk_id t') \<noteq> None"
  from assms(2) t' have "(\<exists>t\<in>set ts. same_grant t t') \<or> \<not> IsOAuthGrant t' \<and> tk_refresh_hash t' = [] \<and> tk_id t' \<notin> tk_id ` set ts"
    by (simp add: derives_def)
  then show "grant_ok s t'"
  proof
    assume "\<exists>t\<in>set ts. same_grant t t'"
    then obtain t where t: "t \<in> set ts" "same_grant t t'" by blast
    then have "grant_ok s t" using assms(1) cond by (auto simp: list_ok_def same_grant_def IsOAuthGrant_def)
    then show ?thesis by (rule same_grant_ok [OF _ t(2) assms(3)])
  next
    assume new: "\<not> IsOAuthGrant t' \<and> tk_refresh_hash t' = [] \<and> tk_id t' \<notin> tk_id ` set ts"
    then have "og_origin s (tk_id t') = None" by (intro assms(4) [OF t']) simp
    with new cond show ?thesis by simp
  qed
qed

lemma tok_open_tokens: "tok_open f = Some toks \<Longrightarrow> settled toks \<and> tokens_of toks = file_tokens (x, f) \<and> file_tokens toks = file_tokens (x, f)"
  by (auto simp: tok_open_def settled_def tok_sync_def tok_reload_def tokens_of_def file_tokens_def split: json_file.splits option.splits)


lemma removed_id: "distinct (map f xs) \<Longrightarrow> x \<in> set (remove_first (\<lambda>y. f y = i) xs) \<Longrightarrow> f x \<noteq> i"
  by (induction xs) (auto simp: image_iff split: if_splits)

lemma tokens_step:
  assumes "oauth_step lib s s'" and "consents_ok lib s" and "codes_ok s" and "server_ok s" and "tokens_ok s"
  shows "tokens_ok s'"
  using assms
proof (induction rule: oauth_step.induct)
  case (Registered verb addr body now rnd written s result o' toks')
  show ?case by (rule tokens_same [OF Registered(5)]) (use register_frame [OF Registered(1)] in simp_all)
next
  case (Approved i user username projects scopes now rnd s redirect code state o')
  let ?s = "s\<lparr>og_server := o', og_approved := (og_approved s)(ol_hash lib code := fmlookup (os_codes o') (ol_hash lib code)),
    og_consents := (og_consents s)(ol_hash lib code :=
      map_option (\<lambda>p. \<lparr>cs_request = p, cs_user = user, cs_scopes = scopes\<rparr>) (fmlookup (os_pending (og_server s)) i))\<rparr>"
  have grown: "grown s ?s" using Approved(2) by (simp add: grown_def)
  have "list_ok ?s ts" if "list_ok s ts" for ts by (rule list_ok_grown [OF that grown]) simp_all
  then show ?case using Approved(6) by (simp add: tokens_ok_def)
next
  case (GrantCreated s n c ac rnd now out g toks')
  let ?s = "put n (Some (Created g)) (s\<lparr>og_tokens := toks', og_origin := (og_origin s)(tk_id g := Some c)\<rparr>)"
  have app: "og_approved s c = Some ac" using GrantCreated(1,6) by (simp add: codes_ok_def)
  have settled: "settled (og_tokens s)" and ok: "list_ok s (tokens_of (og_tokens s))" using GrantCreated(8) by (simp_all add: tokens_ok_def)
  from CreateGrant_tokens [OF GrantCreated(2) [unfolded create_grant_def] settled]
  have g: "settled toks'" "tokens_of toks' = tokens_of (og_tokens s) @ [g]" "file_tokens toks' = tokens_of toks'"
    "IsOAuthGrant g" "tk_client g = cl_id (ac_client ac)" "tk_scopes g = ac_scopes ac" "tk_owner g = ac_user ac" "tk_refresh_hash g = []"
    by (simp_all add: IsOAuthGrant_def)
  have grown: "grown s ?s" using GrantCreated(3) by (auto simp: grown_def)
  have old: "list_ok ?s (tokens_of (og_tokens s))"
    by (rule list_ok_grown [OF ok grown]) (use GrantCreated(4) in \<open>auto simp: image_iff split: if_splits\<close>)
  have "tk_id g \<notin> og_gone s" using GrantCreated(3,8) by (auto simp: tokens_ok_def)
  then have "grant_ok ?s g" using g app by (simp add: grant_ok_def)
  then have "list_ok ?s (tokens_of toks')" using old GrantCreated(4) by (auto simp: list_ok_def g(2))
  then show ?case using g(1,3) GrantCreated(8) by (auto simp: tokens_ok_def)
next
  case (GrantFailed s n c ac rnd now out e toks')
  have settled: "settled (og_tokens s)" using GrantFailed(6) by (simp add: tokens_ok_def)
  from CreateGrant_tokens [OF GrantFailed(2) [unfolded create_grant_def] settled]
  show ?case by (intro tokens_equal [OF GrantFailed(6)]) simp_all
next
  case (RefreshSet s n g h' now out u toks')
  let ?e = "refresh_end s g now"
  let ?s = "put n (Some (Adding (tk_id g) (access_end s g now))) (s\<lparr>og_tokens := toks', og_minted := (og_minted s)(h' := Some (tk_id g, ?e))\<rparr>)"
  have ok: "settled (og_tokens s)" "list_ok s (tokens_of (og_tokens s))" "h' \<notin> og_retired s"
    using RefreshSet(2,7) by (auto simp: tokens_ok_def)
  have i: "og_origin s (tk_id g) \<noteq> None" using RefreshSet(1,6) by (fastforce simp: server_ok_def)
  have T: "settled toks'" "tokens_of toks' = with_refresh (tk_id g) h' ?e (tokens_of (og_tokens s))" "file_tokens toks' = tokens_of toks'"
    using SetRefresh_tokens [OF RefreshSet(3) ok(1)] by simp_all
  have "list_ok ?s (tokens_of toks')"
    unfolding T(2) by (rule list_ok_refresh [OF ok(2) i RefreshSet(2) ok(3), where R = "{}"]) simp_all
  then show ?case using T(1,3) i RefreshSet(7) by (auto simp: tokens_ok_def split: if_splits)
next
  case (RefreshNotSet s n g h' now out e toks')
  let ?e = "refresh_end s g now"
  let ?s = "put n None (s\<lparr>og_tokens := toks', og_minted := (og_minted s)(h' := Some (tk_id g, ?e))\<rparr>)"
  have ok: "settled (og_tokens s)" "list_ok s (tokens_of (og_tokens s))" "h' \<notin> og_retired s"
    using RefreshNotSet(2,7) by (auto simp: tokens_ok_def)
  have i: "og_origin s (tk_id g) \<noteq> None" using RefreshNotSet(1,6) by (fastforce simp: server_ok_def)
  have T: "settled toks'" "tokens_of toks' = with_refresh (tk_id g) h' ?e (tokens_of (og_tokens s))" "file_tokens toks' = file_tokens (og_tokens s)"
    using SetRefresh_tokens [OF RefreshNotSet(3) ok(1)] by simp_all
  have mem: "list_ok ?s (tokens_of toks')"
    unfolding T(2) by (rule list_ok_refresh [OF ok(2) i RefreshNotSet(2) ok(3), where R = "{}"]) simp_all
  have grown: "grown s ?s" using RefreshNotSet(2) by (auto simp: grown_def)
  have "list_ok ?s (file_tokens (og_tokens s))"
    by (rule list_ok_grown [OF _ grown]) (use RefreshNotSet(7) in \<open>simp_all add: tokens_ok_def\<close>)
  then show ?case using mem T(1,3) i RefreshNotSet(7) by (auto simp: tokens_ok_def split: if_splits)
next
  case (Rotated s n g h h' now out u toks')
  let ?e = "refresh_end s g now"
  let ?s = "put n (Some (Adding (tk_id g) (access_end s g now))) (s\<lparr>og_tokens := toks',
    og_minted := (og_minted s)(h' := Some (tk_id g, ?e)), og_retired := insert h (og_retired s), og_watched := insert h (og_watched s)\<rparr>)"
  have ok: "settled (og_tokens s)" "list_ok s (tokens_of (og_tokens s))" "h' \<notin> og_retired s"
    using Rotated(2,7) by (auto simp: tokens_ok_def)
  have m: "h \<noteq> []" "og_minted s h = Some (tk_id g, tk_refresh_expires g)" using Rotated(1,6) by (fastforce simp: server_ok_def)+
  then have i: "og_origin s (tk_id g) \<noteq> None" using Rotated(7) by (auto simp: tokens_ok_def)
  have T: "settled toks'" "tokens_of toks' = with_refresh (tk_id g) h' ?e (tokens_of (og_tokens s))" "file_tokens toks' = tokens_of toks'"
    using RotateRefresh_tokens [OF Rotated(3) ok(1)] by simp_all
  have "tk_id t = tk_id g" if "t \<in> set (tokens_of (og_tokens s))" "tk_refresh_hash t \<in> {h}" "tk_refresh_hash t \<noteq> []" for t
    using ok(2) that m by (auto simp: list_ok_def grant_ok_def)
  then have "list_ok ?s (tokens_of toks')"
    unfolding T(2) by (intro list_ok_refresh [OF ok(2) i Rotated(2) ok(3), where R = "{h}"]) (use m Rotated(2) in auto)
  then show ?case using T(1,3) i m Rotated(7) by (auto simp: tokens_ok_def split: if_splits)
next
  case (RefreshFound s n h g toks' f now)
  show ?case by (rule tokens_same [OF RefreshFound(7)]) (use RefreshFound(2) in \<open>simp_all add: ByRefreshHash_eq\<close>)
next
  case (RefreshRefused h s g toks' f now e)
  show ?case by (rule tokens_same [OF RefreshRefused(6)]) (use RefreshRefused(1) in \<open>simp_all add: ByRefreshHash_eq\<close>)
next
  case (RefreshMissed s n h toks')
  show ?case by (rule tokens_same [OF RefreshMissed(6)]) (use RefreshMissed(2) in \<open>simp_all add: ByRefreshHash_eq\<close>)
next
  case (RotatedByOther s n g h h' e out toks')
  have "settled (og_tokens s)" using RotatedByOther(6) by (simp add: tokens_ok_def)
  from RotateRefresh_tokens [OF RotatedByOther(2) this]
  show ?case by (intro tokens_equal [OF RotatedByOther(6)]) simp_all
next
  case (RotateFailed s n g h h' e out x toks')
  have "settled (og_tokens s)" using RotateFailed(7) by (simp add: tokens_ok_def)
  from RotateRefresh_tokens [OF RotateFailed(2) this]
  show ?case by (intro tokens_equal [OF RotateFailed(7)]) simp_all
next
  case (RevokeAsked s n h g toks')
  show ?case by (rule tokens_same [OF RevokeAsked(6)]) (use RevokeAsked(2) in \<open>simp_all add: ByRefreshHash_eq\<close>)
next
  case (GrantRevoked s n i out r toks')
  let ?s = "put n (Some (Dropping i)) (s\<lparr>og_tokens := toks',
    og_gone := (if r = Inr () \<and> og_origin s i \<noteq> None then insert i (og_gone s) else og_gone s)\<rparr>)"
  have ok: "settled (og_tokens s)" "list_ok s (tokens_of (og_tokens s))" "list_ok s (file_tokens (og_tokens s))"
    using GrantRevoked(6) by (auto simp: tokens_ok_def)
  have T: "settled toks'" "tokens_of toks' = remove_first (\<lambda>t. tk_id t = i) (tokens_of (og_tokens s))"
    "file_tokens toks' = (if r = Inr () then tokens_of toks' else file_tokens (og_tokens s))"
    using Revoke_tokens [OF GrantRevoked(2) ok(1)] by simp_all
  have sub: "list_ok s (tokens_of toks')"
    using ok(2) set_remove_first [of "\<lambda>t. tk_id t = i" "tokens_of (og_tokens s)"] by (auto simp: T(2) list_ok_def distinct_remove_first)
  have gone: "tk_id t \<noteq> i" if "t \<in> set (tokens_of toks')" for t
    by (rule removed_id [where xs = "tokens_of (og_tokens s)"]) (use that ok(2) in \<open>simp_all add: T(2) list_ok_def\<close>)
  have grown: "grown s ?s" by (simp add: grown_def)
  have mem: "list_ok ?s (tokens_of toks')"
    by (rule list_ok_grown [OF sub grown]) (use gone in \<open>auto split: if_splits\<close>)
  have "list_ok ?s (file_tokens toks')"
  proof (cases "r = Inr ()")
    case True
    with mem T(3) show ?thesis by simp
  next
    case False
    then show ?thesis using T(3) list_ok_grown [OF ok(3) grown] by simp
  qed
  with mem show ?case using T(1) GrantRevoked(6) by (auto simp: tokens_ok_def split: if_splits)
next
  case (StoreChanged s toks')
  have ok: "settled (og_tokens s)" "list_ok s (tokens_of (og_tokens s))" "list_ok s (file_tokens (og_tokens s))"
    using StoreChanged(6) by (auto simp: tokens_ok_def)
  have keeps: "settled toks'" "derives (tokens_of (og_tokens s)) (tokens_of toks')" "file_tokens toks' \<in> {file_tokens (og_tokens s), tokens_of toks'}"
    using token_op_keeps [OF StoreChanged(1) ok(1)] by (simp_all add: keeps_grants_def)
  have "list_ok s (tokens_of toks')" by (rule list_ok_derives [OF ok(2) keeps(2) StoreChanged(3)]) (rule StoreChanged(2))
  moreover have "list_ok s (file_tokens toks')" using keeps(3) ok(3) calculation by auto
  moreover have "list_ok (s\<lparr>og_tokens := toks'\<rparr>) ts" if "list_ok s ts" for ts
    by (rule list_ok_grown [OF that grown_same]) simp_all
  ultimately show ?case using keeps(1) StoreChanged(6) by (simp add: tokens_ok_def)
next
  case (Restarted c f now o' s toks')
  from tok_open_tokens [OF Restarted(3), of "fst (og_tokens s)"]
  have "settled toks'" "tokens_of toks' = file_tokens (og_tokens s)" "file_tokens toks' = file_tokens (og_tokens s)" by simp_all
  moreover have "list_ok (s\<lparr>og_server := o', og_tokens := toks', og_requests := (\<lambda>_. None), og_watched := {}, og_failed := {}\<rparr>) ts"
    if "list_ok s ts" for ts
    by (rule list_ok_grown [OF that grown_same]) simp_all
  ultimately show ?case using Restarted(7) by (simp add: tokens_ok_def)
qed (rule tokens_same, assumption, simp_all)+


subsection \<open>The server's maps and the requests under way\<close>

lemma request_ok_grown: "request_ok s r \<Longrightarrow> grown s s' \<Longrightarrow> request_ok s' r"
  by (cases r) (auto simp: grown_def)

lemma request_okD: "server_ok s \<Longrightarrow> og_requests s n = Some r \<Longrightarrow> request_ok s r"
  unfolding server_ok_def by blast

lemma server_within:
  assumes "server_ok s" and "grown s s'" and "og_accesses s' = og_accesses s"
    and "fm_within (os_access (og_server s')) (os_access (og_server s))"
    and "fm_within (os_consumed (og_server s')) (os_consumed (og_server s))"
    and "\<And>n r. og_requests s' n = Some r \<Longrightarrow> og_requests s n = Some r \<or> request_ok s' r"
  shows "server_ok s'"
  unfolding server_ok_def assms(3)
proof (intro conjI allI impI)
  show "request_ok s' r" if "og_requests s' n = Some r" for n r
    using assms(6) [OF that] assms(1) request_ok_grown [OF _ assms(2)] by (auto simp: server_ok_def)
  show "og_accesses s k = Some (ae_token e)" if "fmlookup (os_access (og_server s')) k = Some e" for k e
    using fm_withinD [OF assms(4) that] assms(1) by (simp add: server_ok_def)
  show "og_origin s' i \<noteq> None" if "og_accesses s k = Some i" for k i
    using assms(1,2) that unfolding server_ok_def grown_def by (metis not_None_eq)
  show "og_minted s' h = Some (cr_token c, cr_exp c)" if "fmlookup (os_consumed (og_server s')) h = Some c" for h c
    using fm_withinD [OF assms(5) that] assms(1,2) unfolding server_ok_def grown_def by metis
qed

lemma refresh_found:
  assumes "tokens_ok s" and "ByRefreshHash h (og_tokens s) = (Some g, toks')"
  shows "og_minted s h = Some (tk_id g, tk_refresh_expires g) \<and> h \<notin> og_retired s \<and> h \<noteq> [] \<and> grant_ok s g \<and>
    g \<in> set (tokens_of (og_tokens s))"
proof -
  have "find (\<lambda>t. tk_refresh_hash t \<noteq> [] \<and> tk_refresh_hash t = h) (tokens_of (og_tokens s)) = Some g"
    using assms by (simp add: ByRefreshHash_eq tokens_ok_def settled_def)
  from find_Some_iff' [OF this] have g: "g \<in> set (tokens_of (og_tokens s))" "tk_refresh_hash g = h" "h \<noteq> []" by auto
  with assms(1) have "grant_ok s g" by (auto simp: tokens_ok_def list_ok_def)
  with g show ?thesis by (auto simp: grant_ok_def)
qed

lemma server_step:
  assumes "oauth_step lib s s'" and "tokens_ok s" and "server_ok s"
  shows "server_ok s'"
  using assms
proof (induction rule: oauth_step.induct)
  case (Asked verb addr form now fetched gone rnd written s answer o')
  show ?case by (rule server_within [OF Asked(3) grown_same]) (use authorize_frame(1) [OF Asked(1)] in simp_all)
next
  case (Registered verb addr body now rnd written s result o' toks')
  show ?case by (rule server_within [OF Registered(3) grown_same]) (use register_frame [OF Registered(1)] in simp_all)
next
  case (Denied i s r o')
  show ?case by (rule server_within [OF Denied(3) grown_same]) (use deny_frame [OF Denied(1)] in auto)
next
  case (Approved i user username projects scopes now rnd s redirect code state o')
  show ?case
    by (rule server_within [OF Approved(4)]) (use approve_frame(1) [OF Approved(1)] Approved(2) in \<open>simp_all add: grown_def\<close>)
next
  case (NotApproved i user username projects scopes now rnd s e o')
  show ?case by (rule server_within [OF NotApproved(3) grown_same]) (use approve_frame(1) [OF NotApproved(1)] in simp_all)
next
  case (CodeTaken s n f found o' now ac)
  show ?case by (rule server_within [OF CodeTaken(5) grown_same]) (use take_code_frame [OF CodeTaken(2)] in \<open>auto split: if_splits\<close>)
next
  case (CodeRefused f s found o' now e)
  show ?case by (rule server_within [OF CodeRefused(4) grown_same]) (use take_code_frame [OF CodeRefused(1)] in simp_all)
next
  case (GrantCreated s n c ac rnd now out g toks')
  show ?case by (rule server_within [OF GrantCreated(6)]) (use GrantCreated(3) in \<open>auto simp: grown_def split: if_splits\<close>)
next
  case (RoomForNew s n g now o')
  have "request_ok s (Created g)" by (rule request_okD [OF RoomForNew(5,1)])
  then show ?case
    by (intro server_within [OF RoomForNew(5) grown_same]) (use issue_room_frame(1) [OF RoomForNew(3)] in \<open>auto split: if_splits\<close>)
next
  case (RoomForRefresh s n g h now o')
  have "request_ok s (Found g h)" by (rule request_okD [OF RoomForRefresh(5,1)])
  then show ?case
    by (intro server_within [OF RoomForRefresh(5) grown_same]) (use issue_room_frame(1) [OF RoomForRefresh(3)] in \<open>auto split: if_splits\<close>)
next
  case (NoRoom s n r g h now o')
  show ?case by (rule server_within [OF NoRoom(6) grown_same]) (use issue_room_frame(1) [OF NoRoom(4)] in \<open>auto split: if_splits\<close>)
next
  case (RefreshSet s n g h' now out u toks')
  have "request_ok s (Fresh g)" by (rule request_okD [OF RefreshSet(5,1)])
  then show ?case
    by (intro server_within [OF RefreshSet(5)]) (use RefreshSet(2) in \<open>auto simp: grown_def split: if_splits\<close>)
next
  case (RefreshNotSet s n g h' now out e toks')
  show ?case by (rule server_within [OF RefreshNotSet(5)]) (use RefreshNotSet(2) in \<open>auto simp: grown_def split: if_splits\<close>)
next
  case (AccessAdded s n i expires k)
  have "request_ok s (Adding i expires)" by (rule request_okD [OF AccessAdded(4,1)])
  moreover have "request_ok s' r \<longleftrightarrow> request_ok s r" if "s' = put n None (s\<lparr>og_server := add_access k i expires (og_server s), og_accesses := (og_accesses s)(k := Some i)\<rparr>)" for s' r
    using that by (cases r) simp_all
  ultimately show ?case using AccessAdded(2,4) by (auto simp: server_ok_def add_access_def split: if_splits)
next
  case (RefreshFound s n h g toks' f now)
  from refresh_found [OF RefreshFound(4,2)] show ?case
    by (intro server_within [OF RefreshFound(5) grown_same]) (auto split: if_splits)
next
  case (RefreshMarked s n g h)
  have "request_ok s (Roomy g h)" by (rule request_okD [OF RefreshMarked(3,1)])
  moreover have "request_ok s' r \<longleftrightarrow> request_ok s r" if "s' = put n (Some (Marked g h)) (s\<lparr>og_server := mark_consumed h g (og_server s)\<rparr>)" for s' r
    using that by (cases r) simp_all
  ultimately show ?case using RefreshMarked(3) by (auto simp: server_ok_def mark_consumed_def split: if_splits)
next
  case (Rotated s n g h h' now out u toks')
  have "request_ok s (Marked g h)" by (rule request_okD [OF Rotated(5,1)])
  then have "og_origin s (tk_id g) \<noteq> None" using Rotated(4) by (auto simp: tokens_ok_def)
  then show ?case
    by (intro server_within [OF Rotated(5)]) (use Rotated(2) in \<open>auto simp: grown_def split: if_splits\<close>)
next
  case (MarkTakenBack s n h)
  show ?case by (rule server_within [OF MarkTakenBack(3) grown_same]) (auto simp: unmark_consumed_def split: if_splits)
next
  case (AccessDropped s n i)
  show ?case by (rule server_within [OF AccessDropped(3) grown_same]) (auto split: if_splits)
next
  case (Restarted c f now o' s toks')
  show ?case by (rule server_within [OF Restarted(5) grown_same]) (use new_oauth_empty [OF Restarted(1)] in \<open>simp_all add: fm_within_def\<close>)
qed (erule server_within [OF _ grown_same]; auto split: if_splits)+

subsection \<open>The refresh tokens remembered\<close>

lemma watch_same:
  assumes "watch_ok s" and "\<And>h. remembered s h \<Longrightarrow> remembered s' h" and "og_watched s' \<subseteq> og_watched s"
    and "og_retired s \<subseteq> og_retired s'" and "og_failed s \<subseteq> og_failed s'"
    and "\<And>n g h. og_requests s' n = Some (Marked g h) \<Longrightarrow> og_requests s n = Some (Marked g h)"
    and "\<And>n h. og_requests s' n = Some (Unmarking h) \<Longrightarrow> og_requests s n = Some (Unmarking h)"
  shows "watch_ok s'"
  using assms unfolding watch_ok_def by blast

lemma remembered_same:
  assumes "remembered s h" and "og_failed s \<subseteq> og_failed s'" and "og_clock s \<le> og_clock s'" and "grown s s'"
    and "os_consumed (og_server s') = os_consumed (og_server s)"
  shows "remembered s' h"
proof -
  consider "h \<in> og_failed s" | "fmlookup (os_consumed (og_server s)) h \<noteq> None"
    | i e where "og_minted s h = Some (i, e)" "e \<noteq> 0" "e \<le> og_clock s" using assms(1) unfolding remembered_def by blast
  then show ?thesis
  proof cases
    case 3
    then have "og_minted s' h = Some (i, e)" using assms(4) by (simp add: grown_def)
    with 3 assms(3) show ?thesis unfolding remembered_def by (metis order_trans)
  qed (use assms(2,5) in \<open>auto simp: remembered_def\<close>)
qed

lemma remembered_room:
  assumes "server_ok s" and "issue_room now (og_server s) = (b, o')" and "now \<le> og_clock s"
    and "og_failed s' = og_failed s" and "og_clock s' = og_clock s" and "og_minted s' = og_minted s" and "og_server s' = o'"
    and "remembered s h"
  shows "remembered s' h"
proof (cases "fmlookup (os_consumed (og_server s)) h")
  case None
  with assms(4-8) show ?thesis by (auto simp: remembered_def)
next
  case (Some c)
  then have "og_minted s h = Some (cr_token c, cr_exp c)" using assms(1) by (simp add: server_ok_def)
  with issue_room_frame(2) [OF assms(2) Some] assms(3-7) show ?thesis by (auto simp: remembered_def)
qed

lemma watch_step:
  assumes "oauth_step lib s s'" and "server_ok s" and "watch_ok s"
  shows "watch_ok s'"
  using assms
proof (induction rule: oauth_step.induct)
  case (Asked verb addr form now fetched gone rnd written s answer o')
  show ?case
    by (rule watch_same [OF Asked(3) remembered_same [OF _ _ _ grown_same]]) (use authorize_frame(1) [OF Asked(1)] in simp_all)
next
  case (Registered verb addr body now rnd written s result o' toks')
  show ?case
    by (rule watch_same [OF Registered(3) remembered_same [OF _ _ _ grown_same]]) (use register_frame [OF Registered(1)] in simp_all)
next
  case (Denied i s r o')
  show ?case by (rule watch_same [OF Denied(3) remembered_same [OF _ _ _ grown_same]]) (use deny_frame [OF Denied(1)] in auto)
next
  case (Approved i user username projects scopes now rnd s redirect code state o')
  show ?case
    by (rule watch_same [OF Approved(4) remembered_same])
      (use approve_frame(1) [OF Approved(1)] Approved(2) in \<open>simp_all add: grown_def\<close>)
next
  case (NotApproved i user username projects scopes now rnd s e o')
  show ?case
    by (rule watch_same [OF NotApproved(3) remembered_same [OF _ _ _ grown_same]]) (use approve_frame(1) [OF NotApproved(1)] in simp_all)
next
  case (CodeTaken s n f found o' now ac)
  show ?case
    by (rule watch_same [OF CodeTaken(5) remembered_same [OF _ _ _ grown_same]])
      (use take_code_frame [OF CodeTaken(2)] in \<open>auto split: if_splits\<close>)
next
  case (CodeRefused f s found o' now e)
  show ?case
    by (rule watch_same [OF CodeRefused(4) remembered_same [OF _ _ _ grown_same]]) (use take_code_frame [OF CodeRefused(1)] in simp_all)
next
  case (GrantCreated s n c ac rnd now out g toks')
  show ?case
    by (rule watch_same [OF GrantCreated(6) remembered_same]) (use GrantCreated(3) in \<open>auto simp: grown_def split: if_splits\<close>)
next
  case (RoomForNew s n g now o')
  show ?case
    by (rule watch_same [OF RoomForNew(5) remembered_room [OF RoomForNew(4,3,2)]]) (auto split: if_splits)
next
  case (RoomForRefresh s n g h now o')
  show ?case
    by (rule watch_same [OF RoomForRefresh(5) remembered_room [OF RoomForRefresh(4,3,2)]]) (auto split: if_splits)
next
  case (NoRoom s n r g h now o')
  show ?case
    by (rule watch_same [OF NoRoom(6) remembered_room [OF NoRoom(5,4,3)]]) (auto split: if_splits)
next
  case (RefreshSet s n g h' now out u toks')
  show ?case
    by (rule watch_same [OF RefreshSet(5) remembered_same]) (use RefreshSet(2) in \<open>auto simp: grown_def split: if_splits\<close>)
next
  case (RefreshNotSet s n g h' now out e toks')
  show ?case
    by (rule watch_same [OF RefreshNotSet(5) remembered_same]) (use RefreshNotSet(2) in \<open>auto simp: grown_def split: if_splits\<close>)
next
  case (RefreshMarked s n g h)
  then show ?case
    by (auto simp: watch_ok_def remembered_def mark_consumed_def split: if_splits)
next
  case (Rotated s n g h h' now out u toks')
  let ?s = "put n (Some (Adding (tk_id g) (access_end s g now))) (s\<lparr>og_tokens := toks',
    og_minted := (og_minted s)(h' := Some (tk_id g, refresh_end s g now)), og_retired := insert h (og_retired s),
    og_watched := insert h (og_watched s)\<rparr>)"
  have "remembered ?s k" if "remembered s k" for k
    using that Rotated(2) by (intro remembered_same [OF that]) (auto simp: grown_def)
  with Rotated(1,5) show ?case unfolding watch_ok_def by (auto split: if_splits)
next
  case (RotateFailed s n g h h' e out x toks')
  then show ?case by (auto simp: watch_ok_def remembered_def split: if_splits)
next
  case (MarkTakenBack s n h)
  then have "h \<in> og_failed s" by (auto simp: watch_ok_def)
  with MarkTakenBack show ?case by (auto simp: watch_ok_def remembered_def unmark_consumed_def split: if_splits)
next
  case (Restarted c f now o' s toks')
  then show ?case by (simp add: watch_ok_def)
qed (erule watch_same [OF _ remembered_same [OF _ _ _ grown_same]]; auto split: if_splits)+

end
