(* ===== verification/OAuthClaims.thy ===== *)
theory OAuthClaims
  imports OAuthReach
begin

subsection \<open>Reachable states\<close>

lemma started_ok:
  assumes "new_oauth lib c f now = Inr o'" and "tok_open f' = Some toks" and "distinct (map tk_id (tokens_of toks))"
    and "\<And>t. t \<in> set (tokens_of toks) \<Longrightarrow> \<not> IsOAuthGrant t \<and> tk_refresh_hash t = []"
  defines "s \<equiv> new_oauth_sys o' toks now"
  shows "consents_ok lib s" "codes_ok s" "server_ok s" "tokens_ok s" "watch_ok s"
proof -
  note e = new_oauth_empty [OF assms(1)]
  show "consents_ok lib s" "codes_ok s" "server_ok s" "watch_ok s"
    using e by (simp_all add: s_def new_oauth_sys_def consents_ok_def codes_ok_def server_ok_def watch_ok_def)
  have "list_ok s (tokens_of toks)" using assms(3,4) by (auto simp: s_def new_oauth_sys_def list_ok_def)
  with tok_open_tokens [OF assms(2), of "fst toks"] show "tokens_ok s"
    by (simp add: tokens_ok_def s_def new_oauth_sys_def)
qed

lemma reachable_ok:
  assumes "oauth_reachable lib s"
  shows "consents_ok lib s \<and> codes_ok s \<and> server_ok s \<and> tokens_ok s \<and> watch_ok s"
  using assms
proof (induction rule: oauth_reachable.induct)
  case (Started c f now o' f' toks)
  from started_ok [OF this] show ?case by blast
next
  case (Step s s')
  then show ?case using consents_step codes_step server_step tokens_step watch_step by blast
qed

lemma steps_reachable: "(oauth_step lib)\<^sup>*\<^sup>* s s' \<Longrightarrow> oauth_reachable lib s \<Longrightarrow> oauth_reachable lib s'"
  by (induction rule: rtranclp_induct) (auto intro: oauth_reachable.Step)

lemma gone_step: "oauth_step lib s s' \<Longrightarrow> og_gone s \<subseteq> og_gone s'"
  by (induction rule: oauth_step.induct) auto

lemma gone_steps: "(oauth_step lib)\<^sup>*\<^sup>* s s' \<Longrightarrow> og_gone s \<subseteq> og_gone s'"
  by (induction rule: rtranclp_induct) (auto dest: gone_step)

lemma Resolve_cases:
  assumes "Resolve lib p now out (s, toks) = (Some g, sys')"
  shows "has_prefix p accessPrefix \<and> (\<exists>e. fmlookup (os_access s) (ol_hash lib p) = Some e \<and> now < ae_exp e \<and>
    find (\<lambda>t. tk_id t = ae_token e) (tokens_of (tok_sync toks)) = Some g \<and> IsOAuthGrant g \<and> \<not> Expired g now)"
  using assms by (auto simp: Resolve_def ByID_eq split: if_splits option.splits)

lemma resolved_grant:
  assumes "oauth_reachable lib s" and "Resolve lib p now out (og_server s, og_tokens s) = (Some g, sys')"
  shows "og_accesses s (ol_hash lib p) = Some (tk_id g) \<and> grant_ok s g \<and> g \<in> set (tokens_of (og_tokens s)) \<and> \<not> Expired g now"
proof -
  have ok: "server_ok s" "tokens_ok s" using reachable_ok [OF assms(1)] by simp_all
  obtain e where e: "fmlookup (os_access (og_server s)) (ol_hash lib p) = Some e" "IsOAuthGrant g" "\<not> Expired g now"
    "find (\<lambda>t. tk_id t = ae_token e) (tokens_of (tok_sync (og_tokens s))) = Some g"
    using Resolve_cases [OF assms(2)] by blast
  then have g: "tk_id g = ae_token e" "g \<in> set (tokens_of (og_tokens s))"
    using find_Some_iff' [OF e(4)] ok(2) by (simp_all add: tokens_ok_def settled_def)
  moreover from ok(1) e(1) have "og_accesses s (ol_hash lib p) = Some (ae_token e)" by (simp add: server_ok_def)
  moreover have "grant_ok s g" using ok(2) g(2) e(2) by (simp add: tokens_ok_def list_ok_def)
  ultimately show ?thesis using e(3) by simp
qed

subsection \<open>What an access token stands for\<close>

text \<open>C28: Under any interleaving of requests, consents, restarts and other changes of the token store, an access token
  that \<open>Resolve\<close> accepts was minted for the grant it gives, and that grant came from one code, approved by a decision
  (\<open>og_consents\<close>, recorded from the call of \<open>Approve\<close>): its owner is the account that decided, its client the one of the
  request shown, which came with a redirect address registered for that client and a PKCE challenge, and its scopes are
  those the request asked for (read when it named none) and the account allowed. No other grant came from that code.\<close>

theorem access_approved:
  assumes "oauth_reachable lib s" and "Resolve lib p now out (og_server s, og_tokens s) = (Some g, sys')"
  shows "\<exists>c k. og_accesses s (ol_hash lib p) = Some (tk_id g) \<and> og_origin s (tk_id g) = Some c \<and> og_consents s c = Some k \<and>
    IsOAuthGrant g \<and> \<not> Expired g now \<and> tk_owner g = cs_user k \<and> cs_user k \<noteq> [] \<and> tk_client g = cl_id (pr_client (cs_request k)) \<and>
    tk_scopes g \<noteq> [] \<and>
    set (tk_scopes g) = {sc \<in> {ScopeRead, ScopeWrite}. sc \<in> set (cs_scopes k) \<and>
      (sc \<in> set (pr_scopes (cs_request k)) \<or> sc = ScopeRead \<and> pr_scopes (cs_request k) = [])} \<and>
    redirect_ok lib (os_cfg (og_server s)) (pr_client (cs_request k)) (pr_redirect (cs_request k)) (pr_challenge (cs_request k)) \<and>
    {i. og_origin s i = Some c} = {tk_id g}"
proof -
  note g = resolved_grant [OF assms]
  then obtain c ac where c: "og_origin s (tk_id g) = Some c" "og_approved s c = Some ac" "tk_owner g = ac_user ac"
    "tk_client g = cl_id (ac_client ac)" "tk_scopes g = ac_scopes ac" by (auto simp: grant_ok_def)
  have ok: "consents_ok lib s" "codes_ok s" using reachable_ok [OF assms(1)] by simp_all
  obtain k where k: "og_consents s c = Some k" "approved_by lib (os_cfg (og_server s)) k ac"
    using ok(1) c(2) unfolding consents_ok_def by blast
  have "{i. og_origin s i = Some c} = {tk_id g}" using ok(2) c(1) unfolding codes_ok_def by blast
  with g c k show ?thesis
    by (intro exI [of _ c] exI [of _ k]) (simp add: approved_by_def consented_def grant_ok_def)
qed

subsection \<open>Refresh tokens\<close>

lemma rotated_not_found:
  assumes "oauth_reachable lib s" and "h \<in> og_retired s"
  shows "ByRefreshHash h (og_tokens s) = (None, tok_sync (og_tokens s))"
proof (cases "fst (ByRefreshHash h (og_tokens s))")
  case None
  then show ?thesis by (simp add: ByRefreshHash_eq)
next
  case (Some g)
  then have "ByRefreshHash h (og_tokens s) = (Some g, snd (ByRefreshHash h (og_tokens s)))" by (metis prod.collapse)
  with refresh_found reachable_ok [OF assms(1)] assms(2) show ?thesis by blast
qed

text \<open>C29: Under any interleaving, restarts included, a refresh token that was rotated away is never found nor rotated
  again: of two requests that present the same one, at once or later, one at most gets tokens.\<close>

theorem refresh_token_once:
  assumes "oauth_reachable lib s" and "h \<in> og_retired s"
  shows "fst (ByRefreshHash h (og_tokens s)) = None \<and> fst (RotateRefresh i h h' e out (og_tokens s)) \<noteq> Inr ()"
proof
  have ok: "tokens_ok s" using reachable_ok [OF assms(1)] by simp
  then have settled: "settled (og_tokens s)" and h: "h \<noteq> []" using assms(2) by (auto simp: tokens_ok_def)
  show "fst (ByRefreshHash h (og_tokens s)) = None" using rotated_not_found [OF assms] by simp
  show "fst (RotateRefresh i h h' e out (og_tokens s)) \<noteq> Inr ()"
  proof
    assume "fst (RotateRefresh i h h' e out (og_tokens s)) = Inr ()"
    then have "RotateRefresh i h h' e out (og_tokens s) = (Inr (), snd (RotateRefresh i h h' e out (og_tokens s)))"
      by (metis prod.collapse)
    from RotateRefresh_tokens [OF this settled] obtain t where
      "find (\<lambda>t. tk_id t = i) (tokens_of (og_tokens s)) = Some t" "tk_refresh_hash t = h" by auto
    then have "t \<in> set (tokens_of (og_tokens s))" "tk_refresh_hash t = h" using find_Some_iff' by fastforce+
    with ok h have "grant_ok s t" by (auto simp: tokens_ok_def list_ok_def)
    with \<open>tk_refresh_hash t = h\<close> h assms(2) show False by (simp add: grant_ok_def)
  qed
qed

text \<open>C30: A replay revokes: while the server runs, a refresh token that was rotated away since it started, has not ended,
  and whose rotation no failed save spoiled, is refused when it is presented again, and with it its grant goes: the store
  has no token of its identifier left, and the server no access token of it.\<close>

theorem reuse_revokes:
  assumes "oauth_reachable lib s" and "ol_hash lib (tf_refresh f) \<in> og_watched s" and "ol_hash lib (tf_refresh f) \<notin> og_failed s"
    and "og_minted s (ol_hash lib (tf_refresh f)) = Some (i, e)" and "e = 0 \<or> og_clock s < e"
    and "tf_refresh f \<noteq> []" and "trim_space (tf_client_id f) \<noteq> []"
    and "refreshGrant lib f now d (og_server s, og_tokens s) = (answer, o', toks')"
  shows "answer = Fails 400 ''invalid_grant'' \<and> i \<notin> tk_id ` set (tokens_of toks') \<and>
    (\<forall>k a. fmlookup (os_access o') k \<noteq> Some \<lparr>ae_token = i, ae_exp = a\<rparr>)"
proof -
  let ?h = "ol_hash lib (tf_refresh f)"
  have ok: "server_ok s" "tokens_ok s" "watch_ok s" using reachable_ok [OF assms(1)] by simp_all
  have "?h \<in> og_retired s" using ok(3) assms(2) by (auto simp: watch_ok_def)
  then have none: "ByRefreshHash ?h (og_tokens s) = (None, tok_sync (og_tokens s))" by (rule rotated_not_found [OF assms(1)])
  have "remembered s ?h" using ok(3) assms(2) by (simp add: watch_ok_def)
  then obtain c where c: "fmlookup (os_consumed (og_server s)) ?h = Some c"
    using assms(3-5) by (auto simp: remembered_def)
  with ok(1) assms(4) have i: "cr_token c = i" by (auto simp: server_ok_def)
  have res: "(answer, o', toks') = (Fails 400 ''invalid_grant'', revoke_grant i (dr_revoke_save d) (og_server s, tok_sync (og_tokens s)))"
    using assms(6-8) none c i by (simp add: refreshGrant_def Let_def)
  obtain r y where rev: "Revoke i (dr_revoke_save d) (tok_sync (og_tokens s)) = (r, y)" by (rule prod.exhaust)
  with res have y: "toks' = y" "o' = dropAccessFor i (og_server s)" by (simp_all add: revoke_grant_def)
  have "tokens_of toks' = remove_first (\<lambda>t. tk_id t = i) (tokens_of (og_tokens s))"
    using Revoke_tokens [OF rev] ok(2) y by (simp add: tokens_ok_def settled_def tok_sync_idem)
  moreover have "distinct (map tk_id (tokens_of (og_tokens s)))" using ok(2) by (simp add: tokens_ok_def list_ok_def)
  ultimately have "i \<notin> tk_id ` set (tokens_of toks')" using removed_id by fastforce
  moreover have "fmlookup (os_access o') k \<noteq> Some \<lparr>ae_token = i, ae_exp = a\<rparr>" for k a
    by (auto simp: y dropAccessFor_def fm_each_lookup bind_eq_Some_conv split: if_splits)
  ultimately show ?thesis using res by simp
qed

text \<open>C31: A grant whose revocation was saved is dead for good: whatever the server, other requests under way with tokens of
  that grant, the other operations of the token store and restarts do from there, no access token gives it and no refresh
  token finds it.\<close>

theorem revoked_grant_is_dead:
  assumes "oauth_reachable lib s" and "i \<in> og_gone s" and "(oauth_step lib)\<^sup>*\<^sup>* s s'"
  shows "(fst (Resolve lib p now out (og_server s', og_tokens s')) = Some g \<longrightarrow> tk_id g \<noteq> i) \<and>
    (fst (ByRefreshHash h (og_tokens s')) = Some g \<longrightarrow> tk_id g \<noteq> i)"
proof (intro conjI impI)
  have reach: "oauth_reachable lib s'" using steps_reachable assms by blast
  have gone: "i \<in> og_gone s'" using gone_steps [OF assms(3)] assms(2) by blast
  assume "fst (Resolve lib p now out (og_server s', og_tokens s')) = Some g"
  then have "Resolve lib p now out (og_server s', og_tokens s') = (Some g, snd (Resolve lib p now out (og_server s', og_tokens s')))"
    by (metis prod.collapse)
  from resolved_grant [OF reach this] gone show "tk_id g \<noteq> i" by (auto simp: grant_ok_def)
next
  have reach: "oauth_reachable lib s'" using steps_reachable assms by blast
  have gone: "i \<in> og_gone s'" using gone_steps [OF assms(3)] assms(2) by blast
  assume "fst (ByRefreshHash h (og_tokens s')) = Some g"
  then have "ByRefreshHash h (og_tokens s') = (Some g, snd (ByRefreshHash h (og_tokens s')))" by (metis prod.collapse)
  with refresh_found reachable_ok [OF reach] have "grant_ok s' g" by blast
  with gone show "tk_id g \<noteq> i" by (auto simp: grant_ok_def)
qed


subsection \<open>Exchanging a code\<close>

lemma issueTokens_frame:
  assumes "issueTokens lib g old now ra rr out (s, toks) = (r, s', toks')"
  shows "os_codes s' = os_codes s \<and> os_cfg s' = os_cfg s"
proof -
  obtain b s1 where room: "issue_room now s = (b, s1)" by (rule prod.exhaust)
  from issue_room_frame(1) [OF room] have "os_codes s1 = os_codes s" "os_cfg s1 = os_cfg s" by simp_all
  then show ?thesis using assms room
    by (auto simp: issueTokens_def Let_def split: option.splits prod.splits sum.splits if_splits)
qed

text \<open>What makes a code good for the request that presents it.\<close>

definition good_code :: "oauth_lib \<Rightarrow> oauth_config \<Rightarrow> token_form \<Rightarrow> time \<Rightarrow> auth_code \<Rightarrow> bool" where
  "good_code lib cfg f now ac \<longleftrightarrow>
     now < ac_expires ac \<and> cl_id (ac_client ac) = trim_space (tf_client_id f) \<and> tf_redirect f \<in> {[], ac_redirect ac} \<and>
     length (tf_verifier f) \<in> {43..128} \<and> ol_s256 lib (tf_verifier f) = ac_challenge ac \<and> \<not> bad_resource lib cfg (tf_resource f)"

lemma check_code_iff: "check_code lib cfg f found now = Inr ac \<longleftrightarrow> found = Some ac \<and> good_code lib cfg f now ac"
  by (auto simp: check_code_def good_code_def verifyPKCE_def split: option.splits if_splits)

lemma check_code_400: "check_code lib cfg f found now = Inl (n, e) \<Longrightarrow> n = 400"
  by (auto simp: check_code_def split: option.splits if_splits)

text \<open>C32: A request without a code, a verifier or a client is answered 400 and changes nothing: the code stays good. Any
  other takes the code it presents out of the map, and no other code, whatever the answer; and unless the code was in the
  map, has not expired, was issued to the client that presents it, at the redirect address presented, if one is, with the
  verifier of 43 to 128 bytes whose transform is the code's challenge, and for this server's resource, if one is named, the
  answer is 400 and no grant is made.\<close>

theorem code_needs_its_verifier:
  assumes "exchangeCode lib f now d (s, toks) = (answer, s', toks')"
  shows "if tf_code f = [] \<or> tf_verifier f = [] \<or> trim_space (tf_client_id f) = []
    then (answer, s', toks') = (Fails 400 ''invalid_request'', s, toks)
    else fmlookup (os_codes s') k = (if k = ol_hash lib (tf_code f) then None else fmlookup (os_codes s) k) \<and>
      (if (case fmlookup (os_codes s) (ol_hash lib (tf_code f)) of None \<Rightarrow> False | Some ac \<Rightarrow>
             now < ac_expires ac \<and> cl_id (ac_client ac) = trim_space (tf_client_id f) \<and> tf_redirect f \<in> {[], ac_redirect ac} \<and>
             length (tf_verifier f) \<in> {43..128} \<and> ol_s256 lib (tf_verifier f) = ac_challenge ac \<and>
             \<not> bad_resource lib (os_cfg s) (tf_resource f))
       then (\<forall>e. answer \<noteq> Fails 400 e) else (\<exists>e. answer = Fails 400 e) \<and> toks' = toks)"
proof (cases "tf_code f = [] \<or> tf_verifier f = [] \<or> trim_space (tf_client_id f) = []")
  case True
  with assms show ?thesis by (auto simp: exchangeCode_def)
next
  case False
  let ?k = "ol_hash lib (tf_code f)"
  obtain found s1 where take: "take_code lib (tf_code f) s = (found, s1)" by (rule prod.exhaust)
  note t = take_code_frame [OF take]
  have codes: "fmlookup (os_codes s1) k = (if k = ?k then None else fmlookup (os_codes s) k)" "os_cfg s1 = os_cfg s" using t(2) by simp_all
  show ?thesis
  proof (cases "check_code lib (os_cfg s) f found now")
    case (Inl e)
    obtain n x where e: "e = (n, x)" by (rule prod.exhaust)
    have "n = 400" using check_code_400 Inl e by simp
    moreover have "answer = Fails n x" "s' = s1" "toks' = toks"
      using assms take codes(2) Inl e False by (auto simp: exchangeCode_def)
    moreover have "\<not> good_code lib (os_cfg s) f now ac" if "fmlookup (os_codes s) ?k = Some ac" for ac
      using check_code_iff [of lib "os_cfg s" f found now ac] Inl t(1) that by auto
    ultimately show ?thesis using False codes(1) by (auto simp: good_code_def split: option.splits)
  next
    case (Inr ac)
    then have ac: "fmlookup (os_codes s) ?k = Some ac" "good_code lib (os_cfg s) f now ac"
      using check_code_iff t(1) by simp_all
    have "os_codes s' = os_codes s1" "\<forall>e. answer \<noteq> Fails 400 e"
      using assms take codes(2) Inr False by (auto simp: exchangeCode_def split: prod.splits sum.splits dest!: issueTokens_frame)
    with ac codes(1) False show ?thesis by (simp add: good_code_def)
  qed
qed

subsection \<open>Floods\<close>

lemma fm_list_values: "p \<in> set (map snd (fm_list m)) \<longleftrightarrow> (\<exists>i. fmlookup m i = Some p)"
  by (auto simp: image_iff bex_fm_list)

definition from_count :: "string \<Rightarrow> pending_request list \<Rightarrow> nat" where
  "from_count a ps = length (filter (\<lambda>p. pr_from p = a) ps)"

lemma count_from_inv:
  assumes "\<forall>p\<in>set ps. pr_from p \<noteq> []"
  shows "case foldl count_from (fmempty, []) ps of (count, most) \<Rightarrow>
    (\<forall>a. fm_get 0 count a = from_count a ps) \<and> (\<forall>a. from_count a ps \<le> from_count most ps) \<and>
    (ps \<noteq> [] \<longrightarrow> (\<exists>p\<in>set ps. pr_from p = most))"
  using assms
proof (induction ps rule: rev_induct)
  case Nil
  then show ?case by (simp add: from_count_def)
next
  case (snoc p ps)
  obtain count most where f: "foldl count_from (fmempty, []) ps = (count, most)" by (rule prod.exhaust)
  with snoc have IH: "\<And>a. fm_get 0 count a = from_count a ps" "\<And>a. from_count a ps \<le> from_count most ps"
    "ps \<noteq> [] \<Longrightarrow> \<exists>p\<in>set ps. pr_from p = most" by auto
  have step: "from_count a (ps @ [p]) = from_count a ps + (if pr_from p = a then 1 else 0)" for a
    by (simp add: from_count_def)
  show ?case
  proof (cases "ps = []")
    case True
    then show ?thesis using snoc.prems by (auto simp: from_count_def)
  next
    case False
    then obtain q where "q \<in> set ps" "pr_from q = most" using IH(3) by blast
    then have "most \<noteq> []" using snoc.prems by auto
    define c where "c = from_count (pr_from p) ps"
    define most' where "most' = (if c + 1 > from_count most (ps @ [p]) then pr_from p else most)"
    have "foldl count_from (fmempty, []) (ps @ [p]) = (fmupd (pr_from p) (c + 1) count, most')"
      using \<open>most \<noteq> []\<close> IH(1) by (simp add: f Let_def most'_def c_def step)
    moreover have "fm_get 0 (fmupd (pr_from p) (c + 1) count) a = from_count a (ps @ [p])" for a
      using IH(1) by (simp add: step c_def)
    moreover have "from_count a (ps @ [p]) \<le> from_count most' (ps @ [p])" for a
      using IH(2) [of a] IH(2) [of "pr_from p"] by (simp add: step most'_def c_def)
    moreover have "\<exists>q\<in>set (ps @ [p]). pr_from q = most'"
      using \<open>q \<in> set ps\<close> \<open>pr_from q = most\<close> by (auto simp: most'_def)
    ultimately show ?thesis by simp
  qed
qed


lemma count_from_some: "ps \<noteq> [] \<Longrightarrow> \<exists>p\<in>set ps. pr_from p = snd (foldl count_from (fmempty, []) ps)"
proof (induction ps rule: rev_induct)
  case (snoc p ps)
  obtain count most where f: "foldl count_from (fmempty, []) ps = (count, most)" by (rule prod.exhaust)
  show ?case
  proof (cases "ps = []")
    case False
    with snoc f show ?thesis by (auto simp: Let_def)
  qed (simp add: Let_def)
qed simp

lemma older_request_inv:
  "case foldl (older_request most) None ps of
     None \<Rightarrow> \<forall>p\<in>set ps. pr_from p \<noteq> most
   | Some q \<Rightarrow> q \<in> set ps \<and> pr_from q = most \<and> (\<forall>p\<in>set ps. pr_from p = most \<longrightarrow> pr_created q \<le> pr_created p)"
proof (induction ps rule: rev_induct)
  case (snoc p ps)
  then show ?case by (cases "foldl (older_request most) None ps") (auto split: option.splits)
qed simp

text \<open>The requests by their identifier, each under it.\<close>

definition keyed :: "(string, pending_request) fmap \<Rightarrow> bool" where
  "keyed m \<longleftrightarrow> (\<forall>i p. fmlookup m i = Some p \<longrightarrow> pr_id p = i)"

definition waiting_from :: "string \<Rightarrow> (string, pending_request) fmap \<Rightarrow> nat" where
  "waiting_from a m = from_count a (map snd (fm_list m))"

lemma keyed_within: "keyed m \<Longrightarrow> fm_within m' m \<Longrightarrow> keyed m'"
  by (simp add: keyed_def fm_within_def)

lemma dropOldest_gone:
  assumes "keyed m" and "m \<noteq> fmempty"
  shows "\<exists>i q. fmlookup m i = Some q \<and> dropOldestPending m = fmdrop i m \<and>
    pr_from q = snd (foldl count_from (fmempty, []) (map snd (fm_list m))) \<and>
    (\<forall>j p. fmlookup m j = Some p \<and> pr_from p = pr_from q \<longrightarrow> pr_created q \<le> pr_created p)"
proof -
  let ?ps = "map snd (fm_list m)"
  define most where "most = snd (foldl count_from (fmempty, []) ?ps)"
  obtain i p where "fmlookup m i = Some p" using assms(2) by (metis fmap_ext fmempty_lookup not_None_eq)
  then have "?ps \<noteq> []" using fm_list_values [of p m] by auto
  then have "\<exists>p\<in>set ?ps. pr_from p = most" using count_from_some unfolding most_def by blast
  then obtain q where q: "foldl (older_request most) None ?ps = Some q" "q \<in> set ?ps" "pr_from q = most"
    "\<forall>p\<in>set ?ps. pr_from p = most \<longrightarrow> pr_created q \<le> pr_created p"
    using older_request_inv [where most = most and ps = ?ps] by (auto split: option.splits)
  from q(2) obtain k where k: "fmlookup m k = Some q" using fm_list_values by metis
  then have "pr_id q = k" using assms(1) by (simp add: keyed_def)
  then have "dropOldestPending m = fmdrop k m" using q(1) by (simp add: dropOldestPending_def Let_def most_def)
  moreover have "pr_created q \<le> pr_created p" if "fmlookup m j = Some p" "pr_from p = pr_from q" for j p
    using q(3,4) that fm_list_values by metis
  ultimately show ?thesis using k q(3) unfolding most_def by blast
qed

lemma dropOldest_spec:
  assumes "keyed m" and "m \<noteq> fmempty" and "\<And>i p. fmlookup m i = Some p \<Longrightarrow> pr_from p \<noteq> []"
  shows "\<exists>i q. fmlookup m i = Some q \<and> dropOldestPending m = fmdrop i m \<and> (\<forall>a. waiting_from a m \<le> waiting_from (pr_from q) m) \<and>
    (\<forall>j p. fmlookup m j = Some p \<and> pr_from p = pr_from q \<longrightarrow> pr_created q \<le> pr_created p)"
proof -
  have named: "\<forall>p\<in>set (map snd (fm_list m)). pr_from p \<noteq> []" using assms(3) fm_list_values by metis
  then have "waiting_from a m \<le> waiting_from (snd (foldl count_from (fmempty, []) (map snd (fm_list m)))) m" for a
    using count_from_inv [OF named] unfolding waiting_from_def by (auto split: prod.splits)
  with dropOldest_gone [OF assms(1,2)] show ?thesis by metis
qed

lemma fcard_drop: "fmlookup m i = Some p \<Longrightarrow> fcard (fmdom m) = Suc (fcard (fmdom (fmdrop i m)))"
proof -
  assume "fmlookup m i = Some p"
  then have "fmdom m = finsert i (fmdom m |-| {|i|})" using fmdomI by fastforce
  then show ?thesis by (metis fcard_finsert_disjoint fminusE finsertI1 fmdom_drop)
qed

lemma fcard_within: "fm_within m m' \<Longrightarrow> fcard (fmdom m) \<le> fcard (fmdom m')"
  by (rule fcard_mono) (auto simp: fm_within_def fmlookup_dom_iff)

lemma fcard_upd: "fcard (fmdom (fmupd i p m)) \<le> Suc (fcard (fmdom m))"
  by (cases "i |\<in>| fmdom m") (simp_all add: finsert_absorb fcard_finsert_disjoint)

text \<open>At the cap one request goes, below it none.\<close>

lemma drop_pending_spec:
  assumes "keyed m" and "fcard (fmdom m) \<le> maxPendingRequests"
  defines "m' \<equiv> drop_pending (fcard (fmdom m)) m"
  shows "fcard (fmdom m') < maxPendingRequests" and "m' \<in> {m, dropOldestPending m}" and
    "m' = m \<or> fcard (fmdom m) = maxPendingRequests"
proof -
  have "fcard (fmdom m') < maxPendingRequests \<and> m' \<in> {m, dropOldestPending m} \<and> (m' = m \<or> fcard (fmdom m) = maxPendingRequests)"
  proof (cases "fcard (fmdom m) < maxPendingRequests")
    case True
    then have "drop_pending n m = m" for n by (cases n) simp_all
    with True show ?thesis by (simp add: m'_def)
  next
    case False
    with assms(2) have n: "fcard (fmdom m) = maxPendingRequests" by simp
    then have "m \<noteq> fmempty" by (auto simp: maxPendingRequests_def fcard_fempty)
    with dropOldest_gone [OF assms(1)] obtain i q where i: "fmlookup m i = Some q" "dropOldestPending m = fmdrop i m" by blast
    then have less: "fcard (fmdom (dropOldestPending m)) < maxPendingRequests" using fcard_drop [OF i(1)] n by simp
    then have "drop_pending k (dropOldestPending m) = dropOldestPending m" for k by (cases k) simp_all
    then have "drop_pending (Suc k) m = dropOldestPending m" for k using n by simp
    moreover obtain k where "fcard (fmdom m) = Suc k" using n by (auto simp: maxPendingRequests_def numeral_eq_Suc)
    ultimately have "m' = dropOldestPending m" by (simp add: m'_def)
    with less n show ?thesis by simp
  qed
  then show "fcard (fmdom m') < maxPendingRequests" "m' \<in> {m, dropOldestPending m}" "m' = m \<or> fcard (fmdom m) = maxPendingRequests"
    by blast+
qed


lemma add_pending_keyed: "keyed (os_pending s) \<Longrightarrow> keyed (os_pending (add_pending now p s))"
proof -
  assume k: "keyed (os_pending s)"
  note w = fm_within_trans [OF drop_pending_within sweeps_within(1)]
  from keyed_within [OF k w] show ?thesis by (simp add: add_pending_def Let_def keyed_def)
qed

lemma add_pending_count:
  assumes "keyed (os_pending s)" and "fcard (fmdom (os_pending s)) \<le> maxPendingRequests"
  shows "fcard (fmdom (os_pending (add_pending now p s))) \<le> maxPendingRequests"
proof -
  let ?m = "sweepPending now (os_pending s)"
  note w = sweeps_within(1) [of now "os_pending s"]
  have "fcard (fmdom ?m) \<le> maxPendingRequests" using fcard_within [OF w] assms(2) by simp
  from drop_pending_spec(1) [OF keyed_within [OF assms(1) w] this]
  have "fcard (fmdom (drop_pending (fcard (fmdom ?m)) ?m)) < maxPendingRequests" .
  with fcard_upd [of "pr_id p" p "drop_pending (fcard (fmdom ?m)) ?m"] show ?thesis
    by (simp add: add_pending_def Let_def)
qed

lemma authorize_pending:
  assumes "handleAuthorize lib verb addr form now fetched gone rnd written s = (answer, s')"
  shows "os_pending s' = os_pending s \<or> (\<exists>p. pr_from p = addr \<and> os_pending s' = os_pending (add_pending now p s))"
proof -
  let ?s = "s\<lparr>os_limiter := snd (win_Allow (''authorize:'' @ addr) now (os_limiter s))\<rparr>"
  have same: "os_pending (add_pending now p s1) = os_pending (add_pending now p s)" if "os_pending s1 = os_pending s" for p s1
    using that by (simp add: add_pending_def Let_def)
  show ?thesis
  proof (cases "\<exists>q c s1 redirect scopes resource req. form = Some q \<and>
      resolveClient lib (trim_space (aq_client_id q)) now fetched gone ?s = (Some c, s1) \<and>
      check_authorize lib (os_cfg s1) c q = Inr (redirect, scopes, resource) \<and> randomToken ''gsreq_'' rnd = Some req")
    case False
    then show ?thesis using assms
      by (auto simp: handleAuthorize_def Let_def split: if_splits option.splits prod.splits sum.splits dest!: resolve_frame)
  next
    case True
    then obtain q c s1 redirect scopes resource req where q: "form = Some q"
      and r: "resolveClient lib (trim_space (aq_client_id q)) now fetched gone ?s = (Some c, s1)"
      and k: "check_authorize lib (os_cfg s1) c q = Inr (redirect, scopes, resource)" and id: "randomToken ''gsreq_'' rnd = Some req"
      by blast
    let ?p = "\<lparr>pr_id = req, pr_client = c, pr_redirect = redirect, pr_state = aq_state q, pr_challenge = aq_challenge q,
      pr_resource = resource, pr_scopes = scopes, pr_created = now, pr_expires = now + oc_request_ttl (os_cfg s1), pr_from = addr\<rparr>"
    from resolve_frame [OF r] have "os_pending s1 = os_pending s" by simp
    note same = same [OF this, of ?p]
    have "os_pending s' = os_pending s \<or> os_pending s' = os_pending (add_pending now ?p s)"
      using assms q r k id same by (auto simp: handleAuthorize_def Let_def split: if_splits prod.splits)
    then show ?thesis
    proof
      assume "os_pending s' = os_pending (add_pending now ?p s)"
      then show ?thesis by (intro disjI2 exI [of _ ?p]) simp
    qed simp
  qed
qed


lemma pending_bounded_step:
  assumes "oauth_step lib s s'"
    and "keyed (os_pending (og_server s)) \<and> fcard (fmdom (os_pending (og_server s))) \<le> maxPendingRequests"
  shows "keyed (os_pending (og_server s')) \<and> fcard (fmdom (os_pending (og_server s'))) \<le> maxPendingRequests"
proof -
  have within: "keyed (os_pending o') \<and> fcard (fmdom (os_pending o')) \<le> maxPendingRequests"
    if "keyed (os_pending t) \<and> fcard (fmdom (os_pending t)) \<le> maxPendingRequests" "fm_within (os_pending o') (os_pending t)"
    for t o' :: oauth
    using that keyed_within fcard_within [OF that(2)] by auto
  show ?thesis
    using assms
  proof (induction rule: oauth_step.induct)
    case (Asked verb addr form now fetched gone rnd written s answer o')
    from authorize_pending [OF Asked(1)] Asked(2) add_pending_keyed add_pending_count show ?case by auto
  next
    case (Registered verb addr body now rnd written s result o' toks')
    then show ?case using register_frame [OF Registered(1)] by simp
  next
    case (Denied i s r o')
    have "fm_within (os_pending o') (os_pending (og_server s))" using deny_frame [OF Denied(1)] by auto
    from within [OF Denied(2) this] show ?case by simp
  next
    case (Approved i user username projects scopes now rnd s redirect code state o')
    from within [OF Approved(3)] show ?case using approve_frame(1) [OF Approved(1)] by simp
  next
    case (NotApproved i user username projects scopes now rnd s e o')
    from within [OF NotApproved(2)] show ?case using approve_frame(1) [OF NotApproved(1)] by simp
  next
    case (CodeTaken s n f found o' now ac)
    then show ?case using take_code_frame(2) [OF CodeTaken(2)] by simp
  next
    case (CodeRefused f s found o' now e)
    then show ?case using take_code_frame(2) [OF CodeRefused(1)] by simp
  next
    case (RoomForNew s n g now o')
    then show ?case using issue_room_frame(1) [OF RoomForNew(3)] by simp
  next
    case (RoomForRefresh s n g h now o')
    then show ?case using issue_room_frame(1) [OF RoomForRefresh(3)] by simp
  next
    case (NoRoom s n r g h now o')
    then show ?case using issue_room_frame(1) [OF NoRoom(4)] by simp
  next
    case (Restarted c f now o' s toks')
    then show ?case using new_oauth_empty [OF Restarted(1)] by (simp add: keyed_def fcard_fempty)
  qed auto
qed

lemma pending_bounded:
  "oauth_reachable lib s \<Longrightarrow> keyed (os_pending (og_server s)) \<and> fcard (fmdom (os_pending (og_server s))) \<le> maxPendingRequests"
proof (induction rule: oauth_reachable.induct)
  case (Started c f now o' f' toks)
  then show ?case using new_oauth_empty [OF Started(1)] by (simp add: keyed_def fcard_fempty new_oauth_sys_def)
next
  case (Step s s')
  from pending_bounded_step [OF Step(2,3)] show ?case .
qed

text \<open>C33: At most 1,000 requests wait for a consent in any reachable state, and after a new one is added. Besides the expired
  ones, nothing goes while there are fewer; at 1,000 exactly one goes: the oldest of an address that has the most. So a
  flood evicts its own requests, and no consent of a quieter address. (Every request waiting came with the address of its caller.)\<close>

theorem flood_evicts_its_own:
  assumes "oauth_reachable lib s" and "fmpred (\<lambda>i q. pr_from q \<noteq> []) (os_pending (og_server s))"
  shows "let m = sweepPending now (os_pending (og_server s)); m' = os_pending (add_pending now p (og_server s))
    in fcard (fmdom (os_pending (og_server s))) \<le> 1000 \<and> fcard (fmdom m') \<le> 1000 \<and>
      (if fcard (fmdom m) < 1000 then m' = fmupd (pr_id p) p m
       else \<exists>i q. fmlookup m i = Some q \<and> m' = fmupd (pr_id p) p (fmdrop i m) \<and>
         (\<forall>a. waiting_from a m \<le> waiting_from (pr_from q) m) \<and>
         (\<forall>j r. fmlookup m j = Some r \<and> pr_from r = pr_from q \<longrightarrow> pr_created q \<le> pr_created r))"
proof -
  define m where "m = sweepPending now (os_pending (og_server s))"
  have w: "fm_within m (os_pending (og_server s))" unfolding m_def by simp
  have bound: "keyed (os_pending (og_server s))" "fcard (fmdom (os_pending (og_server s))) \<le> maxPendingRequests"
    using pending_bounded [OF assms(1)] by auto
  have m: "keyed m" "fcard (fmdom m) \<le> maxPendingRequests"
    using bound keyed_within [OF _ w] fcard_within [OF w] by auto
  have new: "os_pending (add_pending now p (og_server s)) = fmupd (pr_id p) p (drop_pending (fcard (fmdom m)) m)"
    by (simp add: add_pending_def Let_def m_def)
  have "if fcard (fmdom m) < maxPendingRequests then drop_pending (fcard (fmdom m)) m = m
    else \<exists>i q. fmlookup m i = Some q \<and> drop_pending (fcard (fmdom m)) m = fmdrop i m \<and>
      (\<forall>a. waiting_from a m \<le> waiting_from (pr_from q) m) \<and>
      (\<forall>j r. fmlookup m j = Some r \<and> pr_from r = pr_from q \<longrightarrow> pr_created q \<le> pr_created r)"
  proof (cases "fcard (fmdom m) < maxPendingRequests")
    case False
    then have "drop_pending (fcard (fmdom m)) m \<noteq> m" using drop_pending_spec(1) [OF m] by auto
    then have d: "drop_pending (fcard (fmdom m)) m = dropOldestPending m" using drop_pending_spec(2) [OF m] by auto
    have "m \<noteq> fmempty" using False by (auto simp: maxPendingRequests_def fcard_fempty)
    moreover have "pr_from q \<noteq> []" if "fmlookup m i = Some q" for i q
      using assms(2) fm_withinD [OF w that] by (auto simp: fmpred_iff)
    ultimately show ?thesis using dropOldest_spec [OF m(1)] False d by force
  qed (use drop_pending_spec(3) [OF m] in auto)
  note drops = this [unfolded maxPendingRequests_def]
  have small: "fcard (fmdom (os_pending (og_server s))) \<le> 1000" "fcard (fmdom (os_pending (add_pending now p (og_server s)))) \<le> 1000"
    using bound(2) add_pending_count [OF bound, of now p] by (simp_all add: maxPendingRequests_def)
  show ?thesis
  proof (cases "fcard (fmdom m) < 1000")
    case True
    with drops small show ?thesis unfolding Let_def m_def [symmetric] by (simp add: new)
  next
    case False
    with drops obtain i q where "fmlookup m i = Some q" "drop_pending (fcard (fmdom m)) m = fmdrop i m"
      "\<forall>a. waiting_from a m \<le> waiting_from (pr_from q) m"
      "\<forall>j r. fmlookup m j = Some r \<and> pr_from r = pr_from q \<longrightarrow> pr_created q \<le> pr_created r" by auto
    with False small show ?thesis unfolding Let_def m_def [symmetric] by (auto simp: new intro!: exI [of _ i] exI [of _ q])
  qed
qed


subsection \<open>Clients\<close>





end
