(* ===== verification/OAuthSample.thy ===== *)
theory OAuthSample
  imports OAuthClaims
begin

text \<open>
  A connector that runs through the whole of the OAuth server: it asks for a consent, which is given, exchanges its
  code, refreshes once, and is revoked; the theorems of \<open>OAuthClaims\<close> at its states. And what two failed saves
  bring about.
\<close>

subsection \<open>The library and the server\<close>

definition sample_lib :: oauth_lib where
  "sample_lib =
     \<lparr>ol_url = (\<lambda>raw. case cut_prefix raw ''https://'' of
                  None \<Rightarrow> None
                | Some rest \<Rightarrow> (let h = takeWhile (\<lambda>c. c \<noteq> CHR ''/'') rest in
                    Some \<lparr>u_scheme = ''https'', u_host = h, u_hostname = h, u_path = drop (length h) rest, u_query = [], u_fragment = []\<rparr>)),
      ol_show_url = (\<lambda>u. u_scheme u @ ''://'' @ u_host u @ u_path u), ol_ip = (\<lambda>_. None), ol_show_ip = (\<lambda>_. []),
      ol_hash = (\<lambda>s. CHR ''#'' # s), ol_s256 = rev\<rparr>"

definition sample_cfg :: oauth_config where
  "sample_cfg =
     \<lparr>oc_issuer = ''https://n'', oc_resource_path = [], oc_consent_path = [], oc_access_ttl = 0, oc_refresh_ttl = 0, oc_code_ttl = 0,
      oc_request_ttl = 0, oc_client_max = 1, oc_client_idle = 0, oc_clients_path = ''clients.json'', oc_redirect_hosts = []\<rparr>"

definition connector :: client where
  "connector = \<lparr>cl_id = ''gsc_1'', cl_name = ''C'', cl_redirects = [''https://c/cb''], cl_created = 1, cl_last_used = 0, cl_cimd = False\<rparr>"

definition sample_clients :: clients_file where "sample_clients = Clients [Some connector]"

definition verifier :: string where "verifier = replicate 22 (CHR ''a'') @ replicate 21 (CHR ''b'')"

definition asking :: authorize_request where
  "asking = \<lparr>aq_client_id = ''gsc_1'', aq_redirect = ''https://c/cb'', aq_state = ''st'', aq_response_type = ''code'',
     aq_challenge = rev verifier, aq_challenge_method = ''S256'', aq_scope = [], aq_resource = []\<rparr>"

definition form :: token_form where
  "form = \<lparr>tf_grant_type = ''authorization_code'', tf_code = ''gsac_1'', tf_verifier = verifier, tf_client_id = ''gsc_1'',
     tf_redirect = [], tf_resource = [], tf_refresh = [], tf_scope = [], tf_token = []\<rparr>"

definition refreshing :: "string \<Rightarrow> token_form" where
  "refreshing h = form\<lparr>tf_grant_type := ''refresh_token'', tf_refresh := h\<rparr>"

definition conf :: oauth_config where
  "conf =
     \<lparr>oc_issuer = ''https://n'', oc_resource_path = ''/mcp'', oc_consent_path = ''/oauth/consent'', oc_access_ttl = hour,
      oc_refresh_ttl = 720 * hour, oc_code_ttl = 5 * minute, oc_request_ttl = 10 * minute, oc_client_max = 1,
      oc_client_idle = 2160 * hour, oc_clients_path = ''clients.json'', oc_redirect_hosts = []\<rparr>"

text \<open>The server when it starts, and once the connector has asked: its pending requests, codes, access tokens, consumed
  refresh tokens, and how often it issued.\<close>

definition new_server :: oauth where
  "new_server =
     \<lparr>os_cfg = conf,
      os_clients = (\<lparr>cs_path = ''clients.json'', cs_max = 1, cs_idle = 2160 * hour, cs_clients = fmupd ''gsc_1'' connector fmempty\<rparr>,
        sample_clients),
      os_cimd = fmempty, os_limiter = NewWindow (15 * minute) 30 1, os_pending = fmempty, os_codes = fmempty, os_access = fmempty,
      os_consumed = fmempty, os_issued = 0\<rparr>"

definition server_with ::
  "(string, pending_request) fmap \<Rightarrow> (string, auth_code) fmap \<Rightarrow> (string, access_entry) fmap \<Rightarrow> (string, consumed_refresh) fmap \<Rightarrow> int \<Rightarrow> oauth" where
  "server_with ps cs as rs n =
     new_server\<lparr>os_clients := (\<lparr>cs_path = ''clients.json'', cs_max = 1, cs_idle = 2160 * hour,
         cs_clients = fmupd ''gsc_1'' (connector\<lparr>cl_last_used := 1\<rparr>) fmempty\<rparr>, Clients [Some (connector\<lparr>cl_last_used := 1\<rparr>)]),
       os_limiter := snd (win_Allow ''authorize:a'' 1 (NewWindow (15 * minute) 30 1)),
       os_pending := ps, os_codes := cs, os_access := as, os_consumed := rs, os_issued := n\<rparr>"

definition request1 :: pending_request where
  "request1 = \<lparr>pr_id = ''gsreq_1'', pr_client = connector, pr_redirect = ''https://c/cb'', pr_state = ''st'', pr_challenge = rev verifier,
     pr_resource = [], pr_scopes = [ScopeRead, ScopeWrite], pr_created = 1, pr_expires = 1 + 10 * minute, pr_from = ''a''\<rparr>"

definition code1 :: auth_code where
  "code1 = \<lparr>ac_client = connector, ac_redirect = ''https://c/cb'', ac_challenge = rev verifier, ac_resource = [], ac_user = ''u'',
     ac_username = ''User'', ac_projects = [], ac_scopes = [ScopeRead, ScopeWrite], ac_expires = 1 + 5 * minute\<rparr>"

definition grant :: "string \<Rightarrow> token" where
  "grant h = \<lparr>tk_id = ''#grant:r'', tk_name = grant_name code1, tk_hash = ''#grant:r'', tk_created = 1, tk_expires = 1 + 720 * hour,
     tk_project = [], tk_projects = [], tk_scopes = [ScopeRead, ScopeWrite], tk_owner = ''u'', tk_self_improve = False, tk_profile = [],
     tk_kind = KindOAuth, tk_client = ''gsc_1'', tk_run = [], tk_write_paths = [], tk_refresh_hash = h,
     tk_refresh_expires = (if h = [] then 0 else 1 + 720 * hour), tk_last_used = 0\<rparr>"

definition kept_at :: "time \<Rightarrow> token list \<Rightarrow> token_sys" where
  "kept_at t ts = (\<lparr>ts_tokens = ts, ts_mtime = t\<rparr>, Present t (Some ts))"

definition access1 :: "(string, access_entry) fmap" where
  "access1 = fmupd ''#gsa_1'' \<lparr>ae_token = ''#grant:r'', ae_exp = 1 + hour\<rparr> fmempty"

definition consumed1 :: "(string, consumed_refresh) fmap" where
  "consumed1 = fmupd ''#gsr_1'' \<lparr>cr_token = ''#grant:r'', cr_exp = 1 + 720 * hour\<rparr> fmempty"

subsection \<open>The states\<close>

text \<open>The connector asks, the user agrees, and the code is taken.\<close>

definition oa0 :: oauth_sys where "oa0 = new_oauth_sys new_server (\<lparr>ts_tokens = [], ts_mtime = 0\<rparr>, Absent) 1"

definition oa1 :: oauth_sys where
  "oa1 = oa0\<lparr>og_server := server_with (fmupd ''gsreq_1'' request1 fmempty) fmempty fmempty fmempty 0\<rparr>"

definition consent1 :: consent where
  "consent1 = \<lparr>cs_request = request1, cs_user = ''u'', cs_scopes = [ScopeRead, ScopeWrite]\<rparr>"

definition oa2 :: oauth_sys where
  "oa2 = oa0\<lparr>og_server := server_with fmempty (fmupd ''#gsac_1'' code1 fmempty) fmempty fmempty 0, og_approved := [''#gsac_1'' \<mapsto> code1],
     og_consents := [''#gsac_1'' \<mapsto> consent1]\<rparr>"

definition oa3 :: oauth_sys where
  "oa3 = oa0\<lparr>og_server := server_with fmempty fmempty fmempty fmempty 0, og_approved := [''#gsac_1'' \<mapsto> code1],
     og_consents := [''#gsac_1'' \<mapsto> consent1], og_requests := [0 \<mapsto> Coded ''#gsac_1'' code1]\<rparr>"

text \<open>The exchange: the grant is created, and gets its first tokens.\<close>

definition oa4 :: oauth_sys where
  "oa4 = oa3\<lparr>og_tokens := kept_at 2 [grant []], og_origin := [''#grant:r'' \<mapsto> ''#gsac_1''], og_requests := [0 \<mapsto> Created (grant [])]\<rparr>"

definition oa5 :: oauth_sys where
  "oa5 = oa4\<lparr>og_server := server_with fmempty fmempty fmempty fmempty 1, og_requests := [0 \<mapsto> Fresh (grant [])]\<rparr>"

definition minted1 :: "string \<Rightarrow> (string \<times> time) option" where "minted1 = [''#gsr_1'' \<mapsto> (''#grant:r'', 1 + 720 * hour)]"

definition oa6 :: oauth_sys where
  "oa6 = oa5\<lparr>og_tokens := kept_at 3 [grant ''#gsr_1''], og_minted := minted1, og_requests := [0 \<mapsto> Adding ''#grant:r'' (1 + hour)]\<rparr>"

definition oa7 :: oauth_sys where
  "oa7 = oa6\<lparr>og_server := server_with fmempty fmempty access1 fmempty 1, og_accesses := [''#gsa_1'' \<mapsto> ''#grant:r''], og_requests := Map.empty\<rparr>"

text \<open>Two requests with the same refresh token; the first one rotates it.\<close>

definition oa8 :: oauth_sys where "oa8 = oa7\<lparr>og_requests := [0 \<mapsto> Found (grant ''#gsr_1'') ''#gsr_1'']\<rparr>"

definition oa9 :: oauth_sys where
  "oa9 = oa7\<lparr>og_requests := [0 \<mapsto> Found (grant ''#gsr_1'') ''#gsr_1'', 1 \<mapsto> Found (grant ''#gsr_1'') ''#gsr_1'']\<rparr>"

definition oa10 :: oauth_sys where
  "oa10 = oa7\<lparr>og_server := server_with fmempty fmempty access1 fmempty 2,
     og_requests := [0 \<mapsto> Roomy (grant ''#gsr_1'') ''#gsr_1'', 1 \<mapsto> Found (grant ''#gsr_1'') ''#gsr_1'']\<rparr>"

definition oa11 :: oauth_sys where
  "oa11 = oa7\<lparr>og_server := server_with fmempty fmempty access1 consumed1 2,
     og_requests := [0 \<mapsto> Marked (grant ''#gsr_1'') ''#gsr_1'', 1 \<mapsto> Found (grant ''#gsr_1'') ''#gsr_1'']\<rparr>"

text \<open>\<open>rotated s r\<close>: the first request rotated from \<open>s\<close>, and the second is at \<open>r\<close>.\<close>

definition rotated :: "oauth_sys \<Rightarrow> request \<Rightarrow> oauth_sys" where
  "rotated s r = s\<lparr>og_tokens := kept_at 4 [grant ''#gsr_2''], og_minted := minted1(''#gsr_2'' \<mapsto> (''#grant:r'', 1 + 720 * hour)),
     og_retired := {''#gsr_1''}, og_watched := {''#gsr_1''}, og_requests := [0 \<mapsto> Adding ''#grant:r'' (1 + hour), 1 \<mapsto> r]\<rparr>"

definition oa12 :: oauth_sys where "oa12 = rotated oa11 (Found (grant ''#gsr_1'') ''#gsr_1'')"

text \<open>The grant is revoked by its new refresh token.\<close>

definition oa13 :: oauth_sys where "oa13 = oa12\<lparr>og_requests := (og_requests oa12)(2 \<mapsto> Revoking ''#grant:r'')\<rparr>"

definition oa14 :: oauth_sys where
  "oa14 = oa12\<lparr>og_tokens := kept_at 5 [], og_gone := {''#grant:r''}, og_requests := (og_requests oa12)(2 \<mapsto> Dropping ''#grant:r'')\<rparr>"

text \<open>The second request marks the token too, and fails to save its rotation; the first one rotates; then the second one
  takes the mark back.\<close>

definition ob1 :: oauth_sys where
  "ob1 = oa7\<lparr>og_server := server_with fmempty fmempty access1 consumed1 3,
     og_requests := [0 \<mapsto> Marked (grant ''#gsr_1'') ''#gsr_1'', 1 \<mapsto> Roomy (grant ''#gsr_1'') ''#gsr_1'']\<rparr>"

definition ob2 :: oauth_sys where
  "ob2 = ob1\<lparr>og_requests := [0 \<mapsto> Marked (grant ''#gsr_1'') ''#gsr_1'', 1 \<mapsto> Marked (grant ''#gsr_1'') ''#gsr_1'']\<rparr>"

definition ob3 :: oauth_sys where
  "ob3 = ob1\<lparr>og_failed := {''#gsr_1''}, og_requests := [0 \<mapsto> Marked (grant ''#gsr_1'') ''#gsr_1'', 1 \<mapsto> Unmarking ''#gsr_1'']\<rparr>"

definition ob4 :: oauth_sys where "ob4 = rotated ob3 (Unmarking ''#gsr_1'')"

definition ob5 :: oauth_sys where
  "ob5 = ob4\<lparr>og_server := server_with fmempty fmempty access1 fmempty 3, og_requests := [0 \<mapsto> Adding ''#grant:r'' (1 + hour)]\<rparr>"

subsection \<open>They are reached\<close>

lemmas oa_defs = oa0_def oa1_def oa2_def oa3_def oa4_def oa5_def oa6_def oa7_def oa8_def oa9_def oa10_def oa11_def oa12_def oa13_def
  oa14_def ob1_def ob2_def ob3_def ob4_def ob5_def rotated_def new_oauth_sys_def

lemma no_request [simp]: "Map.empty(n := None) = Map.empty"
  by auto

lemma fst_is: "fst x = a \<Longrightarrow> x = (a, snd x)"
  by (cases x) simp

lemma step_to: "oauth_step lib s x \<Longrightarrow> x = s' \<Longrightarrow> oauth_step lib s s'"
  by simp

lemma grant_parts [simp]: "tk_id (grant h) = ''#grant:r''" "h \<noteq> [] \<Longrightarrow> tk_refresh_expires (grant h) = 1 + 720 * hour"
  by (simp_all add: grant_def)

lemma hash [simp]: "ol_hash sample_lib s = CHR ''#'' # s"
  by (simp add: sample_lib_def)

lemma oa0_reached: "oauth_reachable sample_lib oa0"
  unfolding oa0_def
proof (rule oauth_reachable.Started)
  show "new_oauth sample_lib sample_cfg sample_clients 1 = Inr new_server" by code_simp
  show "tok_open Absent = Some (\<lparr>ts_tokens = [], ts_mtime = 0\<rparr>, Absent)" by (simp add: tok_open_def)
qed (simp_all add: tokens_of_def)

lemma oa1_step: "oauth_step sample_lib oa0 oa1"
proof -
  have "handleAuthorize sample_lib ''GET'' ''a'' (Some asking) 1 None False (Some ''1'') True new_server =
    (ToConsent ''gsreq_1'', server_with (fmupd ''gsreq_1'' request1 fmempty) fmempty fmempty fmempty 0)" by code_simp
  with Asked [of sample_lib _ _ _ _ _ _ _ _ oa0] show ?thesis by (simp add: oa1_def) (simp add: oa0_def new_oauth_sys_def)
qed

lemma oa2_step: "oauth_step sample_lib oa1 oa2"
proof -
  have a: "Approve sample_lib ''gsreq_1'' ''u'' ''User'' [] [ScopeRead, ScopeWrite] 1 (Some ''1'') (og_server oa1) =
    (Inr (''https://c/cb'', ''gsac_1'', ''st''), server_with fmempty (fmupd ''#gsac_1'' code1 fmempty) fmempty fmempty 0)" by code_simp
  have "og_approved oa1 (ol_hash sample_lib ''gsac_1'') = None" by (simp add: oa_defs)
  from Approved [OF a this] show ?thesis by (simp add: oa_defs server_with_def consent1_def)
qed

lemma oa3_step: "oauth_step sample_lib oa2 oa3"
proof -
  have free: "og_requests oa2 0 = None" by (simp add: oa_defs)
  have take: "take_code sample_lib (tf_code form) (og_server oa2) = (Some code1, server_with fmempty fmempty fmempty fmempty 0)" by code_simp
  have "check_code sample_lib (os_cfg (server_with fmempty fmempty fmempty fmempty 0)) form (Some code1) 1 = Inr code1" by code_simp
  from CodeTaken [OF free take this] show ?thesis by (simp add: oa_defs form_def)
qed

lemma oa4_step: "oauth_step sample_lib oa3 oa4"
proof -
  have r: "og_requests oa3 0 = Some (Coded ''#gsac_1'' code1)" by (simp add: oa3_def)
  have c: "create_grant sample_lib (os_cfg (og_server oa3)) code1 ''r'' 1 (Saved 2 True) (og_tokens oa3) = (Inr (grant []), kept_at 2 [grant []])"
    by code_simp
  have "og_origin oa3 (tk_id (grant [])) = None" "tk_id (grant []) \<notin> tk_id ` set (tokens_of (og_tokens oa3))"
    by (simp_all add: oa_defs tokens_of_def)
  from GrantCreated [OF r c this] show ?thesis by (simp add: oa_defs grant_def)
qed

lemma room_at:
  assumes "a = fmempty \<or> a = access1" and "0 \<le> n" and "n < 200"
  shows "issue_room 1 (server_with p c a k n) = (True, server_with p c a k (n + 1))"
proof -
  have "fcard (fmdom a) \<le> 1" using assms(1) by (auto simp: access1_def fcard_finsert_if fcard_fempty)
  then have "fcard (fmdom a) < maxAccessEntries" by (simp add: maxAccessEntries_def)
  moreover have "(n + 1) mod sweepEvery \<noteq> 0" using assms(2,3) by (simp add: sweepEvery_def)
  ultimately show ?thesis by (simp add: issue_room_def server_with_def Let_def)
qed

lemma oa5_step: "oauth_step sample_lib oa4 oa5"
proof -
  have i: "issue_room 1 (og_server oa4) = (True, server_with fmempty fmempty fmempty fmempty 1)" using room_at by (simp add: oa_defs)
  have "og_requests oa4 0 = Some (Created (grant []))" "1 \<le> og_clock oa4" by (simp_all add: oa_defs)
  from RoomForNew [OF this i] show ?thesis by (simp add: oa_defs)
qed

lemma oa6_step: "oauth_step sample_lib oa5 oa6"
proof -
  have r: "og_requests oa5 0 = Some (Fresh (grant []))" "og_minted oa5 ''#gsr_1'' = None" by (simp_all add: oa_defs)
  have e: "refresh_end oa5 (grant []) 1 = 1 + 720 * hour" "access_end oa5 (grant []) 1 = 1 + hour" by code_simp+
  have "SetRefresh (tk_id (grant [])) ''#gsr_1'' (refresh_end oa5 (grant []) 1) (Saved 3 True) (og_tokens oa5) = (Inr (), kept_at 3 [grant ''#gsr_1''])"
    by code_simp
  from RefreshSet [OF r this] show ?thesis
    by (rule step_to) (rule oauth_sys.equality, simp_all add: e minted1_def, simp_all add: oa_defs minted1_def)
qed

lemma oa7_step: "oauth_step sample_lib oa6 oa7"
proof -
  have "og_requests oa6 0 = Some (Adding ''#grant:r'' (1 + hour))" "og_accesses oa6 ''#gsa_1'' = None" by (simp_all add: oa_defs)
  then show ?thesis
    by (intro step_to [OF AccessAdded] oauth_sys.equality) (auto simp: oa_defs server_with_def add_access_def access1_def)
qed

lemma found1:
  "ByRefreshHash ''#gsr_1'' (kept_at 3 [grant ''#gsr_1'']) = (Some (grant ''#gsr_1''), kept_at 3 [grant ''#gsr_1''])"
  "check_refresh sample_lib conf (refreshing ''gsr_1'') (grant ''#gsr_1'') 1 = None"
  by code_simp+

lemma oa8_step: "oauth_step sample_lib oa7 oa8"
  by (intro step_to [OF RefreshFound [of oa7 0 "''#gsr_1''" "grant ''#gsr_1''" "kept_at 3 [grant ''#gsr_1'']" sample_lib "refreshing ''gsr_1''" 1]] oauth_sys.equality)
     (auto simp: oa_defs found1 server_with_def new_server_def)

lemma oa9_step: "oauth_step sample_lib oa8 oa9"
  by (intro step_to [OF RefreshFound [of oa8 1 "''#gsr_1''" "grant ''#gsr_1''" "kept_at 3 [grant ''#gsr_1'']" sample_lib "refreshing ''gsr_1''" 1]] oauth_sys.equality)
     (auto simp: oa_defs found1 server_with_def new_server_def)

lemma oa10_step: "oauth_step sample_lib oa9 oa10"
proof -
  have i: "issue_room 1 (og_server oa9) = (True, server_with fmempty fmempty access1 fmempty 2)" using room_at by (simp add: oa_defs)
  have "og_requests oa9 0 = Some (Found (grant ''#gsr_1'') ''#gsr_1'')" "1 \<le> og_clock oa9" by (simp_all add: oa_defs)
  from RoomForRefresh [OF this i] show ?thesis by (rule step_to) (intro oauth_sys.equality, auto simp: oa_defs)
qed

lemma oa11_step: "oauth_step sample_lib oa10 oa11"
proof -
  have "og_requests oa10 0 = Some (Roomy (grant ''#gsr_1'') ''#gsr_1'')" by (simp add: oa_defs)
  from RefreshMarked [OF this] show ?thesis
    by (rule step_to) (intro oauth_sys.equality, auto simp: oa_defs mark_consumed_def server_with_def consumed1_def)
qed

text \<open>The first request rotates.\<close>

lemma rotated_step:
  assumes "og_requests s = [0 \<mapsto> Marked (grant ''#gsr_1'') ''#gsr_1'', 1 \<mapsto> r]" and "og_tokens s = kept_at 3 [grant ''#gsr_1'']"
    and "og_minted s = minted1" and "os_cfg (og_server s) = conf" and "og_retired s = {}" "og_watched s = {}"
  shows "oauth_step sample_lib s (rotated s r)"
proof -
  have r: "og_requests s 0 = Some (Marked (grant ''#gsr_1'') ''#gsr_1'')" "og_minted s ''#gsr_2'' = None"
    using assms(1,3) by (simp_all add: minted1_def)
  have e: "refresh_end s (grant ''#gsr_1'') 1 = 1 + 720 * hour" "access_end s (grant ''#gsr_1'') 1 = 1 + hour"
    using assms(4) by (simp_all add: refresh_end_def access_end_def capped_by_grant_def conf_def grant_def)
  have "RotateRefresh (tk_id (grant ''#gsr_1'')) ''#gsr_1'' ''#gsr_2'' (1 + 720 * hour) (Saved 4 True) (kept_at 3 [grant ''#gsr_1'']) =
    (Inr (), kept_at 4 [grant ''#gsr_2''])" by code_simp
  with assms(2) e have "RotateRefresh (tk_id (grant ''#gsr_1'')) ''#gsr_1'' ''#gsr_2'' (refresh_end s (grant ''#gsr_1'') 1) (Saved 4 True) (og_tokens s) =
    (Inr (), kept_at 4 [grant ''#gsr_2''])" by simp
  from Rotated [OF r this] show ?thesis
    by (rule step_to) (intro oauth_sys.equality, use assms e in \<open>auto simp: rotated_def\<close>)
qed

lemma oa12_step: "oauth_step sample_lib oa11 oa12"
  unfolding oa12_def by (rule rotated_step) (simp_all add: oa_defs server_with_def new_server_def)

lemma oa13_step: "oauth_step sample_lib oa12 oa13"
proof -
  have f: "ByRefreshHash ''#gsr_2'' (og_tokens oa12) = (Some (grant ''#gsr_2''), kept_at 4 [grant ''#gsr_2''])" by code_simp
  have "og_requests oa12 2 = None" by (simp add: oa_defs)
  from RevokeAsked [OF this f] show ?thesis by (rule step_to) (intro oauth_sys.equality, auto simp: oa_defs)
qed

lemma oa14_step: "oauth_step sample_lib oa13 oa14"
proof -
  have f: "Revoke ''#grant:r'' (Saved 5 True) (og_tokens oa13) = (Inr (), kept_at 5 [])" by code_simp
  have "og_requests oa13 2 = Some (Revoking ''#grant:r'')" by (simp add: oa13_def)
  from GrantRevoked [OF this f] show ?thesis by (rule step_to) (intro oauth_sys.equality, auto simp: oa_defs)
qed

lemma ob1_step: "oauth_step sample_lib oa11 ob1"
proof -
  have i: "issue_room 1 (og_server oa11) = (True, server_with fmempty fmempty access1 consumed1 3)" using room_at by (simp add: oa_defs)
  have "og_requests oa11 1 = Some (Found (grant ''#gsr_1'') ''#gsr_1'')" "1 \<le> og_clock oa11" by (simp_all add: oa_defs)
  from RoomForRefresh [OF this i] show ?thesis by (rule step_to) (intro oauth_sys.equality, auto simp: oa_defs)
qed

lemma ob2_step: "oauth_step sample_lib ob1 ob2"
proof -
  have "og_requests ob1 1 = Some (Roomy (grant ''#gsr_1'') ''#gsr_1'')" by (simp add: oa_defs)
  from RefreshMarked [OF this] show ?thesis
    by (rule step_to) (intro oauth_sys.equality, auto simp: oa_defs mark_consumed_def server_with_def consumed1_def)
qed

lemma ob3_step: "oauth_step sample_lib ob2 ob3"
proof -
  have f: "RotateRefresh ''#grant:r'' ''#gsr_1'' ''#gsr_3'' 2 SaveFails (og_tokens ob2) = (Inl AuthSaveFailed, kept_at 3 [grant ''#gsr_1''])" by code_simp
  have ne: "AuthSaveFailed \<noteq> RefreshRotated" by simp
  from f have f': "RotateRefresh (tk_id (grant ''#gsr_1'')) ''#gsr_1'' ''#gsr_3'' 2 SaveFails (og_tokens ob2) = (Inl AuthSaveFailed, kept_at 3 [grant ''#gsr_1''])"
    by simp
  have "og_requests ob2 1 = Some (Marked (grant ''#gsr_1'') ''#gsr_1'')" by (simp add: oa_defs)
  from RotateFailed [OF this f' ne] show ?thesis by (rule step_to) (intro oauth_sys.equality, auto simp: oa_defs)
qed

lemma ob4_step: "oauth_step sample_lib ob3 ob4"
  unfolding ob4_def by (rule rotated_step) (simp_all add: oa_defs server_with_def new_server_def)

lemma ob5_step: "oauth_step sample_lib ob4 ob5"
proof -
  have u: "unmark_consumed ''#gsr_1'' (og_server ob4) = server_with fmempty fmempty access1 fmempty 3" by code_simp
  have "og_requests ob4 1 = Some (Unmarking ''#gsr_1'')" by (simp add: oa_defs)
  from MarkTakenBack [OF this] show ?thesis
    by (rule step_to) (intro oauth_sys.equality, simp_all add: u ob5_def, auto simp: oa_defs)
qed

lemma oa7_reached: "oauth_reachable sample_lib oa7"
  by (intro oauth_reachable.Step [OF _ oa7_step] oauth_reachable.Step [OF _ oa6_step] oauth_reachable.Step [OF _ oa5_step]
    oauth_reachable.Step [OF _ oa4_step] oauth_reachable.Step [OF _ oa3_step] oauth_reachable.Step [OF _ oa2_step]
    oauth_reachable.Step [OF oa0_reached oa1_step])

lemma oa11_reached: "oauth_reachable sample_lib oa11"
  by (intro oauth_reachable.Step [OF _ oa11_step] oauth_reachable.Step [OF _ oa10_step] oauth_reachable.Step [OF _ oa9_step]
    oauth_reachable.Step [OF oa7_reached oa8_step])

lemma oa14_reached: "oauth_reachable sample_lib oa12" "oauth_reachable sample_lib oa14"
proof -
  show 12: "oauth_reachable sample_lib oa12" by (rule oauth_reachable.Step [OF oa11_reached oa12_step])
  show "oauth_reachable sample_lib oa14" by (rule oauth_reachable.Step [OF oauth_reachable.Step [OF 12 oa13_step] oa14_step])
qed

lemma ob5_reached: "oauth_reachable sample_lib ob5"
  by (intro oauth_reachable.Step [OF _ ob5_step] oauth_reachable.Step [OF _ ob4_step] oauth_reachable.Step [OF _ ob3_step]
    oauth_reachable.Step [OF _ ob2_step] oauth_reachable.Step [OF oa11_reached ob1_step])

subsection \<open>The theorems at these states\<close>

definition draws1 :: draws where
  "draws1 = \<lparr>dr_grant = ''r'', dr_access = Some ''9'', dr_refresh = Some ''9'', dr_grant_save = Saved 6 True, dr_refresh_save = Saved 7 True,
     dr_revoke_save = Saved 8 True\<rparr>"

lemma access_approved_witness:
  "fst (Resolve sample_lib ''gsa_1'' 2 SaveFails (og_server oa7, og_tokens oa7)) = Some (grant ''#gsr_1'') \<and>
   {i. og_origin oa7 i = Some ''#gsac_1''} = {''#grant:r''}"
proof -
  have "fst (Resolve sample_lib ''gsa_1'' 2 SaveFails (og_server oa7, og_tokens oa7)) = Some (grant ''#gsr_1'')" by code_simp
  from access_approved [OF oa7_reached fst_is [OF this]] this show ?thesis by (auto simp: oa_defs)
qed

lemma refresh_token_once_witness: "''#gsr_1'' \<in> og_retired oa12 \<and> fst (ByRefreshHash ''#gsr_1'' (og_tokens oa12)) = None"
proof -
  have "''#gsr_1'' \<in> og_retired oa12" by (simp add: oa_defs)
  with refresh_token_once [OF oa14_reached(1) this] show ?thesis by blast
qed

lemma reuse_revokes_witness:
  "fst (refreshGrant sample_lib (refreshing ''gsr_1'') 2 draws1 (og_server oa12, og_tokens oa12)) = Fails 400 ''invalid_grant'' \<and>
   tokens_of (snd (snd (refreshGrant sample_lib (refreshing ''gsr_1'') 2 draws1 (og_server oa12, og_tokens oa12)))) = []"
proof -
  let ?r = "refreshGrant sample_lib (refreshing ''gsr_1'') 2 draws1 (og_server oa12, og_tokens oa12)"
  have h: "ol_hash sample_lib (tf_refresh (refreshing ''gsr_1'')) = ''#gsr_1''" by (simp add: refreshing_def)
  have "tokens_of (snd (snd ?r)) = []" by code_simp
  moreover have "fst ?r = Fails 400 ''invalid_grant'' \<and> ''#grant:r'' \<notin> tk_id ` set (tokens_of (snd (snd ?r))) \<and>
    (\<forall>k a. fmlookup (os_access (fst (snd ?r))) k \<noteq> Some \<lparr>ae_token = ''#grant:r'', ae_exp = a\<rparr>)"
  proof (rule reuse_revokes [OF oa14_reached(1), of "refreshing ''gsr_1''", unfolded h])
    show "og_minted oa12 ''#gsr_1'' = Some (''#grant:r'', 1 + 720 * hour)" by (simp add: oa_defs minted1_def)
    show "?r = (fst ?r, fst (snd ?r), snd (snd ?r))" by simp
    show "trim_space (tf_client_id (refreshing ''gsr_1'')) \<noteq> []" by code_simp
  qed (simp_all add: oa_defs refreshing_def)
  ultimately show ?thesis by simp
qed

lemma revoked_grant_is_dead_witness:
  "''#grant:r'' \<in> og_gone oa14 \<and>
   fst (Resolve sample_lib ''gsa_1'' 2 SaveFails (og_server oa14, og_tokens oa14)) \<noteq> Some (grant ''#gsr_2'')"
proof -
  have g: "''#grant:r'' \<in> og_gone oa14" by (simp add: oa_defs)
  from revoked_grant_is_dead [OF oa14_reached(2) g rtranclp.rtrancl_refl, of "''gsa_1''" 2 SaveFails "grant ''#gsr_2''" "[]"] g
  show ?thesis by (auto simp: grant_def)
qed

lemma answers_is:
  "(case fst x of Fails _ _ \<Rightarrow> False | Answers _ \<Rightarrow> True) \<Longrightarrow> \<exists>resp. x = (Answers resp, fst (snd x), snd (snd x))"
  by (cases x; cases "fst x") simp_all

lemma code_needs_its_verifier_witness:
  "fmlookup (os_codes (og_server oa2)) ''#gsac_1'' = Some code1 \<and>
   fmlookup (os_codes (fst (snd (exchangeCode sample_lib form 2 draws1 (og_server oa2, og_tokens oa2))))) ''#gsac_1'' = None \<and>
   ol_s256 sample_lib (tf_verifier form) = ac_challenge code1"
proof -
  let ?x = "exchangeCode sample_lib form 2 draws1 (og_server oa2, og_tokens oa2)"
  have c: "fmlookup (os_codes (og_server oa2)) ''#gsac_1'' = Some code1" by code_simp
  have take: "take_code sample_lib ''gsac_1'' (og_server oa2) = (Some code1, server_with fmempty fmempty fmempty fmempty 0)" by code_simp
  have ver: "verifier \<noteq> []" by (simp add: verifier_def)
  have trim: "trim_space ''gsc_1'' \<noteq> []" by code_simp
  have chk: "check_code sample_lib conf form (Some code1) 2 = Inr code1" by code_simp
  have new: "create_grant sample_lib conf code1 ''r'' 2 (Saved 6 True) (og_tokens oa2) =
    (Inr ((grant [])\<lparr>tk_created := 2, tk_expires := 2 + 720 * hour\<rparr>), kept_at 6 [(grant [])\<lparr>tk_created := 2, tk_expires := 2 + 720 * hour\<rparr>])" by code_simp
  have "\<not> isl (fst (issueTokens sample_lib ((grant [])\<lparr>tk_created := 2, tk_expires := 2 + 720 * hour\<rparr>) [] 2 (Some ''9'') (Some ''9'') (Saved 7 True)
    (server_with fmempty fmempty fmempty fmempty 0, kept_at 6 [(grant [])\<lparr>tk_created := 2, tk_expires := 2 + 720 * hour\<rparr>])))" by code_simp
  then have "case fst ?x of Fails _ _ \<Rightarrow> False | Answers _ \<Rightarrow> True"
    using take chk new trim ver by (auto simp: exchangeCode_def draws1_def form_def server_with_def new_server_def split: sum.splits prod.splits)
  from answers_is [OF this] obtain resp where a: "?x = (Answers resp, fst (snd ?x), snd (snd ?x))" by (rule exE)
  have "trim_space (tf_client_id form) \<noteq> []" by code_simp
  with code_needs_its_verifier [OF a, of "''#gsac_1''"] c show ?thesis by (simp add: form_def verifier_def split: if_splits)
qed

text \<open>A second client registers at a server that takes one: the connector goes, unless it has a live grant.\<close>

definition newcomer :: client where
  "newcomer = \<lparr>cl_id = ''gsc_2'', cl_name = ''D'', cl_redirects = [''https://d/cb''], cl_created = 2, cl_last_used = 0, cl_cimd = False\<rparr>"


subsection \<open>Failed saves\<close>

text \<open>A replay that is not noticed: of two requests with one refresh token, the second one fails to save its rotation
  before the first one rotates, and takes the mark of the first one back. The token that was rotated away is then an
  unknown one: presented again, it revokes nothing, and the grant's new refresh token stays good.\<close>

theorem failed_rotation_hides_reuse:
  "oauth_reachable sample_lib ob5 \<and> ''#gsr_1'' \<in> og_watched ob5 \<and>
   refreshGrant sample_lib (refreshing ''gsr_1'') 2 draws1 (og_server ob5, og_tokens ob5) =
     (Fails 400 ''invalid_grant'', og_server ob5, og_tokens ob5) \<and>
   ByRefreshHash ''#gsr_2'' (og_tokens ob5) = (Some (grant ''#gsr_2''), og_tokens ob5)"
proof -
  have "refreshGrant sample_lib (refreshing ''gsr_1'') 2 draws1 (og_server ob5, og_tokens ob5) =
    (Fails 400 ''invalid_grant'', og_server ob5, og_tokens ob5)" by code_simp
  moreover have "ByRefreshHash ''#gsr_2'' (og_tokens ob5) = (Some (grant ''#gsr_2''), og_tokens ob5)" by code_simp
  moreover have "''#gsr_1'' \<in> og_watched ob5" by (simp add: oa_defs)
  ultimately show ?thesis using ob5_reached by blast
qed

text \<open>A revocation that a restart undoes: when its save fails, the endpoint answers 200 all the same, and the refresh token
  it revoked is good again once the server has restarted.\<close>

definition revoking :: token_form where "revoking = form\<lparr>tf_token := ''gsr_1''\<rparr>"

theorem failed_revocation_undone:
  "oauth_reachable sample_lib oa7 \<and>
   (case handleRevoke sample_lib ''POST'' ''b'' (Some revoking) 2 SaveFails (og_server oa7, og_tokens oa7) of
      (answer, s, toks) \<Rightarrow>
        answer = Answers () \<and> tokens_of toks = [] \<and>
        map_option (\<lambda>toks. fst (ByRefreshHash ''#gsr_1'' toks)) (tok_open (snd toks)) = Some (Some (grant ''#gsr_1'')))"
proof -
  have "case handleRevoke sample_lib ''POST'' ''b'' (Some revoking) 2 SaveFails (og_server oa7, og_tokens oa7) of
      (answer, s, toks) \<Rightarrow>
        answer = Answers () \<and> tokens_of toks = [] \<and>
        map_option (\<lambda>toks. fst (ByRefreshHash ''#gsr_1'' toks)) (tok_open (snd toks)) = Some (Some (grant ''#gsr_1''))"
    by code_simp
  with oa7_reached show ?thesis by blast
qed



text \<open>A client whose grant is alive goes all the same once it was idle for long enough.\<close>

theorem granted_client_evicted:
  "''gsc_1'' |\<in>| fst (grantedClients (700 * hour) (og_tokens oa7)) \<and>
   (case clients_add newcomer (700 * hour) (grantedClients (700 * hour)) True (og_tokens oa7)
       (case os_clients (og_server oa7) of (cs, f) \<Rightarrow> (cs\<lparr>cs_idle := 240 * hour\<rparr>, f)) of
      (err, toks, cs, f) \<Rightarrow> err = None \<and> fmlookup (cs_clients cs) ''gsc_1'' = None)"
proof
  show "''gsc_1'' |\<in>| fst (grantedClients (700 * hour) (og_tokens oa7))" by code_simp
  show "case clients_add newcomer (700 * hour) (grantedClients (700 * hour)) True (og_tokens oa7)
       (case os_clients (og_server oa7) of (cs, f) \<Rightarrow> (cs\<lparr>cs_idle := 240 * hour\<rparr>, f)) of
      (err, toks, cs, f) \<Rightarrow> err = None \<and> fmlookup (cs_clients cs) ''gsc_1'' = None" by code_simp
qed

end
