(* ===== verification/OAuthFlood.thy ===== *)
theory OAuthFlood
  imports OAuthSample
begin

text \<open>
  A flood of requests for a consent, one from each of a thousand addresses: the cap is reached, and the next
  request makes room.
\<close>

definition nth_addr :: "nat \<Rightarrow> string" where "nth_addr n = replicate (Suc n) (CHR ''a'')"

definition rq_id :: "nat \<Rightarrow> string" where "rq_id n = ''gsreq_'' @ replicate n (CHR ''x'')"

lemma nth_addr_inj [simp]: "nth_addr i = nth_addr j \<longleftrightarrow> i = j" "nth_addr i \<noteq> []"
  by (auto simp: nth_addr_def dest: arg_cong [of _ _ length])

lemma rq_id_inj [simp]: "rq_id i = rq_id j \<longleftrightarrow> i = j"
  by (auto simp: rq_id_def dest: arg_cong [of _ _ length])

text \<open>The server once it was asked from the first \<open>n\<close> addresses.\<close>

definition flooded :: "nat \<Rightarrow> oauth \<Rightarrow> bool" where
  "flooded n s \<longleftrightarrow>
     os_cfg s = conf \<and>
     (\<exists>c. fmlookup (cs_clients (fst (os_clients s))) ''gsc_1'' = Some c \<and> cl_redirects c = [''https://c/cb''] \<and> \<not> cl_cimd c \<and> cl_id c = ''gsc_1'') \<and>
     wn_window (os_limiter s) = 15 * minute \<and> wn_max (os_limiter s) = 30 \<and> wn_last_sweep (os_limiter s) = 1 \<and>
     (\<forall>j\<ge>n. fmlookup (wn_events (os_limiter s)) (''authorize:'' @ nth_addr j) = None) \<and>
     fmdom (os_pending s) = fset_of_list (map rq_id [0..<n]) \<and>
     (\<forall>i p. fmlookup (os_pending s) i = Some p \<longrightarrow> pr_from p \<noteq> [] \<and> 1 < pr_expires p)"

lemma nobody_expired:
  assumes "\<forall>i p. fmlookup m i = Some p \<longrightarrow> 1 < pr_expires p"
  shows "sweepPending 1 m = m"
proof (rule fmap_ext)
  fix i
  show "fmlookup (sweepPending 1 m) i = fmlookup m i"
    using assms [rule_format, of i] by (cases "fmlookup m i") (simp_all add: sweepPending_def fm_lookups)
qed

lemma asking_parts: "trim_space (aq_redirect asking) = ''https://c/cb''" "trim_space (aq_client_id asking) = ''gsc_1''"
  by code_simp+

lemma check_asking:
  assumes "cl_redirects c = [''https://c/cb'']"
  shows "check_authorize sample_lib conf c asking = Inr (''https://c/cb'', [ScopeRead, ScopeWrite], [])"
proof -
  have "check_authorize sample_lib conf connector asking = Inr (''https://c/cb'', [ScopeRead, ScopeWrite], [])" by code_simp
  moreover have "check_authorize sample_lib conf c asking = check_authorize sample_lib conf connector asking"
    using assms by (simp add: check_authorize_def presented_redirect_def asking_parts matchRedirect_def connector_def)
  ultimately show ?thesis by simp
qed

lemma card_rq: "fcard (fset_of_list (map rq_id [0..<n])) = n"
  by (simp add: fcard.rep_eq fset_of_list.rep_eq card_image inj_on_def)

lemma flood_step:
  assumes "flooded n s" and "n < 1000"
  shows "flooded (Suc n) (snd (handleAuthorize sample_lib ''GET'' (nth_addr n) (Some asking) 1 None False (Some (replicate n (CHR ''x''))) True s))"
proof -
  obtain c where c: "fmlookup (cs_clients (fst (os_clients s))) ''gsc_1'' = Some c" "cl_redirects c = [''https://c/cb'']" "\<not> cl_cimd c"
    "cl_id c = ''gsc_1''" using assms(1) by (auto simp: flooded_def)
  let ?k = "''authorize:'' @ nth_addr n"
  let ?l = "os_limiter s\<lparr>wn_events := fmupd ?k [1] (wn_events (os_limiter s))\<rparr>"
  have l: "win_Allow ?k 1 (os_limiter s) = (True, ?l)"
    using assms(1) by (simp add: flooded_def win_Allow_def Let_def fm_get_def)
  let ?p = "\<lparr>pr_id = rq_id n, pr_client = c, pr_redirect = ''https://c/cb'', pr_state = aq_state asking, pr_challenge = aq_challenge asking,
    pr_resource = [], pr_scopes = [ScopeRead, ScopeWrite], pr_created = 1, pr_expires = 1 + oc_request_ttl conf, pr_from = nth_addr n\<rparr>"
  have sw: "sweepPending 1 (os_pending s) = os_pending s" using assms(1) by (intro nobody_expired) (simp add: flooded_def)
  have "fcard (fmdom (os_pending s)) = n" using assms(1) by (simp add: flooded_def card_rq del: fset_of_list_map)
  then have room: "drop_pending (fcard (fmdom (os_pending s))) (os_pending s) = os_pending s"
    using assms(2) by (cases n) (simp_all add: maxPendingRequests_def fcard_fempty)
  let ?s = "s\<lparr>os_limiter := ?l, os_pending := fmupd (rq_id n) ?p (os_pending s),
    os_clients := clients_touch ''gsc_1'' 1 True (os_clients s)\<rparr>"
  have "snd (handleAuthorize sample_lib ''GET'' (nth_addr n) (Some asking) 1 None False (Some (replicate n (CHR ''x''))) True s) = ?s"
    using c assms(1) l check_asking [OF c(2)] sw room
    by (simp add: handleAuthorize_def Let_def asking_parts resolveClient_def clients_get_def flooded_def randomToken_def
      add_pending_def rq_id_def)
  moreover have "\<exists>d. fmlookup (cs_clients (fst (clients_touch ''gsc_1'' 1 True (os_clients s)))) ''gsc_1'' = Some d \<and>
      cl_redirects d = [''https://c/cb''] \<and> \<not> cl_cimd d \<and> cl_id d = ''gsc_1''"
    using c by (cases "os_clients s") (simp add: clients_touch_def cs_save_def)
  moreover have "fmdom (os_pending ?s) = fset_of_list (map rq_id [0..<Suc n])"
    using assms(1) by (simp add: flooded_def)
  moreover have "1 < 1 + oc_request_ttl conf" by (simp add: conf_def)
  ultimately show ?thesis using assms(1) by (auto simp: flooded_def split: if_splits)
qed

lemma flood_reached: "n \<le> 1000 \<Longrightarrow> \<exists>s. oauth_reachable sample_lib s \<and> flooded n (og_server s)"
proof (induction n)
  case 0
  have "flooded 0 (og_server oa0)"
    by (simp add: flooded_def oa0_def new_oauth_sys_def new_server_def connector_def NewWindow_def)
  with oa0_reached show ?case by blast
next
  case (Suc n)
  then obtain s where s: "oauth_reachable sample_lib s" "flooded n (og_server s)" by auto
  let ?h = "handleAuthorize sample_lib ''GET'' (nth_addr n) (Some asking) 1 None False (Some (replicate n (CHR ''x''))) True (og_server s)"
  have "oauth_step sample_lib s (s\<lparr>og_server := snd ?h\<rparr>)" by (rule Asked [OF prod.collapse [symmetric]])
  with s(1) have "oauth_reachable sample_lib (s\<lparr>og_server := snd ?h\<rparr>)" by (rule oauth_reachable.Step)
  moreover have "flooded (Suc n) (snd ?h)" using flood_step [OF s(2)] Suc.prems by simp
  ultimately show ?case by (intro exI [of _ "s\<lparr>og_server := snd ?h\<rparr>"]) simp
qed

lemma flood_evicts_its_own_witness:
  "\<exists>s i q. oauth_reachable sample_lib s \<and> fcard (fmdom (os_pending (og_server s))) = 1000 \<and>
     os_pending (add_pending 1 request1 (og_server s)) = fmupd (pr_id request1) request1 (fmdrop i (os_pending (og_server s))) \<and>
     fmlookup (os_pending (og_server s)) i = Some q \<and> waiting_from ''a'' (os_pending (og_server s)) \<le> waiting_from (pr_from q) (os_pending (og_server s))"
proof -
  obtain s where s: "oauth_reachable sample_lib s" "flooded 1000 (og_server s)" using flood_reached [of 1000] by auto
  have sw: "sweepPending 1 (os_pending (og_server s)) = os_pending (og_server s)"
    using s(2) by (intro nobody_expired) (simp add: flooded_def)
  have named: "fmpred (\<lambda>i q. pr_from q \<noteq> []) (os_pending (og_server s))"
    using s(2) by (auto simp: flooded_def intro!: fmpredI)
  have full: "fcard (fmdom (os_pending (og_server s))) = 1000" using s(2) by (simp add: flooded_def card_rq del: fset_of_list_map)
  from flood_evicts_its_own [OF s(1) named, of 1 request1] s(1) full show ?thesis
    unfolding Let_def sw by auto
qed

end
