(* ===== verification/WebAccounts.thy ===== *)
theory WebAccounts
  imports JsonStore GoStrings Authz "HOL-Library.Word"
begin

text \<open>
  \<open>internal/webauth\<close>: the accounts of the web interface, their file, and every operation that changes them
  (\<open>webauth.go\<close>, \<open>password.go\<close>, \<open>initial_owner.go\<close>, \<open>recovery.go\<close>).

  The state is the store in memory, the accounts file and the file of the first owner's password. Each mutator takes the
  lock, reloads the file when its modification time changed, edits the accounts and saves: \<open>acc_mutate\<close>, which each
  operation calls with its edit. An edit refuses, finds nothing to change, or gives the new accounts; after a failed save
  most operations leave the change in memory and some take it back, which is the flag of \<open>acc_mutate\<close>.

  Arguments of the operations: the clock, the outcome of the save, the random bytes, salts and TOTP keys drawn. What the
  repository imports is the record \<open>acc_lib\<close>: SHA-256 in hexadecimal, bcrypt (\<open>None\<close> for a password it refuses),
  the TOTP check and the day of a time. The field \<open>Version\<close> is left out, and a legacy file of one account stands as
  the accounts it is migrated to.
\<close>

subsection \<open>Data\<close>

record recovery_code =
  rc_hash :: string
  rc_used :: "time option"

record user =
  u_id :: string
  u_name :: string
  u_hash :: string
  u_totp :: string
  u_policy :: string
  u_codes :: "recovery_code list"
  u_source :: string
  u_role :: role
  u_must_change :: bool
  u_restricted :: bool
  u_no_create :: bool
  u_created :: time
  u_disabled :: "time option"

record invite =
  iv_token :: string
  iv_by :: string
  iv_created :: time
  iv_expires :: time
  iv_consumed_by :: string
  iv_consumed :: "time option"

record accounts =
  a_users :: "user list"
  a_invites :: "invite list"

definition no_accounts :: accounts where "no_accounts = \<lparr>a_users = [], a_invites = []\<rparr>"

definition user_enabled :: "user \<Rightarrow> bool" where "user_enabled u = (u_disabled u = None)"

definition CanCreateProjects :: "user \<Rightarrow> bool" where
  "CanCreateProjects u = (u_role u = RoleOwner \<or> (role_can_write (u_role u) \<and> \<not> u_no_create u))"

definition invite_pending :: "time \<Rightarrow> invite \<Rightarrow> bool" where
  "invite_pending now i = (iv_consumed i = None \<and> now < iv_expires i)"

definition TOTPOff :: string where "TOTPOff = ''off''"
definition TOTPOptional :: string where "TOTPOptional = ''optional''"
definition TOTPRequiredMode :: string where "TOTPRequiredMode = ''required''"
definition TOTPInherit :: string where "TOTPInherit = ''''"
definition TOTPEnabled :: string where "TOTPEnabled = ''enabled''"
definition TOTPDisabled :: string where "TOTPDisabled = ''disabled''"

definition SourceLDAP :: string where "SourceLDAP = ''ldap''"

record acc_lib =
  al_sha :: "string \<Rightarrow> string"
  al_hash :: "string \<Rightarrow> string \<Rightarrow> string option"
  al_compare :: "string \<Rightarrow> string \<Rightarrow> bool"
  al_totp :: "string \<Rightarrow> string \<Rightarrow> time \<Rightarrow> bool"
  al_day :: "time \<Rightarrow> string"

datatype acc_error =
    UsernameRequired | PasswordTooShort | UnknownRole string | HashFailed | KeyFailed | UserExists | SetupWouldReplace
  | NotAnOwner role | UserNotFound | OwnerRefused | RoleNotAllowed string | UnknownPolicy string | NotLocalAccount
  | EntropyFailed | SecretRequired | NotEnrolled | AlreadyEnrolled | InviteInvalid | InviteNotFound | InviteNotPending
  | AccountsNotSaved | RemoveFailed | PasswordFileFailed
  | InvalidCredentials | AccountDisabled | InvalidSecondFactor | MissingCredentials | AuthDisabled

subsection \<open>The store and its files\<close>

record acc_store =
  am_accounts :: accounts
  am_mtime :: time
  am_mode :: string

record acc_sys =
  as_mem :: acc_store
  as_file :: "accounts json_file"
  as_initial :: "string option"

definition OpenAccounts :: "accounts json_file \<Rightarrow> acc_store option" where
  "OpenAccounts f =
     (case f of
        Absent \<Rightarrow> Some \<lparr>am_accounts = no_accounts, am_mtime = 0, am_mode = ''''\<rparr>
      | StatError \<Rightarrow> None
      | Present t None \<Rightarrow> None
      | Present t (Some c) \<Rightarrow> Some \<lparr>am_accounts = c, am_mtime = t, am_mode = ''''\<rparr>)"

definition acc_reload :: "accounts json_file \<Rightarrow> acc_store \<Rightarrow> acc_store" where
  "acc_reload f s =
     (case f of
        Absent \<Rightarrow>
          if am_mtime s \<noteq> 0 \<or> a_users (am_accounts s) \<noteq> [] then s\<lparr>am_accounts := no_accounts, am_mtime := 0\<rparr> else s
      | StatError \<Rightarrow> s
      | Present t c \<Rightarrow>
          if t = am_mtime s then s
          else case c of None \<Rightarrow> s | Some a \<Rightarrow> s\<lparr>am_accounts := a, am_mtime := t\<rparr>)"

definition acc_save :: "save_outcome \<Rightarrow> acc_store \<times> accounts json_file \<Rightarrow> bool \<times> acc_store \<times> accounts json_file" where
  "acc_save out sf =
     (case sf of (s, f) \<Rightarrow>
        (case out of
           SaveFails \<Rightarrow> (False, s, f)
         | Saved t stat_ok \<Rightarrow> (True, if stat_ok then s\<lparr>am_mtime := t\<rparr> else s, Present t (Some (am_accounts s)))))"

interpretation accfile: json_store am_accounts am_mtime no_accounts acc_reload acc_save
  by unfold_locales
    (auto simp: acc_reload_def acc_save_def no_accounts_def split: json_file.splits option.splits)

definition acc_sync :: "acc_sys \<Rightarrow> acc_sys" where
  "acc_sync sys = sys\<lparr>as_mem := acc_reload (as_file sys) (as_mem sys)\<rparr>"

definition accounts_of :: "acc_sys \<Rightarrow> accounts" where
  "accounts_of sys = am_accounts (as_mem sys)"

definition set_accounts :: "accounts \<Rightarrow> acc_sys \<Rightarrow> acc_sys" where
  "set_accounts c sys = sys\<lparr>as_mem := (as_mem sys)\<lparr>am_accounts := c\<rparr>\<rparr>"

definition acc_write :: "save_outcome \<Rightarrow> acc_sys \<Rightarrow> bool \<times> acc_sys" where
  "acc_write out sys =
     (case acc_save out (as_mem sys, as_file sys) of (ok, s, f) \<Rightarrow> (ok, sys\<lparr>as_mem := s, as_file := f\<rparr>))"

datatype 'a edit = Refused acc_error | Unchanged 'a | Changed accounts 'a

definition acc_mutate :: "bool \<Rightarrow> (accounts \<Rightarrow> 'a edit) \<Rightarrow> save_outcome \<Rightarrow> acc_sys \<Rightarrow> (acc_error + 'a) \<times> acc_sys" where
  "acc_mutate take_back edit out sys =
     (let sys = acc_sync sys in
      case edit (accounts_of sys) of
        Refused e \<Rightarrow> (Inl e, sys)
      | Unchanged a \<Rightarrow> (Inr a, sys)
      | Changed c a \<Rightarrow>
          (case acc_write out (set_accounts c sys) of
             (ok, sys') \<Rightarrow> if ok then (Inr a, sys') else (Inl AccountsNotSaved, if take_back then sys else sys')))"

text \<open>The loops over the accounts stop at the first with the id.\<close>

definition find_user :: "string \<Rightarrow> accounts \<Rightarrow> user option" where
  "find_user i c = find (\<lambda>u. u_id u = i) (a_users c)"

definition put_user :: "string \<Rightarrow> (user \<Rightarrow> user) \<Rightarrow> accounts \<Rightarrow> accounts" where
  "put_user i g c = c\<lparr>a_users := update_first (\<lambda>u. u_id u = i) g (a_users c)\<rparr>"

definition with_user :: "string \<Rightarrow> (user \<Rightarrow> 'a edit) \<Rightarrow> accounts \<Rightarrow> 'a edit" where
  "with_user i k c = (case find_user i c of None \<Rightarrow> Refused UserNotFound | Some u \<Rightarrow> k u)"

definition StoreEnabled :: "acc_sys \<Rightarrow> bool \<times> acc_sys" where
  "StoreEnabled sys = (let sys = acc_sync sys in (a_users (accounts_of sys) \<noteq> [], sys))"

definition firstOwner :: "accounts \<Rightarrow> user option" where
  "firstOwner c = find (\<lambda>u. u_role u = RoleOwner \<and> user_enabled u) (a_users c)"

definition UserByID :: "string \<Rightarrow> acc_sys \<Rightarrow> user option" where
  "UserByID i sys = find_user i (accounts_of sys)"

definition UserByUsername :: "string \<Rightarrow> acc_sys \<Rightarrow> user option" where
  "UserByUsername name sys = find (\<lambda>u. u_name u = name) (a_users (accounts_of sys))"

definition usernameTaken :: "accounts \<Rightarrow> string \<Rightarrow> bool" where
  "usernameTaken c name = list_ex (\<lambda>u. u_name u = name) (a_users c)"

subsection \<open>New accounts\<close>

definition deriveUserID :: "acc_lib \<Rightarrow> string \<Rightarrow> time \<Rightarrow> string" where
  "deriveUserID lib username ts = take 16 (al_sha lib (username @ ''|'' @ show_int (unix_nano ts)))"

definition MinPasswordLen :: nat where "MinPasswordLen = 8"

definition validatePassword :: "string \<Rightarrow> acc_error + unit" where
  "validatePassword p = require (MinPasswordLen \<le> length p) PasswordTooShort"

definition hash_password :: "acc_lib \<Rightarrow> string \<Rightarrow> string \<Rightarrow> acc_error + string" where
  "hash_password lib salt p = (case al_hash lib salt p of None \<Rightarrow> Inl HashFailed | Some h \<Rightarrow> Inr h)"

definition blank_user :: "acc_lib \<Rightarrow> string \<Rightarrow> role \<Rightarrow> time \<Rightarrow> user" where
  "blank_user lib username role now =
     \<lparr>u_id = deriveUserID lib username now, u_name = username, u_hash = [], u_totp = [], u_policy = TOTPInherit, u_codes = [],
      u_source = [], u_role = role, u_must_change = False, u_restricted = False, u_no_create = False, u_created = now,
      u_disabled = None\<rparr>"

definition newLocalUser :: "acc_lib \<Rightarrow> string \<Rightarrow> string \<Rightarrow> string \<Rightarrow> role \<Rightarrow> time \<Rightarrow> acc_error + user" where
  "newLocalUser lib salt username password role now =
     and_then (require (username \<noteq> []) UsernameRequired) (\<lambda>_.
     and_then (validatePassword password) (\<lambda>_.
     and_then (require (role_valid role) (UnknownRole role)) (\<lambda>_.
     and_then (hash_password lib salt password) (\<lambda>h.
       Inr ((blank_user lib username role now)\<lparr>u_hash := h, u_restricted := True\<rparr>)))))"

text \<open>The owner, with the secret of a new key (secret and URI) when \<open>withTOTP\<close>.\<close>

definition newOwner ::
  "acc_lib \<Rightarrow> string \<Rightarrow> (string \<times> string) option \<Rightarrow> string \<Rightarrow> string \<Rightarrow> bool \<Rightarrow> time \<Rightarrow> acc_error + user \<times> string" where
  "newOwner lib salt key username password withTOTP now =
     and_then (require (username \<noteq> []) UsernameRequired) (\<lambda>_.
     and_then (validatePassword password) (\<lambda>_.
     and_then (hash_password lib salt password) (\<lambda>h.
       let u = (blank_user lib username RoleOwner now)\<lparr>u_hash := h\<rparr> in
       if withTOTP then (case key of None \<Rightarrow> Inl KeyFailed | Some (secret, uri) \<Rightarrow> Inr (u\<lparr>u_totp := secret\<rparr>, uri))
       else Inr (u, []))))"

text \<open>
  The username of a disabled account whose name is reused. The counter stops at one above the number of accounts: one of
  so many names is free (\<open>archived_name_exists\<close>).
\<close>

fun free_name :: "nat \<Rightarrow> (string \<Rightarrow> bool) \<Rightarrow> string \<Rightarrow> nat \<Rightarrow> string option" where
  "free_name 0 taken base n = None"
| "free_name (Suc k) taken base n =
     (let name = base @ ''-'' @ show_nat n in if taken name then free_name k taken base (n + 1) else Some name)"

definition archivedUsername :: "acc_lib \<Rightarrow> accounts \<Rightarrow> user \<Rightarrow> string option" where
  "archivedUsername lib c old =
     (let base = u_name old @ ''~disabled-'' @ al_day lib (case u_disabled old of None \<Rightarrow> 0 | Some t \<Rightarrow> t) in
      if usernameTaken c base then free_name (length (a_users c)) (usernameTaken c) base 2 else Some base)"

definition add_user_edit :: "acc_lib \<Rightarrow> user \<Rightarrow> bool \<Rightarrow> accounts \<Rightarrow> (user \<times> user option) edit" where
  "add_user_edit lib u reclaim c =
     (let same = filter (\<lambda>v. u_name v = u_name u) (a_users c) in
      if list_ex (\<lambda>v. \<not> reclaim \<or> user_enabled v) same then Refused UserExists
      else
        case same of
          [] \<Rightarrow> Changed (c\<lparr>a_users := a_users c @ [u]\<rparr>) (u, None)
        | _ \<Rightarrow>
            let held = last same; renamed = (case archivedUsername lib c held of None \<Rightarrow> held | Some n \<Rightarrow> held\<lparr>u_name := n\<rparr>)
            in Changed (c\<lparr>a_users := rev (update_first (\<lambda>v. u_name v = u_name u) (\<lambda>_. renamed) (rev (a_users c))) @ [u]\<rparr>) (u, Some renamed))"

definition addUser :: "acc_lib \<Rightarrow> user \<Rightarrow> bool \<Rightarrow> save_outcome \<Rightarrow> acc_sys \<Rightarrow> (acc_error + user \<times> user option) \<times> acc_sys" where
  "addUser lib u reclaim out sys = acc_mutate True (add_user_edit lib u reclaim) out sys"

definition AddUser ::
  "acc_lib \<Rightarrow> string \<Rightarrow> string \<Rightarrow> string \<Rightarrow> role \<Rightarrow> time \<Rightarrow> save_outcome \<Rightarrow> acc_sys \<Rightarrow> (acc_error + user \<times> user option) \<times> acc_sys" where
  "AddUser lib salt username password role now out sys =
     (case newLocalUser lib salt username password role now of
        Inl e \<Rightarrow> (Inl e, sys) | Inr u \<Rightarrow> addUser lib u False out sys)"

definition AddUserReclaiming ::
  "acc_lib \<Rightarrow> string \<Rightarrow> string \<Rightarrow> string \<Rightarrow> role \<Rightarrow> time \<Rightarrow> save_outcome \<Rightarrow> acc_sys \<Rightarrow> (acc_error + user \<times> user option) \<times> acc_sys" where
  "AddUserReclaiming lib salt username password role now out sys =
     (case newLocalUser lib salt username password role now of
        Inl e \<Rightarrow> (Inl e, sys) | Inr u \<Rightarrow> addUser lib u True out sys)"

definition AddLDAPUser ::
  "acc_lib \<Rightarrow> string \<Rightarrow> time \<Rightarrow> save_outcome \<Rightarrow> acc_sys \<Rightarrow> (acc_error + user \<times> user option) \<times> acc_sys" where
  "AddLDAPUser lib username now out sys =
     (if username = [] then (Inl UsernameRequired, sys)
      else addUser lib ((blank_user lib username RoleGuest now)\<lparr>u_source := SourceLDAP, u_restricted := True\<rparr>) False out sys)"

subsection \<open>The owner\<close>

text \<open>
  The reset of the owner in place, its first creation, or a refusal. A reset with a new TOTP key drops the recovery codes.
\<close>

definition setup_edit :: "user \<Rightarrow> string \<Rightarrow> bool \<Rightarrow> accounts \<Rightarrow> string edit" where
  "setup_edit u uri withTOTP c =
     (case find (\<lambda>v. u_name v = u_name u) (a_users c) of
        Some v \<Rightarrow>
          if u_role v \<noteq> RoleOwner then Refused (NotAnOwner (u_role v))
          else
            Changed (c\<lparr>a_users := update_first (\<lambda>v. u_name v = u_name u)
              (\<lambda>v. let v = v\<lparr>u_hash := u_hash u, u_must_change := False, u_disabled := None\<rparr>
                   in if withTOTP then v\<lparr>u_totp := u_totp u, u_codes := []\<rparr> else v) (a_users c)\<rparr>) uri
      | None \<Rightarrow> if a_users c \<noteq> [] then Refused SetupWouldReplace else Changed \<lparr>a_users = [u], a_invites = []\<rparr> uri)"

definition removeInitialPassword :: "acc_sys \<Rightarrow> acc_sys" where
  "removeInitialPassword sys = sys\<lparr>as_initial := None\<rparr>"

definition saveOwner :: "(acc_error + 'a) \<times> acc_sys \<Rightarrow> (acc_error + 'a) \<times> acc_sys" where
  "saveOwner r = (case r of (Inl e, sys) \<Rightarrow> (Inl e, sys) | (Inr a, sys) \<Rightarrow> (Inr a, removeInitialPassword sys))"

definition Setup ::
  "acc_lib \<Rightarrow> string \<Rightarrow> (string \<times> string) option \<Rightarrow> string \<Rightarrow> string \<Rightarrow> bool \<Rightarrow> time \<Rightarrow> save_outcome \<Rightarrow> acc_sys \<Rightarrow> (acc_error + string) \<times> acc_sys" where
  "Setup lib salt key username password withTOTP now out sys =
     (case newOwner lib salt key username password withTOTP now of
        Inl e \<Rightarrow> (Inl e, sys)
      | Inr (u, uri) \<Rightarrow> saveOwner (acc_mutate False (setup_edit u uri withTOTP) out sys))"

definition Replace ::
  "acc_lib \<Rightarrow> string \<Rightarrow> (string \<times> string) option \<Rightarrow> string \<Rightarrow> string \<Rightarrow> bool \<Rightarrow> time \<Rightarrow> save_outcome \<Rightarrow> acc_sys \<Rightarrow> (acc_error + string) \<times> acc_sys" where
  "Replace lib salt key username password withTOTP now out sys =
     (case newOwner lib salt key username password withTOTP now of
        Inl e \<Rightarrow> (Inl e, sys)
      | Inr (u, uri) \<Rightarrow> saveOwner (acc_mutate False (\<lambda>c. Changed \<lparr>a_users = [u], a_invites = []\<rparr> uri) out sys))"

text \<open>\<open>Disable\<close> removes the file; the flag is the outcome of the removal.\<close>

definition DisableAll :: "bool \<Rightarrow> acc_sys \<Rightarrow> (acc_error + unit) \<times> acc_sys" where
  "DisableAll removed sys =
     (let sys = set_accounts no_accounts (acc_sync sys) in
      if as_file sys \<noteq> Absent \<and> \<not> removed then (Inl RemoveFailed, sys)
      else (Inr (), removeInitialPassword (sys\<lparr>as_file := Absent\<rparr>)))"

definition dropStaleInitialPassword :: "acc_sys \<Rightarrow> acc_sys" where
  "dropStaleInitialPassword sys =
     (case as_initial sys of
        None \<Rightarrow> sys
      | Some p \<Rightarrow>
          (case firstOwner (accounts_of sys) of
             None \<Rightarrow> removeInitialPassword sys
           | Some u \<Rightarrow> if u_must_change u then sys else removeInitialPassword sys))"

text \<open>
  The owner of a fresh install. The password is written beside the accounts before the account is saved; \<open>written\<close> is
  the outcome of that write.
\<close>

definition ProvisionInitialOwner ::
  "acc_lib \<Rightarrow> string \<Rightarrow> string option \<Rightarrow> string \<Rightarrow> time \<Rightarrow> bool \<Rightarrow> save_outcome \<Rightarrow> acc_sys \<Rightarrow> (acc_error + string) \<times> acc_sys" where
  "ProvisionInitialOwner lib salt random username now written out sys =
     (case StoreEnabled sys of
        (True, sys) \<Rightarrow> (Inr [], dropStaleInitialPassword sys)
      | (False, sys) \<Rightarrow>
          (case random of
             None \<Rightarrow> (Inl EntropyFailed, sys)
           | Some password \<Rightarrow>
               (case newOwner lib salt None username password False now of
                  Inl e \<Rightarrow> (Inl e, sys)
                | Inr (u, _) \<Rightarrow>
                    if \<not> written then (Inl PasswordFileFailed, sys)
                    else
                      let sys = acc_sync (sys\<lparr>as_initial := Some password\<rparr>) in
                      if a_users (accounts_of sys) \<noteq> [] then (Inr [], removeInitialPassword sys)
                      else
                        (case acc_write out (set_accounts \<lparr>a_users = [u\<lparr>u_must_change := True\<rparr>], a_invites = []\<rparr> sys) of
                           (True, sys) \<Rightarrow> (Inr password, sys)
                         | (False, sys) \<Rightarrow> (Inl AccountsNotSaved, removeInitialPassword (set_accounts no_accounts sys))))))"

subsection \<open>Flags and roles\<close>

definition SetRestricted :: "string \<Rightarrow> bool \<Rightarrow> save_outcome \<Rightarrow> acc_sys \<Rightarrow> (acc_error + unit) \<times> acc_sys" where
  "SetRestricted i restricted out sys =
     acc_mutate False (\<lambda>c. with_user i (\<lambda>u.
       if u_role u = RoleOwner then Refused OwnerRefused
       else if u_restricted u = restricted then Unchanged ()
       else Changed (put_user i (\<lambda>u. u\<lparr>u_restricted := restricted\<rparr>) c) ()) c) out sys"

definition SetCanCreateProjects :: "string \<Rightarrow> bool \<Rightarrow> save_outcome \<Rightarrow> acc_sys \<Rightarrow> (acc_error + unit) \<times> acc_sys" where
  "SetCanCreateProjects i can out sys =
     acc_mutate False (\<lambda>c. with_user i (\<lambda>u.
       if u_role u = RoleOwner then Refused OwnerRefused
       else if u_no_create u = (\<not> can) then Unchanged ()
       else Changed (put_user i (\<lambda>u. u\<lparr>u_no_create := \<not> can\<rparr>) c) ()) c) out sys"

text \<open>The result says whether the account was disabled now, when the hook runs.\<close>

definition DisableUser :: "string \<Rightarrow> time \<Rightarrow> save_outcome \<Rightarrow> acc_sys \<Rightarrow> (acc_error + bool) \<times> acc_sys" where
  "DisableUser i now out sys =
     acc_mutate False (\<lambda>c. with_user i (\<lambda>u.
       if u_role u = RoleOwner then Refused OwnerRefused
       else if \<not> user_enabled u then Unchanged False
       else Changed (put_user i (\<lambda>u. u\<lparr>u_disabled := Some now\<rparr>) c) True) c) out sys"

definition SetRole :: "string \<Rightarrow> role \<Rightarrow> save_outcome \<Rightarrow> acc_sys \<Rightarrow> (acc_error + unit) \<times> acc_sys" where
  "SetRole i role out sys =
     (if role \<noteq> RoleMember \<and> role \<noteq> RoleGuest then (Inl (RoleNotAllowed role), sys)
      else
        acc_mutate False (\<lambda>c. with_user i (\<lambda>u.
          if u_role u = RoleOwner then Refused OwnerRefused
          else if u_role u = role then Unchanged ()
          else Changed (put_user i (\<lambda>u. u\<lparr>u_role := role\<rparr>) c) ()) c) out sys)"

definition SetTOTPMode :: "string \<Rightarrow> acc_sys \<Rightarrow> acc_sys" where
  "SetTOTPMode mode sys =
     sys\<lparr>as_mem := (as_mem sys)\<lparr>am_mode := if mode = TOTPOptional \<or> mode = TOTPRequiredMode then mode else TOTPOff\<rparr>\<rparr>"

definition SetTOTPPolicy :: "string \<Rightarrow> string \<Rightarrow> save_outcome \<Rightarrow> acc_sys \<Rightarrow> (acc_error + unit) \<times> acc_sys" where
  "SetTOTPPolicy i policy out sys =
     (if policy \<noteq> TOTPInherit \<and> policy \<noteq> TOTPEnabled \<and> policy \<noteq> TOTPDisabled then (Inl (UnknownPolicy policy), sys)
      else acc_mutate False (\<lambda>c. with_user i (\<lambda>u. Changed (put_user i (\<lambda>u. u\<lparr>u_policy := policy\<rparr>) c) ()) c) out sys)"

subsection \<open>Passwords\<close>

definition CheckPassword :: "acc_lib \<Rightarrow> string \<Rightarrow> string \<Rightarrow> acc_sys \<Rightarrow> acc_error + unit" where
  "CheckPassword lib i password sys =
     (case UserByID i sys of
        None \<Rightarrow> Inl InvalidCredentials
      | Some u \<Rightarrow>
          if \<not> user_enabled u then Inl AccountDisabled
          else if u_source u = SourceLDAP then Inl NotLocalAccount
          else if \<not> al_compare lib (u_hash u) password then Inl InvalidCredentials
          else Inr ())"

definition SetPassword ::
  "acc_lib \<Rightarrow> string \<Rightarrow> string \<Rightarrow> string \<Rightarrow> bool \<Rightarrow> save_outcome \<Rightarrow> acc_sys \<Rightarrow> (acc_error + unit) \<times> acc_sys" where
  "SetPassword lib salt i password mustChange out sys =
     (case and_then (validatePassword password) (\<lambda>_. hash_password lib salt password) of
        Inl e \<Rightarrow> (Inl e, sys)
      | Inr h \<Rightarrow>
          (case acc_mutate False (\<lambda>c. with_user i (\<lambda>u.
                  if u_source u = SourceLDAP then Refused NotLocalAccount
                  else Changed (put_user i (\<lambda>u. u\<lparr>u_hash := h, u_must_change := mustChange\<rparr>) c) (u_role u)) c) out sys of
             (Inl e, sys) \<Rightarrow> (Inl e, sys)
           | (Inr role, sys) \<Rightarrow>
               (Inr (), if role = RoleOwner \<and> \<not> mustChange then removeInitialPassword sys else sys)))"

definition SetMustChangePassword :: "string \<Rightarrow> bool \<Rightarrow> save_outcome \<Rightarrow> acc_sys \<Rightarrow> (acc_error + unit) \<times> acc_sys" where
  "SetMustChangePassword i must out sys =
     acc_mutate False (\<lambda>c. with_user i (\<lambda>u. Changed (put_user i (\<lambda>u. u\<lparr>u_must_change := must\<rparr>) c) ()) c) out sys"

subsection \<open>Invites\<close>

definition CreateInvite ::
  "string option \<Rightarrow> string \<Rightarrow> duration \<Rightarrow> time \<Rightarrow> save_outcome \<Rightarrow> acc_sys \<Rightarrow> (acc_error + invite) \<times> acc_sys" where
  "CreateInvite random creator ttl now out sys =
     (case random of
        None \<Rightarrow> (Inl EntropyFailed, sys)
      | Some r \<Rightarrow>
          let inv = \<lparr>iv_token = ''inv_'' @ r, iv_by = creator, iv_created = now, iv_expires = now + ttl,
                     iv_consumed_by = [], iv_consumed = None\<rparr>
          in acc_mutate True (\<lambda>c. Changed (c\<lparr>a_invites := a_invites c @ [inv]\<rparr>) inv) out sys)"

definition FindInvite :: "string \<Rightarrow> time \<Rightarrow> acc_sys \<Rightarrow> invite option" where
  "FindInvite token now sys = find (\<lambda>i. iv_token i = token \<and> invite_pending now i) (a_invites (accounts_of sys))"

definition put_invite :: "string \<Rightarrow> (invite \<Rightarrow> invite) \<Rightarrow> accounts \<Rightarrow> accounts" where
  "put_invite token g c = c\<lparr>a_invites := update_first (\<lambda>i. iv_token i = token) g (a_invites c)\<rparr>"

definition consume_invite :: "string \<Rightarrow> time \<Rightarrow> invite \<Rightarrow> invite" where
  "consume_invite consumer now i = i\<lparr>iv_consumed_by := consumer, iv_consumed := Some now\<rparr>"

definition redeem_edit :: "string \<Rightarrow> user \<Rightarrow> time \<Rightarrow> accounts \<Rightarrow> user edit" where
  "redeem_edit token u now c =
     (case find (\<lambda>i. iv_token i = token) (a_invites c) of
        None \<Rightarrow> Refused InviteInvalid
      | Some i \<Rightarrow>
          if \<not> invite_pending now i then Refused InviteInvalid
          else if usernameTaken c (u_name u) then Refused UserExists
          else Changed ((put_invite token (consume_invite (u_id u) now) c)\<lparr>a_users := a_users c @ [u]\<rparr>) u)"

definition RedeemInvite ::
  "acc_lib \<Rightarrow> string \<Rightarrow> string \<Rightarrow> string \<Rightarrow> string \<Rightarrow> time \<Rightarrow> save_outcome \<Rightarrow> acc_sys \<Rightarrow> (acc_error + user) \<times> acc_sys" where
  "RedeemInvite lib salt token username password now out sys =
     (case newLocalUser lib salt username password RoleMember now of
        Inl e \<Rightarrow> (Inl e, sys) | Inr u \<Rightarrow> acc_mutate True (redeem_edit token u now) out sys)"

definition ClaimInvite :: "string \<Rightarrow> string \<Rightarrow> time \<Rightarrow> save_outcome \<Rightarrow> acc_sys \<Rightarrow> (acc_error + unit) \<times> acc_sys" where
  "ClaimInvite token consumer now out sys =
     acc_mutate False (\<lambda>c.
       case find (\<lambda>i. iv_token i = token) (a_invites c) of
         None \<Rightarrow> Refused InviteNotFound
       | Some i \<Rightarrow>
           if \<not> invite_pending now i then Refused InviteNotPending
           else Changed (put_invite token (consume_invite consumer now) c) ()) out sys"

definition RevokeInvite :: "string \<Rightarrow> save_outcome \<Rightarrow> acc_sys \<Rightarrow> (acc_error + unit) \<times> acc_sys" where
  "RevokeInvite token out sys =
     acc_mutate False (\<lambda>c.
       if \<not> list_ex (\<lambda>i. iv_token i = token) (a_invites c) then Refused InviteNotFound
       else Changed (c\<lparr>a_invites := remove_first (\<lambda>i. iv_token i = token) (a_invites c)\<rparr>) ()) out sys"

subsection \<open>What every operation does to the accounts\<close>

text \<open>
  An operation leaves in memory and in the file the accounts as they were, or the accounts its edit makes of those in
  memory or in the file. The lemmas on \<open>acc_mutate\<close> carry the invariants: a property of accounts that edits keep is
  kept in memory and in the file.
\<close>

definition file_accounts :: "acc_sys \<Rightarrow> accounts" where
  "file_accounts sys = (case as_file sys of Present t (Some c) \<Rightarrow> c | _ \<Rightarrow> no_accounts)"

definition both :: "(accounts \<Rightarrow> bool) \<Rightarrow> acc_sys \<Rightarrow> bool" where
  "both P sys \<longleftrightarrow> P (accounts_of sys) \<and> P (file_accounts sys)"

lemma sync_accounts: "accounts_of (acc_sync sys) \<in> {accounts_of sys, file_accounts sys}"
  by (auto simp: accounts_of_def file_accounts_def acc_sync_def acc_reload_def split: json_file.splits option.splits)

lemma sync_file [simp]: "as_file (acc_sync sys) = as_file sys" "file_accounts (acc_sync sys) = file_accounts sys"
  by (simp_all add: acc_sync_def file_accounts_def)

lemma set_accounts_parts [simp]:
  "accounts_of (set_accounts c sys) = c" "as_file (set_accounts c sys) = as_file sys"
  "file_accounts (set_accounts c sys) = file_accounts sys"
  by (simp_all add: accounts_of_def set_accounts_def file_accounts_def)

lemma removeInitialPassword_parts [simp]:
  "accounts_of (removeInitialPassword sys) = accounts_of sys" "file_accounts (removeInitialPassword sys) = file_accounts sys"
  "as_mem (removeInitialPassword sys) = as_mem sys" "as_file (removeInitialPassword sys) = as_file sys"
  by (simp_all add: accounts_of_def removeInitialPassword_def file_accounts_def)

lemma acc_write_parts:
  assumes "acc_write out sys = (ok, sys')"
  shows "accounts_of sys' = accounts_of sys" "file_accounts sys' = (if out = SaveFails then file_accounts sys else accounts_of sys)"
    "ok \<longleftrightarrow> out \<noteq> SaveFails"
  using assms by (auto simp: acc_write_def acc_save_def accounts_of_def file_accounts_def split: save_outcome.splits)

lemma both_sync: "both P sys \<Longrightarrow> both P (acc_sync sys)"
  using sync_accounts [of sys] by (auto simp: both_def)

lemma both_write: "both P sys \<Longrightarrow> P c \<Longrightarrow> acc_write out (set_accounts c sys) = (ok, sys') \<Longrightarrow> both P sys'"
  using acc_write_parts [of out "set_accounts c sys" ok sys'] by (simp add: both_def)

lemma mutate_cases:
  assumes "acc_mutate back edit out sys = (r, sys')"
  obtains (same) "sys' = acc_sync sys" "out = SaveFails \<or> (\<forall>c a. edit (accounts_of (acc_sync sys)) \<noteq> Changed c a)"
  | (new) c a ok where "edit (accounts_of (acc_sync sys)) = Changed c a" "acc_write out (set_accounts c (acc_sync sys)) = (ok, sys')"
      "r = (if ok then Inr a else Inl AccountsNotSaved)" "back \<longrightarrow> ok"
proof (cases "edit (accounts_of (acc_sync sys))")
  case (Changed c a)
  obtain ok s where w: "acc_write out (set_accounts c (acc_sync sys)) = (ok, s)" by (meson surj_pair)
  show ?thesis
  proof (cases "back \<and> \<not> ok")
    case True
    with assms Changed w acc_write_parts(3) [OF w] same show ?thesis by (simp add: acc_mutate_def Let_def)
  next
    case False
    with assms Changed w have "sys' = s" "r = (if ok then Inr a else Inl AccountsNotSaved)"
      by (auto simp: acc_mutate_def Let_def split: if_splits)
    with new [OF Changed] w False show ?thesis by simp
  qed
qed (use assms same in \<open>auto simp: acc_mutate_def Let_def\<close>)

lemma mutate_Inr:
  assumes "acc_mutate back edit out sys = (Inr a, sys')"
  shows "(edit (accounts_of (acc_sync sys)) = Unchanged a \<and> sys' = acc_sync sys) \<or>
    (\<exists>c. edit (accounts_of (acc_sync sys)) = Changed c a \<and> out \<noteq> SaveFails \<and> accounts_of sys' = c \<and> file_accounts sys' = c)"
proof (cases "edit (accounts_of (acc_sync sys))")
  case (Changed c b)
  with assms obtain ok s where w: "acc_write out (set_accounts c (acc_sync sys)) = (ok, s)" by (meson surj_pair)
  from Changed w assms acc_write_parts [OF w] show ?thesis by (auto simp: acc_mutate_def Let_def split: if_splits)
qed (use assms in \<open>auto simp: acc_mutate_def Let_def\<close>)

lemma both_mutate:
  assumes "both P sys" and "acc_mutate back edit out sys = (r, sys')" and "\<And>c c' a. P c \<Longrightarrow> edit c = Changed c' a \<Longrightarrow> P c'"
  shows "both P sys'"
  using assms(2)
proof (cases rule: mutate_cases)
  case same
  with both_sync [OF assms(1)] show ?thesis by simp
next
  case (new c a ok)
  have "both P (acc_sync sys)" by (rule both_sync [OF assms(1)])
  with new assms(3) show ?thesis by (meson both_def both_write)
qed

lemma both_OpenAccounts: "P no_accounts \<Longrightarrow> both P sys \<Longrightarrow> OpenAccounts (as_file sys) = Some s \<Longrightarrow> both P (sys\<lparr>as_mem := s\<rparr>)"
  by (auto simp: OpenAccounts_def both_def accounts_of_def file_accounts_def split: json_file.splits option.splits)

text \<open>The name of a disabled account exists within its bound.\<close>

lemma free_name_None:
  assumes "free_name k taken base n = None"
  shows "\<forall>i<k. taken (base @ ''-'' @ show_nat (n + i))"
  using assms
proof (induction k arbitrary: n)
  case (Suc k)
  then have "taken (base @ ''-'' @ show_nat n)" and rest: "free_name k taken base (n + 1) = None"
    by (auto simp: Let_def split: if_splits)
  show ?case
  proof (intro allI impI)
    fix i
    assume "i < Suc k"
    with Suc.IH [OF rest] \<open>taken _\<close> show "taken (base @ ''-'' @ show_nat (n + i))"
      by (cases i) auto
  qed
qed simp

lemma free_name_Some: "free_name k taken base n = Some name \<Longrightarrow> \<not> taken name"
  by (induction k arbitrary: n) (auto simp: Let_def split: if_splits)

lemma usernameTaken_iff: "usernameTaken c name \<longleftrightarrow> name \<in> u_name ` set (a_users c)"
  by (auto simp: usernameTaken_def list_ex_iff)

lemma archived_name_exists: "\<exists>name. archivedUsername lib c old = Some name \<and> \<not> usernameTaken c name"
proof -
  define base where "base = u_name old @ ''~disabled-'' @ al_day lib (case u_disabled old of None \<Rightarrow> 0 | Some t \<Rightarrow> t)"
  let ?cand = "\<lambda>i. base @ ''-'' @ show_nat (2 + i)"
  have "free_name (length (a_users c)) (usernameTaken c) base 2 \<noteq> None" if taken: "usernameTaken c base"
  proof
    assume "free_name (length (a_users c)) (usernameTaken c) base 2 = None"
    from free_name_None [OF this] have "?cand ` {..<length (a_users c)} \<subseteq> u_name ` set (a_users c)"
      by (auto simp: usernameTaken_iff)
    moreover have "base \<in> u_name ` set (a_users c)" using taken by (simp add: usernameTaken_iff)
    ultimately have "card (insert base (?cand ` {..<length (a_users c)})) \<le> card (u_name ` set (a_users c))"
      by (intro card_mono) auto
    also have "\<dots> \<le> length (a_users c)" by (metis card_image_le card_length finite_set le_trans)
    finally have "card (insert base (?cand ` {..<length (a_users c)})) \<le> length (a_users c)" .
    moreover have "inj_on ?cand {..<length (a_users c)}" by (auto intro!: inj_onI dest: show_nat_inj)
    moreover have "base \<notin> ?cand ` {..<length (a_users c)}" by auto
    ultimately show False by (simp add: card_image)
  qed
  moreover have "archivedUsername lib c old =
      (if usernameTaken c base then free_name (length (a_users c)) (usernameTaken c) base 2 else Some base)"
    by (simp add: archivedUsername_def Let_def base_def)
  ultimately show ?thesis using free_name_Some by fastforce
qed

end
