(* ===== verification/WebFactors.thy ===== *)
theory WebFactors
  imports WebAccounts
begin

text \<open>
  \<open>internal/webauth\<close>: the second factor. The policy (\<open>totpActive\<close> and its relatives, \<open>webauth.go\<close>), the
  recovery codes (\<open>recovery.go\<close>) and the sign-in (\<open>Authenticate\<close>).

  A recovery code is consumed in two critical sections: the comparison with a snapshot of the hashes (\<open>match_code\<close>), and
  the mark, under the write lock, on the entry that is still the same (\<open>commit_code\<close>).
\<close>

subsection \<open>The policy\<close>

definition totpActive :: "string \<Rightarrow> user \<Rightarrow> bool" where
  "totpActive mode u =
     (if mode \<noteq> TOTPOptional \<and> mode \<noteq> TOTPRequiredMode then False
      else if u_policy u = TOTPEnabled then True
      else if u_policy u = TOTPDisabled then False
      else mode = TOTPRequiredMode \<or> u_totp u \<noteq> [])"

definition TOTPMode :: "acc_sys \<Rightarrow> string" where
  "TOTPMode sys = (if am_mode (as_mem sys) = [] then TOTPOff else am_mode (as_mem sys))"

definition TOTPEnrollmentRequired :: "user \<Rightarrow> acc_sys \<Rightarrow> bool" where
  "TOTPEnrollmentRequired u sys = (totpActive (am_mode (as_mem sys)) u \<and> u_totp u = [])"

definition TOTPRequired :: "user \<Rightarrow> acc_sys \<Rightarrow> bool" where
  "TOTPRequired u sys =
     (let mode = am_mode (as_mem sys) in
      if mode \<noteq> TOTPOptional \<and> mode \<noteq> TOTPRequiredMode then False
      else if u_policy u = TOTPEnabled then True
      else if u_policy u = TOTPDisabled then False
      else mode = TOTPRequiredMode)"

definition AnyTOTPEnrolled :: "acc_sys \<Rightarrow> bool" where
  "AnyTOTPEnrolled sys = list_ex (\<lambda>u. u_totp u \<noteq> []) (a_users (accounts_of sys))"

subsection \<open>Recovery codes\<close>

definition RecoveryCodeCount :: nat where "RecoveryCodeCount = 8"
definition recoveryCodeLen :: nat where "recoveryCodeLen = 10"
definition recoveryAlphabet :: string where "recoveryAlphabet = ''23456789ABCDEFGHJKMNPQRSTVWXYZ''"

definition RecoveryCodesRemaining :: "user \<Rightarrow> nat" where
  "RecoveryCodesRemaining u = length (filter (\<lambda>rc. rc_used rc = None) (u_codes u))"

text \<open>
  \<open>strings.ToUpper\<close> as far as a code can tell: of the runes outside ASCII only the long s (\<open>C5 BF\<close>) and the dotless i
  (\<open>C4 B1\<close>) have an upper case in ASCII; the others stay outside and no code has them.
\<close>

fun upper_ascii :: "string \<Rightarrow> string" where
  "upper_ascii [] = []"
| "upper_ascii (c # s) =
     (if c = CHR 0xC5 \<and> take 1 s = [CHR 0xBF] then CHR ''S'' # upper_ascii (drop 1 s)
      else if c = CHR 0xC4 \<and> take 1 s = [CHR 0xB1] then CHR ''I'' # upper_ascii (drop 1 s)
      else (let n = of_char c :: nat in if 97 \<le> n \<and> n \<le> 122 then char_of (n - 32) else c) # upper_ascii s)"

definition normalizeRecoveryCode :: "string \<Rightarrow> string" where
  "normalizeRecoveryCode s = filter (\<lambda>c. c \<notin> set ''- '') (upper_ascii s)"

definition looksLikeRecoveryCode :: "string \<Rightarrow> bool" where
  "looksLikeRecoveryCode norm = (if length norm \<noteq> recoveryCodeLen then False else list_all (List.member recoveryAlphabet) norm)"

definition formatRecoveryCode :: "string \<Rightarrow> string" where
  "formatRecoveryCode raw = take (recoveryCodeLen div 2) raw @ ''-'' @ drop (recoveryCodeLen div 2) raw"

text \<open>The symbols of a code, from random bytes; those from 240 on are drawn again. \<open>None\<close> is the end of the bytes, an error.\<close>

definition symbol_limit :: nat where "symbol_limit = length recoveryAlphabet * (256 div length recoveryAlphabet)"

fun draw_code :: "nat \<Rightarrow> 8 word list \<Rightarrow> (string \<times> 8 word list) option" where
  "draw_code 0 bs = Some ([], bs)"
| "draw_code (Suc n) [] = None"
| "draw_code (Suc n) (b # bs) =
     (if symbol_limit \<le> unat b then draw_code (Suc n) bs
      else case draw_code n bs of
             None \<Rightarrow> None
           | Some (raw, bs) \<Rightarrow> Some (recoveryAlphabet ! (unat b mod length recoveryAlphabet) # raw, bs))"

fun mint_codes :: "acc_lib \<Rightarrow> nat \<Rightarrow> 8 word list \<Rightarrow> string list \<Rightarrow> acc_error + string list \<times> recovery_code list" where
  "mint_codes lib 0 bs salts = Inr ([], [])"
| "mint_codes lib (Suc n) bs salts =
     (case draw_code recoveryCodeLen bs of
        None \<Rightarrow> Inl EntropyFailed
      | Some (raw, bs) \<Rightarrow>
          (case salts of
             [] \<Rightarrow> Inl EntropyFailed
           | salt # salts \<Rightarrow>
               and_then (hash_password lib salt raw) (\<lambda>h.
               and_then (mint_codes lib n bs salts) (\<lambda>(plain, stored).
                 Inr (formatRecoveryCode raw # plain, \<lparr>rc_hash = h, rc_used = None\<rparr> # stored)))))"

definition newRecoveryCodes :: "acc_lib \<Rightarrow> 8 word list \<Rightarrow> string list \<Rightarrow> acc_error + string list \<times> recovery_code list" where
  "newRecoveryCodes lib bs salts = mint_codes lib RecoveryCodeCount bs salts"

definition EnrollTOTP ::
  "acc_lib \<Rightarrow> 8 word list \<Rightarrow> string list \<Rightarrow> string \<Rightarrow> string \<Rightarrow> save_outcome \<Rightarrow> acc_sys \<Rightarrow> (acc_error + string list) \<times> acc_sys" where
  "EnrollTOTP lib bs salts i secret out sys =
     (if secret = [] then (Inl SecretRequired, sys)
      else
        case newRecoveryCodes lib bs salts of
          Inl e \<Rightarrow> (Inl e, sys)
        | Inr (plain, stored) \<Rightarrow>
            acc_mutate False (\<lambda>c. with_user i (\<lambda>u.
              if u_totp u \<noteq> [] then Refused AlreadyEnrolled
              else Changed (put_user i (\<lambda>u. u\<lparr>u_totp := secret, u_codes := stored\<rparr>) c) plain) c) out sys)"

definition GenerateRecoveryCodes ::
  "acc_lib \<Rightarrow> 8 word list \<Rightarrow> string list \<Rightarrow> string \<Rightarrow> save_outcome \<Rightarrow> acc_sys \<Rightarrow> (acc_error + string list) \<times> acc_sys" where
  "GenerateRecoveryCodes lib bs salts i out sys =
     (case newRecoveryCodes lib bs salts of
        Inl e \<Rightarrow> (Inl e, sys)
      | Inr (plain, stored) \<Rightarrow>
          acc_mutate False (\<lambda>c. with_user i (\<lambda>u.
            if u_totp u = [] then Refused NotEnrolled
            else Changed (put_user i (\<lambda>u. u\<lparr>u_codes := stored\<rparr>) c) plain) c) out sys)"

definition ResetTOTP :: "string \<Rightarrow> save_outcome \<Rightarrow> acc_sys \<Rightarrow> (acc_error + unit) \<times> acc_sys" where
  "ResetTOTP i out sys =
     acc_mutate False (\<lambda>c. with_user i (\<lambda>u. Changed (put_user i (\<lambda>u. u\<lparr>u_totp := [], u_codes := []\<rparr>) c) ()) c) out sys"

text \<open>The hashes of the account's codes as they are now, empty for a used one, and the first that matches.\<close>

definition snapshot_codes :: "string \<Rightarrow> acc_sys \<Rightarrow> string list" where
  "snapshot_codes i sys =
     concat (map (\<lambda>u. map (\<lambda>rc. if rc_used rc = None then rc_hash rc else []) (u_codes u))
       (filter (\<lambda>u. u_id u = i) (a_users (accounts_of sys))))"

fun first_index :: "('a \<Rightarrow> bool) \<Rightarrow> 'a list \<Rightarrow> nat option" where
  "first_index p [] = None"
| "first_index p (x # xs) = (if p x then Some 0 else map_option Suc (first_index p xs))"

definition match_code :: "acc_lib \<Rightarrow> string \<Rightarrow> string list \<Rightarrow> (nat \<times> string) option" where
  "match_code lib norm hashes =
     map_option (\<lambda>m. (m, hashes ! m)) (first_index (\<lambda>h. h \<noteq> [] \<and> al_compare lib h norm) hashes)"

definition mark_code :: "nat \<Rightarrow> time \<Rightarrow> user \<Rightarrow> user" where
  "mark_code m now u = u\<lparr>u_codes := (u_codes u)[m := (u_codes u ! m)\<lparr>rc_used := Some now\<rparr>]\<rparr>"

definition commit_edit :: "string \<Rightarrow> nat \<Rightarrow> string \<Rightarrow> time \<Rightarrow> accounts \<Rightarrow> bool edit" where
  "commit_edit i m h now c =
     (case find_user i c of
        None \<Rightarrow> Unchanged False
      | Some u \<Rightarrow>
          if length (u_codes u) \<le> m then Unchanged False
          else if rc_used (u_codes u ! m) \<noteq> None \<or> rc_hash (u_codes u ! m) \<noteq> h then Unchanged False
          else Changed (put_user i (mark_code m now) c) True)"

definition commit_code :: "string \<Rightarrow> nat \<Rightarrow> string \<Rightarrow> time \<Rightarrow> save_outcome \<Rightarrow> acc_sys \<Rightarrow> (acc_error + bool) \<times> acc_sys" where
  "commit_code i m h now out sys = acc_mutate True (commit_edit i m h now) out sys"

definition consumeRecoveryCode ::
  "acc_lib \<Rightarrow> string \<Rightarrow> string \<Rightarrow> time \<Rightarrow> save_outcome \<Rightarrow> acc_sys \<Rightarrow> (acc_error + bool) \<times> acc_sys" where
  "consumeRecoveryCode lib i norm now out sys =
     (case match_code lib norm (snapshot_codes i sys) of
        None \<Rightarrow> (Inr False, sys)
      | Some (m, h) \<Rightarrow> commit_code i m h now out sys)"

subsection \<open>Signing in\<close>

definition verifyPassword :: "acc_lib \<Rightarrow> string \<Rightarrow> string \<Rightarrow> acc_sys \<Rightarrow> acc_error + user" where
  "verifyPassword lib username password sys =
     (if a_users (accounts_of sys) = [] then Inl AuthDisabled
      else
        case UserByUsername username sys of
          None \<Rightarrow> Inl InvalidCredentials
        | Some u \<Rightarrow>
            if \<not> user_enabled u then Inl AccountDisabled
            else if \<not> al_compare lib (u_hash u) password then Inl InvalidCredentials
            else Inr u)"

definition secondFactor ::
  "acc_lib \<Rightarrow> user \<Rightarrow> string \<Rightarrow> time \<Rightarrow> save_outcome \<Rightarrow> acc_sys \<Rightarrow> (acc_error + bool) \<times> acc_sys" where
  "secondFactor lib u code now out sys =
     (if \<not> totpActive (am_mode (as_mem sys)) u \<or> u_totp u = [] then (Inr False, sys)
      else if al_totp lib code (u_totp u) now then (Inr False, sys)
      else
        let norm = normalizeRecoveryCode code in
        if \<not> looksLikeRecoveryCode norm then (Inl InvalidSecondFactor, sys)
        else
          case consumeRecoveryCode lib (u_id u) norm now out sys of
            (Inl e, sys) \<Rightarrow> (Inl e, sys)
          | (Inr ok, sys) \<Rightarrow> (if ok then Inr True else Inl InvalidSecondFactor, sys))"

definition Verify ::
  "acc_lib \<Rightarrow> string \<Rightarrow> string \<Rightarrow> string \<Rightarrow> time \<Rightarrow> save_outcome \<Rightarrow> acc_sys \<Rightarrow> (acc_error + user) \<times> acc_sys" where
  "Verify lib username password code now out sys =
     (case verifyPassword lib username password sys of
        Inl e \<Rightarrow> (Inl e, sys)
      | Inr u \<Rightarrow>
          (case secondFactor lib u code now out sys of
             (Inl e, sys) \<Rightarrow> (Inl e, sys)
           | (Inr _, sys) \<Rightarrow> (Inr u, sys)))"

text \<open>
  The first factor of \<open>Authenticate\<close>: a local account's password, an LDAP account's bind, or a bind and a new guest.
  \<open>ldap\<close> is the directory, when there is one.
\<close>

definition first_factor ::
  "acc_lib \<Rightarrow> (string \<Rightarrow> string \<Rightarrow> bool) option \<Rightarrow> string \<Rightarrow> string \<Rightarrow> time \<Rightarrow> save_outcome \<Rightarrow> acc_sys \<Rightarrow> (acc_error + user) \<times> acc_sys" where
  "first_factor lib ldap username password now out sys =
     (case UserByUsername username sys of
        Some u \<Rightarrow>
          if u_source u = SourceLDAP then
            (case ldap of
               None \<Rightarrow> (Inl InvalidCredentials, sys)
             | Some bind \<Rightarrow>
                 if \<not> user_enabled u then (Inl AccountDisabled, sys)
                 else if \<not> bind username password then (Inl InvalidCredentials, sys)
                 else (Inr u, sys))
          else (verifyPassword lib username password sys, sys)
      | None \<Rightarrow>
          (case ldap of
             None \<Rightarrow> (Inl InvalidCredentials, sys)
           | Some bind \<Rightarrow>
               if \<not> bind username password then (Inl InvalidCredentials, sys)
               else
                 case AddLDAPUser lib username now out sys of
                   (Inr (u, _), sys) \<Rightarrow> (Inr u, sys)
                 | (Inl _, sys) \<Rightarrow>
                     (case UserByUsername username sys of
                        None \<Rightarrow> (Inl InvalidCredentials, sys)
                      | Some u \<Rightarrow> (if u_source u \<noteq> SourceLDAP then Inl InvalidCredentials else Inr u, sys))))"

definition Authenticate ::
  "acc_lib \<Rightarrow> (string \<Rightarrow> string \<Rightarrow> bool) option \<Rightarrow> string \<Rightarrow> string \<Rightarrow> string \<Rightarrow> time \<Rightarrow> save_outcome \<Rightarrow> save_outcome \<Rightarrow> acc_sys \<Rightarrow>
    (acc_error + user \<times> bool) \<times> acc_sys" where
  "Authenticate lib ldap username password code now out out' sys =
     (if username = [] \<or> password = [] then (Inl MissingCredentials, sys)
      else
        case first_factor lib ldap username password now out sys of
          (Inl e, sys) \<Rightarrow> (Inl e, sys)
        | (Inr u, sys) \<Rightarrow>
            (case secondFactor lib u code now out' sys of
               (Inl e, sys) \<Rightarrow> (Inl e, sys)
             | (Inr used, sys) \<Rightarrow>
                 (Inr (if used then (case UserByID (u_id u) sys of None \<Rightarrow> u | Some fresh \<Rightarrow> fresh) else u, used), sys)))"
end
