(* ===== verification/SpaTokens.thy ===== *)
theory SpaTokens
  imports JsonStore GoStrings
begin

text \<open>
  \<open>internal/auth/spa_tokens.go\<close>: the sessions of the web application. A session has a sliding deadline, which
  a refresh extends, and an absolute one, which nothing extends. As in \<open>TokenStore\<close> an operation maps the pair of the
  store and its file to its result and the new pair; the hash of a secret, the random bytes, the clock and the
  outcome of a save are arguments.

  \<open>spa_step\<close> is one operation, a restart or the passing of time, with ghost fields for what was handed out and
  what was revoked with a save that succeeded.
\<close>

subsection \<open>The store and its file\<close>

record spa_token =
  sp_id :: string
  sp_hash :: string
  sp_user :: string
  sp_agent :: string
  sp_issued :: time
  sp_expires :: time
  sp_hard :: time
  sp_seen :: time

record spa_store =
  ss_tokens :: "spa_token list"
  ss_mtime :: time
  ss_sliding :: duration
  ss_hard :: duration

type_synonym spa_sys = "spa_store \<times> spa_token list json_file"

datatype spa_error = UserIDRequired | SpaEntropyError | SpaNotSaved | SpaHardExpired | SpaExpired | SpaNotFound

definition defaultSpaSlidingTTL :: duration where "defaultSpaSlidingTTL = 24 * hour"
definition defaultSpaHardTTL :: duration where "defaultSpaHardTTL = 7 * 24 * hour"
definition spaTokenPrefix :: string where "spaTokenPrefix = ''gsp_''"

definition spa_load :: "spa_token list json_file \<Rightarrow> spa_store \<Rightarrow> spa_store option" where
  "spa_load f s =
     (case f of
        Absent \<Rightarrow> Some (s\<lparr>ss_tokens := [], ss_mtime := 0\<rparr>)
      | StatError \<Rightarrow> None
      | Present t None \<Rightarrow> None
      | Present t (Some c) \<Rightarrow> Some (s\<lparr>ss_tokens := c, ss_mtime := t\<rparr>))"

definition OpenSpaTokens :: "spa_token list json_file \<Rightarrow> spa_sys option" where
  "OpenSpaTokens f =
     map_option (\<lambda>s. (s, f)) (spa_load f \<lparr>ss_tokens = [], ss_mtime = 0, ss_sliding = defaultSpaSlidingTTL, ss_hard = defaultSpaHardTTL\<rparr>)"

definition SetTTL :: "duration \<Rightarrow> duration \<Rightarrow> spa_sys \<Rightarrow> spa_sys" where
  "SetTTL sliding hard sys = (case sys of (s, f) \<Rightarrow> (s\<lparr>ss_sliding := sliding, ss_hard := hard\<rparr>, f))"

definition spa_reload :: "spa_token list json_file \<Rightarrow> spa_store \<Rightarrow> spa_store" where
  "spa_reload f s =
     (case f of
        Absent \<Rightarrow> if ss_mtime s \<noteq> 0 \<or> ss_tokens s \<noteq> [] then s\<lparr>ss_tokens := [], ss_mtime := 0\<rparr> else s
      | StatError \<Rightarrow> s
      | Present t c \<Rightarrow> if t = ss_mtime s then s else (case spa_load f s of None \<Rightarrow> s | Some s' \<Rightarrow> s'))"

definition spa_save :: "save_outcome \<Rightarrow> spa_sys \<Rightarrow> bool \<times> spa_sys" where
  "spa_save out sys =
     (case sys of (s, f) \<Rightarrow>
        (case out of
           SaveFails \<Rightarrow> (False, (s, f))
         | Saved t stat_ok \<Rightarrow> (True, (if stat_ok then s\<lparr>ss_mtime := t\<rparr> else s, Present t (Some (ss_tokens s))))))"

interpretation spafile: json_store ss_tokens ss_mtime "[]" spa_reload spa_save
  by unfold_locales
    (auto simp: spa_reload_def spa_load_def spa_save_def split: json_file.splits option.splits)

definition spa_sync :: "spa_sys \<Rightarrow> spa_sys" where
  "spa_sync sys = (case sys of (s, f) \<Rightarrow> (spa_reload f s, f))"

definition sessions :: "spa_sys \<Rightarrow> spa_token list" where
  "sessions sys = ss_tokens (fst sys)"

definition set_sessions :: "spa_token list \<Rightarrow> spa_sys \<Rightarrow> spa_sys" where
  "set_sessions ts sys = (case sys of (s, f) \<Rightarrow> (s\<lparr>ss_tokens := ts\<rparr>, f))"

definition spa_saved :: "save_outcome \<Rightarrow> spa_sys \<Rightarrow> (spa_error + unit) \<times> spa_sys" where
  "spa_saved out sys = (case spa_save out sys of (ok, sys) \<Rightarrow> (if ok then Inr () else Inl SpaNotSaved, sys))"

subsection \<open>The operations\<close>

definition slidingDeadline :: "spa_sys \<Rightarrow> time \<Rightarrow> time \<Rightarrow> time" where
  "slidingDeadline sys now hard = (let d = now + ss_sliding (fst sys) in if d < hard then d else hard)"

definition spa_Create ::
  "(string \<Rightarrow> string) \<Rightarrow> string option \<Rightarrow> string \<Rightarrow> string \<Rightarrow> time \<Rightarrow> save_outcome \<Rightarrow> spa_sys \<Rightarrow> (spa_error + string \<times> spa_token) \<times> spa_sys" where
  "spa_Create hash_of random user agent now out sys =
     (if user = [] then (Inl UserIDRequired, sys)
      else
        case random of
          None \<Rightarrow> (Inl SpaEntropyError, sys)
        | Some raw \<Rightarrow>
            let plaintext = spaTokenPrefix @ raw; h = hash_of plaintext; hard = now + ss_hard (fst sys);
                tok = \<lparr>sp_id = take 8 h, sp_hash = h, sp_user = user, sp_agent = agent, sp_issued = now,
                       sp_expires = slidingDeadline sys now hard, sp_hard = hard, sp_seen = now\<rparr>;
                sys1 = spa_sync sys
            in case spa_save out (set_sessions (sessions sys1 @ [tok]) sys1) of
                 (ok, sys2) \<Rightarrow> (if ok then Inr (plaintext, tok) else Inl SpaNotSaved, sys2))"

definition spa_Validate :: "(string \<Rightarrow> string) \<Rightarrow> string \<Rightarrow> time \<Rightarrow> spa_sys \<Rightarrow> (spa_error + spa_token) \<times> spa_sys" where
  "spa_Validate hash_of plaintext now sys =
     (let h = hash_of plaintext; sys = spa_sync sys in
      case find (\<lambda>t. sp_hash t = h) (sessions sys) of
        None \<Rightarrow> (Inl SpaNotFound, sys)
      | Some t \<Rightarrow>
          if now > sp_hard t then (Inl SpaHardExpired, sys)
          else if now > sp_expires t then (Inl SpaExpired, sys)
          else (Inr (t\<lparr>sp_seen := now\<rparr>),
                set_sessions (update_first (\<lambda>t. sp_hash t = h) (\<lambda>t. t\<lparr>sp_seen := now\<rparr>) (sessions sys)) sys))"

definition spa_Check :: "(string \<Rightarrow> string) \<Rightarrow> string \<Rightarrow> time \<Rightarrow> spa_sys \<Rightarrow> (spa_error + spa_token) \<times> spa_sys" where
  "spa_Check hash_of plaintext now sys =
     (let h = hash_of plaintext; sys = spa_sync sys in
      case find (\<lambda>t. sp_hash t = h) (sessions sys) of
        None \<Rightarrow> (Inl SpaNotFound, sys)
      | Some t \<Rightarrow> if now > sp_hard t \<or> now > sp_expires t then (Inl SpaExpired, sys) else (Inr t, sys))"

text \<open>A refresh whose save fails has moved the deadline in memory all the same.\<close>

definition spa_Refresh ::
  "(string \<Rightarrow> string) \<Rightarrow> string \<Rightarrow> time \<Rightarrow> save_outcome \<Rightarrow> spa_sys \<Rightarrow> (spa_error + spa_token) \<times> spa_sys" where
  "spa_Refresh hash_of plaintext now out sys =
     (let h = hash_of plaintext; sys = spa_sync sys in
      case find (\<lambda>t. sp_hash t = h) (sessions sys) of
        None \<Rightarrow> (Inl SpaNotFound, sys)
      | Some t \<Rightarrow>
          if now > sp_hard t then (Inl SpaHardExpired, sys)
          else
            let upd = (\<lambda>t. t\<lparr>sp_expires := slidingDeadline sys now (sp_hard t), sp_seen := now\<rparr>) in
            case spa_save out (set_sessions (update_first (\<lambda>t. sp_hash t = h) upd (sessions sys)) sys) of
              (ok, sys) \<Rightarrow> (if ok then Inr (upd t) else Inl SpaNotSaved, sys))"

text \<open>The loop the revocations share: how many went, and the error of the save.\<close>

definition spa_remove :: "(spa_token \<Rightarrow> bool) \<Rightarrow> save_outcome \<Rightarrow> spa_sys \<Rightarrow> (nat \<times> (spa_error + unit)) \<times> spa_sys" where
  "spa_remove bad out sys =
     (let sys = spa_sync sys; n = length (filter bad (sessions sys)); sys = set_sessions (filter (\<lambda>t. \<not> bad t) (sessions sys)) sys in
      if n = 0 then ((0, Inr ()), sys) else case spa_saved out sys of (r, sys) \<Rightarrow> ((n, r), sys))"

definition RevokeByID :: "string \<Rightarrow> save_outcome \<Rightarrow> spa_sys \<Rightarrow> (spa_error + unit) \<times> spa_sys" where
  "RevokeByID i out sys = (case spa_remove (\<lambda>t. sp_id t = i) out sys of ((n, r), sys) \<Rightarrow> (r, sys))"

definition RevokeByHash :: "string \<Rightarrow> save_outcome \<Rightarrow> spa_sys \<Rightarrow> (spa_error + unit) \<times> spa_sys" where
  "RevokeByHash h out sys = (case spa_remove (\<lambda>t. sp_hash t = h) out sys of ((n, r), sys) \<Rightarrow> (r, sys))"

definition spa_Revoke :: "(string \<Rightarrow> string) \<Rightarrow> string \<Rightarrow> save_outcome \<Rightarrow> spa_sys \<Rightarrow> (spa_error + unit) \<times> spa_sys" where
  "spa_Revoke hash_of plaintext out sys = RevokeByHash (hash_of plaintext) out sys"

definition RevokeByUser :: "string \<Rightarrow> save_outcome \<Rightarrow> spa_sys \<Rightarrow> nat \<times> spa_sys" where
  "RevokeByUser user out sys = (case spa_remove (\<lambda>t. sp_user t = user) out sys of ((n, r), sys) \<Rightarrow> (n, sys))"

definition RevokeByUserExcept :: "(string \<Rightarrow> string) \<Rightarrow> string \<Rightarrow> string \<Rightarrow> save_outcome \<Rightarrow> spa_sys \<Rightarrow> nat \<times> spa_sys" where
  "RevokeByUserExcept hash_of user kept out sys =
     (case spa_remove (\<lambda>t. sp_user t = user \<and> sp_hash t \<noteq> hash_of kept) out sys of ((n, r), sys) \<Rightarrow> (n, sys))"

definition spa_expired :: "time \<Rightarrow> spa_token \<Rightarrow> bool" where
  "spa_expired now t = (now > sp_hard t \<or> now > sp_expires t)"

definition PruneExpired :: "time \<Rightarrow> save_outcome \<Rightarrow> spa_sys \<Rightarrow> (spa_error + unit) \<times> spa_sys" where
  "PruneExpired now out sys = (case spa_remove (spa_expired now) out sys of ((n, r), sys) \<Rightarrow> (r, sys))"

definition ListByUser :: "string \<Rightarrow> time \<Rightarrow> spa_sys \<Rightarrow> spa_token list" where
  "ListByUser user now sys =
     sort_key (\<lambda>t. - sp_issued t) (filter (\<lambda>t. sp_user t = user \<and> \<not> spa_expired now t) (sessions sys))"

definition Count :: "spa_sys \<Rightarrow> nat" where
  "Count sys = length (sessions sys)"

subsection \<open>Any operations\<close>

text \<open>The ghost fields: whom each session was created for, when, and its absolute deadline; and the sessions whose
  removal was saved.\<close>

record spa_world =
  sw_sys :: spa_sys
  sw_clock :: time
  sw_born :: "string \<Rightarrow> (string \<times> time \<times> time) option"
  sw_dead :: "string set"

inductive spa_step :: "(string \<Rightarrow> string) \<Rightarrow> spa_world \<Rightarrow> spa_world \<Rightarrow> bool" for hash_of where
  SpaTick: "sw_clock w \<le> t \<Longrightarrow> spa_step hash_of w (w\<lparr>sw_clock := t\<rparr>)"
| SpaTTL: "spa_step hash_of w (w\<lparr>sw_sys := SetTTL sliding hard (sw_sys w)\<rparr>)"
| SpaCreated: "spa_Create hash_of (Some raw) user agent (sw_clock w) out (sw_sys w) = (r, sys') \<Longrightarrow> user \<noteq> [] \<Longrightarrow>
    h = hash_of (spaTokenPrefix @ raw) \<Longrightarrow> sw_born w h = None \<Longrightarrow>
    spa_step hash_of w (w\<lparr>sw_sys := sys', sw_born := (sw_born w)(h := Some (user, sw_clock w, sw_clock w + ss_hard (fst (sw_sys w))))\<rparr>)"
| SpaUsed: "spa_Validate hash_of p (sw_clock w) (sw_sys w) = (r, sys') \<Longrightarrow> spa_step hash_of w (w\<lparr>sw_sys := sys'\<rparr>)"
| SpaChecked: "spa_Check hash_of p (sw_clock w) (sw_sys w) = (r, sys') \<Longrightarrow> spa_step hash_of w (w\<lparr>sw_sys := sys'\<rparr>)"
| SpaRefreshed: "spa_Refresh hash_of p (sw_clock w) out (sw_sys w) = (r, sys') \<Longrightarrow> spa_step hash_of w (w\<lparr>sw_sys := sys'\<rparr>)"
| SpaRemoved: "spa_remove bad out (sw_sys w) = (r, sys') \<Longrightarrow>
    spa_step hash_of w (w\<lparr>sw_sys := sys',
      sw_dead := sw_dead w \<union> (if out = SaveFails then {} else sp_hash ` {t \<in> set (sessions (spa_sync (sw_sys w))). bad t})\<rparr>)"
| SpaRestarted: "OpenSpaTokens (snd (sw_sys w)) = Some sys' \<Longrightarrow> spa_step hash_of w (w\<lparr>sw_sys := sys'\<rparr>)"

inductive spa_reachable :: "(string \<Rightarrow> string) \<Rightarrow> spa_world \<Rightarrow> bool" for hash_of where
  SpaStarted: "OpenSpaTokens Absent = Some sys \<Longrightarrow>
    spa_reachable hash_of \<lparr>sw_sys = sys, sw_clock = now, sw_born = (\<lambda>_. None), sw_dead = {}\<rparr>"
| SpaStep: "spa_reachable hash_of w \<Longrightarrow> spa_step hash_of w w' \<Longrightarrow> spa_reachable hash_of w'"

text \<open>What the file holds, and what is true of every session in memory or in the file.\<close>

definition file_sessions :: "spa_sys \<Rightarrow> spa_token list" where
  "file_sessions sys = (case snd sys of Present t (Some c) \<Rightarrow> c | _ \<Rightarrow> [])"

definition session_ok :: "spa_world \<Rightarrow> spa_token \<Rightarrow> bool" where
  "session_ok w t \<longleftrightarrow>
     sw_born w (sp_hash t) = Some (sp_user t, sp_issued t, sp_hard t) \<and> sp_hash t \<notin> sw_dead w \<and> sp_expires t \<le> sp_hard t"

definition all_sessions :: "spa_sys \<Rightarrow> spa_token set" where
  "all_sessions sys = set (sessions sys) \<union> set (file_sessions sys)"

definition sessions_ok :: "spa_world \<Rightarrow> bool" where
  "sessions_ok w \<longleftrightarrow>
     (\<forall>t\<in>all_sessions (sw_sys w). session_ok w t) \<and> (\<forall>h\<in>sw_dead w. sw_born w h \<noteq> None) \<and>
     distinct (map sp_hash (sessions (sw_sys w))) \<and> distinct (map sp_hash (file_sessions (sw_sys w)))"

lemma spa_sync_sessions: "sessions (spa_sync sys) \<in> {sessions sys, file_sessions sys}" "file_sessions (spa_sync sys) = file_sessions sys"
  by (auto simp: sessions_def file_sessions_def spa_sync_def spa_reload_def spa_load_def split: prod.split json_file.splits option.splits)

lemma set_sessions_parts [simp]:
  "sessions (set_sessions ts sys) = ts" "file_sessions (set_sessions ts sys) = file_sessions sys"
  by (simp_all add: sessions_def file_sessions_def set_sessions_def split: prod.split)

lemma spa_save_parts:
  assumes "spa_save out sys = (ok, sys')"
  shows "sessions sys' = sessions sys" "file_sessions sys' = (if out = SaveFails then file_sessions sys else sessions sys)"
    "ok \<longleftrightarrow> out \<noteq> SaveFails"
  using assms by (auto simp: spa_save_def sessions_def file_sessions_def split: prod.splits save_outcome.splits)

text \<open>An operation that syncs, rewrites the list and saves or not.\<close>

lemma sync_all: "all_sessions (spa_sync sys) \<subseteq> all_sessions sys"
  using spa_sync_sessions [of sys] by (auto simp: all_sessions_def)

lemma sync_mem: "t \<in> set (sessions (spa_sync sys)) \<Longrightarrow> t \<in> all_sessions sys"
  using sync_all [of sys] by (auto simp: all_sessions_def)

lemma sync_distinct:
  assumes "distinct (map sp_hash (sessions sys))" and "distinct (map sp_hash (file_sessions sys))"
  shows "distinct (map sp_hash (sessions (spa_sync sys)))"
  using assms spa_sync_sessions(1) [of sys] by auto

definition same_session :: "spa_token \<Rightarrow> spa_token \<Rightarrow> bool" where
  "same_session u t \<longleftrightarrow> sp_hash t = sp_hash u \<and> sp_user t = sp_user u \<and> sp_issued t = sp_issued u \<and> sp_hard t = sp_hard u \<and>
     (sp_expires t = sp_expires u \<or> sp_expires t \<le> sp_hard t)"

lemma same_session_refl [simp]: "same_session t t"
  by (simp add: same_session_def)

lemma same_session_updated:
  assumes "t \<in> set ts \<or> t \<in> set (update_first p upd ts)" and "set ts \<subseteq> A" and "\<And>u. same_session u (upd u)"
  shows "\<exists>u\<in>A. same_session u t"
  using assms by (metis same_session_refl set_update_first subsetD)

lemma sessions_ok_rewritten:
  assumes "sessions_ok w" and "sessions sys' = ts" and "file_sessions sys' \<in> {file_sessions (sw_sys w), ts}"
    and "distinct (map sp_hash ts)" and "\<And>t. t \<in> set ts \<Longrightarrow> \<exists>u\<in>all_sessions (sw_sys w). same_session u t"
  shows "sessions_ok (w\<lparr>sw_sys := sys'\<rparr>)"
proof -
  have "session_ok w t" if "t \<in> set ts" for t
    using assms(1) assms(5) [OF that] by (auto simp: sessions_ok_def session_ok_def same_session_def)
  moreover have "session_ok w t" if "t \<in> set (file_sessions (sw_sys w))" for t
    using assms(1) that by (simp add: sessions_ok_def all_sessions_def)
  ultimately have "\<forall>t\<in>all_sessions sys'. session_ok w t" using assms(2,3) by (auto simp: all_sessions_def)
  then show ?thesis using assms(1-4) by (auto simp: sessions_ok_def session_ok_def)
qed

lemma update_hash [simp]: "(\<And>t. sp_hash (upd t) = sp_hash t) \<Longrightarrow> map sp_hash (update_first p upd ts) = map sp_hash ts"
  by (rule map_update_first)

lemma sessions_step: "spa_step hash_of w w' \<Longrightarrow> sessions_ok w \<Longrightarrow> sessions_ok w'"
proof (induction rule: spa_step.induct)
  case (SpaTick w t)
  then show ?case by (simp add: sessions_ok_def session_ok_def)
next
  case (SpaTTL w sliding hard)
  have "sessions (SetTTL sliding hard (sw_sys w)) = sessions (sw_sys w)" "file_sessions (SetTTL sliding hard (sw_sys w)) = file_sessions (sw_sys w)"
    by (simp_all add: SetTTL_def sessions_def file_sessions_def split: prod.split)
  with SpaTTL show ?case by (simp add: sessions_ok_def session_ok_def all_sessions_def)
next
  case (SpaCreated raw user agent w out r sys' h)
  let ?sys = "spa_sync (sw_sys w)" and ?hard = "sw_clock w + ss_hard (fst (sw_sys w))"
  let ?t = "\<lparr>sp_id = take 8 h, sp_hash = h, sp_user = user, sp_agent = agent, sp_issued = sw_clock w,
    sp_expires = slidingDeadline (sw_sys w) (sw_clock w) ?hard, sp_hard = ?hard, sp_seen = sw_clock w\<rparr>"
  let ?w = "w\<lparr>sw_sys := sys', sw_born := (sw_born w)(h := Some (user, sw_clock w, ?hard))\<rparr>"
  obtain ok where save: "spa_save out (set_sessions (sessions ?sys @ [?t]) ?sys) = (ok, sys')"
    using SpaCreated(1-3) by (auto simp: spa_Create_def Let_def split: prod.splits)
  note parts = spa_save_parts [OF save]
  have old: "session_ok ?w t \<and> sp_hash t \<noteq> h" if "t \<in> all_sessions (sw_sys w)" for t
    using SpaCreated(4,5) that by (auto simp: sessions_ok_def session_ok_def)
  have mem: "set (sessions ?sys) \<subseteq> all_sessions (sw_sys w)" using sync_mem by blast
  have "h \<notin> sw_dead w" using SpaCreated(4,5) by (auto simp: sessions_ok_def)
  then have new: "session_ok ?w ?t" by (simp add: session_ok_def slidingDeadline_def Let_def)
  have "\<forall>t\<in>all_sessions sys'. session_ok ?w t"
    using old mem new parts spa_sync_sessions(2) [of "sw_sys w"] by (auto simp: all_sessions_def split: if_splits)
  moreover have "distinct (map sp_hash (sessions ?sys @ [?t]))"
    using sync_distinct SpaCreated(5) old mem by (fastforce simp: sessions_ok_def)
  ultimately show ?case using SpaCreated(5) parts spa_sync_sessions(2) [of "sw_sys w"] by (auto simp: sessions_ok_def split: if_splits)
next
  case (SpaUsed p w r sys')
  let ?sys = "spa_sync (sw_sys w)"
  have mem: "set (sessions ?sys) \<subseteq> all_sessions (sw_sys w)" using sync_mem by blast
  have d: "distinct (map sp_hash (sessions ?sys))" using SpaUsed(2) sync_distinct by (simp add: sessions_ok_def)
  let ?u = "update_first (\<lambda>t. sp_hash t = hash_of p) (\<lambda>t. t\<lparr>sp_seen := sw_clock w\<rparr>) (sessions ?sys)"
  from SpaUsed(1) have "sessions sys' \<in> {sessions ?sys, ?u} \<and> file_sessions sys' = file_sessions (sw_sys w)"
    by (auto simp: spa_Validate_def Let_def spa_sync_sessions(2) split: option.splits if_splits)
  moreover have "\<exists>u\<in>all_sessions (sw_sys w). same_session u t" if "t \<in> set (sessions ?sys) \<or> t \<in> set ?u" for t
    using that mem by (rule same_session_updated) (simp add: same_session_def)
  ultimately show ?case using d by (intro sessions_ok_rewritten [OF SpaUsed(2) refl]) auto
next
  case (SpaChecked p w r sys')
  have sys': "sys' = spa_sync (sw_sys w)" using SpaChecked(1) by (auto simp: spa_Check_def Let_def split: option.splits if_splits)
  have "distinct (map sp_hash (sessions sys'))" using SpaChecked(2) sync_distinct sys' by (simp add: sessions_ok_def)
  moreover have "\<exists>u\<in>all_sessions (sw_sys w). same_session u t" if "t \<in> set (sessions sys')" for t
    using that sync_mem sys' by (intro bexI [of _ t]) auto
  ultimately show ?case using spa_sync_sessions(2) [of "sw_sys w"] sys'
    by (intro sessions_ok_rewritten [OF SpaChecked(2) refl]) simp_all
next
  case (SpaRefreshed p w out r sys')
  let ?sys = "spa_sync (sw_sys w)"
  let ?upd = "\<lambda>t. t\<lparr>sp_expires := slidingDeadline ?sys (sw_clock w) (sp_hard t), sp_seen := sw_clock w\<rparr>"
  have mem: "set (sessions ?sys) \<subseteq> all_sessions (sw_sys w)" using sync_mem by blast
  have d: "distinct (map sp_hash (sessions ?sys))" using SpaRefreshed(2) sync_distinct by (simp add: sessions_ok_def)
  let ?u = "update_first (\<lambda>t. sp_hash t = hash_of p) ?upd (sessions ?sys)"
  from SpaRefreshed(1) have "sys' = ?sys \<or> (\<exists>ok. spa_save out (set_sessions ?u ?sys) = (ok, sys'))"
    by (auto simp: spa_Refresh_def Let_def split: option.splits if_splits prod.splits)
  then have "sessions sys' \<in> {sessions ?sys, ?u} \<and> file_sessions sys' \<in> {file_sessions (sw_sys w), sessions sys'}"
  proof
    assume "\<exists>ok. spa_save out (set_sessions ?u ?sys) = (ok, sys')"
    then obtain ok where "spa_save out (set_sessions ?u ?sys) = (ok, sys')" ..
    from spa_save_parts [OF this] spa_sync_sessions(2) [of "sw_sys w"] show ?thesis by (cases "out = SaveFails") simp_all
  qed (simp add: spa_sync_sessions(2))
  moreover have "\<exists>u\<in>all_sessions (sw_sys w). same_session u t" if "t \<in> set (sessions ?sys) \<or> t \<in> set ?u" for t
    using that mem by (rule same_session_updated) (simp add: same_session_def slidingDeadline_def Let_def)
  ultimately show ?case using d by (intro sessions_ok_rewritten [OF SpaRefreshed(2) refl]) auto
next
  case (SpaRemoved bad out w r sys')
  let ?sys = "spa_sync (sw_sys w)" and ?kept = "filter (\<lambda>t. \<not> bad t) (sessions (spa_sync (sw_sys w)))"
  let ?gone = "if out = SaveFails then {} else sp_hash ` {t \<in> set (sessions ?sys). bad t}"
  have mem: "set (sessions ?sys) \<subseteq> all_sessions (sw_sys w)" using sync_mem by blast
  have d: "distinct (map sp_hash (sessions ?sys))" using SpaRemoved(2) sync_distinct by (simp add: sessions_ok_def)
  have s: "sessions sys' = ?kept \<and> file_sessions sys' \<in> {file_sessions (sw_sys w), ?kept} \<and> (?gone \<noteq> {} \<longrightarrow> file_sessions sys' = ?kept)"
  proof (cases "filter bad (sessions ?sys) = []")
    case True
    then have "sys' = set_sessions ?kept ?sys" "?gone = {}"
      using SpaRemoved(1) by (auto simp: spa_remove_def Let_def filter_empty_conv)
    then show ?thesis by (simp add: spa_sync_sessions(2))
  next
    case False
    then obtain ok where "spa_save out (set_sessions ?kept ?sys) = (ok, sys')"
      using SpaRemoved(1) by (auto simp: spa_remove_def spa_saved_def Let_def split: prod.splits)
    from spa_save_parts [OF this] show ?thesis by (cases "out = SaveFails") (simp_all add: spa_sync_sessions(2))
  qed
  have kept: "\<exists>u\<in>all_sessions (sw_sys w). same_session u t" if "t \<in> set ?kept" for t
    using that mem by (auto intro!: bexI [of _ t])
  have "distinct (map sp_hash ?kept)" using d by (metis distinct_map_filter)
  from sessions_ok_rewritten [OF SpaRemoved(2) conjunct1 [OF s] _ this kept] s have ok: "sessions_ok (w\<lparr>sw_sys := sys'\<rparr>)" by simp
  have fresh: "sp_hash t \<notin> sp_hash ` {t \<in> set (sessions ?sys). bad t}" if "t \<in> set ?kept" for t
    using that d by (auto dest: inj_onD [OF conjunct2 [OF iffD1 [OF distinct_map]]])
  have born: "sw_born w (sp_hash t) \<noteq> None" if "t \<in> set (sessions ?sys)" for t
    using SpaRemoved(2) that mem by (auto simp: sessions_ok_def session_ok_def)
  show ?case
  proof (cases "?gone = {}")
    case True
    then show ?thesis using ok by simp
  next
    case False
    then have "all_sessions sys' = set ?kept" using s by (auto simp: all_sessions_def)
    with ok fresh born show ?thesis by (auto simp: sessions_ok_def session_ok_def)
  qed
next
  case (SpaRestarted w sys')
  then have "sessions sys' = file_sessions (sw_sys w)" "file_sessions sys' = file_sessions (sw_sys w)"
    by (auto simp: OpenSpaTokens_def spa_load_def sessions_def file_sessions_def split: json_file.splits option.splits)
  with SpaRestarted(2) show ?case by (auto simp: sessions_ok_def session_ok_def all_sessions_def)
qed

lemma reachable_sessions: "spa_reachable hash_of w \<Longrightarrow> sessions_ok w"
proof (induction rule: spa_reachable.induct)
  case (SpaStarted sys now)
  then show ?case
    by (auto simp: OpenSpaTokens_def spa_load_def sessions_ok_def all_sessions_def sessions_def file_sessions_def)
next
  case (SpaStep w w')
  then show ?case using sessions_step by blast
qed

text \<open>C39: Over any operations, failed saves and restarts included, a session that is accepted was created for the account it
  names, is not past the absolute deadline it was created with, whatever refreshes it had, and is none of those whose
  removal was saved.\<close>

theorem session_bounded:
  assumes "spa_reachable hash_of w" and "spa_Validate hash_of p now (sw_sys w) = (Inr t, sys')"
  shows "\<exists>issued hard. sw_born w (hash_of p) = Some (sp_user t, issued, hard) \<and> now \<le> hard \<and> now \<le> sp_expires t \<and>
    sp_expires t \<le> hard \<and> hash_of p \<notin> sw_dead w"
proof -
  let ?sys = "spa_sync (sw_sys w)"
  obtain u where u: "find (\<lambda>t. sp_hash t = hash_of p) (sessions ?sys) = Some u" "\<not> now > sp_hard u" "\<not> now > sp_expires u" "t = u\<lparr>sp_seen := now\<rparr>"
    using assms(2) by (auto simp: spa_Validate_def Let_def split: option.splits if_splits)
  then have "u \<in> all_sessions (sw_sys w)" "sp_hash u = hash_of p"
    using find_Some_iff' [OF u(1)] sync_mem by simp_all
  with reachable_sessions [OF assms(1)] have "session_ok w u" by (simp add: sessions_ok_def)
  with u \<open>sp_hash u = hash_of p\<close> show ?thesis by (auto simp: session_ok_def)
qed

text \<open>One session, created and used.\<close>

definition spa_first :: spa_sys where
  "spa_first = (\<lparr>ss_tokens = [], ss_mtime = 0, ss_sliding = defaultSpaSlidingTTL, ss_hard = defaultSpaHardTTL\<rparr>, Absent)"

definition spa_second :: spa_sys where
  "spa_second = snd (spa_Create (\<lambda>s. s) (Some ''a'') ''ann'' ''ua'' 0 (Saved 1 True) spa_first)"

definition spa_world_second :: spa_world where
  "spa_world_second = \<lparr>sw_sys = spa_second, sw_clock = 0, sw_born = (\<lambda>_. None)(''gsp_a'' := Some (''ann'', 0, defaultSpaHardTTL)), sw_dead = {}\<rparr>"

lemma spa_second_reachable: "spa_reachable (\<lambda>s. s) spa_world_second"
proof -
  have "OpenSpaTokens Absent = Some spa_first" by (simp add: OpenSpaTokens_def spa_load_def spa_first_def)
  from SpaStarted [OF this, of "\<lambda>s. s" 0] have start: "spa_reachable (\<lambda>s. s) \<lparr>sw_sys = spa_first, sw_clock = 0, sw_born = (\<lambda>_. None), sw_dead = {}\<rparr>" .
  show ?thesis
    by (rule SpaStep [OF start], unfold spa_world_second_def)
      (use SpaCreated [of "\<lambda>s. s" "''a''" "''ann''" "''ua''" "\<lparr>sw_sys = spa_first, sw_clock = 0, sw_born = (\<lambda>_. None), sw_dead = {}\<rparr>" "Saved 1 True"
        "fst (spa_Create (\<lambda>s. s) (Some ''a'') ''ann'' ''ua'' 0 (Saved 1 True) spa_first)" spa_second "''gsp_a''"]
       in \<open>simp add: spa_second_def spaTokenPrefix_def spa_first_def\<close>)
qed

lemma session_bounded_witness:
  "\<exists>t sys' issued hard. spa_Validate (\<lambda>s. s) ''gsp_a'' hour spa_second = (Inr t, sys') \<and>
    sw_born spa_world_second ''gsp_a'' = Some (sp_user t, issued, hard) \<and> hour \<le> hard \<and> sp_expires t \<le> hard"
proof -
  have "fst (spa_Validate (\<lambda>s. s) ''gsp_a'' hour spa_second) \<noteq> Inl SpaNotFound \<and> isl (fst (spa_Validate (\<lambda>s. s) ''gsp_a'' hour spa_second)) = False"
    by code_simp
  then obtain t where "fst (spa_Validate (\<lambda>s. s) ''gsp_a'' hour spa_second) = Inr t"
    by (cases "fst (spa_Validate (\<lambda>s. s) ''gsp_a'' hour spa_second)") simp_all
  then obtain sys' where v: "spa_Validate (\<lambda>s. s) ''gsp_a'' hour spa_second = (Inr t, sys')" by (metis prod.collapse)
  have w: "sw_sys spa_world_second = spa_second" by (simp add: spa_world_second_def)
  from session_bounded [OF spa_second_reachable, unfolded w, OF v] v show ?thesis by blast
qed

end
