(* ===== verification/WebApi.thy ===== *)
theory WebApi
  imports WebFactors SpaTokens LoginLimiter ProjectAccess TokenStore
begin

text \<open>
  \<open>internal/api/v1\<close>: signing in (\<open>auth.go\<close>), the gate of every route (\<open>middleware.go\<close>) and of the
  event stream and the attachments (\<open>events.go\<close>, \<open>vaultfiles.go\<close>), and the routes that change accounts
  (\<open>password.go\<close>, \<open>totp.go\<close>, \<open>admin_users.go\<close>, \<open>signup.go\<close>).

  A handler maps a request and the stores of the server to its answer, an HTTP status with its code or what it returns,
  and the new stores. Every store is configured (\<open>AuthDeps\<close> and the projects), the method of the request is right and its
  body decodes; audit entries, cookies, the views of an account and the personal projects are left out. A handler reads the
  clock once, and each save has its own outcome.
\<close>

record web_conf =
  wc_lib :: acc_lib
  wc_hash :: "string \<Rightarrow> string"
  wc_ldap :: "(string \<Rightarrow> string \<Rightarrow> bool) option"
  wc_limits :: login_limits
  wc_open :: bool

record web_sys =
  wb_acc :: acc_sys
  wb_spa :: spa_sys
  wb_tok :: token_sys
  wb_proj :: proj_sys
  wb_lim :: login_limiter

record request_user =
  ru_id :: string
  ru_name :: string
  ru_role :: role
  ru_restricted :: bool

type_synonym api_error = "nat \<times> string"

definition CodeAuthInvalidCredentials :: string where "CodeAuthInvalidCredentials = ''auth.invalid_credentials''"
definition CodeAuthTokenInvalid :: string where "CodeAuthTokenInvalid = ''auth.token_invalid''"
definition CodeAuthTokenExpired :: string where "CodeAuthTokenExpired = ''auth.token_expired''"
definition CodeAuthForbidden :: string where "CodeAuthForbidden = ''auth.forbidden''"
definition CodeAuthOwnerOnly :: string where "CodeAuthOwnerOnly = ''auth.owner_only''"
definition CodeAuthEnrollmentRequired :: string where "CodeAuthEnrollmentRequired = ''auth.enrollment_required''"
definition CodeAuthPasswordChangeRequired :: string where "CodeAuthPasswordChangeRequired = ''auth.password_change_required''"
definition CodeAuthInviteInvalid :: string where "CodeAuthInviteInvalid = ''auth.invite_invalid''"
definition CodeValidationRequired :: string where "CodeValidationRequired = ''validation.required_field''"
definition CodeValidationFormat :: string where "CodeValidationFormat = ''validation.invalid_format''"
definition CodeNotFound :: string where "CodeNotFound = ''resource.not_found''"
definition CodeConflict :: string where "CodeConflict = ''resource.conflict''"
definition CodeRateLimit :: string where "CodeRateLimit = ''request.rate_limited''"
definition CodeServerInternal :: string where "CodeServerInternal = ''server.internal_error''"
definition CodeServerUnavailable :: string where "CodeServerUnavailable = ''server.unavailable''"

text \<open>An operation of one store, in the whole.\<close>

definition on_acc :: "(acc_sys \<Rightarrow> 'a \<times> acc_sys) \<Rightarrow> web_sys \<Rightarrow> 'a \<times> web_sys" where
  "on_acc f s = (case f (wb_acc s) of (a, x) \<Rightarrow> (a, s\<lparr>wb_acc := x\<rparr>))"

definition on_spa :: "(spa_sys \<Rightarrow> 'a \<times> spa_sys) \<Rightarrow> web_sys \<Rightarrow> 'a \<times> web_sys" where
  "on_spa f s = (case f (wb_spa s) of (a, x) \<Rightarrow> (a, s\<lparr>wb_spa := x\<rparr>))"

definition on_tok :: "(token_sys \<Rightarrow> 'a \<times> token_sys) \<Rightarrow> web_sys \<Rightarrow> 'a \<times> web_sys" where
  "on_tok f s = (case f (wb_tok s) of (a, x) \<Rightarrow> (a, s\<lparr>wb_tok := x\<rparr>))"

definition on_proj :: "(proj_sys \<Rightarrow> 'a \<times> proj_sys) \<Rightarrow> web_sys \<Rightarrow> 'a \<times> web_sys" where
  "on_proj f s = (case f (wb_proj s) of (a, x) \<Rightarrow> (a, s\<lparr>wb_proj := x\<rparr>))"

definition lim_allowed :: "web_conf \<Rightarrow> string \<Rightarrow> time \<Rightarrow> web_sys \<Rightarrow> bool \<times> web_sys" where
  "lim_allowed conf key now s = (case allowed (wc_limits conf) key now (wb_lim s) of (b, l) \<Rightarrow> (b, s\<lparr>wb_lim := l\<rparr>))"

definition lim_fail :: "web_conf \<Rightarrow> string \<Rightarrow> time \<Rightarrow> web_sys \<Rightarrow> web_sys" where
  "lim_fail conf key now s = s\<lparr>wb_lim := registerFail (wc_limits conf) key now (wb_lim s)\<rparr>"

definition lim_reset :: "string \<Rightarrow> web_sys \<Rightarrow> web_sys" where
  "lim_reset key s = s\<lparr>wb_lim := login_reset key (wb_lim s)\<rparr>"

subsection \<open>Signing in\<close>

record login_request =
  lr_ip :: string
  lr_username :: string
  lr_password :: string
  lr_code :: string
  lr_agent :: string

record login_result =
  lo_token :: string
  lo_session :: spa_token
  lo_user :: user
  lo_enrollment :: bool
  lo_change :: bool
  lo_recovery :: bool

definition handleLogin ::
  "web_conf \<Rightarrow> login_request \<Rightarrow> string option \<Rightarrow> time \<Rightarrow> save_outcome \<Rightarrow> save_outcome \<Rightarrow> save_outcome \<Rightarrow> web_sys \<Rightarrow>
    (api_error + login_result) \<times> web_sys" where
  "handleLogin conf req random now out out' out'' s =
     (case on_acc StoreEnabled s of (enabled, s) \<Rightarrow>
      if \<not> enabled then (Inl (503, CodeServerUnavailable), s)
      else
        case lim_allowed conf (lr_ip req) now s of (ok, s) \<Rightarrow>
        if \<not> ok then (Inl (429, CodeRateLimit), s)
        else if lr_username req = [] \<or> lr_password req = [] then (Inl (400, CodeValidationRequired), s)
        else
          let acct = accountLimiterKey (lr_username req) in
          case lim_allowed conf acct now s of (ok, s) \<Rightarrow>
          if \<not> ok then (Inl (429, CodeRateLimit), s)
          else
            case on_acc (Authenticate (wc_lib conf) (wc_ldap conf) (lr_username req) (lr_password req) (lr_code req) now out out') s of
              (Inl e, s) \<Rightarrow>
                let s = lim_fail conf (lr_ip req) now s
                in (Inl (401, CodeAuthInvalidCredentials), if e = InvalidSecondFactor then lim_fail conf acct now s else s)
            | (Inr (u, used), s) \<Rightarrow>
                let s = lim_reset acct (lim_reset (lr_ip req) s) in
                case on_spa (spa_Create (wc_hash conf) random (u_id u) (lr_agent req) now out'') s of
                  (Inl e, s) \<Rightarrow> (Inl (500, CodeServerInternal), s)
                | (Inr (plain, tok), s) \<Rightarrow>
                    (Inr \<lparr>lo_token = plain, lo_session = tok, lo_user = u,
                          lo_enrollment = TOTPEnrollmentRequired u (wb_acc s), lo_change = u_must_change u,
                          lo_recovery = used\<rparr>, s))"

definition handleLogout :: "web_conf \<Rightarrow> string \<Rightarrow> save_outcome \<Rightarrow> web_sys \<Rightarrow> web_sys" where
  "handleLogout conf token out s =
     (if token \<noteq> [] then snd (on_spa (spa_Revoke (wc_hash conf) token out) s) else s)"

definition handleRefresh :: "web_conf \<Rightarrow> string \<Rightarrow> time \<Rightarrow> save_outcome \<Rightarrow> web_sys \<Rightarrow> (api_error + spa_token) \<times> web_sys" where
  "handleRefresh conf token now out s =
     (if token = [] then (Inl (401, CodeAuthTokenInvalid), s)
      else
        case on_spa (spa_Refresh (wc_hash conf) token now out) s of
          (Inl e, s) \<Rightarrow> (Inl (401, CodeAuthTokenExpired), s)
        | (Inr tok, s) \<Rightarrow> (Inr tok, s))"

subsection \<open>The gates\<close>

definition anonymousUserID :: string where "anonymousUserID = ''anonymous''"

definition isAnonymous :: "request_user \<Rightarrow> bool" where "isAnonymous ru = (ru_id ru = anonymousUserID)"

definition request_principal :: "request_user \<Rightarrow> principal" where
  "request_principal ru = \<lparr>UserID = ru_id ru, Role = ru_role ru, Restricted = ru_restricted ru\<rparr>"

definition user_principal :: "user \<Rightarrow> principal" where
  "user_principal u = \<lparr>UserID = u_id u, Role = u_role u, Restricted = u_restricted u\<rparr>"

definition enrollmentExemptPath :: "string \<Rightarrow> bool" where
  "enrollmentExemptPath p =
     List.member [''/api/v1/totp/enroll'', ''/api/v1/totp/confirm'', ''/api/v1/refresh'', ''/api/v1/logout'', ''/api/v1/me'',
                  ''/api/v1/me/password''] p"

definition passwordChangeExemptPath :: "string \<Rightarrow> bool" where
  "passwordChangeExemptPath p = List.member [''/api/v1/me/password'', ''/api/v1/refresh'', ''/api/v1/logout'', ''/api/v1/me''] p"

definition extractBearer :: "string \<Rightarrow> string" where
  "extractBearer header = (case cut_prefix header ''Bearer '' of None \<Rightarrow> [] | Some t \<Rightarrow> trim_space t)"

definition expired_code :: "spa_error \<Rightarrow> string" where
  "expired_code e = (if e = SpaHardExpired \<or> e = SpaExpired then CodeAuthTokenExpired else CodeAuthTokenInvalid)"

definition requireAuth ::
  "web_conf \<Rightarrow> string \<Rightarrow> string \<Rightarrow> time \<Rightarrow> save_outcome \<Rightarrow> web_sys \<Rightarrow> (api_error + request_user \<times> string) \<times> web_sys" where
  "requireAuth conf header path now out s =
     (let token = extractBearer header in
      if token = [] then
        (if wc_open conf then
           Inr (\<lparr>ru_id = anonymousUserID, ru_name = anonymousUserID, ru_role = RoleGuest, ru_restricted = False\<rparr>, [])
         else Inl (401, CodeAuthTokenInvalid), s)
      else
        case on_spa (spa_Validate (wc_hash conf) token now) s of
          (Inl e, s) \<Rightarrow> (Inl (401, expired_code e), s)
        | (Inr tok, s) \<Rightarrow>
            (case UserByID (sp_user tok) (wb_acc s) of
               None \<Rightarrow> (Inl (401, CodeAuthTokenInvalid), snd (on_spa (RevokeByHash (sp_hash tok) out) s))
             | Some u \<Rightarrow>
                 if \<not> user_enabled u then (Inl (401, CodeAuthTokenInvalid), snd (on_spa (RevokeByHash (sp_hash tok) out) s))
                 else if TOTPEnrollmentRequired u (wb_acc s) \<and> \<not> enrollmentExemptPath path then (Inl (403, CodeAuthEnrollmentRequired), s)
                 else if u_must_change u \<and> \<not> passwordChangeExemptPath path then (Inl (403, CodeAuthPasswordChangeRequired), s)
                 else (Inr (\<lparr>ru_id = u_id u, ru_name = u_name u, ru_role = u_role u, ru_restricted = u_restricted u\<rparr>, token), s)))"

definition requireOwner :: "request_user \<Rightarrow> api_error + unit" where
  "requireOwner ru = require (ru_role ru = RoleOwner) (403, CodeAuthOwnerOnly)"

text \<open>The event stream: the gate at the connection, and the check repeated while it is open.\<close>

definition events_gate :: "web_conf \<Rightarrow> string \<Rightarrow> time \<Rightarrow> save_outcome \<Rightarrow> web_sys \<Rightarrow> (api_error + user) \<times> web_sys" where
  "events_gate conf token now out s =
     (if token = [] then (Inl (401, CodeAuthTokenInvalid), s)
      else
        case on_spa (spa_Validate (wc_hash conf) token now) s of
          (Inl e, s) \<Rightarrow> (Inl (401, expired_code e), s)
        | (Inr tok, s) \<Rightarrow>
            (case UserByID (sp_user tok) (wb_acc s) of
               None \<Rightarrow> (Inl (401, CodeAuthTokenInvalid), snd (on_spa (RevokeByHash (sp_hash tok) out) s))
             | Some u \<Rightarrow>
                 if \<not> user_enabled u then (Inl (401, CodeAuthTokenInvalid), snd (on_spa (RevokeByHash (sp_hash tok) out) s))
                 else if TOTPEnrollmentRequired u (wb_acc s) then (Inl (403, CodeAuthEnrollmentRequired), s)
                 else if u_must_change u then (Inl (403, CodeAuthPasswordChangeRequired), s)
                 else (Inr u, s)))"

definition streamPrincipal :: "web_conf \<Rightarrow> string \<Rightarrow> time \<Rightarrow> web_sys \<Rightarrow> principal option \<times> web_sys" where
  "streamPrincipal conf token now s =
     (case on_spa (spa_Check (wc_hash conf) token now) s of
        (Inl e, s) \<Rightarrow> (None, s)
      | (Inr tok, s) \<Rightarrow>
          (case UserByID (sp_user tok) (wb_acc s) of
             None \<Rightarrow> (None, s)
           | Some u \<Rightarrow>
               if \<not> user_enabled u \<or> u_must_change u \<or> TOTPEnrollmentRequired u (wb_acc s) then (None, s)
               else (Some (user_principal u), s)))"

definition spaPrincipal :: "web_conf \<Rightarrow> string \<Rightarrow> time \<Rightarrow> web_sys \<Rightarrow> principal option \<times> web_sys" where
  "spaPrincipal conf token now s =
     (case on_spa (spa_Validate (wc_hash conf) token now) s of
        (Inl e, s) \<Rightarrow> (None, s)
      | (Inr tok, s) \<Rightarrow>
          (case UserByID (sp_user tok) (wb_acc s) of
             None \<Rightarrow> (None, s)
           | Some u \<Rightarrow>
               if \<not> user_enabled u \<or> TOTPEnrollmentRequired u (wb_acc s) \<or> u_must_change u then (None, s)
               else (Some (user_principal u), s)))"

text \<open>The attachments: \<open>0\<close> allows, else the status. The cookie is empty when there is none.\<close>

definition web_access :: "time \<Rightarrow> web_sys \<Rightarrow> access_config" where
  "web_access now s = AccessConfig now (Some (wb_proj s))"

definition seeOr404 :: "principal \<Rightarrow> string \<Rightarrow> time \<Rightarrow> web_sys \<Rightarrow> nat" where
  "seeOr404 p rel now s = (if CanAccessProject p (ProjectOf rel) (web_access now s) then 0 else 404)"

definition mcpTokenGate :: "token \<Rightarrow> string \<Rightarrow> time \<Rightarrow> web_sys \<Rightarrow> nat \<times> web_sys" where
  "mcpTokenGate mt rel now s =
     (let project = ProjectOf rel in
      if \<not> AllowsPath mt rel then (404, s)
      else
        case on_proj (Get project) s of (fl, s) \<Rightarrow>
        if HiddenFromMCP fl then (404, s)
        else if tk_owner mt = [] then (0, s)
        else
          case UserByID (tk_owner mt) (wb_acc s) of
            None \<Rightarrow> (401, s)
          | Some u \<Rightarrow>
              if \<not> user_enabled u then (401, s)
              else
                case NarrowToken (live mt) (user_principal u) (web_access now s) (Inr [project]) of
                  Inl e \<Rightarrow> (404, s)
                | Inr eff \<Rightarrow> (if AllowsPath eff rel then 0 else 404, s))"

definition VaultFileAuthorizer ::
  "web_conf \<Rightarrow> string \<Rightarrow> string \<Rightarrow> string \<Rightarrow> time \<Rightarrow> save_outcome \<Rightarrow> web_sys \<Rightarrow> nat \<times> web_sys" where
  "VaultFileAuthorizer conf header cookie rel now out s =
     (let tok = extractBearer header in
      if tok \<noteq> [] then
        (case spaPrincipal conf tok now s of
           (Some p, s) \<Rightarrow> (seeOr404 p rel now s, s)
         | (None, s) \<Rightarrow>
             (case on_tok (Validate (wc_hash conf) tok now out) s of
                (Inl e, s) \<Rightarrow> (401, s)
              | (Inr mt, s) \<Rightarrow> if HasScope mt ScopeRead then mcpTokenGate mt rel now s else (401, s)))
      else if cookie \<noteq> [] then
        (case spaPrincipal conf cookie now s of
           (Some p, s) \<Rightarrow> (seeOr404 p rel now s, s)
         | (None, s) \<Rightarrow> (401, s))
      else if wc_open conf then (seeOr404 \<lparr>UserID = [], Role = RoleGuest, Restricted = False\<rparr> rel now s, s)
      else (401, s))"

definition HealthDetailsAuthorizer :: "web_conf \<Rightarrow> string \<Rightarrow> time \<Rightarrow> save_outcome \<Rightarrow> web_sys \<Rightarrow> bool \<times> web_sys" where
  "HealthDetailsAuthorizer conf header now out s =
     (let tok = extractBearer header in
      if tok = [] then (False, s)
      else
        case spaPrincipal conf tok now s of
          (Some p, s) \<Rightarrow> (Role p = RoleOwner, s)
        | (None, s) \<Rightarrow>
            (case on_tok (Validate (wc_hash conf) tok now out) s of
               (Inl e, s) \<Rightarrow> (False, s)
             | (Inr mt, s) \<Rightarrow>
                 if \<not> IsAdmin mt then (False, s)
                 else if tk_owner mt = [] then (True, s)
                 else
                   (case UserByID (tk_owner mt) (wb_acc s) of
                      None \<Rightarrow> (False, s)
                    | Some u \<Rightarrow> (user_enabled u \<and> u_role u = RoleOwner, s))))"

end
