(* ===== verification/WebRoutes.thy ===== *)
theory WebRoutes
  imports WebApi
begin

text \<open>
  \<open>internal/api/v1\<close>: the routes of an account on itself (\<open>password.go\<close>, \<open>totp.go\<close>) and of the owner on
  the others (\<open>admin_users.go\<close>), and the sign-up (\<open>signup.go\<close>). They run behind \<open>requireAuth\<close>, which gives
  the account and the session token, and the owner's behind \<open>requireOwner\<close>.
\<close>

text \<open>The answer of a store's operation: its error through \<open>err\<close>, or what follows.\<close>

definition step_or :: "('e \<Rightarrow> api_error) \<Rightarrow> ('e + 'a) \<times> web_sys \<Rightarrow> ('a \<Rightarrow> web_sys \<Rightarrow> (api_error + 'b) \<times> web_sys) \<Rightarrow> (api_error + 'b) \<times> web_sys" where
  "step_or err r k = (case r of (Inl e, s) \<Rightarrow> (Inl (err e), s) | (Inr a, s) \<Rightarrow> k a s)"

definition internal_error :: "'e \<Rightarrow> api_error" where "internal_error e = (500, CodeServerInternal)"

subsection \<open>Passwords\<close>

definition confirmPassword :: "web_conf \<Rightarrow> request_user \<Rightarrow> string \<Rightarrow> time \<Rightarrow> web_sys \<Rightarrow> (api_error + unit) \<times> web_sys" where
  "confirmPassword conf ru password now s =
     (if password = [] then (Inl (400, CodeValidationRequired), s)
      else
        let acct = accountLimiterKey (ru_name ru) in
        case lim_allowed conf acct now s of (ok, s) \<Rightarrow>
        if \<not> ok then (Inl (429, CodeRateLimit), s)
        else
          let r = CheckPassword (wc_lib conf) (ru_id ru) password (wb_acc s);
              ok = (case r of
                      Inr _ \<Rightarrow> True
                    | Inl e \<Rightarrow> e = NotLocalAccount \<and>
                        (case wc_ldap conf of None \<Rightarrow> False | Some bind \<Rightarrow> bind (ru_name ru) password))
          in if \<not> ok then (Inl (403, CodeAuthInvalidCredentials), lim_fail conf acct now s)
             else (Inr (), lim_reset acct s))"

definition writePasswordError :: "acc_error \<Rightarrow> api_error" where
  "writePasswordError e =
     (if e = NotLocalAccount \<or> e = PasswordTooShort then (400, CodeValidationFormat) else (500, CodeServerInternal))"

definition handleMePassword ::
  "web_conf \<Rightarrow> request_user \<Rightarrow> string \<Rightarrow> string \<Rightarrow> string \<Rightarrow> string \<Rightarrow> time \<Rightarrow> save_outcome \<Rightarrow> save_outcome \<Rightarrow> web_sys \<Rightarrow>
    (api_error + nat) \<times> web_sys" where
  "handleMePassword conf ru token current new salt now out out' s =
     (if isAnonymous ru then (Inl (403, CodeAuthForbidden), s)
      else if (case UserByID (ru_id ru) (wb_acc s) of None \<Rightarrow> False | Some u \<Rightarrow> u_source u = SourceLDAP) then (Inl (400, CodeValidationFormat), s)
      else if new = [] then (Inl (400, CodeValidationRequired), s)
      else
        step_or (\<lambda>e. e) (confirmPassword conf ru current now s) (\<lambda>_ s.
        if new = current then (Inl (400, CodeValidationFormat), s)
        else
          step_or writePasswordError (on_acc (SetPassword (wc_lib conf) salt (ru_id ru) new False out) s) (\<lambda>_ s.
          case on_spa (RevokeByUserExcept (wc_hash conf) (ru_id ru) token out') s of (closed, s) \<Rightarrow> (Inr closed, s))))"

text \<open>The outcomes are those of the account, the sessions and the MCP grants.\<close>

definition resetUserPassword ::
  "web_conf \<Rightarrow> request_user \<Rightarrow> string \<Rightarrow> string \<Rightarrow> string \<Rightarrow> string \<Rightarrow> time \<Rightarrow> save_outcome \<Rightarrow> save_outcome \<Rightarrow> save_outcome \<Rightarrow> web_sys \<Rightarrow>
    (api_error + nat \<times> nat) \<times> web_sys" where
  "resetUserPassword conf actor i new owner_password salt now out out' out'' s =
     (if i = ru_id actor then (Inl (400, CodeValidationFormat), s)
      else
        case UserByID i (wb_acc s) of
          None \<Rightarrow> (Inl (404, CodeNotFound), s)
        | Some target \<Rightarrow>
            if u_source target = SourceLDAP then (Inl (400, CodeValidationFormat), s)
            else if \<not> user_enabled target then (Inl (400, CodeValidationFormat), s)
            else if new = [] then (Inl (400, CodeValidationRequired), s)
            else
              step_or (\<lambda>e. e) (confirmPassword conf actor owner_password now s) (\<lambda>_ s.
              step_or writePasswordError (on_acc (SetPassword (wc_lib conf) salt i new True out) s) (\<lambda>_ s.
              case on_spa (RevokeByUser i out') s of (closed, s) \<Rightarrow>
              case on_tok (RevokeOAuthByOwner i out'') s of (grants, s) \<Rightarrow> (Inr (closed, grants), s))))"

subsection \<open>The second factor\<close>

text \<open>A fresh secret is drawn and shown, and nothing is kept: \<open>key\<close> is what the library drew.\<close>

definition handleTOTPEnroll ::
  "request_user \<Rightarrow> (string \<times> string) option \<Rightarrow> web_sys \<Rightarrow> (api_error + string \<times> string)" where
  "handleTOTPEnroll ru key s =
     (if isAnonymous ru then Inl (403, CodeAuthForbidden)
      else if (case UserByID (ru_id ru) (wb_acc s) of None \<Rightarrow> False | Some u \<Rightarrow> u_totp u \<noteq> []) then Inl (409, CodeConflict)
      else case key of None \<Rightarrow> Inl (500, CodeServerInternal) | Some k \<Rightarrow> Inr k)"

definition handleTOTPConfirm ::
  "web_conf \<Rightarrow> request_user \<Rightarrow> string \<Rightarrow> string \<Rightarrow> 8 word list \<Rightarrow> string list \<Rightarrow> time \<Rightarrow> save_outcome \<Rightarrow> web_sys \<Rightarrow>
    (api_error + string list) \<times> web_sys" where
  "handleTOTPConfirm conf ru secret code bs salts now out s =
     (if isAnonymous ru then (Inl (403, CodeAuthForbidden), s)
      else if secret = [] \<or> code = [] then (Inl (400, CodeValidationRequired), s)
      else if \<not> al_totp (wc_lib conf) code secret now then (Inl (400, CodeValidationFormat), s)
      else
        step_or (\<lambda>e. if e = AlreadyEnrolled then (409, CodeConflict) else (500, CodeServerInternal))
          (on_acc (EnrollTOTP (wc_lib conf) bs salts (ru_id ru) secret out) s) (\<lambda>codes s. (Inr codes, s)))"

definition handleTOTPRecoveryCodes ::
  "web_conf \<Rightarrow> request_user \<Rightarrow> string \<Rightarrow> 8 word list \<Rightarrow> string list \<Rightarrow> time \<Rightarrow> save_outcome \<Rightarrow> web_sys \<Rightarrow> (api_error + string list) \<times> web_sys" where
  "handleTOTPRecoveryCodes conf ru code bs salts now out s =
     (if isAnonymous ru then (Inl (403, CodeAuthForbidden), s)
      else if code = [] then (Inl (400, CodeValidationRequired), s)
      else
        case UserByID (ru_id ru) (wb_acc s) of
          None \<Rightarrow> (Inl (403, CodeAuthForbidden), s)
        | Some u \<Rightarrow>
            if u_totp u = [] then (Inl (403, CodeAuthForbidden), s)
            else
              let acct = accountLimiterKey (ru_name ru) in
              case lim_allowed conf acct now s of (ok, s) \<Rightarrow>
              if \<not> ok then (Inl (429, CodeRateLimit), s)
              else if \<not> al_totp (wc_lib conf) code (u_totp u) now then (Inl (400, CodeValidationFormat), lim_fail conf acct now s)
              else
                step_or internal_error (on_acc (GenerateRecoveryCodes (wc_lib conf) bs salts (ru_id ru) out) (lim_reset acct s))
                  (\<lambda>codes s. (Inr codes, s)))"

definition handleTOTPDisenroll ::
  "web_conf \<Rightarrow> request_user \<Rightarrow> string \<Rightarrow> time \<Rightarrow> save_outcome \<Rightarrow> web_sys \<Rightarrow> (api_error + unit) \<times> web_sys" where
  "handleTOTPDisenroll conf ru password now out s =
     (if isAnonymous ru then (Inl (403, CodeAuthForbidden), s)
      else if (case UserByID (ru_id ru) (wb_acc s) of None \<Rightarrow> False | Some u \<Rightarrow> TOTPRequired u (wb_acc s)) then (Inl (403, CodeAuthForbidden), s)
      else
        step_or (\<lambda>e. e) (confirmPassword conf ru password now s) (\<lambda>_ s.
        step_or internal_error (on_acc (ResetTOTP (ru_id ru) out) s) (\<lambda>_ s. (Inr (), s))))"

subsection \<open>The owner's routes\<close>

definition not_found_or :: "api_error \<Rightarrow> acc_error \<Rightarrow> api_error" where
  "not_found_or other e = (if e = UserNotFound then (404, CodeNotFound) else other)"

definition resetUserTOTP :: "request_user \<Rightarrow> string \<Rightarrow> save_outcome \<Rightarrow> web_sys \<Rightarrow> (api_error + unit) \<times> web_sys" where
  "resetUserTOTP actor i out s =
     (if ru_id actor = i then (Inl (403, CodeAuthForbidden), s)
      else step_or (not_found_or (500, CodeServerInternal)) (on_acc (ResetTOTP i out) s) (\<lambda>_ s. (Inr (), s)))"

text \<open>
  An account is disabled: the hook revokes its MCP tokens when it was enabled till now; the route revokes them again, closes
  its sessions and takes it out of the projects.
\<close>

definition disableAccount ::
  "string \<Rightarrow> time \<Rightarrow> save_outcome \<Rightarrow> save_outcome \<Rightarrow> save_outcome \<Rightarrow> save_outcome \<Rightarrow> save_outcome \<Rightarrow> web_sys \<Rightarrow> (api_error + unit) \<times> web_sys" where
  "disableAccount i now out hook tok spa proj s =
     step_or (not_found_or (400, CodeValidationFormat)) (on_acc (DisableUser i now out) s) (\<lambda>fresh s.
       let s = (if fresh then snd (on_tok (RevokeByOwner i hook) s) else s);
           s = snd (on_tok (RevokeByOwner i tok) s);
           s = snd (on_spa (RevokeByUser i spa) s);
           s = snd (on_proj (RemoveUserEverywhere i proj) s)
       in (Inr (), s))"

record update_request =
  up_role :: "string option"
  up_policy :: "string option"
  up_restricted :: "bool option"
  up_create :: "bool option"

definition writeUserUpdateError :: "acc_error \<Rightarrow> api_error" where
  "writeUserUpdateError e =
     (if e = UserNotFound then (404, CodeNotFound)
      else if e = OwnerRefused then (403, CodeAuthForbidden)
      else (400, CodeValidationFormat))"

definition optionally :: "'a option \<Rightarrow> ('a \<Rightarrow> web_sys \<Rightarrow> (api_error + unit) \<times> web_sys) \<Rightarrow> web_sys \<Rightarrow> (api_error + unit) \<times> web_sys" where
  "optionally x k s = (case x of None \<Rightarrow> (Inr (), s) | Some a \<Rightarrow> k a s)"

definition api_unit :: "'a \<Rightarrow> web_sys \<Rightarrow> (api_error + unit) \<times> web_sys" where
  "api_unit a s = (Inr (), s)"

definition updateUserRole ::
  "request_user \<Rightarrow> string \<Rightarrow> update_request \<Rightarrow> save_outcome \<Rightarrow> save_outcome \<Rightarrow> save_outcome \<Rightarrow> save_outcome \<Rightarrow> save_outcome \<Rightarrow> web_sys \<Rightarrow>
    (api_error + unit) \<times> web_sys" where
  "updateUserRole actor i body out1 out2 out3 out4 out5 s =
     (let role = map_option trim_space (up_role body); policy = map_option trim_space (up_policy body) in
      if up_role body = None \<and> up_policy body = None \<and> up_restricted body = None \<and> up_create body = None then
        (Inl (400, CodeValidationRequired), s)
      else if policy = Some TOTPDisabled \<and> ru_id actor = i then (Inl (403, CodeAuthForbidden), s)
      else if (case role of None \<Rightarrow> False | Some r \<Rightarrow> r \<noteq> RoleMember \<and> r \<noteq> RoleGuest) then (Inl (400, CodeValidationFormat), s)
      else if (case policy of None \<Rightarrow> False | Some p \<Rightarrow> p \<noteq> TOTPInherit \<and> p \<noteq> TOTPEnabled \<and> p \<noteq> TOTPDisabled) then
        (Inl (400, CodeValidationFormat), s)
      else
        case UserByID i (wb_acc s) of
          None \<Rightarrow> (Inl (404, CodeNotFound), s)
        | Some target \<Rightarrow>
            if role \<noteq> None \<and> u_role target = RoleOwner then (Inl (403, CodeAuthForbidden), s)
            else
              step_or (\<lambda>e. e) (optionally (up_restricted body) (\<lambda>b s.
                step_or writeUserUpdateError (on_acc (SetRestricted i b out1) s) api_unit) s) (\<lambda>_ s.
              step_or (\<lambda>e. e) (optionally (up_create body) (\<lambda>b s.
                step_or writeUserUpdateError (on_acc (SetCanCreateProjects i b out2) s) api_unit) s) (\<lambda>_ s.
              step_or (\<lambda>e. e) (optionally role (\<lambda>r s.
                step_or writeUserUpdateError (on_acc (SetRole i r out3) s) (\<lambda>_ s.
                  (Inr (), if r = RoleGuest then snd (on_tok (RevokeByOwner i out4) s) else s))) s) (\<lambda>_ s.
              optionally policy (\<lambda>p s.
                step_or (not_found_or (400, CodeValidationFormat)) (on_acc (SetTOTPPolicy i p out5) s) api_unit) s))))"

record create_request =
  cu_username :: string
  cu_password :: string
  cu_role :: string
  cu_policy :: string
  cu_restricted :: "bool option"
  cu_create :: "bool option"

definition creation_error :: "acc_error \<Rightarrow> api_error" where
  "creation_error e = (if e = UserExists then (409, CodeConflict) else (400, CodeValidationFormat))"

text \<open>The account, and the disabled one whose name it took.\<close>

definition createUser ::
  "web_conf \<Rightarrow> create_request \<Rightarrow> string \<Rightarrow> time \<Rightarrow> save_outcome \<Rightarrow> save_outcome \<Rightarrow> save_outcome \<Rightarrow> save_outcome \<Rightarrow> save_outcome \<Rightarrow> web_sys \<Rightarrow>
    (api_error + user \<times> user option) \<times> web_sys" where
  "createUser conf body salt now out1 out2 out3 out4 out5 s =
     (let role = (if trim_space (cu_role body) = [] then RoleMember else trim_space (cu_role body)); policy = trim_space (cu_policy body) in
      if cu_username body = [] \<or> cu_password body = [] then (Inl (400, CodeValidationRequired), s)
      else if role \<noteq> RoleMember \<and> role \<noteq> RoleGuest then (Inl (400, CodeValidationFormat), s)
      else if policy \<noteq> TOTPInherit \<and> policy \<noteq> TOTPEnabled \<and> policy \<noteq> TOTPDisabled then (Inl (400, CodeValidationFormat), s)
      else
        step_or creation_error (on_acc (AddUserReclaiming (wc_lib conf) salt (cu_username body) (cu_password body) role now out1) s) (\<lambda>made s.
        let i = u_id (fst made) in
        step_or internal_error (on_acc (SetMustChangePassword i True out2) s) (\<lambda>_ s.
        step_or (\<lambda>e. e) (optionally (if policy = TOTPInherit then None else Some policy) (\<lambda>p s.
          step_or internal_error (on_acc (SetTOTPPolicy i p out3) s) api_unit) s) (\<lambda>_ s.
        step_or (\<lambda>e. e) (optionally (if cu_restricted body = Some False then Some () else None) (\<lambda>_ s.
          step_or internal_error (on_acc (SetRestricted i False out4) s) api_unit) s) (\<lambda>_ s.
        step_or (\<lambda>e. e) (optionally (if cu_create body = Some False then Some () else None) (\<lambda>_ s.
          step_or internal_error (on_acc (SetCanCreateProjects i False out5) s) api_unit) s) (\<lambda>_ s.
        (Inr made, s)))))))"

subsection \<open>Invites\<close>

definition inviteDefaultTTL :: duration where "inviteDefaultTTL = 24 * hour"

definition createInvite ::
  "request_user \<Rightarrow> int \<Rightarrow> string option \<Rightarrow> time \<Rightarrow> save_outcome \<Rightarrow> web_sys \<Rightarrow> (api_error + invite) \<times> web_sys" where
  "createInvite actor ttl_ms random now out s =
     (let ttl = (if ttl_ms > 0 then wrap64 (ttl_ms * 1000000) else inviteDefaultTTL) in
      step_or internal_error (on_acc (CreateInvite random (ru_id actor) ttl now out) s) (\<lambda>inv s. (Inr inv, s)))"

definition revokeInvite :: "string \<Rightarrow> save_outcome \<Rightarrow> web_sys \<Rightarrow> (api_error + unit) \<times> web_sys" where
  "revokeInvite token out s =
     (if token = [] \<or> CHR ''/'' \<in> set token then (Inl (400, CodeValidationFormat), s)
      else step_or (\<lambda>e. (404, CodeNotFound)) (on_acc (RevokeInvite token out) s) (\<lambda>_ s. (Inr (), s)))"

definition handleSignup ::
  "web_conf \<Rightarrow> string \<Rightarrow> string \<Rightarrow> string \<Rightarrow> string \<Rightarrow> time \<Rightarrow> save_outcome \<Rightarrow> web_sys \<Rightarrow> (api_error + user) \<times> web_sys" where
  "handleSignup conf username password ticket salt now out s =
     (if username = [] \<or> password = [] \<or> ticket = [] then (Inl (400, CodeValidationRequired), s)
      else
        step_or (\<lambda>e. if e = InviteInvalid then (400, CodeAuthInviteInvalid)
                     else if e = AccountsNotSaved then (500, CodeServerInternal)
                     else if e = UserExists then (409, CodeConflict)
                     else (400, CodeValidationFormat))
          (on_acc (RedeemInvite (wc_lib conf) salt ticket username password now out) s) (\<lambda>u s. (Inr u, s)))"

end
