(* ===== verification/AccountSteps.thy ===== *)
theory AccountSteps
  imports WebFactors
begin

text \<open>
  Any operations on the accounts, by the server or by a command at the console beside it, which opens the file anew and
  ends: its memory is gone, and the server's is what it was. A recovery code is consumed in the two critical sections
  of the code, and anything may happen between them.

  Ghost fields record the ids, the hashes of codes and the invite tokens ever given out; the codes that were consumed and
  the invites that were taken, in the order that happened; and the accounts the server disabled with a save that
  succeeded. The premises on them say what the repository takes for granted: a new id, the salted hashes of new
  recovery codes and a new invite token are not old ones. No caller creates an owner but \<open>Setup\<close>, \<open>Replace\<close> and the first start.
\<close>

record acc_world =
  aw_sys :: acc_sys
  aw_clock :: time
  aw_matches :: "(string \<times> nat \<times> string) list"
  aw_ids :: "string set"
  aw_hashes :: "string set"
  aw_tokens :: "string set"
  aw_spent :: "(string \<times> string) list"
  aw_taken :: "string list"
  aw_sealed :: "string set"

subsection \<open>Who runs an operation\<close>

datatype place = Server | Console

fun enter :: "place \<Rightarrow> acc_sys \<Rightarrow> acc_sys option" where
  "enter Server sys = Some sys"
| "enter Console sys = map_option (\<lambda>s. sys\<lparr>as_mem := s\<rparr>) (OpenAccounts (as_file sys))"

fun leave :: "place \<Rightarrow> acc_sys \<Rightarrow> acc_sys \<Rightarrow> acc_sys" where
  "leave Server old sys = sys"
| "leave Console old sys = sys\<lparr>as_mem := as_mem old\<rparr>"

subsection \<open>The operations that give nothing out\<close>

inductive plain_op :: "acc_lib \<Rightarrow> time \<Rightarrow> acc_sys \<Rightarrow> acc_sys \<Rightarrow> bool" for lib now where
  Synced: "plain_op lib now sys (snd (StoreEnabled sys))"
| Stale: "plain_op lib now sys (dropStaleInitialPassword sys)"
| AllRemoved: "plain_op lib now sys (snd (DisableAll removed sys))"
| Restricted: "plain_op lib now sys (snd (SetRestricted i b out sys))"
| MayCreate: "plain_op lib now sys (snd (SetCanCreateProjects i b out sys))"
| RoleSet: "plain_op lib now sys (snd (SetRole i role out sys))"
| ModeSet: "plain_op lib now sys (SetTOTPMode mode sys)"
| PolicySet: "plain_op lib now sys (snd (SetTOTPPolicy i policy out sys))"
| PasswordSet: "plain_op lib now sys (snd (SetPassword lib salt i password must out sys))"
| MustChange: "plain_op lib now sys (snd (SetMustChangePassword i must out sys))"
| InviteRevoked: "plain_op lib now sys (snd (RevokeInvite token out sys))"
| FactorReset: "plain_op lib now sys (snd (ResetTOTP i out sys))"
| DisabledUnsaved: "DisableUser i now out sys = (r, sys') \<Longrightarrow> plain_op lib now sys sys'"

subsection \<open>The steps\<close>

definition code_hashes :: "recovery_code list \<Rightarrow> string set" where
  "code_hashes cs = rc_hash ` set cs"

definition fresh_codes :: "acc_lib \<Rightarrow> 8 word list \<Rightarrow> string list \<Rightarrow> acc_world \<Rightarrow> string set \<Rightarrow> bool" where
  "fresh_codes lib bs salts w hs \<longleftrightarrow>
     (case newRecoveryCodes lib bs salts of
        Inl e \<Rightarrow> hs = {}
      | Inr (plain, stored) \<Rightarrow> hs = code_hashes stored \<and> distinct (map rc_hash stored) \<and> hs \<inter> aw_hashes w = {})"

inductive acc_step :: "acc_lib \<Rightarrow> acc_world \<Rightarrow> acc_world \<Rightarrow> bool" for lib where
  AccTick: "aw_clock w \<le> t \<Longrightarrow> acc_step lib w (w\<lparr>aw_clock := t\<rparr>)"
| AccRestart: "OpenAccounts (as_file (aw_sys w)) = Some s \<Longrightarrow> acc_step lib w (w\<lparr>aw_sys := (aw_sys w)\<lparr>as_mem := s\<rparr>, aw_matches := []\<rparr>)"
| AccPlain: "enter who (aw_sys w) = Some sys \<Longrightarrow> plain_op lib (aw_clock w) sys sys' \<Longrightarrow>
    acc_step lib w (w\<lparr>aw_sys := leave who (aw_sys w) sys'\<rparr>)"
| AccAdded: "enter who (aw_sys w) = Some sys \<Longrightarrow> role \<noteq> RoleOwner \<Longrightarrow> op \<in> {AddUser, AddUserReclaiming} \<Longrightarrow>
    op lib salt name password role (aw_clock w) out sys = (r, sys') \<Longrightarrow> i = deriveUserID lib name (aw_clock w) \<Longrightarrow> i \<notin> aw_ids w \<Longrightarrow>
    acc_step lib w (w\<lparr>aw_sys := leave who (aw_sys w) sys', aw_ids := insert i (aw_ids w)\<rparr>)"
| AccLDAP: "AddLDAPUser lib name (aw_clock w) out (aw_sys w) = (r, sys') \<Longrightarrow> i = deriveUserID lib name (aw_clock w) \<Longrightarrow> i \<notin> aw_ids w \<Longrightarrow>
    acc_step lib w (w\<lparr>aw_sys := sys', aw_ids := insert i (aw_ids w)\<rparr>)"
| AccSetup: "enter who (aw_sys w) = Some sys \<Longrightarrow> op \<in> {Setup, Replace} \<Longrightarrow>
    op lib salt key name password withTOTP (aw_clock w) out sys = (r, sys') \<Longrightarrow> i = deriveUserID lib name (aw_clock w) \<Longrightarrow> i \<notin> aw_ids w \<Longrightarrow>
    acc_step lib w (w\<lparr>aw_sys := leave who (aw_sys w) sys', aw_ids := insert i (aw_ids w)\<rparr>)"
| AccFirst: "ProvisionInitialOwner lib salt random name (aw_clock w) written out (aw_sys w) = (r, sys') \<Longrightarrow>
    i = deriveUserID lib name (aw_clock w) \<Longrightarrow> i \<notin> aw_ids w \<Longrightarrow>
    acc_step lib w (w\<lparr>aw_sys := sys', aw_ids := insert i (aw_ids w)\<rparr>)"
| AccSealed: "DisableUser i (aw_clock w) out (aw_sys w) = (Inr True, sys') \<Longrightarrow>
    acc_step lib w (w\<lparr>aw_sys := sys', aw_sealed := insert i (aw_sealed w)\<rparr>)"
| AccInvited: "CreateInvite (Some random) creator ttl (aw_clock w) out (aw_sys w) = (r, sys') \<Longrightarrow> token = ''inv_'' @ random \<Longrightarrow>
    token \<notin> aw_tokens w \<Longrightarrow> acc_step lib w (w\<lparr>aw_sys := sys', aw_tokens := insert token (aw_tokens w)\<rparr>)"
| AccRedeemed: "RedeemInvite lib salt token name password (aw_clock w) out (aw_sys w) = (r, sys') \<Longrightarrow>
    i = deriveUserID lib name (aw_clock w) \<Longrightarrow> i \<notin> aw_ids w \<Longrightarrow>
    acc_step lib w (w\<lparr>aw_sys := sys', aw_ids := insert i (aw_ids w), aw_taken := aw_taken w @ (case r of Inl _ \<Rightarrow> [] | Inr _ \<Rightarrow> [token])\<rparr>)"
| AccClaimed: "ClaimInvite token consumer (aw_clock w) out (aw_sys w) = (r, sys') \<Longrightarrow>
    acc_step lib w (w\<lparr>aw_sys := sys', aw_taken := aw_taken w @ (case r of Inl _ \<Rightarrow> [] | Inr _ \<Rightarrow> [token])\<rparr>)"
| AccEnrolled: "EnrollTOTP lib bs salts i secret out (aw_sys w) = (r, sys') \<Longrightarrow> fresh_codes lib bs salts w hs \<Longrightarrow>
    acc_step lib w (w\<lparr>aw_sys := sys', aw_hashes := aw_hashes w \<union> hs\<rparr>)"
| AccRegenerated: "enter who (aw_sys w) = Some sys \<Longrightarrow> GenerateRecoveryCodes lib bs salts i out sys = (r, sys') \<Longrightarrow> fresh_codes lib bs salts w hs \<Longrightarrow>
    acc_step lib w (w\<lparr>aw_sys := leave who (aw_sys w) sys', aw_hashes := aw_hashes w \<union> hs\<rparr>)"
| AccMatched: "match_code lib norm (snapshot_codes i (aw_sys w)) = Some (m, h) \<Longrightarrow>
    acc_step lib w (w\<lparr>aw_matches := aw_matches w @ [(i, m, h)]\<rparr>)"
| AccConsumed: "(i, m, h) \<in> set (aw_matches w) \<Longrightarrow> commit_code i m h (aw_clock w) out (aw_sys w) = (r, sys') \<Longrightarrow>
    acc_step lib w (w\<lparr>aw_sys := sys', aw_spent := aw_spent w @ (if r = Inr True then [(i, h)] else [])\<rparr>)"

inductive acc_reachable :: "acc_lib \<Rightarrow> acc_world \<Rightarrow> bool" for lib where
  AccStart: "OpenAccounts Absent = Some s \<Longrightarrow>
    acc_reachable lib \<lparr>aw_sys = \<lparr>as_mem = s, as_file = Absent, as_initial = None\<rparr>, aw_clock = now, aw_matches = [], aw_ids = {},
      aw_hashes = {}, aw_tokens = {}, aw_spent = [], aw_taken = [], aw_sealed = {}\<rparr>"
| AccStep: "acc_reachable lib w \<Longrightarrow> acc_step lib w w' \<Longrightarrow> acc_reachable lib w'"

subsection \<open>The invariant\<close>

definition user_ok :: "acc_world \<Rightarrow> user \<Rightarrow> bool" where
  "user_ok w u \<longleftrightarrow>
     u_id u \<in> aw_ids w \<and> (u_role u = RoleOwner \<longrightarrow> user_enabled u \<and> \<not> u_restricted u) \<and>
     (u_id u \<in> aw_sealed w \<longrightarrow> \<not> user_enabled u) \<and>
     distinct (map rc_hash (u_codes u)) \<and> code_hashes (u_codes u) \<subseteq> aw_hashes w \<and>
     (\<forall>rc\<in>set (u_codes u). (u_id u, rc_hash rc) \<in> set (aw_spent w) \<longrightarrow> rc_used rc \<noteq> None)"

definition invite_ok :: "acc_world \<Rightarrow> invite \<Rightarrow> bool" where
  "invite_ok w i \<longleftrightarrow> iv_token i \<in> aw_tokens w \<and> (iv_token i \<in> set (aw_taken w) \<longrightarrow> iv_consumed i \<noteq> None)"

definition is_owner :: "user \<Rightarrow> bool" where "is_owner u = (u_role u = RoleOwner)"

definition roster_ok :: "user list \<Rightarrow> bool" where
  "roster_ok us \<longleftrightarrow>
     distinct (map u_name us) \<and> distinct (map u_id us) \<and> length (filter is_owner us) \<le> 1"

definition accounts_ok :: "acc_world \<Rightarrow> accounts \<Rightarrow> bool" where
  "accounts_ok w c \<longleftrightarrow>
     roster_ok (a_users c) \<and> (\<forall>u\<in>set (a_users c). user_ok w u) \<and> (\<forall>i\<in>set (a_invites c). invite_ok w i) \<and>
     distinct (map iv_token (a_invites c))"

text \<open>What is consumed was given out.\<close>

definition ghosts_ok :: "acc_world \<Rightarrow> bool" where
  "ghosts_ok w \<longleftrightarrow>
     distinct (aw_spent w) \<and> snd ` set (aw_spent w) \<subseteq> aw_hashes w \<and> distinct (aw_taken w) \<and>
     set (aw_taken w) \<subseteq> aw_tokens w \<and> aw_sealed w \<subseteq> aw_ids w"

definition acc_ok :: "acc_world \<Rightarrow> bool" where
  "acc_ok w \<longleftrightarrow> both (accounts_ok w) (aw_sys w) \<and> ghosts_ok w"

end
