(* ===== verification/AccountInv.thy ===== *)
theory AccountInv
  imports AccountSteps
begin

text \<open>
  The invariant \<open>acc_ok\<close> of \<open>AccountSteps\<close> holds after every step: each edit keeps what is said of the accounts, and
  \<open>both_mutate2\<close> carries it to memory and file.
\<close>

lemma both_mutate2:
  assumes "both P sys" and "acc_mutate back edit out sys = (r, sys')" and "\<And>c. P c \<Longrightarrow> Q c"
    and "\<And>c c' a. P c \<Longrightarrow> edit c = Changed c' a \<Longrightarrow> Q c'"
  shows "both Q sys'"
  using assms(2)
proof (cases rule: mutate_cases)
  case same
  with both_sync [OF assms(1)] assms(3) show ?thesis by (simp add: both_def)
next
  case (new c a ok)
  have "both P (acc_sync sys)" by (rule both_sync [OF assms(1)])
  then have "both Q (acc_sync sys)" and "Q c" using new(1) assms(3,4) by (auto simp: both_def)
  with new(2) show ?thesis by (metis both_write)
qed

subsection \<open>Growing ghosts\<close>

definition acc_grows :: "acc_world \<Rightarrow> acc_world \<Rightarrow> bool" where
  "acc_grows w w' \<longleftrightarrow> aw_ids w \<subseteq> aw_ids w' \<and> aw_hashes w \<subseteq> aw_hashes w' \<and> aw_tokens w \<subseteq> aw_tokens w' \<and>
     set (aw_spent w') = set (aw_spent w) \<and> set (aw_taken w') = set (aw_taken w) \<and> aw_sealed w' = aw_sealed w"

lemma grows_user: "acc_grows w w' \<Longrightarrow> user_ok w u \<Longrightarrow> user_ok w' u"
  by (auto simp: acc_grows_def user_ok_def)

lemma grows_accounts: "acc_grows w w' \<Longrightarrow> accounts_ok w c \<Longrightarrow> accounts_ok w' c"
  using grows_user by (auto simp: accounts_ok_def invite_ok_def acc_grows_def)

lemma grows_both: "acc_grows w w' \<Longrightarrow> both (accounts_ok w) sys \<Longrightarrow> both (accounts_ok w') sys"
  using grows_accounts by (auto simp: both_def)

lemma no_accounts_ok [simp]: "accounts_ok w no_accounts"
  by (simp add: accounts_ok_def no_accounts_def roster_ok_def)

subsection \<open>Lists of users\<close>

lemma set_update_first_find: "find p xs = Some u \<Longrightarrow> set (update_first p g xs) \<subseteq> insert (g u) (set xs)"
  by (induction xs) (auto split: if_splits)

lemma filter_update_first:
  "(\<And>x. P (g x) = P x) \<Longrightarrow> length (filter P (update_first p g xs)) = length (filter P xs)"
  by (induction xs) auto

lemma roster_put:
  assumes "\<And>u. u_id (g u) = u_id u" and "\<And>u. u_name (g u) = u_name u" and "\<And>u. is_owner (g u) = is_owner u"
  shows "roster_ok (update_first p g us) = roster_ok us"
proof -
  have "map u_name (update_first p g us) = map u_name us" "map u_id (update_first p g us) = map u_id us"
    by (rule map_update_first, rule assms)+
  moreover have "length (filter is_owner (update_first p g us)) = length (filter is_owner us)"
    by (rule filter_update_first) (rule assms)
  ultimately show ?thesis by (simp add: roster_ok_def)
qed

lemma update_first_cong: "(\<And>x. p x \<Longrightarrow> x \<in> set xs \<Longrightarrow> f x = g x) \<Longrightarrow> update_first p f xs = update_first p g xs"
  by (induction xs) auto

lemma ok_update:
  assumes "accounts_ok w c" and "find p (a_users c) = Some u" and only: "\<And>x. x \<in> set (a_users c) \<Longrightarrow> p x \<Longrightarrow> x = u" and "acc_grows w w'"
    and "u_id (g u) = u_id u" and "u_name (g u) = u_name u" and "is_owner (g u) = is_owner u" and "user_ok w' (g u)"
  shows "accounts_ok w' (c\<lparr>a_users := update_first p g (a_users c)\<rparr>)"
proof -
  let ?us = "a_users c"
  let ?g = "\<lambda>x. if x = u then g x else x"
  have "update_first p g ?us = update_first p ?g ?us"
    by (rule update_first_cong) (use only in auto)
  moreover have "roster_ok (update_first p ?g ?us)"
    by (subst roster_put) (use assms(1,5-7) in \<open>auto simp: accounts_ok_def\<close>)
  ultimately have "roster_ok (update_first p g ?us)" by simp
  moreover have "\<forall>v\<in>set (update_first p g ?us). user_ok w' v"
    using set_update_first_find [OF assms(2), of g] assms(1,4,8) grows_user by (auto simp: accounts_ok_def)
  ultimately show ?thesis using grows_accounts [OF assms(4,1)] by (simp add: accounts_ok_def)
qed

lemma ok_put_user:
  assumes "accounts_ok w c" and "find_user i c = Some u" and "acc_grows w w'"
    and "u_id (g u) = u_id u" and "u_name (g u) = u_name u" and "is_owner (g u) = is_owner u" and "user_ok w' (g u)"
  shows "accounts_ok w' (put_user i g c)"
proof -
  have "distinct (map u_id (a_users c))" using assms(1) by (simp add: accounts_ok_def roster_ok_def)
  moreover have "u \<in> set (a_users c)" "u_id u = i" using find_Some_iff' [OF assms(2) [unfolded find_user_def]] by simp_all
  ultimately have "x = u" if "x \<in> set (a_users c)" "u_id x = i" for x
    using that by (auto simp: distinct_map dest: inj_onD)
  then show ?thesis
    using ok_update [where g = g, OF assms(1) assms(2) [unfolded find_user_def] _ assms(3-7)] by (simp add: put_user_def)
qed

lemma found_ok: "accounts_ok w c \<Longrightarrow> find_user i c = Some u \<Longrightarrow> user_ok w u \<and> u_id u = i"
  by (auto simp: accounts_ok_def find_user_def dest!: find_Some_iff')

lemma acc_grows_refl [simp]: "acc_grows w w"
  by (simp add: acc_grows_def)

text \<open>An edit of one account that keeps its id, its name and whether it is the owner.\<close>

definition user_edit :: "acc_world \<Rightarrow> string \<Rightarrow> accounts \<Rightarrow> user \<Rightarrow> 'a edit \<Rightarrow> bool" where
  "user_edit w i c u e \<longleftrightarrow>
     (case e of
        Changed c' a \<Rightarrow> \<exists>g. c' = put_user i g c \<and> u_id (g u) = u_id u \<and> u_name (g u) = u_name u \<and> is_owner (g u) = is_owner u \<and> user_ok w (g u)
      | _ \<Rightarrow> True)"

lemma user_edit_simps [simp]: "user_edit w i c u (Refused e)" "user_edit w i c u (Unchanged a)"
  by (simp_all add: user_edit_def)

lemma user_edit_Changed:
  "u_id (g u) = u_id u \<Longrightarrow> u_name (g u) = u_name u \<Longrightarrow> is_owner (g u) = is_owner u \<Longrightarrow> user_ok w (g u) \<Longrightarrow>
    user_edit w i c u (Changed (put_user i g c) a)"
  by (auto simp: user_edit_def)

lemma mutate_user:
  assumes "both (accounts_ok w) sys" and "acc_grows w w'"
    and "\<And>c u. find_user i c = Some u \<Longrightarrow> user_ok w u \<Longrightarrow> user_edit w' i c u (k c u)"
  shows "both (accounts_ok w') (snd (acc_mutate back (\<lambda>c. with_user i (k c) c) out sys))"
proof (rule both_mutate2 [OF assms(1) surjective_pairing])
  show "accounts_ok w' c" if "accounts_ok w c" for c using grows_accounts [OF assms(2) that] .
  fix c c' a
  assume ok: "accounts_ok w c" and "with_user i (k c) c = Changed c' a"
  then obtain u where u: "find_user i c = Some u" "k c u = Changed c' a"
    by (auto simp: with_user_def split: option.splits)
  from assms(3) [OF u(1)] found_ok [OF ok u(1)] u(2) obtain g where "c' = put_user i g c" "u_id (g u) = u_id u"
    "u_name (g u) = u_name u" "is_owner (g u) = is_owner u" "user_ok w' (g u)" by (auto simp: user_edit_def)
  with ok_put_user [OF ok u(1) assms(2)] show "accounts_ok w' c'" by simp
qed

lemma keeps_SetRestricted [keeps_inv]: "both (accounts_ok w) sys \<Longrightarrow> both (accounts_ok w) (snd (SetRestricted i b out sys))"
  unfolding SetRestricted_def
  by (rule mutate_user [OF _ acc_grows_refl]) (auto intro!: user_edit_Changed simp: user_ok_def is_owner_def user_enabled_def)

lemma keeps_SetCanCreateProjects [keeps_inv]:
  "both (accounts_ok w) sys \<Longrightarrow> both (accounts_ok w) (snd (SetCanCreateProjects i b out sys))"
  unfolding SetCanCreateProjects_def
  by (rule mutate_user [OF _ acc_grows_refl]) (auto intro!: user_edit_Changed simp: user_ok_def is_owner_def user_enabled_def)

lemma keeps_DisableUser [keeps_inv]: "both (accounts_ok w) sys \<Longrightarrow> both (accounts_ok w) (snd (DisableUser i now out sys))"
  unfolding DisableUser_def
  by (rule mutate_user [OF _ acc_grows_refl]) (auto intro!: user_edit_Changed simp: user_ok_def is_owner_def user_enabled_def)

lemma keeps_SetTOTPPolicy [keeps_inv]: "both (accounts_ok w) sys \<Longrightarrow> both (accounts_ok w) (snd (SetTOTPPolicy i p out sys))"
proof (cases "p \<noteq> TOTPInherit \<and> p \<noteq> TOTPEnabled \<and> p \<noteq> TOTPDisabled")
  case False
  assume ok: "both (accounts_ok w) sys"
  then show ?thesis unfolding SetTOTPPolicy_def if_not_P [OF False]
    by (intro mutate_user [OF ok acc_grows_refl]) (auto intro!: user_edit_Changed simp: user_ok_def is_owner_def user_enabled_def)
qed (simp add: SetTOTPPolicy_def)

lemma keeps_SetRole [keeps_inv]: "both (accounts_ok w) sys \<Longrightarrow> both (accounts_ok w) (snd (SetRole i role out sys))"
proof (cases "role \<noteq> RoleMember \<and> role \<noteq> RoleGuest")
  case False
  assume ok: "both (accounts_ok w) sys"
  from False have "role \<noteq> RoleOwner" by (auto simp: role_consts)
  then show ?thesis unfolding SetRole_def if_not_P [OF False]
    by (intro mutate_user [OF ok acc_grows_refl]) (auto intro!: user_edit_Changed simp: user_ok_def is_owner_def user_enabled_def)
qed (simp add: SetRole_def)

lemma keeps_SetMustChangePassword [keeps_inv]:
  "both (accounts_ok w) sys \<Longrightarrow> both (accounts_ok w) (snd (SetMustChangePassword i b out sys))"
  unfolding SetMustChangePassword_def
  by (rule mutate_user [OF _ acc_grows_refl]) (auto intro!: user_edit_Changed simp: user_ok_def is_owner_def user_enabled_def)

lemma keeps_ResetTOTP [keeps_inv]: "both (accounts_ok w) sys \<Longrightarrow> both (accounts_ok w) (snd (ResetTOTP i out sys))"
  unfolding ResetTOTP_def
  by (rule mutate_user [OF _ acc_grows_refl]) (auto intro!: user_edit_Changed simp: user_ok_def is_owner_def user_enabled_def code_hashes_def)

lemma keeps_SetPassword [keeps_inv]: "both (accounts_ok w) sys \<Longrightarrow> both (accounts_ok w) (snd (SetPassword lib salt i p must out sys))"
proof -
  assume ok: "both (accounts_ok w) sys"
  show ?thesis
  proof (cases "and_then (validatePassword p) (\<lambda>_. hash_password lib salt p)")
    case (Inr h)
    let ?r = "acc_mutate False (\<lambda>c. with_user i (\<lambda>u.
      if u_source u = SourceLDAP then Refused NotLocalAccount
      else Changed (put_user i (\<lambda>u. u\<lparr>u_hash := h, u_must_change := must\<rparr>) c) (u_role u)) c) out sys"
    have "both (accounts_ok w) (snd ?r)"
      by (rule mutate_user [OF ok acc_grows_refl]) (auto intro!: user_edit_Changed simp: user_ok_def is_owner_def user_enabled_def)
    then have "both (accounts_ok w) s" if "?r = (r, s)" for r s using that by simp
    then have kept: "both (accounts_ok w) (if b then removeInitialPassword s else s)" if "?r = (r, s)" for r s b
      using that by (simp add: both_def)
    obtain r s where r: "?r = (r, s)" by (meson surj_pair)
    then have "snd (SetPassword lib salt i p must out sys) \<in> {s, if (\<exists>role. r = Inr role \<and> role = RoleOwner) \<and> \<not> must then removeInitialPassword s else s}"
      using Inr by (cases r) (simp_all add: SetPassword_def)
    with kept [OF r] kept [OF r, of False] show ?thesis by (auto simp del: r)
  qed (simp add: SetPassword_def ok)
qed

lemma keeps_RevokeInvite [keeps_inv]: "both (accounts_ok w) sys \<Longrightarrow> both (accounts_ok w) (snd (RevokeInvite token out sys))"
  unfolding RevokeInvite_def
proof (erule both_mutate2 [OF _ surjective_pairing])
  fix c c' :: accounts and a :: unit
  assume "accounts_ok w c" and "(if \<not> list_ex (\<lambda>i. iv_token i = token) (a_invites c) then Refused InviteNotFound
      else Changed (c\<lparr>a_invites := remove_first (\<lambda>i. iv_token i = token) (a_invites c)\<rparr>) ()) = Changed c' a"
  moreover have "distinct (map f xs) \<Longrightarrow> distinct (map f (remove_first p xs))" for f :: "invite \<Rightarrow> string" and p xs
    using set_remove_first by (induction xs) fastforce+
  ultimately show "accounts_ok w c'" using set_remove_first by (fastforce simp: accounts_ok_def split: if_splits)
qed

lemma keeps_StoreEnabled [keeps_inv]: "both P sys \<Longrightarrow> both P (snd (StoreEnabled sys))"
  using both_sync by (auto simp: StoreEnabled_def Let_def)

lemma keeps_dropStale [keeps_inv]: "both P sys \<Longrightarrow> both P (dropStaleInitialPassword sys)"
  by (auto simp: dropStaleInitialPassword_def both_def split: option.split)

lemma keeps_DisableAll [keeps_inv]: "both (accounts_ok w) sys \<Longrightarrow> both (accounts_ok w) (snd (DisableAll removed sys))"
  using both_sync [of "accounts_ok w" sys]
  by (auto simp: DisableAll_def Let_def both_def accounts_of_def set_accounts_def file_accounts_def removeInitialPassword_def)

lemma keeps_SetTOTPMode [keeps_inv]: "both P sys \<Longrightarrow> both P (SetTOTPMode mode sys)"
  by (simp add: SetTOTPMode_def both_def accounts_of_def file_accounts_def)

lemma plain_ok: "plain_op lib now sys sys' \<Longrightarrow> both (accounts_ok w) sys \<Longrightarrow> both (accounts_ok w) sys'"
proof (induction rule: plain_op.induct)
  case (DisabledUnsaved i out sys r sys')
  with keeps_DisableUser [of w sys i now out] show ?case by simp
qed (auto intro: keeps_inv)

subsection \<open>New accounts\<close>

lemma roster_add:
  assumes "roster_ok us" and "\<not> is_owner u \<or> us = []" and "u_name u \<notin> u_name ` set us" and "u_id u \<notin> u_id ` set us"
  shows "roster_ok (us @ [u])"
  using assms by (auto simp: roster_ok_def)

definition new_user_ok :: "acc_world \<Rightarrow> user \<Rightarrow> bool" where
  "new_user_ok w u \<longleftrightarrow> u_id u \<notin> aw_ids w \<and> u_codes u = [] \<and> u_disabled u = None \<and> (is_owner u \<longrightarrow> \<not> u_restricted u)"

abbreviation with_id :: "string \<Rightarrow> acc_world \<Rightarrow> acc_world" where
  "with_id i w \<equiv> w\<lparr>aw_ids := insert i (aw_ids w)\<rparr>"

lemma grows_with_id [simp]: "acc_grows w (with_id i w)"
  by (auto simp: acc_grows_def)

lemma new_user_user_ok: "new_user_ok w u \<Longrightarrow> aw_sealed w \<subseteq> aw_ids w \<Longrightarrow> user_ok (with_id (u_id u) w) u"
  by (auto simp: new_user_ok_def user_ok_def code_hashes_def user_enabled_def is_owner_def)

lemma add_ok:
  assumes "accounts_ok w c" and "new_user_ok w u" and "aw_sealed w \<subseteq> aw_ids w" and "\<not> is_owner u \<or> a_users c = []"
    and "u_name u \<notin> u_name ` set (a_users c)"
  shows "accounts_ok (with_id (u_id u) w) (c\<lparr>a_users := a_users c @ [u]\<rparr>)"
proof -
  have "u_id u \<notin> u_id ` set (a_users c)" using assms(1,2) by (auto simp: accounts_ok_def user_ok_def new_user_ok_def)
  with roster_add [OF _ assms(4,5)] assms(1) have "roster_ok (a_users c @ [u])" by (simp add: accounts_ok_def)
  with grows_accounts [OF grows_with_id assms(1), of "u_id u"] new_user_user_ok [OF assms(2,3)] show ?thesis
    by (simp add: accounts_ok_def)
qed

lemma sole_ok:
  assumes "new_user_ok w u" and "aw_sealed w \<subseteq> aw_ids w"
  shows "accounts_ok (with_id (u_id u) w) \<lparr>a_users = [u], a_invites = []\<rparr>"
  using add_ok [OF no_accounts_ok assms] by (simp add: no_accounts_def)

text \<open>The disabled account whose name is taken over.\<close>

lemma distinct_replace:
  "distinct (map f xs) \<Longrightarrow> f r \<notin> f ` set xs \<Longrightarrow> distinct (map f (update_first p (\<lambda>_. r) xs))"
proof (induction xs)
  case (Cons x xs)
  then show ?case using set_update_first [of _ p "\<lambda>_. r" xs] by (auto simp: image_iff) (metis+)
qed simp

lemma renamed_ok:
  assumes ok: "accounts_ok w c" and x: "x \<in> set (a_users c)" and n: "n \<notin> u_name ` set (a_users c)"
  defines "us \<equiv> rev (update_first (\<lambda>v. u_name v = u_name x) (\<lambda>_. x\<lparr>u_name := n\<rparr>) (rev (a_users c)))"
  shows "accounts_ok w (c\<lparr>a_users := us\<rparr>)" and "u_name x \<notin> u_name ` set us"
proof -
  let ?p = "\<lambda>v. u_name v = u_name x" and ?us = "rev (a_users c)"
  have names: "distinct (map u_name ?us)" using ok by (simp add: accounts_ok_def roster_ok_def rev_map [symmetric])
  have only: "v = x" if "v \<in> set ?us" "?p v" for v
    using names x that by (auto simp: distinct_map dest: inj_onD)
  have eq: "update_first ?p (\<lambda>_. x\<lparr>u_name := n\<rparr>) ?us = update_first ?p (\<lambda>v. if v = x then v\<lparr>u_name := n\<rparr> else v) ?us"
    by (rule update_first_cong) (use only in auto)
  have "map u_id (update_first ?p (\<lambda>v. if v = x then v\<lparr>u_name := n\<rparr> else v) ?us) = map u_id ?us"
    by (rule map_update_first) simp
  moreover have "length (filter is_owner (update_first ?p (\<lambda>v. if v = x then v\<lparr>u_name := n\<rparr> else v) ?us)) = length (filter is_owner ?us)"
    by (rule filter_update_first) (simp add: is_owner_def)
  moreover have "distinct (map u_name (update_first ?p (\<lambda>_. x\<lparr>u_name := n\<rparr>) ?us))"
    by (rule distinct_replace [OF names]) (use n in simp)
  ultimately have "roster_ok us"
    using ok by (simp add: us_def eq roster_ok_def accounts_ok_def rev_map [symmetric] rev_filter [symmetric])
  moreover have "user_ok w v" if "v \<in> set us" for v
  proof -
    have "v \<in> set (a_users c) \<or> v = x\<lparr>u_name := n\<rparr>"
      using that set_update_first [of v ?p "\<lambda>_. x\<lparr>u_name := n\<rparr>" ?us] by (auto simp: us_def)
    moreover have "user_ok w (x\<lparr>u_name := n\<rparr>) = user_ok w x" by (simp add: user_ok_def user_enabled_def)
    ultimately show ?thesis using ok x by (auto simp: accounts_ok_def)
  qed
  ultimately show "accounts_ok w (c\<lparr>a_users := us\<rparr>)" using ok by (simp add: accounts_ok_def)
  have "u_name x \<notin> u_name ` set (update_first ?p (\<lambda>_. x\<lparr>u_name := n\<rparr>) ys)" if "distinct (map u_name ys)" for ys
    using that n x by (induction ys) auto
  from this [OF names] show "u_name x \<notin> u_name ` set us" by (simp add: us_def)
qed

lemma add_edit_ok:
  assumes ok: "accounts_ok w c" and new: "new_user_ok w u" "aw_sealed w \<subseteq> aw_ids w" "\<not> is_owner u"
    and edit: "add_user_edit lib u reclaim c = Changed c' a"
  shows "accounts_ok (with_id (u_id u) w) c'"
proof (cases "filter (\<lambda>v. u_name v = u_name u) (a_users c) = []")
  case True
  with edit have "c' = c\<lparr>a_users := a_users c @ [u]\<rparr>" by (simp add: add_user_edit_def)
  moreover have "u_name u \<notin> u_name ` set (a_users c)" using True by (auto simp: filter_empty_conv)
  ultimately show ?thesis using add_ok [OF ok new(1,2)] new(3) by simp
next
  case False
  define x where "x = last (filter (\<lambda>v. u_name v = u_name u) (a_users c))"
  have x: "x \<in> set (a_users c)" "u_name x = u_name u"
    using last_in_set [OF False] by (auto simp: x_def)
  obtain n where n: "archivedUsername lib c x = Some n" "n \<notin> u_name ` set (a_users c)"
    using archived_name_exists [of lib c x] by (auto simp: usernameTaken_iff)
  let ?c = "c\<lparr>a_users := rev (update_first (\<lambda>v. u_name v = u_name x) (\<lambda>_. x\<lparr>u_name := n\<rparr>) (rev (a_users c)))\<rparr>"
  from False obtain y ys where "filter (\<lambda>v. u_name v = u_name u) (a_users c) = y # ys" by (meson neq_Nil_conv)
  note same = this
  have held: "last (y # ys) = x" using same by (simp add: x_def)
  have "add_user_edit lib u reclaim c =
      (if list_ex (\<lambda>v. \<not> reclaim \<or> user_enabled v) (y # ys) then Refused UserExists
       else Changed (?c\<lparr>a_users := a_users ?c @ [u]\<rparr>) (u, Some (x\<lparr>u_name := n\<rparr>)))"
    unfolding add_user_edit_def Let_def same list.case held n(1) x(2) option.case by simp
  with edit have "c' = ?c\<lparr>a_users := a_users ?c @ [u]\<rparr>" by (auto split: if_splits)
  moreover have "u_name u \<notin> u_name ` set (a_users ?c)" using renamed_ok(2) [OF ok x(1) n(2)] x(2) by simp
  ultimately show ?thesis using add_ok [OF renamed_ok(1) [OF ok x(1) n(2)] new(1,2)] new(3) by simp
qed

lemma newLocalUser_Inr:
  "newLocalUser lib salt name p role now = Inr u \<Longrightarrow>
    u_id u = deriveUserID lib name now \<and> u_codes u = [] \<and> u_disabled u = None \<and> u_role u = role \<and> u_name u = name"
  by (auto simp: newLocalUser_def and_then_Inr blank_user_def)

lemma newOwner_Inr:
  "newOwner lib salt key name p totp now = Inr (u, uri) \<Longrightarrow>
    u_id u = deriveUserID lib name now \<and> u_codes u = [] \<and> u_disabled u = None \<and> u_role u = RoleOwner \<and> \<not> u_restricted u \<and> u_name u = name"
  by (auto simp: newOwner_def and_then_Inr blank_user_def Let_def split: if_splits option.splits)

lemma both_enter: "both (accounts_ok w) sys \<Longrightarrow> enter who sys = Some s \<Longrightarrow> both (accounts_ok w) s"
  by (cases who) (auto intro: both_OpenAccounts)

lemma both_leave: "both P old \<Longrightarrow> both P new \<Longrightarrow> both P (leave who old new)"
  by (cases who) (simp_all add: both_def accounts_of_def file_accounts_def)

lemma both_saveOwner [simp]: "both P (snd (saveOwner r)) = both P (snd r)"
  by (cases r) (auto simp: saveOwner_def both_def split: sum.split)

lemma addUser_both:
  assumes ok: "both (accounts_ok w) sys" and sealed: "aw_sealed w \<subseteq> aw_ids w" and new: "new_user_ok w u" "\<not> is_owner u"
  shows "both (accounts_ok (with_id (u_id u) w)) (snd (addUser lib u reclaim out sys))"
  unfolding addUser_def
  by (rule both_mutate2 [OF ok surjective_pairing])
    (use grows_accounts [OF grows_with_id] add_edit_ok [OF _ new(1) sealed new(2)] in auto)

lemma add_both:
  assumes ok: "both (accounts_ok w) sys" and sealed: "aw_sealed w \<subseteq> aw_ids w" and new: "deriveUserID lib name now \<notin> aw_ids w" "role \<noteq> RoleOwner"
  defines "w' \<equiv> with_id (deriveUserID lib name now) w"
  shows "both (accounts_ok w') (snd (AddUser lib salt name p role now out sys))"
    and "both (accounts_ok w') (snd (AddUserReclaiming lib salt name p role now out sys))"
    and "both (accounts_ok w') (snd (AddLDAPUser lib name now out sys))"
proof -
  have grown: "both (accounts_ok w') sys" by (simp add: w'_def grows_both [OF grows_with_id ok])
  have local: "both (accounts_ok w') (snd (addUser lib u reclaim out sys))" if "newLocalUser lib salt name p role now = Inr u" for u reclaim
    using addUser_both [OF ok sealed, of u] newLocalUser_Inr [OF that] new by (simp add: w'_def new_user_ok_def is_owner_def)
  show "both (accounts_ok w') (snd (AddUser lib salt name p role now out sys))"
    "both (accounts_ok w') (snd (AddUserReclaiming lib salt name p role now out sys))"
    using local grown by (auto simp: AddUser_def AddUserReclaiming_def split: sum.split)
  have "RoleGuest \<noteq> RoleOwner" by (simp add: role_consts)
  then show "both (accounts_ok w') (snd (AddLDAPUser lib name now out sys))"
    using addUser_both [OF ok sealed, of "(blank_user lib name RoleGuest now)\<lparr>u_source := SourceLDAP, u_restricted := True\<rparr>"] new(1) grown
    by (auto simp: AddLDAPUser_def w'_def new_user_ok_def is_owner_def blank_user_def)
qed

lemma setup_both:
  assumes ok: "both (accounts_ok w) sys" and sealed: "aw_sealed w \<subseteq> aw_ids w" and new: "deriveUserID lib name now \<notin> aw_ids w"
  defines "w' \<equiv> with_id (deriveUserID lib name now) w"
  shows "both (accounts_ok w') (snd (Setup lib salt key name p totp now out sys))"
    and "both (accounts_ok w') (snd (Replace lib salt key name p totp now out sys))"
proof -
  have grown: "both (accounts_ok w') sys" by (simp add: w'_def grows_both [OF grows_with_id ok])
  have sole: "accounts_ok w' \<lparr>a_users = [u], a_invites = []\<rparr>" if "newOwner lib salt key name p totp now = Inr (u, uri)" for u uri
    using sole_ok [of w u] newOwner_Inr [OF that] new sealed by (simp add: w'_def new_user_ok_def is_owner_def)
  have edit: "accounts_ok w' c'" if u: "newOwner lib salt key name p totp now = Inr (u, uri)" and c: "accounts_ok w c"
    and e: "setup_edit u uri totp c = Changed c' a" for u uri c c' a
  proof (cases "find (\<lambda>v. u_name v = u_name u) (a_users c)")
    case None
    with e sole [OF u] show ?thesis by (auto simp: setup_edit_def split: if_splits)
  next
    case (Some v)
    let ?g = "\<lambda>v. let v = v\<lparr>u_hash := u_hash u, u_must_change := False, u_disabled := None\<rparr>
        in if totp then v\<lparr>u_totp := u_totp u, u_codes := []\<rparr> else v"
    from Some e have owner: "u_role v = RoleOwner" and c': "c' = c\<lparr>a_users := update_first (\<lambda>v. u_name v = u_name u) ?g (a_users c)\<rparr>"
      by (auto simp: setup_edit_def split: if_splits)
    have v: "v \<in> set (a_users c)" "u_name v = u_name u" using find_Some_iff' [OF Some] by simp_all
    then have "x = v" if "x \<in> set (a_users c)" "u_name x = u_name u" for x
      using that c by (intro inj_onD [of u_name "set (a_users c)"]) (simp_all add: accounts_ok_def roster_ok_def distinct_map)
    moreover have "user_ok w v" using v c by (simp add: accounts_ok_def)
    then have "user_ok w' (?g v)" using owner by (auto simp: user_ok_def user_enabled_def w'_def Let_def code_hashes_def)
    ultimately show ?thesis
      unfolding c' by (intro ok_update [OF c Some]) (auto simp: w'_def Let_def is_owner_def)
  qed
  show "both (accounts_ok w') (snd (Setup lib salt key name p totp now out sys))"
  proof (cases "newOwner lib salt key name p totp now")
    case (Inr r)
    then obtain u uri where u: "newOwner lib salt key name p totp now = Inr (u, uri)" by (cases r) simp
    have "both (accounts_ok w') (snd (acc_mutate False (setup_edit u uri totp) out sys))"
      by (rule both_mutate2 [OF ok surjective_pairing]) (use grows_accounts [OF grows_with_id] edit [OF u] in \<open>auto simp: w'_def\<close>)
    with u show ?thesis by (simp add: Setup_def)
  qed (simp add: Setup_def grown)
  show "both (accounts_ok w') (snd (Replace lib salt key name p totp now out sys))"
  proof (cases "newOwner lib salt key name p totp now")
    case (Inr r)
    then obtain u uri where u: "newOwner lib salt key name p totp now = Inr (u, uri)" by (cases r) simp
    have "both (accounts_ok w') (snd (acc_mutate False (\<lambda>c. Changed \<lparr>a_users = [u], a_invites = []\<rparr> uri) out sys))"
      by (rule both_mutate2 [OF ok surjective_pairing]) (use grows_accounts [OF grows_with_id] sole [OF u] in \<open>auto simp: w'_def\<close>)
    with u show ?thesis by (simp add: Replace_def)
  qed (simp add: Replace_def grown)
qed

end
