(* ===== verification/AccountReach.thy ===== *)
theory AccountReach
  imports AccountInv
begin

text \<open>
  What the steps that give out, consume or disable keep of the invariant of \<open>AccountSteps\<close>, and the invariant over
  every reachable world.
\<close>

lemma update_first_hit:
  assumes "distinct (map f xs)" and "\<And>x. f (g x) = f x"
  shows "j \<in> set (update_first (\<lambda>x. f x = t) g xs) \<Longrightarrow> f j = t \<Longrightarrow> \<exists>x\<in>set xs. f x = t \<and> j = g x"
  using assms(1)
proof (induction xs)
  case (Cons x xs)
  show ?case
  proof (cases "f x = t")
    case True
    have "j \<notin> set xs" using Cons.prems(2,3) True by auto
    with Cons.prems(1) True show ?thesis by auto
  next
    case False
    with Cons show ?thesis by auto
  qed
qed simp

lemma update_first_miss:
  assumes "\<And>x. f (g x) = f x" and "j \<in> set (update_first (\<lambda>x. f x = t) g xs)" and "f j \<noteq> t"
  shows "j \<in> set xs"
  using set_update_first [OF assms(2)] assms(1,3) by auto

subsection \<open>The first start and the invites\<close>

lemma first_both:
  assumes ok: "both (accounts_ok w) sys" and sealed: "aw_sealed w \<subseteq> aw_ids w" and new: "deriveUserID lib name now \<notin> aw_ids w"
  shows "both (accounts_ok (with_id (deriveUserID lib name now) w)) (snd (ProvisionInitialOwner lib salt random name now written out sys))"
proof -
  let ?w' = "with_id (deriveUserID lib name now) w"
  obtain b z where asked: "StoreEnabled sys = (b, z)" by (meson surj_pair)
  have s: "both (accounts_ok ?w') z" using keeps_StoreEnabled [OF grows_both [OF grows_with_id ok]] asked by (metis snd_conv)
  show ?thesis
  proof (cases b)
    case True
    then have "snd (ProvisionInitialOwner lib salt random name now written out sys) = dropStaleInitialPassword z"
      by (simp add: ProvisionInitialOwner_def asked)
    with keeps_dropStale [OF s] show ?thesis by simp
  next
    case False
    show ?thesis
    proof (cases "\<exists>p u uri. random = Some p \<and> newOwner lib salt None name p False now = Inr (u, uri) \<and> written")
      case False
      with s \<open>\<not> b\<close> show ?thesis by (auto simp: ProvisionInitialOwner_def asked split: option.split sum.split)
    next
      case True
      then obtain p u uri where p: "random = Some p" and u: "newOwner lib salt None name p False now = Inr (u, uri)" and written by auto
      let ?t = "acc_sync (z\<lparr>as_initial := Some p\<rparr>)"
      let ?c = "\<lparr>a_users = [u\<lparr>u_must_change := True\<rparr>], a_invites = []\<rparr>"
      have t: "both (accounts_ok ?w') ?t"
        by (rule both_sync) (use s in \<open>simp add: both_def accounts_of_def file_accounts_def\<close>)
      have c: "accounts_ok ?w' ?c"
        using sole_ok [of w "u\<lparr>u_must_change := True\<rparr>"] newOwner_Inr [OF u] new sealed by (simp add: new_user_ok_def is_owner_def)
      obtain ok' z' where z': "acc_write out (set_accounts ?c ?t) = (ok', z')" by (meson surj_pair)
      have "both (accounts_ok ?w') z'" by (rule both_write [OF t c z'])
      with t z' p u \<open>written\<close> \<open>\<not> b\<close> show ?thesis
        by (cases ok') (simp_all add: ProvisionInitialOwner_def asked Let_def both_def)
    qed
  qed
qed

lemma invited_ok:
  assumes "accounts_ok w c" and "token \<notin> aw_tokens w" and "set (aw_taken w) \<subseteq> aw_tokens w" and "iv_token i = token"
  shows "accounts_ok (w\<lparr>aw_tokens := insert token (aw_tokens w)\<rparr>) (c\<lparr>a_invites := a_invites c @ [i]\<rparr>)"
  using assms by (auto simp: accounts_ok_def invite_ok_def user_ok_def)

lemma taken_less: "accounts_ok (w\<lparr>aw_taken := aw_taken w @ ts\<rparr>) c \<Longrightarrow> accounts_ok w c"
  by (auto simp: accounts_ok_def invite_ok_def user_ok_def)

lemma consumed_ok:
  assumes ok: "accounts_ok w c" and i: "find (\<lambda>i. iv_token i = token) (a_invites c) = Some i" and pending: "invite_pending now i"
  shows "accounts_ok (w\<lparr>aw_taken := aw_taken w @ [token]\<rparr>) (put_invite token (consume_invite u now) c)"
    and "token \<notin> set (aw_taken w)" and "token \<in> aw_tokens w"
proof -
  have "i \<in> set (a_invites c)" "iv_token i = token" using find_Some_iff' [OF i] by simp_all
  with ok pending show "token \<notin> set (aw_taken w)" "token \<in> aw_tokens w"
    by (auto simp: accounts_ok_def invite_ok_def invite_pending_def)
  have d: "distinct (map iv_token (a_invites c))" using ok by (simp add: accounts_ok_def)
  let ?is = "update_first (\<lambda>i. iv_token i = token) (consume_invite u now) (a_invites c)"
  have tokens: "map iv_token ?is = map iv_token (a_invites c)" by (rule map_update_first) (simp add: consume_invite_def)
  have token_kept: "iv_token (consume_invite u now x) = iv_token x" for x by (simp add: consume_invite_def)
  have "invite_ok (w\<lparr>aw_taken := aw_taken w @ [token]\<rparr>) j" if j: "j \<in> set ?is" for j
  proof (cases "iv_token j = token")
    case True
    from update_first_hit [OF d token_kept j True] obtain x where x: "x \<in> set (a_invites c)" "iv_token x = token" "j = consume_invite u now x" by blast
    then have "invite_ok w x" using ok by (simp add: accounts_ok_def)
    with x show ?thesis by (simp add: invite_ok_def consume_invite_def)
  next
    case False
    from update_first_miss [of iv_token, OF token_kept j False] ok have "invite_ok w j" by (simp add: accounts_ok_def)
    with False show ?thesis by (simp add: invite_ok_def)
  qed
  with ok d tokens show "accounts_ok (w\<lparr>aw_taken := aw_taken w @ [token]\<rparr>) (put_invite token (consume_invite u now) c)"
    by (auto simp: accounts_ok_def put_invite_def user_ok_def)
qed

lemma redeem_edit_ok:
  assumes ok: "accounts_ok w c" and new: "new_user_ok w u" "\<not> is_owner u" and sealed: "aw_sealed w \<subseteq> aw_ids w"
    and edit: "redeem_edit token u now c = Changed c' a"
  shows "accounts_ok (with_id (u_id u) (w\<lparr>aw_taken := aw_taken w @ [token]\<rparr>)) c'" and "token \<notin> set (aw_taken w)" and "token \<in> aw_tokens w"
proof -
  obtain i where i: "find (\<lambda>i. iv_token i = token) (a_invites c) = Some i" "invite_pending now i"
    and u: "u_name u \<notin> u_name ` set (a_users c)"
    and c': "c' = (put_invite token (consume_invite (u_id u) now) c)\<lparr>a_users := a_users c @ [u]\<rparr>"
    using edit by (auto simp: redeem_edit_def usernameTaken_iff split: option.splits if_splits)
  note consumed = consumed_ok [OF ok i]
  show "token \<notin> set (aw_taken w)" "token \<in> aw_tokens w" by (rule consumed(2), rule consumed(3))
  have users: "a_users (put_invite token g c) = a_users c" for g by (simp add: put_invite_def)
  have "new_user_ok (w\<lparr>aw_taken := aw_taken w @ [token]\<rparr>) u" using new(1) by (simp add: new_user_ok_def)
  from add_ok [OF consumed(1) this] sealed new(2) u
  show "accounts_ok (with_id (u_id u) (w\<lparr>aw_taken := aw_taken w @ [token]\<rparr>)) c'"
    unfolding c' by (simp add: users)
qed

subsection \<open>Recovery codes\<close>

lemma put_codes_both:
  assumes ok: "both (accounts_ok w) sys" and spent: "snd ` set (aw_spent w) \<subseteq> aw_hashes w"
    and fresh: "fresh_codes lib bs salts w hs"
  defines "w' \<equiv> w\<lparr>aw_hashes := aw_hashes w \<union> hs\<rparr>"
  shows "both (accounts_ok w') (snd (EnrollTOTP lib bs salts i secret out sys))"
    and "both (accounts_ok w') (snd (GenerateRecoveryCodes lib bs salts i out sys))"
proof -
  have acc_grows: "acc_grows w w'" by (auto simp: acc_grows_def w'_def)
  have grown: "both (accounts_ok w') sys" by (rule grows_both [OF acc_grows ok])
  have codes: "user_ok w' (u\<lparr>u_codes := stored\<rparr>)" if "newRecoveryCodes lib bs salts = Inr (plain, stored)" and "user_ok w u" for plain stored u
  proof -
    have hs: "hs = code_hashes stored" "distinct (map rc_hash stored)" "hs \<inter> aw_hashes w = {}"
      using that(1) fresh by (auto simp: fresh_codes_def)
    have "(u_id u, rc_hash rc) \<notin> set (aw_spent w)" if "rc \<in> set stored" for rc
    proof
      assume "(u_id u, rc_hash rc) \<in> set (aw_spent w)"
      then have "rc_hash rc \<in> aw_hashes w" using spent by force
      with that hs(1,3) show False by (auto simp: code_hashes_def)
    qed
    with that(2) hs(1,2) show ?thesis by (auto simp: user_ok_def w'_def user_enabled_def)
  qed
  have codes': "user_ok w' (u\<lparr>u_totp := secret, u_codes := stored\<rparr>)" if "newRecoveryCodes lib bs salts = Inr (plain, stored)" and "user_ok w u" for plain stored u
    using codes [OF that] by (simp add: user_ok_def user_enabled_def)
  show "both (accounts_ok w') (snd (EnrollTOTP lib bs salts i secret out sys))"
  proof (cases "secret = [] \<or> (\<exists>e. newRecoveryCodes lib bs salts = Inl e)")
    case False
    then obtain plain stored where n: "newRecoveryCodes lib bs salts = Inr (plain, stored)" "secret \<noteq> []"
      by (cases "newRecoveryCodes lib bs salts") auto
    have "both (accounts_ok w') (snd (acc_mutate False (\<lambda>c. with_user i (\<lambda>u.
        if u_totp u \<noteq> [] then Refused AlreadyEnrolled
        else Changed (put_user i (\<lambda>u. u\<lparr>u_totp := secret, u_codes := stored\<rparr>) c) plain) c) out sys))"
      by (rule mutate_user [OF ok acc_grows]) (auto intro!: user_edit_Changed codes' [OF n(1)] simp: is_owner_def)
    with n show ?thesis by (simp add: EnrollTOTP_def)
  qed (use grown in \<open>auto simp: EnrollTOTP_def\<close>)
  show "both (accounts_ok w') (snd (GenerateRecoveryCodes lib bs salts i out sys))"
  proof (cases "newRecoveryCodes lib bs salts")
    case (Inr r)
    then obtain plain stored where n: "newRecoveryCodes lib bs salts = Inr (plain, stored)" by (cases r) simp
    have "both (accounts_ok w') (snd (acc_mutate False (\<lambda>c. with_user i (\<lambda>u.
        if u_totp u = [] then Refused NotEnrolled else Changed (put_user i (\<lambda>u. u\<lparr>u_codes := stored\<rparr>) c) plain) c) out sys))"
      by (rule mutate_user [OF ok acc_grows]) (auto intro!: user_edit_Changed codes [OF n(1)] simp: is_owner_def)
    with n show ?thesis by (simp add: GenerateRecoveryCodes_def)
  qed (use grown in \<open>auto simp: GenerateRecoveryCodes_def\<close>)
qed

lemma spent_less: "accounts_ok (w\<lparr>aw_spent := aw_spent w @ xs\<rparr>) c \<Longrightarrow> accounts_ok w c"
  by (auto simp: accounts_ok_def invite_ok_def user_ok_def)

lemma commit_edit_ok:
  assumes ok: "accounts_ok w c" and edit: "commit_edit i m h now c = Changed c' b"
  shows "accounts_ok (w\<lparr>aw_spent := aw_spent w @ [(i, h)]\<rparr>) c'" and "(i, h) \<notin> set (aw_spent w)" and "h \<in> aw_hashes w" and b
proof -
  obtain u where u: "find_user i c = Some u" and m: "m < length (u_codes u)" "rc_used (u_codes u ! m) = None" "rc_hash (u_codes u ! m) = h"
    and c': "c' = put_user i (mark_code m now) c" and b
    using edit by (auto simp: commit_edit_def split: option.splits if_splits)
  show b by fact
  have u_ok: "user_ok w u" "u_id u = i" using found_ok [OF ok u] by simp_all
  have "u_codes u ! m \<in> set (u_codes u)" using m(1) by simp
  with u_ok m show unspent: "(i, h) \<notin> set (aw_spent w)" and "h \<in> aw_hashes w"
    by (auto simp: user_ok_def code_hashes_def)
  let ?w' = "w\<lparr>aw_spent := aw_spent w @ [(i, h)]\<rparr>"
  have hashes: "map rc_hash (u_codes (mark_code m now u)) = map rc_hash (u_codes u)"
    by (rule nth_equalityI) (use m(1) in \<open>auto simp: mark_code_def nth_list_update\<close>)
  then have sets: "code_hashes (u_codes (mark_code m now u)) = code_hashes (u_codes u)"
    unfolding code_hashes_def by (metis set_map)
  have "rc_used rc \<noteq> None" if rc: "rc \<in> set (u_codes (mark_code m now u))" "(i, rc_hash rc) \<in> set (aw_spent ?w')" for rc
  proof -
    obtain k where k: "k < length (u_codes u)" "rc = u_codes (mark_code m now u) ! k"
      using rc(1) by (auto simp: in_set_conv_nth mark_code_def)
    show ?thesis
    proof (cases "k = m")
      case False
      then have r: "rc = u_codes u ! k" using k by (simp add: mark_code_def)
      have "rc_hash rc \<noteq> h" using False k(1) m(1,3) u_ok(1) r by (auto simp: user_ok_def distinct_conv_nth)
      with rc(2) have "(i, rc_hash rc) \<in> set (aw_spent w)" by simp
      with u_ok r k(1) show ?thesis by (auto simp: user_ok_def)
    qed (use k m(1) in \<open>simp add: mark_code_def\<close>)
  qed
  then have marked: "user_ok ?w' (mark_code m now u)"
    using u_ok hashes sets by (simp add: user_ok_def) (simp add: user_enabled_def mark_code_def)
  have other: "user_ok ?w' v" if "v \<in> set (a_users c)" "u_id v \<noteq> i" for v
    using that ok by (auto simp: accounts_ok_def user_ok_def)
  have id: "u_id (mark_code m now v) = u_id v" for v by (simp add: mark_code_def)
  have base: "accounts_ok w c'" unfolding c'
    by (rule ok_put_user [OF ok u acc_grows_refl]) (use marked in \<open>auto simp: mark_code_def is_owner_def user_ok_def\<close>)
  have d: "distinct (map u_id (a_users c))" using ok by (simp add: accounts_ok_def roster_ok_def)
  have "user_ok ?w' v" if v: "v \<in> set (update_first (\<lambda>u. u_id u = i) (mark_code m now) (a_users c))" for v
  proof (cases "u_id v = i")
    case False
    with update_first_miss [of u_id, OF id v False] other show ?thesis by blast
  next
    case True
    from update_first_hit [OF d id v True] obtain x where x: "x \<in> set (a_users c)" "u_id x = i" "v = mark_code m now x" by blast
    have "u \<in> set (a_users c)" using find_Some_iff' [OF u [unfolded find_user_def]] by simp
    with x u_ok(2) d have "x = u" by (intro inj_onD [of u_id "set (a_users c)"]) (simp_all add: distinct_map)
    with x marked show ?thesis by simp
  qed
  then have "\<forall>v\<in>set (a_users c'). user_ok ?w' v" by (simp add: c' put_user_def)
  with base show "accounts_ok ?w' c'" by (simp add: accounts_ok_def invite_ok_def)
qed

subsection \<open>Every step\<close>

lemma ghosts_simps [simp]: "ghosts_ok (w\<lparr>aw_sys := s\<rparr>) = ghosts_ok w" "accounts_ok (w\<lparr>aw_sys := s\<rparr>) c = accounts_ok w c"
  "ghosts_ok (w\<lparr>aw_clock := t\<rparr>) = ghosts_ok w" "accounts_ok (w\<lparr>aw_clock := t\<rparr>) c = accounts_ok w c"
  "ghosts_ok (w\<lparr>aw_matches := ms\<rparr>) = ghosts_ok w" "accounts_ok (w\<lparr>aw_matches := ms\<rparr>) c = accounts_ok w c"
  by (simp_all add: ghosts_ok_def accounts_ok_def invite_ok_def user_ok_def)

lemma disabled_now:
  assumes "DisableUser i now out sys = (Inr True, sys')"
  shows "\<exists>c u. find_user i (accounts_of (acc_sync sys)) = Some u \<and> c = put_user i (\<lambda>u. u\<lparr>u_disabled := Some now\<rparr>) (accounts_of (acc_sync sys)) \<and>
    accounts_of sys' = c \<and> file_accounts sys' = c"
proof (cases "find_user i (accounts_of (acc_sync sys))")
  case None
  with assms show ?thesis by (simp add: DisableUser_def acc_mutate_def with_user_def)
next
  case (Some u)
  from mutate_Inr [OF assms [unfolded DisableUser_def]] Some show ?thesis
    by (auto simp: with_user_def split: if_splits)
qed

lemma acc_ok_step: "acc_step lib w w' \<Longrightarrow> acc_ok w \<Longrightarrow> acc_ok w'"
proof (induction rule: acc_step.induct)
  case (AccTick w t)
  then show ?case by (simp add: acc_ok_def both_def)
next
  case (AccRestart w s)
  then show ?case using both_OpenAccounts [of "accounts_ok w" "aw_sys w" s] by (simp add: acc_ok_def both_def)
next
  case (AccPlain who w sys sys')
  then have ok: "both (accounts_ok w) (aw_sys w)" by (simp add: acc_ok_def)
  from plain_ok [OF AccPlain(2) both_enter [OF ok AccPlain(1)]] have "both (accounts_ok w) sys'" .
  with both_leave [OF ok this, of who] AccPlain(3) show ?case by (simp add: acc_ok_def both_def)
next
  case (AccAdded who w sys role op salt name password out r sys' i)
  then have ok: "both (accounts_ok w) (aw_sys w)" and g: "ghosts_ok w" by (simp_all add: acc_ok_def)
  have "aw_sealed w \<subseteq> aw_ids w" using g by (simp add: ghosts_ok_def)
  from add_both [OF both_enter [OF ok AccAdded(1)] this AccAdded(6) [unfolded AccAdded(5)] AccAdded(2)] AccAdded(3,4,5)
  have "both (accounts_ok (with_id i w)) sys'" by (metis insertE singletonD snd_conv)
  from both_leave [OF grows_both [OF grows_with_id ok] this, of who] g show ?case
    by (auto simp: acc_ok_def both_def ghosts_ok_def accounts_ok_def invite_ok_def user_ok_def)
next
  case (AccLDAP name w out r sys' i)
  then have ok: "both (accounts_ok w) (aw_sys w)" and g: "ghosts_ok w" by (simp_all add: acc_ok_def)
  have "aw_sealed w \<subseteq> aw_ids w" using g by (simp add: ghosts_ok_def)
  moreover have "RoleGuest \<noteq> RoleOwner" by (simp add: role_consts)
  ultimately have "both (accounts_ok (with_id i w)) (snd (AddLDAPUser lib name (aw_clock w) out (aw_sys w)))"
    unfolding AccLDAP(2) by (rule add_both(3) [OF ok _ AccLDAP(3) [unfolded AccLDAP(2)]])
  with AccLDAP(1) g show ?case by (auto simp: acc_ok_def both_def ghosts_ok_def accounts_ok_def invite_ok_def user_ok_def)
next
  case (AccSetup who w sys op salt key name password totp out r sys' i)
  then have ok: "both (accounts_ok w) (aw_sys w)" and g: "ghosts_ok w" by (simp_all add: acc_ok_def)
  have "aw_sealed w \<subseteq> aw_ids w" using g by (simp add: ghosts_ok_def)
  from setup_both [OF both_enter [OF ok AccSetup(1)] this AccSetup(5) [unfolded AccSetup(4)]] AccSetup(2,3,4)
  have "both (accounts_ok (with_id i w)) sys'" by (metis insertE singletonD snd_conv)
  from both_leave [OF grows_both [OF grows_with_id ok] this, of who] g show ?case
    by (auto simp: acc_ok_def both_def ghosts_ok_def accounts_ok_def invite_ok_def user_ok_def)
next
  case (AccFirst salt random name w written out r sys' i)
  then have ok: "both (accounts_ok w) (aw_sys w)" and g: "ghosts_ok w" by (simp_all add: acc_ok_def)
  have "aw_sealed w \<subseteq> aw_ids w" using g by (simp add: ghosts_ok_def)
  from first_both [OF ok this AccFirst(3) [unfolded AccFirst(2)]] AccFirst(1,2) have "both (accounts_ok (with_id i w)) sys'" by (metis snd_conv)
  with g show ?case by (auto simp: acc_ok_def both_def ghosts_ok_def accounts_ok_def invite_ok_def user_ok_def)
next
  case (AccSealed i w out sys')
  then have ok: "both (accounts_ok w) (aw_sys w)" and g: "ghosts_ok w" by (simp_all add: acc_ok_def)
  have kept: "both (accounts_ok w) sys'" using keeps_DisableUser [OF ok, of i "aw_clock w" out] AccSealed(1) by simp
  obtain c u where u: "find_user i (accounts_of (acc_sync (aw_sys w))) = Some u"
    and c: "c = put_user i (\<lambda>u. u\<lparr>u_disabled := Some (aw_clock w)\<rparr>) (accounts_of (acc_sync (aw_sys w)))" "accounts_of sys' = c" "file_accounts sys' = c"
    using disabled_now [OF AccSealed(1)] by blast
  have old: "accounts_ok w (accounts_of (acc_sync (aw_sys w)))" using both_sync [OF ok] by (simp add: both_def)
  then have d: "distinct (map u_id (a_users (accounts_of (acc_sync (aw_sys w)))))" by (simp add: accounts_ok_def roster_ok_def)
  have "\<not> user_enabled v" if "v \<in> set (a_users c)" "u_id v = i" for v
    using update_first_hit [OF d _ _ that(2), of "\<lambda>u. u\<lparr>u_disabled := Some (aw_clock w)\<rparr>"] that(1)
    by (auto simp: c(1) put_user_def user_enabled_def)
  moreover have "u_role v \<noteq> RoleOwner" if "v \<in> set (a_users c)" "u_id v = i" for v
    using calculation [OF that] kept c(2) that(1) by (auto simp: both_def accounts_ok_def user_ok_def)
  moreover have "i \<in> aw_ids w" using found_ok [OF old u] by (auto simp: user_ok_def)
  ultimately show ?case using kept g c(2,3)
    by (auto simp: acc_ok_def both_def ghosts_ok_def accounts_ok_def invite_ok_def user_ok_def)
next
  case (AccInvited random creator ttl w out r sys' token)
  then have ok: "both (accounts_ok w) (aw_sys w)" and g: "ghosts_ok w" by (simp_all add: acc_ok_def)
  let ?w' = "w\<lparr>aw_tokens := insert token (aw_tokens w)\<rparr>"
  have taken: "set (aw_taken w) \<subseteq> aw_tokens w" using g by (simp add: ghosts_ok_def)
  have acc_grows: "acc_grows w ?w'" by (auto simp: acc_grows_def)
  have "both (accounts_ok ?w') sys'"
    by (rule both_mutate2 [OF ok AccInvited(1) [unfolded CreateInvite_def Let_def option.case]])
      (use grows_accounts [OF acc_grows] invited_ok [OF _ AccInvited(3) taken] AccInvited(2) in auto)
  with g show ?case by (auto simp: acc_ok_def both_def ghosts_ok_def accounts_ok_def invite_ok_def user_ok_def)
next
  case (AccRedeemed salt token name password w out r sys' i)
  then have ok: "both (accounts_ok w) (aw_sys w)" and g: "ghosts_ok w" by (simp_all add: acc_ok_def)
  have sealed: "aw_sealed w \<subseteq> aw_ids w" using g by (simp add: ghosts_ok_def)
  show ?case
  proof (cases "newLocalUser lib salt name password RoleMember (aw_clock w)")
    case (Inl e)
    with AccRedeemed(1) have "sys' = aw_sys w" "r = Inl e" by (simp_all add: RedeemInvite_def)
    with g grows_both [OF grows_with_id ok, of i] show ?thesis
      by (auto simp: acc_ok_def both_def ghosts_ok_def accounts_ok_def invite_ok_def user_ok_def)
  next
    case (Inr u)
    note m = AccRedeemed(1) [unfolded RedeemInvite_def Inr sum.case]
    have "RoleMember \<noteq> RoleOwner" by (simp add: role_consts)
    then have u: "new_user_ok w u" "\<not> is_owner u" "u_id u = i"
      using newLocalUser_Inr [OF Inr] AccRedeemed(2,3) by (simp_all add: new_user_ok_def is_owner_def)
    note edit = redeem_edit_ok [OF _ u(1,2) sealed, unfolded u(3)]
    have "accounts_ok (with_id i w) c'" if "accounts_ok w c" "redeem_edit token u (aw_clock w) c = Changed c' a" for c c' a
    proof (rule taken_less [of "with_id i w" "[token]"])
      have eq: "(with_id i w)\<lparr>aw_taken := aw_taken (with_id i w) @ [token]\<rparr> = with_id i (w\<lparr>aw_taken := aw_taken w @ [token]\<rparr>)" by simp
      show "accounts_ok ((with_id i w)\<lparr>aw_taken := aw_taken (with_id i w) @ [token]\<rparr>) c'"
        unfolding eq by (rule edit(1) [OF that])
    qed
    then have "both (accounts_ok (with_id i w)) sys'"
      by (intro both_mutate2 [OF ok m grows_accounts [OF grows_with_id]])
    moreover have "both (accounts_ok (with_id i (w\<lparr>aw_taken := aw_taken w @ [token]\<rparr>))) sys' \<and> token \<notin> set (aw_taken w) \<and> token \<in> aw_tokens w"
      if r: "r = Inr a" for a
    proof -
      have old: "accounts_ok w (accounts_of (acc_sync (aw_sys w)))" using both_sync [OF ok] by (simp add: both_def)
      obtain c where c: "redeem_edit token u (aw_clock w) (accounts_of (acc_sync (aw_sys w))) = Changed c a"
        "accounts_of sys' = c" "file_accounts sys' = c"
        using mutate_Inr [OF m [unfolded r]] by (auto simp: redeem_edit_def split: option.splits if_splits)
      from edit [OF old c(1)] c(2,3) show ?thesis by (simp add: both_def)
    qed
    ultimately show ?thesis using g
      by (cases r) (auto simp: acc_ok_def both_def ghosts_ok_def accounts_ok_def invite_ok_def user_ok_def)
  qed
next
  case (AccClaimed token consumer w out r sys')
  then have ok: "both (accounts_ok w) (aw_sys w)" and g: "ghosts_ok w" by (simp_all add: acc_ok_def)
  let ?w' = "w\<lparr>aw_taken := aw_taken w @ [token]\<rparr>"
  let ?e = "\<lambda>c. case find (\<lambda>i. iv_token i = token) (a_invites c) of
      None \<Rightarrow> Refused InviteNotFound
    | Some i \<Rightarrow> if \<not> invite_pending (aw_clock w) i then Refused InviteNotPending
        else Changed (put_invite token (consume_invite consumer (aw_clock w)) c) ()"
  note m = AccClaimed(1) [unfolded ClaimInvite_def]
  have edit: "accounts_ok ?w' c' \<and> token \<notin> set (aw_taken w) \<and> token \<in> aw_tokens w" if "accounts_ok w c" "?e c = Changed c' a" for c c' a
    using that consumed_ok [OF that(1), of token _ "aw_clock w"] by (auto split: option.splits if_splits)
  have "both (accounts_ok w) sys'"
    by (rule both_mutate2 [OF ok m]) (use edit taken_less in blast)+
  moreover have "both (accounts_ok ?w') sys' \<and> token \<notin> set (aw_taken w) \<and> token \<in> aw_tokens w" if r: "r = Inr a" for a
  proof -
    have old: "accounts_ok w (accounts_of (acc_sync (aw_sys w)))" using both_sync [OF ok] by (simp add: both_def)
    obtain c where c: "?e (accounts_of (acc_sync (aw_sys w))) = Changed c a" "accounts_of sys' = c" "file_accounts sys' = c"
      using mutate_Inr [OF m [unfolded r]] by (auto split: option.splits if_splits)
    from edit [OF old c(1)] c(2,3) show ?thesis by (simp add: both_def)
  qed
  ultimately show ?case using g
    by (cases r) (auto simp: acc_ok_def both_def ghosts_ok_def accounts_ok_def invite_ok_def user_ok_def)
next
  case (AccEnrolled bs salts i secret out w r sys' hs)
  then have ok: "both (accounts_ok w) (aw_sys w)" and g: "ghosts_ok w" by (simp_all add: acc_ok_def)
  have "snd ` set (aw_spent w) \<subseteq> aw_hashes w" using g by (simp add: ghosts_ok_def)
  from put_codes_both(1) [OF ok this AccEnrolled(2)] AccEnrolled(1) have "both (accounts_ok (w\<lparr>aw_hashes := aw_hashes w \<union> hs\<rparr>)) sys'" by (metis snd_conv)
  with g show ?case by (auto simp: acc_ok_def both_def ghosts_ok_def accounts_ok_def invite_ok_def user_ok_def)
next
  case (AccRegenerated who w sys bs salts i out r sys' hs)
  then have ok: "both (accounts_ok w) (aw_sys w)" and g: "ghosts_ok w" by (simp_all add: acc_ok_def)
  have "snd ` set (aw_spent w) \<subseteq> aw_hashes w" using g by (simp add: ghosts_ok_def)
  from put_codes_both(2) [OF both_enter [OF ok AccRegenerated(1)] this AccRegenerated(3)] AccRegenerated(2)
  have *: "both (accounts_ok (w\<lparr>aw_hashes := aw_hashes w \<union> hs\<rparr>)) sys'" by (metis snd_conv)
  have "acc_grows w (w\<lparr>aw_hashes := aw_hashes w \<union> hs\<rparr>)" by (auto simp: acc_grows_def)
  from both_leave [OF grows_both [OF this ok] *, of who] g show ?case
    by (auto simp: acc_ok_def both_def ghosts_ok_def accounts_ok_def invite_ok_def user_ok_def)
next
  case (AccMatched norm i w m h)
  then show ?case by (simp add: acc_ok_def both_def)
next
  case (AccConsumed i m h w out r sys')
  then have ok: "both (accounts_ok w) (aw_sys w)" and g: "ghosts_ok w" by (simp_all add: acc_ok_def)
  note m = AccConsumed(2) [unfolded commit_code_def]
  have "both (accounts_ok w) sys'"
    by (rule both_mutate2 [OF ok m]) (use commit_edit_ok(1) spent_less in blast)+
  moreover have "both (accounts_ok (w\<lparr>aw_spent := aw_spent w @ [(i, h)]\<rparr>)) sys' \<and> (i, h) \<notin> set (aw_spent w) \<and> h \<in> aw_hashes w" if r: "r = Inr True"
  proof -
    have old: "accounts_ok w (accounts_of (acc_sync (aw_sys w)))" using both_sync [OF ok] by (simp add: both_def)
    obtain c where c: "commit_edit i m h (aw_clock w) (accounts_of (acc_sync (aw_sys w))) = Changed c True" "accounts_of sys' = c" "file_accounts sys' = c"
      using mutate_Inr [OF m [unfolded r]] by (auto simp: commit_edit_def split: option.splits if_splits)
    from commit_edit_ok [OF old c(1)] c(2,3) show ?thesis by (simp add: both_def)
  qed
  ultimately show ?case using g
    by (cases "r = Inr True") (auto simp: acc_ok_def both_def ghosts_ok_def accounts_ok_def invite_ok_def user_ok_def)
qed

lemma acc_reachable_ok: "acc_reachable lib w \<Longrightarrow> acc_ok w"
proof (induction rule: acc_reachable.induct)
  case (AccStart s now)
  then have "am_accounts s = no_accounts" by (auto simp: OpenAccounts_def)
  then show ?case by (simp add: acc_ok_def both_def accounts_of_def file_accounts_def ghosts_ok_def)
next
  case (AccStep w w')
  then show ?case using acc_ok_step by blast
qed

end
