(* ===== verification/WebClaims.thy ===== *)
theory WebClaims
  imports WebRoutes AccountReach
begin

text \<open>
  What the accounts and the sessions promise together: what a sign-in takes, that recovery codes and invites are used
  once, that a disabled account stays out, and that the gates of the routes, of the event stream and of the attachments agree.
\<close>

subsection \<open>Syncing twice\<close>

lemma acc_sync_idem [simp]: "acc_sync (acc_sync sys) = acc_sync sys"
  by (auto simp: acc_sync_def acc_reload_def no_accounts_def split: json_file.splits option.splits)

lemma acc_sync_mode [simp]: "am_mode (as_mem (acc_sync sys)) = am_mode (as_mem sys)"
  by (auto simp: acc_sync_def acc_reload_def split: json_file.splits option.splits)

text \<open>A synced store whose accounts have no such name takes an LDAP account in, or keeps what it had.\<close>

lemma addUser_fresh:
  assumes "acc_sync sys = sys" and "u_name u \<notin> u_name ` set (a_users (accounts_of sys))" and "addUser lib u False out sys = (r, sys')"
  shows "(r = Inr (u, None)) \<or> (\<exists>e. r = Inl e \<and> sys' = sys)"
proof -
  have "filter (\<lambda>v. u_name v = u_name u) (a_users (accounts_of sys)) = []"
    using assms(2) by (intro filter_False ballI notI) (metis image_eqI)
  then have e: "add_user_edit lib u False (accounts_of sys) =
      Changed ((accounts_of sys)\<lparr>a_users := a_users (accounts_of sys) @ [u]\<rparr>) (u, None)" by (simp add: add_user_edit_def)
  obtain ok t where "acc_write out (set_accounts ((accounts_of sys)\<lparr>a_users := a_users (accounts_of sys) @ [u]\<rparr>) sys) = (ok, t)" by (meson surj_pair)
  with assms(1,3) e show ?thesis by (auto simp: addUser_def acc_mutate_def Let_def split: if_splits)
qed

lemma byName_None: "UserByUsername name sys = None \<longleftrightarrow> name \<notin> u_name ` set (a_users (accounts_of sys))"
  by (auto simp: UserByUsername_def find_None_iff)

lemma byName_Some: "UserByUsername name sys = Some u \<Longrightarrow> u \<in> set (a_users (accounts_of sys)) \<and> u_name u = name"
  by (auto simp: UserByUsername_def dest: find_Some_iff')

subsection \<open>The first factor\<close>

definition proved :: "acc_lib \<Rightarrow> (string \<Rightarrow> string \<Rightarrow> bool) option \<Rightarrow> user \<Rightarrow> string \<Rightarrow> bool" where
  "proved lib ldap u password \<longleftrightarrow>
     (if u_source u = SourceLDAP then \<exists>bind. ldap = Some bind \<and> bind (u_name u) password else al_compare lib (u_hash u) password)"

definition new_guest :: "user \<Rightarrow> bool" where
  "new_guest u \<longleftrightarrow> u_source u = SourceLDAP \<and> u_role u = RoleGuest \<and> u_totp u = [] \<and> u_restricted u"

lemma first_factor_Inr:
  assumes "first_factor lib ldap name password now out sys = (Inr u, sys')" and "acc_sync sys = sys"
  shows "u_name u = name \<and> user_enabled u \<and> proved lib ldap u password \<and>
    ((u \<in> set (a_users (accounts_of sys)) \<and> sys' = sys) \<or> (new_guest u \<and> UserByUsername name sys = None \<and> u_id u = deriveUserID lib name now))"
proof (cases "UserByUsername name sys")
  case (Some v)
  with assms(1) byName_Some [OF Some] show ?thesis
    by (auto simp: first_factor_def verifyPassword_def proved_def split: if_splits option.splits)
next
  case None
  let ?g = "(blank_user lib name RoleGuest now)\<lparr>u_source := SourceLDAP, u_restricted := True\<rparr>"
  obtain bind where bind: "ldap = Some bind" "bind name password" using assms(1) None by (auto simp: first_factor_def split: option.splits if_splits)
  obtain r t where r: "AddLDAPUser lib name now out sys = (r, t)" by (meson surj_pair)
  have fresh: "u_name ?g \<notin> u_name ` set (a_users (accounts_of sys))" using None by (simp add: byName_None blank_user_def)
  have r_cases: "r = Inr (?g, None) \<or> (\<exists>e. r = Inl e \<and> t = sys)"
  proof (cases "name = []")
    case True
    with r show ?thesis by (auto simp: AddLDAPUser_def)
  next
    case False
    with r addUser_fresh [OF assms(2) fresh] show ?thesis by (auto simp: AddLDAPUser_def)
  qed
  then show ?thesis
  proof
    assume "r = Inr (?g, None)"
    with assms(1) None bind r have "u = ?g" by (simp add: first_factor_def)
    with bind None show ?thesis by (simp add: blank_user_def user_enabled_def proved_def new_guest_def)
  next
    assume "\<exists>e. r = Inl e \<and> t = sys"
    with assms(1) None bind r show ?thesis by (auto simp: first_factor_def)
  qed
qed

subsection \<open>The second factor\<close>

lemma first_index_Some: "first_index p xs = Some m \<Longrightarrow> m < length xs \<and> p (xs ! m)"
  by (induction xs arbitrary: m) (auto split: if_splits)

lemma snapshot_of:
  assumes "u \<in> set (a_users (accounts_of sys))" and "distinct (map u_id (a_users (accounts_of sys)))"
  shows "snapshot_codes (u_id u) sys = map (\<lambda>rc. if rc_used rc = None then rc_hash rc else []) (u_codes u)"
proof -
  have "filter (\<lambda>v. u_id v = u_id u) us = [u]" if "u \<in> set us" "distinct (map u_id us)" for us
    using that by (induction us) (auto simp: filter_empty_conv image_iff)
  from this [OF assms] show ?thesis by (simp add: snapshot_codes_def)
qed

lemma find_of:
  assumes "u \<in> set (a_users (accounts_of sys))" and "distinct (map u_id (a_users (accounts_of sys)))"
  shows "UserByID (u_id u) sys = Some u"
proof -
  have "find (\<lambda>v. u_id v = u_id u) us = Some u" if "u \<in> set us" "distinct (map u_id us)" for us
    using that by (induction us) (auto simp: image_iff)
  from this [OF assms] show ?thesis by (simp add: UserByID_def find_user_def)
qed

definition code_taken :: "acc_lib \<Rightarrow> user \<Rightarrow> string \<Rightarrow> time \<Rightarrow> acc_sys \<Rightarrow> bool" where
  "code_taken lib u code now sys' \<longleftrightarrow>
     (\<exists>c\<in>set (u_codes u). rc_used c = None \<and> al_compare lib (rc_hash c) (normalizeRecoveryCode code) \<and>
       (\<exists>v. UserByID (u_id u) sys' = Some v \<and> v = u\<lparr>u_codes := u_codes v\<rparr> \<and>
         (\<exists>c'\<in>set (u_codes v). rc_hash c' = rc_hash c \<and> rc_used c' = Some now)))"

lemma secondFactor_Inr:
  assumes "secondFactor lib u code now out sys = (Inr used, sys')" and sync: "acc_sync sys = sys"
    and u: "u \<in> set (a_users (accounts_of sys))" "distinct (map u_id (a_users (accounts_of sys)))"
  shows "if used then code_taken lib u code now sys'
    else sys' = sys \<and> (totpActive (am_mode (as_mem sys)) u \<and> u_totp u \<noteq> [] \<longrightarrow> al_totp lib code (u_totp u) now)"
proof (cases "\<not> totpActive (am_mode (as_mem sys)) u \<or> u_totp u = [] \<or> al_totp lib code (u_totp u) now")
  case True
  with assms(1) show ?thesis by (auto simp: secondFactor_def split: if_splits)
next
  case False
  let ?norm = "normalizeRecoveryCode code" and ?hs = "snapshot_codes (u_id u) sys"
  from False assms(1) have used: used and consumed: "consumeRecoveryCode lib (u_id u) ?norm now out sys = (Inr True, sys')"
    by (auto simp: secondFactor_def Let_def split: if_splits prod.splits sum.splits)
  obtain m h where m: "match_code lib ?norm ?hs = Some (m, h)" and commit: "commit_code (u_id u) m h now out sys = (Inr True, sys')"
    using consumed by (auto simp: consumeRecoveryCode_def split: option.splits)
  have found: "find_user (u_id u) (accounts_of sys) = Some u" using find_of [OF u] by (simp add: UserByID_def)
  have hit: "m < length ?hs" "h = ?hs ! m" "h \<noteq> []" "al_compare lib h ?norm"
    using m first_index_Some by (auto simp: match_code_def)
  obtain c where "commit_edit (u_id u) m h now (accounts_of sys) = Changed c True" and c: "accounts_of sys' = c"
    using mutate_Inr [OF commit [unfolded commit_code_def]] sync by (auto simp: commit_edit_def split: option.splits if_splits)
  with found have k: "m < length (u_codes u)" "rc_used (u_codes u ! m) = None" "rc_hash (u_codes u ! m) = h"
    and c': "c = put_user (u_id u) (mark_code m now) (accounts_of sys)"
    by (auto simp: commit_edit_def split: if_splits)
  have "UserByID (u_id u) sys' = Some (mark_code m now u)"
    using find_update_first [of "\<lambda>v. u_id v = u_id u" "mark_code m now" "a_users (accounts_of sys)"] found
    by (simp add: UserByID_def find_user_def c c' put_user_def mark_code_def)
  moreover have "(u_codes u ! m)\<lparr>rc_used := Some now\<rparr> \<in> set (u_codes (mark_code m now u))"
    using k(1) by (simp add: mark_code_def set_update_memI)
  ultimately have "\<exists>v. UserByID (u_id u) sys' = Some v \<and> v = u\<lparr>u_codes := u_codes v\<rparr> \<and>
      (\<exists>c'\<in>set (u_codes v). rc_hash c' = rc_hash (u_codes u ! m) \<and> rc_used c' = Some now)"
    by (intro exI [of _ "mark_code m now u"] conjI bexI [of _ "(u_codes u ! m)\<lparr>rc_used := Some now\<rparr>"]) (simp_all add: mark_code_def)
  moreover have "u_codes u ! m \<in> set (u_codes u)" using k(1) by simp
  ultimately have "code_taken lib u code now sys'"
    unfolding code_taken_def using k(2,3) hit(4) by blast
  with used show ?thesis by simp
qed

subsection \<open>Signing in\<close>

lemma on_acc_cases: "on_acc f s = (r, s') \<Longrightarrow> \<exists>x. f (wb_acc s) = (r, x) \<and> s' = s\<lparr>wb_acc := x\<rparr>"
  by (auto simp: on_acc_def split: prod.splits)

lemma on_spa_cases: "on_spa f s = (r, s') \<Longrightarrow> \<exists>x. f (wb_spa s) = (r, x) \<and> s' = s\<lparr>wb_spa := x\<rparr>"
  by (auto simp: on_spa_def split: prod.splits)

lemma lim_acc [simp]: "lim_allowed conf key now s = (b, s') \<Longrightarrow> wb_acc s' = wb_acc s"
  by (auto simp: lim_allowed_def split: prod.splits)

lemma handleLogin_Inr:
  assumes "handleLogin conf req random now out out' out'' s = (Inr r, s')"
  shows "\<exists>a. Authenticate (wc_lib conf) (wc_ldap conf) (lr_username req) (lr_password req) (lr_code req) now out out' (acc_sync (wb_acc s)) =
      (Inr (lo_user r, lo_recovery r), a) \<and> wb_acc s' = a \<and> sp_user (lo_session r) = u_id (lo_user r) \<and>
    lo_enrollment r = TOTPEnrollmentRequired (lo_user r) a \<and> lo_change r = u_must_change (lo_user r)"
proof -
  obtain en s1 where s1: "on_acc StoreEnabled s = (en, s1)" by (meson surj_pair)
  then have acc1: "wb_acc s1 = acc_sync (wb_acc s)" by (auto simp: on_acc_def StoreEnabled_def Let_def)
  obtain ok2 s2 where s2: "lim_allowed conf (lr_ip req) now s1 = (ok2, s2)" by (meson surj_pair)
  obtain ok3 s3 where s3: "lim_allowed conf (accountLimiterKey (lr_username req)) now s2 = (ok3, s3)" by (meson surj_pair)
  have acc3: "wb_acc s3 = acc_sync (wb_acc s)" using lim_acc [OF s2] lim_acc [OF s3] acc1 by simp
  obtain ar s4 where s4: "on_acc (Authenticate (wc_lib conf) (wc_ldap conf) (lr_username req) (lr_password req) (lr_code req) now out out') s3 = (ar, s4)"
    by (meson surj_pair)
  note def = assms [unfolded handleLogin_def Let_def s1 s2 s3 s4 case_prod_conv]
  from def obtain u used where ar: "ar = Inr (u, used)" by (auto simp: s2 s3 s4 Let_def split: if_splits sum.splits)
  obtain cr s5 where s5: "on_spa (spa_Create (wc_hash conf) random (u_id u) (lr_agent req) now out'')
      (lim_reset (accountLimiterKey (lr_username req)) (lim_reset (lr_ip req) s4)) = (cr, s5)" by (meson surj_pair)
  from def ar obtain plain tok where cr: "cr = Inr (plain, tok)" and r: "r = \<lparr>lo_token = plain, lo_session = tok, lo_user = u,
      lo_enrollment = TOTPEnrollmentRequired u (wb_acc s5), lo_change = u_must_change u, lo_recovery = used\<rparr>" and s': "s' = s5"
    by (auto simp: s2 s3 s4 s5 Let_def split: if_splits sum.splits)
  obtain a where a: "Authenticate (wc_lib conf) (wc_ldap conf) (lr_username req) (lr_password req) (lr_code req) now out out' (acc_sync (wb_acc s)) = (ar, a)"
    "wb_acc s4 = a" using on_acc_cases [OF s4] acc3 by auto
  from on_spa_cases [OF s5] have x: "spa_Create (wc_hash conf) random (u_id u) (lr_agent req) now out'' (wb_spa s4) = (cr, wb_spa s5)" "wb_acc s5 = a"
    using a(2) by (auto simp: lim_reset_def)
  from x(1) cr have "sp_user tok = u_id u" by (auto simp: spa_Create_def Let_def split: if_splits option.splits prod.splits)
  with a x(2) ar r s' show ?thesis by simp
qed

text \<open>C35: A sign-in that succeeds opens a session of an account that has the name asked for and is enabled, and that proved its
  first factor: its password, or for an LDAP account the directory's bind. It is an account on disk, or a new guest the
  directory vouched for. Where two-factor is enforced for the account and it has a secret, the code is the secret's now, or
  matches a recovery code that was unused, is marked used now, and is the only change to the account.
\<close>

theorem login_needs_factors:
  assumes "acc_reachable (wc_lib conf) w" and "aw_sys w = wb_acc s"
    and "handleLogin conf req random now out out' out'' s = (Inr r, s')"
  shows "\<exists>u. u_name u = lr_username req \<and> user_enabled u \<and> u_id u = sp_user (lo_session r) \<and> proved (wc_lib conf) (wc_ldap conf) u (lr_password req) \<and>
    (u \<in> set (a_users (accounts_of (acc_sync (wb_acc s)))) \<or> new_guest u) \<and>
    (totpActive (am_mode (as_mem (wb_acc s))) u \<and> u_totp u \<noteq> [] \<longrightarrow>
      (if lo_recovery r then code_taken (wc_lib conf) u (lr_code req) now (wb_acc s') else al_totp (wc_lib conf) (lr_code req) (u_totp u) now))"
proof -
  let ?sys = "acc_sync (wb_acc s)"
  obtain a where a: "Authenticate (wc_lib conf) (wc_ldap conf) (lr_username req) (lr_password req) (lr_code req) now out out' ?sys =
      (Inr (lo_user r, lo_recovery r), a)" "wb_acc s' = a" "sp_user (lo_session r) = u_id (lo_user r)"
    using handleLogin_Inr [OF assms(3)] by auto
  obtain u t where u: "first_factor (wc_lib conf) (wc_ldap conf) (lr_username req) (lr_password req) now out ?sys = (Inr u, t)"
    and second: "secondFactor (wc_lib conf) u (lr_code req) now out' t = (Inr (lo_recovery r), a)"
    and res: "lo_user r = (if lo_recovery r then (case UserByID (u_id u) a of None \<Rightarrow> u | Some fresh \<Rightarrow> fresh) else u)"
    using a(1) by (auto simp: Authenticate_def split: if_splits sum.splits prod.splits)
  have sync: "acc_sync ?sys = ?sys" by simp
  note first = first_factor_Inr [OF u sync]
  have id: "u_id (lo_user r) = u_id u"
    unfolding res by (auto split: option.split simp: UserByID_def find_user_def dest: find_Some_iff')
  show ?thesis
  proof (cases "u \<in> set (a_users (accounts_of ?sys)) \<and> t = ?sys")
    case True
    have "both (accounts_ok w) ?sys" using acc_reachable_ok [OF assms(1)] assms(2) both_sync by (simp add: acc_ok_def)
    then have d: "distinct (map u_id (a_users (accounts_of ?sys)))" by (simp add: both_def accounts_ok_def roster_ok_def)
    from secondFactor_Inr [OF second [unfolded conjunct2 [OF True]] sync conjunct1 [OF True] d] first id a(2,3) True
    show ?thesis by (intro exI [of _ u]) auto
  next
    case False
    with first have "new_guest u" by simp
    with first id a(3) show ?thesis by (intro exI [of _ u]) (auto simp: new_guest_def)
  qed
qed

lemma spent_once:
  assumes "acc_reachable lib w"
  shows "distinct (aw_spent w) \<and> ((i, h) \<in> set (aw_spent w) \<longrightarrow> fst (commit_code i m h now out (aw_sys w)) \<noteq> Inr True)"
proof (intro conjI impI notI)
  have ok: "both (accounts_ok w) (aw_sys w)" "ghosts_ok w" using acc_reachable_ok [OF assms] by (simp_all add: acc_ok_def)
  then show "distinct (aw_spent w)" by (simp add: ghosts_ok_def)
  assume spent: "(i, h) \<in> set (aw_spent w)" and "fst (commit_code i m h now out (aw_sys w)) = Inr True"
  then obtain t where t: "commit_code i m h now out (aw_sys w) = (Inr True, t)" by (metis prod.collapse)
  have old: "accounts_ok w (accounts_of (acc_sync (aw_sys w)))" using both_sync [OF ok(1)] by (simp add: both_def)
  obtain c where "commit_edit i m h now (accounts_of (acc_sync (aw_sys w))) = Changed c True"
    using mutate_Inr [OF t [unfolded commit_code_def]] by (auto simp: commit_edit_def split: option.splits if_splits)
  from commit_edit_ok(2) [OF old this] spent show False by simp
qed

lemma taken_once:
  assumes "acc_reachable lib w"
  shows "distinct (aw_taken w) \<and> (token \<in> set (aw_taken w) \<longrightarrow>
    FindInvite token now (aw_sys w) = None \<and> (\<forall>u. fst (RedeemInvite lib salt token name password now out (aw_sys w)) \<noteq> Inr u))"
proof (intro conjI impI allI notI)
  have ok: "both (accounts_ok w) (aw_sys w)" "ghosts_ok w" using acc_reachable_ok [OF assms] by (simp_all add: acc_ok_def)
  then show "distinct (aw_taken w)" by (simp add: ghosts_ok_def)
  assume taken: "token \<in> set (aw_taken w)"
  have used: "iv_consumed i \<noteq> None" if "i \<in> set (a_invites c)" "iv_token i = token" "accounts_ok w c" for i c
    using that taken by (auto simp: accounts_ok_def invite_ok_def)
  show "FindInvite token now (aw_sys w) = None"
    using used [OF _ _ conjunct1 [OF ok(1) [unfolded both_def]]] by (auto simp: FindInvite_def find_None_iff invite_pending_def)
  fix u
  assume "fst (RedeemInvite lib salt token name password now out (aw_sys w)) = Inr u"
  then obtain t where t: "RedeemInvite lib salt token name password now out (aw_sys w) = (Inr u, t)" by (metis prod.collapse)
  then obtain v where "acc_mutate True (redeem_edit token v now) out (aw_sys w) = (Inr u, t)"
    by (auto simp: RedeemInvite_def split: sum.splits)
  from mutate_Inr [OF this] obtain i where "find (\<lambda>i. iv_token i = token) (a_invites (accounts_of (acc_sync (aw_sys w)))) = Some i" "invite_pending now i"
    by (auto simp: redeem_edit_def split: option.splits if_splits)
  with used [of i "accounts_of (acc_sync (aw_sys w))"] both_sync [OF ok(1)] show False
    by (auto simp: both_def invite_pending_def dest: find_Some_iff')
qed

text \<open>C36: Over any operations, by the server and at the console beside it, with failed saves, restarts and other operations between
  the check of a recovery code and its use: a recovery code is consumed at most once, and consuming it again fails; an invite is taken
  at most once, by a sign-up or a claim whose save succeeded, and one that was taken is not offered again.
\<close>

theorem used_once:
  assumes "acc_reachable lib w"
  shows "distinct (aw_spent w) \<and> distinct (aw_taken w) \<and>
    ((i, h) \<in> set (aw_spent w) \<longrightarrow> fst (commit_code i m h now out (aw_sys w)) \<noteq> Inr True) \<and>
    (token \<in> set (aw_taken w) \<longrightarrow> FindInvite token now (aw_sys w) = None \<and>
      (\<forall>u. fst (RedeemInvite lib salt token name password now out (aw_sys w)) \<noteq> Inr u))"
  using spent_once [OF assms] taken_once [OF assms] by blast

text \<open>
  The account \<open>i\<close> is disabled in \<open>c\<close>, or gone from it.
\<close>

definition locked_out :: "string \<Rightarrow> accounts \<Rightarrow> bool" where
  "locked_out i c \<longleftrightarrow> list_all (\<lambda>u. u_id u = i \<longrightarrow> \<not> user_enabled u) (a_users c)"

lemma locked_outD: "locked_out i c \<Longrightarrow> u \<in> set (a_users c) \<Longrightarrow> user_enabled u \<Longrightarrow> u_id u \<noteq> i"
  by (auto simp: locked_out_def list_all_iff)

lemma sealed_locked_out:
  assumes "acc_reachable lib w" and "i \<in> aw_sealed w"
  shows "locked_out i (accounts_of (aw_sys w)) \<and> locked_out i (accounts_of (acc_sync (aw_sys w)))"
proof -
  have out: "locked_out i c" if "accounts_ok w c" for c
    using that assms(2) by (auto simp: accounts_ok_def user_ok_def locked_out_def list_all_iff)
  have ok: "both (accounts_ok w) (aw_sys w)" using acc_reachable_ok [OF assms(1)] by (simp add: acc_ok_def)
  with both_sync [OF ok] show ?thesis using out by (simp add: both_def)
qed

lemma served_enabled:
  assumes "fst (requireAuth conf header path now out s) = Inr (ru, token)" and "token \<noteq> []" and "locked_out i (accounts_of (wb_acc s))"
  shows "ru_id ru \<noteq> i"
proof -
  from assms(1,2) obtain tok t u where v: "on_spa (spa_Validate (wc_hash conf) (extractBearer header) now) s = (Inr tok, t)"
    and u: "UserByID (sp_user tok) (wb_acc t) = Some u" "user_enabled u" "ru_id ru = u_id u"
    by (auto simp: requireAuth_def Let_def split: if_splits prod.splits sum.splits option.splits)
  have "wb_acc t = wb_acc s" using on_spa_cases [OF v] by auto
  with u(1) have "u \<in> set (a_users (accounts_of (wb_acc s)))" by (auto simp: UserByID_def find_user_def dest: find_Some_iff')
  with locked_outD [OF assms(3)] u(2,3) show ?thesis by simp
qed

lemma login_enabled:
  assumes "fst (handleLogin conf req random now out out' out'' s) = Inr r" and "locked_out i (accounts_of (acc_sync (wb_acc s)))"
    and "deriveUserID (wc_lib conf) (lr_username req) now \<noteq> i"
  shows "sp_user (lo_session r) \<noteq> i"
proof -
  from assms(1) obtain s' where l: "handleLogin conf req random now out out' out'' s = (Inr r, s')" by (metis prod.collapse)
  let ?sys = "acc_sync (wb_acc s)"
  obtain a where a: "Authenticate (wc_lib conf) (wc_ldap conf) (lr_username req) (lr_password req) (lr_code req) now out out' ?sys =
      (Inr (lo_user r, lo_recovery r), a)" "sp_user (lo_session r) = u_id (lo_user r)"
    using handleLogin_Inr [OF l] by auto
  obtain u t where u: "first_factor (wc_lib conf) (wc_ldap conf) (lr_username req) (lr_password req) now out ?sys = (Inr u, t)"
    and res: "lo_user r = (if lo_recovery r then (case UserByID (u_id u) a of None \<Rightarrow> u | Some fresh \<Rightarrow> fresh) else u)"
    using a(1) by (auto simp: Authenticate_def split: if_splits sum.splits prod.splits)
  have id: "u_id (lo_user r) = u_id u"
    unfolding res by (auto split: option.split simp: UserByID_def find_user_def dest: find_Some_iff')
  have "u_id u \<noteq> i" using first_factor_Inr [OF u acc_sync_idem] locked_outD [OF assms(2), of u] assms(3) by metis
  then show ?thesis unfolding a(2) id .
qed

text \<open>C37: Two gates, each run alone. A route behind them serves a session only to an account that is enabled in the server's memory,
  and a sign-in opens one only to an account that is enabled in the accounts its reload of the file finds, so to none disabled at
  the console meanwhile. An account the server disabled with a save that succeeded is disabled in both at every later time, after
  any operations, failed saves, restarts and console commands: it is never served and never signed in again. The name a sign-in
  brings in new from LDAP is taken to get another id. What a console command disabled is not in the server's memory before
  its next reload, and a sign-in interleaved with a disabling is not covered.
\<close>

theorem disabled_is_out:
  assumes "acc_reachable (wc_lib conf) w" and "aw_sys w = wb_acc s" and "deriveUserID (wc_lib conf) (lr_username req) now \<noteq> i"
  shows "(i \<in> aw_sealed w \<or> locked_out i (accounts_of (wb_acc s)) \<longrightarrow>
      fst (requireAuth conf header path t out0 s) = Inr (ru, token) \<longrightarrow> token \<noteq> [] \<longrightarrow> ru_id ru \<noteq> i) \<and>
    (i \<in> aw_sealed w \<or> locked_out i (accounts_of (acc_sync (wb_acc s))) \<longrightarrow>
      fst (handleLogin conf req random now out out' out'' s) = Inr r \<longrightarrow> sp_user (lo_session r) \<noteq> i)"
proof -
  have sealed: "locked_out i (accounts_of (wb_acc s)) \<and> locked_out i (accounts_of (acc_sync (wb_acc s)))" if "i \<in> aw_sealed w"
    using sealed_locked_out [OF assms(1) that] by (simp only: assms(2))
  show ?thesis
  proof (intro conjI impI)
    assume "i \<in> aw_sealed w \<or> locked_out i (accounts_of (wb_acc s))"
      and "fst (requireAuth conf header path t out0 s) = Inr (ru, token)" and "token \<noteq> []"
    then show "ru_id ru \<noteq> i" using sealed served_enabled by metis
  next
    assume "i \<in> aw_sealed w \<or> locked_out i (accounts_of (acc_sync (wb_acc s)))"
      and r: "fst (handleLogin conf req random now out out' out'' s) = Inr r"
    then have "locked_out i (accounts_of (acc_sync (wb_acc s)))" using sealed by blast
    from login_enabled [OF r this assms(3)] show "sp_user (lo_session r) \<noteq> i" .
  qed
qed

text \<open>C38: Over any operations the accounts in memory and on disk have distinct names and distinct ids, and at most one owner, who is
  enabled and not restricted.
\<close>

theorem one_owner:
  assumes "acc_reachable lib w" and "us \<in> {a_users (accounts_of (aw_sys w)), a_users (file_accounts (aw_sys w))}"
  shows "distinct (map u_name us) \<and> distinct (map u_id us) \<and> length (filter (\<lambda>u. u_role u = RoleOwner) us) \<le> 1 \<and>
    (\<forall>u\<in>set us. u_role u = RoleOwner \<longrightarrow> user_enabled u \<and> \<not> u_restricted u)"
proof -
  have "both (accounts_ok w) (aw_sys w)" using acc_reachable_ok [OF assms(1)] by (simp add: acc_ok_def)
  moreover have "is_owner = (\<lambda>u. u_role u = RoleOwner)" by (auto simp: is_owner_def)
  ultimately show ?thesis using assms(2) by (auto simp: both_def accounts_ok_def roster_ok_def user_ok_def)
qed

subsection \<open>The gates agree\<close>

lemma validate_check:
  "fst (spa_Validate hash_of p now sys) = Inr t \<Longrightarrow> \<exists>t'. fst (spa_Check hash_of p now sys) = Inr t' \<and> sp_user t' = sp_user t"
  "fst (spa_Check hash_of p now sys) = Inr t' \<Longrightarrow> \<exists>t. fst (spa_Validate hash_of p now sys) = Inr t \<and> sp_user t' = sp_user t"
  by (auto simp: spa_Validate_def spa_Check_def Let_def split: option.splits if_splits)

text \<open>Who a session token stands for, when nothing is owed.\<close>

definition session_principal :: "web_conf \<Rightarrow> string \<Rightarrow> time \<Rightarrow> web_sys \<Rightarrow> principal \<Rightarrow> bool" where
  "session_principal conf token now s p \<longleftrightarrow>
     (\<exists>t u. fst (spa_Validate (wc_hash conf) token now (wb_spa s)) = Inr t \<and> UserByID (sp_user t) (wb_acc s) = Some u \<and>
       user_enabled u \<and> \<not> u_must_change u \<and> \<not> TOTPEnrollmentRequired u (wb_acc s) \<and> p = user_principal u)"

lemma spaPrincipal_iff: "fst (spaPrincipal conf token now s) = Some p \<longleftrightarrow> session_principal conf token now s p"
  by (auto simp: spaPrincipal_def session_principal_def on_spa_def split: prod.splits sum.splits option.splits)

lemma streamPrincipal_iff: "fst (streamPrincipal conf token now s) = Some p \<longleftrightarrow> session_principal conf token now s p"
proof
  assume "fst (streamPrincipal conf token now s) = Some p"
  then obtain t u where "fst (spa_Check (wc_hash conf) token now (wb_spa s)) = Inr t" "UserByID (sp_user t) (wb_acc s) = Some u"
    "user_enabled u" "\<not> u_must_change u" "\<not> TOTPEnrollmentRequired u (wb_acc s)" "p = user_principal u"
    by (auto simp: streamPrincipal_def on_spa_def split: prod.splits sum.splits option.splits if_splits)
  with validate_check(2) show "session_principal conf token now s p" unfolding session_principal_def by metis
next
  assume "session_principal conf token now s p"
  then obtain t u where "fst (spa_Validate (wc_hash conf) token now (wb_spa s)) = Inr t" and u: "UserByID (sp_user t) (wb_acc s) = Some u"
    "user_enabled u" "\<not> u_must_change u" "\<not> TOTPEnrollmentRequired u (wb_acc s)" "p = user_principal u"
    by (auto simp: session_principal_def)
  with validate_check(1) obtain t' x where "spa_Check (wc_hash conf) token now (wb_spa s) = (Inr t', x)" "sp_user t' = sp_user t"
    by (metis prod.collapse)
  with u show "fst (streamPrincipal conf token now s) = Some p" by (simp add: streamPrincipal_def on_spa_def)
qed

lemma events_gate_iff:
  "token \<noteq> [] \<Longrightarrow> (\<exists>u. fst (events_gate conf token now out s) = Inr u \<and> user_principal u = p) \<longleftrightarrow> session_principal conf token now s p"
  by (auto simp: events_gate_def session_principal_def on_spa_def split: prod.splits sum.splits option.splits)

lemma requireAuth_iff:
  assumes "token \<noteq> []" and "extractBearer header = token" and "\<not> enrollmentExemptPath path" and "\<not> passwordChangeExemptPath path"
  shows "(\<exists>ru. fst (requireAuth conf header path now out s) = Inr (ru, token) \<and> request_principal ru = p) \<longleftrightarrow>
    session_principal conf token now s p"
  using assms
  by (auto simp: requireAuth_def Let_def session_principal_def on_spa_def request_principal_def user_principal_def
    split: prod.splits sum.splits option.splits)

text \<open>
  On a path that is not exempt the gate of the routes serves a principal exactly when the attachments, the event stream's
  connection and the check repeated while the stream is open do, and as the same principal.
\<close>

lemma gates_agree:
  assumes "token \<noteq> []" and "extractBearer header = token" and "\<not> enrollmentExemptPath path" and "\<not> passwordChangeExemptPath path"
  shows "((\<exists>ru. fst (requireAuth conf header path now out s) = Inr (ru, token) \<and> request_principal ru = p) \<longleftrightarrow>
      fst (spaPrincipal conf token now s) = Some p) \<and>
    ((\<exists>u. fst (events_gate conf token now out s) = Inr u \<and> user_principal u = p) \<longleftrightarrow> fst (spaPrincipal conf token now s) = Some p) \<and>
    (fst (streamPrincipal conf token now s) = Some p \<longleftrightarrow> fst (spaPrincipal conf token now s) = Some p)"
  unfolding requireAuth_iff [OF assms] events_gate_iff [OF assms(1)] spaPrincipal_iff streamPrincipal_iff by simp

subsection \<open>A password reset by the owner\<close>

lemma step_or_Inr: "step_or err r k = (Inr b, s') \<Longrightarrow> \<exists>a s. r = (Inr a, s) \<and> k a s = (Inr b, s')"
  by (auto simp: step_or_def split: prod.splits sum.splits)

lemma confirm_stores: "wb_acc (snd (confirmPassword conf ru p now s)) = wb_acc s"
proof (cases "p = []")
  case False
  obtain ok s1 where s1: "lim_allowed conf (accountLimiterKey (ru_name ru)) now s = (ok, s1)" by (meson surj_pair)
  then have "wb_acc s1 = wb_acc s" by simp
  with False s1 show ?thesis by (simp add: confirmPassword_def Let_def lim_fail_def lim_reset_def)
qed (simp add: confirmPassword_def)

lemma SetPassword_Inr:
  assumes "SetPassword lib salt i p must out sys = (Inr a, sys')"
  shows "\<exists>u. UserByID i sys' = Some u \<and> u_must_change u = must"
proof -
  obtain h role t where m: "acc_mutate False (\<lambda>c. with_user i (\<lambda>u.
      if u_source u = SourceLDAP then Refused NotLocalAccount
      else Changed (put_user i (\<lambda>u. u\<lparr>u_hash := h, u_must_change := must\<rparr>) c) (u_role u)) c) out sys = (Inr role, t)"
    and t: "accounts_of sys' = accounts_of t"
    using assms by (auto simp: SetPassword_def split: sum.splits prod.splits if_splits)
  let ?c = "accounts_of (acc_sync sys)" and ?g = "\<lambda>u. u\<lparr>u_hash := h, u_must_change := must\<rparr>"
  obtain u where "find_user i ?c = Some u" "accounts_of t = put_user i ?g ?c"
    using mutate_Inr [OF m] by (auto simp: with_user_def split: option.splits if_splits)
  then show ?thesis
    using find_update_first [of "\<lambda>u. u_id u = i" ?g "a_users ?c"] by (simp add: UserByID_def t find_user_def put_user_def)
qed

lemma RevokeByUser_none: "\<forall>t\<in>set (sessions (snd (RevokeByUser i out sys))). sp_user t \<noteq> i"
proof -
  obtain n r t where r: "spa_remove (\<lambda>t. sp_user t = i) out sys = ((n, r), t)" by (metis prod.collapse)
  then have "sessions t = filter (\<lambda>t. sp_user t \<noteq> i) (sessions (spa_sync sys))"
    by (auto simp: spa_remove_def spa_saved_def Let_def sessions_def set_sessions_def spa_save_def split: if_splits prod.splits save_outcome.splits)
  with r show ?thesis by (simp add: RevokeByUser_def)
qed

lemma RevokeOAuthByOwner_none:
  assumes "i \<noteq> []"
  shows "\<forall>t\<in>set (tokens_of (snd (RevokeOAuthByOwner i out sys))). tk_owner t = i \<longrightarrow> tk_kind t \<noteq> KindOAuth"
  using assms
  by (auto simp: RevokeOAuthByOwner_def revoke_where_def Let_def tokens_of_def set_tokens_def tok_save_def filter_empty_conv
    split: prod.splits save_outcome.splits if_splits)

text \<open>C40: After the owner has reset another account's password, no session of the account is left and no OAuth grant, and
  the account must choose its own password: until it does, a session it opens is served on the exempt paths only.
\<close>

theorem reset_ends_sessions:
  assumes "resetUserPassword conf actor i new owner_password salt now out out' out'' s = (Inr r, s')" and "i \<noteq> []"
  shows "(\<forall>t\<in>set (sessions (wb_spa s')). sp_user t \<noteq> i) \<and>
    (\<forall>t\<in>set (tokens_of (wb_tok s')). tk_owner t = i \<longrightarrow> tk_kind t \<noteq> KindOAuth) \<and>
    (wb_acc s'' = wb_acc s' \<longrightarrow> fst (requireAuth conf header path now' out3 s'') = Inr (ru, token) \<longrightarrow> token \<noteq> [] \<longrightarrow> ru_id ru = i \<longrightarrow>
      passwordChangeExemptPath path)"
proof -
  let ?k2 = "\<lambda>(_ :: unit) s. case on_spa (RevokeByUser i out') s of (closed, s) \<Rightarrow>
      case on_tok (RevokeOAuthByOwner i out'') s of (grants, s) \<Rightarrow> (Inr (closed, grants), s)"
  let ?k1 = "\<lambda>(_ :: unit) s. step_or writePasswordError (on_acc (SetPassword (wc_lib conf) salt i new True out) s) ?k2"
  have "step_or (\<lambda>e. e) (confirmPassword conf actor owner_password now s) ?k1 = (Inr r, s')"
    using assms(1) by (auto simp: resetUserPassword_def split: if_splits option.splits)
  from step_or_Inr [OF this] obtain s1 where
    rest: "step_or writePasswordError (on_acc (SetPassword (wc_lib conf) salt i new True out) s1) ?k2 = (Inr r, s')"
    by blast
  obtain a s2 where s2: "on_acc (SetPassword (wc_lib conf) salt i new True out) s1 = (Inr a, s2)"
    and k: "?k2 a s2 = (Inr r :: api_error + nat \<times> nat, s')"
    using step_or_Inr [OF rest] by blast
  have stores: "wb_acc s' = wb_acc s2" "wb_spa s' = snd (RevokeByUser i out' (wb_spa s2))" "wb_tok s' = snd (RevokeOAuthByOwner i out'' (wb_tok s2))"
    using k by (auto simp: on_spa_def on_tok_def split: prod.splits)
  obtain x where "SetPassword (wc_lib conf) salt i new True out (wb_acc s1) = (Inr a, x)" "wb_acc s2 = x"
    using on_acc_cases [OF s2] by auto
  then obtain u where u: "UserByID i (wb_acc s') = Some u" "u_must_change u"
    using SetPassword_Inr stores(1) by metis
  have "passwordChangeExemptPath path"
    if served: "wb_acc s'' = wb_acc s'" "fst (requireAuth conf header path now' out3 s'') = Inr (ru, token)" "token \<noteq> []" "ru_id ru = i"
  proof -
    obtain tok t v where t: "on_spa (spa_Validate (wc_hash conf) (extractBearer header) now') s'' = (Inr tok, t)"
      and v: "UserByID (sp_user tok) (wb_acc t) = Some v" "u_must_change v \<longrightarrow> passwordChangeExemptPath path" "ru_id ru = u_id v"
      using served(2,3) by (auto simp: requireAuth_def Let_def split: if_splits prod.splits sum.splits option.splits)
    have "wb_acc t = wb_acc s'" using on_spa_cases [OF t] served(1) by auto
    moreover have "u_id v = sp_user tok" using v(1) by (auto simp: UserByID_def find_user_def dest: find_Some_iff')
    ultimately have "UserByID i (wb_acc s') = Some v" using v(1,3) served(4) by simp
    with u v(2) show ?thesis by simp
  qed
  with RevokeByUser_none RevokeOAuthByOwner_none [OF assms(2)] show ?thesis unfolding stores by blast
qed

end
