(* ===== verification/WebSample.thy ===== *)
theory WebSample
  imports WebClaims
begin

text \<open>
  A concrete run for the theorems on accounts and sessions: an owner and a member are created, the member enrols two-factor
  and one of its recovery codes is consumed, an invite is redeemed, and the new account is disabled. The library is a stand-in: a
  hash is the salt and the text, a TOTP code is the secret itself.
\<close>

definition libx :: acc_lib where
  "libx = \<lparr>al_sha = (\<lambda>s. s), al_hash = (\<lambda>salt p. Some (salt @ ''$'' @ p)), al_compare = (\<lambda>h p. has_suffix h (''$'' @ p)),
     al_totp = (\<lambda>code secret now. code = secret), al_day = (\<lambda>t. ''2026-01-01'')\<rparr>"

abbreviation at_x :: "time \<Rightarrow> save_outcome" where "at_x n \<equiv> Saved n True"

text \<open>The start of 1970, where the nanoseconds in an id are zero.\<close>

abbreviation nx :: time where "nx \<equiv> 62135596800000000000"

abbreviation id_x :: "string \<Rightarrow> string" where "id_x name \<equiv> deriveUserID libx name nx"

definition saltsx :: "string list" where "saltsx = [''a'', ''b'', ''c'', ''d'', ''e'', ''f'', ''g'', ''h'']"

definition sx0 :: acc_sys where
  "sx0 = \<lparr>as_mem = \<lparr>am_accounts = no_accounts, am_mtime = 0, am_mode = ''''\<rparr>, as_file = Absent, as_initial = None\<rparr>"
definition sx1 :: acc_sys where "sx1 = snd (Setup libx ''s'' None ''root'' ''password1'' False nx (at_x 1) sx0)"
definition sx2 :: acc_sys where "sx2 = snd (AddUser libx ''s'' ''ann'' ''password2'' RoleMember nx (at_x 2) sx1)"
definition sx3 :: acc_sys where "sx3 = SetTOTPMode TOTPOptional sx2"
definition sx4 :: acc_sys where "sx4 = snd (EnrollTOTP libx (replicate 80 0) saltsx (id_x ''ann'') ''654321'' (at_x 3) sx3)"
definition sx5 :: acc_sys where "sx5 = snd (commit_code (id_x ''ann'') 0 ''a$2222222222'' nx (at_x 4) sx4)"
definition sx6 :: acc_sys where "sx6 = snd (CreateInvite (Some ''x'') (id_x ''root'') hour nx (at_x 5) sx5)"
definition sx7 :: acc_sys where "sx7 = snd (RedeemInvite libx ''s'' ''inv_x'' ''bob'' ''password3'' nx (at_x 6) sx6)"
definition sx8 :: acc_sys where "sx8 = snd (DisableUser (id_x ''bob'') nx (at_x 7) sx7)"

definition wx0 :: acc_world where
  "wx0 = \<lparr>aw_sys = sx0, aw_clock = nx, aw_matches = [], aw_ids = {}, aw_hashes = {}, aw_tokens = {}, aw_spent = [], aw_taken = [],
     aw_sealed = {}\<rparr>"
definition wx1 :: acc_world where "wx1 = wx0\<lparr>aw_sys := sx1, aw_ids := {id_x ''root''}\<rparr>"
definition wx2 :: acc_world where "wx2 = wx1\<lparr>aw_sys := sx2, aw_ids := {id_x ''ann'', id_x ''root''}\<rparr>"
definition wx3 :: acc_world where "wx3 = wx2\<lparr>aw_sys := sx3\<rparr>"
definition hashx :: "string set" where "hashx = code_hashes (map (\<lambda>s. \<lparr>rc_hash = s @ ''$2222222222'', rc_used = None\<rparr>) saltsx)"
definition wx4 :: acc_world where "wx4 = wx3\<lparr>aw_sys := sx4, aw_hashes := {} \<union> hashx\<rparr>"
definition wx4m :: acc_world where "wx4m = wx4\<lparr>aw_matches := [(id_x ''ann'', 0, ''a$2222222222'')]\<rparr>"
definition wx5 :: acc_world where "wx5 = wx4m\<lparr>aw_sys := sx5, aw_spent := [(id_x ''ann'', ''a$2222222222'')]\<rparr>"
definition wx6 :: acc_world where "wx6 = wx5\<lparr>aw_sys := sx6, aw_tokens := {''inv_x''}\<rparr>"
definition wx7 :: acc_world where "wx7 = wx6\<lparr>aw_sys := sx7, aw_ids := {id_x ''bob'', id_x ''ann'', id_x ''root''}, aw_taken := [''inv_x'']\<rparr>"
definition wx8 :: acc_world where "wx8 = wx7\<lparr>aw_sys := sx8, aw_sealed := {id_x ''bob''}\<rparr>"

lemma idsx: "id_x ''ann'' \<noteq> id_x ''root''" "id_x ''bob'' \<noteq> id_x ''ann''" "id_x ''bob'' \<noteq> id_x ''root''"
  by code_simp+

lemma codesx: "newRecoveryCodes libx (replicate 80 0) saltsx =
    Inr (replicate 8 ''22222-22222'', map (\<lambda>s. \<lparr>rc_hash = s @ ''$2222222222'', rc_used = None\<rparr>) saltsx)"
  by code_simp

lemma matchx: "match_code libx ''2222222222'' (snapshot_codes (id_x ''ann'') sx4) = Some (0, ''a$2222222222'')"
  by code_simp

lemma commitx: "fst (commit_code (id_x ''ann'') 0 ''a$2222222222'' nx (at_x 4) sx4) = Inr True"
  by code_simp

lemma redeemx: "isl (fst (RedeemInvite libx ''s'' ''inv_x'' ''bob'' ''password3'' nx (at_x 6) sx6)) = False"
  by code_simp

lemma disablex: "fst (DisableUser (id_x ''bob'') nx (at_x 7) sx7) = Inr True"
  by code_simp

lemma openx: "OpenAccounts Absent = Some (as_mem sx0)"
  by (simp add: OpenAccounts_def sx0_def)

lemma reach0: "acc_reachable libx wx0"
  using AccStart [OF openx, of libx nx] by (simp add: wx0_def sx0_def)

lemmas worlds = wx0_def wx1_def wx2_def wx3_def wx4_def wx4m_def wx5_def wx6_def wx7_def wx8_def

lemma reach1: "acc_reachable libx wx1"
proof (rule AccStep [OF reach0])
  have "acc_step libx wx0 (wx0\<lparr>aw_sys := leave Server (aw_sys wx0) sx1, aw_ids := insert (id_x ''root'') (aw_ids wx0)\<rparr>)"
    by (rule AccSetup [of Server _ sx0 Setup libx "''s''" None "''root''" "''password1''" False "at_x 1" "fst (Setup libx ''s'' None ''root'' ''password1'' False nx (at_x 1) sx0)"])
      (simp_all add: worlds sx1_def)
  then show "acc_step libx wx0 wx1" by (simp add: worlds)
qed

lemma reach2: "acc_reachable libx wx2"
proof (rule AccStep [OF reach1])
  have "acc_step libx wx1 (wx1\<lparr>aw_sys := leave Server (aw_sys wx1) sx2, aw_ids := insert (id_x ''ann'') (aw_ids wx1)\<rparr>)"
    by (rule AccAdded [of Server _ sx1 RoleMember AddUser libx "''s''" "''ann''" "''password2''" "at_x 2"
          "fst (AddUser libx ''s'' ''ann'' ''password2'' RoleMember nx (at_x 2) sx1)"])
      (use idsx in \<open>simp_all add: worlds sx2_def role_consts\<close>)
  then show "acc_step libx wx1 wx2" by (simp add: worlds)
qed

lemma reach3: "acc_reachable libx wx3"
proof (rule AccStep [OF reach2])
  have "acc_step libx wx2 (wx2\<lparr>aw_sys := leave Server (aw_sys wx2) sx3\<rparr>)"
    by (rule AccPlain [of Server _ sx2]) (simp_all add: worlds sx3_def ModeSet)
  then show "acc_step libx wx2 wx3" by (simp add: worlds)
qed

lemma freshx: "fresh_codes libx (replicate 80 0) saltsx wx3 hashx"
proof -
  have "distinct (map rc_hash (map (\<lambda>s. \<lparr>rc_hash = s @ ''$2222222222'', rc_used = None\<rparr>) saltsx))" by (simp add: saltsx_def)
  then show ?thesis unfolding fresh_codes_def codesx by (simp add: hashx_def worlds del: map_map)
qed

lemma reach4: "acc_reachable libx wx4"
proof (rule AccStep [OF reach3])
  have "acc_step libx wx3 (wx3\<lparr>aw_sys := sx4, aw_hashes := aw_hashes wx3 \<union> hashx\<rparr>)"
    by (rule AccEnrolled [OF _ freshx, of "id_x ''ann''" "''654321''" "at_x 3"
          "fst (EnrollTOTP libx (replicate 80 0) saltsx (id_x ''ann'') ''654321'' (at_x 3) sx3)"]) (simp add: sx4_def worlds)
  then show "acc_step libx wx3 wx4" by (simp add: worlds)
qed

lemma reach5: "acc_reachable libx wx5"
proof (rule AccStep [OF AccStep [OF reach4]])
  have "acc_step libx wx4 (wx4\<lparr>aw_matches := aw_matches wx4 @ [(id_x ''ann'', 0, ''a$2222222222'')]\<rparr>)"
    by (rule AccMatched [of libx "''2222222222''"]) (simp add: matchx wx4_def)
  then show "acc_step libx wx4 wx4m" by (simp add: worlds)
  have "acc_step libx wx4m (wx4m\<lparr>aw_sys := sx5, aw_spent := aw_spent wx4m @ (if fst (commit_code (id_x ''ann'') 0 ''a$2222222222'' nx (at_x 4) sx4) = Inr True
      then [(id_x ''ann'', ''a$2222222222'')] else [])\<rparr>)"
    by (rule AccConsumed [of _ 0 _ _ "at_x 4"]) (simp_all add: worlds sx5_def)
  then show "acc_step libx wx4m wx5" by (simp add: worlds commitx)
qed

lemma reach6: "acc_reachable libx wx6"
proof (rule AccStep [OF reach5])
  have "acc_step libx wx5 (wx5\<lparr>aw_sys := sx6, aw_tokens := insert ''inv_x'' (aw_tokens wx5)\<rparr>)"
    by (rule AccInvited [of "''x''" "id_x ''root''" hour _ "at_x 5" "fst (CreateInvite (Some ''x'') (id_x ''root'') hour nx (at_x 5) sx5)"])
      (simp_all add: worlds sx6_def)
  then show "acc_step libx wx5 wx6" by (simp add: worlds)
qed

lemma reach7: "acc_reachable libx wx7"
proof (rule AccStep [OF reach6])
  let ?r = "fst (RedeemInvite libx ''s'' ''inv_x'' ''bob'' ''password3'' nx (at_x 6) sx6)"
  have "acc_step libx wx6 (wx6\<lparr>aw_sys := sx7, aw_ids := insert (id_x ''bob'') (aw_ids wx6),
      aw_taken := aw_taken wx6 @ (case ?r of Inl _ \<Rightarrow> [] | Inr _ \<Rightarrow> [''inv_x''])\<rparr>)"
    by (rule AccRedeemed [of libx "''s''" "''inv_x''" "''bob''" "''password3''" _ "at_x 6"]) (use idsx in \<open>simp_all add: worlds sx7_def\<close>)
  moreover have "(case ?r of Inl _ \<Rightarrow> [] | Inr _ \<Rightarrow> [''inv_x'']) = [''inv_x'']" using redeemx by (cases ?r) simp_all
  ultimately show "acc_step libx wx6 wx7" by (simp add: worlds)
qed

lemma reach8: "acc_reachable libx wx8"
proof (rule AccStep [OF reach7])
  have "acc_step libx wx7 (wx7\<lparr>aw_sys := sx8, aw_sealed := insert (id_x ''bob'') (aw_sealed wx7)\<rparr>)"
  proof (rule AccSealed)
    have "DisableUser (id_x ''bob'') nx (at_x 7) sx7 = (Inr True, sx8)" using disablex by (simp add: sx8_def prod_eq_iff)
    then show "DisableUser (id_x ''bob'') (aw_clock wx7) (at_x 7) (aw_sys wx7) = (Inr True, sx8)" by (simp add: worlds)
  qed
  then show "acc_step libx wx7 wx8" by (simp add: worlds)
qed

subsection \<open>The server\<close>

definition confx :: web_conf where
  "confx = \<lparr>wc_lib = libx, wc_hash = (\<lambda>s. s), wc_ldap = None, wc_limits = default_limits, wc_open = False\<rparr>"

definition spax :: spa_sys where
  "spax = snd (spa_Create (\<lambda>s. s) (Some ''b'') (id_x ''bob'') ''ua'' nx (at_x 1)
     (snd (spa_Create (\<lambda>s. s) (Some ''a'') (id_x ''ann'') ''ua'' nx (at_x 1)
       (\<lparr>ss_tokens = [], ss_mtime = 0, ss_sliding = defaultSpaSlidingTTL, ss_hard = defaultSpaHardTTL\<rparr>, Absent))))"

definition bx :: web_sys where
  "bx = \<lparr>wb_acc = sx8, wb_spa = spax, wb_tok = (\<lparr>ts_tokens = [], ts_mtime = 0\<rparr>, Absent), wb_proj = proj_open Absent,
     wb_lim = newLoginLimiter nx\<rparr>"

definition annx :: login_request where
  "annx = \<lparr>lr_ip = ''10.0.0.1'', lr_username = ''ann'', lr_password = ''password2'', lr_code = ''22222-22222'', lr_agent = ''ua''\<rparr>"

definition bobx :: login_request where
  "bobx = \<lparr>lr_ip = ''10.0.0.1'', lr_username = ''bob'', lr_password = ''password3'', lr_code = [], lr_agent = ''ua''\<rparr>"

lemma accx: "aw_sys wx8 = wb_acc bx"
  by (simp add: worlds bx_def)

lemma loginx: "(case fst (handleLogin confx annx (Some ''c'') nx (at_x 8) (at_x 8) (at_x 8) bx) of Inr r \<Rightarrow> lo_recovery r | Inl _ \<Rightarrow> False)"
  by code_simp

lemma login_needs_factors_witness:
  "\<exists>r s'. handleLogin confx annx (Some ''c'') nx (at_x 8) (at_x 8) (at_x 8) bx = (Inr r, s') \<and>
    (\<exists>u. u_name u = ''ann'' \<and> user_enabled u \<and> u_id u = sp_user (lo_session r) \<and> proved libx None u ''password2'')"
proof -
  let ?l = "handleLogin confx annx (Some ''c'') nx (at_x 8) (at_x 8) (at_x 8) bx"
  obtain r where "fst ?l = Inr r" using loginx by (cases "fst ?l") simp_all
  then have l: "?l = (Inr r, snd ?l)" by (simp add: prod_eq_iff)
  have conf: "wc_lib confx = libx" "wc_ldap confx = None" by (simp_all add: confx_def)
  from login_needs_factors [OF _ accx l] reach8 show ?thesis
    unfolding conf by (intro exI [of _ r] exI [of _ "snd ?l"] conjI l) (auto simp: annx_def)
qed

lemma used_once_witness:
  "(id_x ''ann'', ''a$2222222222'') \<in> set (aw_spent wx8) \<and> ''inv_x'' \<in> set (aw_taken wx8) \<and> distinct (aw_spent wx8) \<and>
    fst (commit_code (id_x ''ann'') 0 ''a$2222222222'' nx (at_x 9) (aw_sys wx8)) \<noteq> Inr True \<and> FindInvite ''inv_x'' nx (aw_sys wx8) = None"
proof -
  have m: "(id_x ''ann'', ''a$2222222222'') \<in> set (aw_spent wx8)" "''inv_x'' \<in> set (aw_taken wx8)" by (simp_all add: worlds)
  with used_once [OF reach8, of "id_x ''ann''" "''a$2222222222''" 0 nx "at_x 9" "''inv_x''"] show ?thesis by blast
qed

lemma disabled_is_out_witness:
  "id_x ''bob'' \<in> aw_sealed wx8 \<and>
    \<not> (\<exists>ru. fst (requireAuth confx ''Bearer gsp_b'' ''/api/v1/notes'' nx (at_x 9) bx) = Inr (ru, ''gsp_b'') \<and> ru_id ru = id_x ''bob'') \<and>
    \<not> (\<exists>r. fst (handleLogin confx bobx (Some ''c'') (nx + 1) (at_x 9) (at_x 9) (at_x 9) bx) = Inr r \<and> sp_user (lo_session r) = id_x ''bob'')"
proof -
  have m: "id_x ''bob'' \<in> aw_sealed wx8" by (simp add: worlds)
  have conf: "wc_lib confx = libx" by (simp add: confx_def)
  have "deriveUserID libx ''bob'' (nx + 1) \<noteq> id_x ''bob''" by code_simp
  then have fresh: "deriveUserID (wc_lib confx) (lr_username bobx) (nx + 1) \<noteq> id_x ''bob''" by (simp add: conf bobx_def)
  note out = disabled_is_out [OF reach8 [folded conf] accx fresh]
  from out [where header = "''Bearer gsp_b''" and token = "''gsp_b''" and t = nx] m
  show ?thesis by blast
qed

lemma one_owner_witness:
  "length (a_users (accounts_of (aw_sys wx8))) = 3 \<and> distinct (map u_name (a_users (accounts_of (aw_sys wx8)))) \<and>
    length (filter (\<lambda>u. u_role u = RoleOwner) (a_users (accounts_of (aw_sys wx8)))) \<le> 1"
proof -
  have "length (a_users (accounts_of sx8)) = 3" by code_simp
  then have "length (a_users (accounts_of (aw_sys wx8))) = 3" by (simp add: worlds)
  with one_owner [OF reach8, of "a_users (accounts_of (aw_sys wx8))"] show ?thesis by simp
qed

definition rootx_user :: request_user where
  "rootx_user = \<lparr>ru_id = id_x ''root'', ru_name = ''root'', ru_role = RoleOwner, ru_restricted = False\<rparr>"

definition resetx :: "(api_error + nat \<times> nat) \<times> web_sys" where
  "resetx = resetUserPassword confx rootx_user (id_x ''ann'') ''password4'' ''password1'' ''s'' nx (at_x 9) (at_x 9) (at_x 9) bx"

lemma reset_ends_sessions_witness:
  "fst resetx = Inr (1, 0) \<and> list_ex (\<lambda>t. sp_user t = id_x ''ann'') (sessions (wb_spa bx)) \<and>
    \<not> list_ex (\<lambda>t. sp_user t = id_x ''ann'') (sessions (wb_spa (snd resetx)))"
proof -
  have had: "fst resetx = Inr (1, 0)" "list_ex (\<lambda>t. sp_user t = id_x ''ann'') (sessions (wb_spa bx))" by code_simp+
  have some: "id_x ''ann'' \<noteq> []" by code_simp
  have r: "resetUserPassword confx rootx_user (id_x ''ann'') ''password4'' ''password1'' ''s'' nx (at_x 9) (at_x 9) (at_x 9) bx = (Inr (1, 0), snd resetx)"
    using had(1) by (simp add: resetx_def prod_eq_iff)
  have "\<forall>t\<in>set (sessions (wb_spa (snd resetx))). sp_user t \<noteq> id_x ''ann''"
    by (rule reset_ends_sessions [OF r some, THEN conjunct1])
  with had show ?thesis by (auto simp: list_ex_iff)
qed

subsection \<open>Findings\<close>

text \<open>
  \<open>user setup --replace\<close> at the console removes every account and says their sessions stop working. The running server reloads the
  accounts at a sign-in or a change only: until then it serves the removed owner's session, as the owner, though the file has
  no such account.
\<close>

definition replacedx :: acc_sys where
  "replacedx = (let sys = snd (Replace libx ''t'' None ''chief'' ''password9'' False (nx + 1) (at_x 9) (case enter Console sx1 of Some s \<Rightarrow> s | None \<Rightarrow> sx1))
     in leave Console sx1 sys)"

definition rootx :: web_sys where
  "rootx = bx\<lparr>wb_acc := replacedx, wb_spa := snd (spa_Create (\<lambda>s. s) (Some ''r'') (id_x ''root'') ''ua'' nx (at_x 1) spax)\<rparr>"

lemma replaced_owner_served:
  "fst (requireAuth confx ''Bearer gsp_r'' ''/api/v1/admin/users'' nx (at_x 9) rootx) =
      Inr (\<lparr>ru_id = id_x ''root'', ru_name = ''root'', ru_role = RoleOwner, ru_restricted = False\<rparr>, ''gsp_r'')"
  "map u_name (a_users (file_accounts (wb_acc rootx))) = [''chief'']"
  by code_simp+

text \<open>
  Disabling an account whose save fails answers an error and leaves it disabled in memory. Asked again it answers that all is
  well, without saving: the account is enabled on disk and comes back at a restart.
\<close>

lemma failed_disable_comes_back:
  "fst (DisableUser (id_x ''bob'') nx SaveFails sx7) = Inl AccountsNotSaved"
  "fst (DisableUser (id_x ''bob'') nx (at_x 8) (snd (DisableUser (id_x ''bob'') nx SaveFails sx7))) = Inr False"
  "map u_disabled (filter (\<lambda>u. u_name u = ''bob'') (a_users (file_accounts
     (snd (DisableUser (id_x ''bob'') nx (at_x 8) (snd (DisableUser (id_x ''bob'') nx SaveFails sx7))))))) = [None]"
  by code_simp+

text \<open>
  An account added before there is an owner (\<open>user add\<close> on a fresh install) leaves none to come: the first start creates no
  owner and \<open>user setup\<close> refuses.
\<close>

lemma added_before_owner:
  "fst (ProvisionInitialOwner libx ''s'' (Some ''password0'') ''admin'' nx True (at_x 3)
     (snd (AddUser libx ''s'' ''ann'' ''password2'' RoleMember nx (at_x 2) sx0))) = Inr []"
  "fst (Setup libx ''s'' None ''admin'' ''password0'' False nx (at_x 3)
     (snd (AddUser libx ''s'' ''ann'' ''password2'' RoleMember nx (at_x 2) sx0))) = Inl SetupWouldReplace"
  "firstOwner (file_accounts (snd (AddUser libx ''s'' ''ann'' ''password2'' RoleMember nx (at_x 2) sx0))) = None"
  by code_simp+

end
