(* ===== verification/Spec2Isabelle.thy ===== *)
theory Spec2Isabelle
  imports TokenClaims ProjectMigration RateWindow WriteLimiter LoginLimiter Quota JobFair JobTokens Schedule PipeSample HubSample OAuthFlood WebSample
begin

text \<open>
  Gosidian is a server for vaults of Markdown notes, in Go: a REST API, an MCP endpoint for
  agents, background jobs and pipelines over one directory of files. This library models the
  parts that decide who may do what, how much, and in which order, and proves what they promise.

  \<^bold>\<open>The parts and their theories.\<close>

  \<^item> \<open>Prelude\<close>, \<open>GoStrings\<close>, \<open>JsonStore\<close>: what Go gives the code. A string is its bytes, a
    time the nanoseconds since the zero time, an \<open>int64\<close> sum wraps (\<open>wrap64\<close>), a map is a finite
    map, a store saved to a file is the store together with the file, whose writes may fail.
  \<^item> Access (\<open>Authz\<close>: \<open>internal/authz/authz.go\<close>, \<open>token.go\<close>, the roles of \<open>internal/webauth\<close>): the
    level of an account on a project (\<open>explain\<close>, \<open>level_of\<close>) and the narrowing of a token to its
    account (\<open>NarrowToken\<close>). \<open>level_is_capped_maximum\<close> relates it to the access rule in one line.
  \<^item> Tokens (\<open>Tokens\<close>, \<open>TokenStore\<close>, \<open>TokenClaims\<close>: \<open>internal/auth/auth.go\<close>): the records, and every
    operation of the store, from minting to the rename of a project.
  \<^item> Projects (\<open>Projects\<close>, \<open>Members\<close>, \<open>Teams\<close>, \<open>ProjectAccess\<close>, with \<open>ProjectInv\<close>, \<open>ProjectSteps\<close>,
    \<open>ProjectClaims\<close>, \<open>ProjectMigration\<close>: \<open>internal/projects/*.go\<close>): flags, visibility, grants to
    accounts and teams, the snapshot of a rename, the migration to grants. \<open>proj_step\<close> is one
    operation on the store and its file, \<open>proj_reachable\<close> what any operations lead to.
  \<^item> Limits (\<open>RateWindow\<close>: \<open>internal/ratelimit/window.go\<close>; \<open>WriteLimiter\<close>: \<open>internal/mcp/ratelimit.go\<close>;
    \<open>LoginLimiter\<close>: \<open>internal/api/v1/ratelimit.go\<close>; \<open>Quota\<close>: \<open>internal/uploadquota/quota.go\<close>). The locale
    \<open>sliding_window\<close> states the contract of a limiter once; the window and the write limiter are
    its instances.
  \<^item> Jobs (\<open>Gate\<close>: \<open>internal/jobs/gate.go\<close>; \<open>JobStore\<close>, \<open>JobQueue\<close>, \<open>JobClaim\<close>, \<open>JobFair\<close>:
    \<open>store.go\<close>; \<open>JobRunner\<close>: \<open>runner.go\<close>; \<open>JobTokens\<close>: \<open>tokens.go\<close>, \<open>spend.go\<close>): the runs and steps
    of background work as tables, the queue in order and in fair shares, the gate that limits the
    calls of a resource, and the runner that asks an executor what comes next. \<open>JobSteps\<close> is what
    the workers, the callers and the timers do between two locks, \<open>JobInv\<close> and \<open>JobReach\<close> what
    holds of every state they reach. The locale \<open>place_gate\<close> is what a claim relies on of the gate.
  \<^item> Pipelines (\<open>PipeExpr\<close>: \<open>internal/pipeline/expr.go\<close>; \<open>PipeSpec\<close>, \<open>PipeParse\<close>: \<open>spec.go\<close>;
    \<open>PipeNext\<close>: \<open>Next\<close> of \<open>engine.go\<close>; \<open>Schedule\<close>: \<open>internal/automation/schedule.go\<close>): expressions, the
    reading and the check of a pipeline block, and the executor that decides which nodes run.
    \<open>PipeGraph\<close> proves the depth-first check against the graph's paths, \<open>PipeRun\<close> joins \<open>Next\<close> to the
    runner, \<open>PipeScope\<close> shows the names of a queued node resolve; \<open>PipeSample\<close> has the witnesses.
  \<^item> Events (\<open>EventHub\<close>: \<open>internal/server/events/hub.go\<close>; \<open>WaitChanges\<close>: \<open>internal/mcp/tools_wait.go\<close>): the
    numbered events, the ring, the channels that drop their oldest, and the long poll over them.
    \<open>HubSteps\<close> interleaves publishers, subscribers and a shutdown at their critical sections, with
    ghost fields for what each was offered; \<open>HubClaims\<close> and \<open>HubSample\<close> hold the results.
  \<^item> OAuth (\<open>OAuthNet\<close>, \<open>OAuthClients\<close>: \<open>internal/oauth/clients.go\<close>; \<open>OAuthTokens\<close>: the grants in the token store;
    \<open>OAuthServer\<close>: \<open>oauth.go\<close>, \<open>authorize.go\<close>, \<open>token.go\<close>): registration, metadata documents, the consent, codes,
    the exchange and the rotation of refresh tokens. \<open>OAuthSteps\<close> interleaves the requests at their critical sections with
    the operations of the token store, with ghost fields for what was decided, approved, rotated and revoked; \<open>OAuthInv\<close>,
    \<open>OAuthReach\<close>, \<open>OAuthClaims\<close>, \<open>OAuthFlood\<close> prove what holds of every state they reach, \<open>OAuthSample\<close> has the witnesses.
  \<^item> Accounts (\<open>WebAccounts\<close>, \<open>WebFactors\<close>: \<open>internal/webauth/*.go\<close>; \<open>SpaTokens\<close>: \<open>internal/auth/spa_tokens.go\<close>): the
    accounts and their file, invites, passwords, two-factor with its recovery codes, and the sessions. \<open>AccountSteps\<close> is one
    operation of the server or of a command at the console beside it, which share the file only; \<open>AccountInv\<close> and
    \<open>AccountReach\<close> prove the invariants. \<open>WebApi\<close> and \<open>WebRoutes\<close> (\<open>internal/api/v1\<close>: \<open>auth.go\<close>, \<open>middleware.go\<close>,
    \<open>events.go\<close>, \<open>vaultfiles.go\<close>, \<open>password.go\<close>, \<open>totp.go\<close>, \<open>admin_users.go\<close>, \<open>signup.go\<close>) are the routes over these
    stores; \<open>WebClaims\<close> and \<open>WebSample\<close> hold the results and their runs.

  \<^bold>\<open>How they interact.\<close> A request carries a token: \<open>Validate\<close> finds it, \<open>NarrowToken\<close> cuts it down to
  what \<open>level_of\<close> gives its owner over \<open>AccessConfig\<close> of the projects store, and the limiters count it.
  The claim of the job queue takes places at the gate and gives them back when it fails. \<open>Next\<close> of the
  pipeline engine is the executor of the job runner: its changes are applied by \<open>store_apply\<close>. \<open>requireAuth\<close> joins a
  session of \<open>SpaTokens\<close> to its account; disabling an account goes through the accounts, the tokens, the sessions and the
  projects in turn (\<open>disableAccount\<close>). The grants of OAuth are records of \<open>TokenStore\<close>.

  \<^bold>\<open>Parameters.\<close> The hash of a secret, random identifiers, the parsers of the \<open>net\<close> package, of JSON, of
  YAML, of globs and of durations, the format of a floating number, and the clock are arguments of the
  definitions that use them; so are bcrypt, TOTP, the directory's bind (\<open>acc_lib\<close>) and the fetch of a client's metadata. A
  fresh id, hash or token is a premise of the step that draws it. Go leaves the order of a map's iteration open: a loop that treats the
  entries alike has no order here, the others take the keys in increasing order, one Go may take.

  \<^bold>\<open>Bounds and termination.\<close> The loops of the source are structural recursions, or terminate by a measure
  (\<open>fair_level\<close>, \<open>strip\<close>). Four take fuel: the depth-first search of the graph check, which \<open>check_spec\<close>
  gives one more than the number of nodes (\<open>check_returns\<close>: it never runs out), and the passes of
  \<open>Next\<close>, which \<open>engine_next\<close> gives one more than the number of steps, since every pass but the last
  ends a pending step; the eviction of pending consents, given their number, since each round drops one; and the search of a
  free name for a disabled account, given the number of accounts (\<open>archived_name_exists\<close>: one of the names is free).

  \<^bold>\<open>Not modelled.\<close> The search index, the Markdown parser, git synchronisation, the web interface, the
  HTTP and MCP handlers around the modelled operations (but the account routes and the OAuth endpoints), the audit log,
  cookies and pages, the nodes of the pipelines and the calls that
  start one, and configuration loading, which are I/O or calls of other packages and services. Locks
  are the boundaries of the definitions: a critical section is one definition, and where calls run
  at once a step relation interleaves them. SQLite and the file system are modelled by the operations
  used of them; an error of the database inside the runner is not. The header \<open>X-Forwarded-For\<close> is one string.
\<close>

end
